(* ===== verification/Rust_Prelude.thy ===== *)
theory Rust_Prelude
  imports Main "HOL-Library.Word" "HOL-Library.Product_Lexorder"
begin

text \<open>
  Shared vocabulary of the development: Rust's machine integers as words with the
  checked, saturating and wrapping operations the sources use, \<open>Result\<close> as a sum with the
  \<open>?\<close> operator as a bind, little-endian byte decoding, and the generic list, word and
  arithmetic lemmas the component theories rest on.
\<close>

section \<open>Machine integers\<close>

type_synonym u8 = "8 word"
type_synonym u16 = "16 word"
type_synonym u32 = "32 word"
type_synonym u64 = "64 word"

named_theorems u64_nat \<open>unat images of the u64 operations\<close>

definition u64_MAX :: u64 where
  "u64_MAX = 0xFFFFFFFFFFFFFFFF"

definition checked_add :: "u64 \<Rightarrow> u64 \<Rightarrow> u64 option" where
  "checked_add a b = (if unat a + unat b < 2 ^ 64 then Some (a + b) else None)"

definition checked_mul :: "u64 \<Rightarrow> u64 \<Rightarrow> u64 option" where
  "checked_mul a b = (if unat a * unat b < 2 ^ 64 then Some (a * b) else None)"

definition saturating_add :: "u64 \<Rightarrow> u64 \<Rightarrow> u64" where
  "saturating_add a b = (if unat a + unat b < 2 ^ 64 then a + b else u64_MAX)"

definition saturating_sub :: "u64 \<Rightarrow> u64 \<Rightarrow> u64" where
  "saturating_sub a b = (if a < b then 0 else a - b)"

definition saturating_mul :: "u64 \<Rightarrow> u64 \<Rightarrow> u64" where
  "saturating_mul a b = (if unat a * unat b < 2 ^ 64 then a * b else u64_MAX)"

definition div_ceil :: "u64 \<Rightarrow> u64 \<Rightarrow> u64" where
  "div_ceil a b = (let d = a div b; r = a mod b in if r > 0 then d + 1 else d)"

lemma unat_u64_MAX [simp, u64_nat]: "unat u64_MAX = 2 ^ 64 - 1"
  by (simp add: u64_MAX_def)

lemma unat_lt_u64 [simp]: "unat (a :: u64) < 2 ^ 64"
  using unsigned_less [of a, where ?'a = nat] by simp

lemma unat_lt_u64_num [simp]: "unat (a :: u64) < 18446744073709551616"
  using unsigned_less [of a, where ?'a = nat] by simp

lemma unat_le_u64_num [simp]: "unat (a :: u64) \<le> 18446744073709551615"
  using unat_lt_u64_num [of a] by linarith

lemma unat_add_u64: "unat a + unat b < 2 ^ 64 \<Longrightarrow> unat ((a :: u64) + b) = unat a + unat b"
  by (simp add: unat_word_ariths)

lemma unat_mul_u64: "unat a * unat b < 2 ^ 64 \<Longrightarrow> unat ((a :: u64) * b) = unat a * unat b"
  by (simp add: unat_word_ariths)

lemma unat_sub_u64: "b \<le> a \<Longrightarrow> unat ((a :: u64) - b) = unat a - unat b"
  by (simp add: unat_sub_if' word_le_nat_alt)

lemma unat_max_word [u64_nat]: "unat (max a b) = max (unat a) (unat (b :: u64))"
  by (simp add: max_def word_le_nat_alt)

lemma unat_min_word [u64_nat]: "unat (min a b) = min (unat a) (unat (b :: u64))"
  by (simp add: min_def word_le_nat_alt)

lemma unat_saturating_add [u64_nat]:
  "unat (saturating_add a b) = min (2 ^ 64 - 1) (unat a + unat b)"
  by (auto simp: saturating_add_def unat_add_u64 min_def)

lemma unat_saturating_mul [u64_nat]:
  "unat (saturating_mul a b) = min (2 ^ 64 - 1) (unat a * unat b)"
  by (auto simp: saturating_mul_def unat_mul_u64 min_def)

lemma unat_saturating_sub [u64_nat]: "unat (saturating_sub a b) = unat a - unat b"
  by (auto simp: saturating_sub_def unat_sub_u64 word_less_nat_alt word_le_nat_alt)

lemma nat_div_ceil:
  assumes "0 < (b :: nat)"
  shows "(a + b - 1) div b = a div b + (if 0 < a mod b then 1 else 0)"
proof -
  obtain q r where a: "a = q * b + r" and r: "r < b"
    using mod_less_divisor [OF assms, of a] div_mult_mod_eq [of a b] by metis
  show ?thesis
  proof (cases "r = 0")
    case True
    have "(a + b - 1) div b = q"
      by (rule div_nat_eqI) (use a True assms in \<open>simp_all add: algebra_simps\<close>)
    then show ?thesis using a True assms by simp
  next
    case False
    then have "(a + b - 1) div b = q + 1"
      by (intro div_nat_eqI) (use a r in \<open>simp_all add: algebra_simps\<close>)
    then show ?thesis using a r False by simp
  qed
qed

lemma unat_div_ceil [u64_nat]:
  assumes "0 < unat b"
  shows "unat (div_ceil a b) = (unat a + unat b - 1) div unat b"
proof (cases "0 < unat a mod unat b")
  case True
  have "unat a div unat b < 2 ^ 64 - 1"
  proof (cases "unat b = 1")
    case True
    then show ?thesis using \<open>0 < unat a mod unat b\<close> by simp
  next
    case False
    with assms have "2 \<le> unat b" by linarith
    then have "unat a div unat b \<le> unat a div 2" by (simp add: div_le_mono2)
    moreover have "unat a div 2 < 18446744073709551615"
      using unat_lt_u64_num [of a] by linarith
    ultimately show ?thesis by simp
  qed
  then have "unat (a div b + 1) = unat a div unat b + 1"
    by (subst unat_add_u64) (simp_all add: unat_div)
  then show ?thesis
    using True nat_div_ceil [OF assms, of "unat a"]
    by (simp add: div_ceil_def word_less_nat_alt unat_mod Let_def)
next
  case False
  then show ?thesis
    using nat_div_ceil [OF assms, of "unat a"]
    by (simp add: div_ceil_def word_less_nat_alt unat_mod unat_div Let_def)
qed

lemma checked_add_Some [simp]:
  "checked_add a b = Some c \<longleftrightarrow> unat a + unat b < 2 ^ 64 \<and> c = a + b"
  by (auto simp: checked_add_def)

lemma checked_mul_Some [simp]:
  "checked_mul a b = Some c \<longleftrightarrow> unat a * unat b < 2 ^ 64 \<and> c = a * b"
  by (auto simp: checked_mul_def)

section \<open>Result and the question-mark operator\<close>

definition ok_or :: "'a option \<Rightarrow> 'e \<Rightarrow> 'e + 'a" where
  "ok_or x e = (case x of None \<Rightarrow> Inl e | Some y \<Rightarrow> Inr y)"

definition try_bind :: "'e + 'a \<Rightarrow> ('a \<Rightarrow> 'e + 'b) \<Rightarrow> 'e + 'b" where
  "try_bind m f = (case m of Inl e \<Rightarrow> Inl e | Inr x \<Rightarrow> f x)"

definition guard_err :: "bool \<Rightarrow> 'e \<Rightarrow> ('e + 'b) \<Rightarrow> 'e + 'b" where
  "guard_err bad e k = (if bad then Inl e else k)"

lemma ok_or_Inr [simp]: "ok_or x e = Inr y \<longleftrightarrow> x = Some y"
  by (simp add: ok_or_def split: option.splits)

lemma ok_or_Inl [simp]: "ok_or x e = Inl e' \<longleftrightarrow> x = None \<and> e' = e"
  by (auto simp: ok_or_def split: option.splits)

lemma ok_or_simps [simp]: "ok_or (Some y) e = Inr y" "ok_or None e = Inl e"
  by (simp_all add: ok_or_def)

lemma try_bind_simps [simp]: "try_bind (Inr x) f = f x" "try_bind (Inl e) f = Inl e"
  by (simp_all add: try_bind_def)

lemma try_bind_Inr [simp]:
  "try_bind m f = Inr y \<longleftrightarrow> (\<exists>x. m = Inr x \<and> f x = Inr y)"
  by (cases m) simp_all

lemma try_bind_cong [fundef_cong]:
  "m = m' \<Longrightarrow> (\<And>x. m' = Inr x \<Longrightarrow> f x = g x) \<Longrightarrow> try_bind m f = try_bind m' g"
  by (cases m') simp_all

lemma guard_err_Inr [simp]: "guard_err bad e k = Inr y \<longleftrightarrow> \<not> bad \<and> k = Inr y"
  by (simp add: guard_err_def)

lemma guard_err_simps [simp]:
  "guard_err True e k = Inl e" "guard_err False e k = k"
  by (simp_all add: guard_err_def)

text \<open>\<open>iter().map(f).collect::<Result<Vec<_>, _>>()\<close>: the first error wins.\<close>

fun collect_result :: "('a \<Rightarrow> 'e + 'b) \<Rightarrow> 'a list \<Rightarrow> 'e + 'b list" where
  "collect_result f [] = Inr []"
| "collect_result f (x # xs) =
     try_bind (f x) (\<lambda>y. try_bind (collect_result f xs) (\<lambda>ys. Inr (y # ys)))"

lemma collect_result_Inr:
  "collect_result f xs = Inr ys \<longleftrightarrow> list_all2 (\<lambda>x y. f x = Inr y) xs ys"
  by (induction xs arbitrary: ys) (auto simp: list_all2_Cons1)

lemma collect_result_length: "collect_result f xs = Inr ys \<Longrightarrow> length ys = length xs"
  by (simp add: collect_result_Inr list_all2_lengthD)

lemma collect_result_memD:
  "collect_result f xs = Inr ys \<Longrightarrow> y \<in> set ys \<Longrightarrow> \<exists>x \<in> set xs. f x = Inr y"
  unfolding collect_result_Inr list_all2_conv_all_nth in_set_conv_nth by (metis nth_mem)

lemma collect_result_cong [fundef_cong]:
  "xs = ys \<Longrightarrow> (\<And>x. x \<in> set ys \<Longrightarrow> f x = g x) \<Longrightarrow> collect_result f xs = collect_result g ys"
  by (induction ys arbitrary: xs) (auto intro!: try_bind_cong)

section \<open>Little-endian bytes\<close>

text \<open>\<open>from_le_bytes\<close> and \<open>to_le_bytes\<close> of the unsigned integers, on byte lists.\<close>

fun le_nat :: "u8 list \<Rightarrow> nat" where
  "le_nat [] = 0"
| "le_nat (b # bs) = unat b + 256 * le_nat bs"

fun nat_le :: "nat \<Rightarrow> nat \<Rightarrow> u8 list" where
  "nat_le 0 n = []"
| "nat_le (Suc k) n = word_of_nat (n mod 256) # nat_le k (n div 256)"

definition u64_from_le_bytes :: "u8 list \<Rightarrow> u64" where
  "u64_from_le_bytes bs = word_of_nat (le_nat bs)"

definition u64_to_le_bytes :: "u64 \<Rightarrow> u8 list" where
  "u64_to_le_bytes w = nat_le 8 (unat w)"

lemma length_nat_le [simp]: "length (nat_le k n) = k"
  by (induction k arbitrary: n) simp_all

lemma le_nat_bound: "le_nat bs < 256 ^ length bs"
proof (induction bs)
  case (Cons b bs)
  have "unat b < 256" using unsigned_less [of b, where ?'a = nat] by simp
  with Cons show ?case by simp
qed simp

lemma le_nat_nat_le: "le_nat (nat_le k n) = n mod 256 ^ k"
proof (induction k arbitrary: n)
  case (Suc k)
  have "unat (word_of_nat (n mod 256) :: u8) = n mod 256"
    by (simp add: unat_of_nat)
  with Suc show ?case by (simp add: mod_mult2_eq)
qed simp

lemma nat_le_le_nat: "nat_le (length bs) (le_nat bs) = bs"
proof (induction bs)
  case (Cons b bs)
  have "unat b < 256" using unsigned_less [of b, where ?'a = nat] by simp
  with Cons show ?case by simp
qed simp

lemma u64_le_roundtrip: "u64_from_le_bytes (u64_to_le_bytes w) = w"
  using unat_lt_u64_num [of w]
  by (simp add: u64_from_le_bytes_def u64_to_le_bytes_def le_nat_nat_le del: nat_le.simps)

lemma u64_to_le_bytes_length [simp]: "length (u64_to_le_bytes w) = 8"
  by (simp add: u64_to_le_bytes_def del: nat_le.simps)

section \<open>Rounding to a multiple, on natural numbers\<close>

definition floor_mult :: "nat \<Rightarrow> nat \<Rightarrow> nat" where
  "floor_mult x b = x div b * b"

definition ceil_mult :: "nat \<Rightarrow> nat \<Rightarrow> nat" where
  "ceil_mult x b = (x + b - 1) div b * b"

lemma floor_mult_le: "floor_mult x b \<le> x"
  by (simp add: floor_mult_def)

lemma floor_mult_dvd: "b dvd floor_mult x b"
  by (simp add: floor_mult_def)

lemma floor_mult_mono: "x \<le> y \<Longrightarrow> floor_mult x b \<le> floor_mult y b"
  by (simp add: floor_mult_def div_le_mono)

lemma ceil_mult_dvd: "b dvd ceil_mult x b"
  by (simp add: ceil_mult_def)

lemma ceil_mult_mono: "x \<le> y \<Longrightarrow> ceil_mult x b \<le> ceil_mult y b"
  by (simp add: ceil_mult_def div_le_mono)

lemma ceil_mult_ge:
  assumes "0 < b" shows "x \<le> ceil_mult x b"
proof -
  have "x + b - 1 < ((x + b - 1) div b + 1) * b"
    using assms dividend_less_div_times [of b "x + b - 1"] by simp
  then show ?thesis using assms by (simp add: ceil_mult_def)
qed

lemma ceil_mult_less:
  assumes "0 < b" shows "ceil_mult x b < x + b"
proof -
  have "(x + b - 1) div b * b \<le> x + b - 1" by simp
  with assms show ?thesis unfolding ceil_mult_def by linarith
qed

lemma floor_mult_greater: "0 < b \<Longrightarrow> x < floor_mult x b + b"
  using dividend_less_div_times [of b x] by (simp add: floor_mult_def add.commute)

lemma ceil_mult_dvd_id: "b dvd x \<Longrightarrow> ceil_mult x b = x"
  by (cases "b = 0") (auto simp: ceil_mult_def nat_div_ceil [simplified] elim!: dvdE)

end
