(* ===== verification/Rust_Str.thy ===== *)
theory Rust_Str
  imports Rust_Prelude "HOL-Library.List_Lexorder"
begin

text \<open>
  Rust's \<open>char\<close> and \<open>str\<close>. A \<open>char\<close> is its scalar value, a natural number; a string is
  its list of chars; \<open>lit\<close> turns an ASCII literal into one. The UTF-8 encoding gives the
  bytes behind a string (\<open>as_bytes\<close>, \<open>len\<close>), and the second half models the string
  methods the sources call: prefix and suffix stripping, \<open>find\<close>, \<open>split_once\<close>,
  \<open>rsplit\<close>, \<open>trim_matches\<close>.
\<close>

section \<open>Chars, strings and literals\<close>

type_synonym rchar = nat
type_synonym rstr = "rchar list"

definition lit :: "string \<Rightarrow> rstr" where
  "lit s = map of_char s"

definition valid_char :: "rchar \<Rightarrow> bool" where
  "valid_char c \<longleftrightarrow> c < 0xD800 \<or> (0xE000 \<le> c \<and> c < 0x110000)"

definition valid_str :: "rstr \<Rightarrow> bool" where
  "valid_str s \<longleftrightarrow> (\<forall>c \<in> set s. valid_char c)"

text \<open>\<open>char::from_u32\<close>.\<close>

definition char_from_u32 :: "nat \<Rightarrow> rchar option" where
  "char_from_u32 n = (if valid_char n then Some n else None)"

lemma valid_str_simps [simp]:
  "valid_str []"
  "valid_str (c # s) \<longleftrightarrow> valid_char c \<and> valid_str s"
  "valid_str (s @ t) \<longleftrightarrow> valid_str s \<and> valid_str t"
  by (auto simp: valid_str_def)

lemma lit_simps [simp]: "lit [] = []" "lit (c # s) = of_char c # lit s"
  by (simp_all add: lit_def)

lemma lit_append: "lit (s @ t) = lit s @ lit t"
  by (simp add: lit_def)

lemma length_lit [simp]: "length (lit s) = length s"
  by (simp add: lit_def)

section \<open>UTF-8\<close>

definition utf8_char :: "rchar \<Rightarrow> nat list" where
  "utf8_char c =
     (if c < 0x80 then [c]
      else if c < 0x800 then [0xC0 + c div 64, 0x80 + c mod 64]
      else if c < 0x10000 then [0xE0 + c div 4096, 0x80 + c div 64 mod 64, 0x80 + c mod 64]
      else [0xF0 + c div 262144, 0x80 + c div 4096 mod 64, 0x80 + c div 64 mod 64, 0x80 + c mod 64])"

definition utf8 :: "rstr \<Rightarrow> nat list" where
  "utf8 s = concat (map utf8_char s)"

definition char_len_utf8 :: "rchar \<Rightarrow> nat" where
  "char_len_utf8 c = (if c < 0x80 then 1 else if c < 0x800 then 2 else if c < 0x10000 then 3 else 4)"

definition str_len :: "rstr \<Rightarrow> nat" where
  "str_len s = sum_list (map char_len_utf8 s)"

text \<open>\<open>str::from_utf8\<close>: strict decoding (shortest form, no surrogates, at most U+10FFFF).\<close>

definition is_cont :: "nat \<Rightarrow> bool" where
  "is_cont b \<longleftrightarrow> 0x80 \<le> b \<and> b < 0xC0"

fun from_utf8 :: "nat list \<Rightarrow> rstr option" where
  "from_utf8 [] = Some []"
| "from_utf8 (a # r) =
     (if a < 0x80 then map_option (Cons a) (from_utf8 r)
      else if 0xC2 \<le> a \<and> a < 0xE0 then
        (case r of b # r' \<Rightarrow>
           if is_cont b then map_option (Cons ((a - 0xC0) * 64 + (b - 0x80))) (from_utf8 r')
           else None
         | _ \<Rightarrow> None)
      else if 0xE0 \<le> a \<and> a < 0xF0 then
        (case r of b # c # r' \<Rightarrow>
           let v = (a - 0xE0) * 4096 + (b - 0x80) * 64 + (c - 0x80) in
           if is_cont b \<and> is_cont c \<and> 0x800 \<le> v \<and> valid_char v
           then map_option (Cons v) (from_utf8 r') else None
         | _ \<Rightarrow> None)
      else if 0xF0 \<le> a \<and> a < 0xF5 then
        (case r of b # c # d # r' \<Rightarrow>
           let v = (a - 0xF0) * 262144 + (b - 0x80) * 4096 + (c - 0x80) * 64 + (d - 0x80) in
           if is_cont b \<and> is_cont c \<and> is_cont d \<and> 0x10000 \<le> v \<and> valid_char v
           then map_option (Cons v) (from_utf8 r') else None
         | _ \<Rightarrow> None)
      else None)"

lemma length_utf8_char [simp]: "length (utf8_char c) = char_len_utf8 c"
  by (simp add: utf8_char_def char_len_utf8_def)

lemma char_len_utf8_bounds: "1 \<le> char_len_utf8 c" "char_len_utf8 c \<le> 4"
  by (auto simp: char_len_utf8_def)

lemma utf8_simps [simp]:
  "utf8 [] = []" "utf8 (c # s) = utf8_char c @ utf8 s" "utf8 (s @ t) = utf8 s @ utf8 t"
  by (simp_all add: utf8_def)

lemma str_len_simps [simp]:
  "str_len [] = 0" "str_len (c # s) = char_len_utf8 c + str_len s"
  "str_len (s @ t) = str_len s + str_len t"
  by (simp_all add: str_len_def)

lemma length_utf8 [simp]: "length (utf8 s) = str_len s"
  by (induction s) simp_all

lemma utf8_bytes: "valid_str s \<Longrightarrow> b \<in> set (utf8 s) \<Longrightarrow> b < 256"
proof (induction s)
  case (Cons c s)
  then have "c < 0x110000" by (auto simp: valid_char_def)
  with Cons show ?case
    by (auto simp: utf8_char_def split: if_splits)
qed simp

lemma base64_digits:
  "(c::nat) div 262144 * 262144 + c div 4096 mod 64 * 4096 + c div 64 mod 64 * 64 + c mod 64 = c"
proof -
  have 1: "c div 64 * 64 + c mod 64 = c" by simp
  have 2: "c div 4096 * 64 + c div 64 mod 64 = c div 64"
    using div_mult_mod_eq [of "c div 64" 64] by (simp add: div_mult2_eq [symmetric])
  have 3: "c div 262144 * 64 + c div 4096 mod 64 = c div 4096"
    using div_mult_mod_eq [of "c div 4096" 64] by (simp add: div_mult2_eq [symmetric])
  from 1 2 3 show ?thesis by linarith
qed

lemma from_utf8_char:
  assumes "valid_char c"
  shows "from_utf8 (utf8_char c @ r) = map_option (Cons c) (from_utf8 r)"
proof -
  consider "c < 0x80" | "0x80 \<le> c" "c < 0x800" | "0x800 \<le> c" "c < 0x10000"
    | "0x10000 \<le> c" "c < 0x110000"
    using assms by (fastforce simp: valid_char_def)
  then show ?thesis
  proof cases
    case 1
    then show ?thesis by (simp add: utf8_char_def)
  next
    case 2
    have "c div 64 * 64 + c mod 64 = c" by simp
    moreover have "2 \<le> c div 64" "c div 64 < 32" using 2 by auto
    ultimately show ?thesis using 2
      by (simp add: utf8_char_def is_cont_def)
  next
    case 3
    have v: "c div 4096 * 4096 + c div 64 mod 64 * 64 + c mod 64 = c"
      using base64_digits [of c] 3 by simp
    have "c div 4096 < 16" using 3 by auto
    then show ?thesis using 3 assms v
      by (simp add: utf8_char_def is_cont_def Let_def)
  next
    case 4
    have v: "c div 262144 * 262144 + c div 4096 mod 64 * 4096 + c div 64 mod 64 * 64 + c mod 64 = c"
      by (rule base64_digits)
    have "c div 262144 < 5" using 4 by auto
    then show ?thesis using 4 assms v
      by (simp add: utf8_char_def is_cont_def Let_def)
  qed
qed

lemma from_utf8_utf8: "valid_str s \<Longrightarrow> from_utf8 (utf8 s) = Some s"
  by (induction s) (simp_all add: from_utf8_char del: from_utf8.simps(2))

lemma utf8_inj: "valid_str s \<Longrightarrow> valid_str t \<Longrightarrow> utf8 s = utf8 t \<Longrightarrow> s = t"
  by (metis from_utf8_utf8 option.inject)

section \<open>String methods\<close>

definition starts_with :: "'a list \<Rightarrow> 'a list \<Rightarrow> bool" where
  "starts_with s p \<longleftrightarrow> take (length p) s = p"

definition ends_with :: "'a list \<Rightarrow> 'a list \<Rightarrow> bool" where
  "ends_with s p \<longleftrightarrow> starts_with (rev s) (rev p)"

definition strip_prefix :: "'a list \<Rightarrow> 'a list \<Rightarrow> 'a list option" where
  "strip_prefix s p = (if starts_with s p then Some (drop (length p) s) else None)"

definition strip_suffix :: "'a list \<Rightarrow> 'a list \<Rightarrow> 'a list option" where
  "strip_suffix s p = (if ends_with s p then Some (take (length s - length p) s) else None)"

text \<open>\<open>str::find\<close> of a pattern: the number of chars before its first occurrence.\<close>

fun find_sub :: "'a list \<Rightarrow> 'a list \<Rightarrow> nat option" where
  "find_sub [] p = (if p = [] then Some 0 else None)"
| "find_sub (c # s) p =
     (if starts_with (c # s) p then Some 0 else map_option Suc (find_sub s p))"

definition contains_sub :: "'a list \<Rightarrow> 'a list \<Rightarrow> bool" where
  "contains_sub s p \<longleftrightarrow> find_sub s p \<noteq> None"

definition split_once :: "'a list \<Rightarrow> 'a list \<Rightarrow> ('a list \<times> 'a list) option" where
  "split_once s p = map_option (\<lambda>i. (take i s, drop (i + length p) s)) (find_sub s p)"

text \<open>\<open>split(p).next()\<close>: the text before the first occurrence of \<open>p\<close>;
  \<open>rsplit(p).next()\<close>: the text after its last occurrence.\<close>

definition split_first :: "'a list \<Rightarrow> 'a list \<Rightarrow> 'a list" where
  "split_first s p = (case find_sub s p of Some i \<Rightarrow> take i s | None \<Rightarrow> s)"

definition rsplit_first :: "'a list \<Rightarrow> 'a list \<Rightarrow> 'a list" where
  "rsplit_first s p = rev (split_first (rev s) (rev p))"

definition trim_start_matches :: "('a \<Rightarrow> bool) \<Rightarrow> 'a list \<Rightarrow> 'a list" where
  "trim_start_matches f s = dropWhile f s"

definition trim_end_matches :: "('a \<Rightarrow> bool) \<Rightarrow> 'a list \<Rightarrow> 'a list" where
  "trim_end_matches f s = rev (dropWhile f (rev s))"

definition trim_matches :: "('a \<Rightarrow> bool) \<Rightarrow> 'a list \<Rightarrow> 'a list" where
  "trim_matches f s = trim_end_matches f (trim_start_matches f s)"

text \<open>\<open>char::is_whitespace\<close>: the Unicode property White_Space.\<close>

definition is_whitespace :: "rchar \<Rightarrow> bool" where
  "is_whitespace c \<longleftrightarrow>
     (0x09 \<le> c \<and> c \<le> 0x0D) \<or> c = 0x20 \<or> c = 0x85 \<or> c = 0xA0 \<or> c = 0x1680 \<or>
     (0x2000 \<le> c \<and> c \<le> 0x200A) \<or> c = 0x2028 \<or> c = 0x2029 \<or> c = 0x202F \<or> c = 0x205F \<or> c = 0x3000"

text \<open>Decimal output of an integer (\<open>{}\<close>), and of a byte position being a char boundary.\<close>

function show_nat :: "nat \<Rightarrow> rstr" where
  "show_nat n = (if n < 10 then [48 + n] else show_nat (n div 10) @ [48 + n mod 10])"
  by auto
termination by (relation "measure id") auto

declare show_nat.simps [simp del]

definition show_int :: "int \<Rightarrow> rstr" where
  "show_int i = (if i < 0 then 45 # show_nat (nat (- i)) else show_nat (nat i))"

definition is_digit :: "rchar \<Rightarrow> bool" where
  "is_digit c \<longleftrightarrow> 48 \<le> c \<and> c \<le> 57"

definition digits_nat :: "rstr \<Rightarrow> nat" where
  "digits_nat ds = foldl (\<lambda>a d. 10 * a + (d - 48)) 0 ds"

definition char_boundaries :: "rstr \<Rightarrow> nat list" where
  "char_boundaries s = map (\<lambda>k. str_len (take k s)) [0..<length s + 1]"

lemma starts_with_append [simp]: "starts_with (p @ s) p"
  by (simp add: starts_with_def)

lemma starts_with_iff: "starts_with s p \<longleftrightarrow> (\<exists>t. s = p @ t)"
  by (metis append_eq_conv_conj append_take_drop_id starts_with_def)

lemma strip_prefix_append [simp]: "strip_prefix (p @ s) p = Some s"
  by (simp add: strip_prefix_def)

lemma strip_suffix_append [simp]: "strip_suffix (s @ p) p = Some s"
  by (simp add: strip_suffix_def ends_with_def)

lemma find_sub_Some:
  "find_sub s p = Some i \<Longrightarrow> i + length p \<le> length s \<and> take (length p) (drop i s) = p"
proof (induction s arbitrary: i)
  case (Cons c s)
  show ?case
  proof (cases "starts_with (c # s) p")
    case True
    then obtain t where t: "c # s = p @ t" unfolding starts_with_iff by blast
    have "length p \<le> length (c # s)" unfolding t by simp
    moreover have "i = 0" using True Cons.prems by simp
    ultimately show ?thesis using t by simp
  next
    case False
    then show ?thesis using Cons by auto
  qed
qed (auto split: if_splits)

lemma find_sub_None: "find_sub s p = None \<longleftrightarrow> (\<forall>a b. s \<noteq> a @ p @ b)"
proof (induction s)
  case (Cons c s)
  show ?case
  proof (cases "starts_with (c # s) p")
    case True
    then show ?thesis by (auto simp: starts_with_iff) (metis append_Nil)
  next
    case False
    then have "(\<exists>a b. c # s = a @ p @ b) \<longleftrightarrow> (\<exists>a b. s = a @ p @ b)"
      by (auto simp: starts_with_iff Cons_eq_append_conv)
    with False Cons show ?thesis by auto
  qed
qed auto

text \<open>The first occurrence in \<open>v @ p @ r\<close> is the planted one, when no occurrence starts in \<open>v\<close>.\<close>

lemma find_sub_first:
  "(\<And>i. i < length v \<Longrightarrow> \<not> starts_with (drop i (v @ p @ r)) p) \<Longrightarrow> find_sub (v @ p @ r) p = Some (length v)"
proof (induction v)
  case Nil
  then show ?case by (cases p; cases r) (auto simp: starts_with_def)
next
  case (Cons c v)
  have "\<not> starts_with (c # v @ p @ r) p" using Cons.prems [of 0] by simp
  moreover have "find_sub (v @ p @ r) p = Some (length v)"
  proof (rule Cons.IH)
    fix i assume "i < length v"
    then show "\<not> starts_with (drop i (v @ p @ r)) p" using Cons.prems [of "Suc i"] by simp
  qed
  ultimately show ?case by simp
qed

text \<open>For a pattern whose first char occurs only once in it, no occurrence can overlap the start of
  a planted one.\<close>

lemma no_overlap:
  assumes "c \<notin> set p" and "\<not> contains_sub v (c # p)" and "i < length v"
  shows "\<not> starts_with (drop i (v @ (c # p) @ r)) (c # p)"
proof
  assume sw: "starts_with (drop i (v @ (c # p) @ r)) (c # p)"
  let ?k = "length v - i"
  have eq: "take (length (c # p)) (drop i v @ (c # p) @ r) = c # p"
    using sw assms(3) by (simp add: starts_with_def)
  show False
  proof (cases "?k \<ge> length (c # p)")
    case True
    then have "take (length (c # p)) (drop i v) = c # p" using eq by simp
    then have "v = take i v @ (c # p) @ drop (length (c # p)) (drop i v)"
      by (metis append_take_drop_id)
    then show False using assms(2) unfolding contains_sub_def find_sub_None by blast
  next
    case False
    have "(c # p) ! ?k = (drop i v @ (c # p) @ r) ! ?k" using eq False by (metis not_le nth_take)
    also have "\<dots> = c" using nth_append_length [of "drop i v" c "p @ r"] by simp
    finally have "(c # p) ! ?k = c" .
    moreover have "(c # p) ! ?k = p ! (?k - 1)" "?k - 1 < length p" using assms(3) False by (auto simp: nth_Cons')
    ultimately have "c \<in> set p" by (metis nth_mem)
    with assms(1) show False by simp
  qed
qed

lemma find_planted:
  assumes "c \<notin> set p" and "\<not> contains_sub v (c # p)"
  shows "find_sub (v @ (c # p) @ r) (c # p) = Some (length v)"
  by (rule find_sub_first) (rule no_overlap [OF assms])

lemma split_once_planted:
  assumes "c \<notin> set p" and "\<not> contains_sub v (c # p)"
  shows "split_once (v @ (c # p) @ r) (c # p) = Some (v, r)"
  using find_planted [OF assms, of r] by (simp add: split_once_def)

lemma dropWhile_id: "(s = [] \<or> \<not> f (hd s)) \<Longrightarrow> dropWhile f s = s"
  by (cases s) auto

lemma trim_matches_id:
  assumes "s = [] \<or> (\<not> f (hd s) \<and> \<not> f (last s))" shows "trim_matches f s = s"
proof -
  have "dropWhile f s = s" using assms by (intro dropWhile_id) auto
  moreover have "dropWhile f (rev s) = rev s" using assms by (intro dropWhile_id) (auto simp: hd_rev)
  ultimately show ?thesis by (simp add: trim_matches_def trim_start_matches_def trim_end_matches_def)
qed

lemma show_nat_digits: "show_nat n \<noteq> [] \<and> (\<forall>c \<in> set (show_nat n). is_digit c)"
proof (induction n rule: show_nat.induct)
  case (1 n)
  then show ?case by (subst (1 2) show_nat.simps) (auto simp: is_digit_def)
qed

lemma digits_nat_snoc: "digits_nat (ds @ [d]) = 10 * digits_nat ds + (d - 48)"
  by (simp add: digits_nat_def)

lemma digits_nat_show_nat [simp]: "digits_nat (show_nat n) = n"
proof (induction n rule: show_nat.induct)
  case (1 n)
  then show ?case
    by (subst show_nat.simps) (auto simp: digits_nat_snoc, simp add: digits_nat_def)
qed

lemma show_nat_hd: "hd (show_nat n) = 48 \<Longrightarrow> n = 0"
proof (induction n rule: show_nat.induct)
  case (1 n)
  show ?case
  proof (cases "n < 10")
    case True
    then show ?thesis using "1.prems" by (simp add: show_nat.simps [of n])
  next
    case False
    have "show_nat (n div 10) \<noteq> []" using show_nat_digits by blast
    then have "hd (show_nat (n div 10)) = 48" using "1.prems" False by (simp add: show_nat.simps [of n])
    then have "n div 10 = 0" using "1.IH" False by simp
    then show ?thesis using False by simp
  qed
qed

lemma utf8_ascii: "\<forall>c \<in> set s. c < 128 \<Longrightarrow> utf8 s = s"
  by (induction s) (simp_all add: utf8_char_def)

end
