(* ===== verification/Py_Json.thy ===== *)
theory Py_Json
  imports Complex_Main Rust_Str
begin

text \<open>
  The JSON reader and writer whose output matches Python's \<open>json.dumps\<close>
  (\<open>shell-text/src/pyjson.rs\<close>): values that keep key order, \<open>repr\<close> of floats, \<open>dumps\<close>,
  \<open>py_str\<close>, and the recursive-descent parser over bytes. The parser state is the list of the
  bytes still to read; the messages of its errors are constructors without the byte position. The
  standard library's float formatting and parsing are the parameter \<open>jfloat\<close>. The recursion
  of the parser is bounded by fuel; \<open>parse\<close> starts it with more than the input can use.
\<close>

section \<open>Values\<close>

datatype 'f Value =
    VNull
  | VBool bool
  | VInt int
  | VFloat 'f
  | VStr rstr
  | VArray "'f Value list"
  | VObject "(rstr \<times> 'f Value) list"

text \<open>\<open>lower_exp\<close> is \<open>format!("{x:e}")\<close> split at its \<open>e\<close>: the mantissa text and the
  exponent.\<close>

record 'f jfloat =
  jf_nan :: "'f \<Rightarrow> bool"
  jf_infinite :: "'f \<Rightarrow> bool"
  jf_positive :: "'f \<Rightarrow> bool"
  lower_exp :: "'f \<Rightarrow> rstr \<times> int"
  parse_f64 :: "rstr \<Rightarrow> 'f option"
  jf_of_int :: "int \<Rightarrow> 'f"

fun v_get :: "'f Value \<Rightarrow> rstr \<Rightarrow> 'f Value option" where
  "v_get (VObject kv) key = map_option snd (find (\<lambda>(k, _). k = key) kv)"
| "v_get _ key = None"

fun v_contains_key :: "'f Value \<Rightarrow> rstr \<Rightarrow> bool" where
  "v_contains_key (VObject kv) key = list_ex (\<lambda>(k, _). k = key) kv"
| "v_contains_key (VStr s) key = contains_sub s key"
| "v_contains_key _ key = False"

fun v_as_str :: "'f Value \<Rightarrow> rstr option" where
  "v_as_str (VStr s) = Some s"
| "v_as_str _ = None"

fun v_as_array :: "'f Value \<Rightarrow> 'f Value list option" where
  "v_as_array (VArray a) = Some a"
| "v_as_array _ = None"

fun v_as_f64 :: "'f jfloat \<Rightarrow> 'f Value \<Rightarrow> 'f option" where
  "v_as_f64 J (VInt i) = Some (jf_of_int J i)"
| "v_as_f64 J (VFloat f) = Some f"
| "v_as_f64 J _ = None"

fun v_as_bool :: "'f Value \<Rightarrow> bool option" where
  "v_as_bool (VBool b) = Some b"
| "v_as_bool _ = None"

fun v_as_usize :: "'f Value \<Rightarrow> nat option" where
  "v_as_usize (VInt i) = (if 0 \<le> i \<and> i < 2 ^ 64 then Some (nat i) else None)"
| "v_as_usize _ = None"

fun v_as_nonempty_array :: "'f Value \<Rightarrow> 'f Value list option" where
  "v_as_nonempty_array (VArray a) = (if a = [] then None else Some a)"
| "v_as_nonempty_array _ = None"

section \<open>Writing\<close>

definition py_repr_f64 :: "'f jfloat \<Rightarrow> 'f \<Rightarrow> rstr" where
  "py_repr_f64 J x =
     (if jf_nan J x then lit ''NaN''
      else if jf_infinite J x then (if jf_positive J x then lit ''Infinity'' else lit ''-Infinity'')
      else
        let (mant, exp) = lower_exp J x;
            (neg, mant) = (case strip_prefix mant (lit ''-'') of Some m \<Rightarrow> (True, m) | None \<Rightarrow> (False, mant));
            digits = filter (\<lambda>c. c \<noteq> 46) mant;
            decpt = exp + 1;
            out = (if neg then lit ''-'' else [])
        in if decpt \<le> -4 \<or> decpt > 16 then
             let e = decpt - 1; mag = nat (abs e) in
             out @ [if digits = [] then 48 else hd digits] @
             (if length digits > 1 then lit ''.'' @ tl digits else []) @ lit ''e'' @
             [if e < 0 then 45 else 43] @ (if mag < 10 then [48] else []) @ show_nat mag
           else if decpt \<le> 0 then
             out @ lit ''0.'' @ replicate (nat (- decpt)) 48 @ digits
           else if length digits \<le> nat decpt then
             out @ digits @ replicate (nat decpt - length digits) 48 @ lit ''.0''
           else
             out @ take (nat decpt) digits @ lit ''.'' @ drop (nat decpt) digits)"

definition hex_digit :: "nat \<Rightarrow> rchar" where
  "hex_digit n = (if n < 10 then 48 + n else 87 + n)"

definition json_escape_char :: "rchar \<Rightarrow> rstr" where
  "json_escape_char c =
     (if c = 34 then [92, 34]
      else if c = 92 then [92, 92]
      else if c = 10 then [92, 110]
      else if c = 13 then [92, 114]
      else if c = 9 then [92, 116]
      else if c = 8 then [92, 98]
      else if c = 12 then [92, 102]
      else if c < 0x20 then [92, 117, 48, 48, hex_digit (c div 16), hex_digit (c mod 16)]
      else [c])"

definition json_escape :: "rstr \<Rightarrow> rstr" where
  "json_escape s = concat (map json_escape_char s)"

definition json_quote :: "rstr \<Rightarrow> rstr" where
  "json_quote s = [34] @ json_escape s @ [34]"

text \<open>Elements written with \<open>", "\<close> between them.\<close>

fun comma_sep :: "rstr list \<Rightarrow> rstr" where
  "comma_sep [] = []"
| "comma_sep [x] = x"
| "comma_sep (x # y # ys) = x @ [44, 32] @ comma_sep (y # ys)"

fun dumps :: "'f jfloat \<Rightarrow> 'f Value \<Rightarrow> rstr" where
  "dumps J VNull = lit ''null''"
| "dumps J (VBool True) = lit ''true''"
| "dumps J (VBool False) = lit ''false''"
| "dumps J (VInt i) = show_int i"
| "dumps J (VFloat f) = py_repr_f64 J f"
| "dumps J (VStr s) = json_quote s"
| "dumps J (VArray a) = [91] @ comma_sep (map (dumps J) a) @ [93]"
| "dumps J (VObject kv) =
     [123] @ comma_sep (map (\<lambda>(k, e). json_quote k @ [58, 32] @ dumps J e) kv) @ [125]"

definition py_repr_char :: "rchar \<Rightarrow> rchar \<Rightarrow> rstr" where
  "py_repr_char quote c =
     (if c = 92 then [92, 92]
      else if c = 10 then [92, 110]
      else if c = 13 then [92, 114]
      else if c = 9 then [92, 116]
      else if c = quote then [92, c]
      else if c < 0x20 \<or> c = 0x7f then [92, 120, hex_digit (c div 16), hex_digit (c mod 16)]
      else [c])"

definition py_repr_str :: "rstr \<Rightarrow> rstr" where
  "py_repr_str s =
     (let quote = (if 39 \<in> set s \<and> 34 \<notin> set s then 34 else 39)
      in [quote] @ concat (map (py_repr_char quote) s) @ [quote])"

text \<open>\<open>py_str\<close> and \<open>py_repr\<close> in one recursion: \<open>quoted\<close> asks for the \<open>repr\<close> of a string.\<close>

fun py_text :: "'f jfloat \<Rightarrow> bool \<Rightarrow> 'f Value \<Rightarrow> rstr" where
  "py_text J quoted VNull = lit ''None''"
| "py_text J quoted (VBool True) = lit ''True''"
| "py_text J quoted (VBool False) = lit ''False''"
| "py_text J quoted (VInt i) = show_int i"
| "py_text J quoted (VFloat f) = py_repr_f64 J f"
| "py_text J quoted (VStr s) = (if quoted then py_repr_str s else s)"
| "py_text J quoted (VArray a) = [91] @ comma_sep (map (py_text J True) a) @ [93]"
| "py_text J quoted (VObject kv) =
     [123] @ comma_sep (map (\<lambda>(k, e). py_repr_str k @ [58, 32] @ py_text J True e) kv) @ [125]"

definition py_str :: "'f jfloat \<Rightarrow> 'f Value \<Rightarrow> rstr" where
  "py_str J v = py_text J False v"

definition py_repr :: "'f jfloat \<Rightarrow> 'f Value \<Rightarrow> rstr" where
  "py_repr J v = py_text J True v"

section \<open>Parsing\<close>

datatype json_error =
    TrailingInput
  | Expected nat
  | ExpectedLit rstr
  | UnexpectedByte nat
  | UnexpectedEnd
  | ExpectedCommaOrClose
  | UnterminatedString
  | UnterminatedEscape
  | UnknownEscape nat
  | HighSurrogateAlone
  | BadSurrogatePair
  | NotACharacter nat
  | TruncatedEscape
  | InvalidUtf8
  | NotHexDigits
  | LeadingZero
  | DotWithoutDigit
  | ExponentWithoutDigit
  | NotANumber
  | NotAFloat
  | NotAnI128
  | SliceOutOfRange
  | OutOfFuel

type_synonym bytes = "nat list"

definition ws :: "bytes \<Rightarrow> bytes" where
  "ws s = dropWhile (\<lambda>c. c = 32 \<or> c = 9 \<or> c = 10 \<or> c = 13) s"

definition eat :: "nat \<Rightarrow> bytes \<Rightarrow> json_error + bytes" where
  "eat c s = (case s of x # r \<Rightarrow> if x = c then Inr r else Inl (Expected c) | [] \<Rightarrow> Inl (Expected c))"

definition eat_lit :: "rstr \<Rightarrow> bytes \<Rightarrow> json_error + bytes" where
  "eat_lit l s = (if starts_with s l then Inr (drop (length l) s) else Inl (ExpectedLit l))"

definition utf8_len :: "nat \<Rightarrow> nat" where
  "utf8_len b = (if b \<le> 0x7f then 1 else if 0xc0 \<le> b \<and> b \<le> 0xdf then 2
                 else if 0xe0 \<le> b \<and> b \<le> 0xef then 3 else 4)"

definition hex_value :: "rchar \<Rightarrow> nat option" where
  "hex_value c =
     (if 48 \<le> c \<and> c \<le> 57 then Some (c - 48)
      else if 97 \<le> c \<and> c \<le> 102 then Some (c - 87)
      else if 65 \<le> c \<and> c \<le> 70 then Some (c - 55)
      else None)"

fun hex_digits :: "nat \<Rightarrow> rstr \<Rightarrow> nat option" where
  "hex_digits acc [] = Some acc"
| "hex_digits acc (c # cs) =
     (case hex_value c of Some d \<Rightarrow> hex_digits (16 * acc + d) cs | None \<Rightarrow> None)"

text \<open>\<open>u32::from_str_radix(s, 16)\<close>, which takes one leading plus sign.\<close>

definition from_str_radix16 :: "rstr \<Rightarrow> nat option" where
  "from_str_radix16 s =
     (let ds = (case s of c # r \<Rightarrow> if c = 43 \<and> r \<noteq> [] then r else s | [] \<Rightarrow> [])
      in if ds = [] then None else hex_digits 0 ds)"

definition hex4 :: "bytes \<Rightarrow> json_error + nat \<times> bytes" where
  "hex4 s =
     (if length s < 4 then Inl TruncatedEscape
      else
        (case from_utf8 (take 4 s) of
           None \<Rightarrow> Inl InvalidUtf8
         | Some t \<Rightarrow>
             (case from_str_radix16 t of
                None \<Rightarrow> Inl NotHexDigits
              | Some v \<Rightarrow> Inr (v, drop 4 s))))"

definition unicode_escape :: "bytes \<Rightarrow> json_error + rchar \<times> bytes" where
  "unicode_escape s =
     try_bind (hex4 s) (\<lambda>(hi, s).
       if 0xd800 \<le> hi \<and> hi < 0xdc00 then
         try_bind (eat_lit [92, 117] s) (\<lambda>s.
         try_bind (hex4 s) (\<lambda>(lo, s).
           if \<not> (0xdc00 \<le> lo \<and> lo < 0xe000) then Inl HighSurrogateAlone
           else
             (case char_from_u32 (0x10000 + (hi - 0xd800) * 1024 + (lo - 0xdc00)) of
                Some c \<Rightarrow> Inr (c, s)
              | None \<Rightarrow> Inl BadSurrogatePair)))
       else
         (case char_from_u32 hi of Some c \<Rightarrow> Inr (c, s) | None \<Rightarrow> Inl (NotACharacter hi)))"

definition escape :: "bytes \<Rightarrow> json_error + rchar \<times> bytes" where
  "escape s =
     (case s of
        [] \<Rightarrow> Inl UnterminatedEscape
      | e # r \<Rightarrow>
          if e = 34 then Inr (34, r)
          else if e = 92 then Inr (92, r)
          else if e = 47 then Inr (47, r)
          else if e = 98 then Inr (8, r)
          else if e = 102 then Inr (12, r)
          else if e = 110 then Inr (10, r)
          else if e = 114 then Inr (13, r)
          else if e = 116 then Inr (9, r)
          else if e = 117 then unicode_escape r
          else Inl (UnknownEscape e))"

text \<open>One scalar copied from the input; the slice panics past the end.\<close>

definition copy_scalar :: "bytes \<Rightarrow> json_error + rstr \<times> bytes" where
  "copy_scalar s =
     (let n = utf8_len (hd s) in
      if length s < n then Inl SliceOutOfRange
      else
        (case from_utf8 (take n s) of
           Some t \<Rightarrow> Inr (t, drop n s)
         | None \<Rightarrow> Inl InvalidUtf8))"

lemma hex4_shorter: "hex4 s = Inr (v, r) \<Longrightarrow> length r < length s"
  by (auto simp: hex4_def split: if_splits option.splits)

lemma eat_lit_shorter: "eat_lit l s = Inr r \<Longrightarrow> length r \<le> length s"
  by (auto simp: eat_lit_def split: if_splits)

lemma unicode_escape_shorter: "unicode_escape s = Inr (c, r) \<Longrightarrow> length r < length s"
  by (auto simp: unicode_escape_def split: if_splits option.splits dest!: hex4_shorter eat_lit_shorter)

lemma escape_shorter: "escape s = Inr (c, r) \<Longrightarrow> length r < length s"
  by (auto simp: escape_def split: list.splits if_splits dest!: unicode_escape_shorter)

lemma copy_scalar_shorter: "s \<noteq> [] \<Longrightarrow> copy_scalar s = Inr (t, r) \<Longrightarrow> length r < length s"
  by (auto simp: copy_scalar_def Let_def utf8_len_def split: if_splits option.splits)

function string_loop :: "bytes \<Rightarrow> rstr \<Rightarrow> json_error + rstr \<times> bytes" where
  "string_loop s out =
     (case s of
        [] \<Rightarrow> Inl UnterminatedString
      | c # r \<Rightarrow>
          if c = 34 then Inr (out, r)
          else if c = 92 then
            try_bind (escape r) (\<lambda>x. string_loop (snd x) (out @ [fst x]))
          else
            try_bind (copy_scalar s) (\<lambda>x. string_loop (snd x) (out @ fst x)))"
  by pat_completeness auto
termination
  by (relation "measure (\<lambda>(s, out). length s)")
    (auto dest!: escape_shorter copy_scalar_shorter [rotated])

declare string_loop.simps [simp del]

definition parse_string :: "bytes \<Rightarrow> json_error + rstr \<times> bytes" where
  "parse_string s = try_bind (eat 34 s) (\<lambda>s. string_loop s [])"

text \<open>\<open>text.parse::<i128>()\<close> of an optional minus sign and digits.\<close>

definition parse_i128 :: "rstr \<Rightarrow> int option" where
  "parse_i128 t =
     (let (neg, ds) = (case strip_prefix t [45] of Some d \<Rightarrow> (True, d) | None \<Rightarrow> (False, t));
          i = (if neg then - int (digits_nat ds) else int (digits_nat ds))
      in if ds \<noteq> [] \<and> list_all is_digit ds \<and> - (2 ^ 127) \<le> i \<and> i < 2 ^ 127 then Some i else None)"

definition lex_fraction :: "bytes \<Rightarrow> json_error + (rstr \<times> bytes) option" where
  "lex_fraction s =
     (case s of
        c # r \<Rightarrow>
          if c = 46 then
            let ds = takeWhile is_digit r in
            if ds = [] then Inl DotWithoutDigit else Inr (Some ([46] @ ds, dropWhile is_digit r))
          else Inr None
      | [] \<Rightarrow> Inr None)"

definition lex_exponent :: "bytes \<Rightarrow> json_error + (rstr \<times> bytes) option" where
  "lex_exponent s =
     (case s of
        c # r \<Rightarrow>
          if c = 101 \<or> c = 69 then
            let (sign, r) = (case r of
                  d # r' \<Rightarrow> if d = 43 \<or> d = 45 then ([d], r') else ([], r)
                | [] \<Rightarrow> ([], []));
                ds = takeWhile is_digit r
            in if ds = [] then Inl ExponentWithoutDigit
               else Inr (Some ([c] @ sign @ ds, dropWhile is_digit r))
          else Inr None
      | [] \<Rightarrow> Inr None)"

definition part_text :: "(rstr \<times> bytes) option \<Rightarrow> bytes \<Rightarrow> rstr \<times> bytes" where
  "part_text p s = (case p of Some (t, r) \<Rightarrow> (t, r) | None \<Rightarrow> ([], s))"

definition parse_number :: "'f jfloat \<Rightarrow> bytes \<Rightarrow> json_error + 'f Value \<times> bytes" where
  "parse_number J s =
     (let (sign, r) = (case s of c # r \<Rightarrow> if c = 45 then ([45], r) else ([], s) | [] \<Rightarrow> ([], []));
          int_digits = takeWhile is_digit r;
          r = dropWhile is_digit r
      in if length int_digits > 1 \<and> hd int_digits = 48 then Inl LeadingZero
         else
           try_bind (lex_fraction r) (\<lambda>frac.
           let (ftext, r) = part_text frac r in
           try_bind (lex_exponent r) (\<lambda>expo.
           let (etext, r) = part_text expo r;
               txt = sign @ int_digits @ ftext @ etext;
               is_float = (frac \<noteq> None \<or> expo \<noteq> None)
           in if int_digits = [] \<and> \<not> is_float then Inl NotANumber
              else if is_float then
                (case parse_f64 J txt of Some x \<Rightarrow> Inr (VFloat x, r) | None \<Rightarrow> Inl NotAFloat)
              else
                (case parse_i128 txt of Some i \<Rightarrow> Inr (VInt i, r) | None \<Rightarrow> Inl NotAnI128))))"

fun parse_value :: "'f jfloat \<Rightarrow> nat \<Rightarrow> bytes \<Rightarrow> json_error + 'f Value \<times> bytes"
  and object_loop ::
    "'f jfloat \<Rightarrow> nat \<Rightarrow> (rstr \<times> 'f Value) list \<Rightarrow> bytes \<Rightarrow> json_error + 'f Value \<times> bytes"
  and array_loop :: "'f jfloat \<Rightarrow> nat \<Rightarrow> 'f Value list \<Rightarrow> bytes \<Rightarrow> json_error + 'f Value \<times> bytes" where
  "parse_value J 0 s = Inl OutOfFuel"
| "parse_value J (Suc n) s =
     (case s of
        [] \<Rightarrow> Inl UnexpectedEnd
      | c # r \<Rightarrow>
          if c = 123 then
            (case ws r of
               d # r' \<Rightarrow> if d = 125 then Inr (VObject [], r') else object_loop J n [] (ws r)
             | [] \<Rightarrow> object_loop J n [] [])
          else if c = 91 then
            (case ws r of
               d # r' \<Rightarrow> if d = 93 then Inr (VArray [], r') else array_loop J n [] (ws r)
             | [] \<Rightarrow> array_loop J n [] [])
          else if c = 34 then try_bind (parse_string s) (\<lambda>(t, r). Inr (VStr t, r))
          else if c = 116 then try_bind (eat_lit (lit ''true'') s) (\<lambda>r. Inr (VBool True, r))
          else if c = 102 then try_bind (eat_lit (lit ''false'') s) (\<lambda>r. Inr (VBool False, r))
          else if c = 110 then try_bind (eat_lit (lit ''null'') s) (\<lambda>r. Inr (VNull, r))
          else if c = 45 \<or> is_digit c then parse_number J s
          else Inl (UnexpectedByte c))"
| "object_loop J 0 kv s = Inl OutOfFuel"
| "object_loop J (Suc n) kv s =
     try_bind (parse_string (ws s)) (\<lambda>(k, s).
     try_bind (eat 58 (ws s)) (\<lambda>s.
     try_bind (parse_value J n (ws s)) (\<lambda>(v, s).
       case ws s of
         c # r \<Rightarrow>
           if c = 44 then object_loop J n (kv @ [(k, v)]) r
           else if c = 125 then Inr (VObject (kv @ [(k, v)]), r)
           else Inl ExpectedCommaOrClose
       | [] \<Rightarrow> Inl ExpectedCommaOrClose)))"
| "array_loop J 0 a s = Inl OutOfFuel"
| "array_loop J (Suc n) a s =
     try_bind (parse_value J n (ws s)) (\<lambda>(v, s).
       case ws s of
         c # r \<Rightarrow>
           if c = 44 then array_loop J n (a @ [v]) r
           else if c = 93 then Inr (VArray (a @ [v]), r)
           else Inl ExpectedCommaOrClose
       | [] \<Rightarrow> Inl ExpectedCommaOrClose)"

definition json_parse :: "'f jfloat \<Rightarrow> rstr \<Rightarrow> json_error + 'f Value" where
  "json_parse J src =
     (let b = utf8 src in
      try_bind (parse_value J (2 * length b + 2) (ws b)) (\<lambda>(v, s).
        if ws s \<noteq> [] then Inl TrailingInput else Inr v))"

section \<open>Strings are read back\<close>

lemma hex_value_digit: "n < 16 \<Longrightarrow> hex_value (hex_digit n) = Some n"
  by (auto simp: hex_value_def hex_digit_def)

lemma hex_value_48: "hex_value 48 = Some 0"
  by (simp add: hex_value_def)

lemma hex_digit_ascii: "n < 16 \<Longrightarrow> 48 \<le> hex_digit n \<and> hex_digit n < 128"
  by (auto simp: hex_digit_def)

lemma from_utf8_ascii: "\<forall>c \<in> set s. c < 128 \<Longrightarrow> from_utf8 s = Some s"
  by (induction s) simp_all

lemma unicode_escape_control:
  assumes "c < 0x20"
  shows "unicode_escape ([48, 48, hex_digit (c div 16), hex_digit (c mod 16)] @ r) = Inr (c, r)"
proof -
  have d: "c div 16 < 16" "c mod 16 < 16" using assms by auto
  have "from_str_radix16 [48, 48, hex_digit (c div 16), hex_digit (c mod 16)] = Some c"
    using d hex_value_48 by (simp add: from_str_radix16_def hex_value_digit)
  moreover have "from_utf8 [48, 48, hex_digit (c div 16), hex_digit (c mod 16)] =
      Some [48, 48, hex_digit (c div 16), hex_digit (c mod 16)]"
    using d hex_digit_ascii by (intro from_utf8_ascii) auto
  ultimately have "hex4 ([48, 48, hex_digit (c div 16), hex_digit (c mod 16)] @ r) = Inr (c, r)"
    by (simp add: hex4_def del: from_utf8.simps)
  moreover have "char_from_u32 c = Some c" using assms by (simp add: char_from_u32_def valid_char_def)
  ultimately show ?thesis using assms by (simp add: unicode_escape_def)
qed

lemma utf8_len_char: "valid_char c \<Longrightarrow> utf8_len (hd (utf8_char c)) = length (utf8_char c)"
  by (auto simp: utf8_len_def utf8_char_def char_len_utf8_def valid_char_def)

lemma utf8_char_hd: "c \<ge> 0x20 \<Longrightarrow> c \<noteq> 34 \<Longrightarrow> c \<noteq> 92 \<Longrightarrow> utf8_char c \<noteq> [] \<and> hd (utf8_char c) \<noteq> 34 \<and> hd (utf8_char c) \<noteq> 92"
  by (auto simp: utf8_char_def)

lemma string_loop_char:
  assumes "valid_char c"
  shows "string_loop (utf8 (json_escape_char c) @ s) out = string_loop s (out @ [c])"
proof (cases "c < 0x20 \<or> c = 34 \<or> c = 92")
  case True
  show ?thesis
  proof (cases "c \<in> {34, 92, 10, 13, 9, 8, 12}")
    case True
    then have "utf8 (json_escape_char c) = json_escape_char c"
      by (intro utf8_ascii) (auto simp: json_escape_char_def)
    with True show ?thesis
      by (subst string_loop.simps) (auto simp: json_escape_char_def escape_def)
  next
    case False
    then have c: "c < 0x20" using \<open>c < 0x20 \<or> c = 34 \<or> c = 92\<close> by auto
    have d: "c div 16 < 16" "c mod 16 < 16" using c by auto
    have e: "json_escape_char c = [92, 117, 48, 48, hex_digit (c div 16), hex_digit (c mod 16)]"
      using False c by (auto simp: json_escape_char_def)
    have "utf8 (json_escape_char c) = json_escape_char c"
      using d hex_digit_ascii unfolding e by (intro utf8_ascii) auto
    then show ?thesis
      unfolding e using unicode_escape_control [OF c, of s]
      by (subst string_loop.simps) (simp add: escape_def)
  qed
next
  case False
  then have e: "json_escape_char c = [c]" by (auto simp: json_escape_char_def)
  obtain b bs where b: "utf8_char c = b # bs" and nb: "b \<noteq> 34" "b \<noteq> 92"
    using utf8_char_hd [of c] False by (cases "utf8_char c") auto
  have "from_utf8 (utf8_char c) = Some [c]" using from_utf8_char [OF assms, of "[]"] by simp
  then have "copy_scalar (utf8_char c @ s) = Inr ([c], s)"
    using utf8_len_char [OF assms] b by (simp add: copy_scalar_def Let_def del: from_utf8.simps)
  then show ?thesis
    using nb unfolding e b by (subst string_loop.simps) (simp add: b)
qed

lemma string_loop_escape:
  "valid_str t \<Longrightarrow> string_loop (utf8 (json_escape t) @ 34 # r) out = Inr (out @ t, r)"
proof (induction t arbitrary: out)
  case Nil
  then show ?case by (subst string_loop.simps) (simp add: json_escape_def)
next
  case (Cons c t)
  then show ?case by (simp add: json_escape_def string_loop_char)
qed

lemma utf8_quote: "utf8 (json_quote t) = 34 # utf8 (json_escape t) @ [34]"
  by (simp add: json_quote_def utf8_char_def)

lemma parse_string_quote: "valid_str t \<Longrightarrow> parse_string (utf8 (json_quote t) @ r) = Inr (t, r)"
  by (simp add: parse_string_def utf8_quote eat_def string_loop_escape)

section \<open>Numbers are read back\<close>

definition num_end :: "bytes \<Rightarrow> bool" where
  "num_end r \<longleftrightarrow> r = [] \<or> (\<not> is_digit (hd r) \<and> hd r \<noteq> 46 \<and> hd r \<noteq> 101 \<and> hd r \<noteq> 69)"

lemma takeWhile_digits:
  "\<forall>c \<in> set ds. is_digit c \<Longrightarrow> (r = [] \<or> \<not> is_digit (hd r)) \<Longrightarrow>
   takeWhile is_digit (ds @ r) = ds \<and> dropWhile is_digit (ds @ r) = r"
  by (cases r) auto

lemma lex_fraction_None: "r = [] \<or> hd r \<noteq> 46 \<Longrightarrow> lex_fraction r = Inr None"
  by (cases r) (auto simp: lex_fraction_def)

lemma lex_exponent_None: "r = [] \<or> (hd r \<noteq> 101 \<and> hd r \<noteq> 69) \<Longrightarrow> lex_exponent r = Inr None"
  by (cases r) (auto simp: lex_exponent_def)

lemma parse_number_parts:
  assumes sg: "sg = [] \<or> sg = [45]" and ip: "ip \<noteq> []" "\<forall>c \<in> set ip. is_digit c"
    "\<not> (1 < length ip \<and> hd ip = 48)"
    and r0: "r0 = [] \<or> \<not> is_digit (hd r0)"
    and fr: "lex_fraction r0 = Inr fr" "part_text fr r0 = (ft, r1)"
    and ex: "lex_exponent r1 = Inr ex" "part_text ex r1 = (et, r2)"
  shows "parse_number J (sg @ ip @ r0) =
    (if fr \<noteq> None \<or> ex \<noteq> None then
       (case parse_f64 J (sg @ ip @ ft @ et) of Some x \<Rightarrow> Inr (VFloat x, r2) | None \<Rightarrow> Inl NotAFloat)
     else (case parse_i128 (sg @ ip @ ft @ et) of Some i \<Rightarrow> Inr (VInt i, r2) | None \<Rightarrow> Inl NotAnI128))"
proof -
  have hd45: "hd ip \<noteq> 45" using ip(2) hd_in_set [OF ip(1)] by (force simp: is_digit_def)
  have split: "(case sg @ ip @ r0 of c # r \<Rightarrow> if c = 45 then ([45], r) else ([], sg @ ip @ r0) | [] \<Rightarrow> ([], [])) = (sg, ip @ r0)"
    using sg hd45 ip(1) by (cases ip) auto
  have tw: "takeWhile is_digit (ip @ r0) = ip" "dropWhile is_digit (ip @ r0) = r0"
    using takeWhile_digits [OF ip(2) r0] by simp_all
  show ?thesis
    unfolding parse_number_def split using ip(1,3) fr ex by (auto simp: tw Let_def)
qed

lemma parse_i128_show_int:
  assumes "- (2 ^ 127) \<le> i" and "i < 2 ^ 127" shows "parse_i128 (show_int i) = Some i"
proof -
  have dig: "show_nat n \<noteq> []" "\<forall>c \<in> set (show_nat n). is_digit c" for n using show_nat_digits by blast+
  show ?thesis
  proof (cases "i < 0")
    case True
    then show ?thesis using assms dig
      by (simp add: parse_i128_def show_int_def strip_prefix_def starts_with_def list_all_iff)
  next
    case False
    obtain d ds where d: "show_nat (nat i) = d # ds" using dig(1) by (cases "show_nat (nat i)") auto
    then have "d \<noteq> 45" using dig(2) [of "nat i"] by (auto simp: is_digit_def)
    then have "strip_prefix (show_nat (nat i)) [45] = None" by (simp add: d strip_prefix_def starts_with_def)
    then show ?thesis using assms dig False by (simp add: parse_i128_def show_int_def list_all_iff)
  qed
qed

lemma parse_number_int:
  assumes "- (2 ^ 127) \<le> i" and "i < 2 ^ 127" and "num_end r"
  shows "parse_number J (show_int i @ r) = Inr (VInt i, r)"
proof -
  define n where "n = nat (abs i)"
  define sg where "sg = (if i < 0 then [45] else [] :: nat list)"
  have dig: "show_nat n \<noteq> []" "\<forall>c \<in> set (show_nat n). is_digit c" using show_nat_digits by blast+
  have si: "show_int i = sg @ show_nat n" by (auto simp: show_int_def n_def sg_def)
  have nz: "\<not> (1 < length (show_nat n) \<and> hd (show_nat n) = 48)"
    using show_nat_hd [of n] by (auto simp: show_nat.simps [of 0])
  have "lex_fraction r = Inr None" "lex_exponent r = Inr None"
    using assms(3) by (auto simp: num_end_def lex_fraction_None lex_exponent_None)
  then have "parse_number J (sg @ show_nat n @ r) =
      (case parse_i128 (sg @ show_nat n) of Some i \<Rightarrow> Inr (VInt i, r) | None \<Rightarrow> Inl NotAnI128)"
    using parse_number_parts [OF _ dig nz, of sg r None "[]" r None "[]" r] assms(3)
    by (auto simp: part_text_def sg_def num_end_def)
  with parse_i128_show_int [OF assms(1,2)] si show ?thesis by simp
qed

section \<open>The layout of floats\<close>

text \<open>What \<open>format!("{x:e}")\<close> writes: an optional sign, one digit, optionally a dot and more digits;
  the first digit is zero only for zero.\<close>

definition lower_exp_form :: "rstr \<times> int \<Rightarrow> bool \<Rightarrow> rchar \<Rightarrow> rstr \<Rightarrow> bool" where
  "lower_exp_form me neg d ds \<longleftrightarrow>
     fst me = (if neg then [45] else []) @ [d] @ (if ds = [] then [] else [46] @ ds) \<and>
     is_digit d \<and> (\<forall>c \<in> set ds. is_digit c) \<and> (d = 48 \<longrightarrow> ds = [] \<and> snd me = 0)"

text \<open>The sign and magnitude a decimal text denotes.\<close>

definition signed_nat :: "rstr \<Rightarrow> int" where
  "signed_nat t =
     (case t of c # r \<Rightarrow> if c = 45 then - int (digits_nat r) else if c = 43 then int (digits_nat r)
                 else int (digits_nat t)
      | [] \<Rightarrow> 0)"

definition dec_value :: "rstr \<Rightarrow> bool \<times> rat" where
  "dec_value t =
     (let (neg, t) = (case strip_prefix t [45] of Some r \<Rightarrow> (True, r) | None \<Rightarrow> (False, t));
          ip = takeWhile is_digit t; r = dropWhile is_digit t;
          (fr, r) = (case r of c # r' \<Rightarrow> if c = 46 then (takeWhile is_digit r', dropWhile is_digit r') else ([], r)
                     | [] \<Rightarrow> ([], []));
          e = (case r of c # r' \<Rightarrow> if c = 101 then signed_nat r' else 0 | [] \<Rightarrow> 0)
      in (neg, of_nat (digits_nat (ip @ fr)) * 10 powi (e - int (length fr))))"

definition sign_text :: "bool \<Rightarrow> rstr" where
  "sign_text neg = (if neg then [45] else [])"

text \<open>The three shapes \<open>repr\<close> writes, by the integer digits, the fraction digits and the exponent.\<close>

definition float_text :: "bool \<Rightarrow> rstr \<Rightarrow> rstr \<Rightarrow> rstr \<Rightarrow> rstr" where
  "float_text neg ip fr et =
     sign_text neg @ ip @ (if fr = [] then [] else [46] @ fr) @ (if et = [] then [] else [101] @ et)"

definition exp_text :: "int \<Rightarrow> rstr" where
  "exp_text e = [if e < 0 then 45 else 43] @ (if nat (abs e) < 10 then [48] else []) @ show_nat (nat (abs e))"

lemma digits_nat_Cons0 [simp]: "digits_nat (48 # ds) = digits_nat ds"
  by (simp add: digits_nat_def)

lemma signed_nat_exp_text: "signed_nat (exp_text e) = e"
  by (auto simp: signed_nat_def exp_text_def)

lemma py_repr_forms:
  assumes "lower_exp_form (lower_exp J x) neg d ds" and "\<not> jf_nan J x" and "\<not> jf_infinite J x"
  defines "e \<equiv> snd (lower_exp J x)"
  shows "py_repr_f64 J x =
    (if e + 1 \<le> -4 \<or> e + 1 > 16 then float_text neg [d] ds (exp_text e)
     else if e + 1 \<le> 0 then float_text neg [48] (replicate (nat (- (e + 1))) 48 @ d # ds) []
     else if length (d # ds) \<le> nat (e + 1)
       then float_text neg ((d # ds) @ replicate (nat (e + 1) - length (d # ds)) 48) [48] []
     else float_text neg (take (nat (e + 1)) (d # ds)) (drop (nat (e + 1)) (d # ds)) [])"
proof -
  obtain m where lx: "lower_exp J x = (m, e)" by (metis e_def prod.collapse)
  have m: "m = (if neg then [45] else []) @ [d] @ (if ds = [] then [] else [46] @ ds)"
    and dig: "is_digit d" "\<forall>c \<in> set ds. is_digit c"
    using assms(1) by (auto simp: lower_exp_form_def lx)
  have d45: "d \<noteq> 45" "d \<noteq> 46" using dig(1) by (auto simp: is_digit_def)
  have "46 \<notin> set ds" using dig(2) by (auto simp: is_digit_def)
  then have fil: "filter (\<lambda>c. c \<noteq> 46) ([d] @ (if ds = [] then [] else [46] @ ds)) = d # ds"
    using d45 by (auto simp: filter_id_conv)
  have sp: "(case strip_prefix m (lit ''-'') of Some m \<Rightarrow> (True, m) | None \<Rightarrow> (False, m)) =
      (neg, [d] @ (if ds = [] then [] else [46] @ ds))"
    using d45 by (simp add: m strip_prefix_def starts_with_def)
  show ?thesis
    unfolding py_repr_f64_def lx prod.case Let_def sp fil if_not_P [OF assms(2)] if_not_P [OF assms(3)]
    by (simp add: float_text_def sign_text_def exp_text_def)
qed

definition float_parts_ok :: "rstr \<Rightarrow> rstr \<Rightarrow> rstr \<Rightarrow> bool" where
  "float_parts_ok ip fr et \<longleftrightarrow>
     ip \<noteq> [] \<and> (\<forall>c \<in> set ip. is_digit c) \<and> \<not> (1 < length ip \<and> hd ip = 48) \<and>
     (\<forall>c \<in> set fr. is_digit c) \<and> (et = [] \<or> (\<exists>e. et = exp_text e)) \<and> (fr \<noteq> [] \<or> et \<noteq> [])"

lemma exp_text_digits:
  "\<exists>sg ds. exp_text e = sg # ds \<and> (sg = 43 \<or> sg = 45) \<and> ds \<noteq> [] \<and> (\<forall>c \<in> set ds. is_digit c)"
proof -
  have "is_digit 48" by (simp add: is_digit_def)
  then show ?thesis
    using show_nat_digits [of "nat (abs e)"]
    by (intro exI [of _ "if e < 0 then 45 else 43"]
        exI [of _ "(if nat (abs e) < 10 then [48] else []) @ show_nat (nat (abs e))"])
      (auto simp: exp_text_def)
qed

lemma parse_number_float:
  assumes ok: "float_parts_ok ip fr et" and r: "num_end r"
    and px: "parse_f64 J (float_text neg ip fr et) = Some x"
  shows "parse_number J (float_text neg ip fr et @ r) = Inr (VFloat x, r)"
proof -
  define ft where "ft = (if fr = [] then [] else [46] @ fr)"
  define ett where "ett = (if et = [] then [] else [101] @ et)"
  have tx: "float_text neg ip fr et = sign_text neg @ ip @ ft @ ett"
    by (simp add: float_text_def ft_def ett_def)
  have nd: "\<not> is_digit 46" "\<not> is_digit 101" by (simp_all add: is_digit_def)
  have e1: "ett @ r = [] \<or> (\<not> is_digit (hd (ett @ r)) \<and> hd (ett @ r) \<noteq> 46)"
    using r nd by (auto simp: ett_def num_end_def)
  have "takeWhile is_digit (fr @ ett @ r) = fr \<and> dropWhile is_digit (fr @ ett @ r) = ett @ r"
    using ok e1 by (intro takeWhile_digits) (auto simp: float_parts_ok_def)
  then have fr: "lex_fraction (ft @ ett @ r) = Inr (if fr = [] then None else Some (ft, ett @ r))"
    using e1 by (auto simp: ft_def lex_fraction_def Let_def split: list.splits)
  have pt: "part_text (if fr = [] then None else Some (ft, ett @ r)) (ft @ ett @ r) = (ft, ett @ r)"
    by (simp add: part_text_def ft_def)
  have ex: "lex_exponent (ett @ r) = Inr (if et = [] then None else Some (ett, r))"
  proof (cases "et = []")
    case True
    then show ?thesis using r by (auto simp: ett_def num_end_def intro: lex_exponent_None)
  next
    case False
    then obtain e where "et = exp_text e" using ok by (auto simp: float_parts_ok_def)
    then obtain sg ds where et: "et = sg # ds" "sg = 43 \<or> sg = 45" "ds \<noteq> []" "\<forall>c \<in> set ds. is_digit c"
      using exp_text_digits [of e] by auto
    have "takeWhile is_digit (ds @ r) = ds \<and> dropWhile is_digit (ds @ r) = r"
      using et r by (intro takeWhile_digits) (auto simp: num_end_def)
    then show ?thesis using et by (auto simp: ett_def lex_exponent_def Let_def)
  qed
  have pe: "part_text (if et = [] then None else Some (ett, r)) (ett @ r) = (ett, r)"
    by (simp add: part_text_def ett_def)
  have r0: "ft @ ett @ r = [] \<or> \<not> is_digit (hd (ft @ ett @ r))"
    using e1 nd by (auto simp: ft_def)
  have "sign_text neg = [] \<or> sign_text neg = [45]" by (simp add: sign_text_def)
  from parse_number_parts [OF this _ _ _ r0 fr pt ex pe, of ip J] ok px show ?thesis
    unfolding tx by (auto simp: float_parts_ok_def)
qed

lemma dec_value_float_text:
  assumes "float_parts_ok ip fr et"
  shows "dec_value (float_text neg ip fr et) =
    (neg, of_nat (digits_nat (ip @ fr)) * 10 powi ((if et = [] then 0 else signed_nat et) - int (length fr)))"
proof -
  define ft where "ft = (if fr = [] then [] else [46] @ fr)"
  define ett where "ett = (if et = [] then [] else [101] @ et)"
  have ip: "ip \<noteq> []" "\<forall>c \<in> set ip. is_digit c" "\<forall>c \<in> set fr. is_digit c"
    using assms by (auto simp: float_parts_ok_def)
  have nd: "\<not> is_digit 46" "\<not> is_digit 101" by (simp_all add: is_digit_def)
  have "hd ip \<noteq> 45" using ip(2) hd_in_set [OF ip(1)] by (force simp: is_digit_def)
  then have sp: "(case strip_prefix (sign_text neg @ ip @ ft @ ett) [45] of Some r \<Rightarrow> (True, r)
      | None \<Rightarrow> (False, sign_text neg @ ip @ ft @ ett)) = (neg, ip @ ft @ ett)"
    using ip(1) by (cases ip) (auto simp: sign_text_def strip_prefix_def starts_with_def)
  have tw: "takeWhile is_digit (ip @ ft @ ett) = ip \<and> dropWhile is_digit (ip @ ft @ ett) = ft @ ett"
    using ip(2) nd by (intro takeWhile_digits) (auto simp: ft_def ett_def)
  have tf: "takeWhile is_digit (fr @ ett) = fr \<and> dropWhile is_digit (fr @ ett) = ett"
    using ip(3) nd by (intro takeWhile_digits) (auto simp: ett_def)
  have tx: "float_text neg ip fr et = sign_text neg @ ip @ ft @ ett"
    by (simp add: float_text_def ft_def ett_def)
  have fe: "(case ft @ ett of c # r' \<Rightarrow> if c = 46 then (takeWhile is_digit r', dropWhile is_digit r') else ([], ft @ ett)
      | [] \<Rightarrow> ([], [])) = (fr, ett)"
    using tf by (auto simp: ft_def ett_def)
  show ?thesis
    unfolding dec_value_def tx Let_def sp prod.case tw [THEN conjunct1] tw [THEN conjunct2] fe
    by (simp add: ett_def)
qed

lemma digits_nat_append: "digits_nat (a @ b) = digits_nat a * 10 ^ length b + digits_nat b"
proof (induction b rule: rev_induct)
  case (snoc c b)
  have "digits_nat (a @ b @ [c]) = 10 * digits_nat (a @ b) + (c - 48)"
    by (metis append_assoc digits_nat_snoc)
  with snoc show ?case by (simp add: digits_nat_snoc algebra_simps)
qed (simp add: digits_nat_def)

lemma digits_nat_zeros [simp]: "digits_nat (replicate k 48) = 0"
  by (induction k) (simp_all add: digits_nat_def)

text \<open>The three layouts without an exponent: digits, a fraction and the value they spell.\<close>

definition spells :: "rstr \<Rightarrow> rstr \<Rightarrow> rstr \<Rightarrow> nat \<Rightarrow> int \<Rightarrow> bool" where
  "spells ip fr et m k \<longleftrightarrow>
     float_parts_ok ip fr et \<and>
     (of_nat (digits_nat (ip @ fr)) :: rat) * 10 powi ((if et = [] then 0 else signed_nat et) - int (length fr)) = of_nat m * 10 powi k"

lemma spells_small:
  assumes "is_digit d" and "\<forall>c \<in> set ds. is_digit c" and "e + 1 \<le> 0"
  shows "spells [48] (replicate (nat (- (e + 1))) 48 @ d # ds) [] (digits_nat (d # ds)) (e - int (length ds))"
proof -
  have "float_parts_ok [48] (replicate (nat (- (e + 1))) 48 @ d # ds) []"
    using assms by (auto simp: float_parts_ok_def is_digit_def)
  moreover have "- int (length (replicate (nat (- (e + 1))) 48 @ d # ds)) = e - int (length ds)"
    using assms(3) by simp
  ultimately show ?thesis
    using digits_nat_append [of "replicate (nat (- (e + 1))) 48" "d # ds"] by (simp add: spells_def del: length_append)
qed

lemma spells_whole:
  assumes "is_digit d" and "\<forall>c \<in> set ds. is_digit c" and "d = 48 \<longrightarrow> ds = [] \<and> k = 0"
  shows "spells ((d # ds) @ replicate k 48) [48] [] (digits_nat (d # ds)) (int k)"
proof -
  have "\<not> (1 < length ((d # ds) @ replicate k 48) \<and> hd ((d # ds) @ replicate k 48) = 48)"
    using assms(3) by auto
  then have ok: "float_parts_ok ((d # ds) @ replicate k 48) [48] []"
    using assms(1,2) by (auto simp: float_parts_ok_def is_digit_def)
  have N: "digits_nat (((d # ds) @ replicate k 48) @ [48]) = digits_nat (d # ds) * 10 ^ (k + 1)"
    by (simp only: digits_nat_append digits_nat_zeros) (simp add: digits_nat_def)
  have "(10 :: rat) ^ (k + 1) * 10 powi (- 1) = 10 ^ k" by (simp add: power_int_minus)
  then have "(of_nat (digits_nat (d # ds) * 10 ^ (k + 1)) :: rat) * 10 powi (- 1) = of_nat (digits_nat (d # ds)) * 10 ^ k"
    by simp
  then show ?thesis unfolding spells_def N using ok by simp
qed

lemma spells_mixed:
  assumes "\<forall>c \<in> set (d # ds). is_digit c" and "d \<noteq> 48" and "0 < k" and "k < length (d # ds)"
  shows "spells (take k (d # ds)) (drop k (d # ds)) [] (digits_nat (d # ds)) (int k - 1 - int (length ds))"
proof -
  have "\<not> (1 < length (take k (d # ds)) \<and> hd (take k (d # ds)) = 48)" using assms(2,3) by (cases k) auto
  moreover have "\<forall>c \<in> set (take k (d # ds)). is_digit c" "\<forall>c \<in> set (drop k (d # ds)). is_digit c"
    using assms(1) by (auto dest!: in_set_takeD in_set_dropD)
  moreover have "take k (d # ds) \<noteq> []" "drop k (d # ds) \<noteq> []" using assms(3,4) by auto
  ultimately have "float_parts_ok (take k (d # ds)) (drop k (d # ds)) []" unfolding float_parts_ok_def by blast
  moreover have "- int (length (drop k (d # ds))) = int k - 1 - int (length ds)" using assms(3,4) by simp
  ultimately show ?thesis unfolding spells_def by (simp only: append_take_drop_id simp_thms if_True diff_0)
qed

lemma float_parts_of_repr:
  assumes "lower_exp_form (lower_exp J x) neg d ds" and "\<not> jf_nan J x" and "\<not> jf_infinite J x"
  defines "e \<equiv> snd (lower_exp J x)"
  obtains ip fr et where "py_repr_f64 J x = float_text neg ip fr et" and "float_parts_ok ip fr et"
    and "(of_nat (digits_nat (ip @ fr)) :: rat) * 10 powi ((if et = [] then 0 else signed_nat et) - int (length fr)) =
      of_nat (digits_nat (d # ds)) * 10 powi (e - int (length ds))"
proof -
  note result = that
  have found: thesis if "py_repr_f64 J x = float_text neg ip fr et" "spells ip fr et (digits_nat (d # ds)) (e - int (length ds))" for ip fr et
    using that result unfolding spells_def by blast
  note forms = py_repr_forms [OF assms(1-3), folded e_def]
  have dig: "is_digit d" "\<forall>c \<in> set ds. is_digit c" "d = 48 \<longrightarrow> ds = [] \<and> e = 0"
    using assms(1) by (auto simp: lower_exp_form_def e_def)
  consider (exp) "e + 1 \<le> -4 \<or> e + 1 > 16" | (small) "-4 < e + 1" "e + 1 \<le> 0"
    | (whole) "0 < e + 1" "e + 1 \<le> 16" "length (d # ds) \<le> nat (e + 1)"
    | (mixed) "0 < e + 1" "e + 1 \<le> 16" "nat (e + 1) < length (d # ds)" by linarith
  then show thesis
  proof cases
    case exp
    then have "py_repr_f64 J x = float_text neg [d] ds (exp_text e)" using forms by (simp only: if_True)
    moreover have "exp_text e \<noteq> []" by (simp add: exp_text_def)
    ultimately show ?thesis
      by (intro found) (use dig in \<open>auto simp: spells_def float_parts_ok_def signed_nat_exp_text\<close>)
  next
    case small
    then have n1: "\<not> (e + 1 \<le> -4 \<or> e + 1 > 16)" by auto
    have "py_repr_f64 J x = float_text neg [48] (replicate (nat (- (e + 1))) 48 @ d # ds) []"
      using forms small(2) by (simp only: if_not_P [OF n1] if_True)
    then show ?thesis by (rule found) (rule spells_small [OF dig(1,2) small(2)])
  next
    case whole
    then have n1: "\<not> (e + 1 \<le> -4 \<or> e + 1 > 16)" "\<not> e + 1 \<le> 0" by auto
    define k where "k = nat (e + 1) - length (d # ds)"
    have k: "e - int (length ds) = int k" using whole by (simp add: k_def)
    have "py_repr_f64 J x = float_text neg ((d # ds) @ replicate k 48) [48] []"
      using forms whole(3) by (simp only: if_not_P [OF n1(1)] if_not_P [OF n1(2)] if_True k_def)
    moreover have "spells ((d # ds) @ replicate k 48) [48] [] (digits_nat (d # ds)) (e - int (length ds))"
      unfolding k by (rule spells_whole [OF dig(1,2)]) (use dig(3) k in auto)
    ultimately show ?thesis by (rule found)
  next
    case mixed
    then have n1: "\<not> (e + 1 \<le> -4 \<or> e + 1 > 16)" "\<not> e + 1 \<le> 0" "\<not> length (d # ds) \<le> nat (e + 1)" by auto
    define k where "k = nat (e + 1)"
    have k: "0 < k" "k < length (d # ds)" "e - int (length ds) = int k - 1 - int (length ds)" using mixed by (simp_all add: k_def)
    have "py_repr_f64 J x = float_text neg (take k (d # ds)) (drop k (d # ds)) []"
      using forms by (simp only: if_not_P [OF n1(1)] if_not_P [OF n1(2)] if_not_P [OF n1(3)] k_def)
    moreover have "spells (take k (d # ds)) (drop k (d # ds)) [] (digits_nat (d # ds)) (e - int (length ds))"
      unfolding k(3) by (rule spells_mixed) (use dig k mixed(3) in auto)
    ultimately show ?thesis by (rule found)
  qed
qed

text \<open>Python's float layout loses nothing: for every finite float the text \<open>py_repr_f64\<close> writes,
  in whichever of its four layouts, denotes the sign and decimal value of the digits and exponent
  the formatter produced, and is a valid JSON number with a fraction or an exponent.\<close>

lemma py_repr_preserves_value:
  assumes "lower_exp_form (lower_exp J x) neg d ds" and "\<not> jf_nan J x" and "\<not> jf_infinite J x"
  shows "dec_value (py_repr_f64 J x) =
      (neg, of_nat (digits_nat (d # ds)) * 10 powi (snd (lower_exp J x) - int (length ds))) \<and>
    (\<exists>ip fr et. py_repr_f64 J x = float_text neg ip fr et \<and> float_parts_ok ip fr et)"
  using float_parts_of_repr [OF assms] dec_value_float_text by (metis (no_types, lifting))

text \<open>Floats as rationals, with the formatting of 1.5, for the concrete instances below.\<close>

definition ex_J :: "rat jfloat" where
  "ex_J = \<lparr>jf_nan = (\<lambda>_. False), jf_infinite = (\<lambda>_. False), jf_positive = (\<lambda>x. 0 < x),
     lower_exp = (\<lambda>x. if x = 3 / 2 then (lit ''1.5'', 0) else (lit ''0'', 0)),
     parse_f64 = (\<lambda>t. case dec_value t of (neg, v) \<Rightarrow> Some (if neg then - v else v)),
     jf_of_int = of_int\<rparr>"

lemma ex_J_form: "lower_exp_form (lower_exp ex_J (3 / 2)) False 49 [53]"
  by (simp add: lower_exp_form_def ex_J_def lit_def is_digit_def)

theorem py_repr_preserves_value_witness:
  "lower_exp_form (lower_exp ex_J (3 / 2)) False 49 [53] \<and> py_repr_f64 ex_J (3 / 2) = lit ''1.5'' \<and>
   dec_value (py_repr_f64 ex_J (3 / 2)) = (False, 3 / 2)"
  using py_repr_preserves_value [OF ex_J_form] ex_J_form
  by (simp add: ex_J_def py_repr_f64_def lit_def strip_prefix_def starts_with_def digits_nat_def)

section \<open>The round trip\<close>

text \<open>What reading a float back relies on: a decimal text of the value the formatter wrote parses to
  the float it was written from.\<close>

definition float_ok :: "'f jfloat \<Rightarrow> 'f \<Rightarrow> bool" where
  "float_ok J x \<longleftrightarrow> \<not> jf_nan J x \<and> \<not> jf_infinite J x \<and>
     (\<exists>neg d ds. lower_exp_form (lower_exp J x) neg d ds \<and>
        (\<forall>ip fr et. float_parts_ok ip fr et \<and> dec_value (float_text neg ip fr et) =
            (neg, of_nat (digits_nat (d # ds)) * 10 powi (snd (lower_exp J x) - int (length ds))) \<longrightarrow>
          parse_f64 J (float_text neg ip fr et) = Some x))"

fun wf_value :: "'f jfloat \<Rightarrow> 'f Value \<Rightarrow> bool" where
  "wf_value J VNull = True"
| "wf_value J (VBool b) = True"
| "wf_value J (VInt i) = (- (2 ^ 127) \<le> i \<and> i < 2 ^ 127)"
| "wf_value J (VFloat x) = float_ok J x"
| "wf_value J (VStr s) = valid_str s"
| "wf_value J (VArray a) = (\<forall>v \<in> set a. wf_value J v)"
| "wf_value J (VObject kv) = (\<forall>(k, v) \<in> set kv. valid_str k \<and> wf_value J v)"

definition value_start :: "bytes \<Rightarrow> bool" where
  "value_start s \<longleftrightarrow> s \<noteq> [] \<and> hd s \<notin> {32, 9, 10, 13, 93, 125}"

lemma ws_id: "s = [] \<or> hd s \<notin> {32, 9, 10, 13} \<Longrightarrow> ws s = s"
  by (cases s) (auto simp: ws_def)

lemma ws_value_start: "value_start s \<Longrightarrow> ws (s @ r) = s @ r"
  by (rule ws_id) (auto simp: value_start_def)

lemma parse_value_float:
  assumes "float_ok J x" and "num_end r"
  shows "parse_number J (py_repr_f64 J x @ r) = Inr (VFloat x, r) \<and>
    (\<forall>c \<in> set (py_repr_f64 J x). c < 128) \<and> py_repr_f64 J x \<noteq> [] \<and>
    (hd (py_repr_f64 J x) = 45 \<or> is_digit (hd (py_repr_f64 J x)))"
proof -
  from assms(1) obtain neg d ds where form: "lower_exp_form (lower_exp J x) neg d ds"
    and nn: "\<not> jf_nan J x" "\<not> jf_infinite J x"
    and law: "\<And>ip fr et. float_parts_ok ip fr et \<and> dec_value (float_text neg ip fr et) =
            (neg, of_nat (digits_nat (d # ds)) * 10 powi (snd (lower_exp J x) - int (length ds))) \<Longrightarrow>
          parse_f64 J (float_text neg ip fr et) = Some x"
    unfolding float_ok_def by blast
  from float_parts_of_repr [OF form nn] obtain ip fr et where
    t: "py_repr_f64 J x = float_text neg ip fr et" and ok: "float_parts_ok ip fr et"
    and v: "dec_value (float_text neg ip fr et) =
            (neg, of_nat (digits_nat (d # ds)) * 10 powi (snd (lower_exp J x) - int (length ds)))"
    using dec_value_float_text by (metis (no_types, lifting))
  have "parse_number J (float_text neg ip fr et @ r) = Inr (VFloat x, r)"
    by (rule parse_number_float [OF ok assms(2) law]) (use ok v in blast)
  moreover have "c < 128" if "c \<in> set (float_text neg ip fr et)" for c
  proof -
    have "is_digit c \<Longrightarrow> c < 128" by (simp add: is_digit_def)
    moreover have "is_digit c \<or> c \<in> {45, 46, 101, 43}"
    proof (cases "et = []")
      case True
      then show ?thesis using that ok by (auto simp: float_text_def sign_text_def float_parts_ok_def split: if_splits)
    next
      case False
      then obtain e where "et = exp_text e" using ok by (auto simp: float_parts_ok_def)
      with exp_text_digits [of e] that ok show ?thesis
        by (auto simp: float_text_def sign_text_def float_parts_ok_def split: if_splits)
    qed
    ultimately show ?thesis by auto
  qed
  moreover have "float_text neg ip fr et \<noteq> []" using ok by (simp add: float_text_def float_parts_ok_def)
  moreover have "hd (float_text neg ip fr et) = 45 \<or> is_digit (hd (float_text neg ip fr et))"
    using ok by (cases ip) (auto simp: float_text_def sign_text_def float_parts_ok_def)
  ultimately show ?thesis unfolding t by blast
qed

lemma show_int_ascii: "c \<in> set (show_int i) \<Longrightarrow> c < 128"
  using show_nat_digits by (fastforce simp: show_int_def is_digit_def split: if_splits)

lemma show_int_hd: "show_int i \<noteq> [] \<and> (hd (show_int i) = 45 \<or> is_digit (hd (show_int i)))"
  using show_nat_digits [of "nat i"] hd_in_set [of "show_nat (nat i)"] by (auto simp: show_int_def)

lemma parse_value_number:
  assumes "t \<noteq> []" and "hd t = 45 \<or> is_digit (hd t)"
  shows "parse_value J (Suc n) (t @ r) = parse_number J (t @ r)" and "value_start t"
proof -
  obtain c cs where t: "t = c # cs" using assms(1) by (cases t) auto
  have c: "c = 45 \<or> is_digit c" using assms(2) t by simp
  then have "c \<noteq> 123" "c \<noteq> 91" "c \<noteq> 34" "c \<noteq> 116" "c \<noteq> 102" "c \<noteq> 110" by (auto simp: is_digit_def)
  with c show "parse_value J (Suc n) (t @ r) = parse_number J (t @ r)" by (simp add: t)
  from c show "value_start t" by (auto simp: value_start_def t is_digit_def)
qed

lemma array_loop_ws: "array_loop J n a (32 # s) = array_loop J n a s"
  by (cases n) (simp_all add: ws_def)

lemma object_loop_ws: "object_loop J n kv (32 # s) = object_loop J n kv s"
  by (cases n) (simp_all add: ws_def)

definition reads_back :: "'f jfloat \<Rightarrow> 'f Value \<Rightarrow> bool" where
  "reads_back J v \<longleftrightarrow> value_start (utf8 (dumps J v)) \<and>
     (\<forall>n r. 2 * length (utf8 (dumps J v)) < n \<longrightarrow> num_end r \<longrightarrow>
        parse_value J n (utf8 (dumps J v) @ r) = Inr (v, r))"

lemma num_end_close: "num_end (44 # r)" "num_end (93 # r)" "num_end (125 # r)"
  by (simp_all add: num_end_def is_digit_def)

lemma ws_close: "ws (44 # r) = 44 # r" "ws (93 # r) = 93 # r" "ws (125 # r) = 125 # r"
  by (simp_all add: ws_def)

lemma utf8_lits: "utf8 [44, 32] = [44, 32]" "utf8 [91] = [91]" "utf8 [93] = [93]" "utf8 [123] = [123]"
  "utf8 [125] = [125]" "utf8 [58, 32] = [58, 32]"
  by (simp_all add: utf8_char_def)

lemma array_loop_reads:
  "vs \<noteq> [] \<Longrightarrow> \<forall>v \<in> set vs. reads_back J v \<Longrightarrow>
   2 * length (utf8 (comma_sep (map (dumps J) vs))) + 1 < n \<Longrightarrow>
   array_loop J n a (utf8 (comma_sep (map (dumps J) vs)) @ 93 # r) = Inr (VArray (a @ vs), r)"
proof (induction vs arbitrary: n a)
  case (Cons v vs)
  then obtain m where n: "n = Suc m" by (cases n) auto
  have rb: "reads_back J v" using Cons.prems by simp
  then have st: "value_start (utf8 (dumps J v))" by (simp add: reads_back_def)
  show ?case
  proof (cases vs)
    case Nil
    then have "parse_value J m (utf8 (dumps J v) @ 93 # r) = Inr (v, 93 # r)"
      using rb Cons.prems(3) n num_end_close by (simp add: reads_back_def)
    then show ?thesis using Nil st by (simp add: n ws_value_start ws_close)
  next
    case (Cons w ws')
    define T where "T = utf8 (comma_sep (map (dumps J) vs))"
    have split: "utf8 (comma_sep (map (dumps J) (v # vs))) = utf8 (dumps J v) @ [44, 32] @ T"
      using Cons by (simp add: T_def utf8_char_def)
    have len: "str_len (comma_sep (dumps J v # map (dumps J) vs)) = str_len (dumps J v) + 2 + length T"
      using arg_cong [OF split, of length] by simp
    have "parse_value J m (utf8 (dumps J v) @ 44 # 32 # T @ 93 # r) = Inr (v, 44 # 32 # T @ 93 # r)"
      using rb Cons.prems(3) n num_end_close(1) len by (simp add: reads_back_def)
    moreover have "array_loop J m (a @ [v]) (T @ 93 # r) = Inr (VArray ((a @ [v]) @ vs), r)"
      unfolding T_def using Cons Cons.prems n len by (intro Cons.IH) (auto simp: T_def)
    ultimately show ?thesis
      using st unfolding split by (simp add: n ws_value_start ws_close array_loop_ws)
  qed
qed simp

definition member_text :: "'f jfloat \<Rightarrow> rstr \<times> 'f Value \<Rightarrow> rstr" where
  "member_text J m = (case m of (k, e) \<Rightarrow> json_quote k @ [58, 32] @ dumps J e)"

lemma utf8_member: "utf8 (member_text J (k, v)) = utf8 (json_quote k) @ 58 # 32 # utf8 (dumps J v)"
  by (simp add: member_text_def utf8_char_def)

lemma member_reads:
  assumes "valid_str k" and "reads_back J v" and "2 * length (utf8 (member_text J (k, v))) < n" and "num_end r"
  shows "parse_string (ws (utf8 (member_text J (k, v)) @ r)) = Inr (k, 58 # 32 # utf8 (dumps J v) @ r)"
    and "eat 58 (ws (58 # 32 # utf8 (dumps J v) @ r)) = Inr (32 # utf8 (dumps J v) @ r)"
    and "parse_value J n (ws (32 # utf8 (dumps J v) @ r)) = Inr (v, r)"
proof -
  have "ws (utf8 (json_quote k) @ r') = utf8 (json_quote k) @ r'" for r'
    by (rule ws_id) (simp add: utf8_quote)
  then show "parse_string (ws (utf8 (member_text J (k, v)) @ r)) = Inr (k, 58 # 32 # utf8 (dumps J v) @ r)"
    unfolding utf8_member using assms(1) by (simp add: parse_string_quote)
  show "eat 58 (ws (58 # 32 # utf8 (dumps J v) @ r)) = Inr (32 # utf8 (dumps J v) @ r)"
    by (simp add: ws_def eat_def)
  have "ws (32 # utf8 (dumps J v) @ r) = utf8 (dumps J v) @ r"
    using ws_value_start [of "utf8 (dumps J v)" r] assms(2) by (simp add: ws_def reads_back_def)
  moreover have "length (utf8 (dumps J v)) \<le> length (utf8 (member_text J (k, v)))" unfolding utf8_member by simp
  ultimately show "parse_value J n (ws (32 # utf8 (dumps J v) @ r)) = Inr (v, r)"
    using assms(2-4) by (simp add: reads_back_def)
qed

lemma object_loop_reads:
  "kvs \<noteq> [] \<Longrightarrow> \<forall>(k, v) \<in> set kvs. valid_str k \<and> reads_back J v \<Longrightarrow>
   2 * length (utf8 (comma_sep (map (member_text J) kvs))) + 1 < n \<Longrightarrow>
   object_loop J n kv (utf8 (comma_sep (map (member_text J) kvs)) @ 125 # r) = Inr (VObject (kv @ kvs), r)"
proof (induction kvs arbitrary: n kv)
  case (Cons m kvs)
  then obtain f where n: "n = Suc f" by (cases n) auto
  obtain k v where m: "m = (k, v)" by (cases m)
  have kv: "valid_str k" "reads_back J v" using Cons.prems m by auto
  show ?case
  proof (cases kvs)
    case Nil
    then have "2 * length (utf8 (member_text J (k, v))) < f" using Cons.prems(3) n m by simp
    from member_reads [OF kv this num_end_close(3)] Nil show ?thesis by (simp add: n m ws_close)
  next
    case (Cons m' kvs')
    define T where "T = utf8 (comma_sep (map (member_text J) kvs))"
    have split: "utf8 (comma_sep (map (member_text J) (m # kvs))) = utf8 (member_text J m) @ [44, 32] @ T"
      using Cons by (simp add: T_def utf8_char_def)
    have len: "str_len (comma_sep (member_text J m # map (member_text J) kvs)) = str_len (member_text J m) + 2 + length T"
      using arg_cong [OF split, of length] by simp
    have "2 * length (utf8 (member_text J (k, v))) < f" using Cons.prems(3) n m len by simp
    note rd = member_reads [OF kv this num_end_close(1), of "32 # T @ 125 # r"]
    moreover have "object_loop J f (kv @ [m]) (T @ 125 # r) = Inr (VObject ((kv @ [m]) @ kvs), r)"
      unfolding T_def using Cons Cons.prems n len by (intro Cons.IH) (auto simp: T_def)
    ultimately show ?thesis
      unfolding split by (simp add: n m ws_close object_loop_ws)
  qed
qed simp

lemma value_start_comma:
  "xs \<noteq> [] \<Longrightarrow> value_start (utf8 (hd xs)) \<Longrightarrow> value_start (utf8 (comma_sep xs))"
  by (cases xs rule: comma_sep.cases) (auto simp: value_start_def)

lemma parse_value_array:
  assumes "\<forall>v \<in> set a. reads_back J v" shows "reads_back J (VArray a)"
proof -
  let ?T = "utf8 (comma_sep (map (dumps J) a))"
  have d: "utf8 (dumps J (VArray a)) = 91 # ?T @ [93]" by (simp add: utf8_char_def)
  have "parse_value J n (91 # ?T @ 93 # r) = Inr (VArray a, r)" if n: "2 * length (91 # ?T @ [93]) < n" for n r
  proof (cases "a = []")
    case True
    with n show ?thesis by (cases n) (simp_all add: ws_def)
  next
    case False
    then have vs: "value_start ?T" using assms by (intro value_start_comma) (auto simp: reads_back_def hd_map)
    then obtain c cs where T: "?T = c # cs" "c \<noteq> 93" by (cases ?T) (auto simp: value_start_def)
    obtain m where m: "n = Suc m" using n by (cases n) auto
    have "array_loop J m [] (?T @ 93 # r) = Inr (VArray ([] @ a), r)"
      using False assms n m by (intro array_loop_reads) auto
    with T ws_value_start [OF vs, of "93 # r"] show ?thesis by (simp add: m)
  qed
  then show ?thesis unfolding reads_back_def d by (auto simp: value_start_def)
qed

lemma parse_value_object:
  assumes "\<forall>(k, v) \<in> set kv. valid_str k \<and> reads_back J v" shows "reads_back J (VObject kv)"
proof -
  let ?T = "utf8 (comma_sep (map (member_text J) kv))"
  have "map (\<lambda>(k, e). json_quote k @ [58, 32] @ dumps J e) kv = map (member_text J) kv"
    by (simp add: member_text_def)
  then have d: "utf8 (dumps J (VObject kv)) = 123 # ?T @ [125]"
    by (simp only: dumps.simps) (simp add: utf8_char_def)
  have "parse_value J n (123 # ?T @ 125 # r) = Inr (VObject kv, r)" if n: "2 * length (123 # ?T @ [125]) < n" for n r
  proof (cases "kv = []")
    case True
    with n show ?thesis by (cases n) (simp_all add: ws_def)
  next
    case False
    then have "value_start (utf8 (hd (map (member_text J) kv)))"
      by (cases kv) (auto simp: utf8_member utf8_quote value_start_def)
    then have vs: "value_start ?T" using False by (intro value_start_comma) auto
    then obtain c cs where T: "?T = c # cs" "c \<noteq> 125" by (cases ?T) (auto simp: value_start_def)
    obtain m where m: "n = Suc m" using n by (cases n) auto
    have "object_loop J m [] (?T @ 125 # r) = Inr (VObject ([] @ kv), r)"
      using False assms n m by (intro object_loop_reads) auto
    with T ws_value_start [OF vs, of "125 # r"] show ?thesis by (simp add: m)
  qed
  then show ?thesis unfolding reads_back_def d by (auto simp: value_start_def)
qed

lemma reads_backI:
  assumes "value_start (utf8 (dumps J v))"
    and "\<And>n r. num_end r \<Longrightarrow> parse_value J (Suc n) (utf8 (dumps J v) @ r) = Inr (v, r)"
  shows "reads_back J v"
proof -
  have "parse_value J n (utf8 (dumps J v) @ r) = Inr (v, r)"
    if "2 * length (utf8 (dumps J v)) < n" "num_end r" for n r
    using that assms(2) [OF that(2)] by (cases n) (simp_all del: parse_value.simps)
  with assms(1) show ?thesis unfolding reads_back_def by blast
qed

lemma reads_back_number:
  assumes "\<And>r. num_end r \<Longrightarrow> parse_number J (dumps J v @ r) = Inr (v, r)"
    and "\<forall>c \<in> set (dumps J v). c < 128" and "dumps J v \<noteq> []"
    and "hd (dumps J v) = 45 \<or> is_digit (hd (dumps J v))"
  shows "reads_back J v"
  using assms(1) parse_value_number(1) [OF assms(3,4), of J] parse_value_number(2) [OF assms(3,4)]
    utf8_ascii [OF assms(2)]
  by (intro reads_backI) (simp_all del: parse_value.simps)

lemma reads_back_wf: "wf_value J v \<Longrightarrow> reads_back J v"
proof (induction v)
  case VNull
  show ?case
    by (rule reads_backI) (simp_all add: value_start_def utf8_char_def eat_lit_def starts_with_def)
next
  case (VBool b)
  show ?case
    by (rule reads_backI; cases b)
      (simp_all add: value_start_def utf8_char_def eat_lit_def starts_with_def)
next
  case (VInt i)
  then show ?case
    using show_int_ascii show_int_hd by (intro reads_back_number) (auto simp: parse_number_int)
next
  case (VFloat x)
  then have ok: "float_ok J x" by simp
  have "num_end []" by (simp add: num_end_def)
  from parse_value_float [OF ok] parse_value_float [OF ok this] show ?case
    by (intro reads_back_number) auto
next
  case (VStr t)
  then have t: "valid_str t" by simp
  show ?case
    using parse_string_quote [OF t] by (intro reads_backI) (simp_all add: utf8_quote value_start_def)
next
  case (VArray a)
  then show ?case by (intro parse_value_array) auto
next
  case (VObject kv)
  have "valid_str k \<and> reads_back J v" if "(k, v) \<in> set kv" for k v
    using that VObject.prems VObject.IH [of "(k, v)" v] by auto
  then show ?case by (intro parse_value_object) auto
qed

text \<open>C27. Reading what was written gives the value back: for every value whose strings are Unicode,
  whose integers fit 128 bits and whose floats are finite, parsing the output of \<open>dumps\<close> succeeds
  with that value, key order and the distinction of integers and floats included.\<close>

theorem parse_dumps:
  assumes "wf_value J v"
  shows "json_parse J (dumps J v) = Inr v"
proof -
  have rb: "reads_back J v" by (rule reads_back_wf [OF assms])
  then have "ws (utf8 (dumps J v)) = utf8 (dumps J v)"
    using ws_value_start [of "utf8 (dumps J v)" "[]"] by (simp add: reads_back_def)
  moreover have "parse_value J (2 * length (utf8 (dumps J v)) + 2) (utf8 (dumps J v) @ []) = Inr (v, [])"
    using rb unfolding reads_back_def num_end_def by (simp del: parse_value.simps)
  ultimately show ?thesis by (simp add: json_parse_def Let_def ws_def del: parse_value.simps)
qed

lemma ex_J_float_ok: "float_ok ex_J (3 / 2)"
proof -
  have "parse_f64 ex_J t = Some (3 / 2)" if "dec_value t = (False, 3 / 2)" for t
    using that by (simp add: ex_J_def)
  then show ?thesis
    unfolding float_ok_def using ex_J_form
    by (intro conjI exI [of _ False] exI [of _ 49] exI [of _ "[53]"])
      (simp_all add: ex_J_def digits_nat_def)
qed

theorem parse_dumps_witness:
  "json_parse ex_J (dumps ex_J (VObject [(lit ''a'', VArray [VFloat (3 / 2), VInt (-7), VNull]), ([233], VStr [34, 10])])) =
   Inr (VObject [(lit ''a'', VArray [VFloat (3 / 2), VInt (-7), VNull]), ([233], VStr [34, 10])])"
  by (rule parse_dumps) (use ex_J_float_ok in \<open>simp add: valid_str_def valid_char_def lit_def\<close>)

section \<open>The fuel is enough\<close>

lemma ws_length: "length (ws s) \<le> length s"
  by (simp add: ws_def length_dropWhile_le)

lemma eat_shorter: "eat c s = Inr r \<Longrightarrow> length r < length s"
  by (auto simp: eat_def split: list.splits if_splits)

lemma string_loop_shorter: "string_loop s out = Inr (t, r) \<Longrightarrow> length r < length s"
proof (induction s out rule: string_loop.induct)
  case (1 s out)
  show ?case
  proof (cases s)
    case Nil
    then show ?thesis using "1.prems" string_loop.simps [of "[]" out] by simp
  next
    case (Cons c cs)
    note eq = string_loop.simps [of "c # cs" out]
    show ?thesis
    proof (cases "c = 34")
      case True
      then show ?thesis using "1.prems" Cons eq by simp
    next
      case c34: False
      show ?thesis
      proof (cases "c = 92")
        case True
        with "1.prems" Cons eq c34 have
          "try_bind (escape cs) (\<lambda>x. string_loop (snd x) (out @ [fst x])) = Inr (t, r)" by simp
        then obtain x where x: "escape cs = Inr x" "string_loop (snd x) (out @ [fst x]) = Inr (t, r)"
          by auto
        then have "length r < length (snd x)" using "1.IH"(1) [OF Cons c34 True] by blast
        moreover have "length (snd x) < length cs" using x(1) escape_shorter [of cs "fst x" "snd x"] by simp
        ultimately show ?thesis using Cons by simp
      next
        case False
        with "1.prems" Cons eq c34 have
          "try_bind (copy_scalar s) (\<lambda>x. string_loop (snd x) (out @ fst x)) = Inr (t, r)" by simp
        then obtain x where x: "copy_scalar s = Inr x" "string_loop (snd x) (out @ fst x) = Inr (t, r)"
          by auto
        then have "length r < length (snd x)" using "1.IH"(2) [OF Cons c34 False] by blast
        moreover have "length (snd x) < length s"
          using x(1) copy_scalar_shorter [of s "fst x" "snd x"] Cons by simp
        ultimately show ?thesis by simp
      qed
    qed
  qed
qed

lemma parse_string_shorter: "parse_string s = Inr (t, r) \<Longrightarrow> length r < length s"
  by (auto simp: parse_string_def dest!: eat_shorter string_loop_shorter)

lemma parse_number_shorter:
  assumes "parse_number J s = Inr (v, r)" shows "length r \<le> length s"
proof -
  have 1: "length (snd (part_text p s)) \<le> length s" if "lex_fraction s = Inr p" for p s
    using that by (auto simp: lex_fraction_def part_text_def Let_def length_dropWhile_le le_SucI split: list.splits if_splits)
  have 2: "length (snd (part_text p s)) \<le> length s" if "lex_exponent s = Inr p" for p s
    using that by (auto simp: lex_exponent_def part_text_def Let_def length_dropWhile_le le_SucI
        split: list.splits if_splits prod.splits intro: le_trans [OF length_dropWhile_le])
  let ?s1 = "snd (case s of c # r \<Rightarrow> if c = 45 then ([45 :: nat], r) else ([], s) | [] \<Rightarrow> ([], []))"
  have s1: "length ?s1 \<le> length s" by (auto split: list.splits)
  from assms obtain fr ex where fr: "lex_fraction (dropWhile is_digit ?s1) = Inr fr"
    and ex: "lex_exponent (snd (part_text fr (dropWhile is_digit ?s1))) = Inr ex"
    and r: "r = snd (part_text ex (snd (part_text fr (dropWhile is_digit ?s1))))"
    unfolding parse_number_def Let_def
    by (auto simp: split_beta split: if_splits option.splits)
  from 1 [OF fr] 2 [OF ex] s1 length_dropWhile_le [of is_digit ?s1] show ?thesis
    unfolding r by linarith
qed

lemma try_bind_Inl: "try_bind m f = Inl e \<longleftrightarrow> m = Inl e \<or> (\<exists>x. m = Inr x \<and> f x = Inl e)"
  by (cases m) auto

lemma no_fuel_error_lexer:
  "eat c s \<noteq> Inl OutOfFuel" "eat_lit l s \<noteq> Inl OutOfFuel" "hex4 s \<noteq> Inl OutOfFuel"
  "copy_scalar s \<noteq> Inl OutOfFuel" "lex_fraction s \<noteq> Inl OutOfFuel" "lex_exponent s \<noteq> Inl OutOfFuel"
  by (auto simp: eat_def eat_lit_def hex4_def copy_scalar_def lex_fraction_def lex_exponent_def Let_def
      split: list.splits option.splits if_splits prod.splits)

lemma no_fuel_error_escape: "escape s \<noteq> Inl OutOfFuel"
  by (auto simp: escape_def unicode_escape_def try_bind_Inl no_fuel_error_lexer
      split: list.splits if_splits option.splits)

lemma no_fuel_error_string: "string_loop s out \<noteq> Inl OutOfFuel"
proof (induction s out rule: string_loop.induct)
  case (1 s out)
  then show ?case
    by (subst string_loop.simps)
      (auto simp: try_bind_Inl no_fuel_error_escape no_fuel_error_lexer split: list.splits)
qed

lemma no_fuel_error_number: "parse_number J s \<noteq> Inl OutOfFuel"
  unfolding parse_number_def Let_def
  by (auto simp: try_bind_Inl no_fuel_error_lexer split_beta split: if_splits option.splits)

lemma no_fuel_error_parse_string: "parse_string s \<noteq> Inl OutOfFuel"
  by (auto simp: parse_string_def try_bind_Inl no_fuel_error_lexer no_fuel_error_string)

definition enough :: "nat \<Rightarrow> bytes \<Rightarrow> json_error + 'f Value \<times> bytes \<Rightarrow> bool" where
  "enough k s res \<longleftrightarrow> res \<noteq> Inl OutOfFuel \<and> (\<forall>v r. res = Inr (v, r) \<longrightarrow> length r \<le> length s)"

lemma enough_simps:
  "enough k s (Inl e) \<longleftrightarrow> e \<noteq> OutOfFuel" "enough k s (Inr (v, r)) \<longleftrightarrow> length r \<le> length s"
  by (auto simp: enough_def)

lemma enough_bind:
  assumes "m \<noteq> Inl OutOfFuel" and "\<And>x. m = Inr x \<Longrightarrow> enough k s (f x)"
  shows "enough k s (try_bind m f)"
  using assms by (cases m) (auto simp: enough_def)

lemma enough_mono: "enough k s res \<Longrightarrow> length s \<le> length t \<Longrightarrow> enough k t res"
  by (fastforce simp: enough_def)

definition fuel_ok :: "'f jfloat \<Rightarrow> nat \<Rightarrow> bool" where
  "fuel_ok J n \<longleftrightarrow>
     (\<forall>s. 2 * length s < n \<longrightarrow> enough 0 s (parse_value J n s)) \<and>
     (\<forall>kv s. 2 * length s + 1 < n \<longrightarrow> enough 0 s (object_loop J n kv s)) \<and>
     (\<forall>a s. 2 * length s + 1 < n \<longrightarrow> enough 0 s (array_loop J n a s))"

lemma fuel_okD:
  assumes "fuel_ok J n"
  shows "2 * length s < n \<Longrightarrow> enough 0 s (parse_value J n s)"
    and "2 * length s + 1 < n \<Longrightarrow> enough 0 s (object_loop J n kv s)"
    and "2 * length s + 1 < n \<Longrightarrow> enough 0 s (array_loop J n a s)"
  using assms by (simp_all add: fuel_ok_def)

lemma fuel_tail:
  assumes "fuel_ok J n" and "length r < length s" and "2 * length s < n"
  shows "enough 0 s (array_loop J n a r)" and "enough 0 s (object_loop J n kv r)"
  using assms fuel_okD [OF assms(1)] by (auto intro!: enough_mono [of 0 r _ s])

lemma fuel_array:
  assumes Suc: "fuel_ok J n" and len: "2 * length s + 1 < Suc n"
  shows "enough 0 s (array_loop J (Suc n) a s)"
  unfolding array_loop.simps
proof (rule enough_bind)
  have "2 * length (ws s) < n" using len ws_length [of s] by linarith
  then have v: "enough 0 (ws s) (parse_value J n (ws s))" using fuel_okD(1) [OF Suc] by blast
  then show "parse_value J n (ws s) \<noteq> Inl OutOfFuel" by (simp add: enough_def)
  fix x assume x: "parse_value J n (ws s) = Inr x"
  then have "length (ws (snd x)) \<le> length s"
    using v ws_length [of s] ws_length [of "snd x"] by (cases x) (fastforce simp: enough_def)
  then show "enough 0 s (case x of (v, s) \<Rightarrow> case ws s of
       c # r \<Rightarrow> if c = 44 then array_loop J n (a @ [v]) r
         else if c = 93 then Inr (VArray (a @ [v]), r) else Inl ExpectedCommaOrClose
     | [] \<Rightarrow> Inl ExpectedCommaOrClose)"
    using len by (auto simp: enough_simps intro!: fuel_tail [OF Suc] split: prod.splits list.splits)
qed

lemma fuel_object:
  assumes Suc: "fuel_ok J n" and len: "2 * length s + 1 < Suc n"
  shows "enough 0 s (object_loop J (Suc n) kv s)"
proof (cases "parse_string (ws s)")
  case (Inl e)
  then show ?thesis using no_fuel_error_parse_string [of "ws s"] by (simp add: enough_simps)
next
  case (Inr p)
  then obtain k t where k: "parse_string (ws s) = Inr (k, t)" by (cases p) simp
  have t: "length t < length s" using parse_string_shorter [OF k] ws_length [of s] by linarith
  show ?thesis
  proof (cases "eat 58 (ws t)")
    case (Inl e)
    then show ?thesis using k no_fuel_error_lexer(1) [of 58 "ws t"] by (simp add: enough_simps)
  next
    case u: (Inr u)
    have ul: "length u < length s" using eat_shorter [OF u] ws_length [of t] t by linarith
    then have "2 * length (ws u) < n" using len ws_length [of u] by linarith
    then have v: "enough 0 (ws u) (parse_value J n (ws u))" using fuel_okD(1) [OF Suc] by blast
    show ?thesis
    proof (cases "parse_value J n (ws u)")
      case (Inl e)
      then show ?thesis using k u v by (simp add: enough_simps)
    next
      case (Inr q)
      then have "length (ws (snd q)) \<le> length s"
        using v ul ws_length [of u] ws_length [of "snd q"] by (cases q) (simp add: enough_simps)
      then show ?thesis
        using k u Inr len by (cases q) (auto simp: enough_simps intro!: fuel_tail [OF Suc] split: list.splits)
    qed
  qed
qed

lemma fuel_value:
  assumes Suc: "fuel_ok J n" and len: "2 * length s < Suc n"
  shows "enough 0 s (parse_value J (Suc n) s)"
proof (cases s)
  case Nil
  then show ?thesis by (simp add: enough_def)
next
  case (Cons c r)
  have loops: "enough 0 s (object_loop J n [] t)" "enough 0 s (array_loop J n [] t)" if "length t \<le> length r" for t
  proof -
    have "2 * length t + 1 < n" using that len Cons by simp
    then have "enough 0 t (object_loop J n [] t)" "enough 0 t (array_loop J n [] t)" using fuel_okD [OF Suc] by blast+
    then show "enough 0 s (object_loop J n [] t)" "enough 0 s (array_loop J n [] t)"
      using that Cons by (auto elim!: enough_mono)
  qed
  have rest: "length r' \<le> length s" if "ws r = d # r'" for d r'
    using that ws_length [of r] Cons by simp
  have lits: "enough 0 s (try_bind (eat_lit l s) (\<lambda>r. Inr (v, r)))" for l v
    using eat_lit_shorter by (intro enough_bind) (auto simp: no_fuel_error_lexer enough_def)
  have str: "enough 0 s (try_bind (parse_string s) (\<lambda>(t, r). Inr (VStr t, r)))"
    by (intro enough_bind) (auto simp: no_fuel_error_parse_string enough_def dest!: parse_string_shorter)
  have num: "enough 0 s (parse_number J s)"
    using parse_number_shorter by (auto simp: enough_def no_fuel_error_number)
  show ?thesis
    unfolding parse_value.simps Cons list.case using loops [OF ws_length] loops rest lits str num
    unfolding Cons by (auto simp: enough_simps split: list.splits)
qed

lemma fuel_enough: "fuel_ok J n"
proof (induction n)
  case (Suc n)
  then show ?case using fuel_array fuel_object fuel_value unfolding fuel_ok_def [of J "Suc n"] by blast
qed (simp add: fuel_ok_def)

text \<open>The parser ends on every input: the bound the recursion starts with, twice the number of
  bytes, is never what stops it.\<close>

lemma json_parse_no_fuel_error: "json_parse J src \<noteq> Inl OutOfFuel"
proof -
  let ?b = "utf8 src"
  have "2 * length (ws ?b) < 2 * length ?b + 2" using ws_length [of ?b] by linarith
  then have "enough 0 (ws ?b) (parse_value J (2 * length ?b + 2) (ws ?b))" using fuel_okD(1) [OF fuel_enough] by blast
  then show ?thesis by (auto simp: json_parse_def Let_def try_bind_Inl enough_def simp del: parse_value.simps split: prod.splits if_splits)
qed

end
