(* ===== verification/Chat.thy ===== *)
theory Chat
  imports Py_Json
begin

text \<open>
  The chat template (\<open>gdn/src/chat.rs\<close>): roles, message contents, the render of a conversation
  and the construction of a request from JSON. Strings are appended to the output in the order the
  code pushes them; the image and video counters are threaded as a pair; the messages of
  \<open>raise_exception\<close> are the constructors of \<open>chat_error\<close>.
\<close>

section \<open>Markers\<close>

text \<open>Lines joined by newlines.\<close>

fun unlines :: "string list \<Rightarrow> rstr" where
  "unlines [] = []"
| "unlines [l] = lit l"
| "unlines (l # m # ls) = lit l @ [10] @ unlines (m # ls)"

definition IM_START :: rstr where "IM_START = lit ''<|im_start|>''"
definition IM_END :: rstr where "IM_END = lit ''<|im_end|>''"
definition THINK_OPEN :: rstr where "THINK_OPEN = lit ''<think>''"
definition THINK_CLOSE :: rstr where "THINK_CLOSE = lit ''</think>''"

definition TOOLS_PREFIX :: rstr where
  "TOOLS_PREFIX = unlines [''# Tools'', '''', ''You have access to the following functions:'', '''', ''<tools>'']"

definition TOOLS_INSTRUCTIONS :: rstr where
  "TOOLS_INSTRUCTIONS = unlines ['''', '''',
     ''If you choose to call a function ONLY reply in the following format with NO suffix:'', '''',
     ''<tool_call>'',
     ''<function=example_function_name>'',
     ''<parameter=example_parameter_1>'',
     ''value_1'',
     ''</parameter>'',
     ''<parameter=example_parameter_2>'',
     ''This is the value for the second parameter'',
     ''that can span'',
     ''multiple lines'',
     ''</parameter>'',
     ''</function>'',
     ''</tool_call>'', '''',
     ''<IMPORTANT>'',
     ''Reminder:'',
     ''- Function calls MUST follow the specified format: an inner <function=...></function> block must be nested within <tool_call></tool_call> XML tags'',
     ''- Required parameters MUST be specified'',
     ''- You may provide optional reasoning for your function call in natural language BEFORE the function call, but NOT after'',
     ''- If there is no function call available, answer the question like normal with your current knowledge and do not tell the user about function calls'',
     ''</IMPORTANT>'']"

datatype chat_error =
    NoMessages
  | SystemNotFirst
  | NoUserQuery
  | UnexpectedRole
  | SystemImage
  | SystemVideo
  | ItemType
  | ContentType
  | NoStringRole
  | NoStringName
  | MessagesNotArray

section \<open>Messages\<close>

datatype Role = System | User | Assistant | Tool | OtherRole rstr

definition role_from_name :: "rstr \<Rightarrow> Role" where
  "role_from_name s =
     (if s = lit ''system'' then System
      else if s = lit ''user'' then User
      else if s = lit ''assistant'' then Assistant
      else if s = lit ''tool'' then Tool
      else OtherRole s)"

datatype Part = PText rstr | Image | Video | OtherPart

datatype Content = CText rstr | Parts "Part list" | CNone | Unsupported

record 'f FunctionCall =
  fc_name :: rstr
  fc_arguments :: "(rstr \<times> 'f Value) list"

record 'f Message =
  role :: Role
  content :: Content
  reasoning :: "rstr option"
  tool_calls :: "'f FunctionCall list"

definition Message_new :: "Role \<Rightarrow> rstr \<Rightarrow> 'f Message" where
  "Message_new r t = \<lparr>role = r, content = CText t, reasoning = None, tool_calls = []\<rparr>"

record Options =
  add_generation_prompt :: bool
  enable_thinking :: bool
  add_vision_id :: bool

record 'f Request =
  messages :: "'f Message list"
  tools :: "'f Value list"
  opts :: Options

record Rendered =
  r_text :: rstr
  r_images :: nat
  r_videos :: nat

section \<open>Rendering\<close>

definition is_python_space :: "rchar \<Rightarrow> bool" where
  "is_python_space c \<longleftrightarrow> (0x1c \<le> c \<and> c \<le> 0x1f) \<or> is_whitespace c"

definition jinja_trim :: "rstr \<Rightarrow> rstr" where
  "jinja_trim s = trim_matches is_python_space s"

text \<open>The counters of images and videos rendered so far.\<close>

type_synonym counts = "nat \<times> nat"

fun render_parts ::
  "bool \<Rightarrow> bool \<Rightarrow> bool \<Rightarrow> Part list \<Rightarrow> rstr \<Rightarrow> counts \<Rightarrow> chat_error + rstr \<times> counts" where
  "render_parts do_count is_system avi [] out vc = Inr (out, vc)"
| "render_parts do_count is_system avi (Image # ps) out (images, videos) =
     (if is_system then Inl SystemImage
      else
        let images = (if do_count then images + 1 else images) in
        render_parts do_count is_system avi ps
          (out @ (if avi then lit ''Picture '' @ show_nat images @ lit '': '' else []) @
           lit ''<|vision_start|><|image_pad|><|vision_end|>'') (images, videos))"
| "render_parts do_count is_system avi (Video # ps) out (images, videos) =
     (if is_system then Inl SystemVideo
      else
        let videos = (if do_count then videos + 1 else videos) in
        render_parts do_count is_system avi ps
          (out @ (if avi then lit ''Video '' @ show_nat videos @ lit '': '' else []) @
           lit ''<|vision_start|><|video_pad|><|vision_end|>'') (images, videos))"
| "render_parts do_count is_system avi (PText t # ps) out vc =
     render_parts do_count is_system avi ps (out @ t) vc"
| "render_parts do_count is_system avi (OtherPart # ps) out vc = Inl ItemType"

fun render_content :: "Content \<Rightarrow> bool \<Rightarrow> bool \<Rightarrow> bool \<Rightarrow> counts \<Rightarrow> chat_error + rstr \<times> counts" where
  "render_content (CText s) do_count is_system avi vc = Inr (s, vc)"
| "render_content CNone do_count is_system avi vc = Inr ([], vc)"
| "render_content Unsupported do_count is_system avi vc = Inl ContentType"
| "render_content (Parts ps) do_count is_system avi vc = render_parts do_count is_system avi ps [] vc"

definition argument_text :: "'f jfloat \<Rightarrow> 'f Value \<Rightarrow> rstr" where
  "argument_text J v =
     (case v of VArray _ \<Rightarrow> dumps J v | VObject _ \<Rightarrow> dumps J v | _ \<Rightarrow> py_str J v)"

definition tools_text :: "'f jfloat \<Rightarrow> 'f Value list \<Rightarrow> rstr" where
  "tools_text J ts = concat (map (\<lambda>t. [10] @ dumps J t) ts)"

definition system_block :: "'f jfloat \<Rightarrow> 'f Request \<Rightarrow> counts \<Rightarrow> chat_error + rstr \<times> counts" where
  "system_block J req vc =
     (let m = hd (messages req); avi = add_vision_id (opts req) in
      if tools req \<noteq> [] then
        let pre = IM_START @ lit ''system'' @ [10] @ TOOLS_PREFIX @ tools_text J (tools req) @
              [10] @ lit ''</tools>'' @ TOOLS_INSTRUCTIONS in
        if role m = System then
          try_bind (render_content (content m) False True avi vc) (\<lambda>(t, vc).
          let c = jinja_trim t in
          Inr (pre @ (if c \<noteq> [] then [10, 10] @ c else []) @ IM_END @ [10], vc))
        else Inr (pre @ IM_END @ [10], vc)
      else if role m = System then
        try_bind (render_content (content m) False True avi vc) (\<lambda>(t, vc).
        Inr (IM_START @ lit ''system'' @ [10] @ jinja_trim t @ IM_END @ [10], vc))
      else Inr ([], vc))"

text \<open>The backwards scan for the last user message that is not a wrapped tool response.\<close>

definition is_tool_response :: "rstr \<Rightarrow> bool" where
  "is_tool_response c \<longleftrightarrow>
     starts_with c (lit ''<tool_response>'') \<and> ends_with c (lit ''</tool_response>'')"

fun query_scan ::
  "'f Request \<Rightarrow> nat list \<Rightarrow> bool \<times> nat \<Rightarrow> counts \<Rightarrow> chat_error + (bool \<times> nat) \<times> counts" where
  "query_scan req [] st vc = Inr (st, vc)"
| "query_scan req (i # is) (multi_step_tool, last_query_index) vc =
     (if multi_step_tool \<and> role (messages req ! i) = User then
        try_bind (render_content (content (messages req ! i)) False False (add_vision_id (opts req)) vc)
          (\<lambda>(t, vc). query_scan req is
             (if \<not> is_tool_response (jinja_trim t) then (False, i)
              else (multi_step_tool, last_query_index)) vc)
      else query_scan req is (multi_step_tool, last_query_index) vc)"

text \<open>The reasoning and the content of an assistant message.\<close>

definition split_reasoning :: "'f Message \<Rightarrow> rstr \<Rightarrow> rstr \<times> rstr" where
  "split_reasoning m c =
     (case reasoning m of
        Some r \<Rightarrow> (r, c)
      | None \<Rightarrow>
          if contains_sub c THINK_CLOSE then
            let head = trim_end_matches (\<lambda>x. x = 10) (split_first c THINK_CLOSE);
                head = rsplit_first head THINK_OPEN
            in (trim_start_matches (\<lambda>x. x = 10) head,
                trim_start_matches (\<lambda>x. x = 10) (rsplit_first c THINK_CLOSE))
          else ([], c))"

definition arg_block :: "'f jfloat \<Rightarrow> rstr \<times> 'f Value \<Rightarrow> rstr" where
  "arg_block J kv =
     lit ''<parameter='' @ fst kv @ [62, 10] @ argument_text J (snd kv) @ [10] @ lit ''</parameter>'' @ [10]"

definition call_body :: "'f jfloat \<Rightarrow> 'f FunctionCall \<Rightarrow> rstr" where
  "call_body J tc =
     [10] @ lit ''<function='' @ fc_name tc @ [62, 10] @ concat (map (arg_block J) (fc_arguments tc)) @
     lit ''</function>'' @ [10]"

definition tool_call_text :: "'f jfloat \<Rightarrow> rstr \<Rightarrow> nat \<Rightarrow> 'f FunctionCall \<Rightarrow> rstr" where
  "tool_call_text J c j tc =
     (if j = 0 then (if jinja_trim c \<noteq> [] then [10, 10] else []) else [10]) @
     lit ''<tool_call>'' @ call_body J tc @ lit ''</tool_call>''"

definition tool_calls_text :: "'f jfloat \<Rightarrow> rstr \<Rightarrow> 'f FunctionCall list \<Rightarrow> rstr" where
  "tool_calls_text J c tcs = concat (map (\<lambda>(j, tc). tool_call_text J c j tc) (enumerate 0 tcs))"

text \<open>What is written between the role line and the end marker.\<close>

definition assistant_text :: "'f jfloat \<Rightarrow> 'f Message \<Rightarrow> rstr \<Rightarrow> bool \<Rightarrow> rstr" where
  "assistant_text J m c in_turn =
     (let (r, c) = split_reasoning m c; r = jinja_trim r in
      (if in_turn then THINK_OPEN @ [10] @ r @ [10] @ THINK_CLOSE @ [10, 10] @ c else c) @
      tool_calls_text J c (tool_calls m))"

definition message_step ::
  "'f jfloat \<Rightarrow> 'f Request \<Rightarrow> nat \<Rightarrow> nat \<Rightarrow> rstr \<times> counts \<Rightarrow> chat_error + rstr \<times> counts" where
  "message_step J req last_query_index i st =
     (let (out, vc) = st; m = messages req ! i; n = length (messages req) in
      try_bind (render_content (content m) True False (add_vision_id (opts req)) vc) (\<lambda>(t, vc).
      let c = jinja_trim t in
      case role m of
        System \<Rightarrow> if i \<noteq> 0 then Inl SystemNotFirst else Inr (out, vc)
      | User \<Rightarrow> Inr (out @ IM_START @ lit ''user'' @ [10] @ c @ IM_END @ [10], vc)
      | Assistant \<Rightarrow>
          Inr (out @ IM_START @ lit ''assistant'' @ [10] @ assistant_text J m c (i > last_query_index) @
               IM_END @ [10], vc)
      | Tool \<Rightarrow>
          Inr (out @
               (if i > 0 \<and> role (messages req ! (i - 1)) \<noteq> Tool then IM_START @ lit ''user'' else []) @
               [10] @ lit ''<tool_response>'' @ [10] @ c @ [10] @ lit ''</tool_response>'' @
               (if i + 1 = n \<or> role (messages req ! (i + 1)) \<noteq> Tool then IM_END @ [10] else []), vc)
      | OtherRole _ \<Rightarrow> Inl UnexpectedRole))"

fun main_loop ::
  "'f jfloat \<Rightarrow> 'f Request \<Rightarrow> nat \<Rightarrow> nat list \<Rightarrow> rstr \<times> counts \<Rightarrow> chat_error + rstr \<times> counts" where
  "main_loop J req q [] st = Inr st"
| "main_loop J req q (i # is) st = try_bind (message_step J req q i st) (main_loop J req q is)"

definition generation_prompt :: "Options \<Rightarrow> rstr" where
  "generation_prompt o' =
     (if add_generation_prompt o' then
        IM_START @ lit ''assistant'' @ [10] @
        (if enable_thinking o' then THINK_OPEN @ [10]
         else THINK_OPEN @ [10, 10] @ THINK_CLOSE @ [10, 10])
      else [])"

definition render :: "'f jfloat \<Rightarrow> 'f Request \<Rightarrow> chat_error + Rendered" where
  "render J req =
     (let n = length (messages req) in
      if messages req = [] then Inl NoMessages
      else
        try_bind (system_block J req (0, 0)) (\<lambda>(out, vc).
        try_bind (query_scan req (rev [0..<n]) (True, n - 1) vc) (\<lambda>((multi_step_tool, q), vc).
        if multi_step_tool then Inl NoUserQuery
        else
          try_bind (main_loop J req q [0..<n] (out, vc)) (\<lambda>(out, vc).
          Inr \<lparr>r_text = out @ generation_prompt (opts req), r_images = fst vc, r_videos = snd vc\<rparr>))))"

section \<open>Requests from JSON\<close>

definition type_is :: "'f Value \<Rightarrow> rstr \<Rightarrow> bool" where
  "type_is item want \<longleftrightarrow> Option.bind (v_get item (lit ''type'')) v_as_str = Some want"

definition part_from_json :: "'f jfloat \<Rightarrow> 'f Value \<Rightarrow> Part" where
  "part_from_json J item =
     (if v_contains_key item (lit ''image'') \<or> v_contains_key item (lit ''image_url'') \<or>
         type_is item (lit ''image'') then Image
      else if v_contains_key item (lit ''video'') \<or> type_is item (lit ''video'') then Video
      else case v_get item (lit ''text'') of Some t \<Rightarrow> PText (py_str J t) | None \<Rightarrow> OtherPart)"

definition content_from_json :: "'f jfloat \<Rightarrow> 'f Value \<Rightarrow> Content" where
  "content_from_json J c =
     (case c of
        VStr s \<Rightarrow> CText s
      | VNull \<Rightarrow> CNone
      | VArray items \<Rightarrow> Parts (map (part_from_json J) items)
      | _ \<Rightarrow> Unsupported)"

definition call_from_json :: "'f Value \<Rightarrow> chat_error + 'f FunctionCall" where
  "call_from_json c =
     (let f = (case v_get c (lit ''function'') of Some f \<Rightarrow> f | None \<Rightarrow> c) in
      case Option.bind (v_get f (lit ''name'')) v_as_str of
        None \<Rightarrow> Inl NoStringName
      | Some name \<Rightarrow>
          Inr \<lparr>fc_name = name,
               fc_arguments = (case v_get f (lit ''arguments'') of Some (VObject kv) \<Rightarrow> kv | _ \<Rightarrow> [])\<rparr>)"

definition Message_from_json :: "'f jfloat \<Rightarrow> 'f Value \<Rightarrow> chat_error + 'f Message" where
  "Message_from_json J v =
     (case Option.bind (v_get v (lit ''role'')) v_as_str of
        None \<Rightarrow> Inl NoStringRole
      | Some r \<Rightarrow>
          let c = (case v_get v (lit ''content'') of None \<Rightarrow> CNone | Some c \<Rightarrow> content_from_json J c);
              re = (case v_get v (lit ''reasoning_content'') of Some (VStr s) \<Rightarrow> Some s | _ \<Rightarrow> None)
          in try_bind
               (case v_get v (lit ''tool_calls'') of Some (VArray cs) \<Rightarrow> collect_result call_from_json cs | _ \<Rightarrow> Inr [])
               (\<lambda>tcs. Inr \<lparr>role = role_from_name r, content = c, reasoning = re, tool_calls = tcs\<rparr>))"

definition bool_field :: "'f Value \<Rightarrow> rstr \<Rightarrow> bool" where
  "bool_field v k = (case Option.bind (v_get v k) v_as_bool of Some b \<Rightarrow> b | None \<Rightarrow> False)"

definition Request_from_json :: "'f jfloat \<Rightarrow> 'f Value \<Rightarrow> chat_error + 'f Request" where
  "Request_from_json J v =
     try_bind
       (case v_get v (lit ''messages'') of
          Some (VArray a) \<Rightarrow> collect_result (Message_from_json J) a
        | Some _ \<Rightarrow> Inl MessagesNotArray
        | None \<Rightarrow> Inr [])
       (\<lambda>ms. Inr \<lparr>messages = ms,
            tools = (case v_get v (lit ''tools'') of Some (VArray a) \<Rightarrow> a | _ \<Rightarrow> []),
            opts = \<lparr>add_generation_prompt = bool_field v (lit ''add_generation_prompt''),
                    enable_thinking = bool_field v (lit ''enable_thinking''),
                    add_vision_id = bool_field v (lit ''add_vision_id'')\<rparr>\<rparr>)"

section \<open>When a conversation renders\<close>

definition content_ok :: "bool \<Rightarrow> Content \<Rightarrow> bool" where
  "content_ok is_system c =
     (case c of
        Unsupported \<Rightarrow> False
      | Parts ps \<Rightarrow> OtherPart \<notin> set ps \<and> (is_system \<longrightarrow> Image \<notin> set ps \<and> Video \<notin> set ps)
      | _ \<Rightarrow> True)"

definition part_count :: "Part \<Rightarrow> Content \<Rightarrow> nat" where
  "part_count p c = (case c of Parts ps \<Rightarrow> count_list ps p | _ \<Rightarrow> 0)"

text \<open>The counters after a content has been rendered.\<close>

definition counted :: "bool \<Rightarrow> Content \<Rightarrow> counts \<Rightarrow> counts" where
  "counted d c vc = (if d then (fst vc + part_count Image c, snd vc + part_count Video c) else vc)"

lemma counted_Cons:
  "counted d (Parts (Image # ps)) (i, v) = counted d (Parts ps) (if d then i + 1 else i, v)"
  "counted d (Parts (Video # ps)) (i, v) = counted d (Parts ps) (i, if d then v + 1 else v)"
  "counted d (Parts (PText t # ps)) vc = counted d (Parts ps) vc"
  "counted d (Parts []) vc = vc"
  by (simp_all add: counted_def part_count_def)

lemma content_ok_Cons:
  "content_ok False (Parts (Image # ps)) = content_ok False (Parts ps)"
  "content_ok False (Parts (Video # ps)) = content_ok False (Parts ps)"
  "\<not> content_ok True (Parts (Image # ps))" "\<not> content_ok True (Parts (Video # ps))"
  "content_ok sys (Parts (PText t # ps)) = content_ok sys (Parts ps)"
  "\<not> content_ok sys (Parts (OtherPart # ps))" "content_ok sys (Parts [])"
  by (simp_all add: content_ok_def)

lemma render_parts_result:
  "case render_parts d sys avi ps out vc of
     Inr (t, vc') \<Rightarrow> content_ok sys (Parts ps) \<and> vc' = counted d (Parts ps) vc
   | Inl e \<Rightarrow> \<not> content_ok sys (Parts ps)"
proof (induction d sys avi ps out vc rule: render_parts.induct)
  case (2 d sys avi ps out images videos)
  then show ?case
    by (cases sys) (simp_all add: Let_def counted_Cons content_ok_Cons del: lit_simps
        split: sum.splits prod.splits split del: if_split)
next
  case (3 d sys avi ps out images videos)
  then show ?case
    by (cases sys) (simp_all add: Let_def counted_Cons content_ok_Cons del: lit_simps
        split: sum.splits prod.splits split del: if_split)
qed (auto simp: counted_Cons content_ok_Cons split: sum.splits)

lemma render_content_result:
  "case render_content c d sys avi vc of
     Inr (t, vc') \<Rightarrow> content_ok sys c \<and> vc' = counted d c vc
   | Inl e \<Rightarrow> \<not> content_ok sys c"
proof (cases c)
  case (Parts ps)
  then show ?thesis
    using render_parts_result [where d = d and sys = sys and avi = avi and out = "[]" and vc = vc and ps = ps]
    by (auto split: sum.splits)
qed (simp_all add: content_ok_def part_count_def counted_def)

lemma render_content_cases:
  obtains (fails) e where "render_content c d sys avi vc = Inl e" "\<not> content_ok sys c"
  | (renders) t where "render_content c d sys avi vc = Inr (t, counted d c vc)" "content_ok sys c"
  using render_content_result [where c = c and d = d and sys = sys and avi = avi and vc = vc]
  by (cases "render_content c d sys avi vc") auto

definition step_ok :: "'f Request \<Rightarrow> nat \<Rightarrow> bool" where
  "step_ok req i \<longleftrightarrow> content_ok False (content (messages req ! i)) \<and>
     (case role (messages req ! i) of System \<Rightarrow> i = 0 | OtherRole _ \<Rightarrow> False | _ \<Rightarrow> True)"

lemma message_step_cases:
  obtains (fails) e where "message_step J req q i (out, vc) = Inl e" "\<not> step_ok req i"
  | (steps) out' where
      "message_step J req q i (out, vc) = Inr (out', counted True (content (messages req ! i)) vc)" "step_ok req i"
proof (cases rule: render_content_cases
    [of "content (messages req ! i)" True False "add_vision_id (opts req)" vc])
  case (fails e)
  then show ?thesis using that(1) by (simp add: message_step_def step_ok_def)
next
  case (renders t)
  then show ?thesis
    using that by (cases "role (messages req ! i)")
      (auto simp: message_step_def step_ok_def Let_def simp del: lit_simps)
qed

definition total_parts :: "Part \<Rightarrow> 'f Request \<Rightarrow> nat list \<Rightarrow> nat" where
  "total_parts p req is = (\<Sum>i \<leftarrow> is. part_count p (content (messages req ! i)))"

lemma main_loop_result:
  "case main_loop J req q js (out, vc) of
     Inr (out', vc') \<Rightarrow> list_all (step_ok req) js \<and>
       vc' = (fst vc + total_parts Image req js, snd vc + total_parts Video req js)
   | Inl e \<Rightarrow> \<not> list_all (step_ok req) js"
proof (induction js arbitrary: out vc)
  case (Cons i js)
  show ?case
  proof (cases rule: message_step_cases [of J req q i out vc])
    case (fails e)
    then show ?thesis by simp
  next
    case (steps out')
    from Cons [of "counted True (content (messages req ! i)) vc" out'] steps show ?thesis
      by (auto simp: counted_def total_parts_def split: sum.splits)
  qed
qed (simp add: total_parts_def)

text \<open>A genuine user query: a user message that is not a wrapped tool response.\<close>

definition is_query :: "'f Request \<Rightarrow> nat \<Rightarrow> bool" where
  "is_query req i \<longleftrightarrow> role (messages req ! i) = User \<and>
     (case render_content (content (messages req ! i)) False False (add_vision_id (opts req)) (0, 0) of
        Inr (t, _) \<Rightarrow> \<not> is_tool_response (jinja_trim t)
      | Inl _ \<Rightarrow> False)"

lemma query_scan_done [simp]: "query_scan req is (False, q) vc = Inr ((False, q), vc)"
  by (induction "is") auto

lemma query_scan_find:
  assumes "\<forall>i \<in> set is. content_ok False (content (messages req ! i))"
  shows "query_scan req is (True, q) (0, 0) =
    Inr ((case find (is_query req) is of Some i \<Rightarrow> (False, i) | None \<Rightarrow> (True, q)), (0, 0))"
  using assms
proof (induction "is")
  case (Cons i "is")
  show ?case
  proof (cases rule: render_content_cases
      [of "content (messages req ! i)" False False "add_vision_id (opts req)" "(0, 0)"])
    case (fails e)
    then show ?thesis using Cons.prems by simp
  next
    case (renders t)
    then show ?thesis using Cons by (auto simp: is_query_def counted_def)
  qed
qed simp

lemma find_rev_last:
  "find P (rev [0..<n]) = Some q \<longleftrightarrow> q < n \<and> P q \<and> (\<forall>i. q < i \<and> i < n \<longrightarrow> \<not> P i)"
proof (induction n)
  case (Suc n)
  then show ?case by (auto simp: less_Suc_eq)
qed simp

definition request_ok :: "'f Request \<Rightarrow> bool" where
  "request_ok req \<longleftrightarrow> messages req \<noteq> [] \<and>
     (role (hd (messages req)) = System \<longrightarrow> content_ok True (content (hd (messages req)))) \<and>
     list_all (step_ok req) [0..<length (messages req)] \<and>
     list_ex (is_query req) [0..<length (messages req)]"

lemma system_block_cases:
  obtains (fails) e where "system_block J req vc = Inl e"
      "role (hd (messages req)) = System" "\<not> content_ok True (content (hd (messages req)))"
  | (renders) out where "system_block J req vc = Inr (out, vc)"
      "role (hd (messages req)) = System \<longrightarrow> content_ok True (content (hd (messages req)))"
proof (cases rule: render_content_cases
    [of "content (hd (messages req))" False True "add_vision_id (opts req)" vc])
  case (fails e)
  show ?thesis
  proof (cases "role (hd (messages req)) = System")
    case True
    then have "system_block J req vc = Inl e"
      using fails by (simp add: system_block_def Let_def del: lit_simps)
    then show ?thesis using that(1) fails True by blast
  next
    case False
    then have "\<exists>out. system_block J req vc = Inr (out, vc)"
      by (simp add: system_block_def Let_def del: lit_simps)
    then show ?thesis using that(2) False by blast
  qed
next
  case (renders t)
  then have "\<exists>out. system_block J req vc = Inr (out, vc)"
    by (simp add: system_block_def Let_def counted_def del: lit_simps)
  then show ?thesis using that(2) renders by blast
qed

lemma render_result:
  "case render J req of
     Inr r \<Rightarrow> request_ok req \<and>
       r_images r = total_parts Image req [0..<length (messages req)] \<and>
       r_videos r = total_parts Video req [0..<length (messages req)]
   | Inl e \<Rightarrow> \<not> request_ok req"
proof (cases "messages req = []")
  case True
  then show ?thesis by (simp add: render_def request_ok_def)
next
  case ne: False
  let ?n = "length (messages req)"
  show ?thesis
  proof (cases rule: system_block_cases [of J req "(0, 0)"])
    case (fails e)
    then show ?thesis using ne by (simp add: render_def request_ok_def)
  next
    case sys: (renders out)
    show ?thesis
    proof (cases "list_all (step_ok req) [0..<?n]")
      case True
      then have ok: "\<forall>i \<in> set (rev [0..<?n]). content_ok False (content (messages req ! i))"
        by (simp add: list_all_iff step_ok_def)
      show ?thesis
      proof (cases "find (is_query req) (rev [0..<?n])")
        case None
        then have "\<not> list_ex (is_query req) [0..<?n]" by (auto simp: find_None_iff list_ex_iff)
        then show ?thesis
          using ne sys None query_scan_find [OF ok, of "?n - 1"] by (simp add: render_def request_ok_def)
      next
        case (Some q)
        then have "list_ex (is_query req) [0..<?n]" by (force simp: find_rev_last list_ex_iff)
        then show ?thesis
          using ne sys True Some query_scan_find [OF ok, of "?n - 1"]
            main_loop_result [where J = J and req = req and q = q and js = "[0..<?n]" and out = out and vc = "(0, 0)"]
          by (auto simp: render_def request_ok_def split: sum.splits)
      qed
    next
      case False
      then have "main_loop J req q [0..<?n] (out, vc) \<noteq> Inr r" for q vc r
        using main_loop_result [where J = J and req = req and q = q and js = "[0..<?n]" and out = out and vc = vc]
        by (auto split: sum.splits)
      then show ?thesis
        using ne sys False by (auto simp: render_def request_ok_def Let_def split: sum.splits)
    qed
  qed
qed

text \<open>C36. A conversation renders exactly when it has messages, every content is of a supported shape
  (without images and videos in a leading system message), system messages come first only, no role
  is unknown, and some user message is not a wrapped tool response. The image and video counts
  returned are then the numbers of image and video parts of all messages; the scan for the last
  query does not count them a second time.\<close>

theorem render_succeeds_iff:
  "case render J req of
     Inr r \<Rightarrow> request_ok req \<and>
       r_images r = total_parts Image req [0..<length (messages req)] \<and>
       r_videos r = total_parts Video req [0..<length (messages req)]
   | Inl e \<Rightarrow> \<not> request_ok req"
  by (rule render_result)

end
