(* ===== verification/Chatparse.thy ===== *)
theory Chatparse
  imports Chat
begin

text \<open>
  Reading back what the model wrote (\<open>gdn/src/chatparse.rs\<close>): the think block, the content and
  the \<open><tool_call>\<close> blocks of a continuation. The error messages that quote the first 24 bytes
  of the remaining text slice a \<open>str\<close> at a byte position, which panics inside a multi-byte
  character; \<open>quoting\<close> is that slice, and \<open>Panic\<close> the panic.
\<close>

section \<open>The parser\<close>

datatype call_error =
    CallNotClosed
  | NotAFunction
  | NameNotClosed
  | EmptyName
  | FunctionNotClosed
  | ExpectedParameter
  | KeyNotClosed
  | ParameterNotClosed
  | Panic

record TextCall =
  tc_name :: rstr
  tc_arguments :: "(rstr \<times> rstr) list"

record Reply =
  rp_reasoning :: "rstr option"
  rp_content :: rstr
  rp_tool_calls :: "TextCall list"

definition Reply_text :: "rstr \<Rightarrow> Reply" where
  "Reply_text c = \<lparr>rp_reasoning = None, rp_content = c, rp_tool_calls = []\<rparr>"

definition as_chat_calls :: "Reply \<Rightarrow> 'f FunctionCall list" where
  "as_chat_calls rp =
     map (\<lambda>c. \<lparr>fc_name = tc_name c, fc_arguments = map (\<lambda>(k, v). (k, VStr v)) (tc_arguments c)\<rparr>)
       (rp_tool_calls rp)"

definition TOOL_OPEN :: rstr where "TOOL_OPEN = lit ''<tool_call>''"
definition TOOL_CLOSE :: rstr where "TOOL_CLOSE = lit ''</tool_call>''"
definition FUNC_OPEN :: rstr where "FUNC_OPEN = lit ''<function=''"
definition FUNC_CLOSE :: rstr where "FUNC_CLOSE = lit ''</function>''"
definition PARAM_OPEN :: rstr where "PARAM_OPEN = lit ''<parameter=''"
definition PARAM_CLOSE :: rstr where "PARAM_CLOSE = 10 # lit ''</parameter>''"

abbreviation (input) nl :: "rchar \<Rightarrow> bool" where "nl \<equiv> \<lambda>x. x = 10"

definition quoting :: "rstr \<Rightarrow> call_error \<Rightarrow> call_error" where
  "quoting s e = (if min (str_len s) 24 \<in> set (char_boundaries s) then e else Panic)"

lemma split_once_length: "split_once s p = Some (a, b) \<Longrightarrow> length a + length p + length b = length s"
  using find_sub_Some [of s p] by (auto simp: split_once_def)

lemma strip_prefix_length: "strip_prefix s p = Some r \<Longrightarrow> length r \<le> length s"
  by (auto simp: strip_prefix_def split: if_splits)

definition split_value :: "rstr \<Rightarrow> (rstr \<times> rstr) option" where
  "split_value r =
     (case split_once r (PARAM_CLOSE @ [10]) of Some x \<Rightarrow> Some x | None \<Rightarrow> split_once r PARAM_CLOSE)"

function parse_params :: "rstr \<Rightarrow> (rstr \<times> rstr) list \<Rightarrow> call_error + (rstr \<times> rstr) list" where
  "parse_params rest args =
     (if rest = [] then Inr args
      else case strip_prefix rest PARAM_OPEN of
        None \<Rightarrow> Inl (quoting rest ExpectedParameter)
      | Some r \<Rightarrow>
          (case split_once r [62, 10] of
             None \<Rightarrow> Inl (quoting r KeyNotClosed)
           | Some (key, r) \<Rightarrow>
               (case split_value r of
                  None \<Rightarrow> Inl ParameterNotClosed
                | Some (val, r) \<Rightarrow> parse_params (trim_start_matches nl r) (args @ [(key, val)]))))"
  by auto
termination
proof (relation "measure (\<lambda>(rest, _). length rest)", simp, clarsimp)
  fix rest r key r' val r'' :: rstr
  assume "strip_prefix rest PARAM_OPEN = Some r" "split_once r [62, 10] = Some (key, r')"
    "split_value r' = Some (val, r'')"
  then have "length r'' < length rest"
    by (auto simp: split_value_def split: option.splits dest!: strip_prefix_length split_once_length)
  then show "length (trim_start_matches nl r'') < length rest"
    using length_dropWhile_le [of nl r''] unfolding trim_start_matches_def by linarith
qed

declare parse_params.simps [simp del]

definition parse_one :: "rstr \<Rightarrow> call_error + TextCall" where
  "parse_one body =
     (let body = trim_matches nl body in
      case strip_prefix body FUNC_OPEN of
        None \<Rightarrow> Inl NotAFunction
      | Some rest \<Rightarrow>
          (case split_once rest [62, 10] of
             None \<Rightarrow> Inl NameNotClosed
           | Some (name, rest) \<Rightarrow>
               if name = [] then Inl EmptyName
               else
                 (case strip_suffix (trim_end_matches nl rest) FUNC_CLOSE of
                    None \<Rightarrow> Inl FunctionNotClosed
                  | Some rest \<Rightarrow>
                      try_bind (parse_params (trim_matches nl rest) []) (\<lambda>args.
                      Inr \<lparr>tc_name = name, tc_arguments = args\<rparr>))))"

function parse_tool_calls :: "rstr \<Rightarrow> TextCall list \<Rightarrow> call_error + TextCall list" where
  "parse_tool_calls rest out =
     (case find_sub rest TOOL_OPEN of
        None \<Rightarrow> Inr out
      | Some start \<Rightarrow>
          let after = drop (start + length TOOL_OPEN) rest in
          (case find_sub after TOOL_CLOSE of
             None \<Rightarrow> Inl CallNotClosed
           | Some stop \<Rightarrow>
               try_bind (parse_one (trim_matches nl (take stop after))) (\<lambda>c.
               parse_tool_calls (drop (stop + length TOOL_CLOSE) after) (out @ [c]))))"
  by auto
termination
proof (relation "measure (\<lambda>(rest, _). length rest)", simp, clarsimp)
  fix rest start stop
  assume "find_sub rest TOOL_OPEN = Some start"
  moreover have "0 < length TOOL_OPEN" by (simp add: TOOL_OPEN_def)
  ultimately show "length rest - (stop + length TOOL_CLOSE + (start + length TOOL_OPEN)) < length rest"
    using find_sub_Some [of rest TOOL_OPEN start] by linarith
qed

declare parse_tool_calls.simps [simp del]

definition split_think :: "rstr \<Rightarrow> rstr option \<times> rstr" where
  "split_think s =
     (case split_once s THINK_CLOSE of
        Some (head, body) \<Rightarrow> (Some (jinja_trim (rsplit_first head THINK_OPEN)), trim_start_matches nl body)
      | None \<Rightarrow> (None, s))"

definition parse_assistant :: "rstr \<Rightarrow> call_error + Reply" where
  "parse_assistant s =
     (let (re, body) = split_think s in
      case parse_tool_calls body [] of
        Inr parsed \<Rightarrow>
          let cut = (case find_sub body TOOL_OPEN of Some i \<Rightarrow> i | None \<Rightarrow> length body) in
          Inr \<lparr>rp_reasoning = re, rp_content = jinja_trim (take cut body), rp_tool_calls = parsed\<rparr>
      | Inl Panic \<Rightarrow> Inl Panic
      | Inl _ \<Rightarrow> Inr \<lparr>rp_reasoning = re, rp_content = jinja_trim body, rp_tool_calls = []\<rparr>)"

section \<open>Searching in rendered text\<close>

text \<open>An occurrence cannot cross a character the pattern does not have.\<close>

lemma contains_sub_iff: "contains_sub s p \<longleftrightarrow> (\<exists>a b. s = a @ p @ b)"
  by (simp add: contains_sub_def find_sub_None del: not_None_eq)

lemma contains_separator:
  assumes "d \<notin> set p"
  shows "contains_sub (s @ d # t) p \<longleftrightarrow> contains_sub s p \<or> contains_sub t p"
proof
  assume "contains_sub (s @ d # t) p"
  then obtain a b where eq: "s @ d # t = a @ p @ b" unfolding contains_sub_iff by blast
  then consider us where "s = a @ us" "us @ d # t = p @ b" | us where "a = s @ us" "d # t = us @ p @ b"
    by (auto simp: append_eq_append_conv2)
  then show "contains_sub s p \<or> contains_sub t p"
  proof cases
    case 1
    then obtain vs where vs: "us = p @ vs \<or> p = us @ vs \<and> d # t = vs @ b"
      by (auto simp: append_eq_append_conv2)
    show ?thesis
    proof (cases "us = p @ vs")
      case True
      then show ?thesis using 1 unfolding contains_sub_iff by blast
    next
      case False
      then have v: "p = us @ vs" "d # t = vs @ b" using vs by auto
      then have "vs = []" using assms by (cases vs) auto
      then show ?thesis using 1 v unfolding contains_sub_iff by (metis append.right_neutral append_Nil2)
    qed
  next
    case 2
    show ?thesis
    proof (cases us)
      case Nil
      then have "p = []" using 2 assms by (cases p) auto
      then show ?thesis unfolding contains_sub_iff by (metis append_Nil)
    next
      case (Cons x xs)
      then show ?thesis using 2 unfolding contains_sub_iff by auto
    qed
  qed
next
  assume "contains_sub s p \<or> contains_sub t p"
  then show "contains_sub (s @ d # t) p"
    unfolding contains_sub_iff by (metis append.assoc append_Cons)
qed

lemma contains_suffix: "contains_sub t p \<Longrightarrow> contains_sub (s @ t) p"
  unfolding contains_sub_iff by (metis append.assoc)

lemma contains_dropWhile: "contains_sub (dropWhile f s) p \<Longrightarrow> contains_sub s p"
  using contains_suffix [of "dropWhile f s" p "takeWhile f s"] by simp

lemma contains_rev: "contains_sub (rev s) (rev p) \<longleftrightarrow> contains_sub s p"
proof -
  have "contains_sub (rev s) (rev p)" if "contains_sub s p" for s p :: "'a list"
    using that unfolding contains_sub_iff by (metis append.assoc rev_append)
  from this [of s p] this [of "rev s" "rev p"] show ?thesis by auto
qed

lemma rsplit_first_planted:
  assumes "rev p = c # q" and "c \<notin> set q" and "\<not> contains_sub v p"
  shows "rsplit_first (a @ p @ v) p = v"
proof -
  have "\<not> contains_sub (rev v) (c # q)" using assms contains_rev [of v p] by simp
  from find_planted [OF assms(2) this, of "rev a"] show ?thesis
    by (simp add: rsplit_first_def split_first_def assms(1))
qed

section \<open>Trimming\<close>

lemma trim_matches_pad:
  assumes "\<forall>x \<in> set a. f x" and "\<forall>x \<in> set b. f x"
  shows "trim_matches f (a @ s @ b) = trim_matches f s"
proof (cases "\<forall>x \<in> set s. f x")
  case True
  then have d: "dropWhile f s = []" "dropWhile f (a @ s @ b) = []" using assms by auto
  show ?thesis unfolding trim_matches_def trim_start_matches_def trim_end_matches_def d by (rule refl)
next
  case False
  then obtain x where x: "x \<in> set s" "\<not> f x" by blast
  have "dropWhile f (a @ s @ b) = dropWhile f s @ b"
    using assms(1) dropWhile_append1 [of x s f b] x by (simp add: dropWhile_append2)
  moreover have "dropWhile f (rev b @ t) = dropWhile f t" for t
    by (rule dropWhile_append2) (use assms(2) in auto)
  ultimately show ?thesis
    by (simp add: trim_matches_def trim_start_matches_def trim_end_matches_def)
qed

lemma python_space_nl [simp]: "is_python_space 10"
  by (simp add: is_python_space_def is_whitespace_def)

lemma jinja_trim_pad:
  assumes "set a \<subseteq> {10}" and "set b \<subseteq> {10}"
  shows "jinja_trim (a @ s @ b) = jinja_trim s"
  unfolding jinja_trim_def using assms by (intro trim_matches_pad) auto

lemma jinja_trim_dropWhile: "jinja_trim (dropWhile nl s) = jinja_trim s"
proof -
  have "jinja_trim (takeWhile nl s @ dropWhile nl s @ []) = jinja_trim (dropWhile nl s)"
    by (rule jinja_trim_pad) (auto dest: set_takeWhileD)
  then show ?thesis by simp
qed

lemma trim_ends: "trim_matches f s = [] \<or> (\<not> f (hd (trim_matches f s)) \<and> \<not> f (last (trim_matches f s)))"
proof -
  let ?d = "dropWhile f s" and ?t = "trim_matches f s"
  have t: "?t = rev (dropWhile f (rev ?d))"
    by (simp add: trim_matches_def trim_start_matches_def trim_end_matches_def)
  show ?thesis
  proof (cases "?t = []")
    case False
    then have ne: "dropWhile f (rev ?d) \<noteq> []" using t by simp
    then have "\<not> f (last ?t)" using hd_dropWhile [OF ne] t by (simp add: last_rev)
    moreover have "?d = ?t @ rev (takeWhile f (rev ?d))"
      by (metis rev_append rev_rev_ident t takeWhile_dropWhile_id)
    then have "hd ?t = hd ?d" using False by (metis hd_append2)
    then have "\<not> f (hd ?t)" using False t hd_dropWhile [of f s] by (metis dropWhile.simps(1) rev.simps(1))
    ultimately show ?thesis by simp
  qed simp
qed

lemma jinja_trim_idem [simp]: "jinja_trim (jinja_trim s) = jinja_trim s"
  unfolding jinja_trim_def by (rule trim_matches_id [OF trim_ends])

section \<open>Round trip of rendered calls\<close>

lemma marker_forms:
  "TOOL_OPEN = 60 # tl TOOL_OPEN" "60 \<notin> set (tl TOOL_OPEN)" "10 \<notin> set TOOL_OPEN"
  "TOOL_CLOSE = 60 # tl TOOL_CLOSE" "60 \<notin> set (tl TOOL_CLOSE)"
  "THINK_CLOSE = 60 # tl THINK_CLOSE" "60 \<notin> set (tl THINK_CLOSE)" "10 \<notin> set THINK_CLOSE"
  "PARAM_CLOSE = 10 # tl PARAM_CLOSE" "10 \<notin> set (tl PARAM_CLOSE)"
  by (simp_all add: TOOL_OPEN_def TOOL_CLOSE_def THINK_CLOSE_def PARAM_CLOSE_def)

definition call_ok :: "'f jfloat \<Rightarrow> 'f FunctionCall \<Rightarrow> bool" where
  "call_ok J tc \<longleftrightarrow> fc_name tc \<noteq> [] \<and> \<not> contains_sub (fc_name tc) [62, 10] \<and>
     list_all (\<lambda>(k, v). \<not> contains_sub k [62, 10] \<and> \<not> contains_sub (argument_text J v) PARAM_CLOSE)
       (fc_arguments tc) \<and>
     \<not> contains_sub (call_body J tc) TOOL_CLOSE"

definition call_as_text :: "'f jfloat \<Rightarrow> 'f FunctionCall \<Rightarrow> TextCall" where
  "call_as_text J tc =
     \<lparr>tc_name = fc_name tc, tc_arguments = map (\<lambda>(k, v). (k, argument_text J v)) (fc_arguments tc)\<rparr>"

lemma split_value_inner:
  assumes "\<not> contains_sub v PARAM_CLOSE"
  shows "split_value (v @ PARAM_CLOSE @ [10] @ r) = Some (v, r)"
proof -
  have "find_sub (v @ (PARAM_CLOSE @ [10]) @ r) (PARAM_CLOSE @ [10]) = Some (length v)"
  proof (rule find_sub_first)
    fix i assume "i < length v"
    then have "\<not> starts_with (drop i (v @ PARAM_CLOSE @ [10] @ r)) PARAM_CLOSE"
      using no_overlap [OF marker_forms(10), of v i "[10] @ r"] assms marker_forms(9) by metis
    then show "\<not> starts_with (drop i (v @ (PARAM_CLOSE @ [10]) @ r)) (PARAM_CLOSE @ [10])"
      by (auto simp: starts_with_iff)
  qed
  then show ?thesis by (simp add: split_value_def split_once_def)
qed

lemma split_value_final:
  assumes "\<not> contains_sub v PARAM_CLOSE"
  shows "split_value (v @ PARAM_CLOSE) = Some (v, [])"
proof -
  have "find_sub (v @ PARAM_CLOSE) (PARAM_CLOSE @ [10]) = None"
    unfolding find_sub_None
  proof (intro allI notI)
    fix a b assume eq: "v @ PARAM_CLOSE = a @ (PARAM_CLOSE @ [10]) @ b"
    then have "length v + length PARAM_CLOSE = length a + length PARAM_CLOSE + 1 + length b"
      by (metis (no_types, lifting) add.assoc length_append list.size(3,4) One_nat_def plus_1_eq_Suc add.commute)
    then have "length a < length v" by simp
    moreover have "starts_with (drop (length a) (v @ PARAM_CLOSE)) PARAM_CLOSE"
      unfolding eq by (simp add: starts_with_iff)
    ultimately show False
      using no_overlap [OF marker_forms(10), of v "length a" "[]"] assms marker_forms(9) by (metis append_Nil2)
  qed
  moreover have "split_once (v @ PARAM_CLOSE @ []) PARAM_CLOSE = Some (v, [])"
    using split_once_planted [OF marker_forms(10), of v "[]"] assms marker_forms(9) by metis
  ultimately show ?thesis by (simp add: split_value_def split_once_def)
qed

lemma trim_end_Nil [simp]: "trim_end_matches f [] = []"
  by (simp add: trim_end_matches_def)

lemma trim_end_stop: "\<not> f x \<Longrightarrow> trim_end_matches f (s @ x # t) = s @ x # trim_end_matches f t"
  by (simp add: trim_end_matches_def dropWhile_append3)

lemma arg_block_markers:
  "arg_block J kv = PARAM_OPEN @ fst kv @ [62, 10] @ argument_text J (snd kv) @ PARAM_CLOSE @ [10]"
  by (simp add: arg_block_def PARAM_OPEN_def PARAM_CLOSE_def)

lemma parse_params_step:
  assumes "\<not> contains_sub k [62, 10]" and "split_value r = Some (v, r')"
  shows "parse_params (PARAM_OPEN @ k @ [62, 10] @ r) acc =
    parse_params (trim_start_matches nl r') (acc @ [(k, v)])"
proof -
  have "split_once (k @ [62, 10] @ r) [62, 10] = Some (k, r)"
    by (rule split_once_planted) (use assms in auto)
  moreover have "PARAM_OPEN \<noteq> []" by (simp add: PARAM_OPEN_def)
  ultimately show ?thesis using assms(2) by (subst parse_params.simps) simp
qed

lemma params_open: "kvs \<noteq> [] \<Longrightarrow> \<exists>z. concat (map (arg_block J) kvs) = 60 # z"
  by (cases kvs) (auto simp: arg_block_def)

lemma param_close_end: "trim_end_matches nl (s @ PARAM_CLOSE @ [10]) = s @ PARAM_CLOSE"
proof -
  have "PARAM_CLOSE = butlast PARAM_CLOSE @ [62]" by (simp add: PARAM_CLOSE_def)
  moreover have "trim_end_matches nl (s @ (butlast PARAM_CLOSE @ [62]) @ [10]) = s @ butlast PARAM_CLOSE @ [62]"
    using trim_end_stop [of nl 62 "s @ butlast PARAM_CLOSE" "[10]"] by (simp add: trim_end_matches_def)
  ultimately show ?thesis by metis
qed

lemma parse_params_text:
  assumes "list_all (\<lambda>(k, v). \<not> contains_sub k [62, 10] \<and> \<not> contains_sub (argument_text J v) PARAM_CLOSE) kvs"
  shows "parse_params (trim_end_matches nl (concat (map (arg_block J) kvs))) acc =
    Inr (acc @ map (\<lambda>(k, v). (k, argument_text J v)) kvs)"
  using assms
proof (induction kvs arbitrary: acc)
  case Nil
  then show ?case by (simp add: trim_end_matches_def parse_params.simps)
next
  case (Cons kv kvs)
  obtain k v where kv: "kv = (k, v)" by fastforce
  let ?v = "argument_text J v"
  have ok: "\<not> contains_sub k [62, 10]" "\<not> contains_sub ?v PARAM_CLOSE" using Cons.prems kv by auto
  show ?case
  proof (cases "kvs = []")
    case True
    have "trim_end_matches nl (arg_block J kv) = PARAM_OPEN @ k @ [62, 10] @ ?v @ PARAM_CLOSE"
      using param_close_end [of "PARAM_OPEN @ k @ [62, 10] @ ?v"] by (simp add: arg_block_markers kv)
    then show ?thesis
      using True kv parse_params_step [OF ok(1) split_value_final [OF ok(2)]]
      by (simp add: trim_start_matches_def parse_params.simps [of "[]"])
  next
    case False
    then obtain z where z: "concat (map (arg_block J) kvs) = 60 # z" using params_open by blast
    have "trim_end_matches nl (concat (map (arg_block J) (kv # kvs))) =
        PARAM_OPEN @ k @ [62, 10] @ ?v @ PARAM_CLOSE @ [10] @ 60 # trim_end_matches nl z"
      using trim_end_stop [of nl 60 "arg_block J kv" z] z by (simp add: arg_block_markers kv)
    moreover have "trim_end_matches nl (concat (map (arg_block J) kvs)) = 60 # trim_end_matches nl z"
      using trim_end_stop [of nl 60 "[]" z] z by simp
    ultimately show ?thesis
      using parse_params_step [OF ok(1) split_value_inner [OF ok(2)]] Cons.IH [of "acc @ [(k, ?v)]"] Cons.prems kv
      by (simp add: trim_start_matches_def)
  qed
qed

lemma FUNC_CLOSE_last: "FUNC_CLOSE \<noteq> [] \<and> last FUNC_CLOSE = 62"
  by (simp add: FUNC_CLOSE_def)

lemma parse_one_body:
  assumes "call_ok J tc"
  shows "parse_one (trim_matches nl (call_body J tc)) = Inr (call_as_text J tc)"
proof -
  let ?A = "concat (map (arg_block J) (fc_arguments tc))"
  let ?X = "FUNC_OPEN @ fc_name tc @ [62, 10] @ ?A @ FUNC_CLOSE"
  have X: "trim_matches nl ?X = ?X"
    by (rule trim_matches_id) (simp add: FUNC_OPEN_def FUNC_CLOSE_def)
  have "call_body J tc = [10] @ ?X @ [10]" by (simp add: call_body_def FUNC_OPEN_def FUNC_CLOSE_def)
  then have body: "trim_matches nl (call_body J tc) = ?X"
    using trim_matches_pad [of "[10]" nl "[10]" ?X] X by simp
  have name: "split_once (fc_name tc @ [62, 10] @ ?A @ FUNC_CLOSE) [62, 10] = Some (fc_name tc, ?A @ FUNC_CLOSE)"
    using assms by (intro split_once_planted) (auto simp: call_ok_def)
  obtain F where F: "FUNC_CLOSE = F @ [62]"
    using append_butlast_last_id [of FUNC_CLOSE] by (metis FUNC_CLOSE_last)
  have close: "trim_end_matches nl (?A @ FUNC_CLOSE) = ?A @ FUNC_CLOSE"
    unfolding F using trim_end_stop [of nl 62 "?A @ F" "[]"] by simp
  have "trim_start_matches nl ?A = ?A"
    using params_open [of "fc_arguments tc" J] by (cases "fc_arguments tc = []") (auto simp: trim_start_matches_def)
  then have "parse_params (trim_matches nl ?A) [] = Inr (map (\<lambda>(k, v). (k, argument_text J v)) (fc_arguments tc))"
    using parse_params_text [of J "fc_arguments tc" "[]"] assms by (simp add: trim_matches_def call_ok_def)
  then show ?thesis
    using assms name close X
    by (simp add: body parse_one_def Let_def call_ok_def call_as_text_def)
qed

definition later_calls :: "'f jfloat \<Rightarrow> 'f FunctionCall list \<Rightarrow> rstr" where
  "later_calls J tcs = concat (map (\<lambda>tc. [10] @ TOOL_OPEN @ call_body J tc @ TOOL_CLOSE) tcs)"

lemma parse_tool_calls_step:
  assumes "\<not> contains_sub pre TOOL_OPEN" and "call_ok J tc"
  shows "parse_tool_calls (pre @ TOOL_OPEN @ call_body J tc @ TOOL_CLOSE @ rest) out =
    parse_tool_calls rest (out @ [call_as_text J tc])"
proof -
  have 1: "find_sub (pre @ TOOL_OPEN @ call_body J tc @ TOOL_CLOSE @ rest) TOOL_OPEN = Some (length pre)"
    using find_planted [OF marker_forms(2), of pre] assms(1) marker_forms(1) by metis
  have 2: "find_sub (call_body J tc @ TOOL_CLOSE @ rest) TOOL_CLOSE = Some (length (call_body J tc))"
    using find_planted [OF marker_forms(5), of "call_body J tc"] assms(2) marker_forms(4)
    unfolding call_ok_def by metis
  show ?thesis
    using 2 parse_one_body [OF assms(2)] by (subst parse_tool_calls.simps) (simp add: 1)
qed

lemma parse_later_calls:
  "list_all (call_ok J) tcs \<Longrightarrow> parse_tool_calls (later_calls J tcs) out = Inr (out @ map (call_as_text J) tcs)"
proof (induction tcs arbitrary: out)
  case Nil
  then show ?case by (simp add: later_calls_def parse_tool_calls.simps TOOL_OPEN_def)
next
  case (Cons tc tcs)
  have "\<not> contains_sub [10] TOOL_OPEN"
    using contains_separator [OF marker_forms(3), of "[]" "[]"] by (simp add: contains_sub_def TOOL_OPEN_def)
  from parse_tool_calls_step [OF this, of J tc "later_calls J tcs" out] Cons show ?case
    by (simp add: later_calls_def)
qed

lemma tool_calls_text_later:
  "0 < n \<Longrightarrow> concat (map (\<lambda>(j, tc). tool_call_text J c j tc) (enumerate n tcs)) = later_calls J tcs"
  by (induction tcs arbitrary: n)
    (simp_all add: tool_call_text_def later_calls_def TOOL_OPEN_def TOOL_CLOSE_def del: lit_simps)

definition call_sep :: "rstr \<Rightarrow> rstr" where
  "call_sep c = (if jinja_trim c \<noteq> [] then [10, 10] else [])"

lemma tool_calls_text_Cons:
  "tool_calls_text J c (tc # tcs) =
    call_sep c @ TOOL_OPEN @ call_body J tc @ TOOL_CLOSE @ later_calls J tcs"
  using tool_calls_text_later [of 1 J c tcs]
  by (simp add: tool_calls_text_def tool_call_text_def call_sep_def TOOL_OPEN_def TOOL_CLOSE_def del: lit_simps)

lemma tool_calls_text_Nil [simp]: "tool_calls_text J c [] = []"
  by (simp add: tool_calls_text_def)

text \<open>The text between the think block and the end marker.\<close>

lemma parse_body:
  assumes "\<not> contains_sub c TOOL_OPEN" and "list_all (call_ok J) tcs"
  defines "body \<equiv> dropWhile nl (c @ tool_calls_text J c tcs)"
  shows "parse_tool_calls body [] = Inr (map (call_as_text J) tcs) \<and>
    jinja_trim (take (case find_sub body TOOL_OPEN of Some i \<Rightarrow> i | None \<Rightarrow> length body) body) = jinja_trim c"
proof (cases tcs)
  case Nil
  then have b: "body = dropWhile nl c" by (simp add: body_def)
  have "\<not> contains_sub body TOOL_OPEN" using assms(1) contains_dropWhile unfolding b by blast
  then have "find_sub body TOOL_OPEN = None" by (simp add: contains_sub_def)
  then show ?thesis
    using Nil by (subst parse_tool_calls.simps) (simp add: b jinja_trim_dropWhile)
next
  case (Cons tc ts)
  let ?pre = "dropWhile nl (c @ call_sep c)"
  let ?rest = "call_body J tc @ TOOL_CLOSE @ later_calls J ts"
  have "contains_sub (c @ call_sep c) TOOL_OPEN \<longleftrightarrow> contains_sub c TOOL_OPEN"
    using contains_separator [OF marker_forms(3), of c "[10]"] contains_separator [OF marker_forms(3), of "[]" "[]"]
    by (auto simp: call_sep_def contains_sub_def TOOL_OPEN_def)
  then have pre: "\<not> contains_sub ?pre TOOL_OPEN" using assms(1) contains_dropWhile by metis
  have "body = dropWhile nl ((c @ call_sep c) @ TOOL_OPEN @ ?rest)"
    by (simp add: body_def Cons tool_calls_text_Cons)
  also have "\<dots> = ?pre @ TOOL_OPEN @ ?rest"
  proof -
    obtain T where T: "TOOL_OPEN = 60 # T" using marker_forms(1) by blast
    show ?thesis unfolding T using dropWhile_append3 [of nl 60 "c @ call_sep c" "T @ ?rest"] by simp
  qed
  finally have b: "body = ?pre @ TOOL_OPEN @ ?rest" .
  have "find_sub body TOOL_OPEN = Some (length ?pre)"
    unfolding b using find_planted [OF marker_forms(2), of ?pre] pre marker_forms(1) by metis
  moreover have "set (call_sep c) \<subseteq> {10}" by (auto simp: call_sep_def)
  then have "jinja_trim ?pre = jinja_trim c"
    unfolding jinja_trim_dropWhile using jinja_trim_pad [of "[]" "call_sep c" c] by simp
  moreover have "parse_tool_calls body [] = Inr (map (call_as_text J) tcs)"
    unfolding b using parse_tool_calls_step [OF pre, of J tc "later_calls J ts" "[]"]
      parse_later_calls [of J ts "[call_as_text J tc]"] assms(2) Cons by simp
  ultimately show ?thesis by (simp add: b)
qed

lemma split_think_block:
  assumes "\<not> contains_sub r THINK_CLOSE" and "\<not> contains_sub r THINK_OPEN"
  shows "split_think (THINK_OPEN @ [10] @ r @ [10] @ THINK_CLOSE @ [10, 10] @ body) =
    (Some (jinja_trim r), dropWhile nl body)"
proof -
  let ?h = "THINK_OPEN @ [10] @ r @ [10]"
  have nil: "\<not> contains_sub [] THINK_CLOSE" "\<not> contains_sub [] THINK_OPEN"
    by (simp_all add: contains_sub_def THINK_CLOSE_def THINK_OPEN_def)
  have "\<not> contains_sub THINK_OPEN THINK_CLOSE"
    by (simp add: THINK_OPEN_def THINK_CLOSE_def contains_sub_def starts_with_def)
  then have h: "\<not> contains_sub ?h THINK_CLOSE"
    using contains_separator [OF marker_forms(8), of THINK_OPEN "r @ [10]"]
      contains_separator [OF marker_forms(8), of r "[]"] assms(1) nil by simp
  have s: "split_once (?h @ THINK_CLOSE @ [10, 10] @ body) THINK_CLOSE = Some (?h, [10, 10] @ body)"
    using split_once_planted [OF marker_forms(7), of ?h] h marker_forms(6) by metis
  have t: "10 \<notin> set THINK_OPEN" "rev THINK_OPEN = 62 # tl (rev THINK_OPEN)" "62 \<notin> set (tl (rev THINK_OPEN))"
    by (simp_all add: THINK_OPEN_def)
  have "\<not> contains_sub ([10] @ r @ [10]) THINK_OPEN"
    using contains_separator [OF t(1), of "[]" "r @ [10]"] contains_separator [OF t(1), of r "[]"] assms(2) nil by simp
  then have "rsplit_first ?h THINK_OPEN = [10] @ r @ [10]"
    using rsplit_first_planted [OF t(2,3), of "[10] @ r @ [10]" "[]"] by simp
  then show ?thesis
    using s jinja_trim_pad [of "[10]" "[10]" r] by (simp add: split_think_def trim_start_matches_def)
qed

lemma parse_assistant_text:
  assumes "split_reasoning m c = (r, c')" and "\<not> contains_sub (jinja_trim r) THINK_CLOSE"
    and "\<not> contains_sub (jinja_trim r) THINK_OPEN" and "\<not> contains_sub c' TOOL_OPEN"
    and "list_all (call_ok J) (tool_calls m)"
  shows "parse_assistant (assistant_text J m c True) =
    Inr \<lparr>rp_reasoning = Some (jinja_trim r), rp_content = jinja_trim c',
         rp_tool_calls = map (call_as_text J) (tool_calls m)\<rparr>"
  using split_think_block [OF assms(2,3), of "c' @ tool_calls_text J c' (tool_calls m)"]
    parse_body [OF assms(4,5)] assms(1)
  by (simp add: parse_assistant_def assistant_text_def)

text \<open>C29. Parsing a rendered assistant turn gives back what was rendered: the reasoning and the
  content, trimmed, and every tool call with its name and its arguments as text in order. This
  holds when the reasoning does not mention the think markers, the content has no opening
  tool-call marker, and the names, keys and values do not contain the delimiter that ends them.\<close>

theorem parse_assistant_rendered:
  assumes "split_reasoning m c = (r, c')" and "\<not> contains_sub (jinja_trim r) THINK_CLOSE"
    and "\<not> contains_sub (jinja_trim r) THINK_OPEN" and "\<not> contains_sub c' TOOL_OPEN"
    and "list_all (call_ok J) (tool_calls m)"
  shows "parse_assistant (assistant_text J m c True) =
    Inr \<lparr>rp_reasoning = Some (jinja_trim r), rp_content = jinja_trim c',
         rp_tool_calls = map (call_as_text J) (tool_calls m)\<rparr>"
  by (rule parse_assistant_text [OF assms])

text \<open>The message a reply is handed back as.\<close>

definition reply_message :: "Reply \<Rightarrow> 'f Message" where
  "reply_message rp =
     \<lparr>role = Assistant, content = CText (rp_content rp), reasoning = rp_reasoning rp,
      tool_calls = as_chat_calls rp\<rparr>"

lemma argument_text_VStr [simp]: "argument_text J (VStr v) = v"
  by (simp add: argument_text_def py_str_def)

lemma call_body_as_text [simp]:
  "call_body J \<lparr>fc_name = tc_name (call_as_text J tc),
     fc_arguments = map (\<lambda>(k, v). (k, VStr v)) (tc_arguments (call_as_text J tc))\<rparr> = call_body J tc"
  by (simp add: call_body_def call_as_text_def arg_block_def [abs_def] comp_def
      split_beta del: lit_simps)

lemma rerender_calls:
  "tool_calls_text J c (as_chat_calls \<lparr>rp_reasoning = re, rp_content = c',
     rp_tool_calls = map (call_as_text J) tcs\<rparr>) = tool_calls_text J c tcs"
  by (cases tcs) (simp_all add: as_chat_calls_def tool_calls_text_Cons later_calls_def comp_def)

text \<open>Render, parse, render is the identity: a turn rendered from the parsed reply has the same
  text as the turn the reply was parsed from, when the rendered content was already trimmed (as the
  template does with every content given as text).\<close>

lemma render_parse_render:
  assumes "split_reasoning m c = (r, c')" and "\<not> contains_sub (jinja_trim r) THINK_CLOSE"
    and "\<not> contains_sub (jinja_trim r) THINK_OPEN" and "\<not> contains_sub c' TOOL_OPEN"
    and "list_all (call_ok J) (tool_calls m)" and "jinja_trim c' = c'"
  shows "\<exists>rp. parse_assistant (assistant_text J m c True) = Inr rp \<and>
    assistant_text J (reply_message rp) (jinja_trim (rp_content rp)) True = assistant_text J m c True"
  using parse_assistant_text [OF assms(1-5)] assms(1,6)
  by (simp add: assistant_text_def reply_message_def split_reasoning_def rerender_calls)

text \<open>A weather question answered with two calls.\<close>

definition ex_m :: "rat Message" where
  "ex_m = \<lparr>role = Assistant, content = CText (lit ''Let me look.''), reasoning = Some (lit '' think ''),
     tool_calls = [\<lparr>fc_name = lit ''get'', fc_arguments = [(lit ''city'', VStr (lit ''Paris'')), (lit ''n'', VInt 2)]\<rparr>,
       \<lparr>fc_name = lit ''now'', fc_arguments = []\<rparr>]\<rparr>"

lemma ex_calls_ok: "list_all (call_ok ex_J) (tool_calls ex_m)"
proof -
  have "show_int 2 = [50]" by (simp add: show_int_def show_nat.simps)
  then show ?thesis
    by (simp add: ex_m_def call_ok_def call_body_def arg_block_def argument_text_def py_str_def
        contains_sub_def starts_with_def PARAM_CLOSE_def TOOL_CLOSE_def)
qed

lemma ex_think: "\<not> contains_sub (jinja_trim (lit '' think '')) THINK_CLOSE"
  "\<not> contains_sub (jinja_trim (lit '' think '')) THINK_OPEN"
  "\<not> contains_sub (lit ''Let me look.'') TOOL_OPEN" "jinja_trim (lit ''Let me look.'') = lit ''Let me look.''"
  by (simp_all add: contains_sub_def starts_with_def THINK_CLOSE_def THINK_OPEN_def TOOL_OPEN_def jinja_trim_def
      trim_matches_def trim_start_matches_def trim_end_matches_def is_python_space_def is_whitespace_def)

lemma ex_split: "split_reasoning ex_m (lit ''Let me look.'') = (lit '' think '', lit ''Let me look.'')"
  by (simp add: split_reasoning_def ex_m_def)

theorem parse_assistant_rendered_witness:
  "\<exists>rp. parse_assistant (assistant_text ex_J ex_m (lit ''Let me look.'') True) = Inr rp \<and>
     map tc_name (rp_tool_calls rp) = [lit ''get'', lit ''now''] \<and> rp_content rp = lit ''Let me look.''"
  using parse_assistant_rendered [OF ex_split ex_think(1,2,3) ex_calls_ok] ex_think(4)
  by (simp add: call_as_text_def ex_m_def del: lit_simps)

theorem render_parse_render_witness:
  "\<exists>rp. parse_assistant (assistant_text ex_J ex_m (lit ''Let me look.'') True) = Inr rp \<and>
     assistant_text ex_J (reply_message rp) (jinja_trim (rp_content rp)) True =
       assistant_text ex_J ex_m (lit ''Let me look.'') True"
  by (rule render_parse_render [OF ex_split ex_think(1,2,3) ex_calls_ok ex_think(4)])

section \<open>The quoted slice\<close>


end
