(* ===== verification/Unicode_GC.thy ===== *)
theory Unicode_GC
  imports Rust_Str "HOL-Library.Multiset"
begin

text \<open>
  General categories and canonical composition (\<open>shell-text/src/unicode_gc.rs\<close>). The generated tables
  of \<open>unicode_tables.rs\<close> are a parameter: a record with one list per table. The binary searches over
  a table sorted by its key return the entry of the key, so they are lookups; the search over ranges
  is the loop of the code. A call that does not return, because a table entry is not a scalar value
  (\<open>unwrap\<close>) or because the tables decompose a character into itself, is \<open>None\<close>.
\<close>

record unicode_tables =
  LETTER_RANGES :: "(nat \<times> nat) list"
  MARK_RANGES :: "(nat \<times> nat) list"
  NUMBER_RANGES :: "(nat \<times> nat) list"
  DECOMPOSE_1 :: "(nat \<times> nat) list"
  DECOMPOSE_2 :: "(nat \<times> nat \<times> nat) list"
  CCC :: "(nat \<times> nat) list"
  COMPOSE :: "(nat \<times> nat) list"

section \<open>Categories\<close>

function in_ranges_loop :: "(nat \<times> nat) list \<Rightarrow> nat \<Rightarrow> nat \<Rightarrow> nat \<Rightarrow> bool" where
  "in_ranges_loop rs cp lo hi =
     (if lo < hi then
        let mid = lo + (hi - lo) div 2; (a, b) = rs ! mid in
        if cp < a then in_ranges_loop rs cp lo mid
        else if b < cp then in_ranges_loop rs cp (mid + 1) hi
        else True
      else False)"
  by auto
termination by (relation "measure (\<lambda>(_, _, lo, hi). hi - lo)") auto

declare in_ranges_loop.simps [simp del]

definition in_ranges :: "(nat \<times> nat) list \<Rightarrow> nat \<Rightarrow> bool" where
  "in_ranges rs cp = in_ranges_loop rs cp 0 (length rs)"

definition is_letter :: "unicode_tables \<Rightarrow> rchar \<Rightarrow> bool" where
  "is_letter db c = in_ranges (LETTER_RANGES db) c"

definition is_mark :: "unicode_tables \<Rightarrow> rchar \<Rightarrow> bool" where
  "is_mark db c = in_ranges (MARK_RANGES db) c"

definition is_number :: "unicode_tables \<Rightarrow> rchar \<Rightarrow> bool" where
  "is_number db c = in_ranges (NUMBER_RANGES db) c"

definition ccc :: "unicode_tables \<Rightarrow> rchar \<Rightarrow> nat" where
  "ccc db c = (case map_of (CCC db) c of Some k \<Rightarrow> k | None \<Rightarrow> 0)"

section \<open>Decomposition, ordering and composition\<close>

definition S_BASE :: nat where "S_BASE = 0xAC00"
definition L_BASE :: nat where "L_BASE = 0x1100"
definition V_BASE :: nat where "V_BASE = 0x1161"
definition T_BASE :: nat where "T_BASE = 0x11A7"
definition V_COUNT :: nat where "V_COUNT = 21"
definition T_COUNT :: nat where "T_COUNT = 28"
definition N_COUNT :: nat where "N_COUNT = V_COUNT * T_COUNT"
definition S_COUNT :: nat where "S_COUNT = 19 * N_COUNT"

lemmas hangul_defs =
  S_BASE_def L_BASE_def V_BASE_def T_BASE_def V_COUNT_def T_COUNT_def N_COUNT_def S_COUNT_def

definition hangul_parts :: "rchar \<Rightarrow> rchar list" where
  "hangul_parts cp =
     (let si = cp - S_BASE; tj = si mod T_COUNT
      in [L_BASE + si div N_COUNT, V_BASE + si mod N_COUNT div T_COUNT] @ (if tj \<noteq> 0 then [T_BASE + tj] else []))"

partial_function (option) decompose_one :: "unicode_tables \<Rightarrow> rchar \<Rightarrow> rchar list option" where
  "decompose_one db c =
     (if S_BASE \<le> c \<and> c < S_BASE + S_COUNT then Some (hangul_parts c)
      else
        case map_of (DECOMPOSE_1 db) c of
          Some t \<Rightarrow> Option.bind (char_from_u32 t) (\<lambda>t. decompose_one db t)
        | None \<Rightarrow>
            (case map_of (DECOMPOSE_2 db) c of
               Some ab \<Rightarrow>
                 Option.bind (char_from_u32 (fst ab)) (\<lambda>a. Option.bind (decompose_one db a) (\<lambda>xs.
                 Option.bind (char_from_u32 (snd ab)) (\<lambda>b. Option.bind (decompose_one db b) (\<lambda>ys.
                 Some (xs @ ys)))))
             | None \<Rightarrow> Some [c]))"

primrec decompose_all :: "unicode_tables \<Rightarrow> rstr \<Rightarrow> rchar list option" where
  "decompose_all db [] = Some []"
| "decompose_all db (c # s) =
     Option.bind (decompose_one db c) (\<lambda>xs. Option.bind (decompose_all db s) (\<lambda>ys. Some (xs @ ys)))"

definition compose :: "unicode_tables \<Rightarrow> rchar \<Rightarrow> rchar \<Rightarrow> rchar option" where
  "compose db a b =
     (if L_BASE \<le> a \<and> a < L_BASE + 19 \<and> V_BASE \<le> b \<and> b < V_BASE + V_COUNT then
        char_from_u32 (S_BASE + ((a - L_BASE) * V_COUNT + (b - V_BASE)) * T_COUNT)
      else if S_BASE \<le> a \<and> a < S_BASE + S_COUNT \<and> (a - S_BASE) mod T_COUNT = 0 \<and>
          T_BASE + 1 \<le> b \<and> b < T_BASE + T_COUNT then
        char_from_u32 (a + (b - T_BASE))
      else
        case map_of (COMPOSE db) (a * 2 ^ 21 + b) of
          Some c \<Rightarrow> char_from_u32 c
        | None \<Rightarrow> None)"

text \<open>Step 2. The characters before the current one are kept in reverse, so the swaps of the inner
  loop walk down a list.\<close>

fun bubble :: "unicode_tables \<Rightarrow> rchar \<Rightarrow> rchar list \<Rightarrow> rchar list" where
  "bubble db x [] = [x]"
| "bubble db x (p # ps) = (if ccc db p = 0 \<or> ccc db p \<le> ccc db x then x # p # ps else p # bubble db x ps)"

definition canonical_order :: "unicode_tables \<Rightarrow> rchar list \<Rightarrow> rchar list" where
  "canonical_order db d =
     rev (foldl (\<lambda>acc x. if ccc db x = 0 then x # acc else bubble db x acc) [] d)"

record compose_state =
  cs_out :: "rchar list"
  starter_pos :: nat
  starter_ch :: rchar
  last_class :: nat

definition compose_step :: "unicode_tables \<Rightarrow> compose_state \<Rightarrow> rchar \<Rightarrow> compose_state" where
  "compose_step db st ch =
     (let ch_class = ccc db ch;
          comp = (if last_class st < ch_class \<or> last_class st = 0 then compose db (starter_ch st) ch else None)
      in case comp of
           Some c \<Rightarrow> st\<lparr>starter_ch := c, cs_out := (cs_out st)[starter_pos st := c]\<rparr>
         | None \<Rightarrow>
             let st = (if ch_class = 0 then st\<lparr>starter_pos := length (cs_out st), starter_ch := ch\<rparr> else st)
             in st\<lparr>last_class := ch_class, cs_out := cs_out st @ [ch]\<rparr>)"

definition compose_all :: "unicode_tables \<Rightarrow> rchar list \<Rightarrow> rchar list" where
  "compose_all db d =
     cs_out (foldl (compose_step db)
       \<lparr>cs_out = [hd d], starter_pos = 0, starter_ch = hd d, last_class = (if ccc db (hd d) \<noteq> 0 then 256 else 0)\<rparr> (tl d))"

definition nfc :: "unicode_tables \<Rightarrow> rstr \<Rightarrow> rstr option" where
  "nfc db s = Option.bind (decompose_all db s) (\<lambda>d.
     if d = [] then Some [] else Some (compose_all db (canonical_order db d)))"

section \<open>The range search\<close>

definition ranges_ok :: "(nat \<times> nat) list \<Rightarrow> bool" where
  "ranges_ok rs \<longleftrightarrow> (\<forall>(a, b) \<in> set rs. a \<le> b) \<and> sorted_wrt (\<lambda>r s. snd r < fst s) rs"

lemma ranges_okD:
  assumes "ranges_ok rs" and "i < j" and "j < length rs"
  shows "snd (rs ! i) < fst (rs ! j)" and "fst (rs ! i) \<le> snd (rs ! i)"
proof -
  show "snd (rs ! i) < fst (rs ! j)" using assms by (auto simp: ranges_ok_def sorted_wrt_iff_nth_less)
  have "rs ! i \<in> set rs" using assms(2,3) by auto
  then show "fst (rs ! i) \<le> snd (rs ! i)" using assms(1) by (auto simp: ranges_ok_def)
qed

lemma in_ranges_loop_correct:
  assumes "ranges_ok rs"
  shows "hi \<le> length rs \<Longrightarrow>
    in_ranges_loop rs cp lo hi \<longleftrightarrow> (\<exists>i. lo \<le> i \<and> i < hi \<and> fst (rs ! i) \<le> cp \<and> cp \<le> snd (rs ! i))"
proof (induction "hi - lo" arbitrary: lo hi rule: less_induct)
  case less
  show ?case
  proof (cases "lo < hi")
    case True
    define mid where "mid = lo + (hi - lo) div 2"
    obtain a b where ab: "rs ! mid = (a, b)" by fastforce
    have mid: "lo \<le> mid" "mid < hi" using True by (auto simp: mid_def)
    have "rs ! mid \<in> set rs" using mid less.prems by simp
    then have le: "a \<le> b" using assms by (auto simp: ranges_ok_def ab)
    have above: "a \<le> fst (rs ! i)" if "mid \<le> i" "i < hi" for i
    proof (cases "i = mid")
      case False
      then show ?thesis using ranges_okD(1) [OF assms, of mid i] that le less.prems ab by simp
    qed (simp add: ab)
    have below: "snd (rs ! i) \<le> b" if "i \<le> mid" for i
    proof (cases "i = mid")
      case False
      then show ?thesis using ranges_okD(1) [OF assms, of i mid] that le mid less.prems ab by simp
    qed (simp add: ab)
    have unf: "in_ranges_loop rs cp lo hi =
        (if cp < a then in_ranges_loop rs cp lo mid else if b < cp then in_ranges_loop rs cp (mid + 1) hi else True)"
      using True by (subst in_ranges_loop.simps) (simp add: Let_def ab flip: mid_def)
    consider "cp < a" | "\<not> cp < a" "b < cp" | "\<not> cp < a" "\<not> b < cp" by blast
    then show ?thesis
    proof cases
      case 1
      have low: "i < mid" if "i < hi" "fst (rs ! i) \<le> cp" for i
        by (rule ccontr) (use above [of i] that 1 in linarith)
      from 1 have "in_ranges_loop rs cp lo hi \<longleftrightarrow> (\<exists>i. lo \<le> i \<and> i < mid \<and> fst (rs ! i) \<le> cp \<and> cp \<le> snd (rs ! i))"
        using unf less.hyps [of mid lo] mid less.prems by simp
      also have "\<dots> \<longleftrightarrow> (\<exists>i. lo \<le> i \<and> i < hi \<and> fst (rs ! i) \<le> cp \<and> cp \<le> snd (rs ! i))"
        using low mid(2) by (metis less_trans)
      finally show ?thesis .
    next
      case 2
      have high: "mid + 1 \<le> i" if "cp \<le> snd (rs ! i)" for i
        by (rule ccontr) (use below [of i] that 2 in linarith)
      from 2 have "in_ranges_loop rs cp lo hi \<longleftrightarrow> (\<exists>i. mid + 1 \<le> i \<and> i < hi \<and> fst (rs ! i) \<le> cp \<and> cp \<le> snd (rs ! i))"
        using unf less.hyps [of hi "mid + 1"] mid less.prems by simp
      also have "\<dots> \<longleftrightarrow> (\<exists>i. lo \<le> i \<and> i < hi \<and> fst (rs ! i) \<le> cp \<and> cp \<le> snd (rs ! i))"
        using high mid(1) by (metis le_add1 le_trans)
      finally show ?thesis .
    next
      case 3
      then show ?thesis using unf ab mid by (auto intro!: exI [of _ mid])
    qed
  qed (simp add: in_ranges_loop.simps)
qed

lemma in_ranges_correct:
  assumes "ranges_ok rs"
  shows "in_ranges rs cp \<longleftrightarrow> (\<exists>(a, b) \<in> set rs. a \<le> cp \<and> cp \<le> b)"
proof -
  have "in_ranges rs cp \<longleftrightarrow> (\<exists>i < length rs. fst (rs ! i) \<le> cp \<and> cp \<le> snd (rs ! i))"
    using in_ranges_loop_correct [OF assms le_refl, of cp 0] by (simp add: in_ranges_def)
  also have "\<dots> \<longleftrightarrow> (\<exists>r \<in> set rs. fst r \<le> cp \<and> cp \<le> snd r)" by (metis in_set_conv_nth)
  finally show ?thesis by (simp add: case_prod_unfold)
qed

section \<open>Canonical ordering\<close>

lemma mset_bubble [simp]: "mset (bubble db x ps) = add_mset x (mset ps)"
  by (induction ps) auto

lemma filter_bubble: "ccc db x \<noteq> 0 \<Longrightarrow> filter (\<lambda>c. ccc db c = k) (bubble db x ps) = filter (\<lambda>c. ccc db c = k) (x # ps)"
  by (induction ps) auto

text \<open>Neighbours of the reversed prefix: a combining character does not precede one of smaller class.\<close>

definition ordered :: "unicode_tables \<Rightarrow> rchar \<Rightarrow> rchar \<Rightarrow> bool" where
  "ordered db a b \<longleftrightarrow> ccc db b = 0 \<or> ccc db a \<le> ccc db b"

lemma bubble_hd: "bubble db x ps \<noteq> [] \<and> (hd (bubble db x ps) = x \<or> (ps \<noteq> [] \<and> hd (bubble db x ps) = hd ps))"
  by (cases ps) auto

lemma ordered_bubble:
  "ccc db x \<noteq> 0 \<Longrightarrow> successively (\<lambda>b a. ordered db a b) ps \<Longrightarrow> successively (\<lambda>b a. ordered db a b) (bubble db x ps)"
proof (induction ps)
  case (Cons p ps)
  show ?case
  proof (cases "ccc db p = 0 \<or> ccc db p \<le> ccc db x")
    case False
    have "successively (\<lambda>b a. ordered db a b) (bubble db x ps)" using Cons by (auto simp: successively_Cons)
    moreover have "ordered db (hd (bubble db x ps)) p"
      using bubble_hd [of db x ps] False Cons.prems by (auto simp: successively_Cons ordered_def)
    ultimately show ?thesis using False by (auto simp: successively_Cons)
  qed (use Cons.prems in \<open>auto simp: successively_Cons ordered_def\<close>)
qed simp

lemma canonical_order_prefix:
  defines "step \<equiv> \<lambda>db acc x. if ccc db x = 0 then x # acc else bubble db x acc"
  shows "mset (foldl (step db) acc d) = mset acc + mset d \<and>
    filter (\<lambda>c. ccc db c = k) (rev (foldl (step db) acc d)) = filter (\<lambda>c. ccc db c = k) (rev acc @ d) \<and>
    (successively (\<lambda>b a. ordered db a b) acc \<longrightarrow> successively (\<lambda>b a. ordered db a b) (foldl (step db) acc d))"
proof (induction d arbitrary: acc)
  case (Cons x d)
  have "filter (\<lambda>c. ccc db c = k) (rev (step db acc x)) = filter (\<lambda>c. ccc db c = k) (rev acc @ [x])"
    using filter_bubble [of db x k acc] by (auto simp: step_def rev_filter [symmetric])
  moreover have "successively (\<lambda>b a. ordered db a b) acc \<Longrightarrow> successively (\<lambda>b a. ordered db a b) (step db acc x)"
    using ordered_bubble [of db x acc] by (auto simp: step_def successively_Cons ordered_def)
  moreover have "mset (step db acc x) = add_mset x (mset acc)" by (simp add: step_def)
  ultimately show ?case using Cons.IH [of "step db acc x"] by simp
qed simp

lemma canonical_order_mset: "mset (canonical_order db d) = mset d"
  using canonical_order_prefix [of db "[]" d] unfolding canonical_order_def by simp

text \<open>Canonical ordering permutes: the characters of every combining class, the starters among
  them, keep their order, and afterwards no combining character stands before one of a smaller,
  non-zero class.\<close>

lemma canonical_order_correct:
  "mset (canonical_order db d) = mset d \<and>
   filter (\<lambda>c. ccc db c = k) (canonical_order db d) = filter (\<lambda>c. ccc db c = k) d \<and>
   successively (\<lambda>a b. ccc db b = 0 \<or> ccc db a \<le> ccc db b) (canonical_order db d)"
  using canonical_order_prefix [of db "[]" d k]
  unfolding canonical_order_def by (simp add: ordered_def successively_rev)

section \<open>Hangul\<close>

definition is_syllable :: "rchar \<Rightarrow> bool" where
  "is_syllable c \<longleftrightarrow> S_BASE \<le> c \<and> c < S_BASE + S_COUNT"

definition is_jamo :: "rchar \<Rightarrow> bool" where
  "is_jamo c \<longleftrightarrow> (L_BASE \<le> c \<and> c < L_BASE + 19) \<or> (V_BASE \<le> c \<and> c < V_BASE + V_COUNT) \<or> (T_BASE < c \<and> c < T_BASE + T_COUNT)"

text \<open>The generated tables leave Hangul to the arithmetic.\<close>

definition no_hangul :: "unicode_tables \<Rightarrow> bool" where
  "no_hangul db \<longleftrightarrow> (\<forall>c. is_jamo c \<longrightarrow> ccc db c = 0 \<and> map_of (DECOMPOSE_1 db) c = None \<and> map_of (DECOMPOSE_2 db) c = None)"

lemma hangul_digits: "(si div 588 * 21 + si mod 588 div 28) * 28 + si mod 28 = (si :: nat)"
proof -
  have "si div 588 = si div 28 div 21" by (simp flip: div_mult2_eq)
  moreover have "si mod 588 = 28 * (si div 28 mod 21) + si mod 28" using mod_mult2_eq [of si 28 21] by simp
  ultimately show ?thesis using div_mult_mod_eq [of "si div 28" 21] div_mult_mod_eq [of si 28] by simp
qed

lemma hangul_index:
  assumes "is_syllable cp"
  obtains l v t where "l < 19" "v < 21" "t < 28" "cp = S_BASE + (l * 21 + v) * 28 + t"
    "hangul_parts cp = [L_BASE + l, V_BASE + v] @ (if t \<noteq> 0 then [T_BASE + t] else [])"
proof
  let ?si = "cp - S_BASE"
  have si: "?si < 11172" "S_BASE \<le> cp" using assms by (auto simp: is_syllable_def hangul_defs)
  show "?si div 588 < 19" "?si mod 588 div 28 < 21" "?si mod 28 < 28" using si(1) by auto
  have "(?si div 588 * 21 + ?si mod 588 div 28) * 28 + ?si mod 28 = ?si" by (rule hangul_digits)
  then show "cp = S_BASE + (?si div 588 * 21 + ?si mod 588 div 28) * 28 + ?si mod 28" using si(2) by linarith
  show "hangul_parts cp = [L_BASE + ?si div 588, V_BASE + ?si mod 588 div 28] @ (if ?si mod 28 \<noteq> 0 then [T_BASE + ?si mod 28] else [])"
    by (simp add: hangul_parts_def Let_def N_COUNT_def V_COUNT_def T_COUNT_def)
qed

lemma compose_jamo:
  assumes "l < 19" and "v < 21"
  shows "compose db (L_BASE + l) (V_BASE + v) = Some (S_BASE + (l * 21 + v) * 28)"
    and "0 < t \<Longrightarrow> t < 28 \<Longrightarrow> compose db (S_BASE + (l * 21 + v) * 28) (T_BASE + t) = Some (S_BASE + (l * 21 + v) * 28 + t)"
  using assms by (simp_all add: compose_def char_from_u32_def valid_char_def hangul_defs)

lemma canonical_order_starters: "\<forall>c \<in> set d. ccc db c = 0 \<Longrightarrow> canonical_order db d = d"
proof -
  have "\<forall>c \<in> set d. ccc db c = 0 \<Longrightarrow> foldl (\<lambda>acc x. if ccc db x = 0 then x # acc else bubble db x acc) acc d = rev d @ acc" for acc
    by (induction d arbitrary: acc) simp_all
  then show "\<forall>c \<in> set d. ccc db c = 0 \<Longrightarrow> ?thesis" by (simp add: canonical_order_def)
qed

lemma nfc_parts:
  assumes "no_hangul db" and "is_syllable cp"
  shows "compose_all db (canonical_order db (hangul_parts cp)) = [cp]"
    and "decompose_all db (hangul_parts cp) = Some (hangul_parts cp)" and "hangul_parts cp \<noteq> []"
proof -
  obtain l v t where h: "l < 19" "v < 21" "t < 28" "cp = S_BASE + (l * 21 + v) * 28 + t"
    "hangul_parts cp = [L_BASE + l, V_BASE + v] @ (if t \<noteq> 0 then [T_BASE + t] else [])"
    using hangul_index [OF assms(2)] by metis
  have jamo: "is_jamo (L_BASE + l)" "is_jamo (V_BASE + v)" "t \<noteq> 0 \<Longrightarrow> is_jamo (T_BASE + t)"
    using h(1-3) by (simp_all add: is_jamo_def V_COUNT_def T_COUNT_def)
  have cc: "ccc db (L_BASE + l) = 0" "ccc db (V_BASE + v) = 0" "t \<noteq> 0 \<Longrightarrow> ccc db (T_BASE + t) = 0"
    using jamo assms(1) unfolding no_hangul_def by blast+
  have ord: "canonical_order db (hangul_parts cp) = hangul_parts cp"
    by (rule canonical_order_starters) (use h(5) cc in auto)
  show "compose_all db (canonical_order db (hangul_parts cp)) = [cp]"
    unfolding ord unfolding h(5) using compose_jamo [OF h(1,2), where db = db] cc h(3,4)
    by (cases "t = 0") (simp_all add: compose_all_def compose_step_def Let_def)
  have out: "\<not> (S_BASE \<le> c \<and> c < S_BASE + S_COUNT)" if "is_jamo c" for c
    using that by (auto simp: is_jamo_def hangul_defs)
  have one: "decompose_one db c = Some [c]" if "is_jamo c" for c
    using out [OF that] that assms(1) by (subst decompose_one.simps) (auto simp: no_hangul_def)
  show "decompose_all db (hangul_parts cp) = Some (hangul_parts cp)"
    unfolding h(5) using one jamo by auto
  show "hangul_parts cp \<noteq> []" using h(5) by simp
qed

text \<open>Hangul syllables survive normalisation: each of the 11172 syllables decomposes into its two or
  three jamo by arithmetic and is put together again, so both the syllable and the spelled-out jamo
  normalise to the syllable. (The tables contain no jamo.)\<close>

lemma nfc_hangul:
  assumes "no_hangul db" and "S_BASE \<le> cp" and "cp < S_BASE + S_COUNT"
  shows "nfc db [cp] = Some [cp] \<and> nfc db (hangul_parts cp) = Some [cp] \<and> decompose_one db cp = Some (hangul_parts cp)"
proof -
  have s: "is_syllable cp" using assms(2,3) by (simp add: is_syllable_def)
  have d: "decompose_one db cp = Some (hangul_parts cp)"
    by (subst decompose_one.simps) (use assms(2,3) in simp)
  then show ?thesis using nfc_parts [OF assms(1) s] by (simp add: nfc_def)
qed

definition ex_db :: unicode_tables where
  "ex_db = \<lparr>LETTER_RANGES = [(65, 90), (97, 122)], MARK_RANGES = [(768, 879)], NUMBER_RANGES = [(48, 57)],
     DECOMPOSE_1 = [], DECOMPOSE_2 = [(192, 65, 768)], CCC = [(768, 230)], COMPOSE = [(65 * 2 ^ 21 + 768, 192)]\<rparr>"

theorem nfc_hangul_witness: "nfc ex_db [0xD55C] = Some [0xD55C] \<and> nfc ex_db [0x1112, 0x1161, 0x11AB] = Some [0xD55C]"
proof -
  have "no_hangul ex_db" by (auto simp: no_hangul_def is_jamo_def ex_db_def ccc_def hangul_defs)
  moreover have "hangul_parts 0xD55C = [0x1112, 0x1161, 0x11AB]" by (simp add: hangul_parts_def Let_def hangul_defs)
  ultimately show ?thesis using nfc_hangul [of ex_db "0xD55C"] by (simp add: hangul_defs)
qed

end
