(* ===== verification/Rust_Float.thy ===== *)
theory Rust_Float
  imports Rust_Prelude "HOL-Library.Multiset"
begin

text \<open>
  Floating point as a parameter. The numeric crates compute in \<open>f32\<close> and \<open>f64\<close>; the
  development keeps the order of the operations and leaves the operations themselves to a record
  of functions, so that what is proved holds for any arithmetic, rounding included. \<open>fops\<close>
  is that record; a value that is not equal to itself is a NaN. What a theorem needs of the
  comparisons is the named predicate \<open>ordered_floats\<close>. The theory also holds the stable sort
  by a comparator and the list-update lemmas the numeric components share.
\<close>

section \<open>Operations\<close>

record 'f fops =
  f_zero :: 'f
  f_one :: 'f
  f_neg_inf :: 'f
  f_inf :: 'f
  f_sum_start :: 'f
  f_add :: "'f \<Rightarrow> 'f \<Rightarrow> 'f"
  f_sub :: "'f \<Rightarrow> 'f \<Rightarrow> 'f"
  f_mul :: "'f \<Rightarrow> 'f \<Rightarrow> 'f"
  f_div :: "'f \<Rightarrow> 'f \<Rightarrow> 'f"
  f_neg :: "'f \<Rightarrow> 'f"
  f_abs :: "'f \<Rightarrow> 'f"
  f_exp :: "'f \<Rightarrow> 'f"
  f_ln :: "'f \<Rightarrow> 'f"
  f_sqrt :: "'f \<Rightarrow> 'f"
  f_of_nat :: "nat \<Rightarrow> 'f"
  f_lt :: "'f \<Rightarrow> 'f \<Rightarrow> bool"
  f_eq :: "'f \<Rightarrow> 'f \<Rightarrow> bool"
  f_finite :: "'f \<Rightarrow> bool"

definition f_le :: "'f fops \<Rightarrow> 'f \<Rightarrow> 'f \<Rightarrow> bool" where
  "f_le F a b \<longleftrightarrow> f_lt F a b \<or> f_eq F a b"

definition f_nan :: "'f fops \<Rightarrow> 'f \<Rightarrow> bool" where
  "f_nan F a \<longleftrightarrow> \<not> f_eq F a a"

text \<open>\<open>f32::max\<close>: a NaN argument loses.\<close>

definition f_max :: "'f fops \<Rightarrow> 'f \<Rightarrow> 'f \<Rightarrow> 'f" where
  "f_max F a b = (if f_nan F a then b else if f_lt F a b then b else a)"

text \<open>\<open>iter().sum()\<close>: a left fold.\<close>

definition f_sum :: "'f fops \<Rightarrow> 'f list \<Rightarrow> 'f" where
  "f_sum F xs = foldl (f_add F) (f_sum_start F) xs"

text \<open>The comparisons of IEEE numbers: on values that are no NaN a total preorder whose
  equivalence is \<open>==\<close>, and false on every NaN.\<close>

definition ordered_floats :: "'f fops \<Rightarrow> bool" where
  "ordered_floats F \<longleftrightarrow>
     (\<forall>a b c. f_lt F a b \<longrightarrow> f_lt F b c \<longrightarrow> f_lt F a c) \<and>
     (\<forall>a. \<not> f_lt F a a) \<and>
     (\<forall>a b. f_lt F a b \<longrightarrow> \<not> f_nan F a \<and> \<not> f_nan F b) \<and>
     (\<forall>a b. \<not> f_nan F a \<longrightarrow> \<not> f_nan F b \<longrightarrow> f_lt F a b \<or> f_eq F a b \<or> f_lt F b a) \<and>
     (\<forall>a b. f_eq F a b \<longrightarrow> \<not> f_nan F a \<and> \<not> f_nan F b \<and> f_eq F b a) \<and>
     (\<forall>a b c. f_eq F a b \<longrightarrow> f_lt F b c \<longrightarrow> f_lt F a c) \<and>
     (\<forall>a b c. f_lt F a b \<longrightarrow> f_eq F b c \<longrightarrow> f_lt F a c)"

lemma ordered_floatsD:
  assumes "ordered_floats F"
  shows "f_lt F a b \<Longrightarrow> f_lt F b c \<Longrightarrow> f_lt F a c"
    and "\<not> f_lt F a a"
    and "\<not> f_nan F a \<Longrightarrow> \<not> f_nan F b \<Longrightarrow> f_lt F a b \<or> f_eq F a b \<or> f_lt F b a"
    and "f_eq F a b \<Longrightarrow> f_eq F b a"
    and "f_eq F a b \<Longrightarrow> f_lt F b c \<Longrightarrow> f_lt F a c"
    and "f_lt F a b \<Longrightarrow> f_eq F b c \<Longrightarrow> f_lt F a c"
  using assms unfolding ordered_floats_def by meson+

lemma not_lt_trans:
  assumes "ordered_floats F" and "\<not> f_nan F a" "\<not> f_nan F b" "\<not> f_nan F c"
    and "\<not> f_lt F b a" and "\<not> f_lt F c b"
  shows "\<not> f_lt F c a"
  using assms ordered_floatsD [OF assms(1)] by metis

section \<open>Sorting by a comparator\<close>

text \<open>\<open>sort_by\<close>: the stable sort for the strict order \<open>lt\<close> of the comparator.\<close>

fun insert_by :: "('a \<Rightarrow> 'a \<Rightarrow> bool) \<Rightarrow> 'a \<Rightarrow> 'a list \<Rightarrow> 'a list" where
  "insert_by lt x [] = [x]"
| "insert_by lt x (y # ys) = (if lt y x then y # insert_by lt x ys else x # y # ys)"

definition sort_by :: "('a \<Rightarrow> 'a \<Rightarrow> bool) \<Rightarrow> 'a list \<Rightarrow> 'a list" where
  "sort_by lt xs = foldr (insert_by lt) xs []"

lemma mset_insert_by [simp]: "mset (insert_by lt x ys) = add_mset x (mset ys)"
  by (induction ys) simp_all

lemma mset_sort_by [simp]: "mset (sort_by lt xs) = mset xs"
  by (induction xs) (simp_all add: sort_by_def)

lemma set_sort_by [simp]: "set (sort_by lt xs) = set xs"
  by (rule mset_eq_setD) simp

lemma length_sort_by [simp]: "length (sort_by lt xs) = length xs"
  by (metis mset_sort_by size_mset)

lemma sort_by_eq_Nil [simp]: "sort_by lt xs = [] \<longleftrightarrow> xs = []"
  using length_sort_by [of lt xs] by (cases xs) (auto simp del: length_sort_by)

lemma distinct_sort_by [simp]: "distinct (sort_by lt xs) = distinct xs"
  by (rule mset_eq_imp_distinct_iff) simp

lemma set_insert_by [simp]: "set (insert_by lt x ys) = insert x (set ys)"
  by (induction ys) auto

definition weak_order_on :: "'a set \<Rightarrow> ('a \<Rightarrow> 'a \<Rightarrow> bool) \<Rightarrow> bool" where
  "weak_order_on S lt \<longleftrightarrow>
     (\<forall>a \<in> S. \<forall>b \<in> S. \<forall>c \<in> S. \<not> lt b a \<longrightarrow> \<not> lt c b \<longrightarrow> \<not> lt c a) \<and>
     (\<forall>a \<in> S. \<forall>b \<in> S. lt a b \<longrightarrow> \<not> lt b a)"

lemma weak_order_on_subset: "weak_order_on S lt \<Longrightarrow> T \<subseteq> S \<Longrightarrow> weak_order_on T lt"
  unfolding weak_order_on_def by (meson subsetD)

lemma sorted_insert_by:
  "weak_order_on (insert x (set ys)) lt \<Longrightarrow> sorted_wrt (\<lambda>a b. \<not> lt b a) ys \<Longrightarrow>
   sorted_wrt (\<lambda>a b. \<not> lt b a) (insert_by lt x ys)"
proof (induction ys)
  case (Cons y ys)
  have "insert x (set ys) \<subseteq> insert x (set (y # ys))" by auto
  with Cons have ih: "sorted_wrt (\<lambda>a b. \<not> lt b a) (insert_by lt x ys)"
    by (meson weak_order_on_subset sorted_wrt.simps(2))
  show ?case
  proof (cases "lt y x")
    case True
    then have "\<not> lt x y" using Cons.prems(1) unfolding weak_order_on_def by simp
    then show ?thesis using True ih Cons.prems(2) by simp
  next
    case False
    have "\<not> lt z x" if "z \<in> set ys" for z
    proof -
      have "\<not> lt z y" using Cons.prems(2) that by simp
      then show ?thesis using Cons.prems(1) False that unfolding weak_order_on_def
        by (meson insertCI list.set_intros)
    qed
    then show ?thesis using False Cons.prems(2) by simp
  qed
qed simp

lemma sorted_sort_by:
  "weak_order_on (set xs) lt \<Longrightarrow> sorted_wrt (\<lambda>a b. \<not> lt b a) (sort_by lt xs)"
proof (induction xs)
  case (Cons x xs)
  have "set xs \<subseteq> set (x # xs)" by auto
  with Cons have "sorted_wrt (\<lambda>a b. \<not> lt b a) (sort_by lt xs)" by (meson weak_order_on_subset)
  then have "sorted_wrt (\<lambda>a b. \<not> lt b a) (insert_by lt x (sort_by lt xs))"
    using Cons.prems by (intro sorted_insert_by) simp_all
  then show ?case by (simp add: sort_by_def)
qed (simp add: sort_by_def)

lemma weak_order_floats:
  assumes "ordered_floats F" and "\<forall>x \<in> S. \<not> f_nan F x"
  shows "weak_order_on S (f_lt F)" and "weak_order_on S (\<lambda>a b. f_lt F b a)"
  unfolding weak_order_on_def
  using assms(2) not_lt_trans [OF assms(1)] ordered_floatsD(1,2) [OF assms(1)] by blast+

section \<open>Updating a list at several indices\<close>

lemma length_foldl_update [simp]: "length (foldl (\<lambda>l i. l[i := g l i]) l is) = length l"
  by (induction "is" arbitrary: l) simp_all

lemma nth_foldl_update:
  "distinct is \<Longrightarrow> j < length l \<Longrightarrow>
   foldl (\<lambda>l i. l[i := g i (l ! i)]) l is ! j = (if j \<in> set is then g j (l ! j) else l ! j)"
proof (induction "is" arbitrary: l)
  case (Cons i "is")
  then show ?case by (cases "i = j") auto
qed simp

lemma nth_update_if: "l[i := v] ! j = (if i = j \<and> j < length l then v else l ! j)"
  by (cases "i = j") (auto simp: list_update_beyond not_less)

lemma if_list_update: "(if c then l else l[i := v]) = l[i := if c then l ! i else v]"
  by simp

end
