(* ===== verification/Serde_Json.thy ===== *)
theory Serde_Json
  imports Rust_Str
begin

text \<open>
  The documents the loaders read. Parsing is done by the third-party crate serde\_json, so
  the parser is a parameter (\<open>from_slice\<close>) of every definition that calls it; only the shape
  of its result type \<open>Value\<close> and the accessors the sources use on it are given here. An
  object is the list of its entries in iteration order; serde\_json's default map has one
  entry per key. Floating-point numbers stay abstract (\<open>'f\<close>).
\<close>

datatype 'f jnum = PosInt u64 | NegInt int | Flt 'f

datatype 'f json =
    JNull
  | JBool bool
  | JNum "'f jnum"
  | JStr rstr
  | JArr "'f json list"
  | JObj "(rstr \<times> 'f json) list"

fun as_object :: "'f json \<Rightarrow> (rstr \<times> 'f json) list option" where
  "as_object (JObj kv) = Some kv"
| "as_object _ = None"

fun as_array :: "'f json \<Rightarrow> 'f json list option" where
  "as_array (JArr a) = Some a"
| "as_array _ = None"

fun as_str :: "'f json \<Rightarrow> rstr option" where
  "as_str (JStr s) = Some s"
| "as_str _ = None"

fun as_bool :: "'f json \<Rightarrow> bool option" where
  "as_bool (JBool b) = Some b"
| "as_bool _ = None"

fun as_u64 :: "'f json \<Rightarrow> u64 option" where
  "as_u64 (JNum (PosInt n)) = Some n"
| "as_u64 _ = None"

definition jget :: "'f json \<Rightarrow> rstr \<Rightarrow> 'f json option" where
  "jget v k = Option.bind (as_object v) (\<lambda>kv. map_of kv k)"

lemma as_object_Some [simp]: "as_object v = Some kv \<longleftrightarrow> v = JObj kv"
  by (cases v) auto

lemma as_array_Some [simp]: "as_array v = Some a \<longleftrightarrow> v = JArr a"
  by (cases v) auto

lemma as_str_Some [simp]: "as_str v = Some s \<longleftrightarrow> v = JStr s"
  by (cases v) auto

lemma as_u64_Some [simp]: "as_u64 v = Some n \<longleftrightarrow> v = JNum (PosInt n)"
  by (cases v rule: as_u64.cases) auto

lemma jget_JObj [simp]: "jget (JObj kv) k = map_of kv k"
  by (simp add: jget_def)

end
