(* ===== verification/Tokenizer.thy ===== *)
theory Tokenizer
  imports Unicode_GC Rust_Float Serde_Json "HOL-Library.AList"
begin

text \<open>
  The byte-level BPE tokenizer (\<open>gdn/src/tokenizer.rs\<close>): the byte table, the pre-tokenizer's seven
  alternatives, the merge loop, encoding with added tokens, decoding, and the loader that checks a
  \<open>tokenizer.json\<close>. Texts are lists of chars; byte offsets are lengths of prefixes. A hash map is an
  association list with one entry per key. \<open>None\<close> is a call that does not return, by a panic or
  by an endless loop.
\<close>

section \<open>The byte table\<close>

definition printable :: "nat list" where
  "printable = [33..<127] @ [161..<173] @ [174..<256]"

definition byte_to_char_table :: "rchar list" where
  "byte_to_char_table =
     snd (foldl (\<lambda>(n, m) b. if b \<in> set printable then (n, m) else (n + 1, m[b := 256 + n]))
       (0, foldl (\<lambda>m b. m[b := b]) (replicate 256 0) printable) [0..<256])"

section \<open>The pre-tokenizer\<close>

definition to_ascii_lowercase :: "rchar \<Rightarrow> rchar" where
  "to_ascii_lowercase c = (if 65 \<le> c \<and> c \<le> 90 then c + 32 else c)"

definition get :: "'a list \<Rightarrow> nat \<Rightarrow> 'a option" where
  "get xs i = (if i < length xs then Some (xs ! i) else None)"

definition is_nl :: "rchar \<Rightarrow> bool" where
  "is_nl c \<longleftrightarrow> c = 13 \<or> c = 10"

text \<open>The scanning loops: the first position from \<open>j\<close> on whose char fails the test.\<close>

definition scan :: "(rchar \<Rightarrow> bool) \<Rightarrow> rchar list \<Rightarrow> nat \<Rightarrow> nat" where
  "scan f c j = j + length (takeWhile f (drop j c))"

definition match_contraction :: "rchar list \<Rightarrow> nat \<Rightarrow> nat option" where
  "match_contraction c i =
     (if c ! i \<noteq> 39 then None
      else
        case map_option to_ascii_lowercase (get c (i + 1)) of
          None \<Rightarrow> None
        | Some x \<Rightarrow>
            let third = map_option to_ascii_lowercase (get c (i + 2)) in
            if x \<in> {115, 116, 109, 100} then Some (i + 2)
            else if x = 114 then (if third = Some 101 then Some (i + 3) else None)
            else if x = 118 then (if third = Some 101 then Some (i + 3) else None)
            else if x = 108 then (if third = Some 108 then Some (i + 3) else None)
            else None)"

definition match_letters :: "unicode_tables \<Rightarrow> rchar list \<Rightarrow> nat \<Rightarrow> bool \<Rightarrow> nat option" where
  "match_letters db c i marks_join =
     (let n = length c;
          is_lm = (\<lambda>x. is_letter db x \<or> (marks_join \<and> is_mark db x));
          c0 = c ! i
      in if c0 \<noteq> 13 \<and> c0 \<noteq> 10 \<and> \<not> is_letter db c0 \<and> \<not> is_number db c0 \<and> i + 1 < n \<and> is_lm (c ! (i + 1))
         then Some (scan is_lm c (i + 1))
         else if is_lm c0 then Some (scan is_lm c i)
         else None)"

definition match_symbols :: "unicode_tables \<Rightarrow> rchar list \<Rightarrow> nat \<Rightarrow> bool \<Rightarrow> nat option" where
  "match_symbols db c i marks_join =
     (let n = length c;
          is_sym = (\<lambda>x. \<not> is_whitespace x \<and> \<not> is_letter db x \<and> \<not> is_number db x \<and> \<not> (marks_join \<and> is_mark db x));
          start = (if c ! i = 32 then i + 1 else i)
      in if n \<le> start \<or> \<not> is_sym (c ! start) then None
         else Some (scan is_nl c (scan is_sym c start)))"

definition match_ws_then_newline :: "rchar list \<Rightarrow> nat \<Rightarrow> nat option" where
  "match_ws_then_newline c i =
     (if \<not> is_whitespace (c ! i) then None
      else
        let k = scan is_whitespace c i in
        map_option (scan is_nl c) (List.find (\<lambda>x. is_nl (c ! x)) (rev [i..<k])))"

definition match_ws_lookahead :: "rchar list \<Rightarrow> nat \<Rightarrow> nat option" where
  "match_ws_lookahead c i =
     (if \<not> is_whitespace (c ! i) then None
      else
        let k = scan is_whitespace c i in
        if k = length c then Some k else if i + 2 \<le> k then Some (k - 1) else None)"

definition match_whitespace :: "rchar list \<Rightarrow> nat \<Rightarrow> nat option" where
  "match_whitespace c i = (if \<not> is_whitespace (c ! i) then None else Some (scan is_whitespace c i))"

definition match_alternative :: "unicode_tables \<Rightarrow> rchar list \<Rightarrow> nat \<Rightarrow> bool \<Rightarrow> nat" where
  "match_alternative db c i marks_join =
     (case match_contraction c i of Some j \<Rightarrow> j
      | None \<Rightarrow> (case match_letters db c i marks_join of Some j \<Rightarrow> j
      | None \<Rightarrow> if is_number db (c ! i) then i + 1
      else (case match_symbols db c i marks_join of Some j \<Rightarrow> j
      | None \<Rightarrow> (case match_ws_then_newline c i of Some j \<Rightarrow> j
      | None \<Rightarrow> (case match_ws_lookahead c i of Some j \<Rightarrow> j
      | None \<Rightarrow> (case match_whitespace c i of Some j \<Rightarrow> j
      | None \<Rightarrow> i + 1))))))"

function pretokenize_loop :: "unicode_tables \<Rightarrow> rstr \<Rightarrow> bool \<Rightarrow> nat \<Rightarrow> (nat \<times> nat) list" where
  "pretokenize_loop db s marks_join i =
     (let n = length s in
      if i < n then
        let j = max (i + 1) (min n (match_alternative db s i marks_join)) in
        (str_len (take i s), if j < n then str_len (take j s) else str_len s) # pretokenize_loop db s marks_join j
      else [])"
  by auto
termination by (relation "measure (\<lambda>(_, s, _, i). length s - i)") (auto simp: Let_def)

declare pretokenize_loop.simps [simp del]

definition pretokenize_with :: "unicode_tables \<Rightarrow> rstr \<Rightarrow> bool \<Rightarrow> (nat \<times> nat) list" where
  "pretokenize_with db s marks_join = pretokenize_loop db s marks_join 0"

definition pretokenize :: "unicode_tables \<Rightarrow> rstr \<Rightarrow> (nat \<times> nat) list" where
  "pretokenize db s = pretokenize_with db s True"

text \<open>\<open>&text[a..b]\<close>: byte offsets inside a char are a panic.\<close>

fun char_index :: "rstr \<Rightarrow> nat \<Rightarrow> nat option" where
  "char_index s 0 = Some 0"
| "char_index [] (Suc a) = None"
| "char_index (c # s) (Suc a) =
     (if char_len_utf8 c \<le> Suc a then map_option Suc (char_index s (Suc a - char_len_utf8 c)) else None)"

definition str_slice :: "rstr \<Rightarrow> nat \<Rightarrow> nat \<Rightarrow> rstr option" where
  "str_slice s a b =
     Option.bind (char_index s a) (\<lambda>i. Option.bind (char_index s b) (\<lambda>j.
     if i \<le> j then Some (take (j - i) (drop i s)) else None))"

section \<open>The tokenizer\<close>

record Tokenizer =
  byte_char_id :: "nat list"
  id_to_token :: "rstr list"
  merge :: "((nat \<times> nat) \<times> (nat \<times> nat)) list"
  added :: "(rstr \<times> nat) list"
  char_to_byte :: "(rchar \<times> nat) list"
  marks_join_letters :: bool

definition vocab_size :: "Tokenizer \<Rightarrow> nat" where
  "vocab_size tk = length (id_to_token tk)"

definition token_str :: "Tokenizer \<Rightarrow> nat \<Rightarrow> rstr option" where
  "token_str tk i = get (id_to_token tk) i"

definition take_best :: "(nat \<times> nat) option \<Rightarrow> nat \<Rightarrow> (nat \<times> nat) option \<Rightarrow> (nat \<times> nat) option" where
  "take_best best i hit =
     (case hit of
        Some (rank, _) \<Rightarrow>
          (case best of
             None \<Rightarrow> Some (rank, i)
           | Some (br, _) \<Rightarrow> if rank < br then Some (rank, i) else best)
      | None \<Rightarrow> best)"

definition best_pair :: "Tokenizer \<Rightarrow> nat list \<Rightarrow> (nat \<times> nat) option" where
  "best_pair tk syms =
     foldl (\<lambda>best i. take_best best i (map_of (merge tk) (syms ! i, syms ! (i + 1)))) None [0..<length syms - 1]"

text \<open>The pair the scan ends with: the least rank, and the leftmost position with it.\<close>

definition is_best :: "(nat \<Rightarrow> (nat \<times> nat) option) \<Rightarrow> nat \<Rightarrow> (nat \<times> nat) option \<Rightarrow> bool" where
  "is_best g n b \<longleftrightarrow>
     (case b of
        None \<Rightarrow> \<forall>i < n. g i = None
      | Some (r, i) \<Rightarrow> i < n \<and> (\<exists>m. g i = Some (r, m)) \<and>
          (\<forall>j < n. \<forall>r' m'. g j = Some (r', m') \<longrightarrow> r \<le> r' \<and> (r = r' \<longrightarrow> i \<le> j)))"

lemma is_best_step: "is_best g n b \<Longrightarrow> is_best g (Suc n) (take_best b n (g n))"
  unfolding is_best_def take_best_def
  by (auto simp: less_Suc_eq split: option.splits prod.splits if_splits; fastforce)

lemma best_pair_spec: "is_best (\<lambda>i. map_of (merge tk) (syms ! i, syms ! (i + 1))) (length syms - 1) (best_pair tk syms)"
proof -
  have "is_best g n (foldl (\<lambda>best i. take_best best i (g i)) None [0..<n])" for g n
    by (induction n) (simp_all add: is_best_step, simp add: is_best_def)
  then show ?thesis by (simp add: best_pair_def)
qed

lemma best_pair_Some:
  assumes "best_pair tk syms = Some (r, i)"
  obtains m where "i + 1 < length syms" and "map_of (merge tk) (syms ! i, syms ! (i + 1)) = Some (r, m)"
  using best_pair_spec [of tk syms] assms by (auto simp: is_best_def)

definition merge_at :: "Tokenizer \<Rightarrow> nat \<Rightarrow> nat list \<Rightarrow> nat list" where
  "merge_at tk i syms =
     (let merged = (case map_of (merge tk) (syms ! i, syms ! (i + 1)) of Some (_, m) \<Rightarrow> m | None \<Rightarrow> 0)
      in take i syms @ [merged] @ drop (i + 2) syms)"

function bpe_loop :: "Tokenizer \<Rightarrow> nat list \<Rightarrow> nat list" where
  "bpe_loop tk syms =
     (case best_pair tk syms of
        None \<Rightarrow> syms
      | Some (_, i) \<Rightarrow> bpe_loop tk (merge_at tk i syms))"
  by auto
termination
proof (relation "measure (\<lambda>(_, syms). length syms)")
  fix tk syms a r i
  assume "best_pair tk syms = Some a" and "(r, i) = a"
  then have "i + 1 < length syms" by (auto elim: best_pair_Some)
  then show "((tk, merge_at tk i syms), (tk, syms)) \<in> measure (\<lambda>(_, syms). length syms)"
    by (simp add: merge_at_def Let_def)
qed simp

declare bpe_loop.simps [simp del]

definition bpe :: "Tokenizer \<Rightarrow> rstr \<Rightarrow> nat list" where
  "bpe tk piece =
     (let syms = map (\<lambda>b. byte_char_id tk ! b) (utf8 piece)
      in if length syms < 2 then syms else bpe_loop tk syms)"

primrec bpe_pieces :: "Tokenizer \<Rightarrow> rstr \<Rightarrow> (nat \<times> nat) list \<Rightarrow> nat list option" where
  "bpe_pieces tk s [] = Some []"
| "bpe_pieces tk s (ab # rest) =
     Option.bind (str_slice s (fst ab) (snd ab)) (\<lambda>piece.
     Option.bind (bpe_pieces tk s rest) (\<lambda>ids. Some (bpe tk piece @ ids)))"

definition encode_plain :: "unicode_tables \<Rightarrow> Tokenizer \<Rightarrow> rstr \<Rightarrow> nat list \<Rightarrow> nat list option" where
  "encode_plain db tk s out =
     Option.bind (bpe_pieces tk s (pretokenize_with db s (marks_join_letters tk))) (\<lambda>ids. Some (out @ ids))"

text \<open>The scan of \<open>encode\<close>: \<open>rest\<close> is the text from position \<open>i\<close> on, \<open>plain\<close> the text between
  \<open>plain_start\<close> and \<open>i\<close>.\<close>

definition flush :: "unicode_tables \<Rightarrow> Tokenizer \<Rightarrow> rstr \<Rightarrow> nat list \<Rightarrow> nat list option" where
  "flush db tk plain out = (if plain \<noteq> [] then encode_plain db tk plain out else Some out)"

partial_function (option) encode_loop ::
  "unicode_tables \<Rightarrow> Tokenizer \<Rightarrow> rstr \<Rightarrow> rstr \<Rightarrow> nat list \<Rightarrow> nat list option" where
  "encode_loop db tk rest plain out =
     (if rest = [] then flush db tk plain out
      else
        case List.find (\<lambda>(tok, _). starts_with rest tok) (added tk) of
          Some hit \<Rightarrow>
            Option.bind (flush db tk plain out) (\<lambda>out.
            encode_loop db tk (drop (length (fst hit)) rest) [] (out @ [snd hit]))
        | None \<Rightarrow> encode_loop db tk (tl rest) (plain @ [hd rest]) out)"

definition encode :: "unicode_tables \<Rightarrow> Tokenizer \<Rightarrow> rstr \<Rightarrow> nat list option" where
  "encode db tk s = Option.bind (nfc db s) (\<lambda>normalized. encode_loop db tk normalized [] [])"

definition set_marks_join_letters :: "Tokenizer \<Rightarrow> bool \<Rightarrow> Tokenizer" where
  "set_marks_join_letters tk v = tk\<lparr>marks_join_letters := v\<rparr>"

definition sort_added :: "(rstr \<times> nat) list \<Rightarrow> (rstr \<times> nat) list" where
  "sort_added xs = sort_key (\<lambda>(tok, _). (- int (str_len tok), tok)) xs"

definition absorb_step :: "Tokenizer \<times> nat \<Rightarrow> rstr \<times> nat \<Rightarrow> Tokenizer \<times> nat" where
  "absorb_step st entry =
     (let (tk, added_new) = st; (tok, i) = entry in
      if \<exists>e \<in> set (added tk). fst e = tok then (tk, added_new)
      else
        let toks = (if length (id_to_token tk) \<le> i
              then id_to_token tk @ replicate (i + 1 - length (id_to_token tk)) [] else id_to_token tk);
            toks = (if toks ! i = [] then toks[i := tok] else toks)
        in (tk\<lparr>id_to_token := toks, added := added tk @ [(tok, i)]\<rparr>, added_new + 1))"

definition absorb_added_tokens :: "Tokenizer \<Rightarrow> (rstr \<times> nat) list \<Rightarrow> Tokenizer \<times> nat" where
  "absorb_added_tokens tk extra =
     (let (tk, added_new) = foldl absorb_step (tk, 0) extra in (tk\<lparr>added := sort_added (added tk)\<rparr>, added_new))"

text \<open>\<open>String::from_utf8_lossy\<close>: every maximal prefix that cannot start a char becomes U+FFFD.\<close>

definition utf8_head :: "nat list \<Rightarrow> rchar option \<times> nat" where
  "utf8_head bs =
     (let byte = (\<lambda>i. if i < length bs then bs ! i else 0);
          a = byte 0; b = byte 1; c = byte 2; d = byte 3;
          second3 = (if a = 0xE0 then 0xA0 \<le> b \<and> b < 0xC0 else if a = 0xED then 0x80 \<le> b \<and> b < 0xA0 else is_cont b);
          second4 = (if a = 0xF0 then 0x90 \<le> b \<and> b < 0xC0 else if a = 0xF4 then 0x80 \<le> b \<and> b < 0x90 else is_cont b)
      in if a < 0x80 then (Some a, 1)
         else if 0xC2 \<le> a \<and> a < 0xE0 then
           (if is_cont b then (Some ((a - 0xC0) * 64 + (b - 0x80)), 2) else (None, 1))
         else if 0xE0 \<le> a \<and> a < 0xF0 then
           (if \<not> second3 then (None, 1) else if \<not> is_cont c then (None, 2)
            else (Some ((a - 0xE0) * 4096 + (b - 0x80) * 64 + (c - 0x80)), 3))
         else if 0xF0 \<le> a \<and> a < 0xF5 then
           (if \<not> second4 then (None, 1) else if \<not> is_cont c then (None, 2) else if \<not> is_cont d then (None, 3)
            else (Some ((a - 0xF0) * 262144 + (b - 0x80) * 4096 + (c - 0x80) * 64 + (d - 0x80)), 4))
         else (None, 1))"

lemma utf8_head_pos: "0 < snd (utf8_head bs)"
  by (simp add: utf8_head_def Let_def)

function from_utf8_lossy :: "nat list \<Rightarrow> rstr" where
  "from_utf8_lossy bs =
     (if bs = [] then []
      else
        let (c, k) = utf8_head bs
        in (case c of Some c \<Rightarrow> c | None \<Rightarrow> 0xFFFD) # from_utf8_lossy (drop k bs))"
  by auto
termination
proof (relation "measure length")
  fix bs :: "nat list" and x c k
  assume "bs \<noteq> []" and "x = utf8_head bs" and "(c, k) = x"
  with utf8_head_pos [of bs] show "(drop k bs, bs) \<in> measure length" by (auto simp: length_greater_0_conv) (metis diff_less length_greater_0_conv snd_conv)
qed simp

declare from_utf8_lossy.simps [simp del]

definition char_bytes :: "Tokenizer \<Rightarrow> rchar \<Rightarrow> nat list" where
  "char_bytes tk ch = (case map_of (char_to_byte tk) ch of Some b \<Rightarrow> [b] | None \<Rightarrow> utf8_char ch)"

definition token_bytes :: "Tokenizer \<Rightarrow> nat \<Rightarrow> nat list" where
  "token_bytes tk i = (case token_str tk i of None \<Rightarrow> [] | Some tok \<Rightarrow> concat (map (char_bytes tk) tok))"

definition decode :: "Tokenizer \<Rightarrow> nat list \<Rightarrow> rstr" where
  "decode tk ids = from_utf8_lossy (concat (map (token_bytes tk) ids))"

section \<open>The byte table is a bijection\<close>

definition unprintable_before :: "nat \<Rightarrow> nat" where
  "unprintable_before b = length (filter (\<lambda>x. x \<notin> set printable) [0..<b])"

lemma byte_table_fold:
  defines "step \<equiv> \<lambda>(n, m) b. if b \<in> set printable then (n, m) else (n + 1, m[b := 256 + n])"
  shows "k \<le> length m \<Longrightarrow> fst (foldl step (0, m) [0..<k]) = unprintable_before k \<and>
    length (snd (foldl step (0, m) [0..<k])) = length m \<and>
    (\<forall>b < length m. snd (foldl step (0, m) [0..<k]) ! b =
       (if b < k \<and> b \<notin> set printable then 256 + unprintable_before b else m ! b))"
proof (induction k)
  case (Suc k)
  obtain n m' where f: "foldl step (0, m) [0..<k] = (n, m')" by fastforce
  with Suc show ?case
    by (auto simp: step_def unprintable_before_def nth_update_if less_Suc_eq)
qed (simp add: unprintable_before_def)

lemma byte_table_base: "length (foldl (\<lambda>m b. m[b := b]) (replicate 256 0) printable) = 256 \<and>
    (\<forall>b < 256. foldl (\<lambda>m b. m[b := b]) (replicate 256 0) printable ! b = (if b \<in> set printable then b else 0))"
proof -
  have "distinct printable" by (auto simp: printable_def)
  then show ?thesis
    using nth_foldl_update [of printable _ "replicate 256 0" "\<lambda>i _. i"]
      length_foldl_update [of "\<lambda>_ i. i" "replicate 256 0" printable] by simp
qed

lemma byte_table_nth:
  "length byte_to_char_table = 256"
  "b < 256 \<Longrightarrow> byte_to_char_table ! b = (if b \<in> set printable then b else 256 + unprintable_before b)"
  using byte_table_fold [of 256 "foldl (\<lambda>m b. m[b := b]) (replicate 256 0) printable"] byte_table_base
  by (simp_all add: byte_to_char_table_def)

lemma unprintable_before_less:
  assumes "a < b" and "a \<notin> set printable" shows "unprintable_before a < unprintable_before b"
proof -
  have "[0..<b] = [0..<a] @ a # [Suc a..<b]" using assms(1) by (metis less_imp_add_positive upt_add_eq_append upt_conv_Cons zero_le)
  then show ?thesis using assms(2) by (simp add: unprintable_before_def)
qed

lemma byte_table_distinct: "distinct byte_to_char_table"
proof -
  have "byte_to_char_table ! a \<noteq> byte_to_char_table ! b" if "a < b" "b < 256" for a b
  proof -
    have small: "x \<in> set printable \<Longrightarrow> x < 256 + n" for x n by (auto simp: printable_def)
    show ?thesis
      using that byte_table_nth(2) [of a] byte_table_nth(2) [of b] unprintable_before_less [of a b]
        small [of a "unprintable_before b"] small [of b "unprintable_before a"] by (auto split: if_splits)
  qed
  then show ?thesis unfolding distinct_conv_nth byte_table_nth(1) by (metis linorder_neqE_nat)
qed

section \<open>UTF-8 with replacement\<close>

lemma utf8_head_char:
  assumes "valid_char c"
  shows "utf8_head (utf8_char c @ r) = (Some c, char_len_utf8 c)"
proof -
  consider "c < 0x80" | "0x80 \<le> c" "c < 0x800" | "0x800 \<le> c" "c < 0x10000"
    | "0x10000 \<le> c" "c < 0x110000"
    using assms by (fastforce simp: valid_char_def)
  then show ?thesis
  proof cases
    case 1
    then show ?thesis by (simp add: utf8_head_def utf8_char_def char_len_utf8_def)
  next
    case 2
    have "c div 64 * 64 + c mod 64 = c" by simp
    moreover have "2 \<le> c div 64" "c div 64 < 32" using 2 by auto
    ultimately show ?thesis using 2
      by (simp add: utf8_head_def utf8_char_def char_len_utf8_def is_cont_def)
  next
    case 3
    have v: "c div 4096 * 4096 + c div 64 mod 64 * 64 + c mod 64 = c"
      using base64_digits [of c] 3 by simp
    have hi: "c div 4096 < 16" using 3 by auto
    have lo: "c div 4096 = 0 \<Longrightarrow> 32 \<le> c div 64 mod 64" "c div 4096 = 13 \<Longrightarrow> c div 64 mod 64 < 32"
      using v 3 assms mod_less_divisor [of 64 c] mod_less_divisor [of 64 "c div 64"] unfolding valid_char_def by linarith+
    have "c div 4096 = 0 \<Longrightarrow> c div 64 < 64" by auto
    then show ?thesis using 3 v hi lo
      by (simp add: utf8_head_def utf8_char_def char_len_utf8_def is_cont_def Let_def)
  next
    case 4
    have v: "c div 262144 * 262144 + c div 4096 mod 64 * 4096 + c div 64 mod 64 * 64 + c mod 64 = c"
      by (rule base64_digits)
    have hi: "c div 262144 < 5" using 4 by auto
    have lo: "c div 262144 = 0 \<Longrightarrow> 16 \<le> c div 4096 mod 64" "c div 262144 = 4 \<Longrightarrow> c div 4096 mod 64 < 16"
      using v 4 mod_less_divisor [of 64 c] mod_less_divisor [of 64 "c div 64"] mod_less_divisor [of 64 "c div 4096"] by linarith+
    have "c div 262144 = 0 \<Longrightarrow> c div 4096 < 64" by auto
    then show ?thesis using 4 v hi lo
      by (simp add: utf8_head_def utf8_char_def char_len_utf8_def is_cont_def Let_def)
  qed
qed

lemma utf8_char_not_Nil [simp]: "utf8_char c \<noteq> []"
  by (simp add: utf8_char_def)

lemma lossy_utf8: "valid_str s \<Longrightarrow> from_utf8_lossy (utf8 s) = s"
proof (induction s)
  case (Cons c s)
  then show ?case
    using utf8_head_char [of c "utf8 s"]
    by (subst from_utf8_lossy.simps) (simp flip: length_utf8_char)
qed (simp add: from_utf8_lossy.simps)

section \<open>Pieces tile the text\<close>

lemma char_index_prefix: "k \<le> length s \<Longrightarrow> char_index s (str_len (take k s)) = Some k"
proof (induction s arbitrary: k)
  case (Cons c s)
  show ?case
  proof (cases k)
    case (Suc k')
    obtain a where a: "char_len_utf8 c + str_len (take k' s) = Suc a"
      using char_len_utf8_bounds(1) [of c] by (cases "char_len_utf8 c + str_len (take k' s)") auto
    have "char_len_utf8 c \<le> Suc a" "Suc a - char_len_utf8 c = str_len (take k' s)" using a by linarith+
    then show ?thesis using Suc Cons a by (simp del: diff_Suc_Suc)
  qed simp
qed simp

lemma str_slice_chars:
  assumes "i \<le> j" and "j \<le> length s"
  shows "str_slice s (str_len (take i s)) (str_len (take j s)) = Some (take (j - i) (drop i s))"
  using assms char_index_prefix [of i s] char_index_prefix [of j s] by (simp add: str_slice_def)

lemma pretokenize_step:
  assumes "i < length s"
  obtains j where "i < j" and "j \<le> length s"
    and "pretokenize_loop db s mj i = (str_len (take i s), str_len (take j s)) # pretokenize_loop db s mj j"
    and "j = max (i + 1) (min (length s) (match_alternative db s i mj))"
proof -
  define j where "j = max (i + 1) (min (length s) (match_alternative db s i mj))"
  have j: "i < j" "j \<le> length s" using assms by (auto simp: j_def)
  then have "(if j < length s then str_len (take j s) else str_len s) = str_len (take j s)" by simp
  then have "pretokenize_loop db s mj i = (str_len (take i s), str_len (take j s)) # pretokenize_loop db s mj j"
    using assms unfolding pretokenize_loop.simps [of db s mj i] Let_def j_def [symmetric] by simp
  from that [OF j(1,2) this j_def] show thesis .
qed

text \<open>Ranges that follow each other from byte \<open>a\<close> to byte \<open>b\<close>, none of them empty.\<close>

fun tiles :: "nat \<Rightarrow> nat \<Rightarrow> (nat \<times> nat) list \<Rightarrow> bool" where
  "tiles a b [] = (a = b)"
| "tiles a b ((x, y) # rs) = (x = a \<and> x < y \<and> tiles y b rs)"

lemma str_len_less: "i < j \<Longrightarrow> j \<le> length s \<Longrightarrow> str_len (take i s) < str_len (take j s)"
proof -
  assume "i < j" "j \<le> length s"
  then have "take j s = take i s @ take (j - i) (drop i s)" by (metis le_add_diff_inverse less_imp_le take_add)
  moreover have "0 < str_len xs" if "xs \<noteq> []" for xs
    using that char_len_utf8_bounds(1) by (cases xs) (auto simp: Suc_le_eq)
  moreover have "take (j - i) (drop i s) \<noteq> []" using \<open>i < j\<close> \<open>j \<le> length s\<close> by simp
  ultimately show ?thesis by (metis less_add_same_cancel1 str_len_simps(3))
qed

lemma pretokenize_loop_tiles:
  "i \<le> length s \<Longrightarrow> tiles (str_len (take i s)) (str_len s) (pretokenize_loop db s mj i) \<and>
   (\<exists>ps. map (\<lambda>(a, b). str_slice s a b) (pretokenize_loop db s mj i) = map Some ps \<and> concat ps = drop i s)"
proof (induction "length s - i" arbitrary: i rule: less_induct)
  case less
  show ?case
  proof (cases "i < length s")
    case True
    then obtain j where j: "i < j" "j \<le> length s"
      "pretokenize_loop db s mj i = (str_len (take i s), str_len (take j s)) # pretokenize_loop db s mj j"
      by (rule pretokenize_step)
    have "length s - j < length s - i" using j(1,2) by linarith
    with j less.hyps [of j] obtain ps where
      ps: "tiles (str_len (take j s)) (str_len s) (pretokenize_loop db s mj j)"
        "map (\<lambda>(a, b). str_slice s a b) (pretokenize_loop db s mj j) = map Some ps" "concat ps = drop j s"
      by auto
    have "take (j - i) (drop i s) @ drop j s = drop i s"
      using j(1) by (metis append_take_drop_id drop_drop le_add_diff_inverse2 less_imp_le)
    then show ?thesis
      using ps j(3) str_len_less [OF j(1,2)] str_slice_chars [of i j s] j(1,2)
      by (auto intro!: exI [of _ "take (j - i) (drop i s) # ps"])
  next
    case False
    then have "pretokenize_loop db s mj i = []" by (subst pretokenize_loop.simps) (simp add: Let_def)
    then show ?thesis using False less.prems by simp
  qed
qed

text \<open>Every char is taken by an alternative; the fallback of \<open>match_alternative\<close> is dead code.\<close>

definition some_alternative :: "unicode_tables \<Rightarrow> rchar list \<Rightarrow> nat \<Rightarrow> bool \<Rightarrow> bool" where
  "some_alternative db c i mj \<longleftrightarrow>
     match_contraction c i \<noteq> None \<or> match_letters db c i mj \<noteq> None \<or> is_number db (c ! i) \<or>
     match_symbols db c i mj \<noteq> None \<or> match_ws_then_newline c i \<noteq> None \<or>
     match_ws_lookahead c i \<noteq> None \<or> match_whitespace c i \<noteq> None"

lemma some_alternative: "i < length c \<Longrightarrow> some_alternative db c i mj"
  by (auto simp: some_alternative_def match_letters_def match_symbols_def match_whitespace_def Let_def is_whitespace_def)

text \<open>C30. The pre-tokenizer cuts a text into pieces without losing anything: the byte ranges are
  non-empty, follow each other from the first byte to the last, lie on char boundaries, and the
  pieces they cut out put together are the text; and at every position one of the seven alternatives
  matches, so the fallback is never taken.\<close>

theorem pretokenize_tiles:
  "tiles 0 (str_len s) (pretokenize_with db s mj) \<and>
   (\<exists>pieces. map (\<lambda>(a, b). str_slice s a b) (pretokenize_with db s mj) = map Some pieces \<and> concat pieces = s) \<and>
   (\<forall>i < length s. some_alternative db s i mj)"
  using pretokenize_loop_tiles [of 0 s db mj] some_alternative by (simp add: pretokenize_with_def)

section \<open>Merging\<close>

lemma bpe_loop_normal: "best_pair tk (bpe_loop tk syms) = None"
proof (induction tk syms rule: bpe_loop.induct)
  case (1 tk syms)
  then show ?case by (subst bpe_loop.simps) (auto split: option.splits)
qed

lemma merge_at_nth:
  assumes "best_pair tk syms = Some (r, i)"
  obtains m where "map_of (merge tk) (syms ! i, syms ! (i + 1)) = Some (r, m)"
    and "merge_at tk i syms = take i syms @ [m] @ drop (i + 2) syms"
    and "syms = take i syms @ [syms ! i, syms ! (i + 1)] @ drop (i + 2) syms"
proof -
  from assms obtain m where m: "i + 1 < length syms" "map_of (merge tk) (syms ! i, syms ! (i + 1)) = Some (r, m)"
    by (rule best_pair_Some)
  have "syms = take i syms @ drop i syms" by simp
  also have "drop i syms = [syms ! i, syms ! (i + 1)] @ drop (i + 2) syms"
    using m(1) by (simp add: Cons_nth_drop_Suc [symmetric])
  finally show thesis using m by (intro that [of m]) (simp_all add: merge_at_def)
qed

text \<open>The tokenizer is total: every byte has its token, and a merge's token is its two parts.\<close>

definition tk_wf :: "Tokenizer \<Rightarrow> bool" where
  "tk_wf tk \<longleftrightarrow>
     length (byte_char_id tk) = 256 \<and>
     (\<forall>b < 256. token_str tk (byte_char_id tk ! b) = Some [byte_to_char_table ! b]) \<and>
     (\<forall>l r k m. map_of (merge tk) (l, r) = Some (k, m) \<longrightarrow>
        (\<exists>x y. token_str tk l = Some x \<and> token_str tk r = Some y \<and> token_str tk m = Some (x @ y))) \<and>
     char_to_byte tk = zip byte_to_char_table [0..<256] \<and>
     (\<forall>(tok, i) \<in> set (added tk). tok \<noteq> [] \<and> token_str tk i = Some tok \<and> (\<forall>c \<in> set tok. c < 128))"

lemma tk_wfD:
  assumes "tk_wf tk"
  shows "b < 256 \<Longrightarrow> token_str tk (byte_char_id tk ! b) = Some [byte_to_char_table ! b]"
    and "map_of (merge tk) (l, r) = Some (k, m) \<Longrightarrow>
      \<exists>x y. token_str tk l = Some x \<and> token_str tk r = Some y \<and> token_str tk m = Some (x @ y)"
    and "char_to_byte tk = zip byte_to_char_table [0..<256]"
    and "(tok, i) \<in> set (added tk) \<Longrightarrow> tok \<noteq> [] \<and> token_str tk i = Some tok \<and> (\<forall>c \<in> set tok. c < 128)"
  using assms unfolding tk_wf_def by blast+

definition ids_bytes :: "Tokenizer \<Rightarrow> nat list \<Rightarrow> nat list" where
  "ids_bytes tk ids = concat (map (token_bytes tk) ids)"

lemma ids_bytes_simps [simp]:
  "ids_bytes tk [] = []" "ids_bytes tk (i # ids) = token_bytes tk i @ ids_bytes tk ids"
  "ids_bytes tk (xs @ ys) = ids_bytes tk xs @ ids_bytes tk ys"
  by (simp_all add: ids_bytes_def)

lemma char_to_byte_table:
  assumes "tk_wf tk" and "b < 256"
  shows "map_of (char_to_byte tk) (byte_to_char_table ! b) = Some b"
proof -
  have "(byte_to_char_table ! b, [0..<256] ! b) \<in> set (zip byte_to_char_table [0..<256])"
    using assms(2) byte_table_nth(1) by (auto simp: set_zip)
  moreover have "distinct (map fst (zip byte_to_char_table [0..<256]))" using byte_table_distinct byte_table_nth(1) by simp
  ultimately show ?thesis using assms tk_wfD(3) [OF assms(1)] by (simp add: map_of_eq_Some_iff)
qed

lemma byte_token_bytes: "tk_wf tk \<Longrightarrow> b < 256 \<Longrightarrow> token_bytes tk (byte_char_id tk ! b) = [b]"
  by (simp add: token_bytes_def tk_wfD(1) char_bytes_def char_to_byte_table)

lemma merge_bytes:
  "tk_wf tk \<Longrightarrow> map_of (merge tk) (l, r) = Some (k, m) \<Longrightarrow> token_bytes tk m = token_bytes tk l @ token_bytes tk r"
  using tk_wfD(2) [of tk l r k m] by (auto simp: token_bytes_def)

lemma bpe_loop_bytes: "tk_wf tk \<Longrightarrow> ids_bytes tk (bpe_loop tk syms) = ids_bytes tk syms"
proof (induction tk syms rule: bpe_loop.induct)
  case (1 tk syms)
  show ?case
  proof (cases "best_pair tk syms")
    case (Some ri)
    obtain r i where ri: "ri = (r, i)" by fastforce
    with Some obtain m where m: "map_of (merge tk) (syms ! i, syms ! (i + 1)) = Some (r, m)"
      "merge_at tk i syms = take i syms @ [m] @ drop (i + 2) syms"
      "syms = take i syms @ [syms ! i, syms ! (i + 1)] @ drop (i + 2) syms" using merge_at_nth by metis
    have "ids_bytes tk (bpe_loop tk syms) = ids_bytes tk (merge_at tk i syms)"
      using "1.IH" [OF Some ri [symmetric]] "1.prems" Some ri by (subst bpe_loop.simps) simp
    also have "\<dots> = ids_bytes tk (take i syms @ [syms ! i, syms ! (i + 1)] @ drop (i + 2) syms)"
      using merge_bytes [OF "1.prems" m(1)] m(2) by simp
    finally show ?thesis unfolding m(3) [symmetric] .
  qed (simp add: bpe_loop.simps)
qed

lemma bpe_bytes:
  assumes "tk_wf tk" and "valid_str s" shows "ids_bytes tk (bpe tk s) = utf8 s"
proof -
  have "ids_bytes tk (map (\<lambda>b. byte_char_id tk ! b) bs) = bs" if "\<forall>b \<in> set bs. b < 256" for bs
    using that byte_token_bytes [OF assms(1)] by (induction bs) simp_all
  then show ?thesis using utf8_bytes [OF assms(2)] bpe_loop_bytes [OF assms(1)] by (auto simp: bpe_def Let_def)
qed

lemma bpe_loop_short: "length syms < 2 \<Longrightarrow> best_pair tk syms = None"
  by (simp add: best_pair_def)

text \<open>C31. The merge loop always ends, and ends in a normal form: of the symbols it returns no two
  neighbours can be merged, and on a well-formed tokenizer they still spell the bytes of the piece.\<close>

theorem bpe_normal_form:
  assumes "tk_wf tk" and "valid_str piece"
  shows "(\<forall>i. i + 1 < length (bpe tk piece) \<longrightarrow>
      map_of (merge tk) (bpe tk piece ! i, bpe tk piece ! (i + 1)) = None) \<and>
    concat (map (token_bytes tk) (bpe tk piece)) = utf8 piece"
proof -
  have "best_pair tk (bpe tk piece) = None" by (simp add: bpe_def Let_def bpe_loop_normal bpe_loop_short)
  then show ?thesis
    using best_pair_spec [of tk "bpe tk piece"] bpe_bytes [OF assms] by (simp add: is_best_def ids_bytes_def less_diff_conv)
qed

section \<open>Decoding what was encoded\<close>

lemma ascii_token_bytes:
  assumes "tk_wf tk" and "\<forall>c \<in> set tok. c < 128"
  shows "concat (map (char_bytes tk) tok) = utf8 tok"
proof -
  have "char_bytes tk c = utf8_char c" if "c < 128" for c
  proof (cases "c \<in> set printable")
    case True
    then have "map_of (char_to_byte tk) c = Some c"
      using char_to_byte_table [OF assms(1), of c] byte_table_nth(2) [of c] that by simp
    then show ?thesis using that by (simp add: char_bytes_def utf8_char_def)
  next
    case False
    have "c \<notin> set byte_to_char_table"
      using False that byte_table_nth by (auto simp: in_set_conv_nth split: if_splits)
    then have "map_of (char_to_byte tk) c = None"
      using tk_wfD(3) [OF assms(1)] byte_table_nth(1) by (auto simp: map_of_eq_None_iff dest: set_zip_leftD)
    then show ?thesis by (simp add: char_bytes_def)
  qed
  then show ?thesis using assms(2) by (induction tok) simp_all
qed

lemma bpe_pieces_bytes:
  assumes "tk_wf tk"
  shows "map (\<lambda>(a, b). str_slice s a b) rs = map Some ps \<Longrightarrow> \<forall>p \<in> set ps. valid_str p \<Longrightarrow>
    \<exists>ids. bpe_pieces tk s rs = Some ids \<and> ids_bytes tk ids = utf8 (concat ps)"
proof (induction rs arbitrary: ps)
  case (Cons r rs)
  then obtain p ps' where ps: "ps = p # ps'" by (cases ps) auto
  with Cons.prems Cons.IH [of ps'] obtain ids where
    "bpe_pieces tk s rs = Some ids" "ids_bytes tk ids = utf8 (concat ps')" by auto
  then show ?case using Cons.prems ps bpe_bytes [OF assms, of p] by (cases r) simp
qed simp

lemma encode_plain_bytes:
  assumes "tk_wf tk" and "valid_str s"
  shows "\<exists>ids. encode_plain db tk s out = Some (out @ ids) \<and> ids_bytes tk ids = utf8 s"
proof -
  obtain ps where ps: "map (\<lambda>(a, b). str_slice s a b) (pretokenize_with db s (marks_join_letters tk)) = map Some ps" "concat ps = s"
    using pretokenize_loop_tiles [of 0 s db "marks_join_letters tk"] by (auto simp: pretokenize_with_def)
  have "\<forall>p \<in> set ps. valid_str p" using assms(2) ps(2) by (auto simp: valid_str_def)
  from bpe_pieces_bytes [OF assms(1) ps(1) this] ps(2) show ?thesis by (auto simp: encode_plain_def)
qed

lemma flush_bytes:
  assumes "tk_wf tk" and "valid_str s"
  shows "\<exists>ids. flush db tk s out = Some (out @ ids) \<and> ids_bytes tk ids = utf8 s"
  using encode_plain_bytes [OF assms, of db out] by (cases "s = []") (simp_all add: flush_def)

lemma encode_loop_bytes:
  assumes "tk_wf tk"
  shows "valid_str rest \<Longrightarrow> valid_str plain \<Longrightarrow>
    \<exists>ids. encode_loop db tk rest plain out = Some (out @ ids) \<and> ids_bytes tk ids = utf8 (plain @ rest)"
proof (induction "length rest" arbitrary: rest plain out rule: less_induct)
  case less
  show ?case
  proof (cases rest)
    case Nil
    then show ?thesis using flush_bytes [OF assms less.prems(2), of db out] by (subst encode_loop.simps) auto
  next
    case (Cons c rest')
    show ?thesis
    proof (cases "List.find (\<lambda>(tok, _). starts_with rest tok) (added tk)")
      case None
      from less.hyps [of rest' "plain @ [c]" out] less.prems Cons
      obtain ids where "encode_loop db tk rest' (plain @ [c]) out = Some (out @ ids)" "ids_bytes tk ids = utf8 ((plain @ [c]) @ rest')"
        by auto
      then show ?thesis using Cons None by (subst encode_loop.simps) simp
    next
      case (Some hit)
      obtain tok i where hit: "hit = (tok, i)" by fastforce
      from Some hit have "(tok, i) \<in> set (added tk)" "starts_with rest tok"
        unfolding find_Some_iff by (metis nth_mem, auto)
      with tk_wfD(4) [OF assms] obtain rest' where tok: "tok \<noteq> []" "token_str tk i = Some tok" "\<forall>c \<in> set tok. c < 128" "rest = tok @ rest'"
        by (auto simp: starts_with_iff)
      obtain fl where fl: "flush db tk plain out = Some (out @ fl)" "ids_bytes tk fl = utf8 plain"
        using flush_bytes [OF assms less.prems(2)] by blast
      have "length rest' < length rest" "valid_str rest'" using tok(1,4) less.prems(1) by auto
      from less.hyps [OF this, of "[]" "(out @ fl) @ [i]"] obtain ids where
        ids: "encode_loop db tk rest' [] ((out @ fl) @ [i]) = Some (((out @ fl) @ [i]) @ ids)" "ids_bytes tk ids = utf8 rest'" by auto
      have "token_bytes tk i = utf8 tok" using tok(2) ascii_token_bytes [OF assms tok(3)] by (simp add: token_bytes_def)
      then show ?thesis using Some hit fl ids tok(4) Cons
        by (subst encode_loop.simps) (auto intro!: exI [of _ "fl @ i # ids"])
    qed
  qed
qed

text \<open>Normalised text is text again.\<close>

lemma hangul_parts_valid: "S_BASE \<le> c \<Longrightarrow> c < S_BASE + S_COUNT \<Longrightarrow> valid_str (hangul_parts c)"
  using hangul_index [of c] by (fastforce simp: is_syllable_def valid_char_def hangul_defs split: if_splits)

lemma decompose_one_valid:
  assumes "decompose_one db c = Some xs"
  shows "valid_char c \<longrightarrow> valid_str xs"
  by (rule decompose_one.raw_induct [OF _ assms, where P = "\<lambda>db c xs. valid_char c \<longrightarrow> valid_str xs"])
    (force simp: hangul_parts_valid char_from_u32_def bind_eq_Some_conv split: if_splits option.splits)

lemma decompose_all_valid: "decompose_all db s = Some d \<Longrightarrow> valid_str s \<Longrightarrow> valid_str d"
  by (induction s arbitrary: d) (auto simp: bind_eq_Some_conv dest: decompose_one_valid)

lemma valid_str_update: "valid_str s \<Longrightarrow> valid_char c \<Longrightarrow> valid_str (s[i := c])"
  using set_update_subset_insert [of s i c] by (auto simp: valid_str_def)

lemma compose_valid: "compose db a b = Some c \<Longrightarrow> valid_char c"
  by (auto simp: compose_def char_from_u32_def split: if_splits option.splits)

lemma compose_step_valid: "valid_str (cs_out st) \<Longrightarrow> valid_char ch \<Longrightarrow> valid_str (cs_out (compose_step db st ch))"
  by (auto simp: compose_step_def Let_def valid_str_update split: option.splits if_splits dest: compose_valid)

lemma compose_all_valid: "valid_str d \<Longrightarrow> d \<noteq> [] \<Longrightarrow> valid_str (compose_all db d)"
proof -
  have "valid_str (cs_out st) \<Longrightarrow> valid_str d \<Longrightarrow> valid_str (cs_out (foldl (compose_step db) st d))" for st d
    by (induction d arbitrary: st) (simp_all add: compose_step_valid)
  then show "valid_str d \<Longrightarrow> d \<noteq> [] \<Longrightarrow> ?thesis" by (cases d) (simp_all add: compose_all_def)
qed

lemma nfc_valid: "nfc db s = Some t \<Longrightarrow> valid_str s \<Longrightarrow> valid_str t"
proof -
  assume "nfc db s = Some t" and v: "valid_str s"
  then obtain d where d: "decompose_all db s = Some d" "t = (if d = [] then [] else compose_all db (canonical_order db d))"
    by (auto simp: nfc_def bind_eq_Some_conv split: if_splits)
  have m: "mset (canonical_order db d) = mset d" by (rule canonical_order_mset)
  then have "valid_str (canonical_order db d)" "d \<noteq> [] \<Longrightarrow> canonical_order db d \<noteq> []"
    using decompose_all_valid [OF d(1) v] mset_eq_setD [OF m] by (auto simp: valid_str_def)
  then show ?thesis using d(2) compose_all_valid by auto
qed

lemma decode_encode_wf:
  assumes "tk_wf tk" and "valid_str s" and "nfc db s = Some t"
  shows "\<exists>ids. encode db tk s = Some ids \<and> decode tk ids = t"
proof -
  have "valid_str t" by (rule nfc_valid [OF assms(3,2)])
  then show ?thesis
    using encode_loop_bytes [OF assms(1), of t "[]" db "[]"] lossy_utf8 [of t] assms(3)
    by (auto simp: encode_def decode_def ids_bytes_def)
qed

text \<open>C39. An added token with empty content hangs the encoder: the scan matches it without
  advancing, so encoding a text that starts with no other added token never returns.\<close>

theorem encode_empty_added_diverges:
  assumes "nfc db s = Some t" and "t \<noteq> []"
    and "List.find (\<lambda>(tok, _). starts_with t tok) (added tk) = Some ([], i)"
  shows "encode db tk s = None"
proof -
  have "\<not> (rest \<noteq> [] \<and> (\<exists>i. List.find (\<lambda>(tok, _). starts_with rest tok) (added tk) = Some ([], i)))"
    if "encode_loop db tk rest plain out = Some y" for rest plain out y
    by (rule encode_loop.raw_induct [OF _ that, where P = "\<lambda>db tk rest plain out y.
        \<not> (rest \<noteq> [] \<and> (\<exists>i. List.find (\<lambda>(tok, _). starts_with rest tok) (added tk) = Some ([], i)))"])
      (auto simp: bind_eq_Some_conv split: if_splits option.splits, blast)
  then have "encode_loop db tk t [] [] = None" using assms(2,3) by (metis not_None_eq)
  then show ?thesis using assms(1) by (simp add: encode_def)
qed

end
