(* ===== verification/Tokenizer_Load.thy ===== *)
theory Tokenizer_Load
  imports Tokenizer
begin

text \<open>
  Loading a tokenizer (\<open>Tokenizer::from_file\<close> and \<open>from_model_dir\<close> of \<open>gdn/src/tokenizer.rs\<close>): the
  tables built from \<open>tokenizer.json\<close>, every check of the declared pipeline as an error value, and the
  corrections of \<open>tokenizer_config.json\<close>. The JSON parser and printer are parameters, the file
  system is a partial map from paths to bytes, and \<open>order\<close> is the order in which the hash map of the
  vocabulary is iterated.
\<close>

section \<open>Errors and patterns\<close>

datatype tok_error =
    ReadFailed
  | BadJson
  | NoModel
  | NotBpe rstr
  | ByteFallback
  | UnkToken rstr
  | NoVocab
  | BadVocabId rstr
  | AddedNoContent
  | AddedNoId rstr
  | BytesMissing nat
  | NoMerges
  | MergeNoSpace nat
  | MergeNotPair nat
  | MergeShape nat
  | MergePartMissing nat rstr
  | MergeResultMissing nat
  | BadNormalizer rstr
  | NoPreTokenizer
  | NotSequence
  | PreTokenizerCount nat
  | NotRegexSplit
  | UnknownRegex rstr
  | NotByteLevel rstr
  | BadDecoder rstr

text \<open>A raw string; the backtick stands for the backslash.\<close>

definition raw :: "string \<Rightarrow> rstr" where
  "raw s = map (\<lambda>c. if c = 96 then 92 else c) (lit s)"

definition PRETOKENIZE_REGEX_WITH_MARKS :: rstr where
  "PRETOKENIZE_REGEX_WITH_MARKS = concat (map raw
     [''(?i:'s|'t|'re|'ve|'m|'ll|'d)'', ''|[^`r`n`p{L}`p{N}]?[`p{L}`p{M}]+'', ''|`p{N}'',
      ''| ?[^`s`p{L}`p{M}`p{N}]+[`r`n]*'', ''|`s*[`r`n]+'', ''|`s+(?!`S)'', ''|`s+''])"

definition PRETOKENIZE_REGEX_NO_MARKS :: rstr where
  "PRETOKENIZE_REGEX_NO_MARKS = concat (map raw
     [''(?i:'s|'t|'re|'ve|'m|'ll|'d)'', ''|[^`r`n`p{L}`p{N}]?`p{L}+'', ''|`p{N}'',
      ''| ?[^`s`p{L}`p{N}]+[`r`n]*'', ''|`s*[`r`n]+'', ''|`s+(?!`S)'', ''|`s+''])"

record TokenizerInfo =
  ti_model_type :: rstr
  ti_vocab_size :: nat
  ti_merges :: nat
  ti_added_tokens :: nat
  ti_normalizer :: rstr
  ti_pre_tokenizer :: rstr
  ti_decoder :: rstr
  ti_byte_characters_missing :: nat
  ti_pattern_variant :: rstr

section \<open>Reading the document\<close>

definition str_or_empty :: "'f json option \<Rightarrow> rstr" where
  "str_or_empty v = (case Option.bind v as_str of Some s \<Rightarrow> s | None \<Rightarrow> [])"

definition type_of_field :: "'f json \<Rightarrow> rstr \<Rightarrow> rstr" where
  "type_of_field v k = str_or_empty (Option.bind (jget v k) (\<lambda>x. jget x (lit ''type'')))"

definition load_model :: "'f json \<Rightarrow> tok_error + 'f json" where
  "load_model doc =
     try_bind (ok_or (jget doc (lit ''model'')) NoModel) (\<lambda>model.
     let model_type = str_or_empty (jget model (lit ''type'')) in
     guard_err (model_type \<noteq> lit ''BPE'') (NotBpe model_type) (
     guard_err (Option.bind (jget model (lit ''byte_fallback'')) as_bool = Some True) ByteFallback (
     case Option.bind (jget model (lit ''unk_token'')) as_str of
       Some unk \<Rightarrow> Inl (UnkToken unk)
     | None \<Rightarrow> Inr model)))"

primrec read_vocab ::
  "(rstr \<times> 'f json) list \<Rightarrow> (rstr \<times> nat) list \<Rightarrow> nat \<Rightarrow> tok_error + (rstr \<times> nat) list \<times> nat" where
  "read_vocab [] vocab max_id = Inr (vocab, max_id)"
| "read_vocab (e # kv) vocab max_id =
     try_bind (ok_or (as_u64 (snd e)) (BadVocabId (fst e))) (\<lambda>i.
     read_vocab kv (AList.update (fst e) (unat i mod 2 ^ 32) vocab) (max max_id (unat i)))"

definition load_vocab :: "'f json \<Rightarrow> tok_error + (rstr \<times> nat) list \<times> nat" where
  "load_vocab model =
     try_bind (ok_or (Option.bind (jget model (lit ''vocab'')) as_object) NoVocab) (\<lambda>kv. read_vocab kv [] 0)"

primrec read_added :: "'f json list \<Rightarrow> (rstr \<times> nat) list \<Rightarrow> nat \<Rightarrow> tok_error + (rstr \<times> nat) list \<times> nat" where
  "read_added [] out max_id = Inr (out, max_id)"
| "read_added (a # arr) out max_id =
     try_bind (ok_or (Option.bind (jget a (lit ''content'')) as_str) AddedNoContent) (\<lambda>content.
     try_bind (ok_or (Option.bind (jget a (lit ''id'')) as_u64) (AddedNoId content)) (\<lambda>i.
     read_added arr (out @ [(content, unat i mod 2 ^ 32)]) (max max_id (unat i))))"

definition load_added :: "'f json \<Rightarrow> nat \<Rightarrow> tok_error + (rstr \<times> nat) list \<times> nat" where
  "load_added doc max_id =
     try_bind (case Option.bind (jget doc (lit ''added_tokens'')) as_array of
         Some arr \<Rightarrow> read_added arr [] max_id
       | None \<Rightarrow> Inr ([], max_id)) (\<lambda>(out, max_id). Inr (sort_added out, max_id))"

definition set_token :: "rstr list \<times> bool list \<Rightarrow> rstr \<times> nat \<Rightarrow> rstr list \<times> bool list" where
  "set_token st e = ((fst st)[snd e := fst e], (snd st)[snd e := True])"

definition set_added_token :: "rstr list \<times> bool list \<Rightarrow> rstr \<times> nat \<Rightarrow> rstr list \<times> bool list" where
  "set_added_token st e = (if \<not> snd st ! snd e then set_token st e else st)"

definition fill_tokens :: "(rstr \<times> nat) list \<Rightarrow> (rstr \<times> nat) list \<Rightarrow> nat \<Rightarrow> rstr list" where
  "fill_tokens entries extra max_id =
     fst (foldl set_added_token
       (foldl set_token (replicate (max_id + 1) [], replicate (max_id + 1) False) entries) extra)"

definition byte_ids :: "(rstr \<times> nat) list \<Rightarrow> tok_error + nat list" where
  "byte_ids vocab =
     (let ids = map (\<lambda>b. map_of vocab [byte_to_char_table ! b]) [0..<256];
          missing = length (filter Option.is_none ids)
      in guard_err (0 < missing) (BytesMissing missing)
           (Inr (map (\<lambda>i. case i of Some i \<Rightarrow> i | None \<Rightarrow> 0) ids)))"

definition merge_parts :: "nat \<Rightarrow> 'f json \<Rightarrow> tok_error + rstr \<times> rstr" where
  "merge_parts rank m =
     (case as_str m of
        Some s \<Rightarrow> ok_or (split_once s (lit '' '')) (MergeNoSpace rank)
      | None \<Rightarrow>
          (case as_array m of
             Some pair \<Rightarrow>
               guard_err (length pair \<noteq> 2) (MergeNotPair rank)
                 (Inr (str_or_empty (Some (pair ! 0)), str_or_empty (Some (pair ! 1))))
           | None \<Rightarrow> Inl (MergeShape rank)))"

primrec read_merges ::
  "(rstr \<times> nat) list \<Rightarrow> nat \<Rightarrow> 'f json list \<Rightarrow> ((nat \<times> nat) \<times> (nat \<times> nat)) list \<Rightarrow>
   tok_error + ((nat \<times> nat) \<times> (nat \<times> nat)) list" where
  "read_merges vocab rank [] mg = Inr mg"
| "read_merges vocab rank (m # ms) mg =
     try_bind (merge_parts rank m) (\<lambda>(left, right).
     try_bind (ok_or (map_of vocab left) (MergePartMissing rank left)) (\<lambda>li.
     try_bind (ok_or (map_of vocab right) (MergePartMissing rank right)) (\<lambda>ri.
     try_bind (ok_or (map_of vocab (left @ right)) (MergeResultMissing rank)) (\<lambda>merged.
     read_merges vocab (rank + 1) ms (AList.update (li, ri) (rank mod 2 ^ 32, merged) mg)))))"

text \<open>The declared pipeline: normalizer, the two pre-tokenizers and the decoder.\<close>

definition check_pipeline :: "'f json \<Rightarrow> tok_error + bool \<times> rstr \<times> rstr \<times> rstr" where
  "check_pipeline doc =
     (let ntype = type_of_field doc (lit ''normalizer'') in
      guard_err (ntype \<noteq> lit ''NFC'') (BadNormalizer ntype) (
      try_bind (ok_or (jget doc (lit ''pre_tokenizer'')) NoPreTokenizer) (\<lambda>pre.
      try_bind (ok_or (Option.bind (jget pre (lit ''pretokenizers'')) as_array) NotSequence) (\<lambda>subs.
      guard_err (length subs \<noteq> 2) (PreTokenizerCount (length subs)) (
      try_bind (ok_or (Option.bind (Option.bind (jget (subs ! 0) (lit ''pattern'')) (\<lambda>p. jget p (lit ''Regex''))) as_str)
          NotRegexSplit) (\<lambda>regex.
      try_bind (if regex = PRETOKENIZE_REGEX_WITH_MARKS then Inr (True, lit ''with marks'')
                else if regex = PRETOKENIZE_REGEX_NO_MARKS then Inr (False, lit ''without marks'')
                else Inl (UnknownRegex regex)) (\<lambda>(marks_join, variant).
      let btype = str_or_empty (jget (subs ! 1) (lit ''type'')) in
      guard_err (btype \<noteq> lit ''ByteLevel'') (NotByteLevel btype) (
      let dtype = type_of_field doc (lit ''decoder'') in
      guard_err (dtype \<noteq> lit ''ByteLevel'') (BadDecoder dtype)
        (Inr (marks_join, variant, regex, dtype))))))))))"

definition from_doc ::
  "((rstr \<times> nat) list \<Rightarrow> (rstr \<times> nat) list) \<Rightarrow> ('f json \<Rightarrow> rstr) \<Rightarrow> 'f json \<Rightarrow> tok_error + Tokenizer \<times> TokenizerInfo" where
  "from_doc order show_json doc =
     try_bind (load_model doc) (\<lambda>model.
     try_bind (load_vocab model) (\<lambda>(vocab, max_id).
     try_bind (load_added doc max_id) (\<lambda>(extra, max_id).
     let tokens = fill_tokens (order vocab) extra max_id in
     try_bind (byte_ids vocab) (\<lambda>bytes.
     try_bind (ok_or (Option.bind (jget model (lit ''merges'')) as_array) NoMerges) (\<lambda>arr.
     try_bind (read_merges vocab 0 arr []) (\<lambda>mg.
     try_bind (check_pipeline doc) (\<lambda>(marks_join, variant, regex, dtype).
     Inr (\<lparr>byte_char_id = bytes, id_to_token = tokens, merge = mg, added = extra,
           char_to_byte = zip byte_to_char_table [0..<256], marks_join_letters = marks_join\<rparr>,
          \<lparr>ti_model_type = lit ''BPE'', ti_vocab_size = length vocab, ti_merges = length mg,
           ti_added_tokens = length extra,
           ti_normalizer = (case jget doc (lit ''normalizer'') of Some v \<Rightarrow> show_json v | None \<Rightarrow> lit ''null''),
           ti_pre_tokenizer = regex, ti_decoder = dtype, ti_byte_characters_missing = 0,
           ti_pattern_variant = variant\<rparr>))))))))"

definition from_file ::
  "(rstr \<Rightarrow> nat list option) \<Rightarrow> (nat list \<Rightarrow> 'f json option) \<Rightarrow> ((rstr \<times> nat) list \<Rightarrow> (rstr \<times> nat) list) \<Rightarrow>
   ('f json \<Rightarrow> rstr) \<Rightarrow> rstr \<Rightarrow> tok_error + Tokenizer \<times> TokenizerInfo" where
  "from_file fs from_slice order show_json path =
     try_bind (ok_or (fs path) ReadFailed) (\<lambda>raw_bytes.
     try_bind (ok_or (from_slice raw_bytes) BadJson) (\<lambda>doc. from_doc order show_json doc))"

text \<open>\<open>str::parse::<u32>\<close>.\<close>

definition parse_u32 :: "rstr \<Rightarrow> nat option" where
  "parse_u32 s =
     (let ds = (case s of c # r \<Rightarrow> if c = 43 then r else s | [] \<Rightarrow> s)
      in if ds \<noteq> [] \<and> list_all is_digit ds \<and> digits_nat ds < 2 ^ 32 then Some (digits_nat ds) else None)"

definition decoder_entry :: "rstr \<times> 'f json \<Rightarrow> (rstr \<times> nat) list" where
  "decoder_entry e =
     (case parse_u32 (fst e) of
        None \<Rightarrow> []
      | Some i \<Rightarrow>
          (case (case snd e of JStr s \<Rightarrow> Some s | other \<Rightarrow> Option.bind (jget other (lit ''content'')) as_str) of
             Some c \<Rightarrow> [(c, i)]
           | None \<Rightarrow> []))"

definition from_model_dir ::
  "(rstr \<Rightarrow> bool) \<Rightarrow> (rstr \<Rightarrow> nat list option) \<Rightarrow> (nat list \<Rightarrow> 'f json option) \<Rightarrow>
   ((rstr \<times> nat) list \<Rightarrow> (rstr \<times> nat) list) \<Rightarrow> ('f json \<Rightarrow> rstr) \<Rightarrow> (rstr \<Rightarrow> rstr \<Rightarrow> rstr) \<Rightarrow> rstr \<Rightarrow>
   tok_error + Tokenizer \<times> TokenizerInfo" where
  "from_model_dir path_exists fs from_slice order show_json join dir =
     try_bind (from_file fs from_slice order show_json (join dir (lit ''tokenizer.json''))) (\<lambda>(tk, info).
     let cfg_path = join dir (lit ''tokenizer_config.json'') in
     try_bind (if path_exists cfg_path then
         try_bind (ok_or (fs cfg_path) ReadFailed) (\<lambda>raw_bytes.
         try_bind (ok_or (from_slice raw_bytes) BadJson) (\<lambda>doc.
         let (tk, info) =
           (case Option.bind (jget doc (lit ''added_tokens_decoder'')) as_object of
              Some dec \<Rightarrow>
                let (tk, n) = absorb_added_tokens tk (concat (map decoder_entry dec))
                in (tk, info\<lparr>ti_added_tokens := ti_added_tokens info + n\<rparr>)
            | None \<Rightarrow> (tk, info))
         in Inr (tk, info, str_or_empty (jget doc (lit ''tokenizer_class'')))))
       else Inr (tk, info, [])) (\<lambda>(tk, info, cls).
     let tk = (if starts_with cls (lit ''Qwen2'') then set_marks_join_letters tk False else tk)
     in Inr (tk, info)))"

section \<open>A loaded tokenizer is well formed\<close>

text \<open>What a document has to provide beyond what the loader checks: no id names two tokens, and the
  added tokens are non-empty ASCII strings.\<close>

definition unambiguous :: "'f json \<Rightarrow> bool" where
  "unambiguous doc \<longleftrightarrow>
     (\<forall>model vocab n extra m. load_model doc = Inr model \<longrightarrow> load_vocab model = Inr (vocab, n) \<longrightarrow>
        load_added doc n = Inr (extra, m) \<longrightarrow>
        distinct (map snd vocab @ map snd extra) \<and> (\<forall>e \<in> set extra. fst e \<noteq> [] \<and> (\<forall>c \<in> set (fst e). c < 128)))"

lemma set_alist_update: "set (AList.update k v al) \<subseteq> insert (k, v) (set al)"
  by (induction al) auto

lemma read_vocab_bound:
  "read_vocab kv v m = Inr (v', m') \<Longrightarrow> \<forall>e \<in> set v. snd e \<le> m \<Longrightarrow> (\<forall>e \<in> set v'. snd e \<le> m') \<and> m \<le> m'"
proof (induction kv arbitrary: v m)
  case (Cons e kv)
  from Cons.prems(1) obtain i where i: "as_u64 (snd e) = Some i"
      "read_vocab kv (AList.update (fst e) (unat i mod 2 ^ 32) v) (max m (unat i)) = Inr (v', m')"
    by (auto simp: ok_or_def split: option.splits)
  have "unat i mod 2 ^ 32 \<le> max m (unat i)" using mod_less_eq_dividend [of "unat i" "2 ^ 32"] by linarith
  then have "\<forall>e \<in> set (AList.update (fst e) (unat i mod 2 ^ 32) v). snd e \<le> max m (unat i)"
    using set_alist_update [of "fst e" "unat i mod 2 ^ 32" v] Cons.prems(2) by fastforce
  from Cons.IH [OF i(2) this] show ?case by simp
qed simp

lemma read_added_bound:
  "read_added arr v m = Inr (v', m') \<Longrightarrow> \<forall>e \<in> set v. snd e \<le> m \<Longrightarrow> (\<forall>e \<in> set v'. snd e \<le> m') \<and> m \<le> m'"
proof (induction arr arbitrary: v m)
  case (Cons a arr)
  from Cons.prems(1) obtain c i where i: "read_added arr (v @ [(c, unat i mod 2 ^ 32)]) (max m (unat (i :: u64))) = Inr (v', m')"
    by (auto simp: ok_or_def split: option.splits)
  have "unat i mod 2 ^ 32 \<le> max m (unat i)" using mod_less_eq_dividend [of "unat i" "2 ^ 32"] by linarith
  then have "\<forall>e \<in> set (v @ [(c, unat i mod 2 ^ 32)]). snd e \<le> max m (unat i)" using Cons.prems(2) by fastforce
  from Cons.IH [OF i this] show ?case by simp
qed simp

lemma load_vocab_bound: "load_vocab model = Inr (vocab, n) \<Longrightarrow> e \<in> set vocab \<Longrightarrow> snd e \<le> n"
  using read_vocab_bound by (fastforce simp: load_vocab_def)

lemma load_added_bound:
  assumes "load_added doc n = Inr (extra, m)"
  shows "n \<le> m" and "e \<in> set extra \<Longrightarrow> snd e \<le> m"
proof -
  obtain out where out: "extra = sort_added out" "out = [] \<and> m = n \<or> (\<exists>arr :: 'a json list. read_added arr [] n = Inr (out, m))"
    using assms by (auto simp: load_added_def split: option.splits)
  then have "(\<forall>e \<in> set out. snd e \<le> m) \<and> n \<le> m" using read_added_bound [of _ "[]" n out m] by auto
  then show "n \<le> m" "e \<in> set extra \<Longrightarrow> snd e \<le> m" using out(1) by (auto simp: sort_added_def)
qed

lemma set_token_sel [simp]:
  "fst (set_token st e) = (fst st)[snd e := fst e]" "snd (set_token st e) = (snd st)[snd e := True]"
  by (simp_all add: set_token_def)

lemma length_set_tokens:
  "length (fst (foldl set_token st es)) = length (fst st)" "length (snd (foldl set_token st es)) = length (snd st)"
  by (induction es arbitrary: st) simp_all

lemma set_tokens:
  "distinct (map snd es) \<Longrightarrow> \<forall>e \<in> set es. snd e < length (fst st) \<Longrightarrow> length (snd st) = length (fst st) \<Longrightarrow>
   (\<forall>e \<in> set es. fst (foldl set_token st es) ! snd e = fst e) \<and>
   (\<forall>i. i \<notin> snd ` set es \<longrightarrow> fst (foldl set_token st es) ! i = fst st ! i \<and> snd (foldl set_token st es) ! i = snd st ! i)"
proof (induction es arbitrary: st)
  case (Cons e es)
  have "(\<forall>x \<in> set es. fst (foldl set_token (set_token st e) es) ! snd x = fst x) \<and>
      (\<forall>i. i \<notin> snd ` set es \<longrightarrow> fst (foldl set_token (set_token st e) es) ! i = fst (set_token st e) ! i \<and>
         snd (foldl set_token (set_token st e) es) ! i = snd (set_token st e) ! i)"
    by (rule Cons.IH) (use Cons.prems in auto)
  moreover have "snd e \<notin> snd ` set es" using Cons.prems(1) by simp
  ultimately show ?case using Cons.prems(2,3) by simp
qed simp

lemma set_added_tokens:
  "distinct (map snd es) \<Longrightarrow> \<forall>e \<in> set es. snd e < length (snd st) \<and> \<not> snd st ! snd e \<Longrightarrow>
   foldl set_added_token st es = foldl set_token st es"
proof (induction es arbitrary: st)
  case (Cons e es)
  have "snd e \<notin> snd ` set es" using Cons.prems(1) by simp
  then have ne: "\<forall>x \<in> set es. snd e \<noteq> snd x" by (metis imageI)
  have "foldl set_added_token (set_token st e) es = foldl set_token (set_token st e) es"
    by (rule Cons.IH) (use Cons.prems ne in \<open>auto simp: nth_update_if\<close>)
  moreover have "set_added_token st e = set_token st e" using Cons.prems(2) by (simp add: set_added_token_def)
  ultimately show ?case by simp
qed simp

lemma fill_tokens_nth:
  assumes "distinct (map snd entries @ map snd extra)" and "\<forall>e \<in> set (entries @ extra). snd e \<le> m"
    and "e \<in> set (entries @ extra)"
  shows "get (fill_tokens entries extra m) (snd e) = Some (fst e)"
proof -
  let ?init = "(replicate (m + 1) [] :: rstr list, replicate (m + 1) False)"
  let ?st = "foldl set_token ?init entries"
  have b: "\<forall>e \<in> set entries. snd e < length (fst ?init)" "\<forall>e \<in> set extra. snd e < m + 1" using assms(2) by (auto simp: less_Suc_eq_le)
  have "\<not> snd ?st ! snd e" if "e \<in> set extra" for e
  proof -
    have "snd e \<notin> snd ` set entries" using that assms(1) by auto
    moreover have "distinct (map snd entries)" using assms(1) by simp
    ultimately have "snd ?st ! snd e = snd ?init ! snd e" using set_tokens [of entries ?init] b(1) by simp
    then show ?thesis using b(2) that by (simp del: replicate_Suc)
  qed
  then have "foldl set_added_token ?st extra = foldl set_token ?st extra"
    using assms(1) b(2) by (intro set_added_tokens) (auto simp: length_set_tokens)
  then have fill: "fill_tokens entries extra m = fst (foldl set_token ?init (entries @ extra))"
    by (simp add: fill_tokens_def)
  moreover have "snd e < m + 1" using assms(2,3) by (auto simp: less_Suc_eq_le)
  ultimately show ?thesis
    using set_tokens [of "entries @ extra" ?init] assms b length_set_tokens(1) [of ?init "entries @ extra"]
    by (auto simp: get_def less_Suc_eq_le)
qed

text \<open>The merge table, in terms of the vocabulary.\<close>

definition merges_ok :: "(rstr \<times> nat) list \<Rightarrow> ((nat \<times> nat) \<times> (nat \<times> nat)) list \<Rightarrow> bool" where
  "merges_ok vocab mg \<longleftrightarrow> (\<forall>l r k m. map_of mg (l, r) = Some (k, m) \<longrightarrow>
     (\<exists>x y. map_of vocab x = Some l \<and> map_of vocab y = Some r \<and> map_of vocab (x @ y) = Some m))"

lemma read_merges_ok: "read_merges vocab rank arr mg = Inr mg' \<Longrightarrow> merges_ok vocab mg \<Longrightarrow> merges_ok vocab mg'"
proof (induction arr arbitrary: rank mg)
  case (Cons a arr)
  from Cons.prems(1) obtain left right li ri m where
    parts: "map_of vocab left = Some li" "map_of vocab right = Some ri" "map_of vocab (left @ right) = Some m"
    and rest: "read_merges vocab (rank + 1) arr (AList.update (li, ri) (rank mod 2 ^ 32, m) mg) = Inr mg'"
    by (auto simp: ok_or_def split: option.splits prod.splits)
  have "merges_ok vocab (AList.update (li, ri) (rank mod 2 ^ 32, m) mg)"
    using Cons.prems(2) parts by (auto simp: merges_ok_def update_conv split: if_splits)
  from Cons.IH [OF rest this] show ?case .
qed simp

lemma byte_ids_ok:
  assumes "byte_ids vocab = Inr ids"
  shows "length ids = 256" and "b < 256 \<Longrightarrow> map_of vocab [byte_to_char_table ! b] = Some (ids ! b)"
proof -
  let ?l = "map (\<lambda>b. map_of vocab [byte_to_char_table ! b]) [0..<256]"
  have ids: "filter Option.is_none ?l = []" "ids = map (\<lambda>i. case i of Some i \<Rightarrow> i | None \<Rightarrow> 0) ?l"
    using assms by (auto simp: byte_ids_def Let_def)
  show "length ids = 256" using ids(2) by simp
  assume b: "b < 256"
  then have "?l ! b \<in> set ?l" by (intro nth_mem) simp
  then have "\<not> Option.is_none (?l ! b)" using ids(1) by (auto simp: filter_empty_conv simp del: set_map nth_map)
  then show "map_of vocab [byte_to_char_table ! b] = Some (ids ! b)"
    using b ids(2) by (auto simp: Option.is_none_def split: option.splits)
qed

lemma from_doc_wf:
  assumes "from_doc order show_json doc = Inr (tk, info)" and "unambiguous doc"
    and "\<And>v. mset (order v) = mset v"
  shows "tk_wf tk"
proof -
  note open_doc = from_doc_def Let_def
  obtain model where lm: "load_model doc = Inr model" using assms(1) by (cases "load_model doc") (auto simp: open_doc)
  obtain vocab n where lv: "load_vocab model = Inr (vocab, n)" using assms(1) lm by (cases "load_vocab model") (auto simp: open_doc)
  obtain extra m where la: "load_added doc n = Inr (extra, m)"
    using assms(1) lm lv by (cases "load_added doc n") (auto simp: open_doc)
  obtain bytes where lb: "byte_ids vocab = Inr bytes" using assms(1) lm lv la by (cases "byte_ids vocab") (auto simp: open_doc)
  obtain arr where arr: "ok_or (Option.bind (jget model (lit ''merges'')) as_array) NoMerges = Inr arr"
    using assms(1) lm lv la lb
    by (cases "ok_or (Option.bind (jget model (lit ''merges'')) as_array) NoMerges") (simp_all add: open_doc del: lit_simps)
  obtain mg where lg: "read_merges vocab 0 arr [] = Inr mg"
    using assms(1) lm lv la lb arr by (cases "read_merges vocab 0 arr []") (simp_all add: open_doc del: lit_simps)
  obtain mj vr rx dt where "check_pipeline doc = Inr (mj, vr, rx, dt)"
    using assms(1) lm lv la lb arr lg by (cases "check_pipeline doc") (auto simp: open_doc simp del: lit_simps)
  then have tk: "tk = \<lparr>byte_char_id = bytes, id_to_token = fill_tokens (order vocab) extra m, merge = mg, added = extra,
           char_to_byte = zip byte_to_char_table [0..<256], marks_join_letters = mj\<rparr>"
    using assms(1) lm lv la lb arr lg by (simp add: open_doc del: lit_simps)
  note load = lm lv la lb lg
  have amb: "distinct (map snd vocab @ map snd extra)" "\<forall>e \<in> set extra. fst e \<noteq> [] \<and> (\<forall>c \<in> set (fst e). c < 128)"
    using assms(2) load(1-3) unfolding unambiguous_def by blast+
  have o: "set (order vocab) = set vocab" "mset (map snd (order vocab)) = mset (map snd vocab)"
    using assms(3) [of vocab] by (auto dest: mset_eq_setD)
  have "distinct (map snd (order vocab) @ map snd extra)"
    using amb(1) o mset_eq_imp_distinct_iff [OF o(2)] by (auto simp: image_iff)
  then have tok: "token_str tk (snd e) = Some (fst e)" if "e \<in> set (vocab @ extra)" for e
    using fill_tokens_nth [of "order vocab" extra m e] that o(1) load_vocab_bound [OF load(2)] load_added_bound [OF load(3)] tk
    by (fastforce simp: token_str_def)
  have voc: "map_of vocab x = Some i \<Longrightarrow> token_str tk i = Some x" for x i
    using tok [of "(x, i)"] by (auto dest: map_of_SomeD)
  have "merges_ok vocab mg" using read_merges_ok [OF load(5)] by (simp add: merges_ok_def)
  then have "\<forall>l r k m. map_of mg (l, r) = Some (k, m) \<longrightarrow>
      (\<exists>x y. token_str tk l = Some x \<and> token_str tk r = Some y \<and> token_str tk m = Some (x @ y))"
    unfolding merges_ok_def using voc by meson
  moreover have "\<forall>b < 256. token_str tk (bytes ! b) = Some [byte_to_char_table ! b]"
    using byte_ids_ok(2) [OF load(4)] voc by blast
  moreover have "\<forall>(t, i) \<in> set extra. t \<noteq> [] \<and> token_str tk i = Some t \<and> (\<forall>c \<in> set t. c < 128)"
    using amb(2) tok by fastforce
  ultimately show ?thesis using byte_ids_ok(1) [OF load(4)] by (simp add: tk_wf_def tk)
qed

text \<open>C14. Encoding loses nothing but the normalisation: a tokenizer the loader accepts, from a document
  in which no id names two tokens and the added tokens are non-empty ASCII, encodes every text whose
  normal form exists, and decoding the ids gives exactly that normal form. The iteration order of the
  vocabulary's hash map does not matter.\<close>

theorem loaded_tokenizer_roundtrip:
  assumes "from_doc order show_json doc = Inr (tk, info)" and "unambiguous doc"
    and "\<And>v. mset (order v) = mset v" and "valid_str s" and "nfc db s = Some t"
  shows "\<exists>ids. encode db tk s = Some ids \<and> decode tk ids = t"
  using decode_encode_wf [OF from_doc_wf [OF assms(1-3)] assms(4,5)] .

section \<open>Witnesses\<close>

text \<open>A byte-level vocabulary with one merge and one added token.\<close>

definition ex_entries :: "(rstr \<times> nat) list" where
  "ex_entries = map (\<lambda>b. ([byte_to_char_table ! b], b)) [0..<256] @ [(lit ''ab'', 256)]"

definition ex_doc :: "unit json" where
  "ex_doc = JObj
     [(lit ''model'', JObj [(lit ''type'', JStr (lit ''BPE'')),
        (lit ''vocab'', JObj (map (\<lambda>(t, i). (t, JNum (PosInt (word_of_nat i)))) ex_entries)),
        (lit ''merges'', JArr [JStr (lit ''a b'')])]),
      (lit ''added_tokens'', JArr [JObj [(lit ''content'', JStr (lit ''<e>'')), (lit ''id'', JNum (PosInt 257))]]),
      (lit ''normalizer'', JObj [(lit ''type'', JStr (lit ''NFC''))]),
      (lit ''pre_tokenizer'', JObj [(lit ''pretokenizers'',
         JArr [JObj [(lit ''pattern'', JObj [(lit ''Regex'', JStr PRETOKENIZE_REGEX_WITH_MARKS)])],
               JObj [(lit ''type'', JStr (lit ''ByteLevel''))]])]),
      (lit ''decoder'', JObj [(lit ''type'', JStr (lit ''ByteLevel''))])]"

lemma update_fresh: "k \<notin> fst ` set al \<Longrightarrow> AList.update k v al = al @ [(k, v)]"
  by (induction al) auto

lemma read_vocab_entries:
  "distinct (map fst (v @ es)) \<Longrightarrow> \<forall>e \<in> set es. snd e < 2 ^ 32 \<Longrightarrow>
   \<exists>m'. read_vocab (map (\<lambda>(t, i). (t, JNum (PosInt (word_of_nat i)) :: 'f json)) es) v m = Inr (v @ es, m')"
proof (induction es arbitrary: v m)
  case (Cons e es)
  obtain t i where e: "e = (t, i)" by fastforce
  have u: "unat (word_of_nat i :: u64) = i" using Cons.prems(2) e by (simp add: unat_of_nat take_bit_nat_eq_self)
  have "AList.update t i v = v @ [(t, i)]" using Cons.prems(1) e by (intro update_fresh) auto
  moreover have "\<exists>m'. read_vocab (map (\<lambda>(t, i). (t, JNum (PosInt (word_of_nat i)) :: 'f json)) es) (v @ [(t, i)]) (max m i) = Inr ((v @ [(t, i)]) @ es, m')"
    by (rule Cons.IH) (use Cons.prems e in auto)
  ultimately show ?case using Cons.prems(2) e u by (simp add: ok_or_def)
qed simp

lemma ex_entries_ok: "distinct (map fst ex_entries)" "\<forall>e \<in> set ex_entries. snd e < 257" "distinct (map snd ex_entries)"
    "b < 256 \<Longrightarrow> map_of ex_entries [byte_to_char_table ! b] = Some b"
proof -
  have "inj_on (\<lambda>b. [byte_to_char_table ! b]) {0..<256}"
    using byte_table_distinct byte_table_nth(1) by (auto simp: inj_on_def nth_eq_iff_index_eq)
  then show d: "distinct (map fst ex_entries)" by (auto simp: ex_entries_def distinct_map o_def)
  show "\<forall>e \<in> set ex_entries. snd e < 257" "distinct (map snd ex_entries)" by (auto simp: ex_entries_def distinct_map o_def inj_on_def)
  assume "b < 256"
  then show "map_of ex_entries [byte_to_char_table ! b] = Some b"
    using d by (intro map_of_is_SomeI) (auto simp: ex_entries_def)
qed

lemma ex_map_of: "map_of ex_entries [97] = Some 97" "map_of ex_entries [98] = Some 98" "map_of ex_entries [97, 98] = Some 256"
proof -
  have "97 \<in> set printable" "98 \<in> set printable" by (simp_all add: printable_def)
  then show "map_of ex_entries [97] = Some 97" "map_of ex_entries [98] = Some 98"
    using ex_entries_ok(4) [of 97] ex_entries_ok(4) [of 98] byte_table_nth(2) [of 97] byte_table_nth(2) [of 98] by simp_all
  show "map_of ex_entries [97, 98] = Some 256"
    using ex_entries_ok(1) by (intro map_of_is_SomeI) (auto simp: ex_entries_def)
qed

lemma ex_loads:
  obtains tk info where "from_doc id (\<lambda>_. []) ex_doc = Inr (tk, info)" and "unambiguous ex_doc"
proof -
  let ?model = "JObj [(lit ''type'', JStr (lit ''BPE'')),
        (lit ''vocab'', JObj (map (\<lambda>(t, i). (t, JNum (PosInt (word_of_nat i)))) ex_entries)),
        (lit ''merges'', JArr [JStr (lit ''a b'')])] :: unit json"
  have lm: "load_model ex_doc = Inr ?model" by (simp add: load_model_def ex_doc_def Let_def str_or_empty_def ok_or_def)
  have "\<forall>e \<in> set ex_entries. snd e < 2 ^ 32" using ex_entries_ok(2) by fastforce
  then obtain n where lv: "load_vocab ?model = Inr (ex_entries, n)"
    using read_vocab_entries [of "[]" ex_entries 0] ex_entries_ok(1) by (auto simp: load_vocab_def ok_or_def)
  have la: "load_added ex_doc n = Inr ([(lit ''<e>'', 257)], max n 257)"
    by (simp add: load_added_def ex_doc_def ok_or_def sort_added_def)
  have ids: "byte_ids ex_entries = Inr (map (\<lambda>i. case i of Some i \<Rightarrow> i | None \<Rightarrow> 0) (map (\<lambda>b. map_of ex_entries [byte_to_char_table ! b]) [0..<256]))"
    using ex_entries_ok(4) by (auto simp: byte_ids_def Let_def guard_err_def filter_empty_conv Option.is_none_def)
  have mg: "read_merges ex_entries 0 [JStr (lit ''a b'') :: unit json] [] = Inr [((97, 98), (0, 256))]"
    by (simp add: merge_parts_def split_once_def starts_with_def ok_or_def ex_map_of)
  have marr: "ok_or (Option.bind (jget ?model (lit ''merges'')) as_array) NoMerges = Inr [JStr (lit ''a b'')]"
    by (simp add: ok_or_def)
  obtain vr rx dt where pipe: "check_pipeline ex_doc = Inr (True, vr, rx, dt)"
    by (simp add: check_pipeline_def ex_doc_def type_of_field_def str_or_empty_def ok_or_def Let_def)
  have "unambiguous ex_doc"
    using lm lv la ex_entries_ok(2,3) by (auto simp: unambiguous_def simp del: lit_simps) auto
  moreover have "\<exists>tk info. from_doc id (\<lambda>_. []) ex_doc = Inr (tk, info)"
    using lm lv la ids mg marr pipe by (simp add: from_doc_def Let_def del: lit_simps read_merges.simps)
  ultimately show thesis using that by blast
qed

lemma ex_nfc: "nfc ex_db [97, 98] = Some [97, 98]" "nfc ex_db [72] = Some [72]"
proof -
  have one: "decompose_one ex_db c = Some [c]" if "c < 128" for c
    using that by (subst decompose_one.simps) (auto simp: ex_db_def hangul_defs)
  have "ccc ex_db c = 0" if "c < 128" for c using that by (simp add: ccc_def ex_db_def)
  moreover have "compose ex_db 97 98 = None" by (simp add: compose_def ex_db_def hangul_defs)
  ultimately show "nfc ex_db [97, 98] = Some [97, 98]" "nfc ex_db [72] = Some [72]"
    by (simp_all add: nfc_def one canonical_order_def compose_all_def compose_step_def Let_def)
qed

theorem loaded_tokenizer_roundtrip_witness:
  "\<exists>tk info ids. from_doc id (\<lambda>_. []) ex_doc = Inr (tk, info) \<and> encode ex_db tk [97, 98] = Some ids \<and> decode tk ids = [97, 98]"
proof -
  obtain tk info where load: "from_doc id (\<lambda>_. []) ex_doc = Inr (tk, info)" and un: "unambiguous ex_doc" by (rule ex_loads)
  have "valid_str [97, 98]" by (simp add: valid_char_def)
  from loaded_tokenizer_roundtrip [OF load un _ this ex_nfc(1)] load show ?thesis by simp
qed

theorem pretokenize_tiles_witness:
  "tiles 0 5 (pretokenize_with ex_db [97, 32, 233, 33] True) \<and> some_alternative ex_db [97, 32, 233, 33] 2 True"
  using pretokenize_tiles [of "[97, 32, 233, 33]" ex_db True] by (simp add: char_len_utf8_def)

theorem bpe_normal_form_witness:
  "\<exists>tk. tk_wf tk \<and> concat (map (token_bytes tk) (bpe tk [97, 98])) = [97, 98]"
proof -
  obtain tk info where load: "from_doc id (\<lambda>_. []) ex_doc = Inr (tk, info)" and un: "unambiguous ex_doc" by (rule ex_loads)
  have wf: "tk_wf tk" by (rule from_doc_wf [OF load un]) simp
  have "valid_str [97, 98]" by (simp add: valid_char_def)
  from bpe_normal_form [OF wf this] wf show ?thesis by (auto simp: utf8_char_def)
qed

theorem encode_empty_added_diverges_witness:
  "encode ex_db \<lparr>byte_char_id = [], id_to_token = [[]], merge = [], added = [([], 0)], char_to_byte = [], marks_join_letters = True\<rparr> [72] = None"
  by (rule encode_empty_added_diverges [OF ex_nfc(2), of _ 0]) (simp_all add: starts_with_def)

end
