(* ===== verification/Chat_Valid.thy ===== *)
theory Chat_Valid
  imports Chatparse Tokenizer_Load
begin

text \<open>
  Text stays text: everything the conversation hands from one component to the next is a valid
  \<open>str\<close>. What \<open>decode\<close> returns, what the reply parser cuts out of it, what the template renders from
  valid messages; and a valid text over tables whose decompositions end is encoded to tokens of the
  vocabulary. These are the facts by which the loop of \<open>qwenrun\<close> can call the components in turn.
\<close>

section \<open>Valid pieces\<close>

lemma valid_str_lit [simp]: "valid_str (lit s)"
proof -
  have "(of_char c :: nat) < 256" for c by (cases c) simp
  then have "(of_char c :: nat) < 0xD800" for c by (rule less_le_trans) simp
  then show ?thesis by (auto simp: valid_str_def lit_def valid_char_def)
qed

lemma valid_str_subset: "valid_str s \<Longrightarrow> set t \<subseteq> set s \<Longrightarrow> valid_str t"
  by (auto simp: valid_str_def)

lemma trim_subset:
  "set (trim_start_matches P s) \<subseteq> set s" "set (trim_end_matches P s) \<subseteq> set s" "set (trim_matches P s) \<subseteq> set s"
proof -
  show start: "set (trim_start_matches P s) \<subseteq> set s" for s by (auto simp: trim_start_matches_def dest: set_dropWhileD)
  show rear: "set (trim_end_matches P s) \<subseteq> set s" for s by (auto simp: trim_end_matches_def dest: set_dropWhileD)
  show "set (trim_matches P s) \<subseteq> set s" using start rear by (auto simp: trim_matches_def)
qed

lemma jinja_trim_subset: "set (jinja_trim s) \<subseteq> set s"
  by (simp add: jinja_trim_def trim_subset)

lemma split_once_subset: "split_once s p = Some (a, b) \<Longrightarrow> set a \<subseteq> set s \<and> set b \<subseteq> set s"
  by (auto simp: split_once_def dest: in_set_takeD in_set_dropD split: option.splits)

lemma valid_cuts:
  assumes "valid_str s"
  shows "valid_str (trim_start_matches P s)" "valid_str (trim_end_matches P s)" "valid_str (trim_matches P s)"
    "valid_str (jinja_trim s)" "valid_str (take n s)" "valid_str (drop n s)"
  by (rule valid_str_subset [OF assms], rule trim_subset jinja_trim_subset set_take_subset set_drop_subset)+

lemma valid_parts:
  assumes "valid_str s"
  shows "split_once s p = Some (a, b) \<Longrightarrow> valid_str a \<and> valid_str b"
    and "strip_prefix s p = Some r \<Longrightarrow> valid_str r" and "strip_suffix s p = Some r \<Longrightarrow> valid_str r"
proof -
  show "split_once s p = Some (a, b) \<Longrightarrow> valid_str a \<and> valid_str b"
    by (auto dest: split_once_subset intro: valid_str_subset [OF assms])
  show "strip_prefix s p = Some r \<Longrightarrow> valid_str r" "strip_suffix s p = Some r \<Longrightarrow> valid_str r"
    using valid_cuts(5,6) [OF assms] by (auto simp: strip_prefix_def strip_suffix_def split: if_splits)
qed

lemma valid_splits:
  assumes "valid_str s" shows "valid_str (split_first s p)" "valid_str (rsplit_first s p)"
  using assms by (auto simp: split_first_def rsplit_first_def valid_str_def split: option.splits dest: in_set_takeD in_set_dropD)

section \<open>Decoded text\<close>

lemma utf8_head_valid: "utf8_head bs = (Some c, k) \<Longrightarrow> valid_char c"
  by (auto simp: utf8_head_def Let_def valid_char_def is_cont_def split: if_splits; arith)

lemma from_utf8_lossy_valid: "valid_str (from_utf8_lossy bs)"
proof (induction bs rule: from_utf8_lossy.induct)
  case (1 bs)
  then show ?case
    by (subst from_utf8_lossy.simps) (auto simp: valid_char_def [of "0xFFFD"] split: prod.splits option.splits dest: utf8_head_valid)
qed

lemma decode_valid: "valid_str (decode tk ids)"
  by (simp add: decode_def from_utf8_lossy_valid)

section \<open>A parsed reply\<close>

definition valid_call :: "TextCall \<Rightarrow> bool" where
  "valid_call c \<longleftrightarrow> valid_str (tc_name c) \<and> list_all (\<lambda>(k, v). valid_str k \<and> valid_str v) (tc_arguments c)"

definition valid_reply :: "Reply \<Rightarrow> bool" where
  "valid_reply rp \<longleftrightarrow> valid_str (rp_content rp) \<and> (case rp_reasoning rp of Some r \<Rightarrow> valid_str r | None \<Rightarrow> True) \<and>
     list_all valid_call (rp_tool_calls rp)"

lemma split_value_valid: "split_value r = Some (a, b) \<Longrightarrow> valid_str r \<Longrightarrow> valid_str a \<and> valid_str b"
  by (auto simp: split_value_def split: option.splits dest: valid_parts(1))

lemma parse_params_valid:
  "parse_params rest args = Inr out \<Longrightarrow> valid_str rest \<Longrightarrow> list_all (\<lambda>(k, v). valid_str k \<and> valid_str v) args \<Longrightarrow>
   list_all (\<lambda>(k, v). valid_str k \<and> valid_str v) out"
proof (induction rest args rule: parse_params.induct)
  case (1 rest args)
  show ?case
  proof (cases "rest = []")
    case False
    with "1.prems"(1) obtain r key r' v r'' where
      "strip_prefix rest PARAM_OPEN = Some r" "split_once r [62, 10] = Some (key, r')" "split_value r' = Some (v, r'')"
      "parse_params (trim_start_matches nl r'') (args @ [(key, v)]) = Inr out"
      by (subst (asm) parse_params.simps) (auto split: option.splits)
    note cut = this
    have "valid_str r" by (rule valid_parts(2) [OF "1.prems"(2) cut(1)])
    then have "valid_str key \<and> valid_str r'" by (rule valid_parts(1) [OF _ cut(2)])
    moreover from this have "valid_str v \<and> valid_str r''" using split_value_valid [OF cut(3)] by blast
    ultimately show ?thesis using "1.IH" [OF False cut(1,2) refl cut(3) refl cut(4)] "1.prems"(3) valid_cuts(1) by simp
  qed (use "1.prems" in \<open>simp add: parse_params.simps\<close>)
qed

lemma parse_one_valid:
  assumes "parse_one body = Inr c" and "valid_str body" shows "valid_call c"
proof -
  obtain r name r' r'' args where cut: "strip_prefix (trim_matches nl body) FUNC_OPEN = Some r"
    "split_once r [62, 10] = Some (name, r')" "strip_suffix (trim_end_matches nl r') FUNC_CLOSE = Some r''"
    "parse_params (trim_matches nl r'') [] = Inr args" "c = \<lparr>tc_name = name, tc_arguments = args\<rparr>"
    using assms(1) by (auto simp: parse_one_def Let_def try_bind_Inr split: option.splits if_splits)
  have "valid_str r" by (rule valid_parts(2) [OF valid_cuts(3) cut(1)]) (rule assms(2))
  then have name: "valid_str name \<and> valid_str r'" by (rule valid_parts(1) [OF _ cut(2)])
  then have "valid_str r''" by (intro valid_parts(3) [OF valid_cuts(2) cut(3)]) simp
  then show ?thesis using parse_params_valid [OF cut(4) valid_cuts(3)] name cut(5) by (simp add: valid_call_def)
qed

lemma parse_tool_calls_valid:
  "parse_tool_calls rest out = Inr cs \<Longrightarrow> valid_str rest \<Longrightarrow> list_all valid_call out \<Longrightarrow> list_all valid_call cs"
proof (induction rest out rule: parse_tool_calls.induct)
  case (1 rest out)
  show ?case
  proof (cases "find_sub rest TOOL_OPEN")
    case (Some start)
    let ?after = "drop (start + length TOOL_OPEN) rest"
    from "1.prems"(1) Some obtain stop c where c: "find_sub ?after TOOL_CLOSE = Some stop"
      "parse_one (trim_matches nl (take stop ?after)) = Inr c"
      "parse_tool_calls (drop (stop + length TOOL_CLOSE) ?after) (out @ [c]) = Inr cs"
      by (subst (asm) parse_tool_calls.simps) (auto simp: Let_def split: option.splits)
    have "valid_str ?after" using "1.prems"(2) by (rule valid_cuts(6))
    then have "valid_call c" "valid_str (drop (stop + length TOOL_CLOSE) ?after)"
      using parse_one_valid [OF c(2)] valid_cuts(3,5,6) by blast+
    with "1.IH" [OF Some refl c(1) c(2) c(3)] "1.prems"(3) show ?thesis by simp
  qed (use "1.prems" in \<open>simp add: parse_tool_calls.simps\<close>)
qed

lemma parse_assistant_valid:
  assumes "parse_assistant s = Inr rp" and "valid_str s"
  shows "valid_reply rp"
proof -
  obtain re body where sp: "split_think s = (re, body)" by fastforce
  then have v: "valid_str body" "case re of Some r \<Rightarrow> valid_str r | None \<Rightarrow> True"
    using assms(2) valid_parts(1) [OF assms(2), of THINK_CLOSE]
    by (auto simp: split_think_def split: option.splits intro!: valid_cuts valid_splits)
  show ?thesis
  proof (cases "parse_tool_calls body []")
    case (Inr cs)
    with parse_tool_calls_valid [OF Inr v(1)] v assms(1) sp show ?thesis
      by (auto simp: parse_assistant_def valid_reply_def Let_def intro!: valid_cuts(4) valid_cuts(5))
  next
    case (Inl e)
    with v assms(1) sp show ?thesis
      by (cases e) (auto simp: parse_assistant_def valid_reply_def Let_def intro: valid_cuts)
  qed
qed

section \<open>Rendered text\<close>

definition valid_value :: "'g Value \<Rightarrow> bool" where
  "valid_value v \<longleftrightarrow> (case v of VStr s \<Rightarrow> valid_str s | _ \<Rightarrow> False)"

definition valid_function_call :: "'g FunctionCall \<Rightarrow> bool" where
  "valid_function_call c \<longleftrightarrow> valid_str (fc_name c) \<and> list_all (\<lambda>(k, v). valid_str k \<and> valid_value v) (fc_arguments c)"

text \<open>A message of text; the arguments of its calls are strings, as those of a parsed reply are.\<close>

definition valid_message :: "'g Message \<Rightarrow> bool" where
  "valid_message m \<longleftrightarrow> (case content m of CText t \<Rightarrow> valid_str t | _ \<Rightarrow> False) \<and>
     (case reasoning m of Some r \<Rightarrow> valid_str r | None \<Rightarrow> True) \<and> list_all valid_function_call (tool_calls m)"

lemma as_chat_calls_valid: "valid_reply rp \<Longrightarrow> list_all valid_function_call (as_chat_calls rp)"
  by (fastforce simp: valid_reply_def valid_call_def valid_function_call_def valid_value_def as_chat_calls_def list_all_iff)

lemma valid_ascii [simp]: "n < 128 \<Longrightarrow> valid_char n"
  by (simp add: valid_char_def)

lemma valid_concat: "list_all valid_str xs \<Longrightarrow> valid_str (concat xs)"
  by (induction xs) simp_all

lemma valid_markers [simp]:
  "valid_str IM_START" "valid_str IM_END" "valid_str THINK_OPEN" "valid_str THINK_CLOSE"
  by (simp_all add: IM_START_def IM_END_def THINK_OPEN_def THINK_CLOSE_def del: lit_simps)

lemma valid_tools_texts [simp]: "valid_str TOOLS_PREFIX" "valid_str TOOLS_INSTRUCTIONS"
proof -
  have "valid_str (unlines xs)" for xs by (induction xs rule: unlines.induct) simp_all
  then show "valid_str TOOLS_PREFIX" "valid_str TOOLS_INSTRUCTIONS"
    by (simp_all add: TOOLS_PREFIX_def TOOLS_INSTRUCTIONS_def del: unlines.simps lit_simps)
qed

lemma argument_text_valid: "valid_value v \<Longrightarrow> valid_str (argument_text J v)"
  by (auto simp: valid_value_def split: Value.splits)

lemma call_body_valid:
  assumes "valid_function_call tc" shows "valid_str (call_body J tc)"
proof -
  have "valid_str (arg_block J kv)" if "kv \<in> set (fc_arguments tc)" for kv
    using assms that argument_text_valid [of "snd kv" J]
    by (fastforce simp: arg_block_def valid_function_call_def list_all_iff simp del: lit_simps)
  then have "valid_str (concat (map (arg_block J) (fc_arguments tc)))" by (intro valid_concat) (simp add: list_all_iff)
  then show ?thesis using assms by (simp add: call_body_def valid_function_call_def del: lit_simps)
qed

lemma tool_calls_text_valid: "list_all valid_function_call tcs \<Longrightarrow> valid_str (tool_calls_text J c tcs)"
  by (auto simp: tool_calls_text_def tool_call_text_def list_all_iff call_body_valid in_set_enumerate_eq
      intro!: valid_concat simp del: lit_simps)

lemma split_reasoning_valid:
  "valid_message m \<Longrightarrow> valid_str c \<Longrightarrow> split_reasoning m c = (r, c') \<Longrightarrow> valid_str r \<and> valid_str c'"
  by (auto simp: split_reasoning_def valid_message_def Let_def split: option.splits if_splits intro!: valid_cuts valid_splits)

lemma assistant_text_valid:
  assumes "valid_message m" and "valid_str c" shows "valid_str (assistant_text J m c b)"
proof -
  obtain r c' where rc: "split_reasoning m c = (r, c')" by fastforce
  have v: "valid_str (jinja_trim r)" "valid_str c'" using split_reasoning_valid [OF assms rc] valid_cuts(4) by blast+
  have "valid_str (tool_calls_text J c' (tool_calls m))" using assms(1) by (simp add: tool_calls_text_valid valid_message_def)
  with v show ?thesis by (simp add: assistant_text_def rc Let_def)
qed

lemma message_step_valid:
  assumes "message_step J req q i (out, vc) = Inr (out', vc')" and "valid_str out" and "valid_message (messages req ! i)"
  shows "valid_str out'"
proof -
  obtain t where t: "content (messages req ! i) = CText t" "valid_str t"
    using assms(3) by (auto simp: valid_message_def split: Content.splits)
  have c: "valid_str (jinja_trim t)" by (rule valid_cuts(4) [OF t(2)])
  show ?thesis
    using assms t c assistant_text_valid [OF assms(3) c]
    by (cases "role (messages req ! i)") (auto simp: message_step_def Let_def simp del: lit_simps split: if_splits)
qed

lemma main_loop_valid:
  "main_loop J req q js (out, vc) = Inr (out', vc') \<Longrightarrow> valid_str out \<Longrightarrow> list_all (\<lambda>i. valid_message (messages req ! i)) js \<Longrightarrow>
   valid_str out'"
proof (induction js arbitrary: out vc)
  case (Cons i js)
  then obtain o1 v1 where "message_step J req q i (out, vc) = Inr (o1, v1)" "main_loop J req q js (o1, v1) = Inr (out', vc')"
    by (auto simp: try_bind_Inr)
  then show ?case using Cons.IH [of o1 v1] message_step_valid Cons.prems by fastforce
qed simp

lemma system_block_valid:
  assumes "system_block J req vc = Inr (out, vc')" and "valid_str (tools_text J (tools req))" and "valid_message (hd (messages req))"
  shows "valid_str out"
proof -
  obtain t where t: "content (hd (messages req)) = CText t" "valid_str t"
    using assms(3) by (auto simp: valid_message_def split: Content.splits)
  have "valid_str (jinja_trim t)" by (rule valid_cuts(4) [OF t(2)])
  then show ?thesis using assms(1,2) t(1) by (auto simp: system_block_def Let_def simp del: lit_simps split: if_splits)
qed

lemma render_valid:
  assumes "render J req = Inr r" and "valid_str (tools_text J (tools req))" and "list_all valid_message (messages req)"
  shows "valid_str (r_text r)"
proof -
  obtain o1 v1 q v2 o2 v3 where parts: "messages req \<noteq> []" "system_block J req (0, 0) = Inr (o1, v1)"
    "main_loop J req q [0..<length (messages req)] (o1, v2) = Inr (o2, v3)" "r_text r = o2 @ generation_prompt (opts req)"
    using assms(1) by (auto simp: render_def Let_def try_bind_Inr split: if_splits prod.splits)
  have "valid_str o1" using system_block_valid [OF parts(2) assms(2)] assms(3) parts(1) by (cases "messages req") simp_all
  moreover have "list_all (\<lambda>i. valid_message (messages req ! i)) [0..<length (messages req)]"
    using assms(3) by (simp add: list_all_iff)
  ultimately have "valid_str o2" using main_loop_valid [OF parts(3)] by blast
  then show ?thesis by (simp add: parts(4) generation_prompt_def del: lit_simps)
qed

section \<open>Encoded tokens\<close>

definition known :: "Tokenizer \<Rightarrow> nat \<Rightarrow> bool" where
  "known tk i \<longleftrightarrow> token_str tk i \<noteq> None"

lemma known_vocab: "known tk i \<Longrightarrow> i < vocab_size tk"
  by (auto simp: known_def token_str_def get_def vocab_size_def split: if_splits)

lemma bpe_loop_known: "tk_wf tk \<Longrightarrow> list_all (known tk) syms \<Longrightarrow> list_all (known tk) (bpe_loop tk syms)"
proof (induction tk syms rule: bpe_loop.induct)
  case (1 tk syms)
  show ?case
  proof (cases "best_pair tk syms")
    case (Some ri)
    obtain r i where ri: "ri = (r, i)" by fastforce
    with Some obtain m where m: "map_of (merge tk) (syms ! i, syms ! (i + 1)) = Some (r, m)"
      "merge_at tk i syms = take i syms @ [m] @ drop (i + 2) syms" using merge_at_nth by metis
    have "known tk m" using tk_wfD(2) [OF "1.prems"(1) m(1)] by (auto simp: known_def)
    then have "list_all (known tk) (merge_at tk i syms)"
      using "1.prems"(2) by (auto simp: m(2) list_all_iff dest: in_set_takeD in_set_dropD)
    with "1.IH" [OF Some ri [symmetric] "1.prems"(1)] Some ri show ?thesis by (subst bpe_loop.simps) simp
  qed (use "1.prems" in \<open>simp add: bpe_loop.simps\<close>)
qed

lemma bpe_known:
  assumes "tk_wf tk" and "valid_str s" shows "list_all (known tk) (bpe tk s)"
proof -
  have "known tk (byte_char_id tk ! b)" if "b < 256" for b using tk_wfD(1) [OF assms(1) that] by (simp add: known_def)
  then have "list_all (known tk) (map (\<lambda>b. byte_char_id tk ! b) (utf8 s))"
    using utf8_bytes [OF assms(2)] by (auto simp: list_all_iff)
  then show ?thesis using bpe_loop_known [OF assms(1)] by (simp add: bpe_def Let_def)
qed

lemma str_slice_valid: "str_slice s a b = Some p \<Longrightarrow> valid_str s \<Longrightarrow> valid_str p"
  by (auto simp: str_slice_def bind_eq_Some_conv intro!: valid_cuts split: if_splits)

lemma flush_known:
  assumes "tk_wf tk" and "valid_str s" and "flush db tk s out = Some ids" and "list_all (known tk) out"
  shows "list_all (known tk) ids"
proof -
  have "bpe_pieces tk s rs = Some is \<Longrightarrow> list_all (known tk) is" for rs "is"
    using assms(1,2)
    by (induction rs arbitrary: "is") (auto simp: bind_eq_Some_conv dest!: str_slice_valid intro: bpe_known)
  then show ?thesis using assms(3,4) by (auto simp: flush_def encode_plain_def bind_eq_Some_conv split: if_splits)
qed

lemma encode_loop_known:
  assumes "encode_loop db tk rest plain out = Some ids"
  shows "tk_wf tk \<longrightarrow> valid_str rest \<longrightarrow> valid_str plain \<longrightarrow> list_all (known tk) out \<longrightarrow> list_all (known tk) ids"
proof (rule encode_loop.raw_induct [OF _ assms,
      where P = "\<lambda>db tk rest plain out ids. tk_wf tk \<longrightarrow> valid_str rest \<longrightarrow> valid_str plain \<longrightarrow> list_all (known tk) out \<longrightarrow> list_all (known tk) ids"])
  fix loop db tk rest plain out ids
  assume IH: "\<And>db tk rest plain out ids. loop db tk rest plain out = Some ids \<Longrightarrow>
      tk_wf tk \<longrightarrow> valid_str rest \<longrightarrow> valid_str plain \<longrightarrow> list_all (known tk) out \<longrightarrow> list_all (known tk) ids"
    and eq: "(if rest = [] then flush db tk plain out
      else case List.find (\<lambda>(tok, _). starts_with rest tok) (added tk) of
          Some hit \<Rightarrow> Option.bind (flush db tk plain out) (\<lambda>out. loop db tk (drop (length (fst hit)) rest) [] (out @ [snd hit]))
        | None \<Rightarrow> loop db tk (tl rest) (plain @ [hd rest]) out) = Some ids"
  show "tk_wf tk \<longrightarrow> valid_str rest \<longrightarrow> valid_str plain \<longrightarrow> list_all (known tk) out \<longrightarrow> list_all (known tk) ids"
  proof (intro impI)
    assume v: "tk_wf tk" "valid_str rest" "valid_str plain" "list_all (known tk) out"
    show "list_all (known tk) ids"
    proof (cases "List.find (\<lambda>(tok, _). starts_with rest tok) (added tk)")
      case None
      then show ?thesis using eq v flush_known IH by (cases rest) auto
    next
      case (Some hit)
      then have "hit \<in> set (added tk)" unfolding find_Some_iff by (metis nth_mem)
      then have "known tk (snd hit)" using tk_wfD(4) [OF v(1), of "fst hit" "snd hit"] by (simp add: known_def)
      then show ?thesis
        using eq v Some flush_known [OF v(1,3) _ v(4), of db] IH valid_cuts(6) [OF v(2)]
        by (cases "rest = []") (auto simp: bind_eq_Some_conv)
    qed
  qed
qed

text \<open>The decompositions of the tables end; a table with a cycle would hang the normalisation.\<close>

definition tables_ok :: "unicode_tables \<Rightarrow> bool" where
  "tables_ok db \<longleftrightarrow> (\<forall>c. valid_char c \<longrightarrow> decompose_one db c \<noteq> None)"

lemma decompose_one_nonempty: "decompose_one db c = Some xs \<Longrightarrow> xs \<noteq> []"
  by (rule decompose_one.raw_induct [where P = "\<lambda>db c xs. xs \<noteq> []"])
    (auto simp: hangul_parts_def Let_def bind_eq_Some_conv split: if_splits option.splits)

lemma compose_all_nonempty: "compose_all db d \<noteq> []"
proof -
  have "cs_out st \<noteq> [] \<Longrightarrow> cs_out (foldl (compose_step db) st xs) \<noteq> []" for st xs
    by (induction xs arbitrary: st) (auto simp: compose_step_def Let_def split: option.splits)
  then show ?thesis by (simp add: compose_all_def)
qed

lemma nfc_total:
  assumes "tables_ok db" and "valid_str s"
  obtains t where "nfc db s = Some t" and "s \<noteq> [] \<Longrightarrow> t \<noteq> []"
proof -
  have "\<exists>d. decompose_all db s = Some d \<and> (s \<noteq> [] \<longrightarrow> d \<noteq> [])"
    using assms(2)
  proof (induction s)
    case (Cons c s)
    then show ?case using assms(1) decompose_one_nonempty by (fastforce simp: tables_ok_def)
  qed simp
  then show thesis using that compose_all_nonempty by (auto simp: nfc_def)
qed

lemma encode_total:
  assumes "tk_wf tk" and "tables_ok db" and "valid_str s" and "s \<noteq> []"
  shows "\<exists>ids. encode db tk s = Some ids \<and> ids \<noteq> [] \<and> (\<forall>i \<in> set ids. i < vocab_size tk)"
proof -
  obtain t where t: "nfc db s = Some t" "t \<noteq> []" using nfc_total [OF assms(2,3)] assms(4) by metis
  obtain ids where ids: "encode db tk s = Some ids" "decode tk ids = t" using decode_encode_wf [OF assms(1,3) t(1)] by blast
  have "decode tk [] = []" by (simp add: decode_def from_utf8_lossy.simps)
  then have "ids \<noteq> []" using ids(2) t(2) by auto
  moreover have "encode_loop db tk t [] [] = Some ids" using ids(1) t(1) by (simp add: encode_def)
  then have "list_all (known tk) ids" using encode_loop_known assms(1) nfc_valid [OF t(1) assms(3)] by fastforce
  ultimately show ?thesis using ids(1) known_vocab by (auto simp: list_all_iff)
qed

end
