(* ===== verification/St_Header.thy ===== *)
theory St_Header
  imports Serde_Json
begin

text \<open>
  The safetensors header parser of the streaming loader (\<open>stloader/src/header.rs\<close>): element
  types, tensor entries, the validation of every entry against the data buffer, shard
  discovery and the cross-check of the index file. A file system maps a path to the bytes of
  the file; every early return of the source is a value of \<open>header_error\<close>.
\<close>

section \<open>Data\<close>

definition MAX_HEADER_BYTES :: u64 where
  "MAX_HEADER_BYTES = 0x10000000"

datatype Dtype = F64 | F32 | F16 | Bf16 | I64 | I32 | I16 | I8 | U8 | Bool | F8E4M3 | F8E5M2

definition Dtype_parse :: "rstr \<Rightarrow> Dtype option" where
  "Dtype_parse s =
     (if s = lit ''F64'' then Some F64
      else if s = lit ''F32'' then Some F32
      else if s = lit ''F16'' then Some F16
      else if s = lit ''BF16'' then Some Bf16
      else if s = lit ''I64'' then Some I64
      else if s = lit ''I32'' then Some I32
      else if s = lit ''I16'' then Some I16
      else if s = lit ''I8'' then Some I8
      else if s = lit ''U8'' then Some U8
      else if s = lit ''BOOL'' then Some Bool
      else if s = lit ''F8_E4M3'' then Some F8E4M3
      else if s = lit ''F8_E5M2'' then Some F8E5M2
      else None)"

fun Dtype_size :: "Dtype \<Rightarrow> u64" where
  "Dtype_size F64 = 8"
| "Dtype_size I64 = 8"
| "Dtype_size F32 = 4"
| "Dtype_size I32 = 4"
| "Dtype_size F16 = 2"
| "Dtype_size Bf16 = 2"
| "Dtype_size I16 = 2"
| "Dtype_size I8 = 1"
| "Dtype_size U8 = 1"
| "Dtype_size Bool = 1"
| "Dtype_size F8E4M3 = 1"
| "Dtype_size F8E5M2 = 1"

fun Dtype_as_str :: "Dtype \<Rightarrow> rstr" where
  "Dtype_as_str F64 = lit ''F64''"
| "Dtype_as_str F32 = lit ''F32''"
| "Dtype_as_str F16 = lit ''F16''"
| "Dtype_as_str Bf16 = lit ''BF16''"
| "Dtype_as_str I64 = lit ''I64''"
| "Dtype_as_str I32 = lit ''I32''"
| "Dtype_as_str I16 = lit ''I16''"
| "Dtype_as_str I8 = lit ''I8''"
| "Dtype_as_str U8 = lit ''U8''"
| "Dtype_as_str Bool = lit ''BOOL''"
| "Dtype_as_str F8E4M3 = lit ''F8_E4M3''"
| "Dtype_as_str F8E5M2 = lit ''F8_E5M2''"

record TensorInfo =
  ti_name :: rstr
  ti_dtype :: Dtype
  ti_shape :: "u64 list"
  ti_start :: u64
  ti_end :: u64

text \<open>\<open>shape_numel\<close>: the product of a shape, \<open>None\<close> on overflow.\<close>

fun shape_numel_from :: "u64 \<Rightarrow> u64 list \<Rightarrow> u64 option" where
  "shape_numel_from n [] = Some n"
| "shape_numel_from n (d # ds) =
     (case checked_mul n d of None \<Rightarrow> None | Some m \<Rightarrow> shape_numel_from m ds)"

definition shape_numel :: "u64 list \<Rightarrow> u64 option" where
  "shape_numel shape = shape_numel_from 1 shape"

definition nbytes :: "TensorInfo \<Rightarrow> u64" where
  "nbytes t = ti_end t - ti_start t"

definition numel :: "TensorInfo \<Rightarrow> u64" where
  "numel t = (case shape_numel (ti_shape t) of Some n \<Rightarrow> n | None \<Rightarrow> 0)"

definition abs_range :: "TensorInfo \<Rightarrow> u64 \<Rightarrow> u64 \<times> u64" where
  "abs_range t data_start = (data_start + ti_start t, data_start + ti_end t)"

record 'f ShardHeader =
  sh_path :: rstr
  sh_file_size :: u64
  sh_header_len :: u64
  sh_data_start :: u64
  sh_metadata :: "(rstr \<times> 'f json) list option"
  sh_tensors :: "TensorInfo list"

definition tensor_bytes :: "'f ShardHeader \<Rightarrow> u64" where
  "tensor_bytes h = sum_list (map nbytes (sh_tensors h))"

definition buffer_bytes :: "'f ShardHeader \<Rightarrow> u64" where
  "buffer_bytes h = saturating_sub (sh_file_size h) (sh_data_start h)"

section \<open>Errors\<close>

datatype entry_error =
    EntryNotObject
  | MissingDtype
  | UnknownDtype rstr
  | MissingShape
  | NonIntegerDimension
  | MissingDataOffsets
  | OffsetsNotAPair
  | BadOffset0
  | BadOffset1
  | EndBeforeStart u64 u64
  | EndsBeyondBuffer u64 u64
  | ShapeProductOverflows
  | ByteSizeOverflows
  | SizeMismatch u64 u64

datatype header_error =
    CannotOpen
  | ShorterThanLength
  | UnexpectedEof
  | ZeroHeaderLength
  | HeaderLengthExceeds u64
  | HeaderLengthOverflows
  | HeaderOverruns u64 u64
  | BadJsonHeader
  | HeaderNotObject
  | MetadataNotObject
  | BadEntry rstr entry_error
  | NoSafetensorsFiles
  | BadIndexJson

section \<open>Parsing one header\<close>

text \<open>\<open>Read::read_exact\<close> at an offset of the file.\<close>

definition read_exact_at :: "u8 list \<Rightarrow> nat \<Rightarrow> nat \<Rightarrow> u8 list option" where
  "read_exact_at bytes off n =
     (if off + n \<le> length bytes then Some (take n (drop off bytes)) else None)"

definition read_u64_le :: "u8 list \<Rightarrow> u64 option" where
  "read_u64_le bytes = map_option u64_from_le_bytes (read_exact_at bytes 0 8)"

text \<open>The body of the entry loop of \<open>read_header\<close>: one tensor entry.\<close>

definition parse_entry :: "u64 \<Rightarrow> rstr \<Rightarrow> 'f json \<Rightarrow> entry_error + TensorInfo" where
  "parse_entry buffer_size name v =
     try_bind (ok_or (as_object v) EntryNotObject) (\<lambda>t.
     try_bind (ok_or (Option.bind (map_of t (lit ''dtype'')) as_str) MissingDtype) (\<lambda>dtype_str.
     try_bind (ok_or (Dtype_parse dtype_str) (UnknownDtype dtype_str)) (\<lambda>dtype.
     try_bind (ok_or (Option.bind (map_of t (lit ''shape'')) as_array) MissingShape) (\<lambda>shape_arr.
     try_bind (collect_result (\<lambda>d. ok_or (as_u64 d) NonIntegerDimension) shape_arr) (\<lambda>shape.
     try_bind (ok_or (Option.bind (map_of t (lit ''data_offsets'')) as_array) MissingDataOffsets) (\<lambda>offs.
     guard_err (length offs \<noteq> 2) OffsetsNotAPair (
     try_bind (ok_or (as_u64 (offs ! 0)) BadOffset0) (\<lambda>start.
     try_bind (ok_or (as_u64 (offs ! 1)) BadOffset1) (\<lambda>end.
     guard_err (end < start) (EndBeforeStart end start) (
     guard_err (end > buffer_size) (EndsBeyondBuffer end buffer_size) (
     try_bind (ok_or (shape_numel shape) ShapeProductOverflows) (\<lambda>numel.
     try_bind (ok_or (checked_mul numel (Dtype_size dtype)) ByteSizeOverflows) (\<lambda>expected.
     guard_err (expected \<noteq> end - start) (SizeMismatch (end - start) expected) (
     Inr \<lparr>ti_name = name, ti_dtype = dtype, ti_shape = shape, ti_start = start, ti_end = end\<rparr>))))))))))))))"

fun entry_loop ::
  "u64 \<Rightarrow> (rstr \<times> 'f json) list option \<Rightarrow> TensorInfo list \<Rightarrow> (rstr \<times> 'f json) list
    \<Rightarrow> header_error + ((rstr \<times> 'f json) list option \<times> TensorInfo list)" where
  "entry_loop buffer_size metadata tensors [] = Inr (metadata, tensors)"
| "entry_loop buffer_size metadata tensors ((name, v) # rest) =
     (if name = lit ''__metadata__'' then
        (case as_object v of
           Some m \<Rightarrow> entry_loop buffer_size (Some m) tensors rest
         | None \<Rightarrow> Inl MetadataNotObject)
      else
        (case parse_entry buffer_size name v of
           Inl e \<Rightarrow> Inl (BadEntry name e)
         | Inr t \<Rightarrow> entry_loop buffer_size metadata (tensors @ [t]) rest))"

definition sort_tensors :: "TensorInfo list \<Rightarrow> TensorInfo list" where
  "sort_tensors ts = sort_key (\<lambda>t. (ti_start t, ti_end t)) ts"

definition read_header_bytes ::
  "(u8 list \<Rightarrow> 'f json option) \<Rightarrow> rstr \<Rightarrow> u8 list \<Rightarrow> header_error + 'f ShardHeader" where
  "read_header_bytes from_slice path bytes =
     (let file_size = (word_of_nat (length bytes) :: u64) in
      guard_err (file_size < 8) ShorterThanLength (
      try_bind (ok_or (read_u64_le bytes) UnexpectedEof) (\<lambda>header_len.
      guard_err (header_len = 0) ZeroHeaderLength (
      guard_err (header_len > MAX_HEADER_BYTES) (HeaderLengthExceeds header_len) (
      try_bind (ok_or (checked_add 8 header_len) HeaderLengthOverflows) (\<lambda>data_start.
      guard_err (data_start > file_size) (HeaderOverruns header_len file_size) (
      let buffer_size = file_size - data_start in
      try_bind (ok_or (read_exact_at bytes 8 (unat header_len)) UnexpectedEof) (\<lambda>raw.
      try_bind (ok_or (from_slice raw) BadJsonHeader) (\<lambda>parsed.
      try_bind (ok_or (as_object parsed) HeaderNotObject) (\<lambda>obj.
      try_bind (entry_loop buffer_size None [] obj) (\<lambda>(metadata, tensors).
      Inr \<lparr>sh_path = path, sh_file_size = file_size, sh_header_len = header_len,
           sh_data_start = data_start, sh_metadata = metadata,
           sh_tensors = sort_tensors tensors\<rparr>)))))))))))"

definition read_header ::
  "(rstr \<Rightarrow> u8 list option) \<Rightarrow> (u8 list \<Rightarrow> 'f json option) \<Rightarrow> rstr \<Rightarrow> header_error + 'f ShardHeader" where
  "read_header fs from_slice path =
     (case fs path of None \<Rightarrow> Inl CannotOpen | Some bytes \<Rightarrow> read_header_bytes from_slice path bytes)"

section \<open>Shard discovery and the index file\<close>

text \<open>\<open>Path::extension\<close>: what follows the last dot of the file name, unless that dot is the
  first character.\<close>

definition path_extension :: "rstr \<Rightarrow> rstr option" where
  "path_extension p =
     (let f = rev (takeWhile (\<lambda>c. c \<noteq> 47) (rev p));
          ext = rev (takeWhile (\<lambda>c. c \<noteq> 46) (rev f))
      in if 46 \<notin> set f \<or> length ext + 1 = length f then None else Some ext)"

definition discover_shards :: "rstr list \<Rightarrow> header_error + rstr list" where
  "discover_shards entries =
     (let out = sort (filter (\<lambda>p. path_extension p = Some (lit ''safetensors'')) entries)
      in guard_err (out = []) NoSafetensorsFiles (Inr out))"

definition read_model ::
  "(rstr \<Rightarrow> u8 list option) \<Rightarrow> (u8 list \<Rightarrow> 'f json option) \<Rightarrow> rstr list
    \<Rightarrow> header_error + 'f ShardHeader list" where
  "read_model fs from_slice entries =
     try_bind (discover_shards entries) (collect_result (read_header fs from_slice))"

definition read_index ::
  "(u8 list \<Rightarrow> 'f json option) \<Rightarrow> u8 list option \<Rightarrow> header_error + (rstr \<times> rstr) list option" where
  "read_index from_slice file =
     (case file of
        None \<Rightarrow> Inr None
      | Some raw \<Rightarrow>
          try_bind (ok_or (from_slice raw) BadIndexJson) (\<lambda>v.
          case Option.bind (jget v (lit ''weight_map'')) as_object of
            None \<Rightarrow> Inr None
          | Some wm \<Rightarrow>
              Inr (Some (List.map_filter (\<lambda>(k, val). map_option (Pair k) (as_str val)) wm))))"

definition cross_check_index ::
  "'f ShardHeader list \<Rightarrow> (rstr \<times> rstr) list \<Rightarrow> nat \<times> nat \<times> rstr list \<times> rstr list" where
  "cross_check_index headers index =
     (let present = sort (remdups (concat (map (\<lambda>h. map ti_name (sh_tensors h)) headers)));
          listed = sort (remdups (map fst index));
          missing = filter (\<lambda>s. s \<notin> set present) listed;
          extra = filter (\<lambda>s. s \<notin> set listed) present
      in (length listed, length present, missing, extra))"

section \<open>Element types and shapes\<close>

lemma Dtype_parse_as_str [simp]: "Dtype_parse (Dtype_as_str d) = Some d"
  by (cases d) (simp_all add: Dtype_parse_def)

lemma Dtype_parse_SomeD: "Dtype_parse s = Some d \<Longrightarrow> s = Dtype_as_str d"
  by (auto simp: Dtype_parse_def split: if_splits)

lemma shape_numel_from_prod:
  "shape_numel_from n ds = Some m \<Longrightarrow> unat m = unat n * prod_list (map unat ds)"
  by (induction ds arbitrary: n) (auto simp: unat_mul_u64 algebra_simps split: option.splits)

lemma shape_numel_prod: "shape_numel ds = Some m \<Longrightarrow> unat m = prod_list (map unat ds)"
  by (simp add: shape_numel_def shape_numel_from_prod)

section \<open>The invariant of a parsed shard\<close>

definition wf_tensor :: "u64 \<Rightarrow> TensorInfo \<Rightarrow> bool" where
  "wf_tensor buffer_size t \<longleftrightarrow>
     ti_start t \<le> ti_end t \<and> ti_end t \<le> buffer_size \<and>
     unat (ti_end t) - unat (ti_start t) =
       prod_list (map unat (ti_shape t)) * unat (Dtype_size (ti_dtype t))"

definition wf_shard :: "'f ShardHeader \<Rightarrow> bool" where
  "wf_shard h \<longleftrightarrow>
     unat (sh_data_start h) = 8 + unat (sh_header_len h) \<and>
     sh_data_start h \<le> sh_file_size h \<and>
     list_all (wf_tensor (sh_file_size h - sh_data_start h)) (sh_tensors h) \<and>
     sorted (map (\<lambda>t. (ti_start t, ti_end t)) (sh_tensors h))"

lemma parse_entry_wf:
  assumes "parse_entry buffer_size name v = Inr t"
  shows "wf_tensor buffer_size t \<and> ti_name t = name"
proof -
  from assms obtain dtype shape st en n where
    num: "shape_numel shape = Some n" and mul: "unat n * unat (Dtype_size dtype) < 2 ^ 64"
    and ord: "\<not> en < st" "\<not> buffer_size < en"
    and size: "n * Dtype_size dtype = en - st"
    and t: "t = \<lparr>ti_name = name, ti_dtype = dtype, ti_shape = shape, ti_start = st, ti_end = en\<rparr>"
    by (auto simp: parse_entry_def)
  have "unat en - unat st = unat (n * Dtype_size dtype)"
    using ord size by (simp add: unat_sub_u64 not_less)
  then show ?thesis
    using ord mul num t by (simp add: wf_tensor_def unat_mul_u64 not_less shape_numel_prod)
qed

lemma entry_loop_wf:
  "entry_loop buffer_size md ts obj = Inr (md', ts') \<Longrightarrow>
   list_all (wf_tensor buffer_size) ts \<Longrightarrow> list_all (wf_tensor buffer_size) ts'"
proof (induction buffer_size md ts obj rule: entry_loop.induct)
  case (2 buffer_size md ts name v rest)
  then show ?case
    by (auto split: if_splits option.splits sum.splits dest: parse_entry_wf)
qed simp

lemma entry_loop_names:
  "entry_loop buffer_size md ts obj = Inr (md', ts') \<Longrightarrow>
   map ti_name ts' = map ti_name ts @ filter (\<lambda>n. n \<noteq> lit ''__metadata__'') (map fst obj)"
proof (induction buffer_size md ts obj rule: entry_loop.induct)
  case (2 buffer_size md ts name v rest)
  then show ?case
    by (auto split: if_splits option.splits sum.splits dest: parse_entry_wf)
qed simp

lemma set_sort_tensors [simp]: "set (sort_tensors ts) = set ts"
  by (simp add: sort_tensors_def)

lemma sorted_sort_tensors: "sorted (map (\<lambda>t. (ti_start t, ti_end t)) (sort_tensors ts))"
  by (simp add: sort_tensors_def)

lemma read_header_bytes_wf:
  assumes "read_header_bytes from_slice path bytes = Inr h"
  shows "wf_shard h"
proof -
  from assms obtain hl obj md ts where
    ds: "unat (8 :: u64) + unat hl < 2 ^ 64" "8 + hl \<le> (word_of_nat (length bytes) :: u64)"
    and loop: "entry_loop (word_of_nat (length bytes) - (8 + hl)) None [] obj = Inr (md, ts)"
    and h: "h = \<lparr>sh_path = path, sh_file_size = word_of_nat (length bytes), sh_header_len = hl,
           sh_data_start = 8 + hl, sh_metadata = md, sh_tensors = sort_tensors ts\<rparr>"
    by (auto simp: read_header_bytes_def Let_def not_less)
  from loop have "list_all (wf_tensor (word_of_nat (length bytes) - (8 + hl))) ts"
    by (rule entry_loop_wf) simp
  moreover have "unat (8 + hl) = 8 + unat hl"
    using ds(1) unat_add_u64 [of 8 hl] by simp
  ultimately show ?thesis
    using ds(2) by (simp add: wf_shard_def h list_all_iff sorted_sort_tensors)
qed

text \<open>C2. Every header that \<open>read_header\<close> accepts satisfies the invariant the planner and the
  reader rely on: the data buffer starts right after the header and inside the file, every
  tensor range is ordered and lies inside the buffer, its length is the element count times the
  element size, and the tensors are sorted by range.\<close>

theorem read_header_wf:
  assumes "read_header fs from_slice path = Inr h"
  shows "wf_shard h"
  using assms by (auto simp: read_header_def split: option.splits intro: read_header_bytes_wf)

lemma wf_shard_tensor_bounds:
  assumes "wf_shard h" and "t \<in> set (sh_tensors h)"
  shows "unat (sh_data_start h + ti_start t) = unat (sh_data_start h) + unat (ti_start t)"
    and "unat (sh_data_start h + ti_end t) = unat (sh_data_start h) + unat (ti_end t)"
    and "unat (ti_start t) \<le> unat (ti_end t)"
    and "unat (sh_data_start h) + unat (ti_end t) \<le> unat (sh_file_size h)"
proof -
  let ?d = "sh_data_start h" and ?f = "sh_file_size h"
  have d: "?d \<le> ?f" and t: "wf_tensor (?f - ?d) t"
    using assms by (auto simp: wf_shard_def list_all_iff)
  then have le: "unat (ti_start t) \<le> unat (ti_end t)" and
    "unat (ti_end t) \<le> unat ?f - unat ?d"
    by (auto simp: wf_tensor_def word_le_nat_alt unat_sub_u64)
  with d show b: "unat ?d + unat (ti_end t) \<le> unat ?f"
    by (simp add: word_le_nat_alt)
  then have "unat ?d + unat (ti_end t) < 2 ^ 64"
    using unat_lt_u64 [of ?f] by linarith
  then show "unat (?d + ti_start t) = unat ?d + unat (ti_start t)"
    and "unat (?d + ti_end t) = unat ?d + unat (ti_end t)"
    using le by (simp_all add: unat_add_u64)
  show "unat (ti_start t) \<le> unat (ti_end t)" by (rule le)
qed

lemma wf_shard_nbytes:
  assumes "wf_shard h" and "t \<in> set (sh_tensors h)"
  shows "unat (nbytes t) = unat (ti_end t) - unat (ti_start t)"
  using wf_shard_tensor_bounds(3) [OF assms]
  by (simp add: nbytes_def unat_sub_u64 word_le_nat_alt)

section \<open>Completeness: a well-formed file is read back\<close>

definition tensor_json :: "TensorInfo \<Rightarrow> rstr \<times> 'f json" where
  "tensor_json t =
     (ti_name t,
      JObj [(lit ''dtype'', JStr (Dtype_as_str (ti_dtype t))),
            (lit ''shape'', JArr (map (\<lambda>d. JNum (PosInt d)) (ti_shape t))),
            (lit ''data_offsets'', JArr [JNum (PosInt (ti_start t)), JNum (PosInt (ti_end t))])])"

lemma collect_u64 [simp]:
  "collect_result (\<lambda>d. ok_or (as_u64 d) e) (map (\<lambda>d. JNum (PosInt d)) ds) = Inr ds"
  by (induction ds) simp_all

lemma Dtype_size_bounds: "1 \<le> unat (Dtype_size d)" "unat (Dtype_size d) \<le> 8"
  by (cases d; simp)+

lemma parse_entry_tensor_json:
  assumes "wf_tensor buffer_size t" and "shape_numel (ti_shape t) = Some n"
  shows "parse_entry buffer_size (ti_name t) (snd (tensor_json t)) = Inr t"
proof -
  let ?sz = "Dtype_size (ti_dtype t)"
  have eq: "unat (ti_end t) - unat (ti_start t) = unat n * unat ?sz"
    using assms by (simp add: wf_tensor_def shape_numel_prod)
  have lt: "unat n * unat ?sz < 2 ^ 64"
    using eq unat_lt_u64 [of "ti_end t"] by linarith
  have "unat (n * ?sz) = unat (ti_end t - ti_start t)"
    using assms(1) eq lt by (simp add: wf_tensor_def unat_mul_u64 unat_sub_u64)
  then have "n * ?sz = ti_end t - ti_start t" by (simp add: word_eq_iff_unsigned [where ?'a = nat])
  then show ?thesis
    using assms lt by (simp add: parse_entry_def tensor_json_def wf_tensor_def not_less checked_mul_def
        guard_err_def)
qed

lemma entry_loop_tensor_json:
  assumes "\<forall>t \<in> set ts. ti_name t \<noteq> lit ''__metadata__'' \<and> wf_tensor b t \<and>
             shape_numel (ti_shape t) \<noteq> None"
  shows "entry_loop b md acc (map tensor_json ts) = Inr (md, acc @ ts)"
  using assms
proof (induction ts arbitrary: acc)
  case (Cons t ts)
  then obtain n where "shape_numel (ti_shape t) = Some n" by auto
  then have "parse_entry b (ti_name t) (snd (tensor_json t :: rstr \<times> 'a json)) = Inr t"
    using Cons.prems by (auto intro: parse_entry_tensor_json)
  then show ?case
    using Cons by (simp add: tensor_json_def)
qed simp

lemma read_header_framed:
  fixes hdr :: "u8 list"
  assumes hdr: "0 < length hdr" "length hdr \<le> 2 ^ 28" and size: "8 + length hdr + length data < 2 ^ 64"
  shows "read_header_bytes from_slice path (u64_to_le_bytes (word_of_nat (length hdr)) @ hdr @ data) =
    try_bind (ok_or (from_slice hdr) BadJsonHeader) (\<lambda>parsed.
    try_bind (ok_or (as_object parsed) HeaderNotObject) (\<lambda>obj.
    try_bind (entry_loop (word_of_nat (length data)) None [] obj) (\<lambda>(metadata, tensors).
    Inr \<lparr>sh_path = path, sh_file_size = word_of_nat (8 + length hdr + length data), sh_header_len = word_of_nat (length hdr),
         sh_data_start = word_of_nat (8 + length hdr), sh_metadata = metadata, sh_tensors = sort_tensors tensors\<rparr>)))"
proof -
  let ?hl = "word_of_nat (length hdr) :: u64"
  let ?fsz = "word_of_nat (8 + (length hdr + length data)) :: u64"
  have hl: "unat ?hl = length hdr" and fsz: "unat ?fsz = 8 + length hdr + length data"
    using size hdr by (simp_all add: unat_of_nat del: of_nat_add)
  have len: "read_u64_le (u64_to_le_bytes ?hl @ hdr @ data) = Some ?hl"
    by (simp add: read_u64_le_def read_exact_at_def u64_le_roundtrip)
  have raw: "read_exact_at (u64_to_le_bytes ?hl @ hdr @ data) 8 (length hdr) = Some hdr"
    by (simp add: read_exact_at_def)
  have ds: "checked_add 8 ?hl = Some (8 + ?hl)" and uds: "unat (8 + ?hl) = 8 + length hdr"
    using hl size unat_add_u64 [of 8 ?hl] by (simp_all add: checked_add_def)
  have "unat (?fsz - (8 + ?hl)) = length data"
    using uds fsz by (simp add: unat_sub_u64 word_le_nat_alt del: of_nat_add)
  then have buf: "?fsz - (8 + ?hl) = word_of_nat (length data)"
    by (metis of_nat_unat ucast_id)
  have nz: "?hl \<noteq> 0" and mx: "\<not> MAX_HEADER_BYTES < ?hl" and ge8: "\<not> ?fsz < 8"
    and ov: "\<not> ?fsz < 8 + ?hl"
    using hl hdr fsz uds
    by (auto simp: MAX_HEADER_BYTES_def word_less_nat_alt simp del: of_nat_add)
  show ?thesis
    by (simp add: len raw ds buf nz mx ge8 ov hl read_header_bytes_def guard_err_def add.assoc Let_def del: of_nat_add) simp
qed


section \<open>The index cross-check\<close>

text \<open>The four components of the index cross-check: how many names the index lists, how
  many the shards hold, exactly the listed names that no shard holds, and exactly the held
  names the index omits, each without repetition; the counts balance.\<close>

lemma cross_check_index_correct:
  fixes headers :: "'f ShardHeader list"
  defines "held \<equiv> (\<Union>h \<in> set headers. ti_name ` set (sh_tensors h))"
  assumes "cross_check_index headers index = (nl, np, missing, extra)"
  shows "nl = card (fst ` set index) \<and> np = card held \<and>
    set missing = fst ` set index - held \<and> distinct missing \<and> sorted missing \<and>
    set extra = held - fst ` set index \<and> distinct extra \<and> sorted extra \<and>
    nl + length extra = np + length missing"
proof -
  let ?pres = "sort (remdups (concat (map (\<lambda>h. map ti_name (sh_tensors h)) headers)))"
  let ?list = "sort (remdups (map fst index))"
  have sp: "set ?pres = held" and sl: "set ?list = fst ` set index"
    by (auto simp: held_def)
  have dp: "distinct ?pres" and dl: "distinct ?list" by simp_all
  have eqs: "nl = length ?list" "np = length ?pres"
    "missing = filter (\<lambda>s. s \<notin> set ?pres) ?list" "extra = filter (\<lambda>s. s \<notin> set ?list) ?pres"
    using assms(2) by (simp_all add: cross_check_index_def Let_def)
  have 1: "nl = card (fst ` set index)" and 2: "np = card held"
    using eqs(1,2) sp sl dp dl distinct_card by metis+
  have 3: "set missing = fst ` set index - held" and 4: "set extra = held - fst ` set index"
    using eqs(3,4) sp sl by auto
  have 5: "distinct missing" and 6: "distinct extra"
    using eqs(3,4) dp dl by (simp_all only: distinct_filter)
  have 7: "sorted missing" and 8: "sorted extra"
    using eqs(3,4) by (simp_all add: sorted_filter [of "\<lambda>x. x", simplified])
  have fin: "finite held" "finite (fst ` set index)" using sp by (metis finite_set) simp
  have "length missing = card (fst ` set index - held)" "length extra = card (held - fst ` set index)"
    using 3 4 5 6 distinct_card by metis+
  then have "nl + length extra = np + length missing"
    using 1 2 fin card_Un_disjoint [of "fst ` set index" "held - fst ` set index"]
      card_Un_disjoint [of held "fst ` set index - held"]
    by (simp add: Un_Diff_cancel Un_commute)
  with 1 2 3 4 5 6 7 8 show ?thesis by blast
qed

section \<open>Witnesses\<close>

definition ex_tensor :: TensorInfo where
  "ex_tensor = \<lparr>ti_name = lit ''a'', ti_dtype = F16, ti_shape = [2, 1], ti_start = 0, ti_end = 4\<rparr>"

definition ex_hdr :: "u8 list" where
  "ex_hdr = [123, 125]"

definition ex_file :: "u8 list" where
  "ex_file = u64_to_le_bytes 2 @ ex_hdr @ [1, 2, 3, 4]"

definition ex_fs :: "rstr \<Rightarrow> u8 list option" where
  "ex_fs p = (if p = lit ''m'' then Some ex_file else None)"

definition ex_from_slice :: "u8 list \<Rightarrow> nat json option" where
  "ex_from_slice bs = (if bs = ex_hdr then Some (JObj [tensor_json ex_tensor]) else None)"

definition ex_header :: "nat ShardHeader" where
  "ex_header = \<lparr>sh_path = lit ''m'', sh_file_size = 14, sh_header_len = 2, sh_data_start = 10,
     sh_metadata = None, sh_tensors = [ex_tensor]\<rparr>"

lemma ex_le_bytes: "u64_to_le_bytes 2 = [2, 0, 0, 0, 0, 0, 0, 0]"
proof -
  have "nat_le 8 2 = nat_le (Suc (Suc (Suc (Suc (Suc (Suc (Suc (Suc 0)))))))) 2"
    by (rule arg_cong [of _ _ "\<lambda>k. nat_le k 2"]) (simp only: eval_nat_numeral BitM.simps)
  then show ?thesis by (simp add: u64_to_le_bytes_def)
qed

lemma ex_entry: "parse_entry 4 (lit ''a'') (snd (tensor_json ex_tensor :: rstr \<times> nat json)) = Inr ex_tensor"
  using parse_entry_tensor_json [of 4 ex_tensor 2]
  by (simp add: ex_tensor_def wf_tensor_def shape_numel_def checked_mul_def)

lemma ex_read_header: "read_header ex_fs ex_from_slice (lit ''m'') = Inr ex_header"
proof -
  have "u64_from_le_bytes [2, 0, 0, 0, 0, 0, 0, 0] = 2"
    by (simp add: u64_from_le_bytes_def)
  moreover have "entry_loop 4 None [] [tensor_json ex_tensor :: rstr \<times> nat json] = Inr (None, [ex_tensor])"
    using ex_entry by (simp add: tensor_json_def ex_tensor_def)
  ultimately show ?thesis
    by (simp add: read_header_def ex_fs_def ex_file_def read_header_bytes_def ex_hdr_def ex_le_bytes
        read_u64_le_def read_exact_at_def guard_err_def MAX_HEADER_BYTES_def checked_add_def
        ex_from_slice_def sort_tensors_def ex_header_def Let_def)
qed

theorem read_header_wf_witness:
  "read_header ex_fs ex_from_slice (lit ''m'') = Inr ex_header \<and> wf_shard ex_header"
  using read_header_wf [OF ex_read_header] ex_read_header by simp


definition ex_index :: "(rstr \<times> rstr) list" where
  "ex_index = [(lit ''a'', lit ''m''), (lit ''z'', lit ''m'')]"

theorem cross_check_index_correct_witness:
  "cross_check_index [ex_header] ex_index = (2, 1, [lit ''z''], []) \<and>
   set [lit ''z''] = fst ` set ex_index - (\<Union>h \<in> set [ex_header]. ti_name ` set (sh_tensors h))"
proof -
  have "cross_check_index [ex_header] ex_index = (2, 1, [lit ''z''], [])"
    by (simp add: cross_check_index_def ex_header_def ex_index_def ex_tensor_def Let_def)
  from cross_check_index_correct [OF this] this show ?thesis by blast
qed

end
