(* ===== verification/Safetensors.thy ===== *)
theory Safetensors
  imports St_Header "HOL-Library.AList"
begin

unbundle bit_operations_syntax

text \<open>
  The checkpoint reader of the forward pass (\<open>gdn/src/safetensors.rs\<close>): element types and their
  widening to \<open>f32\<close>, the validation of a shard's header against the file, and the model that looks
  tensors up by name over all shards. An \<open>f32\<close> is its bit pattern. Arithmetic the source leaves
  unchecked wraps, as in a release build. The file system maps a path to the bytes of the file.
\<close>

section \<open>Element types\<close>

datatype CkDtype = Ck_F32 | Ck_F16 | Ck_Bf16

definition CkDtype_parse :: "rstr \<Rightarrow> CkDtype option" where
  "CkDtype_parse s =
     (if s = lit ''F32'' then Some Ck_F32
      else if s = lit ''F16'' then Some Ck_F16
      else if s = lit ''BF16'' then Some Ck_Bf16
      else None)"

fun CkDtype_size :: "CkDtype \<Rightarrow> u64" where
  "CkDtype_size Ck_F32 = 4"
| "CkDtype_size Ck_F16 = 2"
| "CkDtype_size Ck_Bf16 = 2"

fun CkDtype_as_str :: "CkDtype \<Rightarrow> rstr" where
  "CkDtype_as_str Ck_F32 = lit ''F32''"
| "CkDtype_as_str Ck_F16 = lit ''F16''"
| "CkDtype_as_str Ck_Bf16 = lit ''BF16''"

datatype ck_error =
    CkNoFile
  | CkShort
  | CkLengthOverflows
  | CkHeaderBeyondFile
  | CkBadJson
  | CkNotObject
  | CkNoDtype rstr
  | CkUnsupportedDtype rstr rstr
  | CkNoShape rstr
  | CkBadShape rstr
  | CkNoOffsets rstr
  | CkNotPair rstr
  | CkBadOffset rstr
  | CkReversed rstr
  | CkSizeOverflows rstr
  | CkSpanMismatch rstr
  | CkStartOverflows rstr
  | CkEndOverflows rstr
  | CkBeyondFile rstr
  | CkNoFiles
  | CkDuplicate rstr
  | CkFileChanged
  | CkNoTensor rstr
  | CkNotMultiple
  | CkCountMismatch rstr
  | CkNoWeightMap
  | CkPanic

text \<open>The normalising loop of a subnormal half; on \<open>0\<close> it would not end.\<close>

partial_function (option) f16_normalise :: "u32 \<Rightarrow> int \<Rightarrow> (u32 \<times> int) option" where
  "f16_normalise f e =
     (if f AND 0x400 = 0 then f16_normalise (push_bit 1 f) (e - 1) else Some (f, e))"

definition f16_to_f32 :: "u16 \<Rightarrow> u32 option" where
  "f16_to_f32 h =
     (let sign = (ucast (drop_bit 15 h) :: u32);
          exp = (ucast (drop_bit 10 h AND 0x1F) :: u32);
          frac = (ucast (h AND 0x3FF) :: u32)
      in if exp = 0 then
           (if frac = 0 then Some (push_bit 31 sign)
            else map_option (\<lambda>(f, e). push_bit 31 sign OR push_bit 23 (word_of_int (e + 1)) OR push_bit 13 (f AND 0x3FF))
                   (f16_normalise frac (127 - 15 - 10)))
         else if exp = 0x1F then Some (push_bit 31 sign OR push_bit 23 0xFF OR push_bit 13 frac)
         else Some (push_bit 31 sign OR push_bit 23 (exp + 127 - 15) OR push_bit 13 frac))"

definition elements :: "nat \<Rightarrow> u8 list \<Rightarrow> u8 list list" where
  "elements esz bytes = map (\<lambda>i. take esz (drop (i * esz) bytes)) [0..<length bytes div esz]"

definition ck_decode :: "CkDtype \<Rightarrow> u8 list \<Rightarrow> ck_error + u32 list" where
  "ck_decode dt bytes =
     (let esz = unat (CkDtype_size dt) in
      guard_err (length bytes mod esz \<noteq> 0) CkNotMultiple (
      case dt of
        Ck_F32 \<Rightarrow> Inr (map (\<lambda>b. word_of_nat (le_nat b)) (elements esz bytes))
      | Ck_Bf16 \<Rightarrow> Inr (map (\<lambda>b. push_bit 16 (word_of_nat (le_nat b))) (elements esz bytes))
      | Ck_F16 \<Rightarrow> collect_result (\<lambda>b. ok_or (f16_to_f32 (word_of_nat (le_nat b))) CkPanic) (elements esz bytes)))"

section \<open>Shards\<close>

text \<open>\<open>Path::join\<close>: an absolute path replaces the root.\<close>

definition path_join :: "rstr \<Rightarrow> rstr \<Rightarrow> rstr" where
  "path_join root p =
     (if starts_with p (lit ''/'') then p
      else if root = [] \<or> ends_with root (lit ''/'') then root @ p
      else root @ lit ''/'' @ p)"

record Entry =
  en_dtype :: CkDtype
  en_shape :: "u64 list"
  en_start :: u64
  en_end :: u64

definition Entry_numel :: "Entry \<Rightarrow> u64" where
  "Entry_numel e = prod_list (en_shape e)"

record Shard =
  sd_path :: rstr
  sd_file_size :: u64
  sd_data_start :: u64
  sd_tensors :: "(rstr \<times> Entry) list"

definition open_entry :: "u64 \<Rightarrow> u64 \<Rightarrow> rstr \<Rightarrow> 'f json \<Rightarrow> ck_error + Entry" where
  "open_entry file_size data_start name v =
     try_bind (ok_or (Option.bind (jget v (lit ''dtype'')) as_str) (CkNoDtype name)) (\<lambda>dtype_str.
     try_bind (ok_or (CkDtype_parse dtype_str) (CkUnsupportedDtype name dtype_str)) (\<lambda>dtype.
     try_bind (ok_or (Option.bind (jget v (lit ''shape'')) as_array) (CkNoShape name)) (\<lambda>dims.
     let shape = map (\<lambda>x. case as_u64 x of Some n \<Rightarrow> n | None \<Rightarrow> u64_MAX) dims in
     guard_err (u64_MAX \<in> set shape) (CkBadShape name) (
     try_bind (ok_or (Option.bind (jget v (lit ''data_offsets'')) as_array) (CkNoOffsets name)) (\<lambda>offs.
     guard_err (length offs \<noteq> 2) (CkNotPair name) (
     try_bind (ok_or (as_u64 (offs ! 0)) (CkBadOffset name)) (\<lambda>rel_start.
     try_bind (ok_or (as_u64 (offs ! 1)) (CkBadOffset name)) (\<lambda>rel_end.
     guard_err (rel_end < rel_start) (CkReversed name) (
     let span = rel_end - rel_start; n = prod_list shape in
     try_bind (ok_or (checked_mul n (CkDtype_size dtype)) (CkSizeOverflows name)) (\<lambda>expected.
     guard_err (span \<noteq> expected) (CkSpanMismatch name) (
     try_bind (ok_or (checked_add data_start rel_start) (CkStartOverflows name)) (\<lambda>s.
     try_bind (ok_or (checked_add data_start rel_end) (CkEndOverflows name)) (\<lambda>e.
     guard_err (file_size < e) (CkBeyondFile name)
       (Inr \<lparr>en_dtype = dtype, en_shape = shape, en_start = s, en_end = e\<rparr>))))))))))))))"

primrec open_entries ::
  "u64 \<Rightarrow> u64 \<Rightarrow> (rstr \<times> 'f json) list \<Rightarrow> (rstr \<times> Entry) list \<Rightarrow> ck_error + (rstr \<times> Entry) list" where
  "open_entries file_size data_start [] tensors = Inr tensors"
| "open_entries file_size data_start (kv # obj) tensors =
     (if fst kv = lit ''__metadata__'' then open_entries file_size data_start obj tensors
      else
        try_bind (open_entry file_size data_start (fst kv) (snd kv)) (\<lambda>e.
        open_entries file_size data_start obj (AList.update (fst kv) e tensors)))"

definition Shard_open ::
  "(rstr \<Rightarrow> u8 list option) \<Rightarrow> (u8 list \<Rightarrow> 'f json option) \<Rightarrow> rstr \<Rightarrow> ck_error + Shard" where
  "Shard_open fs from_slice path =
     try_bind (ok_or (fs path) CkNoFile) (\<lambda>bytes.
     let file_size = (word_of_nat (length bytes) :: u64) in
     try_bind (ok_or (read_u64_le bytes) CkShort) (\<lambda>header_len.
     try_bind (ok_or (checked_add 8 header_len) CkLengthOverflows) (\<lambda>data_start.
     guard_err (file_size < data_start) CkHeaderBeyondFile (
     try_bind (ok_or (read_exact_at bytes 8 (unat header_len)) CkShort) (\<lambda>raw.
     try_bind (ok_or (from_slice raw) CkBadJson) (\<lambda>doc.
     try_bind (ok_or (as_object doc) CkNotObject) (\<lambda>obj.
     try_bind (open_entries file_size data_start obj []) (\<lambda>tensors.
     Inr \<lparr>sd_path = path, sd_file_size = file_size, sd_data_start = data_start, sd_tensors = sort_key fst tensors\<rparr>))))))))"

definition Shard_get :: "Shard \<Rightarrow> rstr \<Rightarrow> Entry option" where
  "Shard_get s name = map_of (sd_tensors s) name"

section \<open>The model\<close>

record CkModel =
  ck_shards :: "Shard list"
  ck_index :: "(rstr \<times> (nat \<times> Entry)) list"
  ck_bufs :: "u8 list list"

primrec index_shard ::
  "nat \<Rightarrow> (rstr \<times> Entry) list \<Rightarrow> (rstr \<times> (nat \<times> Entry)) list \<Rightarrow> ck_error + (rstr \<times> (nat \<times> Entry)) list" where
  "index_shard si [] index = Inr index"
| "index_shard si (kv # ts) index =
     (case map_of index (fst kv) of
        Some _ \<Rightarrow> Inl (CkDuplicate (fst kv))
      | None \<Rightarrow> index_shard si ts (AList.update (fst kv) (si, snd kv) index))"

primrec open_shards ::
  "(rstr \<Rightarrow> u8 list option) \<Rightarrow> (u8 list \<Rightarrow> 'f json option) \<Rightarrow> rstr list \<Rightarrow> CkModel \<Rightarrow> ck_error + CkModel" where
  "open_shards fs from_slice [] m = Inr m"
| "open_shards fs from_slice (p # ps) m =
     try_bind (Shard_open fs from_slice p) (\<lambda>shard.
     try_bind (index_shard (length (ck_shards m)) (sd_tensors shard) (ck_index m)) (\<lambda>index.
     try_bind (ok_or (fs p) CkNoFile) (\<lambda>buf.
     guard_err ((word_of_nat (length buf) :: u64) \<noteq> sd_file_size shard) CkFileChanged (
     open_shards fs from_slice ps
       \<lparr>ck_shards = ck_shards m @ [shard], ck_index = index, ck_bufs = ck_bufs m @ [buf]\<rparr>))))"

text \<open>\<open>entries\<close> is what \<open>read_dir\<close> lists.\<close>

definition CkModel_open ::
  "(rstr \<Rightarrow> u8 list option) \<Rightarrow> (u8 list \<Rightarrow> 'f json option) \<Rightarrow> rstr list \<Rightarrow> ck_error + CkModel" where
  "CkModel_open fs from_slice entries =
     (let paths = sort (filter (\<lambda>p. path_extension p = Some (lit ''safetensors'')) entries) in
      guard_err (paths = []) CkNoFiles
        (open_shards fs from_slice paths \<lparr>ck_shards = [], ck_index = [], ck_bufs = []\<rparr>))"

definition ck_names :: "CkModel \<Rightarrow> rstr list" where
  "ck_names m = sort (map fst (ck_index m))"

definition ck_contains :: "CkModel \<Rightarrow> rstr \<Rightarrow> bool" where
  "ck_contains m name \<longleftrightarrow> map_of (ck_index m) name \<noteq> None"

definition ck_entry :: "CkModel \<Rightarrow> rstr \<Rightarrow> Entry option" where
  "ck_entry m name = map_option snd (map_of (ck_index m) name)"

definition ck_tensor :: "CkModel \<Rightarrow> rstr \<Rightarrow> ck_error + u32 list" where
  "ck_tensor m name =
     try_bind (ok_or (map_of (ck_index m) name) (CkNoTensor name)) (\<lambda>(si, e).
     guard_err (\<not> (si < length (ck_bufs m) \<and> en_start e \<le> en_end e \<and> unat (en_end e) \<le> length (ck_bufs m ! si))) CkPanic (
     let bytes = take (unat (en_end e) - unat (en_start e)) (drop (unat (en_start e)) (ck_bufs m ! si)) in
     try_bind (ck_decode (en_dtype e) bytes) (\<lambda>v.
     guard_err (length v \<noteq> unat (Entry_numel e)) (CkCountMismatch name) (Inr v))))"

definition count_containing :: "CkModel \<Rightarrow> rstr \<Rightarrow> nat" where
  "count_containing m needle = length (filter (\<lambda>k. contains_sub k needle) (map fst (ck_index m)))"

definition ck_tensor_bytes :: "CkModel \<Rightarrow> u64" where
  "ck_tensor_bytes m =
     sum_list (map (\<lambda>s. sum_list (map (\<lambda>(_, e). en_end e - en_start e) (sd_tensors s))) (ck_shards m))"

text \<open>\<open>index_file\<close>: the bytes of the index file, if it exists.\<close>

definition index_disagreement ::
  "(u8 list \<Rightarrow> 'f json option) \<Rightarrow> u8 list option \<Rightarrow> CkModel \<Rightarrow> ck_error + rstr list" where
  "index_disagreement from_slice index_file m =
     (case index_file of
        None \<Rightarrow> Inr []
      | Some raw \<Rightarrow>
          try_bind (ok_or (from_slice raw) CkBadJson) (\<lambda>doc.
          try_bind (ok_or (Option.bind (jget doc (lit ''weight_map'')) as_object) CkNoWeightMap) (\<lambda>wm.
          Inr (filter (\<lambda>name. \<not> ck_contains m name) (map fst wm)))))"

section \<open>Widening halves\<close>

lemma nat_or_plus:
  assumes "x < 2 ^ n" shows "push_bit n y OR x = y * 2 ^ n + (x :: nat)"
proof -
  have "take_bit n x = x" using assms by (simp add: take_bit_nat_eq_self)
  then have "\<not> bit x m" if "n \<le> m" for m using that by (metis bit_take_bit_iff not_le)
  then have "push_bit n y AND x = 0" by (intro bit_eqI) (auto simp: bit_simps)
  then have "push_bit n y OR x = push_bit n y + x" by (simp add: disjunctive_add_eq_or)
  then show ?thesis by (simp add: push_bit_eq_mult)
qed

text \<open>The three fields of a single, and the pattern assembled from them.\<close>

definition f32_exp :: "u32 \<Rightarrow> nat" where "f32_exp b = unat b div 2 ^ 23 mod 256"
definition f32_frac :: "u32 \<Rightarrow> nat" where "f32_frac b = unat b mod 2 ^ 23"
definition f32_sign :: "u32 \<Rightarrow> nat" where "f32_sign b = unat b div 2 ^ 31"

lemma word_length_u32: "LENGTH(32) = 32"
  by simp

lemma unat_push_bit: "unat (w :: u32) * 2 ^ n < 2 ^ 32 \<Longrightarrow> unat (push_bit n w) = push_bit n (unat w)"
  by (subst unsigned_push_bit_eq) (simp only: take_bit_nat_eq_self push_bit_eq_mult word_length_u32)

lemma assemble:
  fixes s e f :: u32
  assumes "unat s < 2" and "unat e < 256" and "unat f < 1024"
  shows "f32_sign (push_bit 31 s OR push_bit 23 e OR push_bit 13 f) = unat s"
    and "f32_exp (push_bit 31 s OR push_bit 23 e OR push_bit 13 f) = unat e"
    and "f32_frac (push_bit 31 s OR push_bit 23 e OR push_bit 13 f) = unat f * 2 ^ 13"
proof -
  have f: "unat f * 2 ^ 13 < 2 ^ 23" using assms(3) by simp
  have low: "unat e * 2 ^ 23 + unat f * 2 ^ 13 < 2 ^ 31" using assms(2) f by simp
  have "unat (push_bit 31 s OR push_bit 23 e OR push_bit 13 f) =
      push_bit 31 (unat s) OR (push_bit 23 (unat e) OR push_bit 13 (unat f))"
    using assms by (simp add: unsigned_or_eq unat_push_bit or.assoc)
  also have "\<dots> = unat s * 2 ^ 31 + (unat e * 2 ^ 23 + unat f * 2 ^ 13)"
    using nat_or_plus [OF f, of "unat e"] nat_or_plus [OF low, of "unat s"] by (simp add: push_bit_eq_mult)
  finally have n: "unat (push_bit 31 s OR push_bit 23 e OR push_bit 13 f) = unat s * 2 ^ 31 + (unat e * 2 ^ 23 + unat f * 2 ^ 13)" .
  show "f32_sign (push_bit 31 s OR push_bit 23 e OR push_bit 13 f) = unat s"
    using low by (simp add: f32_sign_def n)
  have "(unat s * 2 ^ 31 + (unat e * 2 ^ 23 + unat f * 2 ^ 13)) div 2 ^ 23 = unat s * 256 + unat e"
    using f by (intro div_nat_eqI) auto
  then show "f32_exp (push_bit 31 s OR push_bit 23 e OR push_bit 13 f) = unat e"
    using assms(2) by (simp add: f32_exp_def n)
  have "(unat s * 2 ^ 31 + (unat e * 2 ^ 23 + unat f * 2 ^ 13)) mod 2 ^ 23 = unat f * 2 ^ 13"
  proof -
    have "unat s * 2 ^ 31 + (unat e * 2 ^ 23 + unat f * 2 ^ 13) = (unat s * 256 + unat e) * 2 ^ 23 + unat f * 2 ^ 13" by simp
    then show ?thesis using f by (simp only: mod_mult_self3 mod_less)
  qed
  then show "f32_frac (push_bit 31 s OR push_bit 23 e OR push_bit 13 f) = unat f * 2 ^ 13" by (simp add: f32_frac_def n)
qed

definition f16_exp :: "u16 \<Rightarrow> nat" where "f16_exp h = unat h div 2 ^ 10 mod 32"
definition f16_frac :: "u16 \<Rightarrow> nat" where "f16_frac h = unat h mod 2 ^ 10"
definition f16_sign :: "u16 \<Rightarrow> nat" where "f16_sign h = unat h div 2 ^ 15"

lemma f16_fields:
  "unat (ucast (drop_bit 15 h) :: u32) = f16_sign h"
  "unat (ucast (drop_bit 10 h AND 0x1F) :: u32) = f16_exp h"
  "unat (ucast (h AND 0x3FF) :: u32) = f16_frac h"
proof -
  have m: "drop_bit 10 h AND 0x1F = take_bit 5 (drop_bit 10 h)" "h AND 0x3FF = take_bit 10 h"
    by (simp_all add: take_bit_eq_mask mask_eq_exp_minus_1)
  have u: "unat (ucast w :: u32) = unat w" for w :: u16
  proof -
    have "unat w < 2 ^ LENGTH(16)" by (rule unsigned_less)
    then have "unat w < 2 ^ 32" by simp
    then show ?thesis by (simp add: unsigned_ucast_eq take_bit_nat_eq_self)
  qed
  have "unat h < 2 ^ LENGTH(16)" by (rule unsigned_less)
  then have h: "take_bit 16 (unat h) = unat h" "unat h mod 65536 = unat h" by (simp_all add: take_bit_nat_eq_self)
  show "unat (ucast (drop_bit 15 h) :: u32) = f16_sign h"
    unfolding u f16_sign_def unsigned_drop_bit_eq by (simp add: drop_bit_eq_div h)
  show "unat (ucast (drop_bit 10 h AND 0x1F) :: u32) = f16_exp h"
    unfolding u m f16_exp_def unsigned_take_bit_eq unsigned_drop_bit_eq by (simp add: take_bit_eq_mod drop_bit_eq_div h)
  show "unat (ucast (h AND 0x3FF) :: u32) = f16_frac h"
    unfolding u m f16_frac_def unsigned_take_bit_eq by (simp add: take_bit_eq_mod)
qed

lemma bit10_iff: "unat f < 2048 \<Longrightarrow> (f AND 0x400 = (0 :: u32)) = (unat f < 1024)"
proof -
  assume f: "unat f < 2048"
  have "(f AND 0x400 = 0) = (\<not> bit f 10)" using and_exp_eq_0_iff_not_bit [of f 10] by simp
  also have "bit f 10 = odd (unat f div 1024)" 
  proof -
    have "bit (unat f) 10 = bit f 10" by (simp add: bit_unsigned_iff)
    then show ?thesis by (simp add: bit_iff_odd [of "unat f"])
  qed
  also have "unat f div 1024 = (if unat f < 1024 then 0 else 1)" using f by auto
  finally show ?thesis by simp
qed

lemma f16_normalise_run:
  "2 ^ j \<le> unat f \<Longrightarrow> unat f < 2 ^ (j + 1) \<Longrightarrow> j \<le> 10 \<Longrightarrow>
   \<exists>g. f16_normalise f e = Some (g, e - int (10 - j)) \<and> unat g = unat f * 2 ^ (10 - j)"
proof (induction "10 - j" arbitrary: j f e)
  case 0
  then have "j = 10" by simp
  then show ?case using 0 bit10_iff [of f] by (subst f16_normalise.simps) simp
next
  case (Suc k)
  then have j: "j < 10" "k = 10 - (j + 1)" by simp_all
  have "(2 :: nat) ^ (j + 1) \<le> 2 ^ 10" using j(1) by (intro power_increasing) simp_all
  then have small: "unat f < 1024" using Suc.prems(2) by simp
  then have dbl: "unat (push_bit 1 f) = 2 * unat f" by (subst unat_push_bit) (simp_all add: push_bit_eq_mult)
  have "\<exists>g. f16_normalise (push_bit 1 f) (e - 1) = Some (g, e - 1 - int (10 - (j + 1))) \<and>
      unat g = unat (push_bit 1 f) * 2 ^ (10 - (j + 1))"
    by (rule Suc.hyps(1) [OF j(2)]) (use Suc.prems j dbl in simp_all)
  moreover have "int (10 - j) = 1 + int (10 - (j + 1))" "(2 :: nat) ^ (10 - j) = 2 * 2 ^ (10 - (j + 1))"
    using j(1) Suc.hyps(2) by (simp_all add: of_nat_diff flip: power_Suc)
  ultimately show ?case
    using small bit10_iff [of f] dbl by (subst f16_normalise.simps) (auto simp: algebra_simps)
qed

text \<open>
  The magnitude of a finite single in units of \<open>2\<^sup>-\<^sup>1\<^sup>4\<^sup>9\<close>, that of a finite half in units of \<open>2\<^sup>-\<^sup>2\<^sup>4\<close>: the
  two patterns denote the same number when the first is \<open>2\<^sup>1\<^sup>2\<^sup>5\<close> times the second.
\<close>

definition f32_mag :: "u32 \<Rightarrow> nat" where
  "f32_mag b = (if f32_exp b = 0 then f32_frac b else (2 ^ 23 + f32_frac b) * 2 ^ (f32_exp b - 1))"

definition f16_mag :: "u16 \<Rightarrow> nat" where
  "f16_mag h = (if f16_exp h = 0 then f16_frac h else (2 ^ 10 + f16_frac h) * 2 ^ (f16_exp h - 1))"

lemma f16_bounds: "f16_sign h < 2" "f16_exp h < 32" "f16_frac h < 1024"
proof -
  have "unat h < 2 ^ LENGTH(16)" by (rule unsigned_less)
  then show "f16_sign h < 2" by (auto simp: f16_sign_def)
qed (simp_all add: f16_exp_def f16_frac_def)

lemma f16_subnormal:
  assumes "f16_frac h \<noteq> 0"
  obtains j g where "j < 10"
    and "f16_normalise (ucast (h AND 0x3FF)) 102 = Some (g, 92 + int j)"
    and "unat g = f16_frac h * 2 ^ (10 - j)" and "2 ^ 10 \<le> unat g" and "unat g < 2 ^ 11"
proof -
  let ?f = "ucast (h AND 0x3FF) :: u32"
  have f: "unat ?f = f16_frac h" by (rule f16_fields(3))
  obtain j where j: "2 ^ j \<le> unat ?f" "unat ?f < 2 ^ (j + 1)"
    using ex_power_ivl1 [of 2 "unat ?f"] assms f by auto
  have "(2 :: nat) ^ j < 2 ^ 10" using j(1) f16_bounds(3) [of h] f by simp
  then have j10: "j < 10" by (rule power_less_imp_less_exp [rotated]) simp
  obtain g where g: "f16_normalise ?f 102 = Some (g, 102 - int (10 - j))" "unat g = unat ?f * 2 ^ (10 - j)"
    using f16_normalise_run [OF j, of 102] j10 by auto
  have "2 ^ j * 2 ^ (10 - j) \<le> unat g" "unat g < 2 ^ (j + 1) * 2 ^ (10 - j)"
    using j unfolding g(2) by (simp_all only: mult_le_mono1 mult_less_cancel2 zero_less_power zero_less_numeral)
  moreover have "2 ^ j * 2 ^ (10 - j) = (2 :: nat) ^ (j + (10 - j))" "2 ^ (j + 1) * 2 ^ (10 - j) = (2 :: nat) ^ (j + 1 + (10 - j))"
    by (simp_all only: power_add)
  ultimately have "2 ^ 10 \<le> unat g" "unat g < 2 ^ 11" using j10 by simp_all
  then show thesis using that [OF j10] g j10 f by (simp add: of_nat_diff)
qed

lemma scale_normal: "(2 ^ 23 + f * 2 ^ 13) * 2 ^ (k + 112) = (2 ^ 10 + f) * 2 ^ k * (2 :: nat) ^ 125"
  by (simp add: power_add algebra_simps)

lemma scale_subnormal:
  assumes "j < 10" and "g = f * 2 ^ (10 - j)" and "2 ^ 10 \<le> g"
  shows "(2 ^ 23 + (g - 2 ^ 10) * 2 ^ 13) * 2 ^ (j + 92) * 2 ^ 10 = f * (2 :: nat) ^ 125"
proof -
  have "2 ^ 23 + (g - 2 ^ 10) * 2 ^ 13 = g * 2 ^ 13" using assms(3) by simp
  moreover have "(2 :: nat) ^ (10 - j) * 2 ^ (j + 92) = 2 ^ (10 - j + (j + 92))" by (simp only: power_add)
  ultimately show ?thesis using assms(1, 2) by simp
qed

lemma f16_operands:
  "unat (ucast (drop_bit 15 h) :: u32) < 2" "unat (ucast (h AND 0x3FF) :: u32) < 1024"
  "(ucast (drop_bit 10 h AND 0x1F) :: u32) = 0 \<longleftrightarrow> f16_exp h = 0"
  "(ucast (drop_bit 10 h AND 0x1F) :: u32) = 0x1F \<longleftrightarrow> f16_exp h = 31"
  "(ucast (h AND 0x3FF) :: u32) = 0 \<longleftrightarrow> f16_frac h = 0"
  using f16_bounds [of h] by (simp_all flip: f16_fields [of h] unat_eq_zero add: word_unat_eq_iff)

lemma f16_widen_normal:
  assumes "f16_exp h \<noteq> 0" and "f16_exp h \<noteq> 31"
  shows "\<exists>b. f16_to_f32 h = Some b \<and> f32_sign b = f16_sign h \<and> f32_exp b \<noteq> 255 \<and> f32_mag b = f16_mag h * 2 ^ 125"
proof -
  let ?s = "ucast (drop_bit 15 h) :: u32" and ?e = "ucast (drop_bit 10 h AND 0x1F) :: u32" and ?f = "ucast (h AND 0x3FF) :: u32"
  note fields = f16_fields [of h] and bounds = f16_bounds [of h] and ops = f16_operands [of h]
  have "?e + 127 - 15 = word_of_nat (f16_exp h + 112)" by (simp flip: fields)
  then have ue: "unat (?e + 127 - 15) = f16_exp h + 112" using bounds by (simp only: unat_of_nat) simp
  have "f16_to_f32 h = Some (push_bit 31 ?s OR push_bit 23 (?e + 127 - 15) OR push_bit 13 ?f)"
    using assms by (simp add: f16_to_f32_def Let_def ops)
  moreover obtain k where "f16_exp h = Suc k" using assms(1) by (cases "f16_exp h") simp_all
  ultimately show ?thesis
    using assemble [OF ops(1) _ ops(2), of "?e + 127 - 15"] ue assms fields bounds scale_normal [of "f16_frac h" k]
    by (simp add: f32_mag_def f16_mag_def add.commute)
qed

lemma f16_widen_subnormal:
  assumes "f16_exp h = 0" and "f16_frac h \<noteq> 0"
  shows "\<exists>b. f16_to_f32 h = Some b \<and> f32_sign b = f16_sign h \<and> f32_exp b \<noteq> 255 \<and> f32_mag b * 2 ^ 10 = f16_mag h * 2 ^ 125"
proof -
  let ?s = "ucast (drop_bit 15 h) :: u32" and ?f = "ucast (h AND 0x3FF) :: u32"
  from f16_subnormal [OF assms(2)] obtain j g where j: "j < 10"
    and n: "f16_normalise ?f 102 = Some (g, 92 + int j)"
    and g: "unat g = f16_frac h * 2 ^ (10 - j)" "2 ^ 10 \<le> unat g" "unat g < 2 ^ 11" by blast
  have "word_of_int (93 + int j) = (word_of_nat (93 + j) :: u32)" by simp
  then have ue: "unat (word_of_int (93 + int j) :: u32) = 93 + j" using j by (simp only: unat_of_nat) simp
  have m: "g AND 0x3FF = take_bit 10 g" by (simp add: take_bit_eq_mask mask_eq_exp_minus_1)
  have ug: "unat (g AND 0x3FF) = unat g - 2 ^ 10"
    using g(2, 3) unfolding m unsigned_take_bit_eq by (simp add: take_bit_eq_mod le_mod_geq)
  moreover have "f16_to_f32 h = Some (push_bit 31 ?s OR push_bit 23 (word_of_int (93 + int j)) OR push_bit 13 (g AND 0x3FF))"
    using assms n by (simp add: f16_to_f32_def Let_def f16_operands)
  ultimately show ?thesis
    using assemble [OF f16_operands(1) [of h], of "word_of_int (93 + int j)" "g AND 0x3FF"] ue ug g j assms f16_fields [of h]
      scale_subnormal [OF j g(1, 2)] by (simp add: f32_mag_def f16_mag_def add.commute mult.commute)
qed

text \<open>C32. \<open>f16_to_f32\<close> returns for every half and keeps its sign; infinities and NaNs keep their fraction, zeros
  and normal halves their value. A subnormal half, however, comes out \<open>2\<^sup>1\<^sup>0\<close> times too small.\<close>

theorem f16_widening:
  "\<exists>b. f16_to_f32 h = Some b \<and> f32_sign b = f16_sign h \<and>
     (if f16_exp h = 31 then f32_exp b = 255 \<and> f32_frac b = f16_frac h * 2 ^ 13
      else f32_exp b \<noteq> 255 \<and> f32_mag b * (if f16_exp h = 0 then 2 ^ 10 else 1) = f16_mag h * 2 ^ 125)"
proof -
  let ?s = "ucast (drop_bit 15 h) :: u32" and ?f = "ucast (h AND 0x3FF) :: u32"
  note fields = f16_fields [of h] and ops = f16_operands [of h]
  consider (zero) "f16_exp h = 0" "f16_frac h = 0" | (subnormal) "f16_exp h = 0" "f16_frac h \<noteq> 0"
    | (inf) "f16_exp h = 31" | (normal) "f16_exp h \<noteq> 0" "f16_exp h \<noteq> 31" by blast
  then show ?thesis
  proof cases
    case zero
    then have "f16_to_f32 h = Some (push_bit 31 ?s OR push_bit 23 0 OR push_bit 13 0)"
      by (simp add: f16_to_f32_def Let_def ops)
    then show ?thesis using assemble [OF ops(1), of 0 0] zero fields by (simp add: f32_mag_def f16_mag_def)
  next
    case inf
    then have "f16_to_f32 h = Some (push_bit 31 ?s OR push_bit 23 0xFF OR push_bit 13 ?f)"
      by (simp add: f16_to_f32_def Let_def ops)
    then show ?thesis using assemble [OF ops(1) _ ops(2), of "0xFF"] inf fields by simp
  next
    case normal
    then show ?thesis using f16_widen_normal [OF normal] by simp
  next
    case subnormal
    then show ?thesis using f16_widen_subnormal [OF subnormal] by simp
  qed
qed

section \<open>An opened model\<close>

text \<open>What the validation leaves of an entry: its range lies in the file and has room for exactly the
  elements of its shape.\<close>

definition entry_ok :: "u64 \<Rightarrow> Entry \<Rightarrow> bool" where
  "entry_ok file_size e \<longleftrightarrow>
     en_start e \<le> en_end e \<and> en_end e \<le> file_size \<and>
     unat (en_end e) - unat (en_start e) = unat (Entry_numel e) * unat (CkDtype_size (en_dtype e))"

lemma open_entry_ok:
  assumes "open_entry file_size data_start name v = Inr e"
  shows "entry_ok file_size e"
proof -
  from assms obtain a b where e: "en_start e = data_start + a" "en_end e = data_start + b" "a \<le> b"
    "unat data_start + unat a < 2 ^ 64" "unat data_start + unat b < 2 ^ 64" "en_end e \<le> file_size"
    "b - a = prod_list (en_shape e) * CkDtype_size (en_dtype e)"
    "unat (prod_list (en_shape e)) * unat (CkDtype_size (en_dtype e)) < 2 ^ 64"
    by (auto simp: open_entry_def Let_def not_less)
  have "unat (en_start e) = unat data_start + unat a" "unat (en_end e) = unat data_start + unat b"
    using e by (simp_all add: unat_add_u64)
  moreover have "unat b - unat a = unat (Entry_numel e) * unat (CkDtype_size (en_dtype e))"
    using unat_sub_u64 [OF e(3)] e(7, 8) by (simp add: Entry_numel_def unat_mul_u64)
  ultimately show ?thesis using e(3, 6) by (simp add: entry_ok_def word_le_nat_alt)
qed

lemma set_update_subset: "set (AList.update k v al) \<subseteq> insert (k, v) (set al)"
  by (induction al) auto

lemma open_entries_ok:
  "open_entries file_size data_start obj ts = Inr ts' \<Longrightarrow> (\<And>kv. kv \<in> set ts \<Longrightarrow> entry_ok file_size (snd kv)) \<Longrightarrow>
   kv \<in> set ts' \<Longrightarrow> entry_ok file_size (snd kv)"
proof (induction obj arbitrary: ts)
  case (Cons ob obj)
  show ?case
  proof (cases "fst ob = lit ''__metadata__''")
    case False
    with Cons.prems(1) obtain e where e: "open_entry file_size data_start (fst ob) (snd ob) = Inr e"
      "open_entries file_size data_start obj (AList.update (fst ob) e ts) = Inr ts'" by auto
    show ?thesis
      by (rule Cons.IH [OF e(2) _ Cons.prems(3)])
        (use set_update_subset [of "fst ob" e ts] open_entry_ok [OF e(1)] Cons.prems(2) in auto)
  qed (use Cons in auto)
qed simp

lemma Shard_open_ok:
  fixes from_slice :: "u8 list \<Rightarrow> 'f json option"
  assumes "Shard_open fs from_slice p = Inr s" and "fs p = Some b" and "Shard_get s name = Some e"
  shows "entry_ok (word_of_nat (length b)) e"
proof -
  from assms(1, 2) obtain ds ts and obj :: "(rstr \<times> 'f json) list"
    where "open_entries (word_of_nat (length b)) ds obj [] = Inr ts" "sd_tensors s = sort_key fst ts"
    by (auto simp: Shard_open_def Let_def)
  moreover from this assms(3) have "(name, e) \<in> set ts"
    using map_of_SomeD [of "sd_tensors s" name e] by (simp add: Shard_get_def)
  ultimately show ?thesis using open_entries_ok by fastforce
qed

lemma index_shard_Inr:
  "index_shard si ts index = Inr index' \<Longrightarrow>
   map_of index' n = (case map_of ts n of Some e \<Rightarrow> Some (si, e) | None \<Rightarrow> map_of index n) \<and>
   (map_of ts n \<noteq> None \<longrightarrow> map_of index n = None)"
proof (induction ts arbitrary: index)
  case (Cons kv ts)
  then have "map_of index (fst kv) = None" "index_shard si ts (AList.update (fst kv) (si, snd kv) index) = Inr index'"
    by (auto split: option.splits)
  with Cons.IH [OF this(2)] show ?case by (cases kv) (auto simp: update_conv' split: option.splits if_splits)
qed simp

text \<open>
  The state of the opening loop after the paths in \<open>P\<close>: one buffer per shard, both from a path of \<open>P\<close>;
  the index holds a name exactly when a shard has it.
\<close>

definition ck_inv ::
  "(rstr \<Rightarrow> u8 list option) \<Rightarrow> (u8 list \<Rightarrow> 'f json option) \<Rightarrow> rstr set \<Rightarrow> CkModel \<Rightarrow> bool" where
  "ck_inv fs from_slice P m \<longleftrightarrow>
     list_all2 (\<lambda>s b. \<exists>p\<in>P. Shard_open fs from_slice p = Inr s \<and> fs p = Some b) (ck_shards m) (ck_bufs m) \<and>
     (\<forall>n si e. map_of (ck_index m) n = Some (si, e) \<longleftrightarrow> si < length (ck_shards m) \<and> Shard_get (ck_shards m ! si) n = Some e) \<and>
     (\<forall>p\<in>P. \<exists>s\<in>set (ck_shards m). Shard_open fs from_slice p = Inr s)"

lemma ck_inv_step:
  assumes inv: "ck_inv fs from_slice P m"
    and s: "Shard_open fs from_slice p = Inr s" "fs p = Some b"
    and index: "index_shard (length (ck_shards m)) (sd_tensors s) (ck_index m) = Inr index"
  shows "ck_inv fs from_slice (insert p P) \<lparr>ck_shards = ck_shards m @ [s], ck_index = index, ck_bufs = ck_bufs m @ [b]\<rparr>"
proof -
  have old: "list_all2 (\<lambda>s b. \<exists>p\<in>P. Shard_open fs from_slice p = Inr s \<and> fs p = Some b) (ck_shards m) (ck_bufs m)"
    using inv by (simp add: ck_inv_def)
  have "list_all2 (\<lambda>s b. \<exists>p\<in>insert p P. Shard_open fs from_slice p = Inr s \<and> fs p = Some b)
      (ck_shards m @ [s]) (ck_bufs m @ [b])"
    by (rule list_all2_appendI) (use s in \<open>auto intro: list_all2_mono [OF old]\<close>)
  moreover have "map_of index n = Some (si, e) \<longleftrightarrow>
      si < length (ck_shards m @ [s]) \<and> Shard_get ((ck_shards m @ [s]) ! si) n = Some e" for n si e
  proof -
    have "map_of (ck_index m) n = Some (si, e) \<longleftrightarrow> si < length (ck_shards m) \<and> Shard_get (ck_shards m ! si) n = Some e"
      using inv by (simp add: ck_inv_def)
    then show ?thesis using index_shard_Inr [OF index, of n]
      by (cases "map_of (sd_tensors s) n") (auto simp: Shard_get_def nth_append less_Suc_eq)
  qed
  moreover have "\<forall>q\<in>insert p P. \<exists>s'\<in>set (ck_shards m @ [s]). Shard_open fs from_slice q = Inr s'"
    using inv s by (auto simp: ck_inv_def)
  ultimately show ?thesis by (simp add: ck_inv_def)
qed

lemma open_shards_inv:
  "open_shards fs from_slice ps m = Inr m' \<Longrightarrow> ck_inv fs from_slice P m \<Longrightarrow> ck_inv fs from_slice (P \<union> set ps) m'"
proof (induction ps arbitrary: m P)
  case (Cons p ps)
  from Cons.prems(1) obtain s index b where
    "Shard_open fs from_slice p = Inr s" "fs p = Some b"
    "index_shard (length (ck_shards m)) (sd_tensors s) (ck_index m) = Inr index"
    "open_shards fs from_slice ps \<lparr>ck_shards = ck_shards m @ [s], ck_index = index, ck_bufs = ck_bufs m @ [b]\<rparr> = Inr m'"
    by auto
  with Cons.IH [OF this(4) ck_inv_step [OF Cons.prems(2)]] show ?case by simp
qed simp

definition safetensors_of :: "rstr list \<Rightarrow> rstr set" where
  "safetensors_of entries = {p \<in> set entries. path_extension p = Some (lit ''safetensors'')}"

lemma CkModel_open_inv:
  "CkModel_open fs from_slice entries = Inr m \<Longrightarrow> ck_inv fs from_slice (safetensors_of entries) m"
  using open_shards_inv [where P = "{}" and fs = fs and from_slice = from_slice]
  by (fastforce simp: CkModel_open_def Let_def safetensors_of_def ck_inv_def)

lemma elements_length: "length (elements esz bytes) = length bytes div esz"
  by (simp add: elements_def)

lemma elements_Cons:
  assumes "length x = n" and "0 < n"
  shows "elements n (x @ ys) = x # elements n ys"
proof -
  have "length (x @ ys) div n = Suc (length ys div n)" using assms by (simp add: div_add_self1)
  then show ?thesis
    using assms by (simp add: elements_def upt_conv_Cons map_Suc_upt [symmetric] o_def del: upt_Suc)
qed

lemma elements_concat: "0 < n \<Longrightarrow> (\<And>x. x \<in> set xs \<Longrightarrow> length x = n) \<Longrightarrow> elements n (concat xs) = xs"
proof (induction xs)
  case (Cons x xs)
  then show ?case by (simp add: elements_Cons)
qed (simp add: elements_def)

lemma elements_zeros: "elements 4 (replicate (4 * k) 0) = replicate k (replicate 4 (0 :: u8))"
proof -
  have "concat (replicate k (replicate 4 0)) = replicate (4 * k) (0 :: u8)"
    by (induction k) (simp_all add: replicate_add)
  moreover have "elements 4 (concat (replicate k (replicate 4 0))) = replicate k (replicate 4 (0 :: u8))"
    by (rule elements_concat) auto
  ultimately show ?thesis by simp
qed

lemma le_nat_zeros [simp]: "le_nat (replicate n 0) = 0"
  by (induction n) simp_all

lemma f16_total: "\<exists>b. f16_to_f32 h = Some b"
proof (cases "f16_frac h = 0")
  case True
  then have "(ucast (h AND 0x3FF) :: u32) = 0" by (simp flip: f16_fields unat_eq_zero)
  then show ?thesis by (simp add: f16_to_f32_def Let_def)
next
  case False
  then obtain j g where "f16_normalise (ucast (h AND 0x3FF)) 102 = Some (g, 92 + int j)" by (rule f16_subnormal)
  then show ?thesis by (simp add: f16_to_f32_def Let_def)
qed

lemma ck_decode_total:
  assumes "length bytes = n * unat (CkDtype_size dt)"
  shows "\<exists>v. ck_decode dt bytes = Inr v \<and> length v = n"
proof -
  have pos: "0 < unat (CkDtype_size dt)" by (cases dt) simp_all
  have "\<exists>v. collect_result (\<lambda>b. ok_or (f16_to_f32 (word_of_nat (le_nat b))) CkPanic) xs = Inr v \<and> length v = length xs" for xs
    using f16_total by (induction xs) (force simp: ok_or_def split: option.splits)+
  from this [of "elements 2 bytes"] show ?thesis using assms pos
    by (cases dt) (auto simp: ck_decode_def Let_def elements_length)
qed

text \<open>C21. The index of an opened model is the union of its shards' tables: a name has an entry exactly when a
  \<open>.safetensors\<close> file of the directory opens and lists it.\<close>

theorem checkpoint_index_refines:
  assumes "CkModel_open fs from_slice entries = Inr m"
  shows "ck_entry m name = Some e \<longleftrightarrow>
    (\<exists>p \<in> safetensors_of entries. \<exists>s. Shard_open fs from_slice p = Inr s \<and> Shard_get s name = Some e)"
proof -
  note inv = CkModel_open_inv [OF assms, unfolded ck_inv_def]
  have "ck_entry m name = Some e \<longleftrightarrow> (\<exists>s \<in> set (ck_shards m). Shard_get s name = Some e)"
    using inv by (auto simp: ck_entry_def in_set_conv_nth intro: nth_mem)
  moreover have "s \<in> set (ck_shards m) \<longleftrightarrow> (\<exists>p \<in> safetensors_of entries. Shard_open fs from_slice p = Inr s)" for s
    using inv by (fastforce simp: list_all2_conv_all_nth in_set_conv_nth)
  ultimately show ?thesis by blast
qed

text \<open>C20. Every indexed tensor of an opened model decodes without a panic to exactly the elements of its shape, and
  the values are those of its byte range in one of the directory's files; any other name is an error.\<close>

theorem checkpoint_tensor_decodes:
  assumes "CkModel_open fs from_slice entries = Inr m"
    and "\<forall>p b. fs p = Some b \<longrightarrow> length b < 2 ^ 64"
  shows "case ck_entry m name of
      None \<Rightarrow> ck_tensor m name = Inl (CkNoTensor name)
    | Some e \<Rightarrow> \<exists>p \<in> safetensors_of entries. \<exists>b v. fs p = Some b \<and> ck_tensor m name = Inr v \<and>
        ck_decode (en_dtype e) (take (unat (en_end e) - unat (en_start e)) (drop (unat (en_start e)) b)) = Inr v \<and>
        length v = unat (Entry_numel e)"
proof (cases "map_of (ck_index m) name")
  case None
  then show ?thesis by (simp add: ck_entry_def ck_tensor_def)
next
  case (Some sie)
  then obtain si e where sie: "map_of (ck_index m) name = Some (si, e)" by (cases sie) simp
  note inv = CkModel_open_inv [OF assms(1), unfolded ck_inv_def]
  from sie inv have si: "si < length (ck_shards m)" "Shard_get (ck_shards m ! si) name = Some e" by blast+
  with inv obtain p where p: "p \<in> safetensors_of entries" "Shard_open fs from_slice p = Inr (ck_shards m ! si)"
    "fs p = Some (ck_bufs m ! si)" and l: "si < length (ck_bufs m)" by (auto simp: list_all2_conv_all_nth)
  let ?b = "ck_bufs m ! si" and ?n = "unat (en_end e) - unat (en_start e)"
  have "unat (word_of_nat (length ?b) :: u64) = length ?b" using assms(2) p(3) by (auto simp: unat_of_nat)
  with Shard_open_ok [OF p(2, 3) si(2)]
  have ok: "en_start e \<le> en_end e" "unat (en_end e) \<le> length ?b" "?n = unat (Entry_numel e) * unat (CkDtype_size (en_dtype e))"
    by (auto simp: entry_ok_def word_le_nat_alt)
  then have "length (take ?n (drop (unat (en_start e)) ?b)) = unat (Entry_numel e) * unat (CkDtype_size (en_dtype e))" by simp
  from ck_decode_total [OF this] obtain v
    where v: "ck_decode (en_dtype e) (take ?n (drop (unat (en_start e)) ?b)) = Inr v" "length v = unat (Entry_numel e)" by blast
  then have "ck_tensor m name = Inr v" using sie l ok(1, 2) by (simp add: ck_tensor_def Let_def)
  then show ?thesis using sie p(1, 3) v by (auto simp: ck_entry_def)
qed

text \<open>
  The product of a shape is not checked: a shape of \<open>2\<^sup>6\<^sup>4\<close> elements with an empty range is accepted as having none.
\<close>

lemma open_entry_product_wraps:
  "open_entry 100 10 name
     (JObj [(lit ''dtype'', JStr (lit ''F32'')), (lit ''shape'', JArr [JNum (PosInt (2 ^ 32)), JNum (PosInt (2 ^ 32))]),
       (lit ''data_offsets'', JArr [JNum (PosInt 0), JNum (PosInt 0)])] :: 'f json) =
   Inr \<lparr>en_dtype = Ck_F32, en_shape = [2 ^ 32, 2 ^ 32], en_start = 10, en_end = 10\<rparr>"
  by (simp add: open_entry_def CkDtype_parse_def Let_def checked_mul_def checked_add_def u64_MAX_def)

section \<open>Witnesses\<close>

text \<open>A shard with two halves: the smallest subnormal and one.\<close>

definition ck_ex_fs :: "rstr \<Rightarrow> u8 list option" where
  "ck_ex_fs p =
     (if p = lit ''m.safetensors'' then Some (u64_to_le_bytes 2 @ [123, 125] @ [1, 0, 0, 0x3C]) else None)"

definition ck_ex_from_slice :: "u8 list \<Rightarrow> nat json option" where
  "ck_ex_from_slice bs =
     (if bs = [123, 125]
      then Some (JObj [(lit ''w'', JObj [(lit ''dtype'', JStr (lit ''F16'')), (lit ''shape'', JArr [JNum (PosInt 2)]),
        (lit ''data_offsets'', JArr [JNum (PosInt 0), JNum (PosInt 4)])])])
      else None)"

definition ck_ex_entry :: Entry where
  "ck_ex_entry = \<lparr>en_dtype = Ck_F16, en_shape = [2], en_start = 10, en_end = 14\<rparr>"

definition ck_ex_model :: CkModel where
  "ck_ex_model =
     \<lparr>ck_shards = [\<lparr>sd_path = lit ''m.safetensors'', sd_file_size = 14, sd_data_start = 10, sd_tensors = [(lit ''w'', ck_ex_entry)]\<rparr>],
      ck_index = [(lit ''w'', (0, ck_ex_entry))],
      ck_bufs = [[2, 0, 0, 0, 0, 0, 0, 0, 123, 125, 1, 0, 0, 0x3C]]\<rparr>"

lemma ck_ex_open:
  "CkModel_open ck_ex_fs ck_ex_from_slice [lit ''config.json'', lit ''m.safetensors''] = Inr ck_ex_model"
proof -
  have "u64_from_le_bytes [2, 0, 0, 0, 0, 0, 0, 0] = 2" by (simp add: u64_from_le_bytes_def)
  moreover have "open_entry 14 10 (lit ''w'')
      (JObj [(lit ''dtype'', JStr (lit ''F16'')), (lit ''shape'', JArr [JNum (PosInt 2)]),
        (lit ''data_offsets'', JArr [JNum (PosInt 0), JNum (PosInt 4)])] :: nat json) = Inr ck_ex_entry"
    by (simp add: open_entry_def CkDtype_parse_def Let_def checked_mul_def checked_add_def u64_MAX_def ck_ex_entry_def)
  ultimately show ?thesis
    by (simp add: CkModel_open_def Let_def path_extension_def Shard_open_def ck_ex_fs_def ex_le_bytes read_u64_le_def
        read_exact_at_def checked_add_def ck_ex_from_slice_def ck_ex_model_def)
qed

theorem checkpoint_index_refines_witness:
  "ck_entry ck_ex_model (lit ''w'') = Some ck_ex_entry \<and>
   (\<exists>p \<in> safetensors_of [lit ''config.json'', lit ''m.safetensors''].
      \<exists>s. Shard_open ck_ex_fs ck_ex_from_slice p = Inr s \<and> Shard_get s (lit ''w'') = Some ck_ex_entry)"
  using checkpoint_index_refines [OF ck_ex_open, of "lit ''w''" ck_ex_entry]
  by (simp add: ck_entry_def ck_ex_model_def)

lemma ck_ex_short: "\<forall>p b. ck_ex_fs p = Some b \<longrightarrow> length b < 2 ^ 64"
  by (auto simp: ck_ex_fs_def ex_le_bytes split: if_splits)

theorem checkpoint_tensor_decodes_witness:
  "\<exists>v. ck_tensor ck_ex_model (lit ''w'') = Inr v \<and> length v = 2 \<and> ck_tensor ck_ex_model (lit ''x'') = Inl (CkNoTensor (lit ''x''))"
  using checkpoint_tensor_decodes [OF ck_ex_open ck_ex_short, where name = "lit ''w''"]
    checkpoint_tensor_decodes [OF ck_ex_open ck_ex_short, where name = "lit ''x''"]
  by (auto simp: ck_entry_def ck_ex_model_def ck_ex_entry_def Entry_numel_def)

end
