(* ===== verification/Sample.thy ===== *)
theory Sample
  imports Rust_Float
begin

text \<open>
  The sampler (\<open>gdn/src/sample.rs\<close>): the splitmix64 generator on 64-bit words, the
  configuration check, every logits filter in the order \<open>apply_filters\<close> runs them, softmax and
  the inverse-CDF draw. Logits are a list; a filter returns the updated list. Single and double
  precision are the two parameters of \<open>sops\<close>.
\<close>

record ('f, 'g) sops =
  s32 :: "'f fops"
  s64 :: "'g fops"
  widen :: "'f \<Rightarrow> 'g"
  narrow :: "'g \<Rightarrow> 'f"

abbreviation FILTERED :: "('f, 'g) sops \<Rightarrow> 'f" where
  "FILTERED S \<equiv> f_neg_inf (s32 S)"

abbreviation masked :: "('f, 'g) sops \<Rightarrow> 'f \<Rightarrow> bool" where
  "masked S v \<equiv> f_eq (s32 S) v (FILTERED S)"

definition is_positive :: "('f, 'g) sops \<Rightarrow> 'f \<Rightarrow> bool" where
  "is_positive S x \<longleftrightarrow> f_lt (s32 S) (f_zero (s32 S)) x"

section \<open>The generator\<close>

record SplitMix64 =
  sm_state :: u64

definition SplitMix64_new :: "u64 \<Rightarrow> SplitMix64" where
  "SplitMix64_new seed = \<lparr>sm_state = seed\<rparr>"

definition mix64 :: "u64 \<Rightarrow> u64" where
  "mix64 s =
     (let z = xor s (drop_bit 30 s) * 0xBF58476D1CE4E5B9;
          z = xor z (drop_bit 27 z) * 0x94D049BB133111EB
      in xor z (drop_bit 31 z))"

definition sm_next_u64 :: "SplitMix64 \<Rightarrow> u64 \<times> SplitMix64" where
  "sm_next_u64 r =
     (let s = sm_state r + 0x9E3779B97F4A7C15 in (mix64 s, r\<lparr>sm_state := s\<rparr>))"

text \<open>The 53-bit numerator of \<open>next_f64\<close>; the factor \<open>2^-53\<close> is applied by \<open>scale53\<close>.\<close>

definition sm_next_f64 :: "(nat \<Rightarrow> 'g) \<Rightarrow> SplitMix64 \<Rightarrow> 'g \<times> SplitMix64" where
  "sm_next_f64 scale53 r =
     (let (x, r') = sm_next_u64 r in (scale53 (unat (drop_bit 11 x)), r'))"

section \<open>Configuration\<close>

record 'g SamplerConfig =
  c_temperature :: 'g
  c_top_k :: nat
  c_top_p :: 'g
  c_min_p :: 'g
  c_typical_p :: 'g
  c_repetition_penalty :: 'g
  c_presence_penalty :: 'g
  c_frequency_penalty :: 'g
  c_no_repeat_ngram_size :: nat
  c_seed :: u64

definition SamplerConfig_default :: "'g fops \<Rightarrow> 'g SamplerConfig" where
  "SamplerConfig_default G =
     \<lparr>c_temperature = f_zero G, c_top_k = 0, c_top_p = f_one G, c_min_p = f_zero G,
      c_typical_p = f_one G, c_repetition_penalty = f_one G, c_presence_penalty = f_zero G,
      c_frequency_penalty = f_zero G, c_no_repeat_ngram_size = 0, c_seed = 0\<rparr>"

datatype config_error =
    NotFinite nat
  | TopPRange
  | MinPRange
  | RepetitionNotPositive
  | NgramSizeOne

definition is_greedy :: "'g fops \<Rightarrow> 'g SamplerConfig \<Rightarrow> bool" where
  "is_greedy G c \<longleftrightarrow> f_le G (c_temperature c) (f_zero G)"

text \<open>The position of the first field of the list that is not finite.\<close>

fun first_not_finite :: "'g fops \<Rightarrow> nat \<Rightarrow> 'g list \<Rightarrow> nat option" where
  "first_not_finite G i [] = None"
| "first_not_finite G i (x # xs) = (if f_finite G x then first_not_finite G (i + 1) xs else Some i)"

definition validate :: "'g fops \<Rightarrow> 'g SamplerConfig \<Rightarrow> config_error + unit" where
  "validate G c =
     (case first_not_finite G 0 [c_temperature c, c_top_p c, c_min_p c, c_typical_p c,
             c_repetition_penalty c, c_presence_penalty c, c_frequency_penalty c] of
        Some i \<Rightarrow> Inl (NotFinite i)
      | None \<Rightarrow>
          if f_lt G (c_top_p c) (f_zero G) \<or> f_lt G (f_one G) (c_top_p c) then Inl TopPRange
          else if f_lt G (c_min_p c) (f_zero G) \<or> f_lt G (f_one G) (c_min_p c) then Inl MinPRange
          else if f_le G (c_repetition_penalty c) (f_zero G) then Inl RepetitionNotPositive
          else if c_no_repeat_ngram_size c = 1 then Inl NgramSizeOne
          else Inr ())"

section \<open>Penalties\<close>

fun distinct_from :: "nat \<Rightarrow> nat list \<Rightarrow> nat list \<Rightarrow> nat list" where
  "distinct_from vocab seen [] = seen"
| "distinct_from vocab seen (t # ts) =
     distinct_from vocab (if t < vocab \<and> t \<notin> set seen then seen @ [t] else seen) ts"

definition distinct_tokens :: "nat list \<Rightarrow> nat \<Rightarrow> nat list" where
  "distinct_tokens history vocab = distinct_from vocab [] history"

definition repetition_penalty :: "('f, 'g) sops \<Rightarrow> 'f list \<Rightarrow> nat list \<Rightarrow> 'f \<Rightarrow> 'f list" where
  "repetition_penalty S logits history penalty =
     (if f_eq (s32 S) penalty (f_one (s32 S)) then logits
      else foldl (\<lambda>l i.
             if masked S (l ! i) then l
             else l[i := if f_lt (s32 S) (l ! i) (f_zero (s32 S)) then f_mul (s32 S) (l ! i) penalty
                         else f_div (s32 S) (l ! i) penalty])
           logits (distinct_tokens history (length logits)))"

definition presence_penalty :: "('f, 'g) sops \<Rightarrow> 'f list \<Rightarrow> nat list \<Rightarrow> 'f \<Rightarrow> 'f list" where
  "presence_penalty S logits history penalty =
     foldl (\<lambda>l i. if masked S (l ! i) then l else l[i := f_sub (s32 S) (l ! i) penalty])
       logits (distinct_tokens history (length logits))"

text \<open>The association list of counts: increment the entry of the token, or push a new one.\<close>

fun bump :: "nat \<Rightarrow> (nat \<times> nat) list \<Rightarrow> (nat \<times> nat) list" where
  "bump i [] = [(i, 1)]"
| "bump i ((j, c) # cs) = (if j = i then (j, c + 1) # cs else (j, c) # bump i cs)"

definition token_counts :: "nat \<Rightarrow> nat list \<Rightarrow> (nat \<times> nat) list" where
  "token_counts vocab history =
     foldl (\<lambda>counts t. if vocab \<le> t then counts else bump t counts) [] history"

definition frequency_penalty :: "('f, 'g) sops \<Rightarrow> 'f list \<Rightarrow> nat list \<Rightarrow> 'f \<Rightarrow> 'f list" where
  "frequency_penalty S logits history penalty =
     foldl (\<lambda>l (i, c).
         if masked S (l ! i) then l
         else l[i := f_sub (s32 S) (l ! i) (f_mul (s32 S) penalty (f_of_nat (s32 S) c))])
       logits (token_counts (length logits) history)"

fun banned_from :: "nat list \<Rightarrow> nat \<Rightarrow> nat list \<Rightarrow> nat list \<Rightarrow> nat list \<Rightarrow> nat list" where
  "banned_from history n prefix banned [] = banned"
| "banned_from history n prefix banned (w # ws) =
     (let follow = history ! (w + n - 1) in
      banned_from history n prefix
        (if take (n - 1) (drop w history) = prefix \<and> follow \<notin> set banned then banned @ [follow]
         else banned) ws)"

definition no_repeat_ngram :: "('f, 'g) sops \<Rightarrow> 'f list \<Rightarrow> nat list \<Rightarrow> nat \<Rightarrow> 'f list" where
  "no_repeat_ngram S logits history n =
     (if n < 2 \<or> length history < n then logits
      else
        let prefix = drop (length history - (n - 1)) history;
            banned = banned_from history n prefix [] [0..<length history - n + 1]
        in foldl (\<lambda>l i. if i < length l then l[i := FILTERED S] else l) logits banned)"

definition temperature :: "('f, 'g) sops \<Rightarrow> 'f list \<Rightarrow> 'f \<Rightarrow> 'f list" where
  "temperature S logits t =
     (if f_eq (s32 S) t (f_one (s32 S)) then logits else map (\<lambda>v. f_div (s32 S) v t) logits)"

section \<open>Truncation\<close>

definition top_k :: "('f, 'g) sops \<Rightarrow> 'f list \<Rightarrow> nat \<Rightarrow> 'f list" where
  "top_k S logits k =
     (if k = 0 \<or> length logits \<le> k then logits
      else
        let kth = sort_by (\<lambda>a b. f_lt (s32 S) b a) logits ! (k - 1)
        in map (\<lambda>v. if f_lt (s32 S) v kth then FILTERED S else v) logits)"

definition finite_max :: "('f, 'g) sops \<Rightarrow> 'f list \<Rightarrow> 'f" where
  "finite_max S xs = foldl (f_max (s32 S)) (f_neg_inf (s32 S)) (filter (f_finite (s32 S)) xs)"

definition softmax :: "('f, 'g) sops \<Rightarrow> 'f list \<Rightarrow> 'f list" where
  "softmax S logits =
     (let F = s32 S; m = finite_max S logits in
      if \<not> f_finite F m then replicate (length logits) (f_zero F)
      else
        let out = map (\<lambda>v. if masked S v then f_zero F else f_exp F (f_sub F v m)) logits;
            sum = f_sum F out
        in if f_lt F (f_zero F) sum then map (\<lambda>v. f_div F v sum) out else out)"

fun select_from :: "('f, 'g) sops \<Rightarrow> 'g \<Rightarrow> nat \<Rightarrow> 'g \<Rightarrow> nat option \<Rightarrow> 'f list \<Rightarrow> nat option" where
  "select_from S u i acc lst [] = lst"
| "select_from S u i acc lst (p # ps) =
     (if \<not> is_positive S p then select_from S u (i + 1) acc lst ps
      else
        let acc' = f_add (s64 S) acc (widen S p) in
        if f_lt (s64 S) u acc' then Some i
        else select_from S u (i + 1) acc' (Some i) ps)"

definition select :: "('f, 'g) sops \<Rightarrow> 'f list \<Rightarrow> 'g \<Rightarrow> nat option" where
  "select S probs u = select_from S u 0 (f_zero (s64 S)) None probs"

definition top_p_threshold :: "('f, 'g) sops \<Rightarrow> 'g \<Rightarrow> 'f" where
  "top_p_threshold S p = narrow S (f_sub (s64 S) (f_one (s64 S)) p)"

text \<open>The masking scan of \<open>top_p\<close>: it stops at the first token over the threshold.\<close>

fun top_p_scan :: "('f, 'g) sops \<Rightarrow> 'f list \<Rightarrow> 'f \<Rightarrow> 'f \<Rightarrow> nat list \<Rightarrow> 'f list \<Rightarrow> 'f list" where
  "top_p_scan S probs threshold acc [] logits = logits"
| "top_p_scan S probs threshold acc (i # is) logits =
     (let acc' = f_add (s32 S) acc (probs ! i) in
      if f_le (s32 S) acc' threshold
      then top_p_scan S probs threshold acc' is (logits[i := FILTERED S])
      else logits)"

definition restore :: "('f, 'g) sops \<Rightarrow> nat \<Rightarrow> 'f \<Rightarrow> 'f list \<Rightarrow> 'f list" where
  "restore S i v logits = (if masked S (logits ! i) then logits[i := v] else logits)"

definition top_p :: "('f, 'g) sops \<Rightarrow> 'f list \<Rightarrow> 'g \<Rightarrow> 'f list" where
  "top_p S logits p =
     (if f_le (s64 S) (f_one (s64 S)) p then logits
      else
        let probs = softmax S logits in
        if \<not> is_positive S (f_sum (s32 S) probs) then logits
        else
          let order = sort_by (\<lambda>a b. f_lt (s32 S) (logits ! a) (logits ! b)) [0..<length logits];
              best = last order;
              best_val = logits ! best
          in restore S best best_val
               (top_p_scan S probs (top_p_threshold S p) (f_zero (s32 S)) order logits))"

definition best_value :: "('f, 'g) sops \<Rightarrow> 'f list \<Rightarrow> 'f" where
  "best_value S logits = finite_max S logits"

text \<open>The argmax of the loop of \<open>min_p\<close>: strictly larger values win, the first index starts.\<close>

fun argmax_from :: "'f fops \<Rightarrow> nat \<Rightarrow> nat \<Rightarrow> 'f \<Rightarrow> 'f list \<Rightarrow> nat" where
  "argmax_from F i best best_p [] = best"
| "argmax_from F i best best_p (q # qs) =
     (if f_lt F best_p q then argmax_from F (i + 1) i q qs else argmax_from F (i + 1) best best_p qs)"

definition min_p :: "('f, 'g) sops \<Rightarrow> 'f list \<Rightarrow> 'g \<Rightarrow> 'f list" where
  "min_p S logits m =
     (if f_le (s64 S) m (f_zero (s64 S)) then logits
      else
        let F = s32 S; probs = softmax S logits in
        if \<not> is_positive S (f_sum F probs) then logits
        else
          let top = foldl (f_max F) (f_zero F) probs;
              floor = f_mul F (narrow S m) top;
              best = argmax_from F 0 0 (f_neg_inf F) probs;
              out = map (\<lambda>(v, q). if f_lt F q floor then FILTERED S else v) (zip logits probs)
          in restore S best (best_value S out) out)"

definition entropy :: "('f, 'g) sops \<Rightarrow> 'f list \<Rightarrow> 'f list \<Rightarrow> 'f" where
  "entropy S logits p =
     foldl (\<lambda>ent (q, v).
         if is_positive S q \<and> \<not> masked S v
         then f_sub (s32 S) ent (f_mul (s32 S) (f_ln (s32 S) q) q) else ent)
       (f_zero (s32 S)) (zip p logits)"

definition shifted_of :: "('f, 'g) sops \<Rightarrow> 'f list \<Rightarrow> 'f list \<Rightarrow> 'f list" where
  "shifted_of S logits p =
     map (\<lambda>(q, v).
         if masked S v \<or> \<not> is_positive S q then f_inf (s32 S)
         else f_abs (s32 S) (f_sub (s32 S) (f_neg (s32 S) (f_ln (s32 S) q)) (entropy S logits p)))
       (zip p logits)"

fun last_ind_from :: "'f fops \<Rightarrow> 'f \<Rightarrow> 'f list \<Rightarrow> nat \<Rightarrow> 'f \<Rightarrow> nat \<Rightarrow> nat list \<Rightarrow> nat" where
  "last_ind_from F mass p k acc last_ind [] = last_ind"
| "last_ind_from F mass p k acc last_ind (i # is) =
     last_ind_from F mass p (k + 1) (f_add F acc (p ! i))
       (if f_lt F acc mass then k else last_ind) is"

definition typical_p :: "('f, 'g) sops \<Rightarrow> 'f list \<Rightarrow> 'g \<Rightarrow> 'f list" where
  "typical_p S logits mass =
     (if f_le (s64 S) mass (f_zero (s64 S)) \<or> f_le (s64 S) (f_one (s64 S)) mass then logits
      else
        let F = s32 S; p = softmax S logits in
        if \<not> is_positive S (f_sum F p) then logits
        else
          let shifted = shifted_of S logits p;
              order = sort_by (\<lambda>a b. f_lt F (shifted ! a) (shifted ! b) \<or>
                         (\<not> f_lt F (shifted ! b) (shifted ! a) \<and> a < b)) [0..<length logits];
              last_ind = min (last_ind_from F (narrow S mass) p 0 (f_zero F) 0 order) (length order - 1);
              cutoff = shifted ! (order ! last_ind);
              first = hd order;
              first_val = logits ! first;
              out = foldl (\<lambda>l i. if f_lt F cutoff (shifted ! i) then l[i := FILTERED S] else l) logits order
          in restore S first first_val out)"

definition log_softmax :: "('f, 'g) sops \<Rightarrow> 'f list \<Rightarrow> 'f list" where
  "log_softmax S logits =
     (let F = s32 S; m = finite_max S logits in
      if \<not> f_finite F m then logits
      else
        let sum = foldl (\<lambda>s v. if masked S v then s else f_add F s (f_exp F (f_sub F v m)))
                    (f_zero F) logits;
            lse = f_add F m (f_ln F sum)
        in map (\<lambda>v. if masked S v then v else f_sub F v lse) logits)"

section \<open>The sampler\<close>

record 'g Sampler =
  sa_cfg :: "'g SamplerConfig"
  sa_rng :: SplitMix64

definition Sampler_new :: "'g fops \<Rightarrow> 'g SamplerConfig \<Rightarrow> config_error + 'g Sampler" where
  "Sampler_new G cfg =
     try_bind (validate G cfg) (\<lambda>_. Inr \<lparr>sa_cfg = cfg, sa_rng = SplitMix64_new (c_seed cfg)\<rparr>)"

definition apply_filters :: "('f, 'g) sops \<Rightarrow> 'g SamplerConfig \<Rightarrow> 'f list \<Rightarrow> nat list \<Rightarrow> 'f list" where
  "apply_filters S c logits history =
     (let G = s64 S;
          l = (if \<not> f_eq G (c_repetition_penalty c) (f_one G)
               then repetition_penalty S logits history (narrow S (c_repetition_penalty c)) else logits);
          l = (if \<not> f_eq G (c_presence_penalty c) (f_zero G)
               then presence_penalty S l history (narrow S (c_presence_penalty c)) else l);
          l = (if \<not> f_eq G (c_frequency_penalty c) (f_zero G)
               then frequency_penalty S l history (narrow S (c_frequency_penalty c)) else l);
          l = (if 2 \<le> c_no_repeat_ngram_size c
               then no_repeat_ngram S l history (c_no_repeat_ngram_size c) else l);
          l = (if f_lt G (f_zero G) (c_temperature c) \<and> \<not> f_eq G (c_temperature c) (f_one G)
               then temperature S l (narrow S (c_temperature c)) else l);
          l = (if 1 \<le> c_top_k c then top_k S l (c_top_k c) else l);
          l = (if f_lt G (c_top_p c) (f_one G) then top_p S l (c_top_p c) else l);
          l = (if f_lt G (f_zero G) (c_min_p c) then min_p S l (c_min_p c) else l)
      in if f_lt G (f_zero G) (c_typical_p c) \<and> f_lt G (c_typical_p c) (f_one G)
         then typical_p S l (c_typical_p c) else l)"

datatype draw_error = AllFiltered nat | NoToken

definition sampler_next ::
  "('f, 'g) sops \<Rightarrow> (nat \<Rightarrow> 'g) \<Rightarrow> 'g Sampler \<Rightarrow> 'f list \<Rightarrow> nat list \<Rightarrow> (draw_error + nat) \<times> 'g Sampler" where
  "sampler_next S scale53 sa logits history =
     (let l = apply_filters S (sa_cfg sa) logits history;
          probs = softmax S l
      in if \<not> is_positive S (f_sum (s32 S) probs) then (Inl (AllFiltered (length l)), sa)
         else
           let (u, rng) = sm_next_f64 scale53 (sa_rng sa)
           in (ok_or (select S probs u) NoToken, sa\<lparr>sa_rng := rng\<rparr>))"

section \<open>The generator is a permutation\<close>

lemma xorshift_bit: "bit (xor x (drop_bit k x)) n = (bit x n \<noteq> bit x (n + k))" for x :: u64
  by (simp add: bit_xor_iff bit_drop_bit_eq add.commute)

lemma inj_xorshift:
  assumes "0 < k" shows "inj (\<lambda>x :: u64. xor x (drop_bit k x))"
proof (rule injI)
  fix x y :: u64 assume eq: "xor x (drop_bit k x) = xor y (drop_bit k y)"
  have "bit x n = bit y n" for n
  proof (induction "64 - n" arbitrary: n rule: less_induct)
    case less
    show ?case
    proof (cases "n < 64")
      case True
      then have "bit x (n + k) = bit y (n + k)" using assms by (intro less) simp
      with eq show ?thesis by (metis xorshift_bit)
    next
      case False
      then have "\<not> bit x n" "\<not> bit y n" using bit_imp_le_length [of x n] bit_imp_le_length [of y n] by auto
      then show ?thesis by simp
    qed
  qed
  then show "x = y" by (simp add: bit_eq_iff)
qed

lemma inj_mult_unit:
  assumes "c * d = (1 :: u64)" shows "inj (\<lambda>x. x * c)"
proof (rule injI)
  fix x y assume "x * c = y * c"
  then have "x * (c * d) = y * (c * d)" by (simp only: mult.assoc [symmetric])
  with assms show "x = y" by simp
qed

lemma inj_mix64: "inj mix64"
proof -
  have c1: "0xBF58476D1CE4E5B9 * 0x96de1b173f119089 = (1 :: u64)" by simp
  have c2: "0x94D049BB133111EB * 0x319642b2d24d8ec3 = (1 :: u64)" by simp
  have eq: "mix64 = (\<lambda>x. xor x (drop_bit 31 x)) \<circ> (\<lambda>x. x * 0x94D049BB133111EB) \<circ> (\<lambda>x. xor x (drop_bit 27 x)) \<circ>
      (\<lambda>x. x * 0xBF58476D1CE4E5B9) \<circ> (\<lambda>x. xor x (drop_bit 30 x))"
    by (rule ext) (simp add: mix64_def Let_def)
  show ?thesis
    unfolding eq by (intro inj_compose inj_xorshift inj_mult_unit [OF c1] inj_mult_unit [OF c2]) simp_all
qed

definition nth_draw :: "u64 \<Rightarrow> nat \<Rightarrow> u64" where
  "nth_draw seed i = fst (sm_next_u64 (((snd \<circ> sm_next_u64) ^^ i) (SplitMix64_new seed)))"

lemma sm_state_iter:
  "((snd \<circ> sm_next_u64) ^^ i) (SplitMix64_new seed) = \<lparr>sm_state = seed + word_of_nat i * 0x9E3779B97F4A7C15\<rparr>"
  by (induction i) (simp_all add: SplitMix64_new_def sm_next_u64_def Let_def algebra_simps)

lemma nth_draw_mix: "nth_draw seed i = mix64 (seed + word_of_nat (i + 1) * 0x9E3779B97F4A7C15)"
  unfolding nth_draw_def sm_state_iter by (simp add: sm_next_u64_def Let_def algebra_simps)

text \<open>The generator visits every 64-bit value once before it repeats: from any seed, two draws
  less than \<open>2^64\<close> apart differ, and the numerator of a uniform draw is always below \<open>2^53\<close>, so
  the uniform never reaches one.\<close>

lemma splitmix_full_period:
  assumes "i < 2 ^ 64" and "j < 2 ^ 64"
  shows "(nth_draw seed i = nth_draw seed j \<longleftrightarrow> i = j) \<and>
    (\<exists>n < 2 ^ 53. sm_next_f64 scale53 r = (scale53 n, snd (sm_next_u64 r)))"
proof -
  have g: "0x9E3779B97F4A7C15 * 0xf1de83e19937733d = (1 :: u64)" by simp
  have "i = j" if "nth_draw seed i = nth_draw seed j"
  proof -
    have "(word_of_nat (i + 1) :: u64) * 0x9E3779B97F4A7C15 = word_of_nat (j + 1) * 0x9E3779B97F4A7C15"
      using that injD [OF inj_mix64] unfolding nth_draw_mix by (metis add_left_cancel)
    then have "(word_of_nat (i + 1) :: u64) = word_of_nat (j + 1)"
      using injD [OF inj_mult_unit [OF g]] by blast
    then have "(word_of_nat i :: u64) = word_of_nat j" by simp
    then have "unat (word_of_nat i :: u64) = unat (word_of_nat j :: u64)" by simp
    then show ?thesis using assms by (simp add: unat_of_nat)
  qed
  moreover have "unat (drop_bit 11 x) < 2 ^ 53" for x :: u64
  proof -
    have "unat (drop_bit 11 x) = unat x div 2 ^ 11" by (simp add: drop_bit_eq_div unat_div)
    also have "\<dots> < 2 ^ 53" using unat_lt_u64_num [of x] by (simp add: div_less_iff_less_mult del: unat_lt_u64_num)
    finally show ?thesis .
  qed
  ultimately show ?thesis by (auto simp: sm_next_f64_def split: prod.splits)
qed

section \<open>Penalties, token by token\<close>

lemma distinct_from_spec:
  "distinct seen \<Longrightarrow> \<forall>x \<in> set seen. x < vocab \<Longrightarrow>
   distinct (distinct_from vocab seen ts) \<and>
   set (distinct_from vocab seen ts) = set seen \<union> {t \<in> set ts. t < vocab}"
proof (induction ts arbitrary: seen)
  case (Cons t ts)
  show ?case
  proof (cases "t < vocab \<and> t \<notin> set seen")
    case True
    then show ?thesis using Cons.IH [of "seen @ [t]"] Cons.prems by auto
  next
    case False
    then have "distinct_from vocab seen (t # ts) = distinct_from vocab seen ts" by auto
    with False show ?thesis using Cons.IH [of seen] Cons.prems by auto
  qed
qed simp

lemma distinct_tokens_spec [simp]:
  "distinct (distinct_tokens history vocab)"
  "set (distinct_tokens history vocab) = {t \<in> set history. t < vocab}"
  using distinct_from_spec [of "[]" vocab history] by (simp_all add: distinct_tokens_def)

text \<open>The repetition penalty is applied once per distinct token of the history.\<close>

lemma repetition_penalty_nth:
  assumes "i < length logits" and "\<not> f_eq (s32 S) penalty (f_one (s32 S))"
  shows "repetition_penalty S logits history penalty ! i =
    (if i \<in> set history \<and> \<not> masked S (logits ! i)
     then if f_lt (s32 S) (logits ! i) (f_zero (s32 S)) then f_mul (s32 S) (logits ! i) penalty
          else f_div (s32 S) (logits ! i) penalty
     else logits ! i)"
  using assms unfolding repetition_penalty_def if_list_update
  by (subst if_not_P) (simp_all add: nth_foldl_update [where g = "\<lambda>i v. if masked S v then v else
      if f_lt (s32 S) v (f_zero (s32 S)) then f_mul (s32 S) v penalty else f_div (s32 S) v penalty"])

lemma presence_penalty_nth:
  assumes "i < length logits"
  shows "presence_penalty S logits history penalty ! i =
    (if i \<in> set history \<and> \<not> masked S (logits ! i) then f_sub (s32 S) (logits ! i) penalty else logits ! i)"
  using assms unfolding presence_penalty_def if_list_update
  by (simp add: nth_foldl_update [where g = "\<lambda>i v. if masked S v then v else f_sub (s32 S) v penalty"])

definition counts_ok :: "nat \<Rightarrow> nat list \<Rightarrow> (nat \<times> nat) list \<Rightarrow> bool" where
  "counts_ok vocab h cs \<longleftrightarrow> distinct (map fst cs) \<and>
     set cs = {(t, count_list h t) | t. t \<in> set h \<and> t < vocab}"

lemma bump_fst: "map fst (bump i cs) = (if i \<in> fst ` set cs then map fst cs else map fst cs @ [i])"
  by (induction i cs rule: bump.induct) auto

lemma set_bump:
  "distinct (map fst cs) \<Longrightarrow>
   set (bump i cs) = (if i \<in> fst ` set cs then {(j, c) \<in> set cs. j \<noteq> i} \<union> {(i, c + 1) | c. (i, c) \<in> set cs}
     else insert (i, 1) (set cs))"
  by (induction i cs rule: bump.induct) (auto simp: image_iff)

lemma counts_ok_bump:
  assumes "counts_ok vocab h cs" and "t < vocab"
  shows "counts_ok vocab (h @ [t]) (bump t cs)"
proof -
  have d: "distinct (map fst cs)" and m: "set cs = {(t, count_list h t) | t. t \<in> set h \<and> t < vocab}"
    using assms(1) by (simp_all add: counts_ok_def)
  have f: "t \<in> fst ` set cs \<longleftrightarrow> t \<in> set h" using m assms(2) by force
  have sb: "set (bump t cs) = (if t \<in> set h then {(j, c) \<in> set cs. j \<noteq> t} \<union> {(t, c + 1) | c. (t, c) \<in> set cs}
     else insert (t, 1) (set cs))"
    unfolding set_bump [OF d] f by (rule refl)
  have "set (bump t cs) = {(u, count_list (h @ [t]) u) | u. u \<in> set (h @ [t]) \<and> u < vocab}"
  proof (cases "t \<in> set h")
    case True
    then show ?thesis using assms(2) by (auto simp: sb m)
  next
    case False
    then have "count_list h t = 0" by simp
    with False show ?thesis using assms(2) by (auto simp: sb m)
  qed
  moreover have "distinct (map fst (bump t cs))" using d f by (auto simp: bump_fst image_iff)
  ultimately show ?thesis by (simp add: counts_ok_def)
qed

lemma token_counts_ok: "counts_ok vocab history (token_counts vocab history)"
proof (induction history rule: rev_induct)
  case (snoc t h)
  then show ?case
  proof (cases "t < vocab")
    case True
    then show ?thesis using snoc counts_ok_bump by (simp add: token_counts_def)
  next
    case False
    have "counts_ok vocab (h @ [t]) cs \<longleftrightarrow> counts_ok vocab h cs" for cs
      using False by (auto simp: counts_ok_def intro!: arg_cong2 [of _ _ _ _ "(\<and>)"])
    with snoc False show ?thesis by (simp add: token_counts_def)
  qed
qed (simp add: token_counts_def counts_ok_def)

lemma nth_foldl_update_pairs:
  "distinct (map fst cs) \<Longrightarrow> i < length l \<Longrightarrow>
   foldl (\<lambda>l (i, c). l[i := g i c (l ! i)]) l cs ! i =
   (case map_of cs i of Some c \<Rightarrow> g i c (l ! i) | None \<Rightarrow> l ! i)"
proof (induction cs arbitrary: l)
  case (Cons x cs)
  obtain j c where x: "x = (j, c)" by (cases x)
  show ?case
  proof (cases "j = i")
    case True
    then have "map_of cs i = None" using Cons.prems x by (simp add: map_of_eq_None_iff)
    with True show ?thesis using Cons.IH [of "l[j := g j c (l ! j)]"] Cons.prems x by simp
  next
    case False
    then show ?thesis
      using Cons.IH [of "l[j := g j c (l ! j)]"] Cons.prems x by (simp split: option.splits)
  qed
qed simp

lemma frequency_penalty_nth:
  assumes "i < length logits"
  shows "frequency_penalty S logits history penalty ! i =
    (if i \<in> set history \<and> \<not> masked S (logits ! i)
     then f_sub (s32 S) (logits ! i) (f_mul (s32 S) penalty (f_of_nat (s32 S) (count_list history i)))
     else logits ! i)"
proof -
  note ok = token_counts_ok [of "length logits" history]
  have d: "distinct (map fst (token_counts (length logits) history))" using ok by (simp add: counts_ok_def)
  have m: "map_of (token_counts (length logits) history) i =
      (if i \<in> set history then Some (count_list history i) else None)"
    using ok assms map_of_eq_Some_iff [OF d] by (auto simp: counts_ok_def map_of_eq_None_iff image_iff)
  show ?thesis
    unfolding frequency_penalty_def if_list_update
    using nth_foldl_update_pairs [OF d assms, of "\<lambda>i c v. if masked S v then v
      else f_sub (s32 S) v (f_mul (s32 S) penalty (f_of_nat (s32 S) c))"] m by simp
qed

text \<open>The three penalties act on each token by its own history: the repetition and the presence
  penalty once for a token that occurs, however often, the frequency penalty by the number of
  occurrences; tokens that do not occur and masked tokens keep their logit.\<close>

lemma penalties_per_token:
  assumes "i < length logits" and "\<not> f_eq (s32 S) penalty (f_one (s32 S))"
  shows "repetition_penalty S logits history penalty ! i =
      (if i \<in> set history \<and> \<not> masked S (logits ! i)
       then if f_lt (s32 S) (logits ! i) (f_zero (s32 S)) then f_mul (s32 S) (logits ! i) penalty
            else f_div (s32 S) (logits ! i) penalty
       else logits ! i) \<and>
    presence_penalty S logits history penalty ! i =
      (if i \<in> set history \<and> \<not> masked S (logits ! i) then f_sub (s32 S) (logits ! i) penalty
       else logits ! i) \<and>
    frequency_penalty S logits history penalty ! i =
      (if i \<in> set history \<and> \<not> masked S (logits ! i)
       then f_sub (s32 S) (logits ! i) (f_mul (s32 S) penalty (f_of_nat (s32 S) (count_list history i)))
       else logits ! i)"
  using repetition_penalty_nth [OF assms] presence_penalty_nth [OF assms(1)] frequency_penalty_nth [OF assms(1)]
  by blast

section \<open>N-gram blocking\<close>

lemma set_banned_from:
  "set (banned_from history n prefix banned ws) =
     set banned \<union> {history ! (w + n - 1) | w. w \<in> set ws \<and> take (n - 1) (drop w history) = prefix}"
  by (induction ws arbitrary: banned) (auto simp: Let_def)

lemma nth_foldl_mask:
  "i < length l \<Longrightarrow> foldl (\<lambda>l i. if i < length l then l[i := c] else l) l is ! i =
     (if i \<in> set is then c else l ! i)"
proof (induction "is" arbitrary: l)
  case (Cons j "is")
  then show ?case by (cases "j < length l") (auto simp: nth_list_update)
qed simp

text \<open>A token is banned exactly when it followed an earlier occurrence of the last \<open>n - 1\<close>
  tokens of the history; every other logit is unchanged.\<close>

lemma no_repeat_ngram_bans:
  assumes "2 \<le> n" and "i < length logits"
  shows "no_repeat_ngram S logits history n ! i =
    (if \<exists>w. w + n \<le> length history \<and> history ! (w + n - 1) = i \<and>
          take (n - 1) (drop w history) = drop (length history - (n - 1)) history
     then FILTERED S else logits ! i)"
proof (cases "length history < n")
  case True
  then show ?thesis by (auto simp: no_repeat_ngram_def)
next
  case False
  have "i \<in> set (banned_from history n (drop (length history - (n - 1)) history) [] [0..<length history - n + 1]) \<longleftrightarrow>
      (\<exists>w. w + n \<le> length history \<and> history ! (w + n - 1) = i \<and>
          take (n - 1) (drop w history) = drop (length history - (n - 1)) history)"
    using False unfolding set_banned_from by (auto simp: less_Suc_eq_le le_diff_conv2 simp del: upt_Suc)
  then show ?thesis
    using assms False unfolding no_repeat_ngram_def Let_def
    by (simp add: nth_foldl_mask del: upt_Suc)
qed

section \<open>Top-k\<close>

lemma sorted_desc_kth:
  fixes F :: "'f fops"
  assumes "ordered_floats F" and "\<forall>x \<in> set L. \<not> f_nan F x" and "\<not> f_nan F v"
    and "sorted_wrt (\<lambda>a b. \<not> f_lt F a b) L" and k: "0 < k" "k \<le> length L"
  shows "f_lt F v (L ! (k - 1)) \<longleftrightarrow> k \<le> length (filter (f_lt F v) L)"
proof
  assume lt: "f_lt F v (L ! (k - 1))"
  have "f_lt F v x" if x: "x \<in> set (take k L)" for x
  proof -
    obtain m where m: "m < k" "x = L ! m" "m < length L" using x by (auto simp: in_set_conv_nth)
    have "\<not> f_lt F x (L ! (k - 1))"
    proof (cases "m = k - 1")
      case True
      then show ?thesis using m ordered_floatsD(2) [OF assms(1)] by simp
    next
      case False
      then show ?thesis using m k sorted_wrt_nth_less [OF assms(4), of m "k - 1"] by simp
    qed
    then show ?thesis
      using not_lt_trans [OF assms(1), of "L ! (k - 1)" x v] lt assms(2,3) m k
      by (metis ordered_floatsD(1,3,5,6) [OF assms(1)] nth_mem diff_less less_le_trans zero_less_one)
  qed
  then have "filter (f_lt F v) (take k L) = take k L" by (simp add: filter_id_conv)
  then have "k \<le> length (filter (f_lt F v) (take k L))" using k by simp
  also have "\<dots> \<le> length (filter (f_lt F v) (take k L @ drop k L))" by (simp only: filter_append length_append le_add1)
  finally show "k \<le> length (filter (f_lt F v) L)" by simp
next
  assume le: "k \<le> length (filter (f_lt F v) L)"
  show "f_lt F v (L ! (k - 1))"
  proof (rule ccontr)
    assume nlt: "\<not> f_lt F v (L ! (k - 1))"
    have "\<not> f_lt F v x" if x: "x \<in> set (drop (k - 1) L)" for x
    proof -
      obtain m where m: "k - 1 \<le> m" "m < length L" "x = L ! m"
        using x by (auto simp: in_set_conv_nth) (metis le_add1 less_diff_conv add.commute)
      then have "\<not> f_lt F (L ! (k - 1)) x"
        using sorted_wrt_nth_less [OF assms(4), of "k - 1" m] ordered_floatsD(2) [OF assms(1)]
        by (cases "m = k - 1") auto
      then show ?thesis
        using not_lt_trans [OF assms(1), of x "L ! (k - 1)" v] nlt assms(2,3) m k by simp
    qed
    then have "filter (f_lt F v) (drop (k - 1) L) = []" by (simp add: filter_empty_conv)
    then have "filter (f_lt F v) L = filter (f_lt F v) (take (k - 1) L)"
      by (metis append_take_drop_id filter_append append_Nil2)
    then have "length (filter (f_lt F v) L) \<le> k - 1"
      by (metis length_filter_le length_take min.bounded_iff)
    with le k show False by simp
  qed
qed

text \<open>\<open>top_k\<close> is a threshold, not a truncation: a token is masked exactly when at least \<open>k\<close>
  tokens have a strictly larger logit, so ties at the boundary all survive and at least \<open>k\<close>
  tokens do.\<close>

lemma top_k_threshold:
  assumes "ordered_floats (s32 S)" and "\<forall>v \<in> set logits. \<not> f_nan (s32 S) v"
    and "0 < k" and "k < length logits" and "i < length logits"
  shows "top_k S logits k ! i =
      (if k \<le> length (filter (f_lt (s32 S) (logits ! i)) logits) then FILTERED S else logits ! i) \<and>
    k \<le> length (filter (\<lambda>v. length (filter (f_lt (s32 S) v) logits) < k) logits)"
proof -
  let ?F = "s32 S"
  define L where "L = sort_by (\<lambda>a b. f_lt ?F b a) logits"
  have sL: "sorted_wrt (\<lambda>a b. \<not> f_lt ?F a b) L"
    unfolding L_def by (rule sorted_sort_by) (rule weak_order_floats(2) [OF assms(1,2)])
  have mL: "mset L = mset logits" by (simp add: L_def)
  then have set_L: "set L = set logits" and len: "length L = length logits"
    using mset_eq_setD mset_eq_length by blast+
  have cnt: "length (filter P L) = length (filter P logits)" for P
    by (metis mL mset_filter size_mset)
  have kth: "f_lt ?F v (L ! (k - 1)) \<longleftrightarrow> k \<le> length (filter (f_lt ?F v) logits)" if "v \<in> set logits" for v
    using sorted_desc_kth [OF assms(1) _ _ sL assms(3), of v] assms(2,4) that set_L len cnt by simp
  have "k \<le> length (filter (\<lambda>v. \<not> f_lt ?F v (L ! (k - 1))) L)"
  proof -
    have "\<not> f_lt ?F x (L ! (k - 1))" if "x \<in> set (take k L)" for x
    proof -
      obtain m where m: "m < k" "x = L ! m" "m < length L" using \<open>x \<in> set (take k L)\<close> by (auto simp: in_set_conv_nth)
      then show ?thesis
        using sorted_wrt_nth_less [OF sL, of m "k - 1"] ordered_floatsD(2) [OF assms(1)] assms(3,4) len
        by (cases "m = k - 1") auto
    qed
    then have "filter (\<lambda>v. \<not> f_lt ?F v (L ! (k - 1))) (take k L) = take k L" by (simp add: filter_id_conv)
    then have "k \<le> length (filter (\<lambda>v. \<not> f_lt ?F v (L ! (k - 1))) (take k L @ drop k L))"
      using assms(4) len by (simp only: filter_append length_append) simp
    then show ?thesis by simp
  qed
  also have "\<dots> = length (filter (\<lambda>v. length (filter (f_lt ?F v) logits) < k) logits)"
    unfolding cnt by (rule arg_cong [of _ _ length], rule filter_cong [OF refl]) (simp only: kth not_le)
  finally show ?thesis
    using assms kth [OF nth_mem [OF assms(5)]] by (simp add: top_k_def Let_def flip: L_def)
qed

section \<open>Truncation filters only mask, and keep one token\<close>

definition masks_only :: "('f, 'g) sops \<Rightarrow> 'f list \<Rightarrow> 'f list \<Rightarrow> bool" where
  "masks_only S l l' \<longleftrightarrow> length l' = length l \<and> (\<forall>i < length l. l' ! i = l ! i \<or> l' ! i = FILTERED S)"

lemma masks_only_refl [simp]: "masks_only S l l"
  by (simp add: masks_only_def)

lemma masks_only_update: "masks_only S l l' \<Longrightarrow> masks_only S l (l'[i := FILTERED S])"
  by (auto simp: masks_only_def nth_update_if)

lemma masks_only_restore: "masks_only S l l' \<Longrightarrow> masks_only S l (restore S i (l ! i) l')"
  by (auto simp: masks_only_def restore_def nth_update_if)

lemma restore_nth:
  assumes "masks_only S l l'" and "\<not> f_nan (s32 S) (FILTERED S)" and "i < length l"
  shows "restore S i (l ! i) l' ! i = l ! i"
  using assms by (auto simp: masks_only_def restore_def f_nan_def)

lemma masks_only_scan: "masks_only S l l' \<Longrightarrow> masks_only S l (top_p_scan S probs th acc is l')"
  by (induction S probs th acc "is" l' rule: top_p_scan.induct) (simp_all add: Let_def masks_only_update)

lemma masks_only_foldl:
  "masks_only S l l' \<Longrightarrow> masks_only S l (foldl (\<lambda>l i. if P i then l[i := FILTERED S] else l) l' is)"
  by (induction "is" arbitrary: l') (simp_all add: masks_only_update)

lemma masks_only_top_p: "masks_only S logits (top_p S logits p)"
  by (simp add: top_p_def Let_def masks_only_restore masks_only_scan)

lemma masks_only_typical_p: "masks_only S logits (typical_p S logits mass)"
  by (simp add: typical_p_def Let_def masks_only_restore masks_only_foldl)

lemma masks_only_top_k: "masks_only S logits (top_k S logits k)"
  by (auto simp: masks_only_def top_k_def Let_def)

lemma top_p_best:
  assumes "ordered_floats (s32 S)" and "\<forall>v \<in> set logits. \<not> f_nan (s32 S) v" and "logits \<noteq> []"
  defines "order \<equiv> sort_by (\<lambda>a b. f_lt (s32 S) (logits ! a) (logits ! b)) [0..<length logits]"
  shows "last order < length logits"
    and "j < length logits \<Longrightarrow> \<not> f_lt (s32 S) (logits ! last order) (logits ! j)"
proof -
  have "weak_order_on (set logits) (f_lt (s32 S))" by (rule weak_order_floats(1) [OF assms(1,2)])
  then have "weak_order_on (set [0..<length logits]) (\<lambda>a b. f_lt (s32 S) (logits ! a) (logits ! b))"
    unfolding weak_order_on_def by (metis atLeastLessThan_iff nth_mem set_upt)
  then have srt: "sorted_wrt (\<lambda>a b. \<not> f_lt (s32 S) (logits ! b) (logits ! a)) order"
    unfolding order_def by (rule sorted_sort_by)
  have ne: "order \<noteq> []" using assms(3) by (simp add: order_def)
  then have "last order \<in> set order" by simp
  then show "last order < length logits" by (simp add: order_def)
  assume j: "j < length logits"
  then have "j \<in> set order" by (simp add: order_def)
  then have "j = last order \<or> j \<in> set (butlast order)" using ne by (metis append_butlast_last_id rotate1.simps(2) set_ConsD set_rotate1)
  then show "\<not> f_lt (s32 S) (logits ! last order) (logits ! j)"
  proof
    assume "j \<in> set (butlast order)"
    moreover have "sorted_wrt (\<lambda>a b. \<not> f_lt (s32 S) (logits ! b) (logits ! a)) (butlast order @ [last order])"
      using srt ne by simp
    ultimately show ?thesis unfolding sorted_wrt_append by simp
  qed (use ordered_floatsD(2) [OF assms(1)] in simp)
qed

text \<open>\<open>top_p\<close> and \<open>typical_p\<close> change a logit only by masking it, and never leave nothing to
  draw from: \<open>top_p\<close> keeps a token with the largest logit, \<open>typical_p\<close> keeps some token.\<close>

lemma truncation_keeps_one:
  assumes "ordered_floats (s32 S)" and "\<forall>v \<in> set logits. \<not> f_nan (s32 S) v" and "logits \<noteq> []"
    and "\<not> f_nan (s32 S) (FILTERED S)"
  shows "masks_only S logits (top_p S logits p) \<and>
    (\<exists>i < length logits. top_p S logits p ! i = logits ! i \<and>
       (\<forall>j < length logits. \<not> f_lt (s32 S) (logits ! i) (logits ! j))) \<and>
    masks_only S logits (typical_p S logits mass) \<and>
    (\<exists>i < length logits. typical_p S logits mass ! i = logits ! i)"
proof (intro conjI)
  let ?order = "sort_by (\<lambda>a b. f_lt (s32 S) (logits ! a) (logits ! b)) [0..<length logits]"
  note best = top_p_best [OF assms(1-3)]
  have "top_p S logits p ! last ?order = logits ! last ?order"
    using restore_nth [OF masks_only_scan [OF masks_only_refl] assms(4) best(1)]
    by (simp add: top_p_def Let_def)
  with best show "\<exists>i < length logits. top_p S logits p ! i = logits ! i \<and>
       (\<forall>j < length logits. \<not> f_lt (s32 S) (logits ! i) (logits ! j))" by blast
  define first where "first = hd (sort_by (\<lambda>a b. f_lt (s32 S) (shifted_of S logits (softmax S logits) ! a)
      (shifted_of S logits (softmax S logits) ! b) \<or>
    (\<not> f_lt (s32 S) (shifted_of S logits (softmax S logits) ! b)
      (shifted_of S logits (softmax S logits) ! a) \<and> a < b)) [0..<length logits])"
  have "hd (sort_by lt [0..<length logits]) \<in> set (sort_by lt [0..<length logits])" for lt
    using assms(3) by (intro hd_in_set) simp
  then have f: "first < length logits" unfolding first_def by simp
  have "typical_p S logits mass ! first = logits ! first"
    using restore_nth [OF masks_only_foldl [OF masks_only_refl] assms(4) f]
    by (simp add: typical_p_def Let_def flip: first_def)
  with f show "\<exists>i < length logits. typical_p S logits mass ! i = logits ! i" by blast
qed (rule masks_only_top_p, rule masks_only_typical_p)

section \<open>The draw\<close>

definition mass_upto :: "('f, 'g) sops \<Rightarrow> 'g \<Rightarrow> 'f list \<Rightarrow> 'g" where
  "mass_upto S acc ps = foldl (\<lambda>a p. f_add (s64 S) a (widen S p)) acc (filter (is_positive S) ps)"

definition drawn :: "('f, 'g) sops \<Rightarrow> 'g \<Rightarrow> 'g \<Rightarrow> 'f list \<Rightarrow> nat \<Rightarrow> bool" where
  "drawn S u acc ps k \<longleftrightarrow> k < length ps \<and> is_positive S (ps ! k) \<and>
     (\<forall>j < k. is_positive S (ps ! j) \<longrightarrow> \<not> f_lt (s64 S) u (mass_upto S acc (take (Suc j) ps))) \<and>
     (f_lt (s64 S) u (mass_upto S acc (take (Suc k) ps)) \<or>
      (\<forall>j. k < j \<and> j < length ps \<longrightarrow> \<not> is_positive S (ps ! j)))"

lemma drawn_Cons:
  assumes "drawn S u acc' ps k" and "acc' = (if is_positive S p then f_add (s64 S) acc (widen S p) else acc)"
    and "is_positive S p \<longrightarrow> \<not> f_lt (s64 S) u acc'"
  shows "drawn S u acc (p # ps) (Suc k)"
proof -
  have m: "mass_upto S acc (p # qs) = mass_upto S acc' qs" for qs
    using assms(2) by (simp add: mass_upto_def)
  have first: "mass_upto S acc' [] = acc'" by (simp add: mass_upto_def)
  show ?thesis
    using assms(1,3) unfolding drawn_def
    by (auto simp: m first All_less_Suc2 nth_Cons split: nat.splits)
qed

lemma select_from_spec:
  "select_from S u n acc lst ps = Some r \<Longrightarrow>
     (\<exists>k. r = n + k \<and> drawn S u acc ps k) \<or> (lst = Some r \<and> (\<forall>p \<in> set ps. \<not> is_positive S p))"
proof (induction S u n acc lst ps rule: select_from.induct)
  case (2 S u i acc lst p ps)
  show ?case
  proof (cases "is_positive S p")
    case False
    then have "(\<exists>k. r = i + 1 + k \<and> drawn S u acc ps k) \<or> (lst = Some r \<and> (\<forall>p \<in> set ps. \<not> is_positive S p))"
      using 2 by simp
    with False drawn_Cons [of S u acc ps _ p acc] show ?thesis by fastforce
  next
    case True
    define acc' where "acc' = f_add (s64 S) acc (widen S p)"
    show ?thesis
    proof (cases "f_lt (s64 S) u acc'")
      case lt: True
      then have "r = i" using "2.prems" True by (simp add: acc'_def Let_def)
      moreover have "drawn S u acc (p # ps) 0" using True lt by (simp add: drawn_def mass_upto_def acc'_def)
      ultimately show ?thesis by fastforce
    next
      case nlt: False
      then have "(\<exists>k. r = i + 1 + k \<and> drawn S u acc' ps k) \<or> (r = i \<and> (\<forall>p \<in> set ps. \<not> is_positive S p))"
        using "2.IH"(2) [OF _ acc'_def] "2.prems" True by (auto simp: acc'_def Let_def)
      then show ?thesis
      proof
        assume "\<exists>k. r = i + 1 + k \<and> drawn S u acc' ps k"
        with True nlt drawn_Cons [of S u acc' ps _ p acc] show ?thesis by (fastforce simp: acc'_def)
      next
        assume "r = i \<and> (\<forall>p \<in> set ps. \<not> is_positive S p)"
        then have "drawn S u acc (p # ps) 0" using True by (auto simp: drawn_def nth_Cons split: nat.splits)
        with \<open>r = i \<and> _\<close> show ?thesis by fastforce
      qed
    qed
  qed
qed simp

lemma select_from_None:
  "select_from S u n acc lst ps = None \<longleftrightarrow> lst = None \<and> (\<forall>p \<in> set ps. \<not> is_positive S p)"
  by (induction S u n acc lst ps rule: select_from.induct) (auto simp: Let_def)

text \<open>The draw is the inverse of the cumulative distribution in token order: the chosen token has
  positive probability, the running mass before it has not exceeded \<open>u\<close>, and the mass with it
  has, unless it is the last token with positive probability; there is no token only when no
  probability is positive.\<close>

lemma select_inverse_cdf:
  shows "(select S probs u = Some i \<longrightarrow>
      i < length probs \<and> is_positive S (probs ! i) \<and>
      (\<forall>j < i. is_positive S (probs ! j) \<longrightarrow>
         \<not> f_lt (s64 S) u (mass_upto S (f_zero (s64 S)) (take (Suc j) probs))) \<and>
      (f_lt (s64 S) u (mass_upto S (f_zero (s64 S)) (take (Suc i) probs)) \<or>
       (\<forall>j. i < j \<and> j < length probs \<longrightarrow> \<not> is_positive S (probs ! j)))) \<and>
    (select S probs u = None \<longleftrightarrow> (\<forall>p \<in> set probs. \<not> is_positive S p))"
  using select_from_spec [of S u 0 "f_zero (s64 S)" None probs i]
    select_from_None [of S u 0 "f_zero (s64 S)" None probs]
  unfolding select_def drawn_def by auto

lemma length_foldl_cond_update: "length (foldl (\<lambda>l i. if P l i then l else l[i := g l i]) l is) = length l"
  by (induction "is" arbitrary: l) simp_all

lemma length_foldl_cond_update_pair:
  "length (foldl (\<lambda>l (i, c). if P l i c then l else l[i := g l i c]) l is) = length l"
  by (induction "is" arbitrary: l) (simp_all split: prod.splits)

lemma length_foldl_mask: "length (foldl (\<lambda>l i. if P l i then l[i := c] else l) l is) = length l"
  by (induction "is" arbitrary: l) simp_all

lemma length_softmax [simp]: "length (softmax S l) = length l"
  by (simp add: softmax_def Let_def)

lemma length_filters [simp]:
  "length (repetition_penalty S l h a) = length l"
  "length (presence_penalty S l h a) = length l"
  "length (frequency_penalty S l h a) = length l"
  "length (no_repeat_ngram S l h n) = length l"
  "length (temperature S l a) = length l"
  "length (top_k S l k) = length l"
  "length (top_p S l p) = length l"
  "length (min_p S l p) = length l"
  "length (typical_p S l p) = length l"
  using masks_only_top_p [of S l p] masks_only_typical_p [of S l p]
  by (simp_all add: repetition_penalty_def presence_penalty_def frequency_penalty_def no_repeat_ngram_def
      temperature_def top_k_def min_p_def restore_def Let_def masks_only_def length_foldl_cond_update
      length_foldl_cond_update_pair length_foldl_mask)

lemma length_apply_filters [simp]: "length (apply_filters S c l h) = length l"
  by (simp add: apply_filters_def Let_def)

text \<open>C34. A drawn token is a token of the vocabulary that no filter masked, and the draw fails only
  when the filters leave no probability mass. (Zero is not positive, also after the division of
  the normalisation.)\<close>

theorem sampler_next_unmasked:
  assumes "\<not> is_positive S (f_zero (s32 S))" and "\<And>x. \<not> is_positive S (f_div (s32 S) (f_zero (s32 S)) x)"
  shows "(\<forall>i sa'. sampler_next S scale53 sa logits history = (Inr i, sa') \<longrightarrow>
      i < length logits \<and> \<not> masked S (apply_filters S (sa_cfg sa) logits history ! i)) \<and>
    (is_positive S (f_sum (s32 S) (softmax S (apply_filters S (sa_cfg sa) logits history))) \<and>
     (\<exists>p \<in> set (softmax S (apply_filters S (sa_cfg sa) logits history)). is_positive S p) \<longrightarrow>
      (\<exists>i sa'. sampler_next S scale53 sa logits history = (Inr i, sa')))"
proof -
  define l where "l = apply_filters S (sa_cfg sa) logits history"
  have len: "length l = length logits" by (simp add: l_def)
  have pos: "\<not> masked S (l ! i)" if "i < length l" "is_positive S (softmax S l ! i)" for i
    using that assms by (auto simp: softmax_def Let_def split: if_splits)
  have draw: "i < length l \<and> is_positive S (softmax S l ! i)" if "select S (softmax S l) u = Some i" for i u
    using select_from_spec [of S u 0 "f_zero (s64 S)" None "softmax S l" i] that
    by (auto simp: select_def drawn_def)
  have total: "\<exists>i. select S (softmax S l) u = Some i" if "\<exists>p \<in> set (softmax S l). is_positive S p" for u
    using select_from_None [of S u 0 "f_zero (s64 S)" None "softmax S l"] that by (auto simp: select_def)
  show ?thesis
    unfolding sampler_next_def l_def [symmetric]
    using pos draw total len by (auto simp: Let_def split: prod.splits if_splits)
qed

section \<open>Witnesses\<close>

text \<open>Integer arithmetic as a stand-in for both precisions.\<close>

definition ex_F :: "int fops" where
  "ex_F = \<lparr>f_zero = 0, f_one = 1, f_neg_inf = - 1000, f_inf = 1000, f_sum_start = 0,
     f_add = (+), f_sub = (-), f_mul = (*), f_div = (\<lambda>a b. a), f_neg = uminus, f_abs = abs,
     f_exp = (\<lambda>x. if x < - 10 then 0 else x + 20), f_ln = id, f_sqrt = id, f_of_nat = int,
     f_lt = (<), f_eq = (=), f_finite = (\<lambda>x. - 1000 < x \<and> x < 1000)\<rparr>"

definition ex_S :: "(int, int) sops" where
  "ex_S = \<lparr>s32 = ex_F, s64 = ex_F, widen = id, narrow = id\<rparr>"

lemma ex_F_ordered: "ordered_floats (s32 ex_S)" "\<not> f_nan (s32 ex_S) x"
  by (auto simp: ordered_floats_def f_nan_def ex_S_def ex_F_def)

lemma ex_ops: "f_lt (s32 ex_S) = (<)" "f_lt (s64 ex_S) = (<)" "FILTERED ex_S = - 1000"
  "is_positive ex_S = (\<lambda>x. 0 < x)" "f_sum (s32 ex_S) = foldl (+) 0"
  by (auto simp: ex_S_def ex_F_def is_positive_def f_sum_def fun_eq_iff)

theorem splitmix_full_period_witness: "nth_draw 42 0 \<noteq> nth_draw 42 7"
  using splitmix_full_period [of 0 7 42 "\<lambda>n. n" "SplitMix64_new 42"] by simp

theorem penalties_per_token_witness:
  "repetition_penalty ex_S [-3, 5, 7] [0, 0, 2] 2 ! 0 = -6 \<and> frequency_penalty ex_S [-3, 5, 7] [0, 0, 2] 2 ! 0 = -7"
  using penalties_per_token [of 0 "[-3, 5, 7]" ex_S 2 "[0, 0, 2]"] by (simp add: ex_S_def ex_F_def)

theorem no_repeat_ngram_bans_witness: "no_repeat_ngram ex_S [10, 11, 12] [1, 2, 1] 2 ! 2 = - 1000"
proof -
  have "\<exists>w. w + 2 \<le> length [1, 2, 1 :: nat] \<and> [1, 2, 1 :: nat] ! (w + 2 - 1) = 2 \<and>
      take (2 - 1) (drop w [1, 2, 1 :: nat]) = drop (length [1, 2, 1 :: nat] - (2 - 1)) [1, 2, 1]"
    by (rule exI [of _ 0]) simp
  then have "no_repeat_ngram ex_S [10, 11, 12] [1, 2, 1] 2 ! 2 = FILTERED ex_S"
    using no_repeat_ngram_bans [of 2 2 "[10, 11, 12]" ex_S "[1, 2, 1]"] by (simp only: if_True) simp
  then show ?thesis by (simp only: ex_ops)
qed

theorem top_k_threshold_witness:
  "top_k ex_S [1, 1, 1, 0] 1 ! 2 = 1 \<and> top_k ex_S [1, 1, 1, 0] 1 ! 3 = - 1000"
  using top_k_threshold [OF ex_F_ordered(1), of "[1, 1, 1, 0]" 1 2]
    top_k_threshold [OF ex_F_ordered(1), of "[1, 1, 1, 0]" 1 3] ex_F_ordered(2)
  by (simp add: ex_ops)

theorem truncation_keeps_one_witness:
  "\<exists>i < length [1, 5, 2 :: int]. top_p ex_S [1, 5, 2] 0 ! i = [1, 5, 2] ! i"
proof -
  have "\<forall>v \<in> set [1, 5, 2]. \<not> f_nan (s32 ex_S) v" "[1, 5, 2] \<noteq> ([] :: int list)"
    "\<not> f_nan (s32 ex_S) (FILTERED ex_S)"
    using ex_F_ordered(2) by simp_all
  note t = truncation_keeps_one [OF ex_F_ordered(1) this, of 0 0]
  from t [THEN conjunct2, THEN conjunct1] show ?thesis by (elim exE conjE) (intro exI conjI)
qed

theorem select_inverse_cdf_witness:
  "select ex_S [0, 3, 4] 2 = Some 1 \<and> is_positive ex_S ([0, 3, 4] ! 1)"
proof -
  have "select ex_S [0, 3, 4] 2 = Some 1"
    by (simp add: select_def is_positive_def ex_S_def ex_F_def)
  with select_inverse_cdf [of ex_S "[0, 3, 4]" 2 1] show ?thesis by blast
qed

definition ex_sampler :: "int Sampler" where
  "ex_sampler = \<lparr>sa_cfg = SamplerConfig_default ex_F, sa_rng = SplitMix64_new 7\<rparr>"

theorem sampler_next_unmasked_witness:
  "\<exists>i sa'. sampler_next ex_S int ex_sampler [3, -1000, 4] [] = (Inr i, sa') \<and> i < 3"
proof -
  have f: "apply_filters ex_S (sa_cfg ex_sampler) [3, -1000, 4] [] = [3, -1000, 4]"
    by (simp add: apply_filters_def ex_sampler_def SamplerConfig_default_def ex_S_def ex_F_def)
  have p: "softmax ex_S [3, -1000, 4] = [19, 0, 20]"
    by (simp add: softmax_def finite_max_def f_max_def f_nan_def f_sum_def ex_S_def ex_F_def)
  have z: "\<not> is_positive ex_S (f_zero (s32 ex_S))" "\<And>x. \<not> is_positive ex_S (f_div (s32 ex_S) (f_zero (s32 ex_S)) x)"
    by (simp_all add: is_positive_def ex_S_def ex_F_def)
  have "is_positive ex_S (f_sum (s32 ex_S) [19, 0, 20])" "is_positive ex_S 19"
    by (simp_all add: is_positive_def f_sum_def ex_S_def ex_F_def)
  with sampler_next_unmasked [OF z, of int ex_sampler "[3, -1000, 4]" "[]"]
  obtain i sa' where "sampler_next ex_S int ex_sampler [3, -1000, 4] [] = (Inr i, sa')" "i < length [3, -1000, 4 :: int]"
    unfolding f p by (meson list.set_intros(1))
  then show ?thesis by (intro exI [of _ i] exI [of _ sa']) simp
qed

end
