(* ===== verification/Tensor.thy ===== *)
theory Tensor
  imports Sample
begin

text \<open>
  Dense tensors as flat lists, for the numeric crates: slices, tensors built row by row in the order
  of their memory, and the operations of \<open>f32\<close> and \<open>f64\<close> the network uses. A loop that
  fills a zeroed buffer through an index formula is modelled by the rows it leaves in the buffer, in
  memory order. Sizes are natural numbers. An assertion, an index or a slice out of range is the
  error \<open>Panicked\<close>, decided before the loop that would meet it.
\<close>

section \<open>Arithmetic\<close>

record ('f, 'g) nops =
  n_ops :: "('f, 'g) sops"
  n_powf :: "'f \<Rightarrow> 'f \<Rightarrow> 'f"
  n_cos :: "'f \<Rightarrow> 'f"
  n_sin :: "'f \<Rightarrow> 'f"
  n_20 :: 'f
  n_1e6 :: 'f
  n_neg_half :: 'f
  n_threads :: nat

text \<open>\<open>n_threads\<close> is what \<open>available_parallelism\<close> reports on the machine; the other constants are
  the literals \<open>20.0\<close>, \<open>1e-6\<close> and \<open>-0.5\<close>.\<close>

abbreviation f32 :: "('f, 'g) nops \<Rightarrow> 'f fops" where "f32 N \<equiv> s32 (n_ops N)"
abbreviation f64 :: "('f, 'g) nops \<Rightarrow> 'g fops" where "f64 N \<equiv> s64 (n_ops N)"
abbreviation to64 :: "('f, 'g) nops \<Rightarrow> 'f \<Rightarrow> 'g" where "to64 N \<equiv> widen (n_ops N)"
abbreviation to32 :: "('f, 'g) nops \<Rightarrow> 'g \<Rightarrow> 'f" where "to32 N \<equiv> narrow (n_ops N)"

datatype net_error =
    Panicked
  | EmptyInput
  | EmptyChunk
  | EmptyPrompt
  | EmbedSize
  | TokenOutOfRange
  | NoGdnWeights
  | NoAttnWeights
  | NoRope
  | LinearStateForAttention
  | AttentionStateForLinear
  | CacheLayers
  | NonFiniteLogits
  | SamplerFailed draw_error

text \<open>\<open>assert_eq!\<close> and the bounds checks: the continuation runs when the condition holds.\<close>

definition assert_that :: "bool \<Rightarrow> net_error + 'a \<Rightarrow> net_error + 'a" where
  "assert_that c k = guard_err (\<not> c) Panicked k"

lemma assert_that_True [simp]: "c \<Longrightarrow> assert_that c k = k"
  by (simp add: assert_that_def)

lemma assert_that_Inr [simp]: "assert_that c k = Inr y \<longleftrightarrow> c \<and> k = Inr y"
  by (simp add: assert_that_def)

section \<open>Slices and rows\<close>

definition slice :: "'a list \<Rightarrow> nat \<Rightarrow> nat \<Rightarrow> 'a list" where
  "slice x off n = take n (drop off x)"

definition rows :: "nat \<Rightarrow> (nat \<Rightarrow> 'a list) \<Rightarrow> 'a list" where
  "rows n f = concat (map f [0..<n])"

lemma length_slice [simp]: "off + n \<le> length x \<Longrightarrow> length (slice x off n) = n"
  by (simp add: slice_def)

lemma slice_append1: "off + n \<le> length x \<Longrightarrow> slice (x @ y) off n = slice x off n"
  by (simp add: slice_def)

lemma slice_append2: "slice (x @ y) (length x + off) n = slice y off n"
  by (simp add: slice_def)

lemma nth_slice: "i < n \<Longrightarrow> off + i < length x \<Longrightarrow> slice x off n ! i = x ! (off + i)"
  by (simp add: slice_def)

lemma rows_0 [simp]: "rows 0 f = []"
  by (simp add: rows_def)

lemma rows_Suc: "rows (Suc n) f = rows n f @ f n"
  by (simp add: rows_def)

lemma rows_cong [fundef_cong]: "n = m \<Longrightarrow> (\<And>r. r < m \<Longrightarrow> f r = g r) \<Longrightarrow> rows n f = rows m g"
  unfolding rows_def by (auto intro!: arg_cong [where f = concat] map_cong)

lemma rows_add: "rows (n + m) f = rows n f @ rows m (\<lambda>r. f (n + r))"
proof (induction m)
  case (Suc m)
  then show ?case by (simp add: rows_Suc)
qed simp

lemma length_rows [simp]: "(\<And>r. r < n \<Longrightarrow> length (f r) = d) \<Longrightarrow> length (rows n f) = n * d"
  by (induction n) (simp_all add: rows_Suc)

lemma row_bound: "r < n \<Longrightarrow> r * d + d \<le> n * (d :: nat)"
  using mult_le_mono1 [of "Suc r" n d] by simp

lemma slice_rows:
  assumes "\<And>r. r < n \<Longrightarrow> length (f r) = d" and "r < n"
  shows "slice (rows n f) (r * d) d = f r"
proof -
  have "rows n f = rows r f @ f r @ rows (n - Suc r) (\<lambda>i. f (Suc r + i))"
    using rows_add [of "Suc r" "n - Suc r" f] assms(2) by (simp add: rows_Suc)
  moreover have "length (rows r f) = r * d" using assms by (intro length_rows) auto
  ultimately show ?thesis using assms by (simp add: slice_def)
qed

lemma nth_rows:
  assumes "\<And>r. r < n \<Longrightarrow> length (f r) = d" and "r < n" and "i < d"
  shows "rows n f ! (r * d + i) = f r ! i"
proof -
  have "length (rows n f) = n * d" using assms(1) by (rule length_rows)
  then have "slice (rows n f) (r * d) d ! i = rows n f ! (r * d + i)"
    using assms(2,3) row_bound [OF assms(2), of d] by (intro nth_slice) auto
  then show ?thesis using slice_rows [OF assms(1,2)] by simp
qed

lemma rows_nested: "rows n (\<lambda>r. rows m (f r)) = rows (n * m) (\<lambda>i. f (i div m) (i mod m))"
proof (induction n)
  case (Suc n)
  have "rows (n * m + m) (\<lambda>i. f (i div m) (i mod m)) =
      rows (n * m) (\<lambda>i. f (i div m) (i mod m)) @ rows m (\<lambda>i. f ((n * m + i) div m) ((n * m + i) mod m))"
    by (rule rows_add)
  also have "rows m (\<lambda>i. f ((n * m + i) div m) ((n * m + i) mod m)) = rows m (f n)"
    by (rule rows_cong) auto
  finally show ?case using Suc by (simp add: rows_Suc add.commute)
qed simp

lemma rows_single: "rows n (\<lambda>i. [f i]) = map f [0..<n]"
  by (induction n) (simp_all add: rows_Suc)

lemma rows_one [simp]: "rows (Suc 0) f = f 0"
  by (simp add: rows_Suc)

text \<open>A tensor processed row by row, and what a second chunk of rows adds to it.\<close>

definition row_map :: "('a list \<Rightarrow> 'b list) \<Rightarrow> nat \<Rightarrow> nat \<Rightarrow> 'a list \<Rightarrow> 'b list" where
  "row_map f d n x = rows n (\<lambda>r. f (slice x (r * d) d))"

definition row_map2 :: "('a list \<Rightarrow> 'b list \<Rightarrow> 'c list) \<Rightarrow> nat \<Rightarrow> nat \<Rightarrow> 'a list \<Rightarrow> 'b list \<Rightarrow> 'c list" where
  "row_map2 f d n x y = rows n (\<lambda>r. f (slice x (r * d) d) (slice y (r * d) d))"

named_theorems chunked

lemma slice_chunk1: "length x = n * d \<Longrightarrow> r < n \<Longrightarrow> slice (x @ y) (r * d) d = slice x (r * d) d"
  using row_bound [of r n d] by (simp add: slice_append1)

lemma slice_chunk2: "length x = n * d \<Longrightarrow> slice (x @ y) ((n + r) * d) d = slice y (r * d) d"
  using slice_append2 [of x y "r * d" d] by (simp add: algebra_simps)

lemma row_map_append [chunked]:
  assumes "length x = n * d"
  shows "row_map f d (n + m) (x @ y) = row_map f d n x @ row_map f d m y"
  unfolding row_map_def rows_add slice_chunk2 [OF assms]
  by (intro arg_cong2 [where f = append] rows_cong refl) (simp add: slice_chunk1 [OF assms])

lemma row_map2_append [chunked]:
  assumes "length x = n * d" and "length x' = n * d"
  shows "row_map2 f d (n + m) (x @ y) (x' @ y') = row_map2 f d n x x' @ row_map2 f d m y y'"
  unfolding row_map2_def rows_add slice_chunk2 [OF assms(1)] slice_chunk2 [OF assms(2)]
  by (intro arg_cong2 [where f = append] rows_cong refl)
    (simp add: slice_chunk1 [OF assms(1)] slice_chunk1 [OF assms(2)])

lemma length_row_map:
  assumes "\<And>xs. length xs = d \<Longrightarrow> length (f xs) = e" and "length x = n * d"
  shows "length (row_map f d n x) = n * e"
  unfolding row_map_def
  by (rule length_rows) (use assms row_bound [of _ n d] in simp)

lemma length_row_map2:
  assumes "\<And>xs ys. length xs = d \<Longrightarrow> length ys = d \<Longrightarrow> length (f xs ys) = e"
    and "length x = n * d" and "length y = n * d"
  shows "length (row_map2 f d n x y) = n * e"
  unfolding row_map2_def
  by (rule length_rows) (use assms row_bound [of _ n d] in simp)

section \<open>Chunked runs\<close>

text \<open>An operation that carries a state over a sequence of positions. The laws: running a chunk and
  then another one from the state it left is running both at once, and the invariant of the state is
  kept.\<close>

locale chunked_run =
  fixes run :: "'s \<Rightarrow> 'x list \<Rightarrow> 'y list \<times> 's"
    and inv :: "'s \<Rightarrow> bool"
    and ok :: "'x list \<Rightarrow> bool"
  assumes run_append:
    "inv s \<Longrightarrow> ok xs \<Longrightarrow> ok ys \<Longrightarrow> run s (xs @ ys) =
       (fst (run s xs) @ fst (run (snd (run s xs)) ys), snd (run (snd (run s xs)) ys))"
    and run_inv: "inv s \<Longrightarrow> ok xs \<Longrightarrow> inv (snd (run s xs))"
    and ok_append: "ok xs \<Longrightarrow> ok ys \<Longrightarrow> ok (xs @ ys)"
begin

text \<open>Any split into chunks gives the outputs and the state of the single run.\<close>

fun run_chunks :: "'s \<Rightarrow> 'x list list \<Rightarrow> 'y list \<times> 's" where
  "run_chunks s [] = ([], s)"
| "run_chunks s (c # cs) =
     (let (y, s) = run s c; (z, s) = run_chunks s cs in (y @ z, s))"

lemma ok_concat: "cs \<noteq> [] \<Longrightarrow> list_all ok cs \<Longrightarrow> ok (concat cs)"
  by (induction cs rule: list_nonempty_induct) (auto simp: ok_append)

lemma run_chunks_concat:
  "cs \<noteq> [] \<Longrightarrow> inv s \<Longrightarrow> list_all ok cs \<Longrightarrow> run_chunks s cs = run s (concat cs)"
proof (induction cs arbitrary: s rule: list_nonempty_induct)
  case (cons c cs)
  then show ?case
    using run_append [of s c "concat cs"] run_inv [of s c] ok_concat [of cs] by (simp add: Let_def case_prod_unfold)
qed (simp add: Let_def case_prod_unfold)

lemma run_chunks_inv: "inv s \<Longrightarrow> list_all ok cs \<Longrightarrow> inv (snd (run_chunks s cs))"
  by (induction cs arbitrary: s) (simp_all add: Let_def case_prod_unfold run_inv)

end

end
