(* ===== verification/Delta_Rule.thy ===== *)
theory Delta_Rule
  imports Tensor
begin

text \<open>
  The gated delta rule (\<open>delta/src/lib.rs\<close>): normalisation of the queries and keys, the
  recurrence over \<open>[B, T, H, D]\<close> tensors with its \<open>[B, H, K, V]\<close> state, and the entry points
  that check the operands. One head of one time step works on the \<open>K * V\<close> block of the state
  that belongs to it. The state passed by \<open>&mut\<close> is returned next to the output.
\<close>

definition l2norm_row :: "('f, 'g) nops \<Rightarrow> 'f \<Rightarrow> 'f list \<Rightarrow> 'f list" where
  "l2norm_row N eps xs =
     (let ss = foldl (\<lambda>a v. f_add (f32 N) a (f_mul (f32 N) v v)) (f_zero (f32 N)) xs;
          inv = f_div (f32 N) (f_one (f32 N)) (f_sqrt (f32 N) (f_add (f32 N) ss eps))
      in map (\<lambda>v. f_mul (f32 N) v inv) xs)"

definition l2norm_last_dim :: "('f, 'g) nops \<Rightarrow> 'f list \<Rightarrow> nat \<Rightarrow> nat \<Rightarrow> 'f \<Rightarrow> 'f list" where
  "l2norm_last_dim N buf n d eps = row_map (l2norm_row N eps) d n buf @ drop (n * d) buf"

definition prepare_qk ::
  "('f, 'g) nops \<Rightarrow> 'f list \<Rightarrow> 'f list \<Rightarrow> nat \<Rightarrow> nat \<Rightarrow> nat \<Rightarrow> nat \<Rightarrow> 'f list \<times> 'f list" where
  "prepare_qk N q k b t h d =
     (let eps = n_1e6 N;
          n = b * t * h;
          q = l2norm_last_dim N q n d eps;
          k = l2norm_last_dim N k n d eps;
          scale = f_div (f32 N) (f_one (f32 N)) (f_sqrt (f32 N) (f_of_nat (f32 N) d))
      in (map (\<lambda>v. f_mul (f32 N) v scale) q, k))"

record Shape =
  sh_b :: nat
  sh_t :: nat
  sh_h :: nat
  sh_k :: nat
  sh_v :: nat

definition idx4 :: "Shape \<Rightarrow> nat \<Rightarrow> nat \<Rightarrow> nat \<Rightarrow> nat \<Rightarrow> nat \<Rightarrow> nat" where
  "idx4 s bi ti hi d dsz = ((bi * sh_t s + ti) * sh_h s + hi) * dsz + d"

definition idx_state :: "Shape \<Rightarrow> nat \<Rightarrow> nat \<Rightarrow> nat \<Rightarrow> nat \<Rightarrow> nat" where
  "idx_state s bi hi ki vi = ((bi * sh_h s + hi) * sh_k s + ki) * sh_v s + vi"

definition validate_operands ::
  "Shape \<Rightarrow> 'f list \<Rightarrow> 'f list \<Rightarrow> 'f list \<Rightarrow> 'f list \<Rightarrow> 'f list \<Rightarrow> bool" where
  "validate_operands s q k v g beta \<longleftrightarrow>
     length q = sh_b s * sh_t s * sh_h s * sh_k s \<and>
     length k = sh_b s * sh_t s * sh_h s * sh_k s \<and>
     length v = sh_b s * sh_t s * sh_h s * sh_v s \<and>
     length g = sh_b s * sh_t s * sh_h s \<and>
     length beta = sh_b s * sh_t s * sh_h s"

text \<open>The recurrence on one block: decay, read-out, prediction error, rank-1 correction, read-out.
  \<open>blk\<close> is the \<open>K * V\<close> state of the head; \<open>qr\<close>, \<open>kr\<close>, \<open>vr\<close> are its rows of \<open>q\<close>, \<open>k\<close>, \<open>v\<close>.\<close>

definition head_update ::
  "('f, 'g) nops \<Rightarrow> nat \<Rightarrow> nat \<Rightarrow> 'f list \<Rightarrow> 'f list \<Rightarrow> 'f list \<Rightarrow> 'f list \<Rightarrow> 'f \<Rightarrow> 'f \<Rightarrow> 'f list \<times> 'f list" where
  "head_update N K V blk qr kr vr g_t beta_t =
     (let blk = map (\<lambda>x. f_mul (f32 N) x g_t) blk;
          kv_mem = map (\<lambda>vi. foldl (\<lambda>a ki. f_add (f32 N) a (f_mul (f32 N) (blk ! (ki * V + vi)) (kr ! ki)))
                     (f_zero (f32 N)) [0..<K]) [0..<V];
          delta = map (\<lambda>vi. f_mul (f32 N) (f_sub (f32 N) (vr ! vi) (kv_mem ! vi)) beta_t) [0..<V];
          blk = rows K (\<lambda>ki. map (\<lambda>vi.
                  f_add (f32 N) (blk ! (ki * V + vi)) (f_mul (f32 N) (kr ! ki) (delta ! vi))) [0..<V]);
          out = map (\<lambda>vi. foldl (\<lambda>a ki. f_add (f32 N) a (f_mul (f32 N) (blk ! (ki * V + vi)) (qr ! ki)))
                  (f_zero (f32 N)) [0..<K]) [0..<V]
      in (blk, out))"

definition head_step ::
  "('f, 'g) nops \<Rightarrow> Shape \<Rightarrow> 'f list \<Rightarrow> 'f list \<Rightarrow> 'f list \<Rightarrow> 'f list \<Rightarrow> 'f list \<Rightarrow> nat \<Rightarrow> nat \<Rightarrow>
   'f list \<times> 'f list \<Rightarrow> nat \<Rightarrow> 'f list \<times> 'f list" where
  "head_step N s q k v g beta bi ti so hi =
     (let (state, out) = so;
          K = sh_k s; V = sh_v s;
          off = idx_state s bi hi 0 0;
          g_t = f_exp (f32 N) (g ! ((bi * sh_t s + ti) * sh_h s + hi));
          beta_t = beta ! ((bi * sh_t s + ti) * sh_h s + hi);
          (blk, o_t) = head_update N K V (slice state off (K * V))
             (slice q (idx4 s bi ti hi 0 K) K) (slice k (idx4 s bi ti hi 0 K) K)
             (slice v (idx4 s bi ti hi 0 V) V) g_t beta_t
      in (take off state @ blk @ drop (off + K * V) state, out @ o_t))"

definition time_step ::
  "('f, 'g) nops \<Rightarrow> Shape \<Rightarrow> 'f list \<Rightarrow> 'f list \<Rightarrow> 'f list \<Rightarrow> 'f list \<Rightarrow> 'f list \<Rightarrow> nat \<Rightarrow>
   'f list \<times> 'f list \<Rightarrow> nat \<Rightarrow> 'f list \<times> 'f list" where
  "time_step N s q k v g beta bi so ti = foldl (head_step N s q k v g beta bi ti) so [0..<sh_h s]"

definition batch_step ::
  "('f, 'g) nops \<Rightarrow> Shape \<Rightarrow> 'f list \<Rightarrow> 'f list \<Rightarrow> 'f list \<Rightarrow> 'f list \<Rightarrow> 'f list \<Rightarrow>
   'f list \<times> 'f list \<Rightarrow> nat \<Rightarrow> 'f list \<times> 'f list" where
  "batch_step N s q k v g beta so bi = foldl (time_step N s q k v g beta bi) so [0..<sh_t s]"

definition recurrence ::
  "('f, 'g) nops \<Rightarrow> Shape \<Rightarrow> 'f list \<Rightarrow> 'f list \<Rightarrow> 'f list \<Rightarrow> 'f list \<Rightarrow> 'f list \<Rightarrow> 'f list \<Rightarrow>
   'f list \<times> 'f list" where
  "recurrence N s q k v g beta state = foldl (batch_step N s q k v g beta) (state, []) [0..<sh_b s]"

definition delta_forward ::
  "('f, 'g) nops \<Rightarrow> Shape \<Rightarrow> 'f list \<Rightarrow> 'f list \<Rightarrow> 'f list \<Rightarrow> 'f list \<Rightarrow> 'f list \<Rightarrow> 'f list \<Rightarrow>
   net_error + 'f list \<times> 'f list" where
  "delta_forward N s q k v g beta state =
     assert_that (validate_operands s q k v g beta)
       (assert_that (length state = sh_b s * sh_h s * sh_k s * sh_v s)
          (Inr (recurrence N s q k v g beta state)))"

definition forward_prepared_into ::
  "('f, 'g) nops \<Rightarrow> Shape \<Rightarrow> 'f list \<Rightarrow> 'f list \<Rightarrow> 'f list \<Rightarrow> 'f list \<Rightarrow> 'f list \<Rightarrow> 'f list \<Rightarrow>
   net_error + 'f list \<times> 'f list" where
  "forward_prepared_into N s q_in k_in v g beta state =
     assert_that (validate_operands s q_in k_in v g beta)
       (assert_that (length state = sh_b s * sh_h s * sh_k s * sh_v s)
          (let (q, k) = prepare_qk N q_in k_in (sh_b s) (sh_t s) (sh_h s) (sh_k s)
           in delta_forward N s q k v g beta state))"

definition forward_prepared ::
  "('f, 'g) nops \<Rightarrow> Shape \<Rightarrow> 'f list \<Rightarrow> 'f list \<Rightarrow> 'f list \<Rightarrow> 'f list \<Rightarrow> 'f list \<Rightarrow>
   net_error + 'f list \<times> 'f list" where
  "forward_prepared N s q_in k_in v g beta =
     forward_prepared_into N s q_in k_in v g beta
       (replicate (sh_b s * sh_h s * sh_k s * sh_v s) (f_zero (f32 N)))"

section \<open>Shapes\<close>

lemma length_l2norm_row [simp]: "length (l2norm_row N eps xs) = length xs"
  by (simp add: l2norm_row_def Let_def)

lemma l2norm_exact: "length x = n * d \<Longrightarrow> l2norm_last_dim N x n d eps = row_map (l2norm_row N eps) d n x"
  by (simp add: l2norm_last_dim_def)

lemma length_l2norm [simp]: "length x = n * d \<Longrightarrow> length (l2norm_last_dim N x n d eps) = n * d"
  by (simp add: l2norm_exact length_row_map)

lemma head_update_length:
  "head_update N K V blk qr kr vr g b = (blk', o_t) \<Longrightarrow> length blk' = K * V \<and> length o_t = V"
  by (auto simp: head_update_def Let_def)

lemma head_offset:
  assumes "bi < sh_b s" and "hi < sh_h s"
  shows "idx_state s bi hi 0 0 + sh_k s * sh_v s \<le> sh_b s * sh_h s * sh_k s * sh_v s"
proof -
  have "bi * sh_h s + hi < sh_b s * sh_h s"
    using assms row_bound [of bi "sh_b s" "sh_h s"] by linarith
  from row_bound [OF this, of "sh_k s * sh_v s"] show ?thesis
    by (simp add: idx_state_def algebra_simps)
qed

definition sized :: "Shape \<Rightarrow> nat \<Rightarrow> 'f list \<times> 'f list \<Rightarrow> bool" where
  "sized s n so \<longleftrightarrow> length (fst so) = sh_b s * sh_h s * sh_k s * sh_v s \<and> length (snd so) = n"

lemma head_step_sized:
  assumes "sized s n so" and "bi < sh_b s" and "hi < sh_h s"
  shows "sized s (n + sh_v s) (head_step N s q k v g beta bi ti so hi)"
  using assms head_offset [OF assms(2,3)]
  by (auto simp: head_step_def sized_def Let_def split: prod.splits dest!: head_update_length)

lemma foldl_sized:
  assumes "\<And>so n i. sized s n so \<Longrightarrow> i \<in> set is \<Longrightarrow> sized s (n + d) (f so i)" and "sized s n so"
  shows "sized s (n + length is * d) (foldl f so is)"
  using assms
proof (induction "is" arbitrary: so n)
  case (Cons i "is")
  have "sized s (n + d) (f so i)" using Cons.prems by simp
  then have "sized s (n + d + length is * d) (foldl f (f so i) is)"
    using Cons.prems(1) by (intro Cons.IH) simp_all
  then show ?case by (simp add: algebra_simps)
qed simp

lemma time_step_sized:
  "sized s n so \<Longrightarrow> bi < sh_b s \<Longrightarrow> sized s (n + sh_h s * sh_v s) (time_step N s q k v g beta bi so ti)"
  unfolding time_step_def
  using foldl_sized [of s "[0..<sh_h s]" "sh_v s" "head_step N s q k v g beta bi ti" n so] head_step_sized by force

lemma batch_step_sized:
  "sized s n so \<Longrightarrow> bi < sh_b s \<Longrightarrow> sized s (n + sh_t s * (sh_h s * sh_v s)) (batch_step N s q k v g beta so bi)"
  unfolding batch_step_def
  using foldl_sized [of s "[0..<sh_t s]" "sh_h s * sh_v s" "time_step N s q k v g beta bi" n so] time_step_sized by force

lemma recurrence_sized:
  "length state = sh_b s * sh_h s * sh_k s * sh_v s \<Longrightarrow>
   sized s (sh_b s * (sh_t s * (sh_h s * sh_v s))) (recurrence N s q k v g beta state)"
  unfolding recurrence_def
  using foldl_sized [of s "[0..<sh_b s]" "sh_t s * (sh_h s * sh_v s)" "batch_step N s q k v g beta" 0 "(state, [])"]
    batch_step_sized by (force simp: sized_def)

section \<open>Continuing from the state\<close>

text \<open>The outputs of a step are appended to those before it, whatever they are.\<close>

definition appends :: "('s \<times> 'a list \<Rightarrow> 'i \<Rightarrow> 's \<times> 'a list) \<Rightarrow> bool" where
  "appends f \<longleftrightarrow> (\<forall>st out i. f (st, out) i = (fst (f (st, []) i), out @ snd (f (st, []) i)))"

lemma appends_foldl:
  assumes "appends f"
  shows "foldl f (st, out) is = (fst (foldl f (st, []) is), out @ snd (foldl f (st, []) is))"
proof (induction "is" arbitrary: st out)
  case (Cons i "is")
  obtain st' o' where f: "f (st, []) i = (st', o')" by fastforce
  then have "f (st, out) i = (st', out @ o')" using assms unfolding appends_def by (metis fst_conv snd_conv)
  then have "foldl f (st, out) (i # is) = foldl f (st', out @ o') is" by simp
  also have "\<dots> = (fst (foldl f (st', []) is), (out @ o') @ snd (foldl f (st', []) is))" by (rule Cons.IH)
  also have "\<dots> = (fst (foldl f (st', o') is), out @ snd (foldl f (st', o') is))"
    using Cons.IH [of st' o'] by simp
  finally show ?case using f by simp
qed simp

lemma appends_head_step: "appends (head_step N s q k v g beta bi ti)"
  by (simp add: appends_def head_step_def Let_def split_beta)

lemma appends_time_step: "appends (time_step N s q k v g beta bi)"
proof -
  note head = appends_foldl [OF appends_head_step]
  show ?thesis unfolding appends_def time_step_def by (intro allI) (rule head)
qed

text \<open>One sequence (a batch of one) whose operands are split at a time step.\<close>

lemma split_lengths:
  assumes "validate_operands (s\<lparr>sh_t := t1\<rparr>) q1 k1 v1 g1 b1" and "sh_b s = 1"
  shows "length q1 = t1 * sh_h s * sh_k s" "length k1 = t1 * sh_h s * sh_k s"
    "length v1 = t1 * sh_h s * sh_v s" "length g1 = t1 * sh_h s" "length b1 = t1 * sh_h s"
  using assms by (auto simp: validate_operands_def)

lemma head_first:
  assumes "validate_operands (s\<lparr>sh_t := t1\<rparr>) q1 k1 v1 g1 b1" and "sh_b s = 1" and "ti < t1" and "hi < sh_h s"
  shows "head_step N (s\<lparr>sh_t := t1 + t2\<rparr>) (q1 @ q2) (k1 @ k2) (v1 @ v2) (g1 @ g2) (b1 @ b2) 0 ti so hi =
    head_step N (s\<lparr>sh_t := t1\<rparr>) q1 k1 v1 g1 b1 0 ti so hi"
proof -
  note len = split_lengths [OF assms(1,2)]
  have r: "ti * sh_h s + hi < t1 * sh_h s" using assms(3,4) row_bound [of ti t1 "sh_h s"] by linarith
  show ?thesis
    unfolding head_step_def idx4_def idx_state_def
    using slice_chunk1 [OF len(1) r] slice_chunk1 [OF len(2) r] slice_chunk1 [OF len(3) r] r len(4,5)
    by (simp add: nth_append)
qed

lemma head_second:
  assumes "validate_operands (s\<lparr>sh_t := t1\<rparr>) q1 k1 v1 g1 b1" and "sh_b s = 1"
  shows "head_step N (s\<lparr>sh_t := t1 + t2\<rparr>) (q1 @ q2) (k1 @ k2) (v1 @ v2) (g1 @ g2) (b1 @ b2) 0 (t1 + ti) so hi =
    head_step N (s\<lparr>sh_t := t2\<rparr>) q2 k2 v2 g2 b2 0 ti so hi"
proof -
  note len = split_lengths [OF assms]
  have r: "(t1 + ti) * sh_h s + hi = t1 * sh_h s + (ti * sh_h s + hi)" by (simp add: algebra_simps)
  show ?thesis
    unfolding head_step_def idx4_def idx_state_def
    using slice_chunk2 [OF len(1)] slice_chunk2 [OF len(2)] slice_chunk2 [OF len(3)] len(4,5)
    by (simp add: nth_append r)
qed

lemma upt_split: "[0..<t1 + t2] = [0..<t1] @ map ((+) t1) [0..<t2]"
proof -
  have "map ((+) t1) [0..<t2] = map (\<lambda>i. i + t1) [0..<t2]" by (rule map_cong) simp_all
  then show ?thesis using upt_add_eq_append [of 0 t1 t2] map_add_upt [of t1 t2] by (simp add: add.commute)
qed

lemma recurrence_append:
  assumes "validate_operands (s\<lparr>sh_t := t1\<rparr>) q1 k1 v1 g1 b1" and "sh_b s = 1"
  shows "recurrence N (s\<lparr>sh_t := t1 + t2\<rparr>) (q1 @ q2) (k1 @ k2) (v1 @ v2) (g1 @ g2) (b1 @ b2) st =
    (let (st, o1) = recurrence N (s\<lparr>sh_t := t1\<rparr>) q1 k1 v1 g1 b1 st;
         (st, o2) = recurrence N (s\<lparr>sh_t := t2\<rparr>) q2 k2 v2 g2 b2 st
     in (st, o1 @ o2))"
proof -
  let ?f = "time_step N (s\<lparr>sh_t := t1 + t2\<rparr>) (q1 @ q2) (k1 @ k2) (v1 @ v2) (g1 @ g2) (b1 @ b2) 0"
  let ?f1 = "time_step N (s\<lparr>sh_t := t1\<rparr>) q1 k1 v1 g1 b1 0" and ?f2 = "time_step N (s\<lparr>sh_t := t2\<rparr>) q2 k2 v2 g2 b2 0"
  have 1: "foldl ?f so [0..<t1] = foldl ?f1 so [0..<t1]" for so
    by (intro foldl_cong refl) (auto simp: time_step_def head_first [OF assms] intro!: foldl_cong)
  have "head_step N (s\<lparr>sh_t := t1 + t2\<rparr>) (q1 @ q2) (k1 @ k2) (v1 @ v2) (g1 @ g2) (b1 @ b2) 0 (t1 + ti) =
      head_step N (s\<lparr>sh_t := t2\<rparr>) q2 k2 v2 g2 b2 0 ti" for ti
    by (intro ext) (rule head_second [OF assms])
  then have 2: "foldl ?f so (map ((+) t1) [0..<t2]) = foldl ?f2 so [0..<t2]" for so
    unfolding foldl_map time_step_def by simp
  have "recurrence N (s\<lparr>sh_t := t1 + t2\<rparr>) (q1 @ q2) (k1 @ k2) (v1 @ v2) (g1 @ g2) (b1 @ b2) st =
      foldl ?f2 (foldl ?f1 (st, []) [0..<t1]) [0..<t2]"
    unfolding recurrence_def batch_step_def using assms(2) by (simp add: upt_split 1 2 foldl_append)
  then show ?thesis
    using appends_foldl [OF appends_time_step, of N "s\<lparr>sh_t := t2\<rparr>" q2 k2 v2 g2 b2 0
        "fst (foldl ?f1 (st, []) [0..<t1])" "snd (foldl ?f1 (st, []) [0..<t1])"] assms(2)
    by (simp add: recurrence_def batch_step_def Let_def split_beta)
qed

text \<open>The prepared recurrence on checked operands.\<close>

definition prepared_run ::
  "('f, 'g) nops \<Rightarrow> Shape \<Rightarrow> 'f list \<Rightarrow> 'f list \<Rightarrow> 'f list \<Rightarrow> 'f list \<Rightarrow> 'f list \<Rightarrow> 'f list \<Rightarrow> 'f list \<times> 'f list" where
  "prepared_run N s q k v g beta state =
     recurrence N s (fst (prepare_qk N q k (sh_b s) (sh_t s) (sh_h s) (sh_k s)))
       (snd (prepare_qk N q k (sh_b s) (sh_t s) (sh_h s) (sh_k s))) v g beta state"

lemma validate_prepared:
  "validate_operands s q k v g beta \<Longrightarrow>
   validate_operands s (fst (prepare_qk N q k (sh_b s) (sh_t s) (sh_h s) (sh_k s)))
     (snd (prepare_qk N q k (sh_b s) (sh_t s) (sh_h s) (sh_k s))) v g beta"
  by (simp add: validate_operands_def prepare_qk_def Let_def)

lemma forward_prepared_into_run:
  assumes "validate_operands s q k v g beta" and "length state = sh_b s * sh_h s * sh_k s * sh_v s"
  shows "forward_prepared_into N s q k v g beta state = Inr (prepared_run N s q k v g beta state)"
  using assms validate_prepared [OF assms(1), of N]
  by (simp add: forward_prepared_into_def delta_forward_def prepared_run_def split_beta)

lemma prepared_run_length:
  assumes "length state = sh_b s * sh_h s * sh_k s * sh_v s"
  shows "length (fst (prepared_run N s q k v g beta state)) = sh_b s * sh_h s * sh_k s * sh_v s"
    and "length (snd (prepared_run N s q k v g beta state)) = sh_b s * (sh_t s * (sh_h s * sh_v s))"
  using recurrence_sized [OF assms] unfolding prepared_run_def sized_def by blast+

lemma prepared_run_append:
  assumes "validate_operands (s\<lparr>sh_t := t1\<rparr>) q1 k1 v1 g1 b1"
    and "validate_operands (s\<lparr>sh_t := t2\<rparr>) q2 k2 v2 g2 b2" and "sh_b s = 1"
  shows "prepared_run N (s\<lparr>sh_t := t1 + t2\<rparr>) (q1 @ q2) (k1 @ k2) (v1 @ v2) (g1 @ g2) (b1 @ b2) st =
    (let (st, o1) = prepared_run N (s\<lparr>sh_t := t1\<rparr>) q1 k1 v1 g1 b1 st;
         (st, o2) = prepared_run N (s\<lparr>sh_t := t2\<rparr>) q2 k2 v2 g2 b2 st
     in (st, o1 @ o2))"
proof -
  note l1 = split_lengths [OF assms(1,3)] and l2 = split_lengths [OF assms(2,3)]
  have norm: "l2norm_last_dim N (x1 @ x2) ((t1 + t2) * sh_h s) (sh_k s) eps =
      l2norm_last_dim N x1 (t1 * sh_h s) (sh_k s) eps @ l2norm_last_dim N x2 (t2 * sh_h s) (sh_k s) eps"
    if "length x1 = t1 * sh_h s * sh_k s" "length x2 = t2 * sh_h s * sh_k s" for x1 x2 eps
    using that row_map_append [of x1 "t1 * sh_h s" "sh_k s" "l2norm_row N eps" "t2 * sh_h s" x2]
    by (simp add: l2norm_exact algebra_simps)
  from recurrence_append [OF validate_prepared [OF assms(1), where N = N] assms(3), where N = N and ?t2.0 = t2 and
      ?q2.0 = "fst (prepare_qk N q2 k2 (sh_b s) t2 (sh_h s) (sh_k s))" and
      ?k2.0 = "snd (prepare_qk N q2 k2 (sh_b s) t2 (sh_h s) (sh_k s))" and
      ?v2.0 = v2 and ?g2.0 = g2 and ?b2.0 = b2 and st = st] show ?thesis
    using norm [OF l1(1) l2(1)] norm [OF l1(2) l2(2)] assms(3)
    by (simp add: prepared_run_def prepare_qk_def Let_def)
qed

text \<open>Continuing from a carried state is the same computation as one run: for one sequence, the
  recurrence over the operands of two chunks, the second started in the state the first left,
  gives the outputs and the final state of the recurrence over the concatenated operands, in the
  same arithmetic and to the last bit.\<close>

lemma delta_rule_continues:
  assumes "validate_operands (s\<lparr>sh_t := t1\<rparr>) q1 k1 v1 g1 b1"
    and "validate_operands (s\<lparr>sh_t := t2\<rparr>) q2 k2 v2 g2 b2"
    and "sh_b s = 1" and "length st = sh_h s * sh_k s * sh_v s"
  shows "\<exists>st1 o1 st2 o2.
    forward_prepared_into N (s\<lparr>sh_t := t1\<rparr>) q1 k1 v1 g1 b1 st = Inr (st1, o1) \<and>
    forward_prepared_into N (s\<lparr>sh_t := t2\<rparr>) q2 k2 v2 g2 b2 st1 = Inr (st2, o2) \<and>
    forward_prepared_into N (s\<lparr>sh_t := t1 + t2\<rparr>) (q1 @ q2) (k1 @ k2) (v1 @ v2) (g1 @ g2) (b1 @ b2) st =
      Inr (st2, o1 @ o2)"
proof -
  have v: "validate_operands (s\<lparr>sh_t := t1 + t2\<rparr>) (q1 @ q2) (k1 @ k2) (v1 @ v2) (g1 @ g2) (b1 @ b2)"
    using split_lengths [OF assms(1,3)] split_lengths [OF assms(2,3)] assms(3)
    by (simp add: validate_operands_def algebra_simps)
  obtain st1 o1 where 1: "prepared_run N (s\<lparr>sh_t := t1\<rparr>) q1 k1 v1 g1 b1 st = (st1, o1)" by fastforce
  have "length st1 = sh_h s * sh_k s * sh_v s"
    using prepared_run_length(1) [of st "s\<lparr>sh_t := t1\<rparr>" N q1 k1 v1 g1 b1] 1 assms(3,4) by simp
  then have
    "forward_prepared_into N (s\<lparr>sh_t := t1\<rparr>) q1 k1 v1 g1 b1 st = Inr (st1, o1)"
    "forward_prepared_into N (s\<lparr>sh_t := t2\<rparr>) q2 k2 v2 g2 b2 st1 =
      Inr (prepared_run N (s\<lparr>sh_t := t2\<rparr>) q2 k2 v2 g2 b2 st1)"
    "forward_prepared_into N (s\<lparr>sh_t := t1 + t2\<rparr>) (q1 @ q2) (k1 @ k2) (v1 @ v2) (g1 @ g2) (b1 @ b2) st =
      Inr (fst (prepared_run N (s\<lparr>sh_t := t2\<rparr>) q2 k2 v2 g2 b2 st1),
           o1 @ snd (prepared_run N (s\<lparr>sh_t := t2\<rparr>) q2 k2 v2 g2 b2 st1))"
    using 1 forward_prepared_into_run [OF assms(1), of st N] forward_prepared_into_run [OF assms(2), of st1 N]
      forward_prepared_into_run [OF v, of st N] prepared_run_append [OF assms(1-3), of N st] assms(3,4)
    by (simp_all add: split_beta)
  then show ?thesis by (metis prod.collapse)
qed

end
