(* ===== verification/Gdn_Ops.thy ===== *)
theory Gdn_Ops
  imports Delta_Rule
begin

text \<open>
  The primitives of the network (\<open>gdn/src/lib.rs\<close>): the linear map with its serial and its
  threaded path, the two RMS norms, the activations, the causal convolution with carried state, the
  head expansion and the two transposes.
\<close>

abbreviation fadd :: "('f, 'g) nops \<Rightarrow> 'f \<Rightarrow> 'f \<Rightarrow> 'f" where "fadd N \<equiv> f_add (f32 N)"
abbreviation fmul :: "('f, 'g) nops \<Rightarrow> 'f \<Rightarrow> 'f \<Rightarrow> 'f" where "fmul N \<equiv> f_mul (f32 N)"
abbreviation fdiv :: "('f, 'g) nops \<Rightarrow> 'f \<Rightarrow> 'f \<Rightarrow> 'f" where "fdiv N \<equiv> f_div (f32 N)"
abbreviation fone :: "('f, 'g) nops \<Rightarrow> 'f" where "fone N \<equiv> f_one (f32 N)"
abbreviation fzero :: "('f, 'g) nops \<Rightarrow> 'f" where "fzero N \<equiv> f_zero (f32 N)"

section \<open>The linear map\<close>

definition dot :: "('f, 'g) nops \<Rightarrow> 'f list \<Rightarrow> 'f list \<Rightarrow> 'f" where
  "dot N a b =
     to32 N (foldl (\<lambda>acc i. f_add (f64 N) acc (f_mul (f64 N) (to64 N (a ! i)) (to64 N (b ! i))))
       (f_zero (f64 N)) [0..<length a])"

definition WORK_PER_THREAD :: nat where "WORK_PER_THREAD = 2 ^ 18"
definition MAX_THREADS :: nat where "MAX_THREADS = 16"

definition saturating_mul :: "nat \<Rightarrow> nat \<Rightarrow> nat" where
  "saturating_mul a b = min (a * b) (2 ^ 64 - 1)"

text \<open>One output element: row \<open>o\<close> of the weight against one input row.\<close>

definition linear_elem ::
  "('f, 'g) nops \<Rightarrow> 'f list \<Rightarrow> 'f list option \<Rightarrow> nat \<Rightarrow> 'f list \<Rightarrow> nat \<Rightarrow> 'f" where
  "linear_elem N w bias in_dim xr oi =
     (let wo = slice w (oi * in_dim) in_dim;
          acc = foldl (\<lambda>a i. f_add (f64 N) a (f_mul (f64 N) (to64 N (wo ! i)) (to64 N (xr ! i))))
                  (f_zero (f64 N)) [0..<in_dim]
      in to32 N (case bias of Some b \<Rightarrow> f_add (f64 N) acc (to64 N (b ! oi)) | None \<Rightarrow> acc))"

definition linear_serial ::
  "('f, 'g) nops \<Rightarrow> 'f list \<Rightarrow> 'f list option \<Rightarrow> 'f list \<Rightarrow> nat \<Rightarrow> nat \<Rightarrow> nat \<Rightarrow> 'f list" where
  "linear_serial N w bias x n in_dim out_dim =
     row_map (\<lambda>xr. map (linear_elem N w bias in_dim xr) [0..<out_dim]) in_dim n x"

text \<open>The walk of one thread over its \<open>m\<close> elements, from row \<open>r\<close> and column \<open>oi\<close>.\<close>

fun linear_walk ::
  "('f, 'g) nops \<Rightarrow> 'f list \<Rightarrow> 'f list option \<Rightarrow> 'f list \<Rightarrow> nat \<Rightarrow> nat \<Rightarrow> nat \<Rightarrow> nat \<Rightarrow> nat \<Rightarrow> nat \<Rightarrow> 'f list \<Rightarrow> 'f list" where
  "linear_walk N w bias x n in_dim out_dim 0 r oi xr = []"
| "linear_walk N w bias x n in_dim out_dim (Suc m) r oi xr =
     linear_elem N w bias in_dim xr oi #
     (if oi + 1 = out_dim then
        linear_walk N w bias x n in_dim out_dim m (r + 1) 0
          (if r + 1 < n then slice x ((r + 1) * in_dim) in_dim else xr)
      else linear_walk N w bias x n in_dim out_dim m r (oi + 1) xr)"

definition linear_parallel ::
  "('f, 'g) nops \<Rightarrow> 'f list \<Rightarrow> 'f list option \<Rightarrow> 'f list \<Rightarrow> nat \<Rightarrow> nat \<Rightarrow> nat \<Rightarrow> nat \<Rightarrow> 'f list" where
  "linear_parallel N w bias x n in_dim out_dim nthreads =
     (let items = n * out_dim;
          chunk = max ((items + nthreads - 1) div nthreads) 1
      in rows ((items + chunk - 1) div chunk) (\<lambda>ci.
           let base = ci * chunk
           in linear_walk N w bias x n in_dim out_dim (min chunk (items - base)) (base div out_dim)
                (base mod out_dim) (slice x (base div out_dim * in_dim) in_dim)))"

definition linear ::
  "('f, 'g) nops \<Rightarrow> 'f list \<Rightarrow> 'f list option \<Rightarrow> 'f list \<Rightarrow> nat \<Rightarrow> nat \<Rightarrow> nat \<Rightarrow> net_error + 'f list" where
  "linear N w bias x n in_dim out_dim =
     assert_that (length w = out_dim * in_dim)
       (assert_that (length x = n * in_dim)
          (if n = 0 \<or> out_dim = 0 then Inr (replicate (n * out_dim) (fzero N))
           else
             assert_that (case bias of Some b \<Rightarrow> out_dim \<le> length b | None \<Rightarrow> True)
               (let work = saturating_mul (saturating_mul n in_dim) out_dim;
                    nthreads = min (min (work div WORK_PER_THREAD) (n_threads N)) MAX_THREADS
                in if nthreads \<le> 1 then Inr (linear_serial N w bias x n in_dim out_dim)
                   else Inr (linear_parallel N w bias x n in_dim out_dim nthreads))))"

section \<open>Norms and activations\<close>

definition rms_inv :: "('f, 'g) nops \<Rightarrow> nat \<Rightarrow> 'f \<Rightarrow> 'f list \<Rightarrow> 'f" where
  "rms_inv N dim eps xr =
     (let ss = foldl (\<lambda>a v. f_add (f64 N) a (f_mul (f64 N) (to64 N v) (to64 N v))) (f_zero (f64 N)) xr
      in fdiv N (fone N)
           (f_sqrt (f32 N) (fadd N (to32 N (f_div (f64 N) ss (f_of_nat (f64 N) dim))) eps)))"

definition norm_1plus_row :: "('f, 'g) nops \<Rightarrow> 'f list \<Rightarrow> nat \<Rightarrow> 'f \<Rightarrow> 'f list \<Rightarrow> 'f list" where
  "norm_1plus_row N w dim eps xr =
     (let inv = rms_inv N dim eps xr
      in map (\<lambda>i. fmul N (fmul N (xr ! i) inv) (fadd N (fone N) (w ! i))) [0..<dim])"

definition rmsnorm_1plus ::
  "('f, 'g) nops \<Rightarrow> 'f list \<Rightarrow> 'f list \<Rightarrow> nat \<Rightarrow> nat \<Rightarrow> 'f \<Rightarrow> net_error + 'f list" where
  "rmsnorm_1plus N w x n dim eps =
     assert_that (length w = dim) (assert_that (length x = n * dim)
       (Inr (row_map (norm_1plus_row N w dim eps) dim n x)))"

definition silu :: "('f, 'g) nops \<Rightarrow> 'f \<Rightarrow> 'f" where
  "silu N x = fdiv N x (fadd N (fone N) (f_exp (f32 N) (f_neg (f32 N) x)))"

definition sigmoid :: "('f, 'g) nops \<Rightarrow> 'f \<Rightarrow> 'f" where
  "sigmoid N x = fdiv N (fone N) (fadd N (fone N) (f_exp (f32 N) (f_neg (f32 N) x)))"

definition softplus :: "('f, 'g) nops \<Rightarrow> 'f \<Rightarrow> 'f" where
  "softplus N x =
     (if f_lt (f32 N) (n_20 N) x then x
      else f_ln (f32 N) (fadd N (fone N) (f_exp (f32 N) x)))"

definition gated_row :: "('f, 'g) nops \<Rightarrow> 'f list \<Rightarrow> nat \<Rightarrow> 'f \<Rightarrow> 'f list \<Rightarrow> 'f list \<Rightarrow> 'f list" where
  "gated_row N w dim eps xr zr =
     (let inv = rms_inv N dim eps xr
      in map (\<lambda>i. fmul N (fmul N (w ! i) (fmul N (xr ! i) inv)) (silu N (zr ! i))) [0..<dim])"

definition rmsnorm_gated ::
  "('f, 'g) nops \<Rightarrow> 'f list \<Rightarrow> 'f list \<Rightarrow> 'f list \<Rightarrow> nat \<Rightarrow> nat \<Rightarrow> 'f \<Rightarrow> net_error + 'f list" where
  "rmsnorm_gated N w x z n dim eps =
     assert_that (length w = dim) (assert_that (length x = n * dim) (assert_that (length z = n * dim)
       (Inr (row_map2 (gated_row N w dim eps) dim n x z))))"

section \<open>Convolution, head expansion, transposes\<close>

definition conv_elem :: "('f, 'g) nops \<Rightarrow> 'f list \<Rightarrow> 'f option \<Rightarrow> 'f list \<Rightarrow> nat \<Rightarrow> 'f" where
  "conv_elem N wc bias full ti =
     (let acc = foldl (\<lambda>a ki. fadd N a (fmul N (wc ! ki) (full ! (ti + ki)))) (fzero N) [0..<length wc]
      in silu N (case bias of Some bb \<Rightarrow> fadd N acc bb | None \<Rightarrow> acc))"

definition conv_full ::
  "('f, 'g) nops \<Rightarrow> 'f list \<Rightarrow> nat \<Rightarrow> nat \<Rightarrow> nat \<Rightarrow> nat \<Rightarrow> 'f list option \<Rightarrow> nat \<Rightarrow> 'f list" where
  "conv_full N x channels t keep bi state_in c =
     (case state_in of
        Some st \<Rightarrow> slice st ((bi * channels + c) * keep) keep
      | None \<Rightarrow> replicate keep (fzero N)) @ slice x ((bi * channels + c) * t) t"

definition conv_forward ::
  "('f, 'g) nops \<Rightarrow> 'f list \<Rightarrow> 'f list option \<Rightarrow> 'f list \<Rightarrow> nat \<Rightarrow> nat \<Rightarrow> nat \<Rightarrow> nat \<Rightarrow> 'f list option \<Rightarrow>
   net_error + 'f list \<times> 'f list" where
  "conv_forward N w bias x_bct b channels t k state_in =
     (let keep = k - 1 in
      assert_that (length w = channels * k) (assert_that (length x_bct = b * channels * t)
        (assert_that (case state_in of Some st \<Rightarrow> length st = b * channels * keep | None \<Rightarrow> True)
          (assert_that (case bias of Some bb \<Rightarrow> b * t = 0 \<or> channels \<le> length bb | None \<Rightarrow> True)
            (Inr
              (rows b (\<lambda>bi. rows channels (\<lambda>c.
                 let full = conv_full N x_bct channels t keep bi state_in c
                 in map (conv_elem N (slice w (c * k) k) (map_option (\<lambda>bb. bb ! c) bias) full) [0..<t])),
               rows b (\<lambda>bi. rows channels (\<lambda>c.
                 slice (conv_full N x_bct channels t keep bi state_in c) t keep))))))))"

definition repeat_interleave_heads ::
  "'f list \<Rightarrow> nat \<Rightarrow> nat \<Rightarrow> nat \<Rightarrow> nat \<Rightarrow> nat \<Rightarrow> net_error + 'f list" where
  "repeat_interleave_heads x b t h d ratio =
     (if ratio = 1 then Inr x
      else
        assert_that (ratio = 0 \<or> b * t * h * d \<le> length x)
          (Inr (rows b (\<lambda>bi. rows t (\<lambda>ti. rows h (\<lambda>hi. rows ratio (\<lambda>rep.
             slice x (((bi * t + ti) * h + hi) * d) d)))))))"

definition btc_to_bct :: "'f list \<Rightarrow> nat \<Rightarrow> nat \<Rightarrow> nat \<Rightarrow> net_error + 'f list" where
  "btc_to_bct x b t c =
     assert_that (length x = b * t * c)
       (Inr (rows b (\<lambda>bi. rows c (\<lambda>ci. map (\<lambda>ti. x ! ((bi * t + ti) * c + ci)) [0..<t]))))"

definition bct_to_btc :: "'f list \<Rightarrow> nat \<Rightarrow> nat \<Rightarrow> nat \<Rightarrow> net_error + 'f list" where
  "bct_to_btc x b c t =
     assert_that (length x = b * c * t)
       (Inr (rows b (\<lambda>bi. rows t (\<lambda>ti. map (\<lambda>ci. x ! ((bi * c + ci) * t + ti)) [0..<c]))))"

section \<open>The threaded path\<close>

text \<open>The flattened elements of the output in order.\<close>

definition flat_elem ::
  "('f, 'g) nops \<Rightarrow> 'f list \<Rightarrow> 'f list option \<Rightarrow> 'f list \<Rightarrow> nat \<Rightarrow> nat \<Rightarrow> nat \<Rightarrow> 'f" where
  "flat_elem N w bias x in_dim out_dim j =
     linear_elem N w bias in_dim (slice x (j div out_dim * in_dim) in_dim) (j mod out_dim)"

lemma flat_elem_at: "oi < out_dim \<Longrightarrow>
  flat_elem N w bias x in_dim out_dim (r * out_dim + oi) = linear_elem N w bias in_dim (slice x (r * in_dim) in_dim) oi"
  by (simp add: flat_elem_def)

lemma linear_serial_flat:
  "linear_serial N w bias x n in_dim out_dim = map (flat_elem N w bias x in_dim out_dim) [0..<n * out_dim]"
proof -
  have "linear_serial N w bias x n in_dim out_dim =
      rows n (\<lambda>r. rows out_dim (\<lambda>oi. [linear_elem N w bias in_dim (slice x (r * in_dim) in_dim) oi]))"
    by (simp add: linear_serial_def row_map_def rows_single)
  also have "\<dots> = rows (n * out_dim) (\<lambda>j. [flat_elem N w bias x in_dim out_dim j])"
    by (simp only: rows_nested flat_elem_def)
  finally show ?thesis by (simp only: rows_single)
qed

lemma linear_walk_flat:
  assumes "oi < out_dim" and "r * out_dim + oi + m \<le> n * out_dim" and "m = 0 \<or> xr = slice x (r * in_dim) in_dim"
  shows "linear_walk N w bias x n in_dim out_dim m r oi xr =
    map (flat_elem N w bias x in_dim out_dim) [r * out_dim + oi..<r * out_dim + oi + m]"
  using assms
proof (induction m arbitrary: r oi xr)
  case (Suc m)
  have upt: "[r * out_dim + oi..<r * out_dim + oi + Suc m] = (r * out_dim + oi) # [r * out_dim + oi + 1..<r * out_dim + oi + 1 + m]"
    by (simp add: upt_rec)
  have elem: "flat_elem N w bias x in_dim out_dim (r * out_dim + oi) = linear_elem N w bias in_dim xr oi"
    using Suc.prems by (simp add: flat_elem_at)
  show ?case
  proof (cases "oi + 1 = out_dim")
    case True
    then have nxt: "(r + 1) * out_dim + 0 = r * out_dim + oi + 1" by simp
    have "m = 0 \<or> r + 1 < n"
    proof (rule disjCI)
      assume "\<not> r + 1 < n"
      then have "n * out_dim \<le> (r + 1) * out_dim" by (intro mult_le_mono1) simp
      then show "m = 0" using Suc.prems(2) nxt by linarith
    qed
    then have "linear_walk N w bias x n in_dim out_dim m (r + 1) 0
        (if r + 1 < n then slice x ((r + 1) * in_dim) in_dim else xr) =
      map (flat_elem N w bias x in_dim out_dim) [(r + 1) * out_dim + 0..<(r + 1) * out_dim + 0 + m]"
      using Suc.prems nxt by (intro Suc.IH) auto
    then show ?thesis using True elem by (simp only: upt nxt linear_walk.simps list.map refl if_True simp_thms)
  next
    case False
    then have "linear_walk N w bias x n in_dim out_dim m r (oi + 1) xr =
      map (flat_elem N w bias x in_dim out_dim) [r * out_dim + (oi + 1)..<r * out_dim + (oi + 1) + m]"
      using Suc.prems by (intro Suc.IH) auto
    then show ?thesis using False elem upt by simp
  qed
qed simp

lemma chunk_ranges:
  assumes "0 < c"
  shows "rows ((n + c - 1) div c) (\<lambda>i. [i * c..<i * c + min c (n - i * c)]) = [0..<n]"
proof -
  have *: "rows m (\<lambda>i. [i * c..<i * c + min c (n - i * c)]) = [0..<min n (m * c)]" for m
  proof (induction m)
    case (Suc m)
    show ?case
    proof (cases "m * c \<le> n")
      case True
      then have "min n (Suc m * c) = m * c + min c (n - m * c)" by auto
      then show ?thesis using Suc True upt_add_eq_append [of 0 "m * c" "min c (n - m * c)"]
        by (simp add: rows_Suc min_absorb2)
    next
      case False
      then show ?thesis using Suc by (simp add: rows_Suc)
    qed
  qed simp
  have "n \<le> (n + c - 1) div c * c"
    using assms div_mult_mod_eq [of "n + c - 1" c] mod_less_divisor [OF assms, of "n + c - 1"] by linarith
  then show ?thesis using * [of "(n + c - 1) div c"] by (simp add: min_absorb1)
qed

lemma map_rows: "map f (rows n g) = rows n (\<lambda>i. map f (g i))"
  by (simp add: rows_def map_concat comp_def)

lemma linear_parallel_serial:
  assumes "0 < out_dim"
  shows "linear_parallel N w bias x n in_dim out_dim nthreads = linear_serial N w bias x n in_dim out_dim"
proof -
  define items where "items = n * out_dim"
  define chunk where "chunk = max ((items + nthreads - 1) div nthreads) 1"
  have c: "0 < chunk" by (simp add: chunk_def)
  have walk: "linear_walk N w bias x n in_dim out_dim (min chunk (items - ci * chunk)) (ci * chunk div out_dim)
      (ci * chunk mod out_dim) (slice x (ci * chunk div out_dim * in_dim) in_dim) =
    map (flat_elem N w bias x in_dim out_dim) [ci * chunk..<ci * chunk + min chunk (items - ci * chunk)]"
    if "ci < (items + chunk - 1) div chunk" for ci
  proof -
    have "Suc ci * chunk \<le> items + chunk - 1"
      using that c by (metis Suc_leI less_eq_div_iff_mult_less_eq)
    then have "ci * chunk < items" using c by simp
    then have "ci * chunk div out_dim * out_dim + ci * chunk mod out_dim + min chunk (items - ci * chunk) \<le> n * out_dim"
      by (simp add: items_def)
    from linear_walk_flat [OF _ this, where x = x and in_dim = in_dim and N = N and w = w and bias = bias and
        xr = "slice x (ci * chunk div out_dim * in_dim) in_dim"] assms
    show ?thesis by simp
  qed
  have "linear_parallel N w bias x n in_dim out_dim nthreads =
      rows ((items + chunk - 1) div chunk) (\<lambda>ci.
        map (flat_elem N w bias x in_dim out_dim) [ci * chunk..<ci * chunk + min chunk (items - ci * chunk)])"
    unfolding linear_parallel_def Let_def items_def [symmetric] chunk_def [symmetric]
    by (rule rows_cong) (simp_all add: walk)
  then show ?thesis
    using chunk_ranges [OF c, of items] by (simp add: map_rows [symmetric] linear_serial_flat items_def)
qed

lemma linear_ok:
  assumes "length w = out_dim * in_dim" and "length x = n * in_dim"
  shows "linear N w None x n in_dim out_dim = Inr (linear_serial N w None x n in_dim out_dim)"
proof (cases "n = 0 \<or> out_dim = 0")
  case True
  then have "linear_serial N w None x n in_dim out_dim = []" unfolding linear_serial_flat by auto
  then show ?thesis using assms True by (auto simp: linear_def)
next
  case False
  then show ?thesis using assms by (simp add: linear_def Let_def linear_parallel_serial)
qed

lemma linear_elem_threads: "linear_elem (N\<lparr>n_threads := k\<rparr>) = linear_elem N"
  by (intro ext) (simp add: linear_elem_def Let_def split: option.splits)

text \<open>C28. Threading never changes a result: whatever parallelism the machine reports, the linear map
  returns the same value, because each output element is accumulated in the same order by whichever
  thread computes it.\<close>

theorem linear_threads_bit_identical:
  "linear (N\<lparr>n_threads := k\<rparr>) w bias x n in_dim out_dim = linear N w bias x n in_dim out_dim"
  by (cases "n = 0 \<or> out_dim = 0")
    (auto simp: linear_def Let_def linear_parallel_serial linear_serial_def linear_elem_threads)

section \<open>Lengths and chunks\<close>

lemma length_linear_serial [simp]:
  "length (linear_serial N w bias x n in_dim out_dim) = n * out_dim"
  by (simp add: linear_serial_flat)

lemma linear_serial_append [chunked]:
  "length x = n * in_dim \<Longrightarrow> linear_serial N w bias (x @ y) (n + m) in_dim out_dim =
     linear_serial N w bias x n in_dim out_dim @ linear_serial N w bias y m in_dim out_dim"
  unfolding linear_serial_def by (rule row_map_append)

lemma length_norm_1plus_row [simp]: "length (norm_1plus_row N w dim eps xr) = dim"
  by (simp add: norm_1plus_row_def)

lemma length_gated_row [simp]: "length (gated_row N w dim eps xr zr) = dim"
  by (simp add: gated_row_def)

lemma rmsnorm_1plus_ok:
  "length w = dim \<Longrightarrow> length x = n * dim \<Longrightarrow>
   rmsnorm_1plus N w x n dim eps = Inr (row_map (norm_1plus_row N w dim eps) dim n x)"
  by (simp add: rmsnorm_1plus_def)

lemma length_norm_map [simp]:
  "length (row_map (norm_1plus_row N w dim eps) dim n x) = n * dim"
  "length (row_map2 (gated_row N w dim eps) dim n x z) = n * dim"
  by (simp_all add: row_map_def row_map2_def)

text \<open>One channel of a \<open>[T, C]\<close> tensor, and the convolution as the block uses it: transpose,
  convolve, transpose back, for one sequence.\<close>

definition channel :: "nat \<Rightarrow> 'f list \<Rightarrow> nat \<Rightarrow> nat \<Rightarrow> 'f list" where
  "channel C x t c = map (\<lambda>ti. x ! (ti * C + c)) [0..<t]"

definition conv_rows :: "('f, 'g) nops \<Rightarrow> 'f list \<Rightarrow> nat \<Rightarrow> nat \<Rightarrow> nat \<Rightarrow> 'f list \<Rightarrow> nat \<Rightarrow> 'f list \<Rightarrow> 'f list" where
  "conv_rows N w C k e x t st =
     rows t (\<lambda>ti. map (\<lambda>c. conv_elem N (slice w (c * k) k) None
       (slice st (c * e) e @ channel C x t c) ti) [0..<C])"

definition conv_next :: "nat \<Rightarrow> nat \<Rightarrow> 'f list \<Rightarrow> nat \<Rightarrow> 'f list \<Rightarrow> 'f list" where
  "conv_next C e x t st =
     rows C (\<lambda>c. slice (slice st (c * e) e @ channel C x t c) t e)"

lemma length_channel [simp]: "length (channel C x t c) = t"
  by (simp add: channel_def)

lemma conv_block:
  assumes "e = k - 1" and "length w = C * k" and "length x = t * C" and "length st = C * e"
  shows "\<exists>xb cv. btc_to_bct x 1 t C = Inr xb \<and>
    conv_forward N w None xb 1 C t k (Some st) = Inr (cv, conv_next C e x t st) \<and>
    bct_to_btc cv 1 C t = Inr (conv_rows N w C k e x t st)"
proof -
  let ?xb = "rows C (\<lambda>ci. channel C x t ci)"
  let ?full = "\<lambda>c. slice st (c * e) e @ channel C x t c"
  let ?cv = "rows C (\<lambda>c. map (conv_elem N (slice w (c * k) k) None (?full c)) [0..<t])"
  have 1: "btc_to_bct x 1 t C = Inr ?xb" using assms(3) by (simp add: btc_to_bct_def channel_def)
  have lx: "length ?xb = C * t" by simp
  have full: "conv_full N ?xb C t (k - 1) 0 (Some st) c = ?full c" if "c < C" for c
    using slice_rows [of C "channel C x t" t c] that by (simp add: conv_full_def assms(1))
  have 2: "conv_forward N w None ?xb 1 C t k (Some st) = Inr (?cv, conv_next C e x t st)"
    using assms lx full by (simp add: conv_forward_def conv_next_def Let_def cong: rows_cong)
  have "?cv ! (ci * t + ti) = conv_elem N (slice w (ci * k) k) None (?full ci) ti" if "ci < C" "ti < t" for ci ti
    using nth_rows [of C "\<lambda>c. map (conv_elem N (slice w (c * k) k) None (?full c)) [0..<t]" t ci ti] that by simp
  then have "bct_to_btc ?cv 1 C t = Inr (conv_rows N w C k e x t st)"
    by (auto simp: bct_to_btc_def conv_rows_def intro!: rows_cong)
  with 1 2 show ?thesis by blast
qed

lemma conv_no_state:
  "conv_forward N w bias x b C t k None = conv_forward N w bias x b C t k (Some (replicate (b * C * (k - 1)) (fzero N)))"
proof -
  have "conv_full N x C t (k - 1) bi None c = conv_full N x C t (k - 1) bi (Some (replicate (b * C * (k - 1)) (fzero N))) c"
    if "bi < b" "c < C" for bi c
  proof -
    have "bi * C + c < b * C" using that row_bound [of bi b C] by linarith
    from row_bound [OF this, of "k - 1"] show ?thesis by (simp add: conv_full_def slice_def min_def)
  qed
  then show ?thesis by (simp add: conv_forward_def Let_def cong: rows_cong)
qed

lemma length_conv_rows [simp]: "length (conv_rows N w C k e x t st) = t * C"
  by (simp add: conv_rows_def)

lemma length_conv_next [simp]: "length st = C * e \<Longrightarrow> length (conv_next C e x t st) = C * e"
  unfolding conv_next_def
  by (rule length_rows) (use row_bound [of _ C e] in simp)

lemma channel_append:
  assumes "length x1 = t1 * C" and "c < C"
  shows "channel C (x1 @ x2) (t1 + t2) c = channel C x1 t1 c @ channel C x2 t2 c"
proof -
  have 1: "(x1 @ x2) ! (ti * C + c) = x1 ! (ti * C + c)" if "ti < t1" for ti
    using that assms row_bound [of ti t1 C] by (simp add: nth_append)
  have 2: "(x1 @ x2) ! ((t1 + ti) * C + c) = x2 ! (ti * C + c)" for ti
    using assms(1) by (simp add: nth_append algebra_simps)
  show ?thesis by (simp add: channel_def upt_split 1 2 comp_def)
qed

lemma conv_elem_prefix:
  "ti + length wc \<le> length u \<Longrightarrow>
   conv_elem N wc bias (u @ v) ti = conv_elem N wc bias u ti"
  unfolding conv_elem_def Let_def
  by (intro arg_cong [where f = "silu N"] arg_cong [where f = "\<lambda>a. case bias of Some bb \<Rightarrow> fadd N a bb | None \<Rightarrow> a"]
      foldl_cong refl) (auto simp: nth_append)

lemma conv_elem_drop:
  "n \<le> length u \<Longrightarrow> conv_elem N wc bias u (n + ti) = conv_elem N wc bias (drop n u) ti"
  unfolding conv_elem_def Let_def
  by (intro arg_cong [where f = "silu N"] arg_cong [where f = "\<lambda>a. case bias of Some bb \<Rightarrow> fadd N a bb | None \<Rightarrow> a"]
      foldl_cong refl) (auto simp: add.assoc)

lemma conv_next_slice:
  assumes "length st = C * e" and "c < C"
  shows "slice (conv_next C e x t st) (c * e) e = drop t (slice st (c * e) e @ channel C x t c)"
proof -
  have len: "length (slice st (c * e) e) = e" if "c < C" for c
    using assms(1) row_bound [OF that, of e] by simp
  have "slice (conv_next C e x t st) (c * e) e =
      slice (slice st (c * e) e @ channel C x t c) t e"
    unfolding conv_next_def by (rule slice_rows) (use len assms(2) in simp_all)
  then show ?thesis using len [OF assms(2)] by (simp add: slice_def)
qed

lemma conv_rows_append:
  assumes "k \<le> Suc e" and "length w = C * k" and "length x1 = t1 * C" and "length st = C * e"
  shows "conv_rows N w C k e (x1 @ x2) (t1 + t2) st =
    conv_rows N w C k e x1 t1 st @ conv_rows N w C k e x2 t2 (conv_next C e x1 t1 st)"
proof -
  let ?s = "\<lambda>c. slice st (c * e) e" and ?w = "\<lambda>c. slice w (c * k) k"
  have ls: "length (?s c) = e" if "c < C" for c using assms(4) row_bound [OF that, of e] by simp
  have lw: "length (?w c) = k" if "c < C" for c using assms(2) row_bound [OF that, of k] by simp
  have 1: "conv_elem N (?w c) None (?s c @ channel C x1 t1 c @ v) ti = conv_elem N (?w c) None (?s c @ channel C x1 t1 c) ti"
    if "c < C" "ti < t1" for c ti v
    using conv_elem_prefix [of ti "?w c" "?s c @ channel C x1 t1 c" N None v] that ls lw assms(1) by simp
  have 2: "conv_elem N (?w c) None (?s c @ channel C x1 t1 c @ v) (t1 + ti) =
      conv_elem N (?w c) None (slice (conv_next C e x1 t1 st) (c * e) e @ v) ti"
    if "c < C" for c ti v
    using conv_elem_drop [of t1 "?s c @ channel C x1 t1 c @ v" N "?w c" None ti] conv_next_slice [OF assms(4) that] that ls
    by simp
  show ?thesis
    unfolding conv_rows_def rows_add
    by (intro arg_cong2 [where f = append] rows_cong refl) (auto simp: channel_append [OF assms(3)] 1 2)
qed

lemma conv_next_append:
  assumes "length x1 = t1 * C" and "length st = C * e"
  shows "conv_next C e (x1 @ x2) (t1 + t2) st = conv_next C e x2 t2 (conv_next C e x1 t1 st)"
proof -
  have "slice (slice st (c * e) e @ channel C x1 t1 c @ channel C x2 t2 c) (t1 + t2) e =
      slice (slice (conv_next C e x1 t1 st) (c * e) e @ channel C x2 t2 c) t2 e" if "c < C" for c
  proof -
    have "length (slice st (c * e) e) = e" using assms(2) row_bound [OF that, of e] by simp
    then have "t1 \<le> length (slice st (c * e) e @ channel C x1 t1 c)" by simp
    then have "drop (t1 + t2) ((slice st (c * e) e @ channel C x1 t1 c) @ channel C x2 t2 c) =
        drop t2 (drop t1 (slice st (c * e) e @ channel C x1 t1 c) @ channel C x2 t2 c)"
      by (metis drop_drop add.commute drop_append diff_is_0_eq drop_0)
    then show ?thesis
      unfolding conv_next_slice [OF assms(2) that, of x1 t1] slice_def [of _ "t1 + t2"] slice_def [of _ t2]
      by (simp only: append_assoc)
  qed
  then show ?thesis
    unfolding conv_next_def [of C e "x1 @ x2"] conv_next_def [of C e x2 t2]
    by (intro rows_cong refl) (simp add: channel_append [OF assms(1)])
qed

end
