(* ===== verification/Gdn.thy ===== *)
theory Gdn
  imports Gdn_Ops
begin

text \<open>
  The gated-delta-net block (\<open>gdn/src/lib.rs\<close>): its configuration, weights, carried state and
  the forward pass with and without state. \<open>forward_impl\<close> is one definition with an optional
  state, as in the code; the state behind \<open>&mut\<close> is returned next to the trace.
\<close>

record 'f GdnConfig =
  gc_hidden :: nat
  num_k_heads :: nat
  num_v_heads :: nat
  head_k_dim :: nat
  head_v_dim :: nat
  conv_kernel :: nat
  gc_eps :: 'f

definition key_dim :: "'f GdnConfig \<Rightarrow> nat" where "key_dim c = head_k_dim c * num_k_heads c"
definition value_dim :: "'f GdnConfig \<Rightarrow> nat" where "value_dim c = head_v_dim c * num_v_heads c"
definition conv_dim :: "'f GdnConfig \<Rightarrow> nat" where "conv_dim c = key_dim c * 2 + value_dim c"
definition kv_ratio :: "'f GdnConfig \<Rightarrow> nat" where "kv_ratio c = num_v_heads c div num_k_heads c"

record 'f GdnWeights =
  gw_in_proj_qkv :: "'f list"
  gw_in_proj_z :: "'f list"
  gw_in_proj_b :: "'f list"
  gw_in_proj_a :: "'f list"
  gw_conv1d :: "'f list"
  gw_a_log :: "'f list"
  gw_dt_bias :: "'f list"
  gw_norm :: "'f list"
  gw_out_proj :: "'f list"

record 'f GdnTrace =
  gt_in_proj_qkv :: "'f list"
  gt_conv_in :: "'f list"
  gt_conv_out :: "'f list"
  gt_in_proj_z :: "'f list"
  gt_in_proj_b :: "'f list"
  gt_in_proj_a :: "'f list"
  gt_q :: "'f list"
  gt_k :: "'f list"
  gt_v :: "'f list"
  gt_g :: "'f list"
  gt_beta :: "'f list"
  gt_delta_out :: "'f list"
  gt_delta_state :: "'f list"
  gt_norm :: "'f list"
  gt_out_proj :: "'f list"

record 'f GdnState =
  gs_conv :: "'f list"
  gs_ssm :: "'f list"

definition GdnState_new :: "('f, 'g) nops \<Rightarrow> 'f GdnConfig \<Rightarrow> nat \<Rightarrow> 'f GdnState" where
  "GdnState_new N cfg b =
     \<lparr>gs_conv = replicate (b * conv_dim cfg * (conv_kernel cfg - 1)) (fzero N),
      gs_ssm = replicate (b * num_v_heads cfg * head_k_dim cfg * head_v_dim cfg) (fzero N)\<rparr>"

definition GdnState_bytes :: "'f GdnState \<Rightarrow> nat" where
  "GdnState_bytes st = (length (gs_conv st) + length (gs_ssm st)) * 4"

text \<open>Step 4: the decay and the write strength of every position and head.\<close>

definition gdn_beta :: "('f, 'g) nops \<Rightarrow> nat \<Rightarrow> nat \<Rightarrow> 'f list \<Rightarrow> 'f list" where
  "gdn_beta N nv n bb = rows n (\<lambda>r. map (\<lambda>hh. sigmoid N (bb ! (r * nv + hh))) [0..<nv])"

definition gdn_g :: "('f, 'g) nops \<Rightarrow> 'f GdnWeights \<Rightarrow> nat \<Rightarrow> nat \<Rightarrow> 'f list \<Rightarrow> 'f list" where
  "gdn_g N w nv n aa = rows n (\<lambda>r. map (\<lambda>hh.
     fmul N (f_neg (f32 N) (f_exp (f32 N) (gw_a_log w ! hh)))
       (softplus N (fadd N (aa ! (r * nv + hh)) (gw_dt_bias w ! hh)))) [0..<nv])"

text \<open>Step 6: the rule, continued from the state when there is one.\<close>

definition gdn_rule ::
  "('f, 'g) nops \<Rightarrow> Shape \<Rightarrow> 'f list \<Rightarrow> 'f list \<Rightarrow> 'f list \<Rightarrow> 'f list \<Rightarrow> 'f list \<Rightarrow> 'f list \<Rightarrow> 'f GdnState option \<Rightarrow>
   net_error + ('f list \<times> 'f list) \<times> 'f GdnState option" where
  "gdn_rule N shape q k v g beta new_conv state =
     (case state of
        Some st \<Rightarrow>
          try_bind (forward_prepared_into N shape q k v g beta (gs_ssm st)) (\<lambda>(ssm, out).
          Inr ((out, ssm), Some (st\<lparr>gs_ssm := ssm, gs_conv := new_conv\<rparr>)))
      | None \<Rightarrow>
          try_bind (forward_prepared N shape q k v g beta) (\<lambda>(ssm, out). Inr ((out, ssm), None)))"

definition gdn_forward_impl ::
  "('f, 'g) nops \<Rightarrow> 'f GdnConfig \<Rightarrow> 'f GdnWeights \<Rightarrow> 'f list \<Rightarrow> nat \<Rightarrow> nat \<Rightarrow> 'f GdnState option \<Rightarrow>
   net_error + 'f GdnTrace \<times> 'f GdnState option" where
  "gdn_forward_impl N cfg w x b t state =
     (let h = gc_hidden cfg; n = b * t; cd = conv_dim cfg; kd = key_dim cfg; vd = value_dim cfg;
          nv = num_v_heads cfg
      in assert_that (length x = n * h) (
         try_bind (linear N (gw_in_proj_qkv w) None x n h cd) (\<lambda>mixed.
         try_bind (linear N (gw_in_proj_z w) None x n h vd) (\<lambda>z_full.
         try_bind (linear N (gw_in_proj_b w) None x n h nv) (\<lambda>bb.
         try_bind (linear N (gw_in_proj_a w) None x n h nv) (\<lambda>aa.
         try_bind (btc_to_bct mixed b t cd) (\<lambda>mixed_bct.
         try_bind (conv_forward N (gw_conv1d w) None mixed_bct b cd t (conv_kernel cfg) (map_option gs_conv state))
           (\<lambda>(conv_out, new_conv).
         try_bind (bct_to_btc conv_out b cd t) (\<lambda>conv_btc.
         let q_raw = rows n (\<lambda>r. slice (slice conv_btc (r * cd) cd) 0 kd);
             k_raw = rows n (\<lambda>r. slice (slice conv_btc (r * cd) cd) kd kd);
             v_raw = rows n (\<lambda>r. slice (slice conv_btc (r * cd) cd) (2 * kd) vd)
         in assert_that (n = 0 \<or> nv \<le> length (gw_a_log w) \<and> nv \<le> length (gw_dt_bias w)) (
         let beta = gdn_beta N nv n bb;
             g = gdn_g N w nv n aa
         in assert_that (num_k_heads cfg \<noteq> 0) (
         try_bind (repeat_interleave_heads q_raw b t (num_k_heads cfg) (head_k_dim cfg) (kv_ratio cfg)) (\<lambda>q.
         try_bind (repeat_interleave_heads k_raw b t (num_k_heads cfg) (head_k_dim cfg) (kv_ratio cfg)) (\<lambda>k.
         try_bind (gdn_rule N \<lparr>sh_b = b, sh_t = t, sh_h = nv, sh_k = head_k_dim cfg, sh_v = head_v_dim cfg\<rparr>
             q k v_raw g beta new_conv state) (\<lambda>((delta_out, delta_state), state).
         try_bind (rmsnorm_gated N (gw_norm w) delta_out z_full (n * nv) (head_v_dim cfg) (gc_eps cfg)) (\<lambda>norm.
         try_bind (linear N (gw_out_proj w) None norm n vd h) (\<lambda>out_proj.
         Inr (\<lparr>gt_in_proj_qkv = mixed, gt_conv_in = mixed_bct, gt_conv_out = conv_out, gt_in_proj_z = z_full,
               gt_in_proj_b = bb, gt_in_proj_a = aa, gt_q = q, gt_k = k, gt_v = v_raw, gt_g = g, gt_beta = beta,
               gt_delta_out = delta_out, gt_delta_state = delta_state, gt_norm = norm, gt_out_proj = out_proj\<rparr>,
              state)))))))))))))))))"

definition gdn_forward ::
  "('f, 'g) nops \<Rightarrow> 'f GdnConfig \<Rightarrow> 'f GdnWeights \<Rightarrow> 'f list \<Rightarrow> nat \<Rightarrow> nat \<Rightarrow> net_error + 'f GdnTrace" where
  "gdn_forward N cfg w x b t = try_bind (gdn_forward_impl N cfg w x b t None) (\<lambda>(tr, _). Inr tr)"

definition gdn_forward_with_state ::
  "('f, 'g) nops \<Rightarrow> 'f GdnConfig \<Rightarrow> 'f GdnWeights \<Rightarrow> 'f list \<Rightarrow> nat \<Rightarrow> nat \<Rightarrow> 'f GdnState \<Rightarrow>
   net_error + 'f GdnTrace \<times> 'f GdnState" where
  "gdn_forward_with_state N cfg w x b t st =
     try_bind (gdn_forward_impl N cfg w x b t (Some st)) (\<lambda>(tr, st'). Inr (tr, case st' of Some s \<Rightarrow> s | None \<Rightarrow> st))"

section \<open>Shapes\<close>

definition gdn_ok :: "'f GdnConfig \<Rightarrow> 'f GdnWeights \<Rightarrow> bool" where
  "gdn_ok cfg w \<longleftrightarrow>
     length (gw_in_proj_qkv w) = conv_dim cfg * gc_hidden cfg \<and>
     length (gw_in_proj_z w) = value_dim cfg * gc_hidden cfg \<and>
     length (gw_in_proj_b w) = num_v_heads cfg * gc_hidden cfg \<and>
     length (gw_in_proj_a w) = num_v_heads cfg * gc_hidden cfg \<and>
     length (gw_conv1d w) = conv_dim cfg * conv_kernel cfg \<and>
     length (gw_a_log w) = num_v_heads cfg \<and> length (gw_dt_bias w) = num_v_heads cfg \<and>
     length (gw_norm w) = head_v_dim cfg \<and>
     length (gw_out_proj w) = gc_hidden cfg * value_dim cfg \<and>
     num_k_heads cfg \<noteq> 0 \<and> num_k_heads cfg dvd num_v_heads cfg"

definition gdn_state_ok :: "'f GdnConfig \<Rightarrow> 'f GdnState \<Rightarrow> bool" where
  "gdn_state_ok cfg st \<longleftrightarrow>
     length (gs_conv st) = conv_dim cfg * (conv_kernel cfg - 1) \<and>
     length (gs_ssm st) = num_v_heads cfg * head_k_dim cfg * head_v_dim cfg"

lemma GdnState_new_ok: "gdn_state_ok cfg (GdnState_new N cfg 1)"
  by (simp add: gdn_state_ok_def GdnState_new_def)

lemma length_gdn_beta [simp]: "length (gdn_beta N nv n bb) = n * nv"
  by (simp add: gdn_beta_def)

lemma length_gdn_g [simp]: "length (gdn_g N w nv n aa) = n * nv"
  by (simp add: gdn_g_def)

lemma rows_nth_append:
  assumes "length x = n * d"
  shows "rows (n + m) (\<lambda>r. map (\<lambda>i. f ((x @ y) ! (r * d + i)) i) [0..<d]) =
    rows n (\<lambda>r. map (\<lambda>i. f (x ! (r * d + i)) i) [0..<d]) @ rows m (\<lambda>r. map (\<lambda>i. f (y ! (r * d + i)) i) [0..<d])"
proof -
  have 1: "(x @ y) ! (r * d + i) = x ! (r * d + i)" if "r < n" "i < d" for r i
    using that assms row_bound [of r n d] by (simp add: nth_append)
  have 2: "(x @ y) ! ((n + r) * d + i) = y ! (r * d + i)" for r i
    using assms by (simp add: nth_append algebra_simps)
  show ?thesis unfolding rows_add 2
    by (intro arg_cong2 [where f = append] rows_cong refl) (simp add: 1)
qed

lemma gdn_beta_append [chunked]:
  "length bb = n * nv \<Longrightarrow> gdn_beta N nv (n + m) (bb @ cc) = gdn_beta N nv n bb @ gdn_beta N nv m cc"
  unfolding gdn_beta_def by (rule rows_nth_append [where f = "\<lambda>v i. sigmoid N v"])

lemma gdn_g_append [chunked]:
  "length aa = n * nv \<Longrightarrow> gdn_g N w nv (n + m) (aa @ cc) = gdn_g N w nv n aa @ gdn_g N w nv m cc"
  unfolding gdn_g_def
  by (rule rows_nth_append [where f = "\<lambda>v i. fmul N (f_neg (f32 N) (f_exp (f32 N) (gw_a_log w ! i)))
       (softplus N (fadd N v (gw_dt_bias w ! i)))"])

text \<open>The head expansion of one sequence is a map on its rows.\<close>

definition expand_row :: "nat \<Rightarrow> nat \<Rightarrow> nat \<Rightarrow> 'f list \<Rightarrow> 'f list" where
  "expand_row h d ratio row = (if ratio = 1 then row else rows h (\<lambda>hi. rows ratio (\<lambda>rep. slice row (hi * d) d)))"

lemma slice_slice: "off + n \<le> d \<Longrightarrow> slice (slice x p d) off n = slice x (p + off) n"
  by (simp add: slice_def drop_take add.commute)

lemma rows_slices: "length x = n * d \<Longrightarrow> rows n (\<lambda>r. slice x (r * d) d) = x"
proof (induction n arbitrary: x)
  case (Suc n)
  have "rows n (\<lambda>r. slice x (r * d) d) = rows n (\<lambda>r. slice (take (n * d) x) (r * d) d)"
    using slice_chunk1 [of "take (n * d) x" n d _ "drop (n * d) x"] Suc.prems by (intro rows_cong) simp_all
  also have "\<dots> = take (n * d) x" using Suc.prems by (intro Suc.IH) simp
  finally show ?case using Suc.prems by (simp add: rows_Suc slice_def)
qed simp

lemma repeat_heads_rows:
  assumes "length x = t * (h * d)"
  shows "repeat_interleave_heads x 1 t h d ratio = Inr (row_map (expand_row h d ratio) (h * d) t x)"
proof (cases "ratio = 1")
  case True
  then show ?thesis
    using rows_slices [OF assms] by (simp add: repeat_interleave_heads_def row_map_def expand_row_def)
next
  case False
  have "slice (slice x (ti * (h * d)) (h * d)) (hi * d) d = slice x ((ti * h + hi) * d) d" if "hi < h" for ti hi
    using slice_slice [of "hi * d" d "h * d" x "ti * (h * d)"] row_bound [OF that, of d] by (simp add: algebra_simps)
  then show ?thesis
    using False assms
    by (auto simp: repeat_interleave_heads_def row_map_def expand_row_def mult.assoc intro!: rows_cong)
qed

lemma length_expand_row: "length row = h * d \<Longrightarrow> length (expand_row h d ratio row) = h * ratio * d"
proof (cases "ratio = 1")
  case False
  assume "length row = h * d"
  then have "length (rows ratio (\<lambda>rep. slice row (hi * d) d)) = ratio * d" if "hi < h" for hi
    using row_bound [OF that, of d] by (intro length_rows) simp
  then have "length (rows h (\<lambda>hi. rows ratio (\<lambda>rep. slice row (hi * d) d))) = h * (ratio * d)"
    by (rule length_rows)
  then show ?thesis using False by (simp add: expand_row_def)
qed (simp add: expand_row_def)

section \<open>The block on one sequence\<close>

definition gdn_conv :: "('f, 'g) nops \<Rightarrow> 'f GdnConfig \<Rightarrow> 'f GdnWeights \<Rightarrow> 'f list \<Rightarrow> nat \<Rightarrow> 'f list \<Rightarrow> 'f list" where
  "gdn_conv N cfg w mixed t conv =
     conv_rows N (gw_conv1d w) (conv_dim cfg) (conv_kernel cfg) (conv_kernel cfg - 1) mixed t conv"

definition gdn_heads :: "'f GdnConfig \<Rightarrow> nat \<Rightarrow> nat \<Rightarrow> 'f list \<Rightarrow> 'f list" where
  "gdn_heads cfg off t cv =
     row_map (expand_row (num_k_heads cfg) (head_k_dim cfg) (kv_ratio cfg)) (num_k_heads cfg * head_k_dim cfg) t
       (row_map (\<lambda>r. slice r off (key_dim cfg)) (conv_dim cfg) t cv)"

definition gdn_values :: "'f GdnConfig \<Rightarrow> nat \<Rightarrow> 'f list \<Rightarrow> 'f list" where
  "gdn_values cfg t cv = row_map (\<lambda>r. slice r (2 * key_dim cfg) (value_dim cfg)) (conv_dim cfg) t cv"

definition gdn_shape :: "'f GdnConfig \<Rightarrow> nat \<Rightarrow> Shape" where
  "gdn_shape cfg t =
     \<lparr>sh_b = 1, sh_t = t, sh_h = num_v_heads cfg, sh_k = head_k_dim cfg, sh_v = head_v_dim cfg\<rparr>"

definition gdn_delta ::
  "('f, 'g) nops \<Rightarrow> 'f GdnConfig \<Rightarrow> 'f GdnWeights \<Rightarrow> 'f list \<Rightarrow> nat \<Rightarrow> 'f list \<Rightarrow> 'f list \<Rightarrow> 'f list \<times> 'f list" where
  "gdn_delta N cfg w x t cv ssm =
     prepared_run N (gdn_shape cfg t) (gdn_heads cfg 0 t cv) (gdn_heads cfg (key_dim cfg) t cv) (gdn_values cfg t cv)
       (gdn_g N w (num_v_heads cfg) t (linear_serial N (gw_in_proj_a w) None x t (gc_hidden cfg) (num_v_heads cfg)))
       (gdn_beta N (num_v_heads cfg) t (linear_serial N (gw_in_proj_b w) None x t (gc_hidden cfg) (num_v_heads cfg)))
       ssm"

definition gdn_run ::
  "('f, 'g) nops \<Rightarrow> 'f GdnConfig \<Rightarrow> 'f GdnWeights \<Rightarrow> 'f GdnState \<Rightarrow> nat \<Rightarrow> 'f list \<Rightarrow> 'f list \<times> 'f GdnState" where
  "gdn_run N cfg w st t x =
     (let mixed = linear_serial N (gw_in_proj_qkv w) None x t (gc_hidden cfg) (conv_dim cfg);
          (ssm, o_t) = gdn_delta N cfg w x t (gdn_conv N cfg w mixed t (gs_conv st)) (gs_ssm st);
          z = linear_serial N (gw_in_proj_z w) None x t (gc_hidden cfg) (value_dim cfg);
          norm = row_map2 (gated_row N (gw_norm w) (head_v_dim cfg) (gc_eps cfg)) (head_v_dim cfg)
                   (t * num_v_heads cfg) o_t z
      in (linear_serial N (gw_out_proj w) None norm t (value_dim cfg) (gc_hidden cfg),
          \<lparr>gs_conv = conv_next (conv_dim cfg) (conv_kernel cfg - 1) mixed t (gs_conv st), gs_ssm = ssm\<rparr>))"

lemma length_gdn_conv [simp]: "length (gdn_conv N cfg w mixed t conv) = t * conv_dim cfg"
  by (simp add: gdn_conv_def)

lemma conv_dim_parts: "key_dim cfg + key_dim cfg + value_dim cfg = conv_dim cfg"
  by (simp add: conv_dim_def)

lemma length_gdn_values [simp]: "length cv = t * conv_dim cfg \<Longrightarrow> length (gdn_values cfg t cv) = t * value_dim cfg"
  unfolding gdn_values_def using conv_dim_parts [of cfg] by (intro length_row_map) simp_all

lemma length_raw_heads:
  "off \<le> key_dim cfg \<Longrightarrow> length cv = t * conv_dim cfg \<Longrightarrow>
   length (row_map (\<lambda>r. slice r off (key_dim cfg)) (conv_dim cfg) t cv) = t * (num_k_heads cfg * head_k_dim cfg)"
  using conv_dim_parts [of cfg] length_row_map [of "conv_dim cfg" "\<lambda>r. slice r off (key_dim cfg)" "key_dim cfg" cv t]
  by (simp add: key_dim_def mult.commute)

lemma length_gdn_heads:
  assumes "gdn_ok cfg w" and "off \<le> key_dim cfg" and "length cv = t * conv_dim cfg"
  shows "length (gdn_heads cfg off t cv) = t * num_v_heads cfg * head_k_dim cfg"
proof -
  have "num_k_heads cfg * kv_ratio cfg = num_v_heads cfg"
    using assms(1) by (simp add: gdn_ok_def kv_ratio_def)
  moreover have "length (gdn_heads cfg off t cv) = t * (num_k_heads cfg * kv_ratio cfg * head_k_dim cfg)"
    unfolding gdn_heads_def
    by (rule length_row_map) (simp_all add: length_expand_row length_raw_heads [OF assms(2,3)])
  ultimately show ?thesis by (simp add: mult.assoc)
qed

lemma gdn_validate:
  assumes "gdn_ok cfg w" and "length cv = t * conv_dim cfg"
  shows "validate_operands (gdn_shape cfg t) (gdn_heads cfg 0 t cv) (gdn_heads cfg (key_dim cfg) t cv)
    (gdn_values cfg t cv) (gdn_g N w (num_v_heads cfg) t aa) (gdn_beta N (num_v_heads cfg) t bb)"
  using length_gdn_heads [OF assms(1) _ assms(2)] assms(2)
  by (simp add: validate_operands_def gdn_shape_def value_dim_def mult.commute mult.left_commute)

lemma gdn_delta_length:
  assumes "gdn_state_ok cfg st"
  shows "length (fst (gdn_delta N cfg w x t cv (gs_ssm st))) = num_v_heads cfg * head_k_dim cfg * head_v_dim cfg"
    and "length (snd (gdn_delta N cfg w x t cv (gs_ssm st))) = t * num_v_heads cfg * head_v_dim cfg"
  unfolding gdn_delta_def
  using assms prepared_run_length [of "gs_ssm st" "gdn_shape cfg t"]
  by (simp_all add: gdn_shape_def gdn_state_ok_def mult.assoc)

lemma gdn_run_length [simp]: "length (fst (gdn_run N cfg w st t x)) = t * gc_hidden cfg"
  by (simp add: gdn_run_def Let_def split_beta)

lemma gdn_run_state_ok: "gdn_state_ok cfg st \<Longrightarrow> gdn_state_ok cfg (snd (gdn_run N cfg w st t x))"
  using gdn_delta_length(1) [of cfg st N w x t] by (simp add: gdn_run_def Let_def split_beta gdn_state_ok_def)

lemma gdn_forward_impl_run:
  assumes "gdn_ok cfg w" and "gdn_state_ok cfg st" and "length x = t * gc_hidden cfg"
  shows "\<exists>tr. gdn_forward_impl N cfg w x 1 t (Some st) = Inr (tr, Some (snd (gdn_run N cfg w st t x))) \<and>
    gt_out_proj tr = fst (gdn_run N cfg w st t x)"
proof -
  let ?h = "gc_hidden cfg" and ?cd = "conv_dim cfg" and ?nv = "num_v_heads cfg"
  define mixed where "mixed = linear_serial N (gw_in_proj_qkv w) None x t ?h ?cd"
  define cv where "cv = gdn_conv N cfg w mixed t (gs_conv st)"
  have lens: "length mixed = t * ?cd" "length cv = t * ?cd" by (simp_all add: mixed_def cv_def)
  note lin = linear_ok [OF _ assms(3), where N = N]
  have ws: "length (gw_conv1d w) = ?cd * conv_kernel cfg" "length (gs_conv st) = ?cd * (conv_kernel cfg - 1)"
    using assms(1,2) by (simp_all add: gdn_ok_def gdn_state_ok_def)
  obtain xb co where conv: "btc_to_bct mixed 1 t ?cd = Inr xb"
    "conv_forward N (gw_conv1d w) None xb 1 ?cd t (conv_kernel cfg) (Some (gs_conv st)) =
       Inr (co, conv_next ?cd (conv_kernel cfg - 1) mixed t (gs_conv st))"
    "bct_to_btc co 1 ?cd t = Inr cv"
    using conv_block [OF refl ws(1) lens(1) ws(2), of N] unfolding cv_def gdn_conv_def by blast
  have heads: "repeat_interleave_heads (rows t (\<lambda>r. slice (slice cv (r * ?cd) ?cd) off (key_dim cfg))) 1 t
      (num_k_heads cfg) (head_k_dim cfg) (kv_ratio cfg) = Inr (gdn_heads cfg off t cv)" if "off \<le> key_dim cfg" for off
    using repeat_heads_rows [OF length_raw_heads [OF that lens(2)]] by (simp add: row_map_def gdn_heads_def)
  have vals: "rows t (\<lambda>r. slice (slice cv (r * ?cd) ?cd) (2 * key_dim cfg) (value_dim cfg)) = gdn_values cfg t cv"
    by (simp add: gdn_values_def row_map_def)
  obtain ssm o_t where delta: "gdn_delta N cfg w x t cv (gs_ssm st) = (ssm, o_t)" by fastforce
  have rule: "gdn_rule N (gdn_shape cfg t) (gdn_heads cfg 0 t cv) (gdn_heads cfg (key_dim cfg) t cv) (gdn_values cfg t cv)
      (gdn_g N w ?nv t (linear_serial N (gw_in_proj_a w) None x t ?h ?nv))
      (gdn_beta N ?nv t (linear_serial N (gw_in_proj_b w) None x t ?h ?nv)) nc (Some st) =
      Inr ((o_t, ssm), Some \<lparr>gs_conv = nc, gs_ssm = ssm\<rparr>)" for nc
    using forward_prepared_into_run [OF gdn_validate [OF assms(1) lens(2), where N = N and
          aa = "linear_serial N (gw_in_proj_a w) None x t ?h ?nv" and bb = "linear_serial N (gw_in_proj_b w) None x t ?h ?nv"],
        of "gs_ssm st" N] delta assms(2)
    by (cases st) (simp add: gdn_rule_def gdn_delta_def gdn_shape_def gdn_state_ok_def)
  have lo: "length o_t = t * ?nv * head_v_dim cfg"
    using gdn_delta_length(2) [OF assms(2), of N w x t cv] delta by simp
  have ok: "length (gw_in_proj_qkv w) = ?cd * ?h" "length (gw_in_proj_z w) = value_dim cfg * ?h"
    "length (gw_in_proj_b w) = ?nv * ?h" "length (gw_in_proj_a w) = ?nv * ?h"
    "length (gw_norm w) = head_v_dim cfg" "length (gw_out_proj w) = ?h * value_dim cfg"
    "?nv \<le> length (gw_a_log w)" "?nv \<le> length (gw_dt_bias w)" "num_k_heads cfg \<noteq> 0"
    using assms(1) by (simp_all add: gdn_ok_def)
  let ?norm = "row_map2 (gated_row N (gw_norm w) (head_v_dim cfg) (gc_eps cfg)) (head_v_dim cfg) (t * ?nv) o_t
      (linear_serial N (gw_in_proj_z w) None x t ?h (value_dim cfg))"
  have norm: "rmsnorm_gated N (gw_norm w) o_t (linear_serial N (gw_in_proj_z w) None x t ?h (value_dim cfg)) (t * ?nv)
      (head_v_dim cfg) (gc_eps cfg) = Inr ?norm"
    using ok(5) lo by (simp add: rmsnorm_gated_def value_dim_def mult.commute mult.left_commute)
  have outp: "linear N (gw_out_proj w) None ?norm t (value_dim cfg) ?h =
      Inr (linear_serial N (gw_out_proj w) None ?norm t (value_dim cfg) ?h)"
    using ok(6) by (intro linear_ok) (simp_all add: value_dim_def mult.commute mult.left_commute)
  have "(\<lparr>sh_b = Suc 0, sh_t = t, sh_h = ?nv, sh_k = head_k_dim cfg, sh_v = head_v_dim cfg\<rparr> :: Shape) = gdn_shape cfg t"
    by (simp add: gdn_shape_def)
  then show ?thesis
    using lin [OF ok(1)] lin [OF ok(2)] lin [OF ok(3)] lin [OF ok(4)] conv heads [of 0] heads [of "key_dim cfg"] vals
      rule norm outp ok(7-9) assms(3) delta
    by (simp add: gdn_forward_impl_def gdn_run_def Let_def mixed_def [symmetric] cv_def [symmetric])
qed

text \<open>Without a state the block starts from the zeroed one.\<close>

lemma try_bind_assoc: "try_bind (try_bind m f) g = try_bind m (\<lambda>x. try_bind (f x) g)"
  by (cases m) simp_all

lemma assert_that_bind: "try_bind (assert_that c m) g = assert_that c (try_bind m g)"
  by (cases c) (simp_all add: assert_that_def)

lemma gdn_rule_none:
  "gdn_rule N (gdn_shape cfg t) q k v g beta nc None =
   try_bind (gdn_rule N (gdn_shape cfg t) q k v g beta nc (Some (GdnState_new N cfg 1))) (\<lambda>x. Inr (fst x, None))"
  by (simp add: gdn_rule_def forward_prepared_def try_bind_assoc GdnState_new_def gdn_shape_def case_prod_unfold)

lemma gdn_forward_impl_none:
  "gdn_forward_impl N cfg w x 1 t None =
   try_bind (gdn_forward_impl N cfg w x 1 t (Some (GdnState_new N cfg 1))) (\<lambda>(tr, _). Inr (tr, None))"
proof -
  have sh: "(\<lparr>sh_b = Suc 0, sh_t = t, sh_h = num_v_heads cfg, sh_k = head_k_dim cfg, sh_v = head_v_dim cfg\<rparr> :: Shape) =
      gdn_shape cfg t" by (simp add: gdn_shape_def)
  have cv: "conv_forward N (gw_conv1d w) None y (Suc 0) (conv_dim cfg) t (conv_kernel cfg) None =
      conv_forward N (gw_conv1d w) None y (Suc 0) (conv_dim cfg) t (conv_kernel cfg)
        (Some (gs_conv (GdnState_new N cfg (Suc 0))))" for y
    using conv_no_state [of N "gw_conv1d w" None y 1] by (simp add: GdnState_new_def)
  show ?thesis
    using gdn_rule_none [of N cfg t]
    by (simp add: gdn_forward_impl_def Let_def sh cv try_bind_assoc assert_that_bind case_prod_unfold)
qed

lemma gdn_forward_run:
  assumes "gdn_ok cfg w" and "length x = t * gc_hidden cfg"
  shows "\<exists>tr. gdn_forward N cfg w x 1 t = Inr tr \<and> gt_out_proj tr = fst (gdn_run N cfg w (GdnState_new N cfg 1) t x)"
  using gdn_forward_impl_run [OF assms(1) GdnState_new_ok [where N = N] assms(2), of N]
  unfolding gdn_forward_def gdn_forward_impl_none by auto

lemma gdn_forward_with_state_run:
  assumes "gdn_ok cfg w" and "gdn_state_ok cfg st" and "length x = t * gc_hidden cfg"
  shows "\<exists>tr. gdn_forward_with_state N cfg w x 1 t st = Inr (tr, snd (gdn_run N cfg w st t x)) \<and>
    gt_out_proj tr = fst (gdn_run N cfg w st t x)"
  using gdn_forward_impl_run [OF assms, of N] unfolding gdn_forward_with_state_def by auto

text \<open>Two chunks in turn are the concatenated chunk.\<close>

lemma gdn_heads_append:
  assumes "off \<le> key_dim cfg" and "length c1 = t1 * conv_dim cfg"
  shows "gdn_heads cfg off (t1 + t2) (c1 @ c2) = gdn_heads cfg off t1 c1 @ gdn_heads cfg off t2 c2"
  unfolding gdn_heads_def row_map_append [OF assms(2)]
  by (rule row_map_append) (rule length_raw_heads [OF assms])

lemma gdn_run_append:
  assumes "gdn_ok cfg w" and "gdn_state_ok cfg st" and "length x1 = t1 * gc_hidden cfg"
  shows "gdn_run N cfg w st (t1 + t2) (x1 @ x2) =
    (fst (gdn_run N cfg w st t1 x1) @ fst (gdn_run N cfg w (snd (gdn_run N cfg w st t1 x1)) t2 x2),
     snd (gdn_run N cfg w (snd (gdn_run N cfg w st t1 x1)) t2 x2))"
proof -
  let ?h = "gc_hidden cfg" and ?cd = "conv_dim cfg" and ?nv = "num_v_heads cfg" and ?e = "conv_kernel cfg - 1"
  let ?lin = "\<lambda>p d t x. linear_serial N p None x t ?h d"
  note lin = linear_serial_append [OF assms(3)]
  define m1 m2 where "m1 = ?lin (gw_in_proj_qkv w) ?cd t1 x1" and "m2 = ?lin (gw_in_proj_qkv w) ?cd t2 x2"
  have lm: "length m1 = t1 * ?cd" by (simp add: m1_def)
  define st1 where "st1 = conv_next ?cd ?e m1 t1 (gs_conv st)"
  define c1 c2 where "c1 = gdn_conv N cfg w m1 t1 (gs_conv st)" and "c2 = gdn_conv N cfg w m2 t2 st1"
  have ws: "length (gw_conv1d w) = ?cd * conv_kernel cfg" "length (gs_conv st) = ?cd * ?e"
    using assms(1,2) by (simp_all add: gdn_ok_def gdn_state_ok_def)
  have conv: "gdn_conv N cfg w (m1 @ m2) (t1 + t2) (gs_conv st) = c1 @ c2"
    unfolding gdn_conv_def c1_def c2_def st1_def by (rule conv_rows_append) (use ws lm in simp_all)
  have nxt: "conv_next ?cd ?e (m1 @ m2) (t1 + t2) (gs_conv st) = conv_next ?cd ?e m2 t2 st1"
    unfolding st1_def by (rule conv_next_append [OF lm ws(2)])
  have lc: "length c1 = t1 * ?cd" "length c2 = t2 * ?cd" by (simp_all add: c1_def c2_def)
  have sh: "gdn_shape cfg t = (gdn_shape cfg 0)\<lparr>sh_t := t\<rparr>" for t by (simp add: gdn_shape_def)
  obtain s1 o1 where d1: "gdn_delta N cfg w x1 t1 c1 (gs_ssm st) = (s1, o1)" by fastforce
  obtain s2 o2 where d2: "gdn_delta N cfg w x2 t2 c2 s1 = (s2, o2)" by fastforce
  have heads: "gdn_heads cfg off (t1 + t2) (c1 @ c2) = gdn_heads cfg off t1 c1 @ gdn_heads cfg off t2 c2"
    if "off \<le> key_dim cfg" for off by (rule gdn_heads_append [OF that lc(1)])
  have vals: "gdn_values cfg (t1 + t2) (c1 @ c2) = gdn_values cfg t1 c1 @ gdn_values cfg t2 c2"
    unfolding gdn_values_def by (rule row_map_append [OF lc(1)])
  have delta: "gdn_delta N cfg w (x1 @ x2) (t1 + t2) (c1 @ c2) (gs_ssm st) = (s2, o1 @ o2)"
    using prepared_run_append [OF gdn_validate [OF assms(1) lc(1), unfolded sh [of t1], where N = N and
          aa = "?lin (gw_in_proj_a w) ?nv t1 x1" and bb = "?lin (gw_in_proj_b w) ?nv t1 x1"]
        gdn_validate [OF assms(1) lc(2), unfolded sh [of t2], where N = N and
          aa = "?lin (gw_in_proj_a w) ?nv t2 x2" and bb = "?lin (gw_in_proj_b w) ?nv t2 x2"], of N "gs_ssm st"]
      d1 d2 heads [of 0] heads [of "key_dim cfg"] vals
    by (simp add: gdn_delta_def lin gdn_g_append gdn_beta_append gdn_shape_def)
  have lo: "length o1 = t1 * ?nv * head_v_dim cfg"
    using gdn_delta_length(2) [OF assms(2), of N w x1 t1 c1] d1 by simp
  have norm: "row_map2 f (head_v_dim cfg) ((t1 + t2) * ?nv) (o1 @ o2) (z1 @ z2) =
      row_map2 f (head_v_dim cfg) (t1 * ?nv) o1 z1 @ row_map2 f (head_v_dim cfg) (t2 * ?nv) o2 z2"
    if "length z1 = t1 * value_dim cfg" for f z1 z2
    unfolding distrib_right
    by (rule row_map2_append) (use lo that in \<open>simp_all add: value_dim_def mult.commute mult.left_commute\<close>)
  have outp: "linear_serial N p None (row_map2 (gated_row N a b e) (head_v_dim cfg) (t1 * ?nv) o1 z1 @ y) (t1 + t2) (value_dim cfg) ?h =
      linear_serial N p None (row_map2 (gated_row N a b e) (head_v_dim cfg) (t1 * ?nv) o1 z1) t1 (value_dim cfg) ?h @
      linear_serial N p None y t2 (value_dim cfg) ?h" if "b = head_v_dim cfg" for a b e p y z1
    using that by (intro linear_serial_append) (simp add: value_dim_def mult.commute mult.left_commute)
  have "gdn_run N cfg w st t1 x1 =
      (fst (gdn_run N cfg w st t1 x1), \<lparr>gs_conv = st1, gs_ssm = s1\<rparr>)"
    using d1 by (simp add: gdn_run_def Let_def st1_def c1_def m1_def)
  then show ?thesis
    using delta conv nxt d1 d2
    by (simp add: lin gdn_run_def Let_def norm outp m1_def [symmetric] m2_def [symmetric] c1_def [symmetric] c2_def [symmetric])
qed

end
