(* ===== verification/Attention.thy ===== *)
theory Attention
  imports Gdn
begin

text \<open>
  The full-attention mixer (\<open>gdn/src/attention.rs\<close>): the rotary tables, the key/value cache, causal
  attention with grouped heads, and the forward pass with and without a cache.
\<close>

record 'f AttnConfig =
  ac_hidden :: nat
  num_heads :: nat
  num_kv_heads :: nat
  head_dim :: nat
  rotary_dim :: nat
  rope_theta :: 'f
  ac_eps :: 'f

definition q_out_dim :: "'f AttnConfig \<Rightarrow> nat" where "q_out_dim c = num_heads c * head_dim c * 2"
definition kv_out_dim :: "'f AttnConfig \<Rightarrow> nat" where "kv_out_dim c = num_kv_heads c * head_dim c"
definition kv_groups :: "'f AttnConfig \<Rightarrow> nat" where "kv_groups c = num_heads c div num_kv_heads c"

definition scaling :: "('f, 'g) nops \<Rightarrow> 'f AttnConfig \<Rightarrow> 'f" where
  "scaling N c = n_powf N (f_of_nat (f32 N) (head_dim c)) (n_neg_half N)"

record 'f AttnWeights =
  aw_q_proj :: "'f list"
  aw_k_proj :: "'f list"
  aw_v_proj :: "'f list"
  aw_o_proj :: "'f list"
  aw_q_norm :: "'f list"
  aw_k_norm :: "'f list"

record 'f AttnTrace =
  at_q_proj :: "'f list"
  at_q_norm :: "'f list"
  at_k_proj :: "'f list"
  at_k_norm :: "'f list"
  at_v_proj :: "'f list"
  at_gated :: "'f list"
  at_o_proj :: "'f list"

record 'f AttnState =
  as_k :: "'f list"
  as_v :: "'f list"
  as_len :: nat

definition AttnState_new :: "'f AttnState" where
  "AttnState_new = \<lparr>as_k = [], as_v = [], as_len = 0\<rparr>"

definition AttnState_bytes :: "'f AttnState \<Rightarrow> nat" where
  "AttnState_bytes st = (length (as_k st) + length (as_v st)) * 4"

section \<open>Rotary embedding\<close>

definition inv_freq :: "('f, 'g) nops \<Rightarrow> 'f AttnConfig \<Rightarrow> nat \<Rightarrow> 'f" where
  "inv_freq N cfg i =
     fdiv N (fone N) (n_powf N (rope_theta cfg)
       (fdiv N (f_of_nat (f32 N) (2 * i)) (f_of_nat (f32 N) (rotary_dim cfg))))"

text \<open>The row of a table for absolute position \<open>p\<close>: slots \<open>i\<close> and \<open>i + half\<close> carry the same angle.\<close>

definition rope_row :: "('f, 'g) nops \<Rightarrow> 'f AttnConfig \<Rightarrow> ('f \<Rightarrow> 'f) \<Rightarrow> nat \<Rightarrow> 'f list" where
  "rope_row N cfg trig p =
     (let half = rotary_dim cfg div 2;
          angle = (\<lambda>i. trig (fmul N (f_of_nat (f32 N) p) (inv_freq N cfg i)))
      in map (\<lambda>j. if j < half then angle j else if j < 2 * half then angle (j - half) else fzero N)
           [0..<rotary_dim cfg])"

definition build_rope :: "('f, 'g) nops \<Rightarrow> 'f AttnConfig \<Rightarrow> nat \<Rightarrow> nat \<Rightarrow> 'f list \<times> 'f list" where
  "build_rope N cfg t start =
     (rows t (\<lambda>pos. rope_row N cfg (n_cos N) (start + pos)),
      rows t (\<lambda>pos. rope_row N cfg (n_sin N) (start + pos)))"

definition rotate_half :: "('f, 'g) nops \<Rightarrow> 'f list \<Rightarrow> nat \<Rightarrow> 'f list" where
  "rotate_half N x rd =
     (let half = rd div 2
      in map (\<lambda>j. if j < half then f_neg (f32 N) (x ! (j + half))
                  else if j < 2 * half then x ! (j - half) else fzero N) [0..<rd])"

definition rope_head :: "('f, 'g) nops \<Rightarrow> nat \<Rightarrow> nat \<Rightarrow> 'f list \<Rightarrow> 'f list \<Rightarrow> 'f list \<Rightarrow> 'f list" where
  "rope_head N d rd c s xr =
     (let rot = slice xr 0 rd; rh = rotate_half N rot rd
      in map (\<lambda>i. if i < rd then fadd N (fmul N (rot ! i) (c ! i)) (fmul N (rh ! i) (s ! i)) else xr ! i) [0..<d])"

definition apply_rope ::
  "('f, 'g) nops \<Rightarrow> 'f list \<Rightarrow> nat \<Rightarrow> nat \<Rightarrow> nat \<Rightarrow> 'f list \<Rightarrow> 'f list \<Rightarrow> nat \<Rightarrow> nat \<Rightarrow> net_error + 'f list" where
  "apply_rope N x n heads d cos sin t rd =
     assert_that (n = 0 \<or> (heads \<noteq> 0 \<and> t \<noteq> 0 \<and> rd \<le> d \<and> n * d \<le> length x \<and>
         t * rd \<le> length cos \<and> t * rd \<le> length sin))
       (Inr (rows n (\<lambda>r. let pos = (r div heads) mod t in
          rope_head N d rd (slice cos (pos * rd) rd) (slice sin (pos * rd) rd) (slice x (r * d) d)) @ drop (n * d) x))"

section \<open>Softmax and attention\<close>

definition softmax_row :: "('f, 'g) nops \<Rightarrow> 'f list \<Rightarrow> 'f list" where
  "softmax_row N row =
     (let m = foldl (\<lambda>m x. if f_lt (f32 N) m x then x else m) (f_neg_inf (f32 N)) row;
          es = map (\<lambda>x. f_exp (f32 N) (f_sub (f32 N) x m)) row;
          inv = fdiv N (fone N) (foldl (fadd N) (fzero N) es)
      in map (\<lambda>e. fmul N e inv) es)"

definition softmax_in_place :: "('f, 'g) nops \<Rightarrow> 'f list \<Rightarrow> nat \<Rightarrow> 'f list" where
  "softmax_in_place N v len = rows ((length v + len - 1) div len) (\<lambda>i. softmax_row N (slice v (i * len) len))"

definition to_bhtd :: "'f list \<Rightarrow> nat \<Rightarrow> nat \<Rightarrow> nat \<Rightarrow> nat \<Rightarrow> net_error + 'f list" where
  "to_bhtd src b t heads d =
     assert_that (b * t * heads * d \<le> length src)
       (Inr (rows b (\<lambda>bi. rows heads (\<lambda>hh. rows t (\<lambda>ti. slice src (((bi * t + ti) * heads + hh) * d) d)))))"

definition grow_kv :: "'f list \<Rightarrow> 'f list \<Rightarrow> nat \<Rightarrow> nat \<Rightarrow> nat \<Rightarrow> nat \<Rightarrow> nat \<Rightarrow> 'f list" where
  "grow_kv old fresh start b t kvh d =
     rows b (\<lambda>bi. rows kvh (\<lambda>hh.
       (if start > 0 then slice old ((bi * kvh + hh) * start * d) (start * d) else []) @
       rows t (\<lambda>ti. slice fresh (((bi * t + ti) * kvh + hh) * d) d)))"

definition append_kv ::
  "'f AttnState \<Rightarrow> 'f list \<Rightarrow> 'f list \<Rightarrow> nat \<Rightarrow> nat \<Rightarrow> nat \<Rightarrow> nat \<Rightarrow> net_error + 'f AttnState" where
  "append_kv st k_rot v_flat b t kvh d =
     (let start = as_len st in
      assert_that (b * kvh * start * d \<le> length (as_k st) \<and> b * kvh * start * d \<le> length (as_v st) \<and>
          b * t * kvh * d \<le> length k_rot \<and> b * t * kvh * d \<le> length v_flat)
        (Inr (st\<lparr>as_k := grow_kv (as_k st) k_rot start b t kvh d,
                 as_v := grow_kv (as_v st) v_flat start b t kvh d,
                 as_len := start + t\<rparr>)))"

text \<open>One query row at absolute position \<open>p\<close> against the keys and values of one head, which start at \<open>kb\<close>.\<close>

definition attend_row ::
  "('f, 'g) nops \<Rightarrow> 'f list \<Rightarrow> nat \<Rightarrow> 'f list \<Rightarrow> 'f list \<Rightarrow> nat \<Rightarrow> nat \<Rightarrow> nat \<Rightarrow> 'f \<Rightarrow> 'f list" where
  "attend_row N q qrow keys vals kb p d sc =
     (let scores = map (\<lambda>tj. fmul N (foldl (\<lambda>a i. fadd N a (fmul N (q ! (qrow + i)) (keys ! (kb + tj * d + i))))
                     (fzero N) [0..<d]) sc) [0..<p + 1];
          scores = softmax_in_place N scores (p + 1)
      in map (\<lambda>i. foldl (\<lambda>a tj. fadd N a (fmul N (scores ! tj) (vals ! (kb + tj * d + i)))) (fzero N) [0..<p + 1])
           [0..<d])"

definition attend ::
  "('f, 'g) nops \<Rightarrow> 'f list \<Rightarrow> 'f list \<Rightarrow> 'f list \<Rightarrow> nat \<Rightarrow> nat \<Rightarrow> nat \<Rightarrow> nat \<Rightarrow> nat \<Rightarrow> nat \<Rightarrow> 'f \<Rightarrow>
   net_error + 'f list" where
  "attend N q keys vals b t start h kvh d sc =
     assert_that (kvh \<noteq> 0)
       (let groups = h div kvh; len = start + t in
        assert_that (b * h * t = 0 \<or> (groups \<noteq> 0 \<and> (h - 1) div groups < kvh \<and> b * t * h * d \<le> length q \<and>
            b * kvh * len * d \<le> length keys \<and> b * kvh * len * d \<le> length vals))
          (Inr (rows b (\<lambda>bi. rows h (\<lambda>hh.
             let kv = hh div groups; kb = (bi * kvh + kv) * len * d in
             rows t (\<lambda>ti. attend_row N q (((bi * t + ti) * h + hh) * d) keys vals kb (start + ti) d sc))))))"

section \<open>The mixer\<close>

definition attn_mix ::
  "('f, 'g) nops \<Rightarrow> 'f AttnConfig \<Rightarrow> 'f list \<Rightarrow> 'f list \<Rightarrow> 'f list \<Rightarrow> nat \<Rightarrow> nat \<Rightarrow> 'f AttnState option \<Rightarrow>
   net_error + 'f list \<times> 'f AttnState option" where
  "attn_mix N cfg q_rot k_rot v_flat b t state =
     (let h = num_heads cfg; kvh = num_kv_heads cfg; d = head_dim cfg in
      case state of
        Some st \<Rightarrow>
          try_bind (append_kv st k_rot v_flat b t kvh d) (\<lambda>st'.
          try_bind (attend N q_rot (as_k st') (as_v st') b t (as_len st) h kvh d (scaling N cfg)) (\<lambda>out.
          Inr (out, Some st')))
      | None \<Rightarrow>
          try_bind (to_bhtd k_rot b t kvh d) (\<lambda>keys.
          try_bind (to_bhtd v_flat b t kvh d) (\<lambda>vals.
          try_bind (attend N q_rot keys vals b t 0 h kvh d (scaling N cfg)) (\<lambda>out.
          Inr (out, None)))))"

definition attn_forward_impl ::
  "('f, 'g) nops \<Rightarrow> 'f AttnConfig \<Rightarrow> 'f AttnWeights \<Rightarrow> 'f list \<Rightarrow> nat \<Rightarrow> nat \<Rightarrow> 'f list \<Rightarrow> 'f list \<Rightarrow>
   'f AttnState option \<Rightarrow> net_error + 'f AttnTrace \<times> 'f AttnState option" where
  "attn_forward_impl N cfg w x b t cos sin state =
     (let n = b * t; h = num_heads cfg; kvh = num_kv_heads cfg; d = head_dim cfg; two_d = 2 * d in
      assert_that (length x = n * ac_hidden cfg) (
      try_bind (linear N (aw_q_proj w) None x n (ac_hidden cfg) (q_out_dim cfg)) (\<lambda>q_flat.
      try_bind (linear N (aw_k_proj w) None x n (ac_hidden cfg) (kv_out_dim cfg)) (\<lambda>k_flat.
      try_bind (linear N (aw_v_proj w) None x n (ac_hidden cfg) (kv_out_dim cfg)) (\<lambda>v_flat.
      let q = rows n (\<lambda>r. rows h (\<lambda>hh. slice q_flat (r * (h * two_d) + hh * two_d) d));
          gate = rows n (\<lambda>r. rows h (\<lambda>hh. slice q_flat (r * (h * two_d) + hh * two_d + d) d))
      in
      try_bind (rmsnorm_1plus N (aw_q_norm w) q (n * h) d (ac_eps cfg)) (\<lambda>q_normed.
      try_bind (rmsnorm_1plus N (aw_k_norm w) k_flat (n * kvh) d (ac_eps cfg)) (\<lambda>k_normed.
      try_bind (apply_rope N q_normed (n * h) h d cos sin t (rotary_dim cfg)) (\<lambda>q_rot.
      try_bind (apply_rope N k_normed (n * kvh) kvh d cos sin t (rotary_dim cfg)) (\<lambda>k_rot.
      try_bind (attn_mix N cfg q_rot k_rot v_flat b t state) (\<lambda>(out_bhtd, state).
      let attn_out = rows b (\<lambda>bi. rows t (\<lambda>ti. rows h (\<lambda>hh. slice out_bhtd (((bi * h + hh) * t + ti) * d) d)));
          gated = map (\<lambda>i. fmul N (attn_out ! i) (sigmoid N (gate ! i))) [0..<n * h * d]
      in
      try_bind (linear N (aw_o_proj w) None gated n (h * d) (ac_hidden cfg)) (\<lambda>oo.
      Inr (\<lparr>at_q_proj = q_flat, at_q_norm = q_normed, at_k_proj = k_flat, at_k_norm = k_normed,
            at_v_proj = v_flat, at_gated = gated, at_o_proj = oo\<rparr>, state))))))))))))"

definition attn_forward ::
  "('f, 'g) nops \<Rightarrow> 'f AttnConfig \<Rightarrow> 'f AttnWeights \<Rightarrow> 'f list \<Rightarrow> nat \<Rightarrow> nat \<Rightarrow> 'f list \<Rightarrow> 'f list \<Rightarrow>
   net_error + 'f AttnTrace" where
  "attn_forward N cfg w x b t cos sin = try_bind (attn_forward_impl N cfg w x b t cos sin None) (\<lambda>(tr, _). Inr tr)"

definition attn_forward_with_state ::
  "('f, 'g) nops \<Rightarrow> 'f AttnConfig \<Rightarrow> 'f AttnWeights \<Rightarrow> 'f list \<Rightarrow> nat \<Rightarrow> nat \<Rightarrow> 'f list \<Rightarrow> 'f list \<Rightarrow> 'f AttnState \<Rightarrow>
   net_error + 'f AttnTrace \<times> 'f AttnState" where
  "attn_forward_with_state N cfg w x b t cos sin st =
     try_bind (attn_forward_impl N cfg w x b t cos sin (Some st))
       (\<lambda>(tr, st'). Inr (tr, case st' of Some s \<Rightarrow> s | None \<Rightarrow> st))"

section \<open>The cache layout\<close>

text \<open>The keys (or values) \<open>src\<close> of \<open>n\<close> positions, position by position, in the layout of the cache.\<close>

definition kv_layout :: "nat \<Rightarrow> nat \<Rightarrow> nat \<Rightarrow> 'f list \<Rightarrow> 'f list" where
  "kv_layout kvh d n src = rows kvh (\<lambda>hh. rows n (\<lambda>ti. slice src ((ti * kvh + hh) * d) d))"

lemma head_row: "ti < n \<Longrightarrow> hh < kvh \<Longrightarrow> ti * kvh + hh < n * (kvh :: nat)"
  using row_bound [of ti n kvh] by linarith

lemma layout_head_length:
  assumes "length src = n * (kvh * d)" and "hh < kvh"
  shows "length (rows n (\<lambda>ti. slice src ((ti * kvh + hh) * d) d)) = n * d"
proof (rule length_rows)
  fix ti assume "ti < n"
  then show "length (slice src ((ti * kvh + hh) * d) d) = d"
    using assms row_bound [OF head_row [OF _ assms(2)], of ti n d] by (simp add: mult.assoc)
qed

lemma length_kv_layout [simp]: "length src = n * (kvh * d) \<Longrightarrow> length (kv_layout kvh d n src) = kvh * (n * d)"
  unfolding kv_layout_def by (rule length_rows) (rule layout_head_length)

lemma kv_layout_grow:
  assumes "length ka = n * (kvh * d)"
  shows "grow_kv (kv_layout kvh d n ka) kb n 1 t kvh d = kv_layout kvh d (n + t) (ka @ kb)"
proof -
  have old: "(if n > 0 then slice (kv_layout kvh d n ka) (hh * n * d) (n * d) else []) =
      rows n (\<lambda>ti. slice ka ((ti * kvh + hh) * d) d)" if "hh < kvh" for hh
    using slice_rows [of kvh "\<lambda>hh. rows n (\<lambda>ti. slice ka ((ti * kvh + hh) * d) d)" "n * d" hh]
      layout_head_length [OF assms] that by (auto simp: kv_layout_def mult.assoc)
  have len: "length ka = n * kvh * d" using assms by (simp add: mult.assoc)
  have 1: "slice (ka @ kb) ((ti * kvh + hh) * d) d = slice ka ((ti * kvh + hh) * d) d" if "ti < n" "hh < kvh" for ti hh
    by (rule slice_chunk1 [OF len head_row [OF that]])
  have 2: "slice (ka @ kb) (((n + ti) * kvh + hh) * d) d = slice kb ((ti * kvh + hh) * d) d" for ti hh
    using slice_chunk2 [OF len, of kb "ti * kvh + hh"] by (simp add: distrib_right add.assoc)
  show ?thesis
    unfolding grow_kv_def kv_layout_def [of _ _ "n + t"] rows_add [of n t]
    using old 1 2 by (auto intro!: rows_cong)
qed

lemma kv_layout_0 [simp]: "kv_layout kvh d 0 src = []"
proof -
  have "rows m (\<lambda>hh. rows 0 (f hh)) = []" for m and f :: "nat \<Rightarrow> nat \<Rightarrow> 'a list" by (induction m) (simp_all add: rows_Suc)
  then show ?thesis by (simp add: kv_layout_def)
qed

lemma kv_layout_nth:
  assumes "length src = n * (kvh * d)" and "kv < kvh" and "tj < n" and "i < d"
  shows "kv_layout kvh d n src ! (kv * n * d + tj * d + i) = src ! ((tj * kvh + kv) * d + i)"
proof -
  have sl: "length (slice src ((ti * kvh + kv) * d) d) = d" if "ti < n" for ti
    using assms(1) row_bound [OF head_row [OF that assms(2)], of d] by (simp add: mult.assoc)
  have in_row: "tj * d + i < n * d" using assms(3,4) row_bound [of tj n d] by linarith
  have "kv_layout kvh d n src ! (kv * (n * d) + (tj * d + i)) =
      rows n (\<lambda>ti. slice src ((ti * kvh + kv) * d) d) ! (tj * d + i)"
    unfolding kv_layout_def by (rule nth_rows) (use layout_head_length [OF assms(1)] assms(2) in_row in simp_all)
  also have "\<dots> = slice src ((tj * kvh + kv) * d) d ! i"
    by (rule nth_rows) (use sl assms in simp_all)
  also have "\<dots> = src ! ((tj * kvh + kv) * d + i)"
    using assms(1) row_bound [OF head_row [OF assms(3,2)], of d] assms(4)
    by (intro nth_slice) (simp_all add: mult.assoc)
  finally show ?thesis by (simp add: mult.assoc add.assoc)
qed

section \<open>Attention by position\<close>

definition attn_vec ::
  "('f, 'g) nops \<Rightarrow> nat \<Rightarrow> nat \<Rightarrow> 'f \<Rightarrow> 'f list \<Rightarrow> 'f list \<Rightarrow> nat \<Rightarrow> 'f list \<Rightarrow> nat \<Rightarrow> 'f list" where
  "attn_vec N kvh d sc ka va p qr kv =
     (let scores = map (\<lambda>tj. fmul N (foldl (\<lambda>a i. fadd N a (fmul N (qr ! i) (ka ! ((tj * kvh + kv) * d + i))))
                     (fzero N) [0..<d]) sc) [0..<p + 1];
          scores = softmax_in_place N scores (p + 1)
      in map (\<lambda>i. foldl (\<lambda>a tj. fadd N a (fmul N (scores ! tj) (va ! ((tj * kvh + kv) * d + i)))) (fzero N) [0..<p + 1])
           [0..<d])"

lemma length_attn_vec [simp]: "length (attn_vec N kvh d sc ka va p qr kv) = d"
  by (simp add: attn_vec_def Let_def)

text \<open>Two reads of the same scores and values give the same vector.\<close>

lemma attn_vec_cong:
  assumes "\<And>i. i < d \<Longrightarrow> qr ! i = qr' ! i"
    and "\<And>tj i. tj \<le> p \<Longrightarrow> i < d \<Longrightarrow> ka ! ((tj * kvh + kv) * d + i) = ka' ! ((tj * kvh + kv) * d + i)"
    and "\<And>tj i. tj \<le> p \<Longrightarrow> i < d \<Longrightarrow> va ! ((tj * kvh + kv) * d + i) = va' ! ((tj * kvh + kv) * d + i)"
  shows "attn_vec N kvh d sc ka va p qr kv = attn_vec N kvh d sc ka' va' p qr' kv"
proof -
  have s: "map (\<lambda>tj. fmul N (foldl (\<lambda>a i. fadd N a (fmul N (qr ! i) (ka ! ((tj * kvh + kv) * d + i)))) (fzero N) [0..<d]) sc) [0..<p + 1] =
      map (\<lambda>tj. fmul N (foldl (\<lambda>a i. fadd N a (fmul N (qr' ! i) (ka' ! ((tj * kvh + kv) * d + i)))) (fzero N) [0..<d]) sc) [0..<p + 1]"
    using assms(1,2) by (intro map_cong refl arg_cong2 [where f = "fmul N"] foldl_cong) auto
  show ?thesis
    unfolding attn_vec_def Let_def s
    by (intro map_cong refl foldl_cong) (use assms(3) in auto)
qed

lemma attend_row_vec:
  assumes "length ka = n * (kvh * d)" and "length va = n * (kvh * d)" and "kv < kvh" and "p < n" and "qrow + d \<le> length q"
  shows "attend_row N q qrow (kv_layout kvh d n ka) (kv_layout kvh d n va) (kv * n * d) p d sc =
    attn_vec N kvh d sc ka va p (slice q qrow d) kv"
proof -
  have s: "map (\<lambda>tj. fmul N (foldl (\<lambda>a i. fadd N a (fmul N (q ! (qrow + i)) (kv_layout kvh d n ka ! (kv * n * d + tj * d + i))))
        (fzero N) [0..<d]) sc) [0..<p + 1] =
      map (\<lambda>tj. fmul N (foldl (\<lambda>a i. fadd N a (fmul N (slice q qrow d ! i) (ka ! ((tj * kvh + kv) * d + i)))) (fzero N) [0..<d]) sc) [0..<p + 1]"
    using assms by (intro map_cong refl arg_cong2 [where f = "fmul N"] foldl_cong) (auto simp: kv_layout_nth nth_slice)
  show ?thesis
    unfolding attend_row_def attn_vec_def Let_def s
    by (intro map_cong refl foldl_cong) (use assms in \<open>auto simp: kv_layout_nth\<close>)
qed

lemma attn_vec_append:
  assumes "length ka = n * (kvh * d)" and "length va = n * (kvh * d)" and "kv < kvh" and "p < n"
  shows "attn_vec N kvh d sc (ka @ kb) (va @ vb) p qr kv = attn_vec N kvh d sc ka va p qr kv"
proof (rule attn_vec_cong)
  fix tj i assume "tj \<le> p" "i < d"
  then have "(tj * kvh + kv) * d + i < n * kvh * d"
    using row_bound [OF head_row [of tj n kv kvh], of d] assms(3,4) by linarith
  then show "(ka @ kb) ! ((tj * kvh + kv) * d + i) = ka ! ((tj * kvh + kv) * d + i)"
    "(va @ vb) ! ((tj * kvh + kv) * d + i) = va ! ((tj * kvh + kv) * d + i)"
    using assms(1,2) by (simp_all add: nth_append mult.assoc)
qed simp

section \<open>The mixer on one sequence\<close>

definition attn_ok :: "'f AttnConfig \<Rightarrow> 'f AttnWeights \<Rightarrow> bool" where
  "attn_ok cfg w \<longleftrightarrow>
     length (aw_q_proj w) = q_out_dim cfg * ac_hidden cfg \<and>
     length (aw_k_proj w) = kv_out_dim cfg * ac_hidden cfg \<and>
     length (aw_v_proj w) = kv_out_dim cfg * ac_hidden cfg \<and>
     length (aw_o_proj w) = ac_hidden cfg * (num_heads cfg * head_dim cfg) \<and>
     length (aw_q_norm w) = head_dim cfg \<and> length (aw_k_norm w) = head_dim cfg \<and>
     num_kv_heads cfg \<noteq> 0 \<and> num_kv_heads cfg dvd num_heads cfg \<and> rotary_dim cfg \<le> head_dim cfg"

definition pos_map :: "(nat \<Rightarrow> 'a list \<Rightarrow> 'b list) \<Rightarrow> nat \<Rightarrow> nat \<Rightarrow> nat \<Rightarrow> 'a list \<Rightarrow> 'b list" where
  "pos_map f start d t x = rows t (\<lambda>ti. f (start + ti) (slice x (ti * d) d))"

lemma pos_map_append [chunked]:
  assumes "length x = n * d"
  shows "pos_map f start d (n + m) (x @ y) = pos_map f start d n x @ pos_map f (start + n) d m y"
  unfolding pos_map_def rows_add slice_chunk2 [OF assms]
  by (intro arg_cong2 [where f = append] rows_cong refl) (simp_all add: slice_chunk1 [OF assms] add.assoc)

definition rope_norm_row ::
  "('f, 'g) nops \<Rightarrow> 'f AttnConfig \<Rightarrow> 'f list \<Rightarrow> nat \<Rightarrow> nat \<Rightarrow> nat \<Rightarrow> 'f list \<Rightarrow> 'f list" where
  "rope_norm_row N cfg w heads stride p row = rows heads (\<lambda>hh.
     rope_head N (head_dim cfg) (rotary_dim cfg) (rope_row N cfg (n_cos N) p) (rope_row N cfg (n_sin N) p)
       (norm_1plus_row N w (head_dim cfg) (ac_eps cfg) (slice row (hh * stride) (head_dim cfg))))"

definition gate_row :: "'f AttnConfig \<Rightarrow> 'f list \<Rightarrow> 'f list" where
  "gate_row cfg row = rows (num_heads cfg) (\<lambda>hh. slice row (hh * (2 * head_dim cfg) + head_dim cfg) (head_dim cfg))"

type_synonym 'f kv = "nat \<times> 'f list \<times> 'f list"

definition attn_qf :: "('f, 'g) nops \<Rightarrow> 'f AttnConfig \<Rightarrow> 'f AttnWeights \<Rightarrow> nat \<Rightarrow> 'f list \<Rightarrow> 'f list" where
  "attn_qf N cfg w t x = linear_serial N (aw_q_proj w) None x t (ac_hidden cfg) (q_out_dim cfg)"

definition attn_q :: "('f, 'g) nops \<Rightarrow> 'f AttnConfig \<Rightarrow> 'f AttnWeights \<Rightarrow> nat \<Rightarrow> nat \<Rightarrow> 'f list \<Rightarrow> 'f list" where
  "attn_q N cfg w start t x =
     pos_map (rope_norm_row N cfg (aw_q_norm w) (num_heads cfg) (2 * head_dim cfg)) start
       (num_heads cfg * (2 * head_dim cfg)) t (attn_qf N cfg w t x)"

definition attn_k :: "('f, 'g) nops \<Rightarrow> 'f AttnConfig \<Rightarrow> 'f AttnWeights \<Rightarrow> nat \<Rightarrow> nat \<Rightarrow> 'f list \<Rightarrow> 'f list" where
  "attn_k N cfg w start t x =
     pos_map (rope_norm_row N cfg (aw_k_norm w) (num_kv_heads cfg) (head_dim cfg)) start
       (num_kv_heads cfg * head_dim cfg) t
       (linear_serial N (aw_k_proj w) None x t (ac_hidden cfg) (kv_out_dim cfg))"

definition attn_v :: "('f, 'g) nops \<Rightarrow> 'f AttnConfig \<Rightarrow> 'f AttnWeights \<Rightarrow> nat \<Rightarrow> 'f list \<Rightarrow> 'f list" where
  "attn_v N cfg w t x = linear_serial N (aw_v_proj w) None x t (ac_hidden cfg) (kv_out_dim cfg)"

definition attn_gate :: "('f, 'g) nops \<Rightarrow> 'f AttnConfig \<Rightarrow> 'f AttnWeights \<Rightarrow> nat \<Rightarrow> 'f list \<Rightarrow> 'f list" where
  "attn_gate N cfg w t x = row_map (gate_row cfg) (num_heads cfg * (2 * head_dim cfg)) t (attn_qf N cfg w t x)"

definition attn_heads ::
  "('f, 'g) nops \<Rightarrow> 'f AttnConfig \<Rightarrow> nat \<Rightarrow> nat \<Rightarrow> 'f list \<Rightarrow> 'f list \<Rightarrow> 'f list \<Rightarrow> 'f list" where
  "attn_heads N cfg start t q ka va = rows t (\<lambda>ti. rows (num_heads cfg) (\<lambda>hh.
     attn_vec N (num_kv_heads cfg) (head_dim cfg) (scaling N cfg) ka va (start + ti)
       (slice q ((ti * num_heads cfg + hh) * head_dim cfg) (head_dim cfg)) (hh div kv_groups cfg)))"

definition attn_run ::
  "('f, 'g) nops \<Rightarrow> 'f AttnConfig \<Rightarrow> 'f AttnWeights \<Rightarrow> 'f kv \<Rightarrow> nat \<Rightarrow> 'f list \<Rightarrow> 'f list \<times> 'f kv" where
  "attn_run N cfg w s t x =
     (let (n, ka, va) = s;
          ka' = ka @ attn_k N cfg w n t x;
          va' = va @ attn_v N cfg w t x;
          gated = map2 (\<lambda>a g. fmul N a (sigmoid N g)) (attn_heads N cfg n t (attn_q N cfg w n t x) ka' va')
                    (attn_gate N cfg w t x)
      in (linear_serial N (aw_o_proj w) None gated t (num_heads cfg * head_dim cfg) (ac_hidden cfg), (n + t, ka', va')))"

definition kv_rep :: "'f AttnConfig \<Rightarrow> 'f kv \<Rightarrow> 'f AttnState \<Rightarrow> bool" where
  "kv_rep cfg s st \<longleftrightarrow> (case s of (n, ka, va) \<Rightarrow>
     length ka = n * (num_kv_heads cfg * head_dim cfg) \<and> length va = n * (num_kv_heads cfg * head_dim cfg) \<and>
     as_len st = n \<and> as_k st = kv_layout (num_kv_heads cfg) (head_dim cfg) n ka \<and>
     as_v st = kv_layout (num_kv_heads cfg) (head_dim cfg) n va)"

lemma length_rope_row [simp]: "length (rope_row N cfg f p) = rotary_dim cfg"
  by (simp add: rope_row_def Let_def)

lemma length_rope_head [simp]: "length (rope_head N d rd c s xr) = d"
  by (simp add: rope_head_def Let_def)

lemma length_rope_norm_row [simp]: "length (rope_norm_row N cfg w heads stride p row) = heads * head_dim cfg"
  by (simp add: rope_norm_row_def)

lemma length_attn_parts [simp]:
  "length (attn_qf N cfg w t x) = t * q_out_dim cfg"
  "length (attn_q N cfg w start t x) = t * (num_heads cfg * head_dim cfg)"
  "length (attn_k N cfg w start t x) = t * (num_kv_heads cfg * head_dim cfg)"
  "length (attn_v N cfg w t x) = t * (num_kv_heads cfg * head_dim cfg)"
  "length (attn_heads N cfg start t q ka va) = t * (num_heads cfg * head_dim cfg)"
  by (simp_all add: attn_qf_def attn_q_def attn_k_def attn_v_def attn_heads_def pos_map_def kv_out_dim_def)

lemma length_attn_gate [simp]: "length (attn_gate N cfg w t x) = t * (num_heads cfg * head_dim cfg)"
  unfolding attn_gate_def
proof (rule length_row_map)
  fix xs :: "'a list" assume len: "length xs = num_heads cfg * (2 * head_dim cfg)"
  show "length (gate_row cfg xs) = num_heads cfg * head_dim cfg"
    unfolding gate_row_def
  proof (rule length_rows)
    fix r assume "r < num_heads cfg"
    from row_bound [OF this, of "2 * head_dim cfg"] show "length (slice xs (r * (2 * head_dim cfg) + head_dim cfg) (head_dim cfg)) = head_dim cfg"
      using len by (intro length_slice) linarith
  qed
qed (simp add: q_out_dim_def mult.commute mult.left_commute)

text \<open>Normalising the head rows of a tensor and rotating them by their absolute position.\<close>

lemma rope_norm_tensor:
  assumes q: "q = rows t (\<lambda>ti. rows H (R ti))" and len: "\<And>ti hh. ti < t \<Longrightarrow> hh < H \<Longrightarrow> length (R ti hh) = head_dim cfg"
    and "length w = head_dim cfg" and "rotary_dim cfg \<le> head_dim cfg"
    and tab: "build_rope N cfg t start = (c, s)"
  shows "rmsnorm_1plus N w q (t * H) (head_dim cfg) eps = Inr (row_map (norm_1plus_row N w (head_dim cfg) eps) (head_dim cfg) (t * H) q)"
    and "apply_rope N (row_map (norm_1plus_row N w (head_dim cfg) eps) (head_dim cfg) (t * H) q) (t * H) H (head_dim cfg) c s t (rotary_dim cfg) =
      Inr (rows t (\<lambda>ti. rows H (\<lambda>hh. rope_head N (head_dim cfg) (rotary_dim cfg) (rope_row N cfg (n_cos N) (start + ti))
        (rope_row N cfg (n_sin N) (start + ti)) (norm_1plus_row N w (head_dim cfg) eps (R ti hh)))))"
proof -
  let ?d = "head_dim cfg" and ?rd = "rotary_dim cfg"
  have flat: "q = rows (t * H) (\<lambda>i. R (i div H) (i mod H))" by (simp add: q rows_nested)
  have R: "length (R (i div H) (i mod H)) = ?d" if "i < t * H" for i
    using that by (intro len) (auto simp: less_mult_imp_div_less intro!: mod_less_divisor Nat.gr0I)
  then have lq: "length q = t * H * ?d" unfolding flat by (rule length_rows)
  show "rmsnorm_1plus N w q (t * H) ?d eps = Inr (row_map (norm_1plus_row N w ?d eps) ?d (t * H) q)"
    using assms(3) lq by (rule rmsnorm_1plus_ok)
  let ?nq = "row_map (norm_1plus_row N w ?d eps) ?d (t * H) q"
  have nrow: "slice ?nq (r * ?d) ?d = norm_1plus_row N w ?d eps (R (r div H) (r mod H))" if "r < t * H" for r
  proof -
    have "slice ?nq (r * ?d) ?d = norm_1plus_row N w ?d eps (slice q (r * ?d) ?d)"
      unfolding row_map_def by (rule slice_rows) (use that in simp_all)
    then show ?thesis using slice_rows [of "t * H" "\<lambda>i. R (i div H) (i mod H)" ?d r] R that flat by simp
  qed
  have cs: "c = rows t (\<lambda>pos. rope_row N cfg (n_cos N) (start + pos))" "s = rows t (\<lambda>pos. rope_row N cfg (n_sin N) (start + pos))"
    using tab by (simp_all add: build_rope_def)
  have tabs: "slice c (ti * ?rd) ?rd = rope_row N cfg (n_cos N) (start + ti)"
    "slice s (ti * ?rd) ?rd = rope_row N cfg (n_sin N) (start + ti)" if "ti < t" for ti
    unfolding cs by (rule slice_rows; use that in simp)+
  have pos: "r div H mod t = r div H" "r div H < t" if "r < t * H" for r
    using that by (simp_all add: less_mult_imp_div_less)
  have "apply_rope N ?nq (t * H) H ?d c s t ?rd = Inr (rows (t * H) (\<lambda>r.
      rope_head N ?d ?rd (rope_row N cfg (n_cos N) (start + r div H)) (rope_row N cfg (n_sin N) (start + r div H))
        (norm_1plus_row N w ?d eps (R (r div H) (r mod H)))))"
    using assms(4) nrow tabs pos by (auto simp: apply_rope_def cs Let_def intro!: rows_cong)
  then show "apply_rope N ?nq (t * H) H ?d c s t ?rd =
      Inr (rows t (\<lambda>ti. rows H (\<lambda>hh. rope_head N ?d ?rd (rope_row N cfg (n_cos N) (start + ti))
        (rope_row N cfg (n_sin N) (start + ti)) (norm_1plus_row N w ?d eps (R ti hh)))))"
    by (simp add: rows_nested)
qed

lemma slice_rows2:
  assumes "\<And>i j. i < n \<Longrightarrow> j < m \<Longrightarrow> length (f i j) = d" and "i < n" and "j < m"
  shows "slice (rows n (\<lambda>i. rows m (f i))) ((i * m + j) * d) d = f i j"
proof -
  have "rows n (\<lambda>i. rows m (f i)) = rows (n * m) (\<lambda>r. f (r div m) (r mod m))" by (rule rows_nested)
  moreover have "length (f (r div m) (r mod m)) = d" if "r < n * m" for r
    using that by (intro assms(1)) (auto simp: less_mult_imp_div_less intro!: mod_less_divisor Nat.gr0I)
  moreover have "i * m + j < n * m" using assms(2,3) row_bound [of i n m] by linarith
  ultimately show ?thesis using slice_rows [of "n * m" "\<lambda>r. f (r div m) (r mod m)" d "i * m + j"] assms(3) by simp
qed

lemma group_bound:
  assumes "attn_ok cfg w" and "hh < num_heads cfg"
  shows "hh div kv_groups cfg < num_kv_heads cfg"
proof -
  have "num_heads cfg = kv_groups cfg * num_kv_heads cfg" using assms(1) by (simp add: attn_ok_def kv_groups_def)
  then show ?thesis using assms(2) by (metis less_mult_imp_div_less mult.commute)
qed

lemma attend_heads:
  assumes "attn_ok cfg w" and "length ka = (n + t) * (num_kv_heads cfg * head_dim cfg)"
    and "length va = (n + t) * (num_kv_heads cfg * head_dim cfg)" and "length q = t * (num_heads cfg * head_dim cfg)"
  shows "attend N q (kv_layout (num_kv_heads cfg) (head_dim cfg) (n + t) ka) (kv_layout (num_kv_heads cfg) (head_dim cfg) (n + t) va)
      1 t n (num_heads cfg) (num_kv_heads cfg) (head_dim cfg) (scaling N cfg) =
    Inr (rows (num_heads cfg) (\<lambda>hh. rows t (\<lambda>ti.
      attn_vec N (num_kv_heads cfg) (head_dim cfg) (scaling N cfg) ka va (n + ti)
        (slice q ((ti * num_heads cfg + hh) * head_dim cfg) (head_dim cfg)) (hh div kv_groups cfg))))"
proof -
  let ?h = "num_heads cfg" and ?kvh = "num_kv_heads cfg" and ?d = "head_dim cfg"
  have ok: "?kvh \<noteq> 0" using assms(1) by (simp add: attn_ok_def)
  have g: "?h * t = 0 \<or> (?h div ?kvh \<noteq> 0 \<and> (?h - 1) div (?h div ?kvh) < ?kvh)"
    using group_bound [OF assms(1), of "?h - 1"] assms(1) by (auto simp: attn_ok_def kv_groups_def dvd_div_eq_0_iff)
  have row: "attend_row N q ((ti * ?h + hh) * ?d) (kv_layout ?kvh ?d (n + t) ka) (kv_layout ?kvh ?d (n + t) va)
      (hh div kv_groups cfg * (n + t) * ?d) (n + ti) ?d (scaling N cfg) =
    attn_vec N ?kvh ?d (scaling N cfg) ka va (n + ti) (slice q ((ti * ?h + hh) * ?d) ?d) (hh div kv_groups cfg)"
    if "hh < ?h" "ti < t" for hh ti
    using row_bound [OF head_row [OF that(2,1)], of ?d] assms(4) that
    by (intro attend_row_vec assms(2,3) group_bound [OF assms(1)]) (simp_all add: mult.assoc)
  have "?h * t = 0 \<or> (?h div ?kvh \<noteq> 0 \<and> (?h - 1) div (?h div ?kvh) < ?kvh \<and> t * ?h * ?d \<le> length q \<and>
      ?kvh * (n + t) * ?d \<le> length (kv_layout ?kvh ?d (n + t) ka) \<and> ?kvh * (n + t) * ?d \<le> length (kv_layout ?kvh ?d (n + t) va))"
    using g assms(2-4) by (simp add: mult.assoc)
  then show ?thesis
    using ok row by (auto simp: attend_def Let_def kv_groups_def [symmetric] intro!: rows_cong)
qed

lemma attn_mix_run:
  assumes "attn_ok cfg w" and "kv_rep cfg (n, ka, va) st"
    and "length k = t * (num_kv_heads cfg * head_dim cfg)" and "length v = t * (num_kv_heads cfg * head_dim cfg)"
    and "length q = t * (num_heads cfg * head_dim cfg)"
  shows "\<exists>out st'. attn_mix N cfg q k v 1 t (Some st) = Inr (out, Some st') \<and> kv_rep cfg (n + t, ka @ k, va @ v) st' \<and>
    rows t (\<lambda>ti. rows (num_heads cfg) (\<lambda>hh. slice out ((hh * t + ti) * head_dim cfg) (head_dim cfg))) =
      attn_heads N cfg n t q (ka @ k) (va @ v)"
proof -
  let ?h = "num_heads cfg" and ?kvh = "num_kv_heads cfg" and ?d = "head_dim cfg"
  have rep: "length ka = n * (?kvh * ?d)" "length va = n * (?kvh * ?d)" "as_len st = n"
    "as_k st = kv_layout ?kvh ?d n ka" "as_v st = kv_layout ?kvh ?d n va"
    using assms(2) by (simp_all add: kv_rep_def)
  let ?st = "st\<lparr>as_k := kv_layout ?kvh ?d (n + t) (ka @ k), as_v := kv_layout ?kvh ?d (n + t) (va @ v), as_len := n + t\<rparr>"
  have app: "append_kv st k v 1 t ?kvh ?d = Inr ?st"
    using rep assms(3,4) kv_layout_grow [OF rep(1), of k t] kv_layout_grow [OF rep(2), of v t]
    by (simp add: append_kv_def mult.assoc)
  have len: "length (ka @ k) = (n + t) * (?kvh * ?d)" "length (va @ v) = (n + t) * (?kvh * ?d)"
    using rep assms(3,4) by (simp_all add: distrib_right)
  define out where "out = rows ?h (\<lambda>hh. rows t (\<lambda>ti.
      attn_vec N ?kvh ?d (scaling N cfg) (ka @ k) (va @ v) (n + ti) (slice q ((ti * ?h + hh) * ?d) ?d) (hh div kv_groups cfg)))"
  have "attn_mix N cfg q k v 1 t (Some st) = Inr (out, Some ?st)"
    using app attend_heads [OF assms(1) len assms(5), of N] rep(3) by (simp add: attn_mix_def Let_def out_def)
  moreover have "kv_rep cfg (n + t, ka @ k, va @ v) ?st" using len by (simp add: kv_rep_def)
  moreover have "slice out ((hh * t + ti) * ?d) ?d =
      attn_vec N ?kvh ?d (scaling N cfg) (ka @ k) (va @ v) (n + ti) (slice q ((ti * ?h + hh) * ?d) ?d) (hh div kv_groups cfg)"
    if "hh < ?h" "ti < t" for hh ti
    unfolding out_def using that by (intro slice_rows2) simp_all
  then have "rows t (\<lambda>ti. rows ?h (\<lambda>hh. slice out ((hh * t + ti) * ?d) ?d)) = attn_heads N cfg n t q (ka @ k) (va @ v)"
    unfolding attn_heads_def by (auto intro!: rows_cong)
  ultimately show ?thesis by blast
qed

text \<open>Without a cache the mixer behaves as with an empty one.\<close>

lemma attn_mix_none:
  assumes "t * (num_kv_heads cfg * head_dim cfg) \<le> length k" and "t * (num_kv_heads cfg * head_dim cfg) \<le> length v"
  shows "attn_mix N cfg q k v 1 t None = try_bind (attn_mix N cfg q k v 1 t (Some AttnState_new)) (\<lambda>x. Inr (fst x, None))"
  using assms by (simp add: attn_mix_def Let_def append_kv_def AttnState_new_def grow_kv_def to_bhtd_def try_bind_assoc mult.assoc)

lemma kv_rep_new: "kv_rep cfg (0, [], []) AttnState_new"
  by (simp add: kv_rep_def AttnState_new_def)

lemma map_nth_map2:
  "length xs = n \<Longrightarrow> length ys = n \<Longrightarrow> map (\<lambda>i. f (xs ! i) (ys ! i)) [0..<n] = map2 f xs ys"
  by (rule nth_equalityI) simp_all

lemma head_slice:
  assumes "hh < H" and "off + d \<le> m"
  shows "slice (slice x p (H * m)) (hh * m + off) d = slice x (p + hh * m + off) d"
  using slice_slice [of "hh * m + off" d "H * m" x p] row_bound [OF assms(1), of m] assms(2) by (simp add: add.assoc)

lemma attn_q_tensor:
  fixes w :: "'f AttnWeights"
  defines "q \<equiv> \<lambda>qf t (cfg :: 'f AttnConfig). rows t (\<lambda>r. rows (num_heads cfg) (\<lambda>hh.
    slice qf (r * (num_heads cfg * (2 * head_dim cfg)) + hh * (2 * head_dim cfg)) (head_dim cfg)))"
  assumes "attn_ok cfg w" and "build_rope N cfg t start = (c, s)"
  shows "\<exists>qn. rmsnorm_1plus N (aw_q_norm w) (q (attn_qf N cfg w t x) t cfg) (t * num_heads cfg) (head_dim cfg) (ac_eps cfg) = Inr qn \<and>
    apply_rope N qn (t * num_heads cfg) (num_heads cfg) (head_dim cfg) c s t (rotary_dim cfg) = Inr (attn_q N cfg w start t x)"
proof -
  let ?h = "num_heads cfg" and ?d = "head_dim cfg"
  let ?R = "\<lambda>r hh. slice (attn_qf N cfg w t x) (r * (?h * (2 * ?d)) + hh * (2 * ?d)) ?d"
  have "length (attn_qf N cfg w t x) = t * (?h * (2 * ?d))" by (simp add: q_out_dim_def mult.commute mult.left_commute)
  then have len: "length (?R ti hh) = ?d" if "ti < t" "hh < ?h" for ti hh
    using row_bound [OF that(1), of "?h * (2 * ?d)"] row_bound [OF that(2), of "2 * ?d"]
    by (intro length_slice) linarith
  have eq: "slice (slice (attn_qf N cfg w t x) (ti * (?h * (2 * ?d))) (?h * (2 * ?d))) (hh * (2 * ?d)) ?d = ?R ti hh" if "hh < ?h" for ti hh
    using head_slice [OF that, of 0 ?d "2 * ?d"] by simp
  have "length (aw_q_norm w) = ?d" "rotary_dim cfg \<le> ?d" using assms(2) by (simp_all add: attn_ok_def)
  from rope_norm_tensor [OF refl len this assms(3), where eps = "ac_eps cfg"] eq show ?thesis
    unfolding q_def attn_q_def pos_map_def rope_norm_row_def by (auto intro!: rows_cong)
qed

lemma attn_k_tensor:
  assumes "attn_ok cfg w" and "build_rope N cfg t start = (c, s)"
  shows "\<exists>kn. rmsnorm_1plus N (aw_k_norm w) (linear_serial N (aw_k_proj w) None x t (ac_hidden cfg) (kv_out_dim cfg))
      (t * num_kv_heads cfg) (head_dim cfg) (ac_eps cfg) = Inr kn \<and>
    apply_rope N kn (t * num_kv_heads cfg) (num_kv_heads cfg) (head_dim cfg) c s t (rotary_dim cfg) = Inr (attn_k N cfg w start t x)"
proof -
  let ?h = "num_kv_heads cfg" and ?d = "head_dim cfg"
  let ?kf = "linear_serial N (aw_k_proj w) None x t (ac_hidden cfg) (kv_out_dim cfg)"
  let ?R = "\<lambda>r hh. slice ?kf ((r * ?h + hh) * ?d) ?d"
  have lk: "length ?kf = t * ?h * ?d" by (simp add: kv_out_dim_def)
  have kf: "?kf = rows t (\<lambda>ti. rows ?h (?R ti))"
    using rows_slices [OF lk] by (simp add: rows_nested)
  have len: "length (?R ti hh) = ?d" if "ti < t" "hh < ?h" for ti hh
    using row_bound [OF head_row [OF that], of ?d] lk by (intro length_slice) linarith
  have eq: "slice (slice ?kf (ti * (?h * ?d)) (?h * ?d)) (hh * ?d) ?d = ?R ti hh" if "hh < ?h" for ti hh
    using head_slice [OF that, of 0 ?d ?d] by (simp add: distrib_right mult.assoc)
  have "length (aw_k_norm w) = ?d" "rotary_dim cfg \<le> ?d" using assms(1) by (simp_all add: attn_ok_def)
  from rope_norm_tensor [OF kf len this assms(2), where eps = "ac_eps cfg"] eq show ?thesis
    unfolding attn_k_def pos_map_def rope_norm_row_def by (auto intro!: rows_cong)
qed

lemma attn_gate_tensor:
  "rows t (\<lambda>r. rows (num_heads cfg) (\<lambda>hh.
     slice (attn_qf N cfg w t x) (r * (num_heads cfg * (2 * head_dim cfg)) + hh * (2 * head_dim cfg) + head_dim cfg) (head_dim cfg))) =
   attn_gate N cfg w t x"
  unfolding attn_gate_def row_map_def gate_row_def
  by (intro rows_cong refl) (simp add: head_slice)

lemma attn_forward_impl_run:
  assumes "attn_ok cfg w" and "kv_rep cfg s st" and "length x = t * ac_hidden cfg"
    and "build_rope N cfg t (fst s) = (c, sn)"
  shows "\<exists>tr st'. attn_forward_impl N cfg w x 1 t c sn (Some st) = Inr (tr, Some st') \<and>
    kv_rep cfg (snd (attn_run N cfg w s t x)) st' \<and> at_o_proj tr = fst (attn_run N cfg w s t x)"
proof -
  obtain n ka va where s: "s = (n, ka, va)" by (cases s) auto
  have ok: "length (aw_q_proj w) = q_out_dim cfg * ac_hidden cfg" "length (aw_k_proj w) = kv_out_dim cfg * ac_hidden cfg"
    "length (aw_v_proj w) = kv_out_dim cfg * ac_hidden cfg" "length (aw_o_proj w) = ac_hidden cfg * (num_heads cfg * head_dim cfg)"
    using assms(1) by (simp_all add: attn_ok_def)
  have tab: "build_rope N cfg t n = (c, sn)" using assms(4) s by simp
  note lin = linear_ok [OF _ assms(3), where N = N]
  obtain qn where q: "rmsnorm_1plus N (aw_q_norm w) (rows t (\<lambda>r. rows (num_heads cfg) (\<lambda>hh.
      slice (attn_qf N cfg w t x) (r * (num_heads cfg * (2 * head_dim cfg)) + hh * (2 * head_dim cfg)) (head_dim cfg))))
      (t * num_heads cfg) (head_dim cfg) (ac_eps cfg) = Inr qn"
    "apply_rope N qn (t * num_heads cfg) (num_heads cfg) (head_dim cfg) c sn t (rotary_dim cfg) = Inr (attn_q N cfg w n t x)"
    using attn_q_tensor [OF assms(1) tab] by blast
  obtain kn where k: "rmsnorm_1plus N (aw_k_norm w) (linear_serial N (aw_k_proj w) None x t (ac_hidden cfg) (kv_out_dim cfg))
      (t * num_kv_heads cfg) (head_dim cfg) (ac_eps cfg) = Inr kn"
    "apply_rope N kn (t * num_kv_heads cfg) (num_kv_heads cfg) (head_dim cfg) c sn t (rotary_dim cfg) = Inr (attn_k N cfg w n t x)"
    using attn_k_tensor [OF assms(1) tab] by blast
  obtain out st' where mix: "attn_mix N cfg (attn_q N cfg w n t x) (attn_k N cfg w n t x) (attn_v N cfg w t x) 1 t (Some st) = Inr (out, Some st')"
    "kv_rep cfg (n + t, ka @ attn_k N cfg w n t x, va @ attn_v N cfg w t x) st'"
    "rows t (\<lambda>ti. rows (num_heads cfg) (\<lambda>hh. slice out ((hh * t + ti) * head_dim cfg) (head_dim cfg))) =
      attn_heads N cfg n t (attn_q N cfg w n t x) (ka @ attn_k N cfg w n t x) (va @ attn_v N cfg w t x)"
    using attn_mix_run [OF assms(1) assms(2) [unfolded s], of "attn_k N cfg w n t x" t "attn_v N cfg w t x" "attn_q N cfg w n t x" N]
    by auto
  let ?g = "map2 (\<lambda>a g. fmul N a (sigmoid N g))
    (attn_heads N cfg n t (attn_q N cfg w n t x) (ka @ attn_k N cfg w n t x) (va @ attn_v N cfg w t x)) (attn_gate N cfg w t x)"
  have gated: "map (\<lambda>i. fmul N (attn_heads N cfg n t (attn_q N cfg w n t x) (ka @ attn_k N cfg w n t x) (va @ attn_v N cfg w t x) ! i)
      (sigmoid N (attn_gate N cfg w t x ! i))) [0..<t * num_heads cfg * head_dim cfg] = ?g"
    by (rule map_nth_map2) (simp_all add: mult.assoc)
  have o_ok: "linear N (aw_o_proj w) None ?g t (num_heads cfg * head_dim cfg) (ac_hidden cfg) =
      Inr (linear_serial N (aw_o_proj w) None ?g t (num_heads cfg * head_dim cfg) (ac_hidden cfg))"
    using ok(4) by (intro linear_ok) simp_all
  show ?thesis
    using lin [OF ok(1), folded attn_qf_def] lin [OF ok(2)] lin [OF ok(3), folded attn_v_def] q k mix gated o_ok assms(3)
    by (simp add: attn_forward_impl_def Let_def attn_gate_tensor attn_run_def s)
qed

lemma attn_forward_impl_none:
  assumes "attn_ok cfg w" and "length x = t * ac_hidden cfg" and "build_rope N cfg t 0 = (c, sn)"
  shows "\<exists>tr. attn_forward N cfg w x 1 t c sn = Inr tr \<and> at_o_proj tr = fst (attn_run N cfg w (0, [], []) t x)"
proof -
  have ok: "length (aw_q_proj w) = q_out_dim cfg * ac_hidden cfg" "length (aw_k_proj w) = kv_out_dim cfg * ac_hidden cfg"
    "length (aw_v_proj w) = kv_out_dim cfg * ac_hidden cfg" using assms(1) by (simp_all add: attn_ok_def)
  note lin = linear_ok [OF _ assms(2), where N = N]
  obtain kn where k: "rmsnorm_1plus N (aw_k_norm w) (linear_serial N (aw_k_proj w) None x t (ac_hidden cfg) (kv_out_dim cfg))
      (t * num_kv_heads cfg) (head_dim cfg) (ac_eps cfg) = Inr kn"
    "apply_rope N kn (t * num_kv_heads cfg) (num_kv_heads cfg) (head_dim cfg) c sn t (rotary_dim cfg) = Inr (attn_k N cfg w 0 t x)"
    using attn_k_tensor [OF assms(1,3)] by blast
  have "attn_forward_impl N cfg w x 1 t c sn None =
      try_bind (attn_forward_impl N cfg w x 1 t c sn (Some AttnState_new)) (\<lambda>p. Inr (fst p, None))"
    using lin [OF ok(1)] lin [OF ok(2)] lin [OF ok(3), folded attn_v_def] k
      attn_mix_none [of t cfg "attn_k N cfg w 0 t x" "attn_v N cfg w t x" N]
    by (simp add: attn_forward_impl_def Let_def try_bind_assoc assert_that_bind case_prod_unfold)
  with attn_forward_impl_run [OF assms(1) kv_rep_new assms(2), of N c sn] assms(3) show ?thesis
    by (auto simp: attn_forward_def)
qed

lemma attn_parts_append:
  assumes "length x1 = t1 * ac_hidden cfg"
  shows "attn_q N cfg w n (t1 + t2) (x1 @ x2) = attn_q N cfg w n t1 x1 @ attn_q N cfg w (n + t1) t2 x2"
    and "attn_k N cfg w n (t1 + t2) (x1 @ x2) = attn_k N cfg w n t1 x1 @ attn_k N cfg w (n + t1) t2 x2"
    and "attn_v N cfg w (t1 + t2) (x1 @ x2) = attn_v N cfg w t1 x1 @ attn_v N cfg w t2 x2"
    and "attn_gate N cfg w (t1 + t2) (x1 @ x2) = attn_gate N cfg w t1 x1 @ attn_gate N cfg w t2 x2"
proof -
  note lin = linear_serial_append [OF assms]
  have qf: "attn_qf N cfg w (t1 + t2) (x1 @ x2) = attn_qf N cfg w t1 x1 @ attn_qf N cfg w t2 x2"
    unfolding attn_qf_def by (rule lin)
  have lq: "length (attn_qf N cfg w t1 x1) = t1 * (num_heads cfg * (2 * head_dim cfg))"
    by (simp add: q_out_dim_def mult.commute mult.left_commute)
  show "attn_q N cfg w n (t1 + t2) (x1 @ x2) = attn_q N cfg w n t1 x1 @ attn_q N cfg w (n + t1) t2 x2"
    unfolding attn_q_def qf by (rule pos_map_append [OF lq])
  show "attn_gate N cfg w (t1 + t2) (x1 @ x2) = attn_gate N cfg w t1 x1 @ attn_gate N cfg w t2 x2"
    unfolding attn_gate_def qf by (rule row_map_append [OF lq])
  show "attn_k N cfg w n (t1 + t2) (x1 @ x2) = attn_k N cfg w n t1 x1 @ attn_k N cfg w (n + t1) t2 x2"
    unfolding attn_k_def lin by (rule pos_map_append) (simp add: kv_out_dim_def)
  show "attn_v N cfg w (t1 + t2) (x1 @ x2) = attn_v N cfg w t1 x1 @ attn_v N cfg w t2 x2"
    unfolding attn_v_def by (rule lin)
qed

lemma attn_heads_append:
  assumes "attn_ok cfg w" and "length ka = (n + t1) * (num_kv_heads cfg * head_dim cfg)"
    and "length va = (n + t1) * (num_kv_heads cfg * head_dim cfg)" and "length q1 = t1 * (num_heads cfg * head_dim cfg)"
  shows "attn_heads N cfg n (t1 + t2) (q1 @ q2) (ka @ kb) (va @ vb) =
    attn_heads N cfg n t1 q1 ka va @ attn_heads N cfg (n + t1) t2 q2 (ka @ kb) (va @ vb)"
proof -
  let ?h = "num_heads cfg" and ?d = "head_dim cfg"
  have len: "length q1 = t1 * ?h * ?d" using assms(4) by (simp add: mult.assoc)
  have 1: "slice (q1 @ q2) ((ti * ?h + hh) * ?d) ?d = slice q1 ((ti * ?h + hh) * ?d) ?d" if "ti < t1" "hh < ?h" for ti hh
    by (rule slice_chunk1 [OF len head_row [OF that]])
  have 2: "slice (q1 @ q2) (((t1 + ti) * ?h + hh) * ?d) ?d = slice q2 ((ti * ?h + hh) * ?d) ?d" for ti hh
    using slice_chunk2 [OF len, of q2 "ti * ?h + hh"] by (simp add: distrib_right add.assoc)
  have 3: "attn_vec N (num_kv_heads cfg) ?d sc (ka @ kb) (va @ vb) (n + ti) qr (hh div kv_groups cfg) =
      attn_vec N (num_kv_heads cfg) ?d sc ka va (n + ti) qr (hh div kv_groups cfg)" if "ti < t1" "hh < ?h" for ti hh sc qr
    using that by (intro attn_vec_append [OF assms(2,3) group_bound [OF assms(1)]]) simp_all
  show ?thesis
    unfolding attn_heads_def rows_add
    by (intro arg_cong2 [where f = append] rows_cong refl) (simp_all add: 1 2 3 add.assoc)
qed

lemma attn_run_append:
  assumes "attn_ok cfg w" and "kv_rep cfg s st" and "length x1 = t1 * ac_hidden cfg"
  shows "attn_run N cfg w s (t1 + t2) (x1 @ x2) =
    (fst (attn_run N cfg w s t1 x1) @ fst (attn_run N cfg w (snd (attn_run N cfg w s t1 x1)) t2 x2),
     snd (attn_run N cfg w (snd (attn_run N cfg w s t1 x1)) t2 x2))"
proof -
  obtain n ka va where s: "s = (n, ka, va)" by (cases s) auto
  note parts = attn_parts_append [OF assms(3)]
  let ?k1 = "attn_k N cfg w n t1 x1" and ?v1 = "attn_v N cfg w t1 x1"
  have len: "length (ka @ ?k1) = (n + t1) * (num_kv_heads cfg * head_dim cfg)"
    "length (va @ ?v1) = (n + t1) * (num_kv_heads cfg * head_dim cfg)"
    using assms(2) s by (simp_all add: kv_rep_def distrib_right)
  have heads: "attn_heads N cfg n (t1 + t2) (attn_q N cfg w n t1 x1 @ q2) (ka @ ?k1 @ kb) (va @ ?v1 @ vb) =
      attn_heads N cfg n t1 (attn_q N cfg w n t1 x1) (ka @ ?k1) (va @ ?v1) @
      attn_heads N cfg (n + t1) t2 q2 (ka @ ?k1 @ kb) (va @ ?v1 @ vb)" for q2 kb vb
    using attn_heads_append [OF assms(1) len, of "attn_q N cfg w n t1 x1" N t2 q2 kb vb] by simp
  have lin: "linear_serial N (aw_o_proj w) None (map2 f (attn_heads N cfg n t1 q ka' va') (attn_gate N cfg w t1 x1) @ y) (t1 + t2)
        (num_heads cfg * head_dim cfg) (ac_hidden cfg) =
      linear_serial N (aw_o_proj w) None (map2 f (attn_heads N cfg n t1 q ka' va') (attn_gate N cfg w t1 x1)) t1
        (num_heads cfg * head_dim cfg) (ac_hidden cfg) @
      linear_serial N (aw_o_proj w) None y t2 (num_heads cfg * head_dim cfg) (ac_hidden cfg)" for f q ka' va' y
    by (rule linear_serial_append) simp
  show ?thesis
    by (simp add: s attn_run_def Let_def parts heads lin add.assoc)
qed

lemma attn_run_length [simp]: "length (fst (attn_run N cfg w s t x)) = t * ac_hidden cfg"
  by (simp add: attn_run_def Let_def split_beta)

end
