(* ===== verification/Layer.thy ===== *)
theory Layer
  imports Attention
begin

text \<open>
  The decoder layer (\<open>gdn/src/layer.rs\<close>): the SwiGLU MLP, the choice of the token mixer and of its
  carried state, and the two residual additions. A mixer paired with the state of the other kind is
  an error, as in the code.
\<close>

record 'f MlpWeights =
  gate_proj :: "'f list"
  up_proj :: "'f list"
  down_proj :: "'f list"

record 'f MlpTrace =
  mt_gate_proj :: "'f list"
  mt_up_proj :: "'f list"
  mt_swiglu_product :: "'f list"
  mt_down_proj :: "'f list"

definition mlp_forward ::
  "('f, 'g) nops \<Rightarrow> 'f MlpWeights \<Rightarrow> 'f list \<Rightarrow> nat \<Rightarrow> nat \<Rightarrow> nat \<Rightarrow> net_error + 'f MlpTrace" where
  "mlp_forward N w x n hidden intermediate =
     try_bind (linear N (gate_proj w) None x n hidden intermediate) (\<lambda>gate.
     try_bind (linear N (up_proj w) None x n hidden intermediate) (\<lambda>up.
     let product = map (\<lambda>i. fmul N (silu N (gate ! i)) (up ! i)) [0..<n * intermediate] in
     try_bind (linear N (down_proj w) None product n intermediate hidden) (\<lambda>down.
     Inr \<lparr>mt_gate_proj = gate, mt_up_proj = up, mt_swiglu_product = product, mt_down_proj = down\<rparr>)))"

datatype 'f Mixer =
    LinearMixer "'f GdnConfig" "'f GdnWeights"
  | FullMixer "'f AttnConfig" "'f AttnWeights"

datatype 'f MixerTrace = LinearTrace "'f GdnTrace" | FullTrace "'f AttnTrace"

fun mixer_output :: "'f MixerTrace \<Rightarrow> 'f list" where
  "mixer_output (LinearTrace t) = gt_out_proj t"
| "mixer_output (FullTrace t) = at_o_proj t"

datatype 'f MixerState = LinearState "'f GdnState" | FullState "'f AttnState"

fun MixerState_bytes :: "'f MixerState \<Rightarrow> nat" where
  "MixerState_bytes (LinearState g) = GdnState_bytes g"
| "MixerState_bytes (FullState a) = AttnState_bytes a"

record 'f LayerWeights =
  lw_input_layernorm :: "'f list"
  lw_post_attention_layernorm :: "'f list"
  lw_mlp :: "'f MlpWeights"

record 'f LayerTrace =
  lt_input_layernorm :: "'f list"
  lt_mixer :: "'f MixerTrace"
  lt_after_first_residual :: "'f list"
  lt_post_attention_layernorm :: "'f list"
  lt_mlp :: "'f MlpTrace"
  lt_out :: "'f list"

definition layer_forward_from_mixer ::
  "('f, 'g) nops \<Rightarrow> 'f LayerWeights \<Rightarrow> 'f list \<Rightarrow> 'f list \<Rightarrow> 'f MixerTrace \<Rightarrow> nat \<Rightarrow> 'f \<Rightarrow> net_error + 'f LayerTrace" where
  "layer_forward_from_mixer N lw layer_input ln_out mixer n eps =
     (let hidden = length (lw_input_layernorm lw); mixer_out = mixer_output mixer in
      assert_that (length layer_input = n * hidden) (
      assert_that (length mixer_out = n * hidden) (
      assert_that (length ln_out = n * hidden) (
      let after_first = map (\<lambda>i. fadd N (layer_input ! i) (mixer_out ! i)) [0..<n * hidden] in
      try_bind (rmsnorm_1plus N (lw_post_attention_layernorm lw) after_first n hidden eps) (\<lambda>post_ln.
      assert_that (hidden \<noteq> 0) (
      let intermediate = length (gate_proj (lw_mlp lw)) div hidden in
      try_bind (mlp_forward N (lw_mlp lw) post_ln n hidden intermediate) (\<lambda>mlp.
      let out = map (\<lambda>i. fadd N (after_first ! i) (mt_down_proj mlp ! i)) [0..<length after_first] in
      Inr \<lparr>lt_input_layernorm = ln_out, lt_mixer = mixer, lt_after_first_residual = after_first,
           lt_post_attention_layernorm = post_ln, lt_mlp = mlp, lt_out = out\<rparr>)))))))"

definition run_mixer ::
  "('f, 'g) nops \<Rightarrow> 'f Mixer \<Rightarrow> 'f list \<Rightarrow> nat \<Rightarrow> nat \<Rightarrow> ('f list \<times> 'f list) option \<Rightarrow> 'f MixerState option \<Rightarrow>
   net_error + 'f MixerTrace \<times> 'f MixerState option" where
  "run_mixer N mixer ln b t rope state =
     (case mixer of
        LinearMixer cfg gw \<Rightarrow>
          (case state of
             None \<Rightarrow> try_bind (gdn_forward N cfg gw ln b t) (\<lambda>tr. Inr (LinearTrace tr, None))
           | Some (LinearState st) \<Rightarrow>
               try_bind (gdn_forward_with_state N cfg gw ln b t st) (\<lambda>(tr, st). Inr (LinearTrace tr, Some (LinearState st)))
           | Some (FullState _) \<Rightarrow> Inl AttentionStateForLinear)
      | FullMixer cfg aw \<Rightarrow>
          (case rope of
             None \<Rightarrow> Inl NoRope
           | Some (cs, sn) \<Rightarrow>
               (case state of
                  None \<Rightarrow> try_bind (attn_forward N cfg aw ln b t cs sn) (\<lambda>tr. Inr (FullTrace tr, None))
                | Some (FullState st) \<Rightarrow>
                    try_bind (attn_forward_with_state N cfg aw ln b t cs sn st)
                      (\<lambda>(tr, st). Inr (FullTrace tr, Some (FullState st)))
                | Some (LinearState _) \<Rightarrow> Inl LinearStateForAttention)))"

definition layer_forward_inner ::
  "('f, 'g) nops \<Rightarrow> 'f Mixer \<Rightarrow> 'f LayerWeights \<Rightarrow> 'f list \<Rightarrow> nat \<Rightarrow> nat \<Rightarrow> 'f \<Rightarrow> ('f list \<times> 'f list) option \<Rightarrow>
   'f MixerState option \<Rightarrow> net_error + 'f LayerTrace \<times> 'f MixerState option" where
  "layer_forward_inner N mixer lw hidden_in b t eps rope state =
     (let n = b * t; hidden = length (lw_input_layernorm lw) in
      assert_that (length hidden_in = n * hidden) (
      try_bind (rmsnorm_1plus N (lw_input_layernorm lw) hidden_in n hidden eps) (\<lambda>ln.
      try_bind (run_mixer N mixer ln b t rope state) (\<lambda>(trace, state).
      try_bind (layer_forward_from_mixer N lw hidden_in ln trace n eps) (\<lambda>tr.
      Inr (tr, state))))))"

definition layer_forward ::
  "('f, 'g) nops \<Rightarrow> 'f Mixer \<Rightarrow> 'f LayerWeights \<Rightarrow> 'f list \<Rightarrow> nat \<Rightarrow> nat \<Rightarrow> 'f \<Rightarrow> ('f list \<times> 'f list) option \<Rightarrow>
   net_error + 'f LayerTrace" where
  "layer_forward N mixer lw hidden_in b t eps rope =
     try_bind (layer_forward_inner N mixer lw hidden_in b t eps rope None) (\<lambda>(tr, _). Inr tr)"

definition layer_forward_with_state ::
  "('f, 'g) nops \<Rightarrow> 'f Mixer \<Rightarrow> 'f LayerWeights \<Rightarrow> 'f list \<Rightarrow> nat \<Rightarrow> nat \<Rightarrow> 'f \<Rightarrow> ('f list \<times> 'f list) option \<Rightarrow>
   'f MixerState \<Rightarrow> net_error + 'f LayerTrace \<times> 'f MixerState" where
  "layer_forward_with_state N mixer lw hidden_in b t eps rope st =
     try_bind (layer_forward_inner N mixer lw hidden_in b t eps rope (Some st))
       (\<lambda>(tr, st'). Inr (tr, case st' of Some s \<Rightarrow> s | None \<Rightarrow> st))"

section \<open>The layer on one sequence\<close>

definition mlp_ok :: "nat \<Rightarrow> 'f MlpWeights \<Rightarrow> bool" where
  "mlp_ok hidden w \<longleftrightarrow> (let m = length (gate_proj w) div hidden in
     length (gate_proj w) = m * hidden \<and> length (up_proj w) = m * hidden \<and> length (down_proj w) = hidden * m)"

definition layer_ok :: "nat \<Rightarrow> 'f LayerWeights \<Rightarrow> bool" where
  "layer_ok hidden lw \<longleftrightarrow> hidden \<noteq> 0 \<and> length (lw_input_layernorm lw) = hidden \<and>
     length (lw_post_attention_layernorm lw) = hidden \<and> mlp_ok hidden (lw_mlp lw)"

fun mixer_ok :: "nat \<Rightarrow> 'f Mixer \<Rightarrow> bool" where
  "mixer_ok hidden (LinearMixer cfg w) = (gdn_ok cfg w \<and> gc_hidden cfg = hidden)"
| "mixer_ok hidden (FullMixer cfg w) = (attn_ok cfg w \<and> ac_hidden cfg = hidden)"

text \<open>What a layer remembers: the state of the linear mixer, or the keys and values by position.\<close>

datatype 'f memory = LinearMem "'f GdnState" | FullMem "'f kv"

fun mem_rep :: "'f Mixer \<Rightarrow> nat \<Rightarrow> 'f memory \<Rightarrow> 'f MixerState \<Rightarrow> bool" where
  "mem_rep (LinearMixer cfg w) n (LinearMem g) (LinearState st) = (st = g \<and> gdn_state_ok cfg g)"
| "mem_rep (FullMixer cfg w) n (FullMem kv) (FullState st) = (kv_rep cfg kv st \<and> fst kv = n)"
| "mem_rep _ _ _ _ = False"

fun mixer_run :: "('f, 'g) nops \<Rightarrow> 'f Mixer \<Rightarrow> 'f memory \<Rightarrow> nat \<Rightarrow> 'f list \<Rightarrow> 'f list \<times> 'f memory" where
  "mixer_run N (LinearMixer cfg w) (LinearMem g) t x = (let (y, g) = gdn_run N cfg w g t x in (y, LinearMem g))"
| "mixer_run N (FullMixer cfg w) (FullMem kv) t x = (let (y, kv) = attn_run N cfg w kv t x in (y, FullMem kv))"
| "mixer_run N _ mem t x = ([], mem)"

definition mlp_run :: "('f, 'g) nops \<Rightarrow> 'f MlpWeights \<Rightarrow> nat \<Rightarrow> nat \<Rightarrow> 'f list \<Rightarrow> 'f list" where
  "mlp_run N w hidden t x =
     (let m = length (gate_proj w) div hidden
      in linear_serial N (down_proj w) None
           (map2 (\<lambda>g u. fmul N (silu N g) u) (linear_serial N (gate_proj w) None x t hidden m)
              (linear_serial N (up_proj w) None x t hidden m)) t m hidden)"

definition norm_run :: "('f, 'g) nops \<Rightarrow> 'f list \<Rightarrow> 'f \<Rightarrow> nat \<Rightarrow> 'f list \<Rightarrow> 'f list" where
  "norm_run N w eps t x = row_map (norm_1plus_row N w (length w) eps) (length w) t x"

definition layer_run ::
  "('f, 'g) nops \<Rightarrow> 'f \<Rightarrow> 'f Mixer \<Rightarrow> 'f LayerWeights \<Rightarrow> 'f memory \<Rightarrow> nat \<Rightarrow> 'f list \<Rightarrow> 'f list \<times> 'f memory" where
  "layer_run N eps mixer lw mem t x =
     (let (y, mem) = mixer_run N mixer mem t (norm_run N (lw_input_layernorm lw) eps t x);
          after = map2 (fadd N) x y
      in (map2 (fadd N) after
            (mlp_run N (lw_mlp lw) (length (lw_input_layernorm lw)) t (norm_run N (lw_post_attention_layernorm lw) eps t after)),
          mem))"

lemma length_norm_run [simp]: "length (norm_run N w eps t x) = t * length w"
  by (simp add: norm_run_def)

lemma norm_run_ok: "length x = t * length w \<Longrightarrow> rmsnorm_1plus N w x t (length w) eps = Inr (norm_run N w eps t x)"
  by (simp add: rmsnorm_1plus_def norm_run_def)

lemma norm_run_append [chunked]:
  "length x = n * length w \<Longrightarrow> norm_run N w eps (n + m) (x @ y) = norm_run N w eps n x @ norm_run N w eps m y"
  unfolding norm_run_def by (rule row_map_append)

lemma length_mlp_run [simp]: "length (mlp_run N w hidden t x) = t * hidden"
  by (simp add: mlp_run_def Let_def)

lemma mlp_forward_run:
  assumes "mlp_ok hidden w" and "length x = t * hidden"
  shows "\<exists>tr. mlp_forward N w x t hidden (length (gate_proj w) div hidden) = Inr tr \<and> mt_down_proj tr = mlp_run N w hidden t x"
proof -
  let ?m = "length (gate_proj w) div hidden"
  let ?g = "linear_serial N (gate_proj w) None x t hidden ?m" and ?u = "linear_serial N (up_proj w) None x t hidden ?m"
  have ok: "length (gate_proj w) = ?m * hidden" "length (up_proj w) = ?m * hidden" "length (down_proj w) = hidden * ?m"
    using assms(1) by (simp_all add: mlp_ok_def Let_def)
  note lin = linear_ok [OF _ assms(2), where N = N]
  have prod: "map (\<lambda>i. fmul N (silu N (?g ! i)) (?u ! i)) [0..<t * ?m] = map2 (\<lambda>g u. fmul N (silu N g) u) ?g ?u"
    by (rule map_nth_map2 [where f = "\<lambda>g u. fmul N (silu N g) u"]) simp_all
  have "linear N (down_proj w) None (map2 (\<lambda>g u. fmul N (silu N g) u) ?g ?u) t ?m hidden =
      Inr (linear_serial N (down_proj w) None (map2 (\<lambda>g u. fmul N (silu N g) u) ?g ?u) t ?m hidden)"
    by (rule linear_ok [OF ok(3)]) simp
  then show ?thesis
    using lin [OF ok(1)] lin [OF ok(2)] prod by (simp add: mlp_forward_def mlp_run_def Let_def)
qed

lemma mlp_run_append:
  assumes "length x1 = t1 * hidden"
  shows "mlp_run N w hidden (t1 + t2) (x1 @ x2) = mlp_run N w hidden t1 x1 @ mlp_run N w hidden t2 x2"
proof -
  note lin = linear_serial_append [OF assms]
  show ?thesis unfolding mlp_run_def Let_def lin by (subst zip_append) (simp_all add: linear_serial_append)
qed

lemma mixer_run_length:
  "mixer_ok hidden mx \<Longrightarrow> mem_rep mx n mem st \<Longrightarrow> length (fst (mixer_run N mx mem t x)) = t * hidden"
  by (cases "(mx, n, mem, st)" rule: mem_rep.cases) (auto simp: Let_def split_beta)

lemma mixer_run_append:
  assumes "mixer_ok hidden mx" and "mem_rep mx n mem st" and "length x1 = t1 * hidden"
  shows "mixer_run N mx mem (t1 + t2) (x1 @ x2) =
    (fst (mixer_run N mx mem t1 x1) @ fst (mixer_run N mx (snd (mixer_run N mx mem t1 x1)) t2 x2),
     snd (mixer_run N mx (snd (mixer_run N mx mem t1 x1)) t2 x2))"
proof (cases "(mx, n, mem, st)" rule: mem_rep.cases)
  case (1 cfg w n g st)
  then show ?thesis
    using assms gdn_run_append [of cfg w g x1 t1 N t2 x2] by (simp add: Let_def split_beta)
next
  case (2 cfg w n kv st)
  then show ?thesis
    using assms attn_run_append [of cfg w kv st x1 t1 N t2 x2] by (simp add: Let_def split_beta)
qed (use assms in auto)

lemma run_mixer_state:
  assumes "mixer_ok hidden mx" and "mem_rep mx n mem st" and "length x = t * hidden"
    and "\<And>cfg w. mx = FullMixer cfg w \<Longrightarrow> rope = Some (build_rope N cfg t n)"
  shows "\<exists>tr st'. run_mixer N mx x 1 t rope (Some st) = Inr (tr, Some st') \<and>
    mixer_output tr = fst (mixer_run N mx mem t x) \<and> mem_rep mx (n + t) (snd (mixer_run N mx mem t x)) st'"
proof (cases "(mx, n, mem, st)" rule: mem_rep.cases)
  case (1 cfg w n' g st)
  then show ?thesis
    using assms(1-3) gdn_forward_with_state_run [of cfg w g x t N] gdn_run_state_ok [of cfg g N w t x]
    by (auto simp: run_mixer_def Let_def split_beta)
next
  case (2 cfg w n' kv st)
  obtain c s where cs: "build_rope N cfg t n = (c, s)" by fastforce
  have len: "fst (snd (attn_run N cfg w kv t x)) = fst kv + t" by (simp add: attn_run_def Let_def split_beta)
  show ?thesis
    using 2 assms cs attn_forward_impl_run [of cfg w kv st x t N c s] len
    by (auto simp: run_mixer_def attn_forward_with_state_def Let_def split_beta)
qed (use assms in auto)
text \<open>The memory a sequence starts from, with which the stateless entry points agree.\<close>

fun fresh_mem :: "('f, 'g) nops \<Rightarrow> 'f Mixer \<Rightarrow> 'f memory" where
  "fresh_mem N (LinearMixer cfg w) = LinearMem (GdnState_new N cfg 1)"
| "fresh_mem N (FullMixer cfg w) = FullMem (0, [], [])"

fun fresh_state :: "('f, 'g) nops \<Rightarrow> 'f Mixer \<Rightarrow> 'f MixerState" where
  "fresh_state N (LinearMixer cfg w) = LinearState (GdnState_new N cfg 1)"
| "fresh_state N (FullMixer cfg w) = FullState AttnState_new"

lemma run_mixer_none:
  assumes "mixer_ok hidden mx" and "length x = t * hidden"
    and "\<And>cfg w. mx = FullMixer cfg w \<Longrightarrow> rope = Some (build_rope N cfg t 0)"
  shows "\<exists>tr. run_mixer N mx x 1 t rope None = Inr (tr, None) \<and>
    mixer_output tr = fst (mixer_run N mx (fresh_mem N mx) t x)"
proof (cases mx)
  case (LinearMixer cfg w)
  then show ?thesis
    using assms(1,2) gdn_forward_run [of cfg w x t N]
    by (auto simp: run_mixer_def Let_def split_beta)
next
  case (FullMixer cfg w)
  obtain c s where cs: "build_rope N cfg t 0 = (c, s)" by fastforce
  show ?thesis
    using FullMixer assms cs attn_forward_impl_none [of cfg w x t N c s]
    by (auto simp: run_mixer_def Let_def split_beta)
qed

lemma layer_forward_from_mixer_run:
  assumes "layer_ok hidden lw" and "length x = t * hidden" and "length (mixer_output tr) = t * hidden"
    and "ln = norm_run N (lw_input_layernorm lw) eps t x"
    and "mixer_output tr = fst (mixer_run N mx mem t ln)"
  shows "\<exists>ltr. layer_forward_from_mixer N lw x ln tr t eps = Inr ltr \<and> lt_out ltr = fst (layer_run N eps mx lw mem t x)"
proof -
  let ?y = "mixer_output tr" and ?p = "lw_post_attention_layernorm lw"
  let ?a = "map2 (fadd N) x ?y"
  have h: "hidden \<noteq> 0" "length (lw_input_layernorm lw) = hidden" "length ?p = hidden" "mlp_ok hidden (lw_mlp lw)"
    using assms(1) by (simp_all add: layer_ok_def)
  have len: "length ?a = t * hidden" using assms(2,3) by simp
  have after: "map (\<lambda>i. fadd N (x ! i) (?y ! i)) [0..<t * hidden] = ?a"
    by (rule map_nth_map2) (use assms in simp_all)
  have norm: "rmsnorm_1plus N ?p ?a t hidden eps = Inr (norm_run N ?p eps t ?a)"
    using norm_run_ok [of ?a t ?p N eps] len h(3) by simp
  obtain m where m: "mlp_forward N (lw_mlp lw) (norm_run N ?p eps t ?a) t hidden (length (gate_proj (lw_mlp lw)) div hidden) = Inr m"
    and d: "mt_down_proj m = mlp_run N (lw_mlp lw) hidden t (norm_run N ?p eps t ?a)"
    using mlp_forward_run [OF h(4), of "norm_run N ?p eps t ?a" t N] h(3) by auto
  have out: "map (\<lambda>i. fadd N (?a ! i) (mt_down_proj m ! i)) [0..<t * hidden] = map2 (fadd N) ?a (mt_down_proj m)"
    by (rule map_nth_map2) (use len d in simp_all)
  have "fst (layer_run N eps mx lw mem t x) = map2 (fadd N) ?a (mt_down_proj m)"
    using assms(4,5) h(2) d by (simp add: layer_run_def Let_def case_prod_unfold)
  then show ?thesis
    using h(1,2) assms(2-4) after norm m out len by (simp add: layer_forward_from_mixer_def Let_def)
qed

lemma layer_forward_with_state_run:
  assumes "layer_ok hidden lw" and "mixer_ok hidden mx" and "mem_rep mx n mem st" and "length x = t * hidden"
    and "\<And>cfg w. mx = FullMixer cfg w \<Longrightarrow> rope = Some (build_rope N cfg t n)"
  shows "\<exists>tr st'. layer_forward_with_state N mx lw x 1 t eps rope st = Inr (tr, st') \<and>
    lt_out tr = fst (layer_run N eps mx lw mem t x) \<and> mem_rep mx (n + t) (snd (layer_run N eps mx lw mem t x)) st'"
proof -
  let ?ln = "norm_run N (lw_input_layernorm lw) eps t x"
  have h: "length (lw_input_layernorm lw) = hidden" using assms(1) by (simp add: layer_ok_def)
  have ln: "rmsnorm_1plus N (lw_input_layernorm lw) x t hidden eps = Inr ?ln"
    using norm_run_ok [of x t "lw_input_layernorm lw" N eps] h assms(4) by simp
  obtain mt st' where m: "run_mixer N mx ?ln 1 t rope (Some st) = Inr (mt, Some st')"
      "mixer_output mt = fst (mixer_run N mx mem t ?ln)" "mem_rep mx (n + t) (snd (mixer_run N mx mem t ?ln)) st'"
    using run_mixer_state [OF assms(2,3), of ?ln t rope N] assms(5) h by auto
  have "length (mixer_output mt) = t * hidden" using mixer_run_length [OF assms(2,3)] m(2) by simp
  then show ?thesis
    using layer_forward_from_mixer_run [OF assms(1,4) _ refl m(2)] h ln m assms(4)
    by (auto simp: layer_forward_with_state_def layer_forward_inner_def Let_def layer_run_def case_prod_unfold)
qed

lemma fresh_mem_rep: "mixer_ok hidden mx \<Longrightarrow> mem_rep mx 0 (fresh_mem N mx) (fresh_state N mx)"
  by (cases mx) (simp_all add: kv_rep_new GdnState_new_ok [simplified])

lemma layer_forward_run:
  assumes "layer_ok hidden lw" and "mixer_ok hidden mx" and "length x = t * hidden"
    and "\<And>cfg w. mx = FullMixer cfg w \<Longrightarrow> rope = Some (build_rope N cfg t 0)"
  shows "\<exists>tr. layer_forward N mx lw x 1 t eps rope = Inr tr \<and>
    lt_out tr = fst (layer_run N eps mx lw (fresh_mem N mx) t x)"
proof -
  let ?ln = "norm_run N (lw_input_layernorm lw) eps t x"
  have h: "length (lw_input_layernorm lw) = hidden" using assms(1) by (simp add: layer_ok_def)
  have ln: "rmsnorm_1plus N (lw_input_layernorm lw) x t hidden eps = Inr ?ln"
    using norm_run_ok [of x t "lw_input_layernorm lw" N eps] h assms(3) by simp
  obtain mt where m: "run_mixer N mx ?ln 1 t rope None = Inr (mt, None)"
      "mixer_output mt = fst (mixer_run N mx (fresh_mem N mx) t ?ln)"
    using run_mixer_none [OF assms(2), of ?ln t rope N] assms(4) h by auto
  have "length (mixer_output mt) = t * hidden"
    using mixer_run_length [OF assms(2) fresh_mem_rep [OF assms(2)]] m(2) by simp
  then show ?thesis
    using layer_forward_from_mixer_run [OF assms(1,3) _ refl m(2)] h ln m assms(3)
    by (auto simp: layer_forward_def layer_forward_inner_def Let_def case_prod_unfold)
qed

lemma layer_run_length:
  "layer_ok hidden lw \<Longrightarrow> mixer_ok hidden mx \<Longrightarrow> mem_rep mx n mem st \<Longrightarrow> length x = t * hidden \<Longrightarrow>
   length (fst (layer_run N eps mx lw mem t x)) = t * hidden"
  by (simp add: layer_run_def Let_def case_prod_unfold mixer_run_length layer_ok_def)

lemma layer_run_append:
  assumes "layer_ok hidden lw" and "mixer_ok hidden mx" and "mem_rep mx n mem st"
    and "length x1 = t1 * hidden"
  shows "layer_run N eps mx lw mem (t1 + t2) (x1 @ x2) =
    (fst (layer_run N eps mx lw mem t1 x1) @ fst (layer_run N eps mx lw (snd (layer_run N eps mx lw mem t1 x1)) t2 x2),
     snd (layer_run N eps mx lw (snd (layer_run N eps mx lw mem t1 x1)) t2 x2))"
proof -
  let ?ln = "norm_run N (lw_input_layernorm lw) eps"
  have h: "length (lw_input_layernorm lw) = hidden" "length (lw_post_attention_layernorm lw) = hidden"
    using assms(1) by (simp_all add: layer_ok_def)
  have ln: "?ln (t1 + t2) (x1 @ x2) = ?ln t1 x1 @ ?ln t2 x2" by (rule norm_run_append) (use h assms in simp)
  have y1: "length (fst (mixer_run N mx mem t1 (?ln t1 x1))) = t1 * hidden"
    by (rule mixer_run_length [OF assms(2,3)])
  note mix = mixer_run_append [OF assms(2,3), of "?ln t1 x1" t1 N t2 "?ln t2 x2"]
  show ?thesis
    using assms(4) h y1 mix
    by (simp add: layer_run_def Let_def case_prod_unfold ln norm_run_append mlp_run_append)
qed

end
