(* ===== verification/Model.thy ===== *)
theory Model
  imports Layer
begin

text \<open>
  The whole network (\<open>gdn/src/model.rs\<close>): embedding, the stack of layers, the final norm and the
  head; the cache that continues a sequence chunk by chunk; and the greedy and sampling loops, with
  and without the cache. Token ids are natural numbers; the cast of an index to \<open>u32\<close> is written
  out. A function that changes the cache returns the changed cache next to its result, and after an
  error the cache is not described: every loop of the file drops it there.
\<close>

section \<open>The model and its forward pass\<close>

datatype LayerKind = LinearAttention | FullAttention

record 'f ModelConfig =
  mc_vocab :: nat
  mc_hidden :: nat
  mc_eps :: 'f
  mc_gdn :: "'f GdnConfig"
  mc_attn :: "'f AttnConfig"

record 'f LayerWeightsAll =
  la_kind :: LayerKind
  la_layer :: "'f LayerWeights"
  la_gdn :: "'f GdnWeights option"
  la_attn :: "'f AttnWeights option"

definition mixer :: "'f LayerWeightsAll \<Rightarrow> 'f ModelConfig \<Rightarrow> net_error + 'f Mixer" where
  "mixer lw mcfg =
     (case la_kind lw of
        LinearAttention \<Rightarrow> try_bind (ok_or (la_gdn lw) NoGdnWeights) (\<lambda>w. Inr (LinearMixer (mc_gdn mcfg) w))
      | FullAttention \<Rightarrow> try_bind (ok_or (la_attn lw) NoAttnWeights) (\<lambda>w. Inr (FullMixer (mc_attn mcfg) w)))"

record 'f ModelWeights =
  mw_embed_tokens :: "'f list"
  mw_final_norm :: "'f list"
  mw_lm_head :: "'f list"
  mw_layers :: "'f LayerWeightsAll list"

record 'f ModelTrace =
  mtr_embedding :: "'f list"
  mtr_layers :: "'f LayerTrace list"
  mtr_final_norm :: "'f list"
  mtr_logits :: "'f list"
  mtr_t :: nat
  mtr_vocab :: nat

definition last_logits :: "'f ModelTrace \<Rightarrow> net_error + 'f list" where
  "last_logits tr =
     assert_that (mtr_t tr \<noteq> 0 \<and> (mtr_t tr - 1) * mtr_vocab tr \<le> length (mtr_logits tr))
       (Inr (drop ((mtr_t tr - 1) * mtr_vocab tr) (mtr_logits tr)))"

definition first_max :: "('f, 'g) nops \<Rightarrow> 'f list \<Rightarrow> nat" where
  "first_max N l = foldl (\<lambda>best i. if f_lt (f32 N) (l ! best) (l ! i) then i else best) 0 [0..<length l]"

definition argmax_last :: "('f, 'g) nops \<Rightarrow> 'f ModelTrace \<Rightarrow> net_error + nat" where
  "argmax_last N tr = try_bind (last_logits tr) (\<lambda>l. Inr (first_max N l))"

primrec embed :: "'f list \<Rightarrow> nat list \<Rightarrow> nat \<Rightarrow> nat \<Rightarrow> net_error + 'f list" where
  "embed w [] vocab hidden = Inr []"
| "embed w (tok # ids) vocab hidden =
     guard_err (vocab \<le> tok) TokenOutOfRange (
     assert_that ((tok + 1) * hidden \<le> length w) (
     try_bind (embed w ids vocab hidden) (\<lambda>out. Inr (slice w (tok * hidden) hidden @ out))))"

primrec forward_layers ::
  "('f, 'g) nops \<Rightarrow> 'f ModelConfig \<Rightarrow> ('f list \<times> 'f list) \<Rightarrow> nat \<Rightarrow> 'f LayerWeightsAll list \<Rightarrow> 'f list \<Rightarrow>
   net_error + 'f LayerTrace list \<times> 'f list" where
  "forward_layers N mcfg rope t [] h = Inr ([], h)"
| "forward_layers N mcfg rope t (lw # lws) h =
     try_bind (mixer lw mcfg) (\<lambda>mx.
     try_bind (layer_forward N mx (la_layer lw) h 1 t (mc_eps mcfg) (Some rope)) (\<lambda>tr.
     try_bind (forward_layers N mcfg rope t lws (lt_out tr)) (\<lambda>(trs, h). Inr (tr # trs, h))))"

text \<open>The final norm, the head and the trace: the last statements of both forward passes.\<close>

definition model_head ::
  "('f, 'g) nops \<Rightarrow> 'f ModelConfig \<Rightarrow> 'f ModelWeights \<Rightarrow> 'f list \<Rightarrow> 'f LayerTrace list \<Rightarrow> 'f list \<Rightarrow> nat \<Rightarrow>
   net_error + 'f ModelTrace" where
  "model_head N mcfg w embedding layers h t =
     try_bind (rmsnorm_1plus N (mw_final_norm w) h t (mc_hidden mcfg) (mc_eps mcfg)) (\<lambda>fnorm.
     try_bind (linear N (mw_lm_head w) None fnorm t (mc_hidden mcfg) (mc_vocab mcfg)) (\<lambda>logits.
     Inr \<lparr>mtr_embedding = embedding, mtr_layers = layers, mtr_final_norm = fnorm, mtr_logits = logits,
          mtr_t = t, mtr_vocab = mc_vocab mcfg\<rparr>))"

definition forward ::
  "('f, 'g) nops \<Rightarrow> 'f ModelConfig \<Rightarrow> 'f ModelWeights \<Rightarrow> nat list \<Rightarrow> net_error + 'f ModelTrace" where
  "forward N mcfg w input_ids =
     (let t = length input_ids in
      guard_err (t = 0) EmptyInput (
      guard_err (mc_vocab mcfg * mc_hidden mcfg \<noteq> length (mw_embed_tokens w)) EmbedSize (
      try_bind (embed (mw_embed_tokens w) input_ids (mc_vocab mcfg) (mc_hidden mcfg)) (\<lambda>embedding.
      let rope = build_rope N (mc_attn mcfg) t 0 in
      try_bind (forward_layers N mcfg rope t (mw_layers w) embedding) (\<lambda>(layer_traces, h).
      model_head N mcfg w embedding layer_traces h t)))))"

section \<open>The cache\<close>

record 'f Cache =
  c_states :: "'f MixerState list"
  c_len :: nat

definition Cache_new :: "('f, 'g) nops \<Rightarrow> 'f ModelConfig \<Rightarrow> 'f ModelWeights \<Rightarrow> nat \<Rightarrow> 'f Cache" where
  "Cache_new N mcfg w b =
     \<lparr>c_states = map (\<lambda>lw. case la_kind lw of
          LinearAttention \<Rightarrow> LinearState (GdnState_new N (mc_gdn mcfg) b)
        | FullAttention \<Rightarrow> FullState AttnState_new) (mw_layers w),
      c_len = 0\<rparr>"

definition Cache_bytes :: "'f Cache \<Rightarrow> nat" where
  "Cache_bytes c = sum_list (map MixerState_bytes (c_states c))"

definition bytes_by_kind :: "'f Cache \<Rightarrow> nat \<times> nat" where
  "bytes_by_kind c =
     foldl (\<lambda>(lin, full) s. case s of
         LinearState g \<Rightarrow> (lin + GdnState_bytes g, full)
       | FullState a \<Rightarrow> (lin, full + AttnState_bytes a)) (0, 0) (c_states c)"

fun forward_cached_layers ::
  "('f, 'g) nops \<Rightarrow> 'f ModelConfig \<Rightarrow> ('f list \<times> 'f list) \<Rightarrow> nat \<Rightarrow> 'f LayerWeightsAll list \<Rightarrow> 'f MixerState list \<Rightarrow>
   'f list \<Rightarrow> net_error + 'f LayerTrace list \<times> 'f MixerState list \<times> 'f list" where
  "forward_cached_layers N mcfg rope t [] sts h = Inr ([], sts, h)"
| "forward_cached_layers N mcfg rope t (lw # lws) [] h = Inl Panicked"
| "forward_cached_layers N mcfg rope t (lw # lws) (st # sts) h =
     try_bind (mixer lw mcfg) (\<lambda>mx.
     try_bind (layer_forward_with_state N mx (la_layer lw) h 1 t (mc_eps mcfg) (Some rope) st) (\<lambda>(tr, st).
     try_bind (forward_cached_layers N mcfg rope t lws sts (lt_out tr)) (\<lambda>(trs, sts, h). Inr (tr # trs, st # sts, h))))"

definition forward_cached ::
  "('f, 'g) nops \<Rightarrow> 'f ModelConfig \<Rightarrow> 'f ModelWeights \<Rightarrow> 'f Cache \<Rightarrow> nat list \<Rightarrow>
   net_error + 'f ModelTrace \<times> 'f Cache" where
  "forward_cached N mcfg w cache tokens =
     (let t = length tokens; start = c_len cache in
      guard_err (t = 0) EmptyChunk (
      guard_err (length (c_states cache) \<noteq> length (mw_layers w)) CacheLayers (
      try_bind (embed (mw_embed_tokens w) tokens (mc_vocab mcfg) (mc_hidden mcfg)) (\<lambda>embedding.
      let rope = build_rope N (mc_attn mcfg) t start in
      try_bind (forward_cached_layers N mcfg rope t (mw_layers w) (c_states cache) embedding) (\<lambda>(layer_traces, states, h).
      let cache = \<lparr>c_states = states, c_len = start + t\<rparr> in
      try_bind (model_head N mcfg w embedding layer_traces h t) (\<lambda>tr. Inr (tr, cache)))))))"

section \<open>Decoding\<close>

definition as_u32 :: "nat \<Rightarrow> nat" where "as_u32 n = n mod 2 ^ 32"

primrec greedy_steps ::
  "('f, 'g) nops \<Rightarrow> 'f ModelConfig \<Rightarrow> 'f ModelWeights \<Rightarrow> nat list \<Rightarrow> nat \<Rightarrow> 'f Cache \<Rightarrow> 'f ModelTrace \<Rightarrow> nat list \<Rightarrow>
   'f ModelTrace list \<Rightarrow> net_error + nat list \<times> 'f ModelTrace list \<times> bool" where
  "greedy_steps N mcfg w stop 0 cache tr generated traces = Inr (generated, traces, False)"
| "greedy_steps N mcfg w stop (Suc n) cache tr generated traces =
     try_bind (argmax_last N tr) (\<lambda>best.
     let nxt = as_u32 best in
     if nxt \<in> set stop then Inr (generated, traces, True)
     else
       try_bind (forward_cached N mcfg w cache [nxt]) (\<lambda>(tr', cache).
       greedy_steps N mcfg w stop n cache tr' (generated @ [nxt]) (traces @ [tr])))"

definition greedy_cached_stopping ::
  "('f, 'g) nops \<Rightarrow> 'f ModelConfig \<Rightarrow> 'f ModelWeights \<Rightarrow> nat list \<Rightarrow> nat \<Rightarrow> nat list \<Rightarrow>
   net_error + nat list \<times> 'f ModelTrace list \<times> bool" where
  "greedy_cached_stopping N mcfg w prompt steps stop =
     guard_err (prompt = []) EmptyPrompt (
     try_bind (forward_cached N mcfg w (Cache_new N mcfg w 1) prompt) (\<lambda>(tr, cache).
     greedy_steps N mcfg w stop steps cache tr [] []))"

definition greedy_cached ::
  "('f, 'g) nops \<Rightarrow> 'f ModelConfig \<Rightarrow> 'f ModelWeights \<Rightarrow> nat list \<Rightarrow> nat \<Rightarrow> net_error + nat list \<times> 'f ModelTrace list" where
  "greedy_cached N mcfg w prompt steps =
     try_bind (greedy_cached_stopping N mcfg w prompt steps []) (\<lambda>(ids, traces, _). Inr (ids, traces))"

primrec sample_steps ::
  "('f, 'g) nops \<Rightarrow> (nat \<Rightarrow> 'g) \<Rightarrow> 'f ModelConfig \<Rightarrow> 'f ModelWeights \<Rightarrow> nat list \<Rightarrow> nat \<Rightarrow> 'g Sampler \<Rightarrow> 'f Cache \<Rightarrow>
   'f ModelTrace \<Rightarrow> nat list \<Rightarrow> nat list \<Rightarrow> 'f ModelTrace list \<Rightarrow>
   (net_error + nat list \<times> 'f ModelTrace list \<times> bool) \<times> 'g Sampler" where
  "sample_steps N scale53 mcfg w stop 0 sa cache tr history generated traces = (Inr (generated, traces, False), sa)"
| "sample_steps N scale53 mcfg w stop (Suc n) sa cache tr history generated traces =
     (case last_logits tr of
        Inl e \<Rightarrow> (Inl e, sa)
      | Inr logits \<Rightarrow>
          if \<not> list_all (f_finite (f32 N)) logits then (Inl NonFiniteLogits, sa)
          else
            (case sampler_next (n_ops N) scale53 sa logits history of
               (Inl e, sa) \<Rightarrow> (Inl (SamplerFailed e), sa)
             | (Inr i, sa) \<Rightarrow>
                 let nxt = as_u32 i in
                 if nxt \<in> set stop then (Inr (generated, traces, True), sa)
                 else
                   (case forward_cached N mcfg w cache [nxt] of
                      Inl e \<Rightarrow> (Inl e, sa)
                    | Inr (tr', cache) \<Rightarrow>
                        sample_steps N scale53 mcfg w stop n sa cache tr' (history @ [nxt]) (generated @ [nxt])
                          (traces @ [tr]))))"

definition sample_stopping ::
  "('f, 'g) nops \<Rightarrow> (nat \<Rightarrow> 'g) \<Rightarrow> 'f ModelConfig \<Rightarrow> 'f ModelWeights \<Rightarrow> nat list \<Rightarrow> nat \<Rightarrow> 'g Sampler \<Rightarrow> nat list \<Rightarrow>
   (net_error + nat list \<times> 'f ModelTrace list \<times> bool) \<times> 'g Sampler" where
  "sample_stopping N scale53 mcfg w prompt steps sa stop =
     (if prompt = [] then (Inl EmptyPrompt, sa)
      else
        (case forward_cached N mcfg w (Cache_new N mcfg w 1) prompt of
           Inl e \<Rightarrow> (Inl e, sa)
         | Inr (tr, cache) \<Rightarrow> sample_steps N scale53 mcfg w stop steps sa cache tr prompt [] []))"

primrec greedy_uncached_steps ::
  "('f, 'g) nops \<Rightarrow> 'f ModelConfig \<Rightarrow> 'f ModelWeights \<Rightarrow> nat \<Rightarrow> nat list \<Rightarrow> nat list \<Rightarrow> 'f ModelTrace list \<Rightarrow>
   net_error + nat list \<times> 'f ModelTrace list" where
  "greedy_uncached_steps N mcfg w 0 ids generated traces = Inr (generated, traces)"
| "greedy_uncached_steps N mcfg w (Suc n) ids generated traces =
     try_bind (forward N mcfg w ids) (\<lambda>tr.
     try_bind (argmax_last N tr) (\<lambda>best.
     let nxt = as_u32 best in
     greedy_uncached_steps N mcfg w n (ids @ [nxt]) (generated @ [nxt]) (traces @ [tr])))"

definition greedy ::
  "('f, 'g) nops \<Rightarrow> 'f ModelConfig \<Rightarrow> 'f ModelWeights \<Rightarrow> nat list \<Rightarrow> nat \<Rightarrow> net_error + nat list \<times> 'f ModelTrace list" where
  "greedy N mcfg w prompt steps = greedy_uncached_steps N mcfg w steps prompt [] []"

section \<open>The stack on one sequence\<close>

fun lift_ok :: "nat \<Rightarrow> net_error + 'f Mixer \<Rightarrow> bool" where
  "lift_ok hidden (Inr mx) = mixer_ok hidden mx"
| "lift_ok hidden (Inl e) = False"

text \<open>The shapes the loader establishes: one mixer of its kind per layer, every tensor of its size.\<close>

definition layers_ok :: "'f ModelConfig \<Rightarrow> 'f LayerWeightsAll list \<Rightarrow> bool" where
  "layers_ok mcfg lws \<longleftrightarrow>
     list_all (\<lambda>lw. lift_ok (mc_hidden mcfg) (mixer lw mcfg) \<and> layer_ok (mc_hidden mcfg) (la_layer lw)) lws"

definition model_ok :: "'f ModelConfig \<Rightarrow> 'f ModelWeights \<Rightarrow> bool" where
  "model_ok mcfg w \<longleftrightarrow> mc_hidden mcfg \<noteq> 0 \<and> length (mw_embed_tokens w) = mc_vocab mcfg * mc_hidden mcfg \<and>
     length (mw_final_norm w) = mc_hidden mcfg \<and> length (mw_lm_head w) = mc_vocab mcfg * mc_hidden mcfg \<and>
     layers_ok mcfg (mw_layers w)"

fun mems_rep :: "'f ModelConfig \<Rightarrow> nat \<Rightarrow> 'f LayerWeightsAll list \<Rightarrow> 'f memory list \<Rightarrow> 'f MixerState list \<Rightarrow> bool" where
  "mems_rep mcfg n [] [] [] = True"
| "mems_rep mcfg n (lw # lws) (mem # mems) (st # sts) =
     ((\<exists>mx. mixer lw mcfg = Inr mx \<and> mem_rep mx n mem st) \<and> mems_rep mcfg n lws mems sts)"
| "mems_rep mcfg n _ _ _ = False"

fun stack_run ::
  "('f, 'g) nops \<Rightarrow> 'f ModelConfig \<Rightarrow> 'f LayerWeightsAll list \<Rightarrow> 'f memory list \<Rightarrow> nat \<Rightarrow> 'f list \<Rightarrow>
   'f list \<times> 'f memory list" where
  "stack_run N mcfg (lw # lws) (mem # mems) t x =
     (case mixer lw mcfg of
        Inl _ \<Rightarrow> (x, mem # mems)
      | Inr mx \<Rightarrow>
          let (y, mem) = layer_run N (mc_eps mcfg) mx (la_layer lw) mem t x;
              (z, mems) = stack_run N mcfg lws mems t y
          in (z, mem # mems))"
| "stack_run N mcfg _ mems t x = (x, mems)"

definition embed_rows :: "'f ModelConfig \<Rightarrow> 'f ModelWeights \<Rightarrow> nat list \<Rightarrow> 'f list" where
  "embed_rows mcfg w ids = concat (map (\<lambda>tok. slice (mw_embed_tokens w) (tok * mc_hidden mcfg) (mc_hidden mcfg)) ids)"

definition head_run :: "('f, 'g) nops \<Rightarrow> 'f ModelConfig \<Rightarrow> 'f ModelWeights \<Rightarrow> nat \<Rightarrow> 'f list \<Rightarrow> 'f list" where
  "head_run N mcfg w t h =
     linear_serial N (mw_lm_head w) None (norm_run N (mw_final_norm w) (mc_eps mcfg) t h) t (mc_hidden mcfg) (mc_vocab mcfg)"

definition model_run ::
  "('f, 'g) nops \<Rightarrow> 'f ModelConfig \<Rightarrow> 'f ModelWeights \<Rightarrow> 'f memory list \<Rightarrow> nat list \<Rightarrow> 'f list \<times> 'f memory list" where
  "model_run N mcfg w mems ids =
     (let (h, mems) = stack_run N mcfg (mw_layers w) mems (length ids) (embed_rows mcfg w ids)
      in (head_run N mcfg w (length ids) h, mems))"

definition fresh_mems :: "('f, 'g) nops \<Rightarrow> 'f ModelConfig \<Rightarrow> 'f LayerWeightsAll list \<Rightarrow> 'f memory list" where
  "fresh_mems N mcfg lws = map (\<lambda>lw. case mixer lw mcfg of Inr mx \<Rightarrow> fresh_mem N mx | Inl _ \<Rightarrow> FullMem (0, [], [])) lws"

definition tokens_ok :: "'f ModelConfig \<Rightarrow> nat list \<Rightarrow> bool" where
  "tokens_ok mcfg ids \<longleftrightarrow> ids \<noteq> [] \<and> list_all (\<lambda>tok. tok < mc_vocab mcfg) ids"

lemma mixer_kind:
  "mixer lw mcfg = Inr (FullMixer cfg aw) \<Longrightarrow> cfg = mc_attn mcfg"
  "mixer lw mcfg = Inr mx \<Longrightarrow>
     (case la_kind lw of LinearAttention \<Rightarrow> LinearState (GdnState_new N (mc_gdn mcfg) 1) | FullAttention \<Rightarrow> FullState AttnState_new)
       = fresh_state N mx"
  by (auto simp: mixer_def ok_or_def split: LayerKind.splits option.splits)

lemma lift_okE:
  assumes "lift_ok hidden m"
  obtains mx where "m = Inr mx" and "mixer_ok hidden mx"
  using assms by (cases m) auto

lemma mems_rep_length: "mems_rep mcfg n lws mems sts \<Longrightarrow> length sts = length lws \<and> length mems = length lws"
  by (induction mcfg n lws mems sts rule: mems_rep.induct) auto

lemma layers_ok_Cons:
  assumes "layers_ok mcfg (lw # lws)"
  obtains mx where "mixer lw mcfg = Inr mx" and "mixer_ok (mc_hidden mcfg) mx" and "layer_ok (mc_hidden mcfg) (la_layer lw)"
    and "layers_ok mcfg lws"
  using assms by (auto simp: layers_ok_def elim!: lift_okE)

lemma forward_cached_layers_run:
  "layers_ok mcfg lws \<Longrightarrow> mems_rep mcfg n lws mems sts \<Longrightarrow> length h = t * mc_hidden mcfg \<Longrightarrow>
   \<exists>trs sts'. forward_cached_layers N mcfg (build_rope N (mc_attn mcfg) t n) t lws sts h =
       Inr (trs, sts', fst (stack_run N mcfg lws mems t h)) \<and>
     mems_rep mcfg (n + t) lws (snd (stack_run N mcfg lws mems t h)) sts' \<and>
     length (fst (stack_run N mcfg lws mems t h)) = t * mc_hidden mcfg"
proof (induction lws arbitrary: mems sts h)
  case Nil
  then show ?case by (cases mems; cases sts) auto
next
  case (Cons lw lws)
  from Cons.prems(2) obtain mem ms st ss where ms: "mems = mem # ms" "sts = st # ss"
    by (cases mems; cases sts) auto
  from Cons.prems(1) obtain mx where mx: "mixer lw mcfg = Inr mx" "mixer_ok (mc_hidden mcfg) mx"
      "layer_ok (mc_hidden mcfg) (la_layer lw)" and rest: "layers_ok mcfg lws" by (rule layers_ok_Cons)
  have rep: "mem_rep mx n mem st" "mems_rep mcfg n lws ms ss" using Cons.prems(2) ms mx(1) by auto
  let ?r = "layer_run N (mc_eps mcfg) mx (la_layer lw) mem t h"
  have rope: "mx = FullMixer cfg aw \<Longrightarrow> Some (build_rope N (mc_attn mcfg) t n) = Some (build_rope N cfg t n)" for cfg aw
    using mixer_kind(1) mx(1) by blast
  have "\<exists>tr st'. layer_forward_with_state N mx (la_layer lw) h 1 t (mc_eps mcfg) (Some (build_rope N (mc_attn mcfg) t n)) st = Inr (tr, st') \<and>
      lt_out tr = fst ?r \<and> mem_rep mx (n + t) (snd ?r) st'"
    by (rule layer_forward_with_state_run [OF mx(3,2) rep(1) Cons.prems(3)]) (rule rope)
  then obtain tr st' where tr: "layer_forward_with_state N mx (la_layer lw) h 1 t (mc_eps mcfg)
        (Some (build_rope N (mc_attn mcfg) t n)) st = Inr (tr, st')" "lt_out tr = fst ?r" "mem_rep mx (n + t) (snd ?r) st'"
    by blast
  have "length (fst ?r) = t * mc_hidden mcfg" by (rule layer_run_length [OF mx(3,2) rep(1) Cons.prems(3)])
  from Cons.IH [OF rest rep(2) this] show ?case using ms mx(1) tr by (auto simp: Let_def case_prod_unfold)
qed

lemma stack_run_append:
  "layers_ok mcfg lws \<Longrightarrow> mems_rep mcfg n lws mems sts \<Longrightarrow> length x = t1 * mc_hidden mcfg \<Longrightarrow>
   stack_run N mcfg lws mems (t1 + t2) (x @ y) =
     (fst (stack_run N mcfg lws mems t1 x) @ fst (stack_run N mcfg lws (snd (stack_run N mcfg lws mems t1 x)) t2 y),
      snd (stack_run N mcfg lws (snd (stack_run N mcfg lws mems t1 x)) t2 y))"
proof (induction lws arbitrary: mems sts x y)
  case Nil
  then show ?case by (cases mems; cases sts) auto
next
  case (Cons lw lws)
  from Cons.prems(2) obtain mem ms st ss where ms: "mems = mem # ms" "sts = st # ss"
    by (cases mems; cases sts) auto
  from Cons.prems(1) obtain mx where mx: "mixer lw mcfg = Inr mx" "mixer_ok (mc_hidden mcfg) mx"
      "layer_ok (mc_hidden mcfg) (la_layer lw)" and rest: "layers_ok mcfg lws" by (rule layers_ok_Cons)
  have rep: "mem_rep mx n mem st" "mems_rep mcfg n lws ms ss" using Cons.prems(2) ms mx(1) by auto
  let ?r = "layer_run N (mc_eps mcfg) mx (la_layer lw) mem t1 x"
  have "length (fst ?r) = t1 * mc_hidden mcfg" by (rule layer_run_length [OF mx(3,2) rep(1) Cons.prems(3)])
  note ih = Cons.IH [OF rest rep(2) this]
  note app = layer_run_append [OF mx(3,2) rep(1) Cons.prems(3), of N "mc_eps mcfg" t2 y]
  show ?case using ms mx(1) by (simp add: app ih Let_def case_prod_unfold)
qed

lemma forward_layers_run:
  "layers_ok mcfg lws \<Longrightarrow> length h = t * mc_hidden mcfg \<Longrightarrow>
   \<exists>trs. forward_layers N mcfg (build_rope N (mc_attn mcfg) t 0) t lws h =
       Inr (trs, fst (stack_run N mcfg lws (fresh_mems N mcfg lws) t h))"
proof (induction lws arbitrary: h)
  case (Cons lw lws)
  from Cons.prems(1) obtain mx where mx: "mixer lw mcfg = Inr mx" "mixer_ok (mc_hidden mcfg) mx"
      "layer_ok (mc_hidden mcfg) (la_layer lw)" and rest: "layers_ok mcfg lws" by (rule layers_ok_Cons)
  let ?r = "layer_run N (mc_eps mcfg) mx (la_layer lw) (fresh_mem N mx) t h"
  have rope: "mx = FullMixer cfg aw \<Longrightarrow> Some (build_rope N (mc_attn mcfg) t 0) = Some (build_rope N cfg t 0)" for cfg aw
    using mixer_kind(1) mx(1) by blast
  have "\<exists>tr. layer_forward N mx (la_layer lw) h 1 t (mc_eps mcfg) (Some (build_rope N (mc_attn mcfg) t 0)) = Inr tr \<and> lt_out tr = fst ?r"
    by (rule layer_forward_run [OF mx(3,2) Cons.prems(2)]) (rule rope)
  then obtain tr where tr: "layer_forward N mx (la_layer lw) h 1 t (mc_eps mcfg)
        (Some (build_rope N (mc_attn mcfg) t 0)) = Inr tr" "lt_out tr = fst ?r"
    by blast
  have "length (fst ?r) = t * mc_hidden mcfg"
    by (rule layer_run_length [OF mx(3,2) fresh_mem_rep [OF mx(2)] Cons.prems(2)])
  from Cons.IH [OF rest this] show ?case using mx(1) tr by (auto simp: Let_def case_prod_unfold fresh_mems_def)
qed simp

lemma fresh_mems_rep:
  "layers_ok mcfg lws \<Longrightarrow> mems_rep mcfg 0 lws (fresh_mems N mcfg lws)
     (map (\<lambda>lw. case la_kind lw of LinearAttention \<Rightarrow> LinearState (GdnState_new N (mc_gdn mcfg) 1) | FullAttention \<Rightarrow> FullState AttnState_new) lws)"
proof (induction lws)
  case (Cons lw lws)
  from Cons.prems obtain mx where "mixer lw mcfg = Inr mx" "mixer_ok (mc_hidden mcfg) mx" "layers_ok mcfg lws"
    by (rule layers_ok_Cons)
  with Cons.IH fresh_mem_rep [of "mc_hidden mcfg" mx N] show ?case
    by (simp add: fresh_mems_def mixer_kind(2) [where N = N, simplified])
qed (simp add: fresh_mems_def)

lemma model_okD:
  assumes "model_ok mcfg w"
  shows "mc_hidden mcfg \<noteq> 0" "length (mw_embed_tokens w) = mc_vocab mcfg * mc_hidden mcfg"
    "length (mw_final_norm w) = mc_hidden mcfg" "length (mw_lm_head w) = mc_vocab mcfg * mc_hidden mcfg"
    "layers_ok mcfg (mw_layers w)"
  using assms by (simp_all add: model_ok_def)

lemma embed_in_range:
  assumes "model_ok mcfg w" and "list_all (\<lambda>tok. tok < mc_vocab mcfg) ids"
  shows "embed (mw_embed_tokens w) ids (mc_vocab mcfg) (mc_hidden mcfg) = Inr (embed_rows mcfg w ids)"
    and "length (embed_rows mcfg w ids) = length ids * mc_hidden mcfg"
proof -
  have row: "(tok + 1) * mc_hidden mcfg \<le> length (mw_embed_tokens w)" if "tok < mc_vocab mcfg" for tok
    unfolding model_okD(2) [OF assms(1)] by (rule mult_le_mono1) (use that in simp)
  show "embed (mw_embed_tokens w) ids (mc_vocab mcfg) (mc_hidden mcfg) = Inr (embed_rows mcfg w ids)"
    using assms(2) by (induction ids) (use row in \<open>simp_all add: embed_rows_def not_le [symmetric]\<close>)
  show "length (embed_rows mcfg w ids) = length ids * mc_hidden mcfg"
    using assms(2) by (induction ids) (use row in \<open>simp_all add: embed_rows_def add.commute\<close>)
qed

lemma embed_rows_append: "embed_rows mcfg w (xs @ ys) = embed_rows mcfg w xs @ embed_rows mcfg w ys"
  by (simp add: embed_rows_def)

lemma length_head_run [simp]: "length (head_run N mcfg w t h) = t * mc_vocab mcfg"
  by (simp add: head_run_def)

lemma head_run_append:
  assumes "model_ok mcfg w" and "length h = t1 * mc_hidden mcfg"
  shows "head_run N mcfg w (t1 + t2) (h @ h') = head_run N mcfg w t1 h @ head_run N mcfg w t2 h'"
  using model_okD(3) [OF assms(1)] assms(2) by (simp add: head_run_def norm_run_append linear_serial_append)

lemma model_head_run:
  assumes "model_ok mcfg w" and "length h = t * mc_hidden mcfg"
  shows "\<exists>tr. model_head N mcfg w e ls h t = Inr tr \<and> mtr_logits tr = head_run N mcfg w t h \<and>
    mtr_t tr = t \<and> mtr_vocab tr = mc_vocab mcfg"
  using norm_run_ok [of h t "mw_final_norm w" N "mc_eps mcfg"] model_okD(3,4) [OF assms(1)] assms(2)
    linear_ok [of "mw_lm_head w" "mc_vocab mcfg" "mc_hidden mcfg" "norm_run N (mw_final_norm w) (mc_eps mcfg) t h" t N]
  by (simp add: model_head_def head_run_def)

definition mems_ok :: "'f ModelConfig \<Rightarrow> 'f ModelWeights \<Rightarrow> 'f memory list \<Rightarrow> bool" where
  "mems_ok mcfg w mems \<longleftrightarrow> model_ok mcfg w \<and> (\<exists>n sts. mems_rep mcfg n (mw_layers w) mems sts)"

lemma model_run_append:
  assumes "mems_ok mcfg w mems" and "tokens_ok mcfg xs" and "tokens_ok mcfg ys"
  shows "model_run N mcfg w mems (xs @ ys) =
    (fst (model_run N mcfg w mems xs) @ fst (model_run N mcfg w (snd (model_run N mcfg w mems xs)) ys),
     snd (model_run N mcfg w (snd (model_run N mcfg w mems xs)) ys))"
proof -
  obtain n sts where ok: "model_ok mcfg w" and rep: "mems_rep mcfg n (mw_layers w) mems sts"
    using assms(1) by (auto simp: mems_ok_def)
  have len: "length (embed_rows mcfg w xs) = length xs * mc_hidden mcfg"
    using embed_in_range(2) [OF ok] assms(2) by (simp add: tokens_ok_def)
  have h: "length (fst (stack_run N mcfg (mw_layers w) mems (length xs) (embed_rows mcfg w xs))) = length xs * mc_hidden mcfg"
    using forward_cached_layers_run [OF model_okD(5) [OF ok] rep len, of N] by blast
  show ?thesis
    unfolding model_run_def embed_rows_append length_append stack_run_append [OF model_okD(5) [OF ok] rep len]
    by (simp add: Let_def case_prod_unfold head_run_append [OF ok h])
qed

lemma model_run_keeps:
  assumes "model_ok mcfg w" and "mems_rep mcfg n (mw_layers w) mems sts" and "tokens_ok mcfg xs"
  shows "\<exists>sts'. mems_rep mcfg (n + length xs) (mw_layers w) (snd (model_run N mcfg w mems xs)) sts'"
proof -
  have "length (embed_rows mcfg w xs) = length xs * mc_hidden mcfg"
    using embed_in_range(2) [OF assms(1)] assms(3) by (simp add: tokens_ok_def)
  from forward_cached_layers_run [OF model_okD(5) [OF assms(1)] assms(2) this, of N]
  show ?thesis by (auto simp: model_run_def Let_def case_prod_unfold)
qed

text \<open>The abstract model is a chunked run: its memories continue a sequence.\<close>

interpretation net: chunked_run "model_run N mcfg w" "mems_ok mcfg w" "tokens_ok mcfg" for N mcfg w
proof unfold_locales
  fix s xs
  assume "mems_ok mcfg w s" "tokens_ok mcfg xs"
  then show "mems_ok mcfg w (snd (model_run N mcfg w s xs))"
    unfolding mems_ok_def using model_run_keeps [of mcfg w _ s _ xs N] by blast
qed (simp_all add: model_run_append tokens_ok_def)

section \<open>The forward passes implement the abstract run\<close>

definition cache_rep :: "'f ModelConfig \<Rightarrow> 'f ModelWeights \<Rightarrow> 'f memory list \<Rightarrow> 'f Cache \<Rightarrow> bool" where
  "cache_rep mcfg w mems c \<longleftrightarrow> mems_rep mcfg (c_len c) (mw_layers w) mems (c_states c)"

lemma cache_rep_new: "model_ok mcfg w \<Longrightarrow> cache_rep mcfg w (fresh_mems N mcfg (mw_layers w)) (Cache_new N mcfg w 1)"
  using fresh_mems_rep [of mcfg "mw_layers w" N] by (simp add: cache_rep_def Cache_new_def model_ok_def del: One_nat_def)

lemma cache_rep_ok: "model_ok mcfg w \<Longrightarrow> cache_rep mcfg w mems c \<Longrightarrow> mems_ok mcfg w mems"
  by (auto simp: mems_ok_def cache_rep_def)

lemma forward_cached_run:
  assumes "model_ok mcfg w" and "cache_rep mcfg w mems c" and "tokens_ok mcfg ids"
  shows "\<exists>tr c'. forward_cached N mcfg w c ids = Inr (tr, c') \<and> mtr_logits tr = fst (model_run N mcfg w mems ids) \<and>
    mtr_t tr = length ids \<and> mtr_vocab tr = mc_vocab mcfg \<and> cache_rep mcfg w (snd (model_run N mcfg w mems ids)) c' \<and>
    c_len c' = c_len c + length ids"
proof -
  let ?e = "embed_rows mcfg w ids" and ?t = "length ids"
  have ids: "ids \<noteq> []" "list_all (\<lambda>tok. tok < mc_vocab mcfg) ids" using assms(3) by (simp_all add: tokens_ok_def)
  note emb = embed_in_range [OF assms(1) ids(2)]
  have rep: "mems_rep mcfg (c_len c) (mw_layers w) mems (c_states c)" using assms(2) by (simp add: cache_rep_def)
  obtain trs sts' where st: "forward_cached_layers N mcfg (build_rope N (mc_attn mcfg) ?t (c_len c)) ?t (mw_layers w) (c_states c) ?e =
      Inr (trs, sts', fst (stack_run N mcfg (mw_layers w) mems ?t ?e))"
    "mems_rep mcfg (c_len c + ?t) (mw_layers w) (snd (stack_run N mcfg (mw_layers w) mems ?t ?e)) sts'"
    "length (fst (stack_run N mcfg (mw_layers w) mems ?t ?e)) = ?t * mc_hidden mcfg"
    using forward_cached_layers_run [OF model_okD(5) [OF assms(1)] rep emb(2), of N] by blast
  from model_head_run [OF assms(1) st(3), of N ?e trs] ids(1) emb(1) st(1,2) mems_rep_length [OF rep]
  show ?thesis by (auto simp: forward_cached_def Let_def model_run_def case_prod_unfold cache_rep_def)
qed

lemma forward_run:
  assumes "model_ok mcfg w" and "tokens_ok mcfg ids"
  shows "\<exists>tr. forward N mcfg w ids = Inr tr \<and>
    mtr_logits tr = fst (model_run N mcfg w (fresh_mems N mcfg (mw_layers w)) ids) \<and>
    mtr_t tr = length ids \<and> mtr_vocab tr = mc_vocab mcfg"
proof -
  let ?e = "embed_rows mcfg w ids" and ?t = "length ids" and ?f = "fresh_mems N mcfg (mw_layers w)"
  have ids: "ids \<noteq> []" "list_all (\<lambda>tok. tok < mc_vocab mcfg) ids" using assms(2) by (simp_all add: tokens_ok_def)
  note emb = embed_in_range [OF assms(1) ids(2)] and lok = model_okD(5) [OF assms(1)]
  have len: "length (fst (stack_run N mcfg (mw_layers w) ?f ?t ?e)) = ?t * mc_hidden mcfg"
    using forward_cached_layers_run [OF lok fresh_mems_rep [OF lok] emb(2), of N] by blast
  obtain trs where "forward_layers N mcfg (build_rope N (mc_attn mcfg) ?t 0) ?t (mw_layers w) ?e =
      Inr (trs, fst (stack_run N mcfg (mw_layers w) ?f ?t ?e))"
    using forward_layers_run [OF lok emb(2), of N] by blast
  with model_head_run [OF assms(1) len, of N ?e trs] ids(1) emb(1) model_okD(2) [OF assms(1)]
  show ?thesis by (auto simp: forward_def Let_def model_run_def case_prod_unfold)
qed

text \<open>A sequence fed to the cached pass in chunks.\<close>

primrec feed ::
  "('f, 'g) nops \<Rightarrow> 'f ModelConfig \<Rightarrow> 'f ModelWeights \<Rightarrow> nat list list \<Rightarrow> 'f Cache \<Rightarrow>
   net_error + 'f ModelTrace list \<times> 'f Cache" where
  "feed N mcfg w [] c = Inr ([], c)"
| "feed N mcfg w (ids # rest) c =
     try_bind (forward_cached N mcfg w c ids) (\<lambda>(tr, c).
     try_bind (feed N mcfg w rest c) (\<lambda>(trs, c). Inr (tr # trs, c)))"

lemma feed_run:
  assumes "model_ok mcfg w"
  shows "cache_rep mcfg w mems c \<Longrightarrow> list_all (tokens_ok mcfg) chunks \<Longrightarrow>
    \<exists>trs c'. feed N mcfg w chunks c = Inr (trs, c') \<and>
      concat (map mtr_logits trs) = fst (chunked_run.run_chunks (model_run N mcfg w) mems chunks) \<and>
      cache_rep mcfg w (snd (chunked_run.run_chunks (model_run N mcfg w) mems chunks)) c' \<and>
      c_len c' = c_len c + length (concat chunks)"
proof (induction chunks arbitrary: mems c)
  case (Cons ids rest)
  have ok: "tokens_ok mcfg ids" "list_all (tokens_ok mcfg) rest" using Cons.prems(2) by simp_all
  obtain tr c' where step: "forward_cached N mcfg w c ids = Inr (tr, c')"
      "mtr_logits tr = fst (model_run N mcfg w mems ids)" "cache_rep mcfg w (snd (model_run N mcfg w mems ids)) c'"
      "c_len c' = c_len c + length ids"
    using forward_cached_run [OF assms Cons.prems(1) ok(1), of N] by blast
  from Cons.IH [OF step(3) ok(2)] step show ?case by (auto simp: Let_def case_prod_unfold)
qed simp

section \<open>Decoding loops\<close>

definition last_row :: "('f, 'g) nops \<Rightarrow> 'f ModelConfig \<Rightarrow> 'f ModelWeights \<Rightarrow> nat list \<Rightarrow> 'f list" where
  "last_row N mcfg w ids =
     drop ((length ids - 1) * mc_vocab mcfg) (fst (model_run N mcfg w (fresh_mems N mcfg (mw_layers w)) ids))"

text \<open>What greedy decoding produces: each token with the logits it was chosen from.\<close>

primrec greedy_spec ::
  "('f, 'g) nops \<Rightarrow> 'f ModelConfig \<Rightarrow> 'f ModelWeights \<Rightarrow> nat \<Rightarrow> nat list \<Rightarrow> (nat \<times> 'f list) list" where
  "greedy_spec N mcfg w 0 ids = []"
| "greedy_spec N mcfg w (Suc n) ids =
     (let row = last_row N mcfg w ids; nxt = first_max N row in (nxt, row) # greedy_spec N mcfg w n (ids @ [nxt]))"

lemma length_greedy_spec [simp]: "length (greedy_spec N mcfg w n ids) = n"
  by (induction n arbitrary: ids) (simp_all add: Let_def)

lemma length_model_run [simp]: "length (fst (model_run N mcfg w mems ids)) = length ids * mc_vocab mcfg"
  by (simp add: model_run_def Let_def case_prod_unfold)

lemma length_last_row: "ids \<noteq> [] \<Longrightarrow> length (last_row N mcfg w ids) = mc_vocab mcfg"
  by (cases ids) (simp_all add: last_row_def)

lemma first_max_less: "l \<noteq> [] \<Longrightarrow> first_max N l < length l"
proof -
  assume "l \<noteq> []"
  then have "foldl (\<lambda>best i. if f_lt (f32 N) (l ! best) (l ! i) then i else best) 0 [0..<n] < length l" if "n \<le> length l" for n
    using that by (induction n) simp_all
  then show ?thesis by (simp add: first_max_def)
qed

definition vocab_ok :: "'f ModelConfig \<Rightarrow> bool" where
  "vocab_ok mcfg \<longleftrightarrow> 0 < mc_vocab mcfg \<and> mc_vocab mcfg \<le> 2 ^ 32"

lemma next_token:
  assumes "vocab_ok mcfg" and "length l = mc_vocab mcfg"
  shows "as_u32 (first_max N l) = first_max N l" and "first_max N l < mc_vocab mcfg"
proof -
  show less: "first_max N l < mc_vocab mcfg" using first_max_less [of l N] assms by (cases l) (auto simp: vocab_ok_def)
  then show "as_u32 (first_max N l) = first_max N l" using assms(1) by (simp add: as_u32_def vocab_ok_def)
qed

lemma tokens_ok_snoc: "tokens_ok mcfg ids \<Longrightarrow> nxt < mc_vocab mcfg \<Longrightarrow> tokens_ok mcfg (ids @ [nxt])"
  by (simp add: tokens_ok_def)

lemma last_logits_forward:
  assumes "model_ok mcfg w" and "tokens_ok mcfg ids"
  shows "\<exists>tr. forward N mcfg w ids = Inr tr \<and> last_logits tr = Inr (last_row N mcfg w ids)"
proof -
  from forward_run [OF assms, of N] obtain tr where tr: "forward N mcfg w ids = Inr tr"
      "mtr_logits tr = fst (model_run N mcfg w (fresh_mems N mcfg (mw_layers w)) ids)" "mtr_t tr = length ids"
      "mtr_vocab tr = mc_vocab mcfg" by blast
  have "ids \<noteq> []" using assms(2) by (simp add: tokens_ok_def)
  then have "last_logits tr = Inr (last_row N mcfg w ids)" using tr(2-4) by (simp add: last_logits_def last_row_def)
  with tr(1) show ?thesis by blast
qed

text \<open>The state of a decoding loop after the tokens \<open>ids\<close>.\<close>

definition decoded ::
  "('f, 'g) nops \<Rightarrow> 'f ModelConfig \<Rightarrow> 'f ModelWeights \<Rightarrow> nat list \<Rightarrow> 'f Cache \<Rightarrow> 'f ModelTrace \<Rightarrow> bool" where
  "decoded N mcfg w ids c tr \<longleftrightarrow> tokens_ok mcfg ids \<and>
     cache_rep mcfg w (snd (model_run N mcfg w (fresh_mems N mcfg (mw_layers w)) ids)) c \<and>
     last_logits tr = Inr (last_row N mcfg w ids)"

lemma decoded_prefill:
  assumes "model_ok mcfg w" and "tokens_ok mcfg ids"
  shows "\<exists>tr c. forward_cached N mcfg w (Cache_new N mcfg w 1) ids = Inr (tr, c) \<and> decoded N mcfg w ids c tr"
proof -
  from forward_cached_run [OF assms(1) cache_rep_new [OF assms(1)] assms(2), of N N]
  obtain tr c where "forward_cached N mcfg w (Cache_new N mcfg w 1) ids = Inr (tr, c)"
      "mtr_logits tr = fst (model_run N mcfg w (fresh_mems N mcfg (mw_layers w)) ids)" "mtr_t tr = length ids"
      "mtr_vocab tr = mc_vocab mcfg" "cache_rep mcfg w (snd (model_run N mcfg w (fresh_mems N mcfg (mw_layers w)) ids)) c"
    by blast
  moreover have "ids \<noteq> []" using assms(2) by (simp add: tokens_ok_def)
  ultimately show ?thesis using assms(2) by (auto simp: decoded_def last_logits_def last_row_def)
qed

lemma decoded_step:
  assumes "model_ok mcfg w" and "decoded N mcfg w ids c tr" and "nxt < mc_vocab mcfg"
  shows "\<exists>tr' c'. forward_cached N mcfg w c [nxt] = Inr (tr', c') \<and> decoded N mcfg w (ids @ [nxt]) c' tr'"
proof -
  let ?f = "fresh_mems N mcfg (mw_layers w)"
  let ?m = "snd (model_run N mcfg w ?f ids)"
  have ids: "tokens_ok mcfg ids" and rep: "cache_rep mcfg w ?m c" using assms(2) by (simp_all add: decoded_def)
  have one: "tokens_ok mcfg [nxt]" using assms(3) by (simp add: tokens_ok_def)
  have app: "model_run N mcfg w ?f (ids @ [nxt]) =
      (fst (model_run N mcfg w ?f ids) @ fst (model_run N mcfg w ?m [nxt]), snd (model_run N mcfg w ?m [nxt]))"
    by (rule net.run_append [OF cache_rep_ok [OF assms(1) cache_rep_new [OF assms(1)]] ids one])
  from forward_cached_run [OF assms(1) rep one, of N]
  obtain tr' c' where "forward_cached N mcfg w c [nxt] = Inr (tr', c')"
      "mtr_logits tr' = fst (model_run N mcfg w ?m [nxt])" "mtr_t tr' = 1" "mtr_vocab tr' = mc_vocab mcfg"
      "cache_rep mcfg w (snd (model_run N mcfg w ?m [nxt])) c'" by auto
  then show ?thesis
    using tokens_ok_snoc [OF ids assms(3)] by (auto simp: decoded_def last_logits_def last_row_def app)
qed

definition kept :: "nat list \<Rightarrow> (nat \<times> 'f list) list \<Rightarrow> (nat \<times> 'f list) list" where
  "kept stop g = takeWhile (\<lambda>(x, _). x \<notin> set stop) g"

lemma argmax_decoded:
  assumes "vocab_ok mcfg" and "decoded N mcfg w ids c tr"
  shows "argmax_last N tr = Inr (first_max N (last_row N mcfg w ids))"
    and "as_u32 (first_max N (last_row N mcfg w ids)) = first_max N (last_row N mcfg w ids)"
    and "first_max N (last_row N mcfg w ids) < mc_vocab mcfg"
proof -
  have "ids \<noteq> []" and l: "last_logits tr = Inr (last_row N mcfg w ids)"
    using assms(2) by (simp_all add: decoded_def tokens_ok_def)
  then have len: "length (last_row N mcfg w ids) = mc_vocab mcfg" by (simp add: length_last_row)
  show "argmax_last N tr = Inr (first_max N (last_row N mcfg w ids))" using l by (simp add: argmax_last_def)
  show "as_u32 (first_max N (last_row N mcfg w ids)) = first_max N (last_row N mcfg w ids)"
    "first_max N (last_row N mcfg w ids) < mc_vocab mcfg" by (rule next_token [OF assms(1) len])+
qed

lemma greedy_steps_run:
  assumes "model_ok mcfg w" and "vocab_ok mcfg"
  shows "decoded N mcfg w ids c tr \<Longrightarrow>
    \<exists>trs. greedy_steps N mcfg w stop n c tr g ts =
        Inr (g @ map fst (kept stop (greedy_spec N mcfg w n ids)), ts @ trs,
             \<exists>x \<in> set (greedy_spec N mcfg w n ids). fst x \<in> set stop) \<and>
      map last_logits trs = map (Inr \<circ> snd) (kept stop (greedy_spec N mcfg w n ids))"
proof (induction n arbitrary: ids c tr g ts)
  case (Suc n)
  let ?nxt = "first_max N (last_row N mcfg w ids)"
  note nxt = argmax_decoded [OF assms(2) Suc.prems]
  have l: "last_logits tr = Inr (last_row N mcfg w ids)" using Suc.prems by (simp add: decoded_def)
  show ?case
  proof (cases "?nxt \<in> set stop")
    case False
    obtain tr' c' where step: "forward_cached N mcfg w c [?nxt] = Inr (tr', c')" "decoded N mcfg w (ids @ [?nxt]) c' tr'"
      using decoded_step [OF assms(1) Suc.prems nxt(3)] by blast
    from Suc.IH [OF step(2), of "g @ [?nxt]" "ts @ [tr]"] obtain trs where
      "greedy_steps N mcfg w stop n c' tr' (g @ [?nxt]) (ts @ [tr]) =
        Inr ((g @ [?nxt]) @ map fst (kept stop (greedy_spec N mcfg w n (ids @ [?nxt]))), (ts @ [tr]) @ trs,
             \<exists>x \<in> set (greedy_spec N mcfg w n (ids @ [?nxt])). fst x \<in> set stop)"
      "map last_logits trs = map (Inr \<circ> snd) (kept stop (greedy_spec N mcfg w n (ids @ [?nxt])))" by blast
    then show ?thesis using False nxt(1,2) step(1) l
      by (intro exI [of _ "tr # trs"]) (simp add: Let_def kept_def)
  qed (use nxt(1,2) in \<open>simp add: Let_def kept_def\<close>)
qed (simp add: kept_def)

lemma greedy_uncached_run:
  assumes "model_ok mcfg w" and "vocab_ok mcfg"
  shows "tokens_ok mcfg ids \<Longrightarrow>
    \<exists>trs. greedy_uncached_steps N mcfg w n ids g ts = Inr (g @ map fst (greedy_spec N mcfg w n ids), ts @ trs) \<and>
      map last_logits trs = map (Inr \<circ> snd) (greedy_spec N mcfg w n ids)"
proof (induction n arbitrary: ids g ts)
  case (Suc n)
  let ?row = "last_row N mcfg w ids"
  let ?nxt = "first_max N ?row"
  have len: "length ?row = mc_vocab mcfg" using Suc.prems by (simp add: tokens_ok_def length_last_row)
  note nxt = next_token [OF assms(2) len, of N]
  obtain tr where tr: "forward N mcfg w ids = Inr tr" "last_logits tr = Inr ?row"
    using last_logits_forward [OF assms(1) Suc.prems, of N] by blast
  from Suc.IH [OF tokens_ok_snoc [OF Suc.prems nxt(2)], of "g @ [?nxt]" "ts @ [tr]"] obtain trs where
    "greedy_uncached_steps N mcfg w n (ids @ [?nxt]) (g @ [?nxt]) (ts @ [tr]) =
       Inr ((g @ [?nxt]) @ map fst (greedy_spec N mcfg w n (ids @ [?nxt])), (ts @ [tr]) @ trs)"
    "map last_logits trs = map (Inr \<circ> snd) (greedy_spec N mcfg w n (ids @ [?nxt]))" by blast
  then show ?case using tr nxt(1)
    by (intro exI [of _ "tr # trs"]) (simp add: Let_def argmax_last_def)
qed simp

lemma greedy_cached_stopping_run:
  assumes "model_ok mcfg w" and "vocab_ok mcfg" and "tokens_ok mcfg prompt"
  shows "\<exists>trs. greedy_cached_stopping N mcfg w prompt steps stop =
      Inr (map fst (kept stop (greedy_spec N mcfg w steps prompt)), trs,
           \<exists>x \<in> set (greedy_spec N mcfg w steps prompt). fst x \<in> set stop) \<and>
    map last_logits trs = map (Inr \<circ> snd) (kept stop (greedy_spec N mcfg w steps prompt))"
proof -
  obtain tr c where pre: "forward_cached N mcfg w (Cache_new N mcfg w 1) prompt = Inr (tr, c)" "decoded N mcfg w prompt c tr"
    using decoded_prefill [OF assms(1,3), of N] by blast
  have "prompt \<noteq> []" using assms(3) by (simp add: tokens_ok_def)
  with greedy_steps_run [OF assms(1,2) pre(2), of stop steps "[]" "[]"] pre(1) show ?thesis
    by (simp add: greedy_cached_stopping_def del: One_nat_def)
qed

lemma kept_all: "kept [] g = g"
  by (simp add: kept_def case_prod_unfold)

lemma map_fst_kept: "map fst (kept stop g) = takeWhile (\<lambda>x. x \<notin> set stop) (map fst g)"
  by (simp add: kept_def takeWhile_map o_def case_prod_unfold)

lemma stop_hit: "(\<exists>x \<in> set g. fst x \<in> set stop) = (set (map fst g) \<inter> set stop \<noteq> {})"
  by auto

text \<open>C13. The cache is transparent: whatever chunks a token sequence is cut into, feeding them to
  \<open>forward_cached\<close> from a new cache gives, at every position, the logits that one uncached \<open>forward\<close>
  over the whole sequence gives, to the last bit, and none of the calls fails. (\<open>model_ok\<close>: the
  tensors have the sizes of the configuration.)\<close>

theorem forward_cached_chunks:
  assumes "model_ok mcfg w" and "chunks \<noteq> []" and "list_all (tokens_ok mcfg) chunks"
  shows "\<exists>trs c tr. feed N mcfg w chunks (Cache_new N mcfg w 1) = Inr (trs, c) \<and>
    forward N mcfg w (concat chunks) = Inr tr \<and>
    concat (map mtr_logits trs) = mtr_logits tr \<and> c_len c = length (concat chunks)"
proof -
  note new = cache_rep_new [OF assms(1), where N = N]
  have ok: "mems_ok mcfg w (fresh_mems N mcfg (mw_layers w))" by (rule cache_rep_ok [OF assms(1) new])
  have len: "c_len (Cache_new N mcfg w 1) = 0" by (simp add: Cache_new_def)
  from forward_run [OF assms(1) net.ok_concat [OF assms(2,3)], of N] feed_run [OF assms(1) new assms(3), of N]
  show ?thesis unfolding net.run_chunks_concat [OF assms(2) ok assms(3)] len by fastforce
qed

text \<open>Cached decoding is uncached decoding: \<open>greedy_cached\<close>, which prefills once and then passes
  single tokens, returns the ids that \<open>greedy\<close> gets by running the growing sequence afresh at every
  step, each read from the same last row of logits, and both produce exactly \<open>steps\<close> tokens.\<close>

lemma greedy_cached_is_greedy:
  assumes "model_ok mcfg w" and "vocab_ok mcfg" and "tokens_ok mcfg prompt"
  shows "\<exists>ids trs trs'. greedy_cached N mcfg w prompt steps = Inr (ids, trs) \<and>
    greedy N mcfg w prompt steps = Inr (ids, trs') \<and> map last_logits trs = map last_logits trs' \<and> length ids = steps"
  using greedy_cached_stopping_run [OF assms, of N steps "[]"] greedy_uncached_run [OF assms, of N steps "[]" "[]"]
  by (auto simp: greedy_cached_def greedy_def kept_all)

text \<open>Stopping only cuts: with a stop set the ids are those of \<open>greedy_cached\<close> up to, and without,
  the first stop token, and the flag says whether one was generated within the step limit.\<close>

lemma greedy_stopping_prefix:
  assumes "model_ok mcfg w" and "vocab_ok mcfg" and "tokens_ok mcfg prompt"
  shows "\<exists>ids trs trs'. greedy_cached N mcfg w prompt steps = Inr (ids, trs) \<and>
    greedy_cached_stopping N mcfg w prompt steps stop =
      Inr (takeWhile (\<lambda>x. x \<notin> set stop) ids, trs', set ids \<inter> set stop \<noteq> {})"
proof -
  let ?g = "greedy_spec N mcfg w steps prompt"
  from greedy_cached_stopping_run [OF assms, of N steps "[]"]
  obtain trs where "greedy_cached N mcfg w prompt steps = Inr (map fst ?g, trs)"
    by (auto simp: greedy_cached_def kept_all)
  moreover from greedy_cached_stopping_run [OF assms, of N steps stop]
  obtain trs' where "greedy_cached_stopping N mcfg w prompt steps stop =
      Inr (takeWhile (\<lambda>x. x \<notin> set stop) (map fst ?g), trs', set (map fst ?g) \<inter> set stop \<noteq> {})"
    unfolding stop_hit map_fst_kept by blast
  ultimately show ?thesis by blast
qed

section \<open>Sampling\<close>

lemma sampler_next_less:
  assumes "sampler_next S scale53 sa logits history = (Inr i, sa')"
  shows "i < length logits"
proof -
  let ?l = "apply_filters S (sa_cfg sa) logits history"
  obtain u where "select S (softmax S ?l) u = Some i"
    using assms by (auto simp: sampler_next_def Let_def ok_or_def split: if_splits prod.splits option.splits)
  then show ?thesis
    using select_from_spec [of S u 0 "f_zero (s64 S)" None "softmax S ?l" i] by (auto simp: select_def drawn_def)
qed

definition sampled_ok ::
  "'f ModelConfig \<Rightarrow> nat list \<Rightarrow> nat \<Rightarrow> net_error + nat list \<times> 'f ModelTrace list \<times> bool \<Rightarrow> bool" where
  "sampled_ok mcfg stop steps r \<longleftrightarrow>
     (case r of
        Inl e \<Rightarrow> e = NonFiniteLogits \<or> (\<exists>d. e = SamplerFailed d)
      | Inr (ids, trs, hit) \<Rightarrow> length trs = length ids \<and> length ids \<le> steps \<and> (\<not> hit \<longrightarrow> length ids = steps) \<and>
          list_all (\<lambda>x. x < mc_vocab mcfg \<and> x \<notin> set stop) ids)"

lemma sample_steps_ok:
  assumes "model_ok mcfg w" and "vocab_ok mcfg"
  shows "decoded N mcfg w ids c tr \<Longrightarrow> length ts = length g \<Longrightarrow>
    list_all (\<lambda>x. x < mc_vocab mcfg \<and> x \<notin> set stop) g \<Longrightarrow>
    sampled_ok mcfg stop (length g + n) (fst (sample_steps N scale53 mcfg w stop n sa c tr history g ts))"
proof (induction n arbitrary: ids c tr history g ts sa)
  case (Suc n)
  let ?row = "last_row N mcfg w ids"
  have l: "last_logits tr = Inr ?row" and "ids \<noteq> []" using Suc.prems(1) by (simp_all add: decoded_def tokens_ok_def)
  then have len: "length ?row = mc_vocab mcfg" by (simp add: length_last_row)
  obtain r sa' where r: "sampler_next (n_ops N) scale53 sa ?row history = (r, sa')" by fastforce
  show ?case
  proof (cases "list_all (f_finite (f32 N)) ?row")
    case fin: True
    show ?thesis
    proof (cases r)
      case (Inr i)
      have i: "i < mc_vocab mcfg" using sampler_next_less [OF r [unfolded Inr]] len by simp
      then have u: "as_u32 i = i" using assms(2) by (simp add: as_u32_def vocab_ok_def)
      show ?thesis
      proof (cases "i \<in> set stop")
        case False
        obtain tr' c' where step: "forward_cached N mcfg w c [i] = Inr (tr', c')" "decoded N mcfg w (ids @ [i]) c' tr'"
          using decoded_step [OF assms(1) Suc.prems(1) i] by blast
        have "length (ts @ [tr]) = length (g @ [i])" "list_all (\<lambda>x. x < mc_vocab mcfg \<and> x \<notin> set stop) (g @ [i])"
          using Suc.prems(2,3) False i by simp_all
        from Suc.IH [OF step(2) this, of sa' "history @ [i]"] show ?thesis using l fin r Inr u step(1) False by (simp add: Let_def)
      qed (use l fin r Inr u Suc.prems in \<open>simp add: sampled_ok_def Let_def\<close>)
    qed (use l fin r in \<open>simp add: sampled_ok_def\<close>)
  qed (use l in \<open>simp add: sampled_ok_def\<close>)
qed (simp add: sampled_ok_def)

lemma sample_stopping_result:
  assumes "model_ok mcfg w" and "vocab_ok mcfg" and "tokens_ok mcfg prompt"
  shows "case fst (sample_stopping N scale53 mcfg w prompt steps sa stop) of
      Inl e \<Rightarrow> e = NonFiniteLogits \<or> (\<exists>d. e = SamplerFailed d)
    | Inr (ids, trs, hit) \<Rightarrow> length trs = length ids \<and> length ids \<le> steps \<and> (\<not> hit \<longrightarrow> length ids = steps) \<and>
        list_all (\<lambda>x. x < mc_vocab mcfg \<and> x \<notin> set stop) ids"
proof -
  obtain tr c where pre: "forward_cached N mcfg w (Cache_new N mcfg w 1) prompt = Inr (tr, c)" "decoded N mcfg w prompt c tr"
    using decoded_prefill [OF assms(1,3), of N] by blast
  have "prompt \<noteq> []" using assms(3) by (simp add: tokens_ok_def)
  with sample_steps_ok [OF assms(1,2) pre(2), of "[]" "[]" stop steps scale53 sa prompt] pre(1) show ?thesis
    by (simp add: sample_stopping_def sampled_ok_def del: One_nat_def)
qed

text \<open>C33. Sampling fails only for a reason of its own: with weights of the right sizes and a prompt of
  known tokens, \<open>sample_stopping\<close> either reports non-finite logits or a sampler that has nothing to
  draw from, or returns at most \<open>steps\<close> tokens, one trace for each, all of them in the vocabulary and
  none a stop token; fewer than \<open>steps\<close> only when it says that a stop token ended the turn.\<close>

theorem sample_stopping_outcome:
  assumes "model_ok mcfg w" and "vocab_ok mcfg" and "tokens_ok mcfg prompt"
  shows "case fst (sample_stopping N scale53 mcfg w prompt steps sa stop) of
      Inl e \<Rightarrow> e = NonFiniteLogits \<or> (\<exists>d. e = SamplerFailed d)
    | Inr (ids, trs, hit) \<Rightarrow> length trs = length ids \<and> length ids \<le> steps \<and> (\<not> hit \<longrightarrow> length ids = steps) \<and>
        list_all (\<lambda>x. x < mc_vocab mcfg \<and> x \<notin> set stop) ids"
  by (rule sample_stopping_result [OF assms])

section \<open>The size of the cache\<close>

definition layers_of :: "LayerKind \<Rightarrow> 'f ModelWeights \<Rightarrow> nat" where
  "layers_of k w = length (filter (\<lambda>lw. la_kind lw = k) (mw_layers w))"

definition gdn_bytes :: "'f GdnConfig \<Rightarrow> nat" where
  "gdn_bytes cfg = (conv_dim cfg * (conv_kernel cfg - 1) + num_v_heads cfg * head_k_dim cfg * head_v_dim cfg) * 4"

lemma mem_rep_bytes:
  assumes "mixer lw mcfg = Inr mx" and "mem_rep mx n mem st"
  shows "(la_kind lw = LinearAttention \<and> (\<exists>g. st = LinearState g \<and> GdnState_bytes g = gdn_bytes (mc_gdn mcfg))) \<or>
    (la_kind lw = FullAttention \<and> (\<exists>a. st = FullState a \<and> AttnState_bytes a = n * (2 * kv_out_dim (mc_attn mcfg) * 4)))"
proof (cases "(mx, n, mem, st)" rule: mem_rep.cases)
  case (1 cfg gw n' g st')
  then show ?thesis using assms
    by (auto simp: mixer_def ok_or_def gdn_state_ok_def GdnState_bytes_def gdn_bytes_def split: LayerKind.splits option.splits)
next
  case (2 cfg aw n' kv st')
  then have cfg: "cfg = mc_attn mcfg" "la_kind lw = FullAttention" using assms(1)
    by (auto simp: mixer_def ok_or_def split: LayerKind.splits option.splits)
  moreover obtain n'' ka va where "kv = (n'', ka, va)" by (cases kv)
  ultimately show ?thesis using 2 assms(2)
    by (simp add: kv_rep_def AttnState_bytes_def kv_out_dim_def mult.commute mult.left_commute)
qed (use assms(2) in auto)

lemma bytes_fold:
  "mems_rep mcfg n lws mems sts \<Longrightarrow>
   foldl (\<lambda>(lin, full) s. case s of LinearState g \<Rightarrow> (lin + GdnState_bytes g, full)
       | FullState a \<Rightarrow> (lin, full + AttnState_bytes a)) (x, y) sts =
     (x + length (filter (\<lambda>lw. la_kind lw = LinearAttention) lws) * gdn_bytes (mc_gdn mcfg),
      y + length (filter (\<lambda>lw. la_kind lw = FullAttention) lws) * (n * (2 * kv_out_dim (mc_attn mcfg) * 4))) \<and>
   sum_list (map MixerState_bytes sts) =
     length (filter (\<lambda>lw. la_kind lw = LinearAttention) lws) * gdn_bytes (mc_gdn mcfg) +
     length (filter (\<lambda>lw. la_kind lw = FullAttention) lws) * (n * (2 * kv_out_dim (mc_attn mcfg) * 4))"
proof (induction mcfg n lws mems sts arbitrary: x y rule: mems_rep.induct)
  case (2 mcfg n lw lws mem mems st sts)
  then obtain mx where "mixer lw mcfg = Inr mx" "mem_rep mx n mem st" "mems_rep mcfg n lws mems sts" by auto
  with mem_rep_bytes [of lw mcfg mx n mem st] "2.IH" show ?case by auto
qed auto

text \<open>C35. What the cache costs: after any number of positions, however they were chunked, every
  linear-attention layer still holds the bytes it started with and every full-attention layer holds
  the keys and values of all positions, and \<open>bytes\<close> is the sum of the two.\<close>

theorem cache_bytes_growth:
  assumes "model_ok mcfg w" and "list_all (tokens_ok mcfg) chunks"
  shows "\<exists>trs c. feed N mcfg w chunks (Cache_new N mcfg w 1) = Inr (trs, c) \<and>
    bytes_by_kind c =
      (layers_of LinearAttention w * gdn_bytes (mc_gdn mcfg),
       layers_of FullAttention w * (length (concat chunks) * (2 * kv_out_dim (mc_attn mcfg) * 4))) \<and>
    Cache_bytes c = fst (bytes_by_kind c) + snd (bytes_by_kind c)"
proof -
  note new = cache_rep_new [OF assms(1), where N = N]
  obtain trs c mems where c: "feed N mcfg w chunks (Cache_new N mcfg w 1) = Inr (trs, c)" "cache_rep mcfg w mems c"
      "c_len c = length (concat chunks)"
    using feed_run [OF assms(1) new assms(2), of N] by (auto simp: Cache_new_def)
  then have "mems_rep mcfg (length (concat chunks)) (mw_layers w) mems (c_states c)" by (simp add: cache_rep_def)
  from bytes_fold [OF this, of 0 0] c(1) show ?thesis
    by (simp add: bytes_by_kind_def Cache_bytes_def layers_of_def)
qed

section \<open>Witnesses\<close>

text \<open>A two-layer model over integers, one layer of each kind.\<close>

definition ex_N :: "(int, int) nops" where
  "ex_N = \<lparr>n_ops = ex_S, n_powf = (\<lambda>a b. 1), n_cos = (\<lambda>x. 1), n_sin = (\<lambda>x. 0), n_20 = 20, n_1e6 = 0,
     n_neg_half = 0, n_threads = 2\<rparr>"

definition ex_gdn_cfg :: "int GdnConfig" where
  "ex_gdn_cfg = \<lparr>gc_hidden = 2, num_k_heads = 1, num_v_heads = 2, head_k_dim = 1, head_v_dim = 1, conv_kernel = 2, gc_eps = 1\<rparr>"

definition ex_attn_cfg :: "int AttnConfig" where
  "ex_attn_cfg = \<lparr>ac_hidden = 2, num_heads = 2, num_kv_heads = 1, head_dim = 2, rotary_dim = 2, rope_theta = 1, ac_eps = 1\<rparr>"

definition ex_mcfg :: "int ModelConfig" where
  "ex_mcfg = \<lparr>mc_vocab = 3, mc_hidden = 2, mc_eps = 1, mc_gdn = ex_gdn_cfg, mc_attn = ex_attn_cfg\<rparr>"

definition ex_layer :: "int LayerWeights" where
  "ex_layer = \<lparr>lw_input_layernorm = [1, 1], lw_post_attention_layernorm = [1, 1],
     lw_mlp = \<lparr>gate_proj = [1, 0], up_proj = [0, 1], down_proj = [1, 1]\<rparr>\<rparr>"

definition ex_gdn :: "int GdnWeights" where
  "ex_gdn = \<lparr>gw_in_proj_qkv = [1, 0, 0, 1, 1, 0, 0, 1], gw_in_proj_z = [1, 0, 0, 1], gw_in_proj_b = [1, 0, 0, 1],
     gw_in_proj_a = [1, 0, 0, 1], gw_conv1d = [1, 0, 1, 0, 1, 0, 1, 0], gw_a_log = [1, 1], gw_dt_bias = [0, 0],
     gw_norm = [1], gw_out_proj = [1, 0, 0, 1]\<rparr>"

definition ex_attn :: "int AttnWeights" where
  "ex_attn = \<lparr>aw_q_proj = replicate 16 1, aw_k_proj = [1, 0, 0, 1], aw_v_proj = [1, 0, 0, 1], aw_o_proj = replicate 8 1,
     aw_q_norm = [1, 1], aw_k_norm = [1, 1]\<rparr>"

definition ex_w :: "int ModelWeights" where
  "ex_w = \<lparr>mw_embed_tokens = [1, 2, 3, 4, 5, 6], mw_final_norm = [1, 1], mw_lm_head = [1, 0, 0, 1, 1, 1],
     mw_layers = [\<lparr>la_kind = LinearAttention, la_layer = ex_layer, la_gdn = Some ex_gdn, la_attn = None\<rparr>,
                  \<lparr>la_kind = FullAttention, la_layer = ex_layer, la_gdn = None, la_attn = Some ex_attn\<rparr>]\<rparr>"

lemma ex_model:
  "model_ok ex_mcfg ex_w" "vocab_ok ex_mcfg" "tokens_ok ex_mcfg [0, 2]" "tokens_ok ex_mcfg [1]"
  by (simp_all add: model_ok_def layers_ok_def vocab_ok_def tokens_ok_def mixer_def ok_or_def gdn_ok_def attn_ok_def
      layer_ok_def mlp_ok_def conv_dim_def key_dim_def value_dim_def q_out_dim_def kv_out_dim_def ex_w_def ex_mcfg_def
      ex_layer_def ex_gdn_def ex_attn_def ex_gdn_cfg_def ex_attn_cfg_def)

theorem forward_cached_chunks_witness:
  "\<exists>trs c tr. feed ex_N ex_mcfg ex_w [[0, 2], [1], [1]] (Cache_new ex_N ex_mcfg ex_w 1) = Inr (trs, c) \<and>
    forward ex_N ex_mcfg ex_w [0, 2, 1, 1] = Inr tr \<and> concat (map mtr_logits trs) = mtr_logits tr \<and> c_len c = 4"
  using forward_cached_chunks [OF ex_model(1), of "[[0, 2], [1], [1]]" ex_N] ex_model(3,4) by (simp del: feed.simps One_nat_def add: numeral_eq_Suc)

theorem greedy_cached_is_greedy_witness:
  "\<exists>ids trs trs'. greedy_cached ex_N ex_mcfg ex_w [0, 2] 5 = Inr (ids, trs) \<and> greedy ex_N ex_mcfg ex_w [0, 2] 5 = Inr (ids, trs') \<and>
    length ids = 5"
  using greedy_cached_is_greedy [OF ex_model(1-3), of ex_N 5] by blast

theorem greedy_stopping_prefix_witness:
  "\<exists>ids trs trs'. greedy_cached ex_N ex_mcfg ex_w [0, 2] 5 = Inr (ids, trs) \<and>
    greedy_cached_stopping ex_N ex_mcfg ex_w [0, 2] 5 [1] = Inr (takeWhile (\<lambda>x. x \<noteq> 1) ids, trs', 1 \<in> set ids)"
  using greedy_stopping_prefix [OF ex_model(1-3), of ex_N 5 "[1]"] by simp

theorem sample_stopping_outcome_witness:
  "case fst (sample_stopping ex_N int ex_mcfg ex_w [0, 2] 3 ex_sampler [2]) of
      Inl e \<Rightarrow> e = NonFiniteLogits \<or> (\<exists>d. e = SamplerFailed d)
    | Inr (ids, trs, hit) \<Rightarrow> length trs = length ids \<and> length ids \<le> 3 \<and> (hit \<or> length ids = 3)"
  using sample_stopping_outcome [OF ex_model(1-3), where N = ex_N and ?scale53.0 = int and steps = 3 and sa = ex_sampler and stop = "[2]"] by (auto split: sum.splits)

theorem cache_bytes_growth_witness:
  "\<exists>trs c. feed ex_N ex_mcfg ex_w [[0, 2], [1]] (Cache_new ex_N ex_mcfg ex_w 1) = Inr (trs, c) \<and>
    bytes_by_kind c = (24, 48) \<and> Cache_bytes c = 72"
  using cache_bytes_growth [OF ex_model(1), of "[[0, 2], [1]]" ex_N] ex_model(3,4)
  by (auto simp: layers_of_def gdn_bytes_def conv_dim_def key_dim_def value_dim_def kv_out_dim_def ex_w_def ex_mcfg_def
      ex_gdn_cfg_def ex_attn_cfg_def)

theorem delta_rule_continues_witness:
  "\<exists>st1 o1 st2 o2.
    forward_prepared_into ex_N \<lparr>sh_b = 1, sh_t = 1, sh_h = 1, sh_k = 1, sh_v = 1\<rparr> [1] [2] [3] [0] [1] [0] = Inr (st1, o1) \<and>
    forward_prepared_into ex_N \<lparr>sh_b = 1, sh_t = 1, sh_h = 1, sh_k = 1, sh_v = 1\<rparr> [4] [5] [6] [0] [1] st1 = Inr (st2, o2) \<and>
    forward_prepared_into ex_N \<lparr>sh_b = 1, sh_t = 2, sh_h = 1, sh_k = 1, sh_v = 1\<rparr> [1, 4] [2, 5] [3, 6] [0, 0] [1, 1] [0] =
      Inr (st2, o1 @ o2)"
  using delta_rule_continues [where s = "\<lparr>sh_b = 1, sh_t = 0, sh_h = 1, sh_k = 1, sh_v = 1\<rparr>" and ?t1.0 = 1 and ?t2.0 = 1
      and ?q1.0 = "[1]" and ?k1.0 = "[2]" and ?v1.0 = "[3]" and ?g1.0 = "[0]" and ?b1.0 = "[1]" and ?q2.0 = "[4]"
      and ?k2.0 = "[5]" and ?v2.0 = "[6]" and ?g2.0 = "[0]" and ?b2.0 = "[1]" and st = "[0]" and N = ex_N]
  by (simp add: validate_operands_def numeral_2_eq_2)

end
