(* ===== verification/Weight_Source.thy ===== *)
theory Weight_Source
  imports Model Serde_Json
begin

text \<open>
  What the two weight loaders share. Both read a tensor by name and insist on an element count, and
  both fill the weight records of the forward pass from such reads. \<open>tensor_source\<close> is that
  interface; inside it the invariant \<open>model_ok\<close> of the forward pass is established once, from the reads
  alone. A count is computed in \<open>usize\<close>, so it wraps; \<open>sizes_fit\<close> says that no count of the model does.
  JSON numbers and the conversions between floats and integers are the parameter \<open>C\<close>.
\<close>

record 'g casts =
  ca_as_f64 :: "'g jnum \<Rightarrow> 'g"
  ca_f32 :: "'g \<Rightarrow> u32"
  ca_of_usize :: "nat \<Rightarrow> u32"
  ca_mul :: "u32 \<Rightarrow> u32 \<Rightarrow> u32"
  ca_to_usize :: "u32 \<Rightarrow> nat"
  ca_1e4 :: 'g
  ca_1 :: 'g
  ca_1e_6 :: u32

fun as_f64 :: "'g casts \<Rightarrow> 'g json \<Rightarrow> 'g option" where
  "as_f64 C (JNum n) = Some (ca_as_f64 C n)"
| "as_f64 C _ = None"

definition rope_number :: "'g casts \<Rightarrow> 'g json \<Rightarrow> rstr \<Rightarrow> 'g \<Rightarrow> u32" where
  "rope_number C cfg key dflt =
     ca_f32 C (case Option.bind (Option.bind (jget cfg (lit ''rope_parameters'')) (\<lambda>r. jget r key)) (as_f64 C) of Some v \<Rightarrow> v | None \<Rightarrow> dflt)"

definition wrap64 :: "nat \<Rightarrow> nat" where "wrap64 n = n mod 2 ^ 64"

lemma wrap64_id [simp]: "n < 2 ^ 64 \<Longrightarrow> wrap64 n = n"
  by (simp add: wrap64_def)

lemma show_nat_digit: "n < 10 \<Longrightarrow> show_nat n = [48 + n]"
  by (subst show_nat.simps) simp

definition sizes_fit :: "'f ModelConfig \<Rightarrow> nat \<Rightarrow> bool" where
  "sizes_fit mcfg intermediate \<longleftrightarrow>
     list_all (\<lambda>n. n < 2 ^ 64)
       [mc_vocab mcfg * mc_hidden mcfg, intermediate * mc_hidden mcfg,
        conv_dim (mc_gdn mcfg) * mc_hidden mcfg, conv_dim (mc_gdn mcfg) * conv_kernel (mc_gdn mcfg),
        num_v_heads (mc_gdn mcfg) * mc_hidden mcfg,
        q_out_dim (mc_attn mcfg) * mc_hidden mcfg, kv_out_dim (mc_attn mcfg) * mc_hidden mcfg]"

text \<open>The configuration of a model whose two mixers and whose residual stream agree.\<close>

definition config_ok :: "'f ModelConfig \<Rightarrow> bool" where
  "config_ok mcfg \<longleftrightarrow> mc_hidden mcfg \<noteq> 0 \<and>
     gc_hidden (mc_gdn mcfg) = mc_hidden mcfg \<and> ac_hidden (mc_attn mcfg) = mc_hidden mcfg \<and>
     num_k_heads (mc_gdn mcfg) \<noteq> 0 \<and> num_k_heads (mc_gdn mcfg) dvd num_v_heads (mc_gdn mcfg) \<and>
     num_kv_heads (mc_attn mcfg) \<noteq> 0 \<and> num_kv_heads (mc_attn mcfg) dvd num_heads (mc_attn mcfg) \<and>
     rotary_dim (mc_attn mcfg) \<le> head_dim (mc_attn mcfg)"

lemma sizes_fitD:
  assumes "sizes_fit mcfg i" and "config_ok mcfg"
  shows "mc_vocab mcfg * mc_hidden mcfg < 2 ^ 64" and "i * mc_hidden mcfg < 2 ^ 64"
    and "conv_dim (mc_gdn mcfg) * gc_hidden (mc_gdn mcfg) < 2 ^ 64"
    and "value_dim (mc_gdn mcfg) * gc_hidden (mc_gdn mcfg) < 2 ^ 64"
    and "conv_dim (mc_gdn mcfg) * conv_kernel (mc_gdn mcfg) < 2 ^ 64"
    and "num_v_heads (mc_gdn mcfg) * gc_hidden (mc_gdn mcfg) < 2 ^ 64"
    and "q_out_dim (mc_attn mcfg) * ac_hidden (mc_attn mcfg) < 2 ^ 64"
    and "kv_out_dim (mc_attn mcfg) * ac_hidden (mc_attn mcfg) < 2 ^ 64"
    and "ac_hidden (mc_attn mcfg) * num_heads (mc_attn mcfg) * head_dim (mc_attn mcfg) < 2 ^ 64"
proof -
  have eq: "gc_hidden (mc_gdn mcfg) = mc_hidden mcfg" "ac_hidden (mc_attn mcfg) = mc_hidden mcfg"
    using assms(2) by (simp_all add: config_ok_def)
  show fit: "mc_vocab mcfg * mc_hidden mcfg < 2 ^ 64" "i * mc_hidden mcfg < 2 ^ 64"
    "conv_dim (mc_gdn mcfg) * gc_hidden (mc_gdn mcfg) < 2 ^ 64"
    "conv_dim (mc_gdn mcfg) * conv_kernel (mc_gdn mcfg) < 2 ^ 64"
    "num_v_heads (mc_gdn mcfg) * gc_hidden (mc_gdn mcfg) < 2 ^ 64"
    "q_out_dim (mc_attn mcfg) * ac_hidden (mc_attn mcfg) < 2 ^ 64"
    "kv_out_dim (mc_attn mcfg) * ac_hidden (mc_attn mcfg) < 2 ^ 64"
    using assms(1) unfolding eq by (simp_all add: sizes_fit_def)
  have "value_dim (mc_gdn mcfg) * gc_hidden (mc_gdn mcfg) \<le> conv_dim (mc_gdn mcfg) * gc_hidden (mc_gdn mcfg)"
    by (simp add: conv_dim_def)
  then show "value_dim (mc_gdn mcfg) * gc_hidden (mc_gdn mcfg) < 2 ^ 64" using fit(3) by (rule le_less_trans)
  have "ac_hidden (mc_attn mcfg) * num_heads (mc_attn mcfg) * head_dim (mc_attn mcfg)
      \<le> q_out_dim (mc_attn mcfg) * ac_hidden (mc_attn mcfg)"
    by (simp add: q_out_dim_def mult.commute mult.left_commute)
  then show "ac_hidden (mc_attn mcfg) * num_heads (mc_attn mcfg) * head_dim (mc_attn mcfg) < 2 ^ 64"
    using fit(6) by (rule le_less_trans)
qed

locale tensor_source =
  fixes fetch :: "rstr \<Rightarrow> nat \<Rightarrow> 'e + 'f list"
  assumes fetch_length: "fetch name n = Inr v \<Longrightarrow> length v = n"
begin

lemma fetched_gdn_ok:
  assumes "sizes_fit mcfg i" and "config_ok mcfg" and cfg: "cfg = mc_gdn mcfg"
    and "fetch n1 (wrap64 (conv_dim cfg * gc_hidden cfg)) = Inr (gw_in_proj_qkv w)"
    and "fetch n2 (wrap64 (value_dim cfg * gc_hidden cfg)) = Inr (gw_in_proj_z w)"
    and "fetch n3 (wrap64 (num_v_heads cfg * gc_hidden cfg)) = Inr (gw_in_proj_b w)"
    and "fetch n4 (wrap64 (num_v_heads cfg * gc_hidden cfg)) = Inr (gw_in_proj_a w)"
    and "fetch n5 (wrap64 (conv_dim cfg * conv_kernel cfg)) = Inr (gw_conv1d w)"
    and "fetch n6 (num_v_heads cfg) = Inr (gw_a_log w)"
    and "fetch n7 (num_v_heads cfg) = Inr (gw_dt_bias w)"
    and "fetch n8 (head_v_dim cfg) = Inr (gw_norm w)"
    and "fetch n9 (wrap64 (gc_hidden cfg * value_dim cfg)) = Inr (gw_out_proj w)"
  shows "mixer_ok (mc_hidden mcfg) (LinearMixer cfg w)"
  using assms(4-) [THEN fetch_length] sizes_fitD [OF assms(1,2)] assms(2)
  unfolding cfg by (simp add: gdn_ok_def config_ok_def mult.commute)

lemma fetched_attn_ok:
  assumes "sizes_fit mcfg i" and "config_ok mcfg" and cfg: "cfg = mc_attn mcfg"
    and "fetch n1 (wrap64 (q_out_dim cfg * ac_hidden cfg)) = Inr (aw_q_proj w)"
    and "fetch n2 (wrap64 (kv_out_dim cfg * ac_hidden cfg)) = Inr (aw_k_proj w)"
    and "fetch n3 (wrap64 (kv_out_dim cfg * ac_hidden cfg)) = Inr (aw_v_proj w)"
    and "fetch n4 (wrap64 (ac_hidden cfg * num_heads cfg * head_dim cfg)) = Inr (aw_o_proj w)"
    and "fetch n5 (head_dim cfg) = Inr (aw_q_norm w)"
    and "fetch n6 (head_dim cfg) = Inr (aw_k_norm w)"
  shows "mixer_ok (mc_hidden mcfg) (FullMixer cfg w)"
  using assms(4-) [THEN fetch_length] sizes_fitD [OF assms(1,2)] assms(2)
  unfolding cfg by (simp add: attn_ok_def config_ok_def mult.assoc)

lemma fetched_layer_ok:
  assumes "sizes_fit mcfg i" and "config_ok mcfg"
    and "fetch n1 (mc_hidden mcfg) = Inr (lw_input_layernorm lw)"
    and "fetch n2 (mc_hidden mcfg) = Inr (lw_post_attention_layernorm lw)"
    and "fetch n3 (wrap64 (i * mc_hidden mcfg)) = Inr (gate_proj (lw_mlp lw))"
    and "fetch n4 (wrap64 (i * mc_hidden mcfg)) = Inr (up_proj (lw_mlp lw))"
    and "fetch n5 (wrap64 (mc_hidden mcfg * i)) = Inr (down_proj (lw_mlp lw))"
  shows "layer_ok (mc_hidden mcfg) lw"
  using assms(3-) [THEN fetch_length] sizes_fitD(2) [OF assms(1,2)] assms(2)
  by (simp add: layer_ok_def mlp_ok_def config_ok_def mult.commute)

lemma fetched_model_ok:
  assumes "sizes_fit mcfg i" and "config_ok mcfg"
    and "fetch n1 (wrap64 (mc_vocab mcfg * mc_hidden mcfg)) = Inr (mw_embed_tokens w)"
    and "fetch n2 (wrap64 (mc_vocab mcfg * mc_hidden mcfg)) = Inr (mw_lm_head w)"
    and "fetch n3 (mc_hidden mcfg) = Inr (mw_final_norm w)"
    and "layers_ok mcfg (mw_layers w)"
  shows "model_ok mcfg w"
  using assms(3-5) [THEN fetch_length] assms(6) sizes_fitD(1) [OF assms(1,2)] assms(2)
  by (simp add: model_ok_def config_ok_def)

end

end
