(* ===== verification/Real_Checkpoint.thy ===== *)
theory Real_Checkpoint
  imports Safetensors Weight_Source
begin

text \<open>
  Assembling a published checkpoint into the forward pass (\<open>gdn/src/real.rs\<close>): the prefix of the language
  model, the sizes derived from tensor shapes and checked against the configuration, and the weights of
  every layer. Sizes are \<open>usize\<close>, with the wrap-around of products written out; an index out of range and
  a remainder by zero are the error \<open>RePanic\<close>.
\<close>

section \<open>Names and configuration\<close>

datatype real_error =
    ReNoConfig
  | ReBadJson
  | ReModelType rstr
  | ReCheckpoint ck_error
  | ReNoPrefix
  | ReAmbiguous nat
  | ReNoLayerTypes
  | ReNoKey rstr
  | ReShortTypes nat nat
  | ReMissing rstr
  | ReEmbedAxes "nat list"
  | ReOneKind
  | ReNoAxes
  | ReConvDim
  | ReDisagree "(rstr \<times> nat \<times> nat) list"
  | ReRotary nat nat
  | ReNoHead
  | ReCount rstr nat nat
  | ReUnknownType nat rstr
  | ReTypesEnd nat
  | RePanic

definition detect_prefix :: "CkModel \<Rightarrow> real_error + rstr" where
  "detect_prefix m =
     (let suffix = lit ''embed_tokens.weight'';
          found = sort (filter (\<lambda>n. ends_with n suffix) (ck_names m))
      in case found of
           [] \<Rightarrow> Inl ReNoPrefix
         | [n] \<Rightarrow> Inr (take (length n - length suffix) n)
         | _ \<Rightarrow> Inl (ReAmbiguous (length found)))"

definition is_unused :: "rstr \<Rightarrow> rstr option" where
  "is_unused name =
     (if starts_with name (lit ''model.visual.'') \<or> starts_with name (lit ''visual.'') then Some (lit ''vision tower'')
      else if starts_with name (lit ''mtp.'') then Some (lit ''multi-token-prediction head'')
      else None)"

definition cfg_usize :: "'g json \<Rightarrow> rstr \<Rightarrow> nat option" where
  "cfg_usize cfg key = map_option unat (Option.bind (jget cfg key) as_u64)"

definition text_config :: "'g json \<Rightarrow> 'g json \<times> rstr" where
  "text_config root =
     (case jget root (lit ''text_config'') of
        Some t \<Rightarrow> if as_object t \<noteq> None then (t, lit ''text_config'') else (root, lit ''top level'')
      | None \<Rightarrow> (root, lit ''top level''))"

record LoadInfo =
  li_dir :: rstr
  li_prefix :: rstr
  li_config_source :: rstr
  li_shards :: nat
  li_tensors_total :: nat
  li_tensor_bytes :: u64
  li_dtype_counts :: "(rstr \<times> nat) list"
  li_skipped :: "(rstr \<times> nat) list"
  li_tied_embeddings :: bool
  li_derived :: "(rstr \<times> nat) list"

record RealModel =
  rm_config :: "u32 ModelConfig"
  rm_weights :: "u32 ModelWeights"
  rm_info :: LoadInfo

definition kind_of :: "rstr list \<Rightarrow> nat \<Rightarrow> real_error + LayerKind" where
  "kind_of layer_types layer =
     (if length layer_types \<le> layer then Inl (ReTypesEnd layer)
      else if layer_types ! layer = lit ''linear_attention'' then Inr LinearAttention
      else if layer_types ! layer = lit ''full_attention'' then Inr FullAttention
      else Inl (ReUnknownType layer (layer_types ! layer)))"

definition want :: "CkModel \<Rightarrow> rstr \<Rightarrow> nat \<Rightarrow> real_error + u32 list" where
  "want m name expect =
     (case ck_tensor m name of
        Inl e \<Rightarrow> Inl (ReCheckpoint e)
      | Inr v \<Rightarrow> guard_err (length v \<noteq> expect) (ReCount name (length v) expect) (Inr v))"

definition shape_of :: "CkModel \<Rightarrow> rstr \<Rightarrow> real_error + nat list" where
  "shape_of m name = ok_or (map_option (\<lambda>e. map unat (en_shape e)) (ck_entry m name)) (ReMissing name)"

text \<open>\<open>shape[i]\<close>, which panics out of range.\<close>

definition axis :: "nat list \<Rightarrow> nat \<Rightarrow> real_error + nat" where
  "axis shape i = guard_err (length shape \<le> i) RePanic (Inr (shape ! i))"

section \<open>Sizes\<close>

definition count_key :: "rstr \<Rightarrow> (rstr \<times> nat) list \<Rightarrow> (rstr \<times> nat) list" where
  "count_key k m = AList.update k (case map_of m k of Some n \<Rightarrow> n + 1 | None \<Rightarrow> 1) m"

definition dtype_counts :: "CkModel \<Rightarrow> (rstr \<times> nat) list" where
  "dtype_counts m =
     sort_key fst (foldl (\<lambda>d name. case ck_entry m name of
         Some e \<Rightarrow> count_key (CkDtype_as_str (en_dtype e)) d
       | None \<Rightarrow> d) [] (ck_names m))"

definition skipped_counts :: "CkModel \<Rightarrow> (rstr \<times> nat) list" where
  "skipped_counts m =
     sort_key fst (foldl (\<lambda>d name. case is_unused name of Some why \<Rightarrow> count_key why d | None \<Rightarrow> d) [] (ck_names m))"

definition layer_types_of :: "'g json \<Rightarrow> real_error + rstr list \<times> nat" where
  "layer_types_of tc =
     (let layer_types = (case Option.bind (jget tc (lit ''layer_types'')) as_array of
            Some a \<Rightarrow> List.map_filter as_str a
          | None \<Rightarrow> [])
      in guard_err (layer_types = []) ReNoLayerTypes (
         try_bind (ok_or (cfg_usize tc (lit ''num_hidden_layers'')) (ReNoKey (lit ''num_hidden_layers''))) (\<lambda>num_layers.
         guard_err (length layer_types < num_layers) (ReShortTypes (length layer_types) num_layers)
           (Inr (layer_types, num_layers)))))"

record Sizes =
  sz_vocab :: nat
  sz_hidden :: nat
  sz_intermediate :: nat
  sz_conv_dim :: nat
  sz_value_dim :: nat
  sz_num_v_heads :: nat
  sz_head_v_dim :: nat
  sz_conv_kernel :: nat
  sz_head_dim :: nat
  sz_num_heads :: nat
  sz_num_kv_heads :: nat
  sz_q_out :: nat
  sz_kv_out :: nat
  sz_key_dim :: nat
  sz_num_k_heads_cfg :: nat
  sz_num_v_heads_cfg :: nat
  sz_head_k_dim_cfg :: nat
  sz_head_v_dim_cfg :: nat
  sz_att :: rstr

definition derive_sizes :: "CkModel \<Rightarrow> 'g json \<Rightarrow> rstr \<Rightarrow> rstr list \<Rightarrow> nat \<Rightarrow> real_error + Sizes" where
  "derive_sizes m tc prefix layer_types num_layers =
     (let key = (\<lambda>k. ok_or (cfg_usize tc k) (ReNoKey k)) in
      try_bind (shape_of m (prefix @ lit ''embed_tokens.weight'')) (\<lambda>emb_shape.
      guard_err (length emb_shape \<noteq> 2) (ReEmbedAxes emb_shape) (
      try_bind (try_bind (shape_of m (prefix @ lit ''layers.0.mlp.gate_proj.weight'')) (\<lambda>s. axis s 0)) (\<lambda>intermediate.
      case (find (\<lambda>l. kind_of layer_types l = Inr LinearAttention) [0..<num_layers],
            find (\<lambda>l. kind_of layer_types l = Inr FullAttention) [0..<num_layers]) of
        (Some first_linear, Some first_full) \<Rightarrow>
          let lin = (\<lambda>s. prefix @ lit ''layers.'' @ show_nat first_linear @ lit ''.linear_attn.'' @ s);
              att = prefix @ lit ''layers.'' @ show_nat first_full @ lit ''.self_attn.'';
              dim = (\<lambda>name. try_bind (shape_of m name) (\<lambda>s. axis s 0)) in
          try_bind (dim (lin (lit ''in_proj_qkv.weight''))) (\<lambda>conv_dim.
          try_bind (dim (lin (lit ''in_proj_z.weight''))) (\<lambda>value_dim.
          try_bind (dim (lin (lit ''in_proj_b.weight''))) (\<lambda>num_v_heads.
          try_bind (dim (lin (lit ''norm.weight''))) (\<lambda>head_v_dim.
          try_bind (shape_of m (lin (lit ''conv1d.weight''))) (\<lambda>conv_shape.
          guard_err (conv_shape = []) ReNoAxes (
          try_bind (key (lit ''head_dim'')) (\<lambda>head_dim.
          try_bind (key (lit ''num_attention_heads'')) (\<lambda>num_heads.
          try_bind (key (lit ''num_key_value_heads'')) (\<lambda>num_kv_heads.
          try_bind (dim (att @ lit ''q_proj.weight'')) (\<lambda>q_out.
          try_bind (dim (att @ lit ''k_proj.weight'')) (\<lambda>kv_out.
          guard_err (conv_dim < value_dim) ReConvDim (
          try_bind (key (lit ''linear_num_key_heads'')) (\<lambda>num_k_heads_cfg.
          try_bind (key (lit ''linear_num_value_heads'')) (\<lambda>num_v_heads_cfg.
          try_bind (key (lit ''linear_key_head_dim'')) (\<lambda>head_k_dim_cfg.
          try_bind (key (lit ''linear_value_head_dim'')) (\<lambda>head_v_dim_cfg.
          Inr \<lparr>sz_vocab = emb_shape ! 0, sz_hidden = emb_shape ! 1, sz_intermediate = intermediate, sz_conv_dim = conv_dim,
               sz_value_dim = value_dim, sz_num_v_heads = num_v_heads, sz_head_v_dim = head_v_dim,
               sz_conv_kernel = last conv_shape, sz_head_dim = head_dim, sz_num_heads = num_heads,
               sz_num_kv_heads = num_kv_heads, sz_q_out = q_out, sz_kv_out = kv_out,
               sz_key_dim = (conv_dim - value_dim) div 2, sz_num_k_heads_cfg = num_k_heads_cfg,
               sz_num_v_heads_cfg = num_v_heads_cfg, sz_head_k_dim_cfg = head_k_dim_cfg,
               sz_head_v_dim_cfg = head_v_dim_cfg, sz_att = att\<rparr>))))))))))))))))
      | _ \<Rightarrow> Inl ReOneKind))))"

definition derived_table :: "Sizes \<Rightarrow> nat \<Rightarrow> (rstr \<times> nat) list" where
  "derived_table z num_layers =
     sort_key fst
      [(lit ''vocab'', sz_vocab z), (lit ''hidden'', sz_hidden z), (lit ''intermediate'', sz_intermediate z),
       (lit ''num_layers'', num_layers), (lit ''conv_dim'', sz_conv_dim z), (lit ''key_dim'', sz_key_dim z),
       (lit ''value_dim'', sz_value_dim z), (lit ''num_v_heads'', sz_num_v_heads z), (lit ''head_v_dim'', sz_head_v_dim z),
       (lit ''conv_kernel'', sz_conv_kernel z), (lit ''head_dim'', sz_head_dim z), (lit ''num_heads'', sz_num_heads z),
       (lit ''num_kv_heads'', sz_num_kv_heads z), (lit ''per_layer_tensors'', 0)]"

text \<open>The \<open>check!\<close> macro: a report when the two numbers differ.\<close>

definition check_eq :: "rstr \<Rightarrow> nat \<Rightarrow> nat \<Rightarrow> (rstr \<times> nat \<times> nat) list" where
  "check_eq what from_config from_shapes = (if from_config \<noteq> from_shapes then [(what, from_config, from_shapes)] else [])"

definition cross_check :: "CkModel \<Rightarrow> Sizes \<Rightarrow> real_error + unit" where
  "cross_check m z =
     (let problems =
        check_eq (lit ''num_v_heads'') (sz_num_v_heads_cfg z) (sz_num_v_heads z) @
        check_eq (lit ''head_v_dim'') (sz_head_v_dim_cfg z) (sz_head_v_dim z) @
        check_eq (lit ''key_dim'') (wrap64 (sz_num_k_heads_cfg z * sz_head_k_dim_cfg z)) (sz_key_dim z) @
        check_eq (lit ''value_dim'') (wrap64 (sz_num_v_heads_cfg z * sz_head_v_dim_cfg z)) (sz_value_dim z) @
        check_eq (lit ''conv_dim'') (wrap64 (2 * sz_key_dim z + sz_value_dim z)) (sz_conv_dim z) @
        check_eq (lit ''q_proj out'') (wrap64 (sz_num_heads z * sz_head_dim z * 2)) (sz_q_out z) @
        check_eq (lit ''k_proj out'') (wrap64 (sz_num_kv_heads z * sz_head_dim z)) (sz_kv_out z) in
      guard_err (sz_num_kv_heads z = 0) RePanic (
      let problems = problems @ (if sz_num_heads z mod sz_num_kv_heads z \<noteq> 0
            then [(lit ''num_attention_heads'', sz_num_heads z, sz_num_kv_heads z)] else []) in
      guard_err (sz_num_k_heads_cfg z = 0) RePanic (
      let problems = problems @ (if sz_num_v_heads z mod sz_num_k_heads_cfg z \<noteq> 0
            then [(lit ''num_v_heads'', sz_num_v_heads z, sz_num_k_heads_cfg z)] else []) in
      try_bind (shape_of m (sz_att z @ lit ''o_proj.weight'')) (\<lambda>o_shape.
      try_bind (axis o_shape 1) (\<lambda>o_in.
      try_bind (axis o_shape 0) (\<lambda>o_out.
      let problems = problems @ check_eq (lit ''o_proj in'') o_in (wrap64 (sz_num_heads z * sz_head_dim z)) @
            check_eq (lit ''o_proj out'') o_out (sz_hidden z) in
      guard_err (problems \<noteq> []) (ReDisagree problems) (Inr ())))))))"

section \<open>Weights\<close>

definition real_gdn_weights :: "CkModel \<Rightarrow> rstr \<Rightarrow> Sizes \<Rightarrow> real_error + u32 GdnWeights" where
  "real_gdn_weights m lp z =
     (let hidden = sz_hidden z in
      try_bind (want m (lp @ lit ''in_proj_qkv.weight'') (wrap64 (sz_conv_dim z * hidden))) (\<lambda>in_proj_qkv.
      try_bind (want m (lp @ lit ''in_proj_z.weight'') (wrap64 (sz_value_dim z * hidden))) (\<lambda>in_proj_z.
      try_bind (want m (lp @ lit ''in_proj_b.weight'') (wrap64 (sz_num_v_heads z * hidden))) (\<lambda>in_proj_b.
      try_bind (want m (lp @ lit ''in_proj_a.weight'') (wrap64 (sz_num_v_heads z * hidden))) (\<lambda>in_proj_a.
      try_bind (want m (lp @ lit ''conv1d.weight'') (wrap64 (sz_conv_dim z * sz_conv_kernel z))) (\<lambda>conv1d.
      try_bind (want m (lp @ lit ''A_log'') (sz_num_v_heads z)) (\<lambda>a_log.
      try_bind (want m (lp @ lit ''dt_bias'') (sz_num_v_heads z)) (\<lambda>dt_bias.
      try_bind (want m (lp @ lit ''norm.weight'') (sz_head_v_dim z)) (\<lambda>norm.
      try_bind (want m (lp @ lit ''out_proj.weight'') (wrap64 (hidden * sz_value_dim z))) (\<lambda>out_proj.
      Inr \<lparr>gw_in_proj_qkv = in_proj_qkv, gw_in_proj_z = in_proj_z, gw_in_proj_b = in_proj_b, gw_in_proj_a = in_proj_a,
           gw_conv1d = conv1d, gw_a_log = a_log, gw_dt_bias = dt_bias, gw_norm = norm, gw_out_proj = out_proj\<rparr>))))))))))"

definition real_attn_weights :: "CkModel \<Rightarrow> rstr \<Rightarrow> Sizes \<Rightarrow> real_error + u32 AttnWeights" where
  "real_attn_weights m ap z =
     (let hidden = sz_hidden z in
      try_bind (want m (ap @ lit ''q_proj.weight'') (wrap64 (sz_q_out z * hidden))) (\<lambda>q_proj.
      try_bind (want m (ap @ lit ''k_proj.weight'') (wrap64 (sz_kv_out z * hidden))) (\<lambda>k_proj.
      try_bind (want m (ap @ lit ''v_proj.weight'') (wrap64 (sz_kv_out z * hidden))) (\<lambda>v_proj.
      try_bind (want m (ap @ lit ''o_proj.weight'') (wrap64 (hidden * sz_num_heads z * sz_head_dim z))) (\<lambda>o_proj.
      try_bind (want m (ap @ lit ''q_norm.weight'') (sz_head_dim z)) (\<lambda>q_norm.
      try_bind (want m (ap @ lit ''k_norm.weight'') (sz_head_dim z)) (\<lambda>k_norm.
      Inr \<lparr>aw_q_proj = q_proj, aw_k_proj = k_proj, aw_v_proj = v_proj, aw_o_proj = o_proj, aw_q_norm = q_norm,
           aw_k_norm = k_norm\<rparr>)))))))"

definition real_layer :: "CkModel \<Rightarrow> rstr \<Rightarrow> rstr list \<Rightarrow> Sizes \<Rightarrow> nat \<Rightarrow> real_error + u32 LayerWeightsAll" where
  "real_layer m prefix layer_types z layer =
     try_bind (kind_of layer_types layer) (\<lambda>kind.
     let p = prefix @ lit ''layers.'' @ show_nat layer @ lit ''.''; hidden = sz_hidden z; intermediate = sz_intermediate z in
     try_bind (want m (p @ lit ''input_layernorm.weight'') hidden) (\<lambda>input_layernorm.
     try_bind (want m (p @ lit ''post_attention_layernorm.weight'') hidden) (\<lambda>post_attention_layernorm.
     try_bind (want m (p @ lit ''mlp.gate_proj.weight'') (wrap64 (intermediate * hidden))) (\<lambda>gate.
     try_bind (want m (p @ lit ''mlp.up_proj.weight'') (wrap64 (intermediate * hidden))) (\<lambda>up.
     try_bind (want m (p @ lit ''mlp.down_proj.weight'') (wrap64 (hidden * intermediate))) (\<lambda>down.
     let lw = \<lparr>lw_input_layernorm = input_layernorm, lw_post_attention_layernorm = post_attention_layernorm,
               lw_mlp = \<lparr>gate_proj = gate, up_proj = up, down_proj = down\<rparr>\<rparr> in
     case kind of
       LinearAttention \<Rightarrow> try_bind (real_gdn_weights m (p @ lit ''linear_attn.'') z) (\<lambda>g.
         Inr \<lparr>la_kind = kind, la_layer = lw, la_gdn = Some g, la_attn = None\<rparr>)
     | FullAttention \<Rightarrow> try_bind (real_attn_weights m (p @ lit ''self_attn.'') z) (\<lambda>a.
         Inr \<lparr>la_kind = kind, la_layer = lw, la_gdn = None, la_attn = Some a\<rparr>)))))))"

definition pick_head :: "CkModel \<Rightarrow> 'g json \<Rightarrow> rstr \<Rightarrow> rstr \<Rightarrow> real_error + rstr" where
  "pick_head m tc prefix emb_name =
     (let tied = (case Option.bind (jget tc (lit ''tie_word_embeddings'')) as_bool of Some t \<Rightarrow> t | None \<Rightarrow> True)
      in if ck_contains m (prefix @ lit ''lm_head.weight'') then Inr (prefix @ lit ''lm_head.weight'')
         else if ck_contains m (lit ''lm_head.weight'') then Inr (lit ''lm_head.weight'')
         else if tied then Inr emb_name
         else Inl ReNoHead)"

definition real_config :: "'g casts \<Rightarrow> 'g json \<Rightarrow> Sizes \<Rightarrow> real_error + u32 ModelConfig" where
  "real_config C tc z =
     (let rope_theta = rope_number C tc (lit ''rope_theta'') (ca_1e4 C);
          partial = rope_number C tc (lit ''partial_rotary_factor'') (ca_1 C);
          rotary_dim = ca_to_usize C (ca_mul C (ca_of_usize C (sz_head_dim z)) partial) in
      guard_err (rotary_dim = 0 \<or> sz_head_dim z < rotary_dim \<or> rotary_dim mod 2 \<noteq> 0) (ReRotary rotary_dim (sz_head_dim z)) (
      try_bind (ok_or (map_option (ca_f32 C) (Option.bind (jget tc (lit ''rms_norm_eps'')) (as_f64 C))) (ReNoKey (lit ''rms_norm_eps''))) (\<lambda>eps.
      Inr \<lparr>mc_vocab = sz_vocab z, mc_hidden = sz_hidden z, mc_eps = eps,
           mc_gdn = \<lparr>gc_hidden = sz_hidden z, num_k_heads = sz_num_k_heads_cfg z, num_v_heads = sz_num_v_heads z,
             head_k_dim = sz_head_k_dim_cfg z, head_v_dim = sz_head_v_dim z, conv_kernel = sz_conv_kernel z, gc_eps = eps\<rparr>,
           mc_attn = \<lparr>ac_hidden = sz_hidden z, num_heads = sz_num_heads z, num_kv_heads = sz_num_kv_heads z,
             head_dim = sz_head_dim z, rotary_dim = rotary_dim, rope_theta = rope_theta, ac_eps = eps\<rparr>\<rparr>)))"

text \<open>\<open>fs\<close>: the files; \<open>entries\<close>: what \<open>read_dir\<close> lists in the directory.\<close>

definition real_load ::
  "'g casts \<Rightarrow> (rstr \<Rightarrow> u8 list option) \<Rightarrow> rstr list \<Rightarrow> (u8 list \<Rightarrow> 'g json option) \<Rightarrow> rstr \<Rightarrow> real_error + RealModel" where
  "real_load C fs entries from_slice dir =
     try_bind (ok_or (fs (path_join dir (lit ''config.json''))) ReNoConfig) (\<lambda>raw.
     try_bind (ok_or (from_slice raw) ReBadJson) (\<lambda>root.
     let (tc, cfg_source) = text_config root;
         model_type = (case Option.bind (case jget tc (lit ''model_type'') of Some v \<Rightarrow> Some v | None \<Rightarrow> jget root (lit ''model_type'')) as_str of
             Some s \<Rightarrow> s
           | None \<Rightarrow> []) in
     guard_err (\<not> starts_with model_type (lit ''qwen3_5'')) (ReModelType model_type) (
     case CkModel_open fs from_slice entries of
       Inl e \<Rightarrow> Inl (ReCheckpoint e)
     | Inr m \<Rightarrow>
         try_bind (detect_prefix m) (\<lambda>prefix.
         try_bind (layer_types_of tc) (\<lambda>(layer_types, num_layers).
         try_bind (derive_sizes m tc prefix layer_types num_layers) (\<lambda>z.
         try_bind (cross_check m z) (\<lambda>_.
         try_bind (real_config C tc z) (\<lambda>config.
         let emb_name = prefix @ lit ''embed_tokens.weight'' in
         try_bind (pick_head m tc prefix emb_name) (\<lambda>lm_name.
         try_bind (want m emb_name (wrap64 (sz_vocab z * sz_hidden z))) (\<lambda>embed.
         try_bind (want m lm_name (wrap64 (sz_vocab z * sz_hidden z))) (\<lambda>lm_head.
         try_bind (collect_result (real_layer m prefix layer_types z) [0..<num_layers]) (\<lambda>layers.
         try_bind (want m (prefix @ lit ''norm.weight'') (sz_hidden z)) (\<lambda>final_norm.
         Inr \<lparr>rm_config = config,
              rm_weights = \<lparr>mw_embed_tokens = embed, mw_final_norm = final_norm, mw_lm_head = lm_head, mw_layers = layers\<rparr>,
              rm_info = \<lparr>li_dir = dir, li_prefix = prefix, li_config_source = cfg_source, li_shards = length (ck_shards m),
                li_tensors_total = length (ck_names m), li_tensor_bytes = ck_tensor_bytes m, li_dtype_counts = dtype_counts m,
                li_skipped = skipped_counts m, li_tied_embeddings = (lm_name = emb_name),
                li_derived = derived_table z num_layers\<rparr>\<rparr>)))))))))))))"

section \<open>What a loaded checkpoint satisfies\<close>

interpretation ckpt: tensor_source "want m" for m
  by unfold_locales (auto simp: want_def split: sum.splits)

lemma check_eq_Nil [simp]: "check_eq what a b = [] \<longleftrightarrow> a = b"
  by (simp add: check_eq_def)

lemma cross_check_ok:
  assumes "cross_check m z = Inr u"
  shows "sz_num_kv_heads z \<noteq> 0" and "sz_num_kv_heads z dvd sz_num_heads z"
    and "sz_num_k_heads_cfg z \<noteq> 0" and "sz_num_k_heads_cfg z dvd sz_num_v_heads z"
    and "sz_head_v_dim_cfg z = sz_head_v_dim z" and "sz_num_v_heads_cfg z = sz_num_v_heads z"
    and "wrap64 (sz_num_k_heads_cfg z * sz_head_k_dim_cfg z) = sz_key_dim z"
    and "wrap64 (sz_num_v_heads_cfg z * sz_head_v_dim_cfg z) = sz_value_dim z"
    and "wrap64 (2 * sz_key_dim z + sz_value_dim z) = sz_conv_dim z"
    and "wrap64 (sz_num_heads z * sz_head_dim z * 2) = sz_q_out z"
    and "wrap64 (sz_num_kv_heads z * sz_head_dim z) = sz_kv_out z"
  using assms
  by (clarsimp simp: cross_check_def Let_def mod_eq_0_iff_dvd simp del: lit_simps split: if_splits)+

lemma real_config_fields:
  assumes "real_config C tc z = Inr cfg"
  shows "mc_vocab cfg = sz_vocab z" and "mc_hidden cfg = sz_hidden z"
    and "gc_hidden (mc_gdn cfg) = sz_hidden z" and "num_k_heads (mc_gdn cfg) = sz_num_k_heads_cfg z"
    and "num_v_heads (mc_gdn cfg) = sz_num_v_heads z" and "head_k_dim (mc_gdn cfg) = sz_head_k_dim_cfg z"
    and "head_v_dim (mc_gdn cfg) = sz_head_v_dim z" and "conv_kernel (mc_gdn cfg) = sz_conv_kernel z"
    and "ac_hidden (mc_attn cfg) = sz_hidden z" and "num_heads (mc_attn cfg) = sz_num_heads z"
    and "num_kv_heads (mc_attn cfg) = sz_num_kv_heads z" and "head_dim (mc_attn cfg) = sz_head_dim z"
    and "rotary_dim (mc_attn cfg) \<le> head_dim (mc_attn cfg)"
  using assms by (auto simp: real_config_def Let_def simp del: lit_simps)

lemma real_config_ok:
  assumes "real_config C tc z = Inr cfg" and "cross_check m z = Inr u" and "mc_hidden cfg \<noteq> 0"
  shows "config_ok cfg"
  using real_config_fields [OF assms(1)] cross_check_ok [OF assms(2)] assms(3) by (simp add: config_ok_def)

text \<open>The sizes read off the shapes are those the configuration computes.\<close>

lemma real_sizes:
  assumes cfg: "real_config C tc z = Inr cfg" and check: "cross_check m z = Inr u" and nz: "mc_hidden cfg \<noteq> 0" and fit: "sizes_fit cfg i"
  shows "sz_value_dim z = value_dim (mc_gdn cfg)" and "sz_conv_dim z = conv_dim (mc_gdn cfg)"
    and "sz_q_out z = q_out_dim (mc_attn cfg)" and "sz_kv_out z = kv_out_dim (mc_attn cfg)"
proof -
  note f = real_config_fields [OF cfg] and x = cross_check_ok [OF check]
  have le: "a < 2 ^ 64" if "a * mc_hidden cfg < 2 ^ 64" for a
    using that nz by (metis le_less_trans mult_le_mono2 mult.right_neutral One_nat_def Suc_leI neq0_conv)
  have conv: "conv_dim (mc_gdn cfg) < 2 ^ 64" and q: "q_out_dim (mc_attn cfg) < 2 ^ 64" and kv: "kv_out_dim (mc_attn cfg) < 2 ^ 64"
    using fit by (simp_all only: le sizes_fit_def list.pred_inject)
  have "key_dim (mc_gdn cfg) \<le> conv_dim (mc_gdn cfg)" and "value_dim (mc_gdn cfg) \<le> conv_dim (mc_gdn cfg)"
    by (simp_all add: conv_dim_def)
  then have kd: "key_dim (mc_gdn cfg) < 2 ^ 64" and vd: "value_dim (mc_gdn cfg) < 2 ^ 64" using conv by (auto intro: le_less_trans)
  have key: "sz_key_dim z = key_dim (mc_gdn cfg)"
    using x(7) wrap64_id [OF kd] f by (simp add: key_dim_def mult.commute)
  show val: "sz_value_dim z = value_dim (mc_gdn cfg)"
    using x(5,6,8) wrap64_id [OF vd] f by (simp add: value_dim_def mult.commute)
  show "sz_conv_dim z = conv_dim (mc_gdn cfg)"
    using x(9) wrap64_id [OF conv] by (simp add: conv_dim_def key val mult.commute)
  show "sz_q_out z = q_out_dim (mc_attn cfg)" using x(10) wrap64_id [OF q] f by (simp add: q_out_dim_def)
  show "sz_kv_out z = kv_out_dim (mc_attn cfg)" using x(11) wrap64_id [OF kv] f by (simp add: kv_out_dim_def)
qed

lemma real_gdn_weights_ok:
  assumes cfg: "real_config C tc z = Inr cfg" and check: "cross_check m z = Inr u" and nz: "mc_hidden cfg \<noteq> 0" and fit: "sizes_fit cfg i"
    and w: "real_gdn_weights m lp z = Inr w"
  shows "mixer_ok (mc_hidden cfg) (LinearMixer (mc_gdn cfg) w)"
  by (rule ckpt.fetched_gdn_ok [OF fit real_config_ok [OF cfg check nz]])
    (use w real_config_fields [OF cfg] real_sizes [OF cfg check nz fit] in \<open>auto simp: real_gdn_weights_def Let_def simp del: lit_simps\<close>)

lemma real_attn_weights_ok:
  assumes cfg: "real_config C tc z = Inr cfg" and check: "cross_check m z = Inr u" and nz: "mc_hidden cfg \<noteq> 0" and fit: "sizes_fit cfg i"
    and w: "real_attn_weights m ap z = Inr w"
  shows "mixer_ok (mc_hidden cfg) (FullMixer (mc_attn cfg) w)"
  by (rule ckpt.fetched_attn_ok [OF fit real_config_ok [OF cfg check nz]])
    (use w real_config_fields [OF cfg] real_sizes [OF cfg check nz fit] in \<open>auto simp: real_attn_weights_def Let_def simp del: lit_simps\<close>)

lemma real_layer_ok:
  assumes cfg: "real_config C tc z = Inr cfg" and check: "cross_check m z = Inr u" and nz: "mc_hidden cfg \<noteq> 0"
    and fit: "sizes_fit cfg (sz_intermediate z)" and lw: "real_layer m prefix types z layer = Inr lw"
  shows "lift_ok (mc_hidden cfg) (mixer lw cfg) \<and> layer_ok (mc_hidden cfg) (la_layer lw) \<and> kind_of types layer = Inr (la_kind lw)"
proof -
  obtain kind where kind: "kind_of types layer = Inr kind" using lw by (auto simp: real_layer_def)
  have "layer_ok (mc_hidden cfg) (la_layer lw)"
    by (rule ckpt.fetched_layer_ok [OF fit real_config_ok [OF cfg check nz]])
      (use lw kind real_config_fields [OF cfg] in \<open>cases kind; auto simp: real_layer_def Let_def simp del: lit_simps\<close>)+
  moreover have "lift_ok (mc_hidden cfg) (mixer lw cfg) \<and> la_kind lw = kind"
  proof (cases kind)
    case LinearAttention
    with lw kind obtain p w where "real_gdn_weights m p z = Inr w" "la_kind lw = LinearAttention" "la_gdn lw = Some w"
      by (auto simp: real_layer_def Let_def simp del: lit_simps)
    then show ?thesis using real_gdn_weights_ok [OF cfg check nz fit] LinearAttention by (simp add: mixer_def)
  next
    case FullAttention
    with lw kind obtain p w where "real_attn_weights m p z = Inr w" "la_kind lw = FullAttention" "la_attn lw = Some w"
      by (auto simp: real_layer_def Let_def simp del: lit_simps)
    then show ?thesis using real_attn_weights_ok [OF cfg check nz fit] FullAttention by (simp add: mixer_def)
  qed
  ultimately show ?thesis using kind by simp
qed

lemma distinct_sort_key: "distinct (map fst xs) \<Longrightarrow> distinct (map fst (sort_key fst xs))"
  by (simp add: distinct_map)

lemma map_of_sort_key:
  assumes "distinct (map fst xs)"
  shows "map_of (sort_key fst xs) = map_of xs"
proof -
  have "distinct (map fst (sort_key fst xs))"
    using assms by (rule distinct_sort_key)
  then show ?thesis using assms by (intro map_of_eqI) (auto simp: map_of_eq_Some_iff)
qed

lemma derived_intermediate: "map_of (derived_table z n) (lit ''intermediate'') = Some (sz_intermediate z)"
  unfolding derived_table_def by (subst map_of_sort_key) simp_all

lemma real_load_parts:
  assumes "real_load C fs entries from_slice dir = Inr rm"
  obtains m tc prefix types num_layers z lm_name where "CkModel_open fs from_slice entries = Inr m" and "detect_prefix m = Inr prefix"
    and "cross_check m z = Inr ()" and "real_config C tc z = Inr (rm_config rm)"
    and "want m (prefix @ lit ''embed_tokens.weight'') (wrap64 (sz_vocab z * sz_hidden z)) = Inr (mw_embed_tokens (rm_weights rm))"
    and "want m lm_name (wrap64 (sz_vocab z * sz_hidden z)) = Inr (mw_lm_head (rm_weights rm))"
    and "collect_result (real_layer m prefix types z) [0..<num_layers] = Inr (mw_layers (rm_weights rm))"
    and "want m (prefix @ lit ''norm.weight'') (sz_hidden z) = Inr (mw_final_norm (rm_weights rm))"
    and "li_derived (rm_info rm) = derived_table z num_layers" and "li_prefix (rm_info rm) = prefix"
proof (cases "CkModel_open fs from_slice entries")
  case (Inl e)
  with assms show thesis by (auto simp: real_load_def case_prod_unfold Let_def simp del: lit_simps)
next
  case (Inr m)
  with assms show thesis
    by (auto simp: real_load_def case_prod_unfold Let_def simp del: lit_simps intro!: that)
qed

text \<open>The sizes the report lists; \<open>intermediate\<close> is not kept in the configuration.\<close>

definition checkpoint_fits :: "RealModel \<Rightarrow> bool" where
  "checkpoint_fits rm \<longleftrightarrow> mc_hidden (rm_config rm) \<noteq> 0 \<and>
     (case map_of (li_derived (rm_info rm)) (lit ''intermediate'') of Some i \<Rightarrow> sizes_fit (rm_config rm) i | None \<Rightarrow> False)"

lemma real_load_ok:
  assumes "real_load C fs entries from_slice dir = Inr rm" and "checkpoint_fits rm"
  shows "model_ok (rm_config rm) (rm_weights rm)"
  using assms(1)
proof (rule real_load_parts)
  fix m tc prefix types num_layers z lm_name
  assume check: "cross_check m z = Inr ()" and cfg: "real_config C tc z = Inr (rm_config rm)"
    and embed: "want m (prefix @ lit ''embed_tokens.weight'') (wrap64 (sz_vocab z * sz_hidden z)) = Inr (mw_embed_tokens (rm_weights rm))"
    and head: "want m lm_name (wrap64 (sz_vocab z * sz_hidden z)) = Inr (mw_lm_head (rm_weights rm))"
    and layers: "collect_result (real_layer m prefix types z) [0..<num_layers] = Inr (mw_layers (rm_weights rm))"
    and norm: "want m (prefix @ lit ''norm.weight'') (sz_hidden z) = Inr (mw_final_norm (rm_weights rm))"
    and derived: "li_derived (rm_info rm) = derived_table z num_layers"
  have nz: "mc_hidden (rm_config rm) \<noteq> 0" and fit: "sizes_fit (rm_config rm) (sz_intermediate z)"
    using assms(2) by (simp_all add: checkpoint_fits_def derived derived_intermediate del: lit_simps)
  have "layers_ok (rm_config rm) (mw_layers (rm_weights rm))"
    unfolding layers_ok_def list_all_iff
    using collect_result_memD [OF layers] real_layer_ok [OF cfg check nz fit] by blast
  then show ?thesis
    by (intro ckpt.fetched_model_ok [OF fit real_config_ok [OF cfg check nz]])
      (use embed head norm real_config_fields(1,2) [OF cfg] in auto)
qed


lemma greedy_spec_vocab:
  "vocab_ok cfg \<Longrightarrow> ids \<noteq> [] \<Longrightarrow> x \<in> set (greedy_spec N cfg w n ids) \<Longrightarrow> fst x < mc_vocab cfg"
proof (induction n arbitrary: ids)
  case (Suc n)
  then show ?case using next_token(2) [OF Suc.prems(1) length_last_row [OF Suc.prems(2)]] by (auto simp: Let_def)
qed simp

text \<open>From the files of a checkpoint to tokens: greedy decoding on the loaded model succeeds for every prompt over the
  vocabulary and returns the requested number of tokens of the vocabulary.\<close>

lemma checkpoint_generates:
  assumes "real_load C fs entries from_slice dir = Inr rm" and "checkpoint_fits rm"
    and "vocab_ok (rm_config rm)" and "tokens_ok (rm_config rm) prompt"
  shows "\<exists>ids trs. greedy_cached N (rm_config rm) (rm_weights rm) prompt steps = Inr (ids, trs) \<and>
    length ids = steps \<and> (\<forall>t \<in> set ids. t < mc_vocab (rm_config rm))"
proof -
  have "prompt \<noteq> []" using assms(4) by (simp add: tokens_ok_def)
  with greedy_cached_stopping_run [OF real_load_ok [OF assms(1,2)] assms(3,4), of N steps "[]"] greedy_spec_vocab [OF assms(3)]
  show ?thesis by (fastforce simp: greedy_cached_def kept_all)
qed

section \<open>Witnesses\<close>

text \<open>A checkpoint with one layer of each kind whose tensors all start at the same byte.\<close>

definition rc_table :: "(rstr \<times> u64 list \<times> nat) list" where
  "rc_table =
   [(lit ''m.embed_tokens.weight'', [1, 1], 1),
    (lit ''m.norm.weight'', [1], 1),
    (lit ''m.layers.0.input_layernorm.weight'', [1], 1),
    (lit ''m.layers.0.post_attention_layernorm.weight'', [1], 1),
    (lit ''m.layers.0.mlp.gate_proj.weight'', [1, 1], 1),
    (lit ''m.layers.0.mlp.up_proj.weight'', [1, 1], 1),
    (lit ''m.layers.0.mlp.down_proj.weight'', [1, 1], 1),
    (lit ''m.layers.1.input_layernorm.weight'', [1], 1),
    (lit ''m.layers.1.post_attention_layernorm.weight'', [1], 1),
    (lit ''m.layers.1.mlp.gate_proj.weight'', [1, 1], 1),
    (lit ''m.layers.1.mlp.up_proj.weight'', [1, 1], 1),
    (lit ''m.layers.1.mlp.down_proj.weight'', [1, 1], 1),
    (lit ''m.layers.0.linear_attn.in_proj_qkv.weight'', [3, 1], 3),
    (lit ''m.layers.0.linear_attn.in_proj_z.weight'', [1, 1], 1),
    (lit ''m.layers.0.linear_attn.in_proj_b.weight'', [1, 1], 1),
    (lit ''m.layers.0.linear_attn.in_proj_a.weight'', [1, 1], 1),
    (lit ''m.layers.0.linear_attn.conv1d.weight'', [3, 1, 1], 3),
    (lit ''m.layers.0.linear_attn.A_log'', [1], 1),
    (lit ''m.layers.0.linear_attn.dt_bias'', [1], 1),
    (lit ''m.layers.0.linear_attn.norm.weight'', [1], 1),
    (lit ''m.layers.0.linear_attn.out_proj.weight'', [1, 1], 1),
    (lit ''m.layers.1.self_attn.q_proj.weight'', [4, 1], 4),
    (lit ''m.layers.1.self_attn.k_proj.weight'', [2, 1], 2),
    (lit ''m.layers.1.self_attn.v_proj.weight'', [2, 1], 2),
    (lit ''m.layers.1.self_attn.o_proj.weight'', [1, 2], 2),
    (lit ''m.layers.1.self_attn.q_norm.weight'', [2], 2),
    (lit ''m.layers.1.self_attn.k_norm.weight'', [2], 2)]"

definition rc_num :: "u64 \<Rightarrow> nat json" where "rc_num n = JNum (PosInt n)"

definition rc_json :: "u64 list \<Rightarrow> nat \<Rightarrow> nat json" where
  "rc_json shape k = JObj [(lit ''dtype'', JStr (lit ''F32'')), (lit ''shape'', JArr (map rc_num shape)),
     (lit ''data_offsets'', JArr [rc_num 0, rc_num (4 * word_of_nat k)])]"

definition rc_entry :: "u64 list \<Rightarrow> nat \<Rightarrow> Entry" where
  "rc_entry shape k = \<lparr>en_dtype = Ck_F32, en_shape = shape, en_start = 10, en_end = 10 + 4 * word_of_nat k\<rparr>"

definition rc_config :: "nat json" where
  "rc_config = JObj [(lit ''model_type'', JStr (lit ''qwen3_5'')),
     (lit ''layer_types'', JArr [JStr (lit ''linear_attention''), JStr (lit ''full_attention'')]),
     (lit ''num_hidden_layers'', rc_num 2), (lit ''head_dim'', rc_num 2), (lit ''num_attention_heads'', rc_num 1),
     (lit ''num_key_value_heads'', rc_num 1), (lit ''linear_num_key_heads'', rc_num 1), (lit ''linear_num_value_heads'', rc_num 1),
     (lit ''linear_key_head_dim'', rc_num 1), (lit ''linear_value_head_dim'', rc_num 1), (lit ''rms_norm_eps'', rc_num 0)]"

definition rc_from_slice :: "u8 list \<Rightarrow> nat json option" where
  "rc_from_slice bs = (if bs = [123, 125] then Some (JObj (map (\<lambda>(n, shape, k). (n, rc_json shape k)) rc_table)) else Some rc_config)"

definition rc_file :: "u8 list" where "rc_file = u64_to_le_bytes 2 @ [123, 125] @ replicate 16 0"

definition rc_fs :: "rstr \<Rightarrow> u8 list option" where
  "rc_fs p = (if p = lit ''d/m.safetensors'' then Some rc_file else if p = lit ''d/config.json'' then Some [0] else None)"

definition rc_C :: "nat casts" where
  "rc_C = \<lparr>ca_as_f64 = (\<lambda>_. 0), ca_f32 = (\<lambda>_. 0), ca_of_usize = (\<lambda>_. 0), ca_mul = (\<lambda>_ _. 0), ca_to_usize = (\<lambda>_. 2),
     ca_1e4 = 0, ca_1 = 0, ca_1e_6 = 0\<rparr>"

lemma rc_distinct: "distinct (map fst rc_table)"
  by (simp add: rc_table_def)

lemma rc_rows:
  "map_of rc_table (lit ''m.embed_tokens.weight'') = Some ([1, 1], 1)"
  "map_of rc_table (lit ''m.norm.weight'') = Some ([1], 1)"
  "map_of rc_table (lit ''m.layers.0.input_layernorm.weight'') = Some ([1], 1)"
  "map_of rc_table (lit ''m.layers.0.post_attention_layernorm.weight'') = Some ([1], 1)"
  "map_of rc_table (lit ''m.layers.0.mlp.gate_proj.weight'') = Some ([1, 1], 1)"
  "map_of rc_table (lit ''m.layers.0.mlp.up_proj.weight'') = Some ([1, 1], 1)"
  "map_of rc_table (lit ''m.layers.0.mlp.down_proj.weight'') = Some ([1, 1], 1)"
  "map_of rc_table (lit ''m.layers.1.input_layernorm.weight'') = Some ([1], 1)"
  "map_of rc_table (lit ''m.layers.1.post_attention_layernorm.weight'') = Some ([1], 1)"
  "map_of rc_table (lit ''m.layers.1.mlp.gate_proj.weight'') = Some ([1, 1], 1)"
  "map_of rc_table (lit ''m.layers.1.mlp.up_proj.weight'') = Some ([1, 1], 1)"
  "map_of rc_table (lit ''m.layers.1.mlp.down_proj.weight'') = Some ([1, 1], 1)"
  "map_of rc_table (lit ''m.layers.0.linear_attn.in_proj_qkv.weight'') = Some ([3, 1], 3)"
  "map_of rc_table (lit ''m.layers.0.linear_attn.in_proj_z.weight'') = Some ([1, 1], 1)"
  "map_of rc_table (lit ''m.layers.0.linear_attn.in_proj_b.weight'') = Some ([1, 1], 1)"
  "map_of rc_table (lit ''m.layers.0.linear_attn.in_proj_a.weight'') = Some ([1, 1], 1)"
  "map_of rc_table (lit ''m.layers.0.linear_attn.conv1d.weight'') = Some ([3, 1, 1], 3)"
  "map_of rc_table (lit ''m.layers.0.linear_attn.A_log'') = Some ([1], 1)"
  "map_of rc_table (lit ''m.layers.0.linear_attn.dt_bias'') = Some ([1], 1)"
  "map_of rc_table (lit ''m.layers.0.linear_attn.norm.weight'') = Some ([1], 1)"
  "map_of rc_table (lit ''m.layers.0.linear_attn.out_proj.weight'') = Some ([1, 1], 1)"
  "map_of rc_table (lit ''m.layers.1.self_attn.q_proj.weight'') = Some ([4, 1], 4)"
  "map_of rc_table (lit ''m.layers.1.self_attn.k_proj.weight'') = Some ([2, 1], 2)"
  "map_of rc_table (lit ''m.layers.1.self_attn.v_proj.weight'') = Some ([2, 1], 2)"
  "map_of rc_table (lit ''m.layers.1.self_attn.o_proj.weight'') = Some ([1, 2], 2)"
  "map_of rc_table (lit ''m.layers.1.self_attn.q_norm.weight'') = Some ([2], 2)"
  "map_of rc_table (lit ''m.layers.1.self_attn.k_norm.weight'') = Some ([2], 2)"
  by (rule map_of_is_SomeI [OF rc_distinct], simp add: rc_table_def del: lit_simps)+

lemma rc_open_entry:
  assumes "prod_list shape = word_of_nat k" and "k \<le> 4" and "u64_MAX \<notin> set shape"
  shows "open_entry 26 10 name (rc_json shape k) = Inr (rc_entry shape k)"
proof -
  have "k \<in> {0, 1, 2, 3, 4}" using assms(2) by auto
  moreover have "map (\<lambda>x. case as_u64 x of Some n \<Rightarrow> n | None \<Rightarrow> u64_MAX) (map rc_num shape) = shape"
    by (simp add: rc_num_def o_def)
  ultimately show ?thesis using assms(1,3)
    by (auto simp: open_entry_def rc_json_def rc_entry_def rc_num_def CkDtype_parse_def Let_def checked_mul_def checked_add_def)
qed

definition rc_row_ok :: "rstr \<times> u64 list \<times> nat \<Rightarrow> bool" where
  "rc_row_ok = (\<lambda>(n, shape, k). prod_list shape = word_of_nat k \<and> k \<le> 4 \<and> u64_MAX \<notin> set shape \<and> n \<noteq> lit ''__metadata__'')"

abbreviation rc_entries :: "(rstr \<times> u64 list \<times> nat) list \<Rightarrow> (rstr \<times> Entry) list" where
  "rc_entries tab \<equiv> map (\<lambda>(n, shape, k). (n, rc_entry shape k)) tab"

lemma rc_open_entries:
  "distinct (map fst (ts @ rc_entries tab)) \<Longrightarrow> list_all rc_row_ok tab \<Longrightarrow>
   open_entries 26 10 (map (\<lambda>(n, shape, k). (n, rc_json shape k)) tab) ts = Inr (ts @ rc_entries tab)"
proof (induction tab arbitrary: ts)
  case (Cons row tab)
  obtain n shape k where row: "row = (n, shape, k)" by (cases row)
  have "n \<notin> set (map fst ts)" using Cons.prems(1) row by auto
  then have "AList.update n (rc_entry shape k) ts = ts @ [(n, rc_entry shape k)]"
    by (induction ts) auto
  moreover have "open_entry 26 10 n (rc_json shape k) = Inr (rc_entry shape k)"
    by (rule rc_open_entry) (use Cons.prems(2) row in \<open>simp_all add: rc_row_ok_def\<close>)
  moreover have "n \<noteq> lit ''__metadata__''" using Cons.prems(2) row by (simp add: rc_row_ok_def)
  ultimately show ?case using Cons.IH [of "ts @ [(n, rc_entry shape k)]"] Cons.prems row by (simp del: lit_simps)
qed simp

lemma index_shard_distinct:
  "distinct (map fst (index @ map (\<lambda>(n, e). (n, (si, e))) ts)) \<Longrightarrow> index_shard si ts index = Inr (index @ map (\<lambda>(n, e). (n, (si, e))) ts)"
proof (induction ts arbitrary: index)
  case (Cons kv ts)
  obtain n e where kv: "kv = (n, e)" by (cases kv)
  have "n \<notin> set (map fst index)" using Cons.prems kv by auto
  then have "AList.update n (si, e) index = index @ [(n, (si, e))]" "map_of index n = None"
    by (induction index) auto
  then show ?case using Cons.IH [of "index @ [(n, (si, e))]"] Cons.prems kv by simp
qed simp

definition rc_sorted :: "(rstr \<times> Entry) list" where "rc_sorted = sort_key fst (rc_entries rc_table)"

definition rc_model :: CkModel where
  "rc_model = \<lparr>ck_shards = [\<lparr>sd_path = lit ''d/m.safetensors'', sd_file_size = 26, sd_data_start = 10, sd_tensors = rc_sorted\<rparr>],
     ck_index = map (\<lambda>(n, e). (n, (0, e))) rc_sorted, ck_bufs = [rc_file]\<rparr>"

lemma rc_keys: "map fst (rc_entries tab) = map fst tab" "map fst (map (\<lambda>(n, e). (n, (si, e))) ts) = map fst ts"
  by (simp_all add: case_prod_unfold)

lemma rc_sorted_distinct: "distinct (map fst rc_sorted)" "map_of rc_sorted = map_of (rc_entries rc_table)"
proof -
  have d: "distinct (map fst (rc_entries rc_table))" using rc_distinct by (simp only: rc_keys)
  then show "map_of rc_sorted = map_of (rc_entries rc_table)" unfolding rc_sorted_def by (rule map_of_sort_key)
  show "distinct (map fst rc_sorted)"
    unfolding rc_sorted_def using d by (rule distinct_sort_key)
qed

lemma rc_rows_ok: "list_all rc_row_ok rc_table"
  by (simp add: rc_table_def rc_row_ok_def u64_MAX_def)

lemma rc_open: "CkModel_open rc_fs rc_from_slice [lit ''d/m.safetensors'', lit ''d/config.json''] = Inr rc_model"
proof -
  have len: "u64_from_le_bytes [2, 0, 0, 0, 0, 0, 0, 0] = 2" by (simp add: u64_from_le_bytes_def)
  have rcf: "rc_file = [2, 0, 0, 0, 0, 0, 0, 0, 123, 125] @ replicate 16 0" by (simp add: rc_file_def ex_le_bytes)
  have "open_entries 26 10 (map (\<lambda>(n, shape, k). (n, rc_json shape k)) rc_table) [] = Inr (rc_entries rc_table)"
  proof -
    have "distinct (map fst ([] @ rc_entries rc_table))" by (simp only: append_Nil rc_keys rc_distinct)
    from rc_open_entries [OF this rc_rows_ok] show ?thesis by (simp only: append_Nil)
  qed
  then have shard: "Shard_open rc_fs rc_from_slice (lit ''d/m.safetensors'') =
      Inr \<lparr>sd_path = lit ''d/m.safetensors'', sd_file_size = 26, sd_data_start = 10, sd_tensors = rc_sorted\<rparr>"
    by (simp add: Shard_open_def rc_fs_def rcf read_u64_le_def read_exact_at_def len Let_def checked_add_def rc_from_slice_def rc_sorted_def)
  have "index_shard 0 rc_sorted [] = Inr (map (\<lambda>(n, e). (n, (0, e))) rc_sorted)"
  proof -
    have "distinct (map fst ([] @ map (\<lambda>(n, e). (n, (0 :: nat, e))) rc_sorted))"
      by (simp only: append_Nil rc_keys rc_sorted_distinct)
    from index_shard_distinct [OF this] show ?thesis by (simp only: append_Nil)
  qed
  with shard show ?thesis
    by (simp add: CkModel_open_def Let_def path_extension_def rc_model_def rc_fs_def rcf)
qed

lemma rc_lookup:
  "map_of (ck_index rc_model) n = map_option (\<lambda>(shape, k). (0, rc_entry shape k)) (map_of rc_table n)"
proof -
  have "map_of (map (\<lambda>(n, e). (n, (0 :: nat, e))) xs) n = map_option (Pair 0) (map_of xs n)" for xs :: "(rstr \<times> Entry) list"
    by (induction xs) auto
  moreover have "map_of (rc_entries tab) n = map_option (\<lambda>(shape, k). rc_entry shape k) (map_of tab n)" for tab
    by (induction tab) auto
  ultimately show ?thesis
    by (simp add: rc_model_def rc_sorted_distinct(2) option.map_comp o_def case_prod_unfold)
qed

lemma rc_shape: "map_of rc_table n = Some (shape, k) \<Longrightarrow> shape_of rc_model n = Inr (map unat shape)"
  by (simp add: shape_of_def ck_entry_def rc_lookup rc_entry_def)

lemma rc_want:
  assumes "map_of rc_table n = Some (shape, k)" and "k' = k"
  shows "want rc_model n k' = Inr (replicate k 0)"
proof -
  have ok: "prod_list shape = word_of_nat k" "k \<le> 4"
    using rc_rows_ok map_of_SomeD [OF assms(1)] by (auto simp: list_all_iff rc_row_ok_def)
  have k: "unat (word_of_nat k :: u64) = k" "unat (10 + 4 * word_of_nat k :: u64) = 10 + 4 * k"
  proof -
    have "k \<in> {0, 1, 2, 3, 4}" using ok(2) by auto
    then show "unat (word_of_nat k :: u64) = k" "unat (10 + 4 * word_of_nat k :: u64) = 10 + 4 * k" by auto
  qed
  have "take (4 * k) (drop 10 rc_file) = replicate (4 * k) 0"
    using ok(2) by (simp add: rc_file_def ex_le_bytes min_def)
  then have "ck_decode Ck_F32 (take (4 * k) (drop 10 rc_file)) = Inr (replicate k 0)"
    by (simp add: ck_decode_def Let_def elements_zeros)
  moreover have "length rc_file = 26" by (simp add: rc_file_def)
  ultimately have "ck_tensor rc_model n = Inr (replicate k 0)"
    using ok k by (simp add: ck_tensor_def rc_lookup assms(1) rc_entry_def Let_def Entry_numel_def word_le_nat_alt)
      (simp add: rc_model_def)
  then show ?thesis using assms(2) by (simp add: want_def)
qed

lemma distinct_singleton: "distinct xs \<Longrightarrow> set xs = {a} \<Longrightarrow> xs = [a]"
  by (cases xs; cases "tl xs") auto

lemma rc_prefix: "detect_prefix rc_model = Inr (lit ''m.'')"
proof -
  let ?P = "\<lambda>n. ends_with n (lit ''embed_tokens.weight'')" and ?e = "lit ''m.embed_tokens.weight''"
  have names: "set (ck_names rc_model) = set (map fst rc_table)" "distinct (ck_names rc_model)"
    using rc_sorted_distinct(1) by (simp_all add: ck_names_def rc_model_def rc_sorted_def rc_keys image_image case_prod_unfold o_def)
  have "list_all (\<lambda>n. ?P n = (n = ?e)) (map fst rc_table)" by code_simp
  then have "\<forall>n \<in> set (ck_names rc_model). ?P n = (n = ?e)" unfolding names(1) list_all_iff .
  moreover have "?e \<in> set (ck_names rc_model)" unfolding names(1) by (simp add: rc_table_def del: lit_simps)
  ultimately have "set (filter ?P (ck_names rc_model)) = {?e}" by auto
  then have "filter ?P (ck_names rc_model) = [?e]"
    using names(2) by (simp add: distinct_singleton)
  then show ?thesis by (simp add: detect_prefix_def Let_def)
qed

definition rc_sizes :: Sizes where
  "rc_sizes = \<lparr>sz_vocab = 1, sz_hidden = 1, sz_intermediate = 1, sz_conv_dim = 3, sz_value_dim = 1, sz_num_v_heads = 1, sz_head_v_dim = 1,
     sz_conv_kernel = 1, sz_head_dim = 2, sz_num_heads = 1, sz_num_kv_heads = 1, sz_q_out = 4, sz_kv_out = 2, sz_key_dim = 1,
     sz_num_k_heads_cfg = 1, sz_num_v_heads_cfg = 1, sz_head_k_dim_cfg = 1, sz_head_v_dim_cfg = 1, sz_att = lit ''m.layers.1.self_attn.''\<rparr>"

lemma rc_names:
  "lit ''m.'' @ lit s = lit (''m.'' @ s)"
  "lit ''m.'' @ lit ''layers.'' @ show_nat 0 @ lit ''.linear_attn.'' @ lit s = lit (''m.layers.0.linear_attn.'' @ s)"
  "lit ''m.'' @ lit ''layers.'' @ show_nat 1 @ lit ''.self_attn.'' @ lit s = lit (''m.layers.1.self_attn.'' @ s)"
  "lit ''m.'' @ lit ''layers.'' @ show_nat 1 @ lit ''.self_attn.'' = lit ''m.layers.1.self_attn.''"
  "lit ''m.layers.1.self_attn.'' @ lit s = lit (''m.layers.1.self_attn.'' @ s)"
  "lit ''m.layers.0.linear_attn.'' @ lit s = lit (''m.layers.0.linear_attn.'' @ s)"
  "lit ''m.'' @ lit ''layers.'' @ show_nat 0 @ lit ''.'' = lit ''m.layers.0.''"
  "lit ''m.'' @ lit ''layers.'' @ show_nat 1 @ lit ''.'' = lit ''m.layers.1.''"
  "lit ''m.layers.0.'' @ lit s = lit (''m.layers.0.'' @ s)"
  "lit ''m.layers.1.'' @ lit s = lit (''m.layers.1.'' @ s)"
  by (simp_all add: show_nat_digit)

lemma rc_keys_cfg:
  "cfg_usize rc_config (lit ''num_hidden_layers'') = Some 2" "cfg_usize rc_config (lit ''head_dim'') = Some 2"
  "cfg_usize rc_config (lit ''num_attention_heads'') = Some 1" "cfg_usize rc_config (lit ''num_key_value_heads'') = Some 1"
  "cfg_usize rc_config (lit ''linear_num_key_heads'') = Some 1" "cfg_usize rc_config (lit ''linear_num_value_heads'') = Some 1"
  "cfg_usize rc_config (lit ''linear_key_head_dim'') = Some 1" "cfg_usize rc_config (lit ''linear_value_head_dim'') = Some 1"
  by (simp_all add: cfg_usize_def rc_config_def rc_num_def)

abbreviation rc_types :: "rstr list" where "rc_types \<equiv> [lit ''linear_attention'', lit ''full_attention'']"

lemma rc_kinds: "kind_of rc_types 0 = Inr LinearAttention" "kind_of rc_types 1 = Inr FullAttention" "kind_of rc_types (Suc 0) = Inr FullAttention"
  by (simp_all add: kind_of_def)

lemma rc_derive: "derive_sizes rc_model rc_config (lit ''m.'') rc_types 2 = Inr rc_sizes"
proof -
  have find: "find (\<lambda>l. kind_of rc_types l = Inr LinearAttention) [0..<2] = Some 0"
    "find (\<lambda>l. kind_of rc_types l = Inr FullAttention) [0..<2] = Some 1"
    by (simp_all add: upt_rec rc_kinds del: lit_simps)
  note shapes = rc_rows [THEN rc_shape]
  show ?thesis
    unfolding derive_sizes_def find
    by (simp only: Let_def prod.case option.case append_assoc rc_names append.simps shapes try_bind_simps rc_keys_cfg ok_or_simps)
      (simp add: axis_def rc_sizes_def del: lit_simps)
qed

lemma rc_cross_check: "cross_check rc_model rc_sizes = Inr ()"
proof -
  have att: "sz_att rc_sizes = lit ''m.layers.1.self_attn.''" by (simp add: rc_sizes_def del: lit_simps)
  note shapes = rc_rows [THEN rc_shape]
  show ?thesis
    unfolding cross_check_def Let_def att
    by (simp only: rc_names append.simps shapes try_bind_simps) (simp add: axis_def rc_sizes_def check_eq_def)
qed

lemma rc_gdn_sizes:
  "sz_hidden rc_sizes = 1" "sz_vocab rc_sizes = 1" "sz_intermediate rc_sizes = 1" "sz_conv_dim rc_sizes = 3" "sz_value_dim rc_sizes = 1"
  "sz_num_v_heads rc_sizes = 1" "sz_head_v_dim rc_sizes = 1" "sz_conv_kernel rc_sizes = 1" "sz_q_out rc_sizes = 4" "sz_kv_out rc_sizes = 2"
  "sz_num_heads rc_sizes = 1" "sz_head_dim rc_sizes = 2"
  by (simp_all add: rc_sizes_def)

lemma rc_mixers:
  "\<exists>w. real_gdn_weights rc_model (lit ''m.layers.0.linear_attn.'') rc_sizes = Inr w"
  "\<exists>w. real_attn_weights rc_model (lit ''m.layers.1.self_attn.'') rc_sizes = Inr w"
  by (simp_all add: real_gdn_weights_def real_attn_weights_def Let_def rc_gdn_sizes rc_names rc_rows [THEN rc_want] del: lit_simps)

lemma rc_layers: "\<exists>ls. collect_result (real_layer rc_model (lit ''m.'') rc_types rc_sizes) [0..<2] = Inr ls"
proof -
  note want = rc_rows [THEN rc_want]
  have "\<exists>lw. real_layer rc_model (lit ''m.'') rc_types rc_sizes 0 = Inr lw"
    using rc_mixers(1)
    by (auto simp: real_layer_def Let_def rc_kinds rc_gdn_sizes rc_names want simp del: lit_simps)
  moreover have "\<exists>lw. real_layer rc_model (lit ''m.'') rc_types rc_sizes 1 = Inr lw"
    using rc_mixers(2)
    by (auto simp: real_layer_def Let_def rc_kinds rc_gdn_sizes rc_names want simp del: lit_simps One_nat_def)
  ultimately show ?thesis by (auto simp: numeral_2_eq_2 simp del: lit_simps)
qed

lemma rc_loads:
  "\<exists>rm. real_load rc_C rc_fs [lit ''d/m.safetensors'', lit ''d/config.json''] rc_from_slice (lit ''d'') = Inr rm \<and>
     checkpoint_fits rm \<and> mc_vocab (rm_config rm) = 1"
proof -
  note want = rc_rows [THEN rc_want]
  have cfgf: "rc_fs (path_join (lit ''d'') (lit ''config.json'')) = Some [0]" "rc_from_slice [0] = Some rc_config"
    by (simp_all add: rc_fs_def path_join_def starts_with_def ends_with_def rc_from_slice_def)
  have tc: "text_config rc_config = (rc_config, lit ''top level'')" "jget rc_config (lit ''model_type'') = Some (JStr (lit ''qwen3_5''))"
    "jget rc_config (lit ''tie_word_embeddings'') = None" "layer_types_of rc_config = Inr (rc_types, 2)"
    "starts_with (lit ''qwen3_5'') (lit ''qwen3_5'')"
    by (simp_all add: text_config_def rc_config_def layer_types_of_def cfg_usize_def rc_num_def map_filter_def starts_with_def)
  obtain cfg where cfg: "real_config rc_C rc_config rc_sizes = Inr cfg"
    by (simp add: real_config_def rope_number_def rc_C_def rc_gdn_sizes) (simp add: rc_config_def rc_num_def)
  have head: "pick_head rc_model rc_config (lit ''m.'') (lit ''m.embed_tokens.weight'') = Inr (lit ''m.embed_tokens.weight'')"
  proof -
    have "map_of rc_table (lit ''m.lm_head.weight'') = None" "map_of rc_table (lit ''lm_head.weight'') = None"
      by (simp_all add: rc_table_def)
    then show ?thesis by (simp add: pick_head_def ck_contains_def rc_lookup rc_names tc del: lit_simps)
  qed
  obtain ls where ls: "collect_result (real_layer rc_model (lit ''m.'') rc_types rc_sizes) [0..<2] = Inr ls" using rc_layers by blast
  from real_config_fields [OF cfg] have fit: "mc_hidden cfg \<noteq> 0" "mc_vocab cfg = 1" "sizes_fit cfg 1"
    by (simp_all add: sizes_fit_def conv_dim_def key_dim_def value_dim_def q_out_dim_def kv_out_dim_def rc_sizes_def)
  have inter: "map_of (derived_table rc_sizes 2) (lit ''intermediate'') = Some 1"
    by (simp add: derived_intermediate rc_gdn_sizes del: lit_simps)
  show ?thesis
    by (simp add: real_load_def cfgf tc rc_open rc_prefix rc_derive rc_cross_check cfg head ls rc_names want rc_gdn_sizes
        checkpoint_fits_def inter fit Let_def del: lit_simps One_nat_def neq0_conv)
qed


theorem checkpoint_generates_witness:
  "\<exists>rm. real_load rc_C rc_fs [lit ''d/m.safetensors'', lit ''d/config.json''] rc_from_slice (lit ''d'') = Inr rm \<and>
     (\<forall>N :: (u32, nat) nops. \<exists>ids trs. greedy_cached N (rm_config rm) (rm_weights rm) [0, 0] 3 = Inr (ids, trs) \<and> length ids = 3)"
proof -
  from rc_loads obtain rm where rm: "real_load rc_C rc_fs [lit ''d/m.safetensors'', lit ''d/config.json''] rc_from_slice (lit ''d'') = Inr rm"
    "checkpoint_fits rm" "mc_vocab (rm_config rm) = 1" by blast
  then have "vocab_ok (rm_config rm)" "tokens_ok (rm_config rm) [0, 0]" by (simp_all add: vocab_ok_def tokens_ok_def)
  from checkpoint_generates [OF rm(1,2) this] rm(1) show ?thesis by blast
qed

end
