(* ===== verification/Qwen_Chat.thy ===== *)
theory Qwen_Chat
  imports Chat_Valid Real_Checkpoint
begin

text \<open>
  The conversation of \<open>qwenrun\<close> (\<open>gdn/src/bin/qwenrun.rs\<close>): the turns given on the command line, and
  the loop that renders the history with the chat template, decodes until the end-of-turn token, reads
  the reply back and appends it to the history. Standard input is the list of its lines; what is printed
  is the list of turns the loop completed. \<open>ABORT\<close> is a panic, or an encoder that does not return.
\<close>

section \<open>Turns on the command line\<close>

datatype ExitCode = SUCCESS | FAILURE | USAGE | ABORT

datatype Turn = TSystem rstr | TUser rstr | TAssistant rstr | TTool rstr

text \<open>Walking the arguments in order; the caller drops the program name. A value is skipped with its flag.\<close>

definition turn_flag :: "rstr \<Rightarrow> (rstr \<Rightarrow> Turn) option" where
  "turn_flag a =
     (if a = lit ''--system'' then Some TSystem
      else if a = lit ''--chat'' then Some TUser
      else if a = lit ''--reply'' then Some TAssistant
      else if a = lit ''--tool-result'' then Some TTool
      else None)"

fun turns_from :: "rstr list \<Rightarrow> rstr + Turn list" where
  "turns_from [] = Inr []"
| "turns_from [a] = (case turn_flag a of Some _ \<Rightarrow> Inl a | None \<Rightarrow> Inr [])"
| "turns_from (a # v # args) =
     (case turn_flag a of
        Some turn \<Rightarrow> try_bind (turns_from args) (\<lambda>ts. Inr (turn v # ts))
      | None \<Rightarrow> turns_from (v # args))"

definition parse_turns :: "rstr list \<Rightarrow> rstr + Turn list" where
  "parse_turns args = turns_from (drop 1 args)"

primrec turn_to_message :: "Turn \<Rightarrow> 'g Message" where
  "turn_to_message (TSystem s) = Message_new System s"
| "turn_to_message (TUser s) = Message_new User s"
| "turn_to_message (TAssistant s) = Message_new Assistant s"
| "turn_to_message (TTool s) = Message_new Tool s"

definition turns_to_messages :: "Turn list \<Rightarrow> 'g Message list" where
  "turns_to_messages turns = map turn_to_message turns"

section \<open>One turn\<close>

record TurnLog =
  tl_text :: rstr
  tl_prompt :: "nat list"
  tl_generated :: "nat list"
  tl_stopped :: bool
  tl_reply :: Reply

text \<open>What a turn needs besides the history.\<close>

record ('f, 'g) Session =
  se_N :: "('f, 'g) nops"
  se_scale53 :: "nat \<Rightarrow> 'g"
  se_J :: "'g jfloat"
  se_db :: unicode_tables
  se_config :: "'f ModelConfig"
  se_weights :: "'f ModelWeights"
  se_tk :: Tokenizer
  se_tools :: "'g Value list"
  se_opts :: Options
  se_steps :: nat
  se_sampler :: "'g SamplerConfig"

definition chat_stop :: "nat list" where "chat_stop = [248046]"

fun net_exit :: "net_error \<Rightarrow> ExitCode" where
  "net_exit Panicked = ABORT"
| "net_exit _ = FAILURE"

definition decode_turn :: "('f, 'g) Session \<Rightarrow> nat list \<Rightarrow> ExitCode + nat list \<times> bool" where
  "decode_turn S prompt =
     (if is_greedy (f64 (se_N S)) (se_sampler S) then
        case greedy_cached_stopping (se_N S) (se_config S) (se_weights S) prompt (se_steps S) chat_stop of
          Inr (generated, _, stopped) \<Rightarrow> Inr (generated, stopped)
        | Inl e \<Rightarrow> Inl (net_exit e)
      else
        case Sampler_new (f64 (se_N S)) (se_sampler S) of
          Inl _ \<Rightarrow> Inl FAILURE
        | Inr s \<Rightarrow>
            (case fst (sample_stopping (se_N S) (se_scale53 S) (se_config S) (se_weights S) prompt (se_steps S) s chat_stop) of
               Inr (generated, _, stopped) \<Rightarrow> Inr (generated, stopped)
             | Inl e \<Rightarrow> Inl (net_exit e)))"

definition chat_turn :: "('f, 'g) Session \<Rightarrow> 'g Message list \<Rightarrow> ExitCode + TurnLog" where
  "chat_turn S ms =
     (case render (se_J S) \<lparr>messages = ms, tools = se_tools S, opts = se_opts S\<rparr> of
        Inl _ \<Rightarrow> Inl FAILURE
      | Inr rendered \<Rightarrow>
          try_bind (ok_or (encode (se_db S) (se_tk S) (r_text rendered)) ABORT) (\<lambda>prompt.
          try_bind (decode_turn S prompt) (\<lambda>(generated, stopped).
          case parse_assistant (decode (se_tk S) generated) of
            Inl _ \<Rightarrow> Inl ABORT
          | Inr reply \<Rightarrow>
              Inr \<lparr>tl_text = r_text rendered, tl_prompt = prompt, tl_generated = generated, tl_stopped = stopped,
                   tl_reply = reply\<rparr>)))"

section \<open>The conversation\<close>

text \<open>The assistant's own turn, as it goes into the history.\<close>

definition assistant_message :: "Reply \<Rightarrow> 'g Message" where
  "assistant_message reply =
     (Message_new Assistant (rp_content reply))
       \<lparr>reasoning := Some (case rp_reasoning reply of Some r \<Rightarrow> r | None \<Rightarrow> []),
        tool_calls := as_chat_calls reply\<rparr>"

definition blank :: "rstr \<Rightarrow> bool" where
  "blank line \<longleftrightarrow> trim_matches is_whitespace line = []"

primrec repl_loop ::
  "('f, 'g) Session \<Rightarrow> rstr list \<Rightarrow> 'g Message list \<Rightarrow> ExitCode \<times> TurnLog list \<times> 'g Message list" where
  "repl_loop S [] ms = (SUCCESS, [], ms)"
| "repl_loop S (line # lines) ms =
     (if blank line then (SUCCESS, [], ms)
      else
        let ms = ms @ [Message_new User line] in
        case chat_turn S ms of
          Inl code \<Rightarrow> (code, [], ms)
        | Inr tlog \<Rightarrow>
            (case repl_loop S lines (ms @ [assistant_message (tl_reply tlog)]) of
               (code, logs, ms) \<Rightarrow> (code, tlog # logs, ms)))"

definition run_chat ::
  "('f, 'g) Session \<Rightarrow> 'g Message list \<Rightarrow> bool \<Rightarrow> rstr list \<Rightarrow> ExitCode \<times> TurnLog list \<times> 'g Message list" where
  "run_chat S ms repl stdin_lines =
     (if repl then repl_loop S stdin_lines ms
      else case chat_turn S ms of Inl code \<Rightarrow> (code, [], ms) | Inr tlog \<Rightarrow> (SUCCESS, [tlog], ms))"

section \<open>Reading the command line back\<close>

fun turn_args :: "Turn \<Rightarrow> rstr list" where
  "turn_args (TSystem s) = [lit ''--system'', s]"
| "turn_args (TUser s) = [lit ''--chat'', s]"
| "turn_args (TAssistant s) = [lit ''--reply'', s]"
| "turn_args (TTool s) = [lit ''--tool-result'', s]"

lemma turns_from_args: "turns_from (turn_args t @ args) = try_bind (turns_from args) (\<lambda>ts. Inr (t # ts))"
  by (cases t) (simp_all add: turn_flag_def)

lemma turns_from_skip: "turn_flag a = None \<Longrightarrow> turns_from (a # args) = turns_from args"
  by (cases args) simp_all

section \<open>A conversation that can be rendered\<close>

definition hist_ok :: "'g Message list \<Rightarrow> bool" where
  "hist_ok ms \<longleftrightarrow> list_all valid_message ms \<and> list_all (\<lambda>m. case role m of OtherRole _ \<Rightarrow> False | _ \<Rightarrow> True) ms \<and>
     list_all (\<lambda>m. role m \<noteq> System) (tl ms)"

text \<open>A user turn that is not a wrapped tool response.\<close>

definition asks :: "'g Message \<Rightarrow> bool" where
  "asks m \<longleftrightarrow> role m = User \<and> (case content m of CText t \<Rightarrow> \<not> is_tool_response (jinja_trim t) | _ \<Rightarrow> False)"

lemma hist_ok_snoc:
  "hist_ok ms \<Longrightarrow> valid_message m \<Longrightarrow> role m = User \<or> role m = Assistant \<Longrightarrow> hist_ok (ms @ [m])"
  by (cases ms) (auto simp: hist_ok_def)

lemma hist_ok_step:
  assumes "hist_ok ms" and "i < length ms"
  shows "step_ok \<lparr>messages = ms, tools = ts, opts = os\<rparr> i"
proof -
  have m: "valid_message (ms ! i)" "case role (ms ! i) of OtherRole _ \<Rightarrow> False | _ \<Rightarrow> True"
    using assms by (auto simp: hist_ok_def list_all_length)
  have "role (ms ! i) = System \<Longrightarrow> i = 0"
    using assms by (cases ms; cases i) (auto simp: hist_ok_def list_all_length)
  then show ?thesis using m by (auto simp: step_ok_def content_ok_def valid_message_def split: Content.splits Role.splits)
qed

lemma asks_query: "asks (ms ! i) \<Longrightarrow> is_query \<lparr>messages = ms, tools = ts, opts = os\<rparr> i"
  by (auto simp: asks_def is_query_def split: Content.splits)

lemma hist_renders:
  assumes "hist_ok ms" and "list_ex asks ms"
  shows "\<exists>r. render J \<lparr>messages = ms, tools = ts, opts = os\<rparr> = Inr r"
proof -
  let ?req = "\<lparr>messages = ms, tools = ts, opts = os\<rparr>"
  have ne: "ms \<noteq> []" using assms(2) by auto
  then have "content_ok True (content (hd ms))"
    using assms(1) by (cases ms) (auto simp: hist_ok_def valid_message_def content_ok_def split: Content.splits)
  moreover have "list_all (step_ok ?req) [0..<length ms]" using hist_ok_step [OF assms(1)] by (simp add: list_all_iff)
  moreover obtain i where "i < length ms" "asks (ms ! i)" using assms(2) by (auto simp: list_ex_length)
  then have "list_ex (is_query ?req) [0..<length ms]" using asks_query by (fastforce simp: list_ex_iff)
  ultimately have "request_ok ?req" using ne by (simp add: request_ok_def)
  then show ?thesis using render_result [where J = J and req = ?req] by (auto split: sum.splits)
qed

section \<open>What one turn does\<close>

definition session_ok :: "('f, 'g) Session \<Rightarrow> bool" where
  "session_ok S \<longleftrightarrow> model_ok (se_config S) (se_weights S) \<and> vocab_ok (se_config S) \<and> tk_wf (se_tk S) \<and>
     vocab_size (se_tk S) \<le> mc_vocab (se_config S) \<and> tables_ok (se_db S) \<and>
     valid_str (tools_text (se_J S) (se_tools S)) \<and> add_generation_prompt (se_opts S)"

definition greedy_session :: "('f, 'g) Session \<Rightarrow> bool" where
  "greedy_session S \<longleftrightarrow> is_greedy (f64 (se_N S)) (se_sampler S)"

definition generated_ok :: "('f, 'g) Session \<Rightarrow> nat list \<Rightarrow> bool \<Rightarrow> bool" where
  "generated_ok S g stopped \<longleftrightarrow> length g \<le> se_steps S \<and> (\<not> stopped \<longrightarrow> length g = se_steps S) \<and>
     list_all (\<lambda>x. x < mc_vocab (se_config S) \<and> x \<notin> set chat_stop) g"

lemma generated_greedy:
  assumes "vocab_ok cfg" and "prompt \<noteq> []"
  shows "let g = map fst (kept stop (greedy_spec N cfg w steps prompt)) in
    length g \<le> steps \<and> (\<not> (\<exists>x \<in> set (greedy_spec N cfg w steps prompt). fst x \<in> set stop) \<longrightarrow> length g = steps) \<and>
    list_all (\<lambda>x. x < mc_vocab cfg \<and> x \<notin> set stop) g"
proof -
  let ?s = "greedy_spec N cfg w steps prompt"
  have "length (kept stop ?s) \<le> steps" unfolding kept_def using length_takeWhile_le [of _ ?s] by simp
  moreover have "kept stop ?s = ?s" if "\<not> (\<exists>x \<in> set ?s. fst x \<in> set stop)"
    using that by (simp add: kept_def takeWhile_eq_all_conv case_prod_unfold)
  moreover have "fst x < mc_vocab cfg \<and> fst x \<notin> set stop" if "x \<in> set (kept stop ?s)" for x
    using that greedy_spec_vocab [OF assms] by (auto simp: kept_def dest!: set_takeWhileD)
  ultimately show ?thesis by (auto simp: Let_def list_all_iff)
qed

lemma decode_turn_result:
  assumes "session_ok S" and "tokens_ok (se_config S) prompt"
  shows "case decode_turn S prompt of Inr (g, stopped) \<Rightarrow> generated_ok S g stopped
    | Inl code \<Rightarrow> code = FAILURE \<and> \<not> greedy_session S"
proof -
  have ok: "model_ok (se_config S) (se_weights S)" "vocab_ok (se_config S)" using assms(1) by (simp_all add: session_ok_def)
  have ne: "prompt \<noteq> []" using assms(2) by (simp add: tokens_ok_def)
  show ?thesis
  proof (cases "greedy_session S")
    case True
    let ?spec = "greedy_spec (se_N S) (se_config S) (se_weights S) (se_steps S) prompt"
    obtain trs where "greedy_cached_stopping (se_N S) (se_config S) (se_weights S) prompt (se_steps S) chat_stop =
        Inr (map fst (kept chat_stop ?spec), trs, \<exists>x \<in> set ?spec. fst x \<in> set chat_stop)"
      using greedy_cached_stopping_run [OF ok assms(2), of "se_N S" "se_steps S" chat_stop] by blast
    then show ?thesis
      using True generated_greedy [OF ok(2) ne, of chat_stop "se_N S" "se_weights S" "se_steps S"]
      by (simp add: decode_turn_def greedy_session_def generated_ok_def Let_def)
  next
    case False
    show ?thesis
    proof (cases "Sampler_new (f64 (se_N S)) (se_sampler S)")
      case (Inr sa)
      from sample_stopping_result [OF ok assms(2), where N = "se_N S" and ?scale53.0 = "se_scale53 S" and steps = "se_steps S" and sa = sa and stop = chat_stop] Inr False
      show ?thesis by (auto simp: decode_turn_def greedy_session_def generated_ok_def split: sum.splits)
    qed (use False in \<open>simp add: decode_turn_def greedy_session_def\<close>)
  qed
qed

lemma parse_assistant_Inl: "parse_assistant s = Inl e \<Longrightarrow> e = Panic"
  by (auto simp: parse_assistant_def Let_def split: prod.splits sum.splits call_error.splits)

text \<open>A reply whose text makes the parser panic.\<close>

definition panicking_reply :: "('f, 'g) Session \<Rightarrow> nat list \<Rightarrow> bool" where
  "panicking_reply S g \<longleftrightarrow> parse_assistant (decode (se_tk S) g) = Inl Panic"

definition log_ok :: "('f, 'g) Session \<Rightarrow> TurnLog \<Rightarrow> bool" where
  "log_ok S tlog \<longleftrightarrow> encode (se_db S) (se_tk S) (tl_text tlog) = Some (tl_prompt tlog) \<and>
     generated_ok S (tl_generated tlog) (tl_stopped tlog) \<and>
     parse_assistant (decode (se_tk S) (tl_generated tlog)) = Inr (tl_reply tlog)"

lemma rendered_encodes:
  assumes "session_ok S" and "list_all valid_message ms"
    and "render (se_J S) \<lparr>messages = ms, tools = se_tools S, opts = se_opts S\<rparr> = Inr r"
  obtains prompt where "encode (se_db S) (se_tk S) (r_text r) = Some prompt" and "tokens_ok (se_config S) prompt"
proof -
  have v: "valid_str (r_text r)" using render_valid [OF assms(3)] assms(1,2) by (simp add: session_ok_def)
  have "r_text r \<noteq> []"
    using assms(1,3) by (auto simp: render_def Let_def try_bind_Inr generation_prompt_def session_ok_def IM_START_def split: if_splits prod.splits)
  then obtain prompt where "encode (se_db S) (se_tk S) (r_text r) = Some prompt" "prompt \<noteq> []" "\<forall>i \<in> set prompt. i < vocab_size (se_tk S)"
    using encode_total [of "se_tk S" "se_db S" "r_text r"] v assms(1) by (auto simp: session_ok_def)
  then show thesis using that assms(1) by (fastforce simp: session_ok_def tokens_ok_def list_all_iff)
qed

lemma chat_turn_result:
  assumes "session_ok S" and "hist_ok ms" and "list_ex asks ms"
  shows "case chat_turn S ms of Inr tlog \<Rightarrow> log_ok S tlog
    | Inl code \<Rightarrow> (code = FAILURE \<and> \<not> greedy_session S) \<or> (code = ABORT \<and> (\<exists>g stopped. generated_ok S g stopped \<and> panicking_reply S g))"
proof -
  obtain r where r: "render (se_J S) \<lparr>messages = ms, tools = se_tools S, opts = se_opts S\<rparr> = Inr r"
    using hist_renders [OF assms(2,3)] by blast
  have "list_all valid_message ms" using assms(2) by (simp add: hist_ok_def)
  then obtain prompt where p: "encode (se_db S) (se_tk S) (r_text r) = Some prompt" "tokens_ok (se_config S) prompt"
    using rendered_encodes [OF assms(1) _ r] by blast
  show ?thesis
  proof (cases "decode_turn S prompt")
    case (Inl code)
    then show ?thesis using decode_turn_result [OF assms(1) p(2)] r p(1) by (simp add: chat_turn_def)
  next
    case (Inr gs)
    obtain g stopped where gs: "gs = (g, stopped)" by fastforce
    have g: "generated_ok S g stopped" using decode_turn_result [OF assms(1) p(2)] Inr gs by simp
    show ?thesis
    proof (cases "parse_assistant (decode (se_tk S) g)")
      case (Inl e)
      then show ?thesis using r p(1) Inr gs g parse_assistant_Inl [OF Inl] by (auto simp: chat_turn_def panicking_reply_def)
    next
      case (Inr rp)
      then show ?thesis using r p(1) \<open>decode_turn S prompt = Inr gs\<close> gs g by (simp add: chat_turn_def log_ok_def)
    qed
  qed
qed

section \<open>What the loop does\<close>

text \<open>The history after the lines typed so far were answered.\<close>

definition history :: "'g Message list \<Rightarrow> rstr list \<Rightarrow> TurnLog list \<Rightarrow> 'g Message list" where
  "history ms lines logs =
     ms @ concat (map2 (\<lambda>line tlog. [Message_new User line, assistant_message (tl_reply tlog)]) lines logs)"

lemma history_simps [simp]:
  "history ms [] logs = ms" "history ms lines [] = ms"
  "history ms (line # lines) (tlog # logs) =
     history (ms @ [Message_new User line, assistant_message (tl_reply tlog)]) lines logs"
  by (simp_all add: history_def)

lemma valid_user: "valid_str line \<Longrightarrow> valid_message (Message_new User line)"
  by (simp add: valid_message_def Message_new_def)

lemma valid_assistant:
  assumes "log_ok S tlog" shows "valid_message (assistant_message (tl_reply tlog))"
proof -
  have "valid_reply (tl_reply tlog)" using assms parse_assistant_valid decode_valid by (auto simp: log_ok_def)
  then show ?thesis using as_chat_calls_valid [of "tl_reply tlog"]
    by (auto simp: valid_message_def assistant_message_def Message_new_def valid_reply_def split: option.splits)
qed

definition session_result ::
  "('f, 'g) Session \<Rightarrow> rstr list \<Rightarrow> 'g Message list \<Rightarrow> ExitCode \<times> TurnLog list \<times> 'g Message list \<Rightarrow> bool" where
  "session_result S lines ms res \<longleftrightarrow>
     (case res of (code, logs, final) \<Rightarrow>
        list_all (log_ok S) logs \<and>
        (\<forall>k < length logs. chat_turn S (history ms (take k lines) (take k logs) @ [Message_new User (lines ! k)]) = Inr (logs ! k)) \<and>
        (if code = SUCCESS then length logs = length lines \<and> final = history ms lines logs
         else length logs < length lines \<and>
           ((code = FAILURE \<and> \<not> greedy_session S) \<or> (code = ABORT \<and> (\<exists>g stopped. generated_ok S g stopped \<and> panicking_reply S g)))))"

lemma session_result_Cons:
  assumes "chat_turn S (ms @ [Message_new User line]) = Inr tlog" and "log_ok S tlog"
    and "session_result S lines (ms @ [Message_new User line, assistant_message (tl_reply tlog)]) (code, logs, final)"
  shows "session_result S (line # lines) ms (code, tlog # logs, final)"
proof -
  have "chat_turn S (history ms (take k (line # lines)) (take k (tlog # logs)) @ [Message_new User ((line # lines) ! k)]) =
      Inr ((tlog # logs) ! k)" if "k < Suc (length logs)" for k
    using assms that by (cases k) (auto simp: session_result_def)
  then show ?thesis using assms(2,3) by (auto simp: session_result_def split: if_splits)
qed

lemma repl_loop_result:
  assumes "session_ok S"
  shows "hist_ok ms \<Longrightarrow> list_all valid_str lines \<Longrightarrow>
    (let typed = takeWhile (\<lambda>l. \<not> blank l) lines in
      list_ex asks ms \<or> typed = [] \<or> \<not> is_tool_response (jinja_trim (hd typed)) \<longrightarrow> session_result S typed ms (repl_loop S lines ms))"
proof (induction lines arbitrary: ms)
  case (Cons line lines)
  let ?ms = "ms @ [Message_new User line]"
  show ?case
  proof (cases "blank line")
    case False
    show ?thesis unfolding Let_def
    proof
      assume "list_ex asks ms \<or> takeWhile (\<lambda>l. \<not> blank l) (line # lines) = [] \<or>
        \<not> is_tool_response (jinja_trim (hd (takeWhile (\<lambda>l. \<not> blank l) (line # lines))))"
      then have a: "list_ex asks ?ms" using False by (auto simp: asks_def Message_new_def)
      have h: "hist_ok ?ms" using Cons.prems by (intro hist_ok_snoc valid_user) (simp_all add: Message_new_def)
      note turn = chat_turn_result [OF assms h a]
      show "session_result S (takeWhile (\<lambda>l. \<not> blank l) (line # lines)) ms (repl_loop S (line # lines) ms)"
      proof (cases "chat_turn S ?ms")
        case (Inl code)
        then show ?thesis using turn False by (auto simp: session_result_def)
      next
        case (Inr tlog)
        let ?ms' = "?ms @ [assistant_message (tl_reply tlog)]"
        have tlog: "log_ok S tlog" using turn Inr by simp
        have "hist_ok ?ms'" by (rule hist_ok_snoc [OF h valid_assistant [OF tlog]]) (simp add: assistant_message_def Message_new_def)
        moreover have "list_ex asks ?ms'" using a by auto
        ultimately have "session_result S (takeWhile (\<lambda>l. \<not> blank l) lines) ?ms' (repl_loop S lines ?ms')"
          using Cons.IH [of ?ms'] Cons.prems by (simp add: Let_def)
        then show ?thesis using session_result_Cons [OF Inr tlog] Inr False by (cases "repl_loop S lines ?ms'") simp
      qed
    qed
  qed (simp add: session_result_def)
qed (simp add: session_result_def)

text \<open>The turns on the command line are read in the order they were written, whatever other arguments stand between
  them: every \<open>--system\<close>, \<open>--chat\<close>, \<open>--reply\<close> and \<open>--tool-result\<close> gives its turn with the text after it, even when that
  text looks like a flag itself. (An argument between the turns must not be one of the four flags.)\<close>

lemma parse_turns_in_order:
  assumes "list_all (\<lambda>x. case x of Inl a \<Rightarrow> turn_flag a = None | Inr _ \<Rightarrow> True) xs"
  shows "parse_turns (prog # concat (map (case_sum (\<lambda>a. [a]) turn_args) xs)) =
    Inr (List.map_filter (case_sum (\<lambda>_. None) Some) xs)"
proof -
  have "turns_from (concat (map (case_sum (\<lambda>a. [a]) turn_args) xs)) = Inr (List.map_filter (case_sum (\<lambda>_. None) Some) xs)"
    using assms by (induction xs) (auto simp: map_filter_simps turns_from_skip turns_from_args split: sum.splits)
  then show ?thesis by (simp add: parse_turns_def)
qed


section \<open>Witnesses\<close>

text \<open>A tokenizer of the 256 bytes and a model over their ids.\<close>

definition ch_tk :: Tokenizer where
  "ch_tk = \<lparr>byte_char_id = [0..<256], id_to_token = map (\<lambda>b. [byte_to_char_table ! b]) [0..<256], merge = [], added = [],
     char_to_byte = zip byte_to_char_table [0..<256], marks_join_letters = True\<rparr>"

definition ch_S :: "(int, int) Session" where
  "ch_S = \<lparr>se_N = ex_N, se_scale53 = int,
     se_J = \<lparr>jf_nan = (\<lambda>_. False), jf_infinite = (\<lambda>_. False), jf_positive = (\<lambda>x. 0 < x), lower_exp = (\<lambda>_. (lit ''0'', 0)),
       parse_f64 = (\<lambda>_. None), jf_of_int = id\<rparr>, se_db = ex_db,
     se_config = ex_mcfg\<lparr>mc_vocab := 256\<rparr>,
     se_weights = ex_w\<lparr>mw_embed_tokens := replicate 512 1, mw_lm_head := replicate 512 1\<rparr>, se_tk = ch_tk, se_tools = [],
     se_opts = \<lparr>add_generation_prompt = True, enable_thinking = False, add_vision_id = False\<rparr>, se_steps = 2,
     se_sampler = SamplerConfig_default ex_F\<rparr>"

lemma ch_tk_wf: "tk_wf ch_tk"
  by (auto simp: tk_wf_def ch_tk_def token_str_def get_def)

lemma ex_tables_ok: "tables_ok ex_db"
proof -
  have plain: "decompose_one ex_db c \<noteq> None" if "c \<noteq> 192" for c
    using that by (subst decompose_one.simps) (simp add: ex_db_def)
  have "decompose_one ex_db 192 \<noteq> None"
    using plain [of 65] plain [of 768] by (subst decompose_one.simps) (auto simp: ex_db_def hangul_defs char_from_u32_def valid_char_def)
  then show ?thesis unfolding tables_ok_def using plain by metis
qed

lemma ch_session_ok: "session_ok ch_S" "greedy_session ch_S"
proof -
  have "model_ok (se_config ch_S) (se_weights ch_S)"
    using ex_model(1) by (simp add: model_ok_def ch_S_def ex_mcfg_def ex_w_def layers_ok_def mixer_def)
  then show "session_ok ch_S"
    using ch_tk_wf ex_tables_ok by (simp add: session_ok_def vocab_ok_def vocab_size_def tools_text_def ch_S_def ch_tk_def)
  show "greedy_session ch_S"
    by (simp add: greedy_session_def is_greedy_def f_le_def ch_S_def ex_N_def ex_S_def ex_F_def SamplerConfig_default_def)
qed

lemma parse_turns_in_order_witness:
  "parse_turns (map lit [''qwenrun'', ''m'', ''--chat'', ''--reply'', ''--repl'', ''--reply'', ''b'']) =
    Inr [TUser (lit ''--reply''), TAssistant (lit ''b'')]"
  using parse_turns_in_order [of "[Inl (lit ''m''), Inr (TUser (lit ''--reply'')), Inl (lit ''--repl''), Inr (TAssistant (lit ''b''))]" "lit ''qwenrun''"]
  by (simp add: turn_flag_def map_filter_simps)


end
