(* ===== verification/Bundle.thy ===== *)
theory Bundle
  imports Safetensors Rust_Float
begin

text \<open>
  Golden bundles (\<open>bundle/src/lib.rs\<close>) and the comparison of a candidate with a golden run
  (\<open>cmd_compare\<close> and \<open>cmd_selftest\<close> of \<open>bundle/src/main.rs\<close>). An \<open>f32\<close> is its bit pattern and its
  arithmetic the parameter \<open>F\<close>. The manifest is read by code that serde derives, so that step is the
  parameter \<open>from_slice\<close>; the file system maps a path to the bytes of the file. What is printed is left out.
\<close>

section \<open>The bundle\<close>

record TensorEntry =
  te_group :: rstr
  te_name :: rstr
  te_file :: rstr
  te_shape :: "nat list"
  te_dtype :: rstr
  te_numel :: nat
  te_nbytes :: nat

record GreedyStep =
  gs_step :: nat
  gs_input_len :: nat
  gs_argmax_token :: nat
  gs_topk_tokens :: "nat list"
  gs_topk_logits :: "u32 list"
  gs_logit_sum :: u32
  gs_logit_max :: u32

record Greedy =
  gr_steps :: "GreedyStep list"
  gr_final_ids :: "nat list"

record 'g Source =
  so_model :: rstr
  so_transformers :: "rstr option"
  so_torch :: "rstr option"
  so_seed :: u64
  so_params :: u64
  so_ssm_gain :: 'g

record 'g Manifest =
  mf_schema :: rstr
  mf_byte_order :: rstr
  mf_dtype :: rstr
  mf_source :: "'g Source"
  mf_config :: "'g json"
  mf_prompt_ids :: "nat list"
  mf_tensors :: "TensorEntry list"
  mf_greedy :: Greedy

record 'g Bundle =
  bu_root :: rstr
  bu_manifest :: "'g Manifest"
  bu_index :: "(rstr \<times> TensorEntry) list"

datatype bundle_error =
    BuIo
  | BuBadManifest
  | BuSchema rstr
  | BuByteOrder rstr
  | BuDtype rstr
  | BuDuplicate rstr
  | BuNoTensor rstr
  | BuSize nat nat

primrec index_tensors ::
  "TensorEntry list \<Rightarrow> (rstr \<times> TensorEntry) list \<Rightarrow> bundle_error + (rstr \<times> TensorEntry) list" where
  "index_tensors [] index = Inr index"
| "index_tensors (t # ts) index =
     guard_err (map_of index (te_name t) \<noteq> None) (BuDuplicate (te_name t))
       (index_tensors ts (AList.update (te_name t) t index))"

definition Bundle_open ::
  "(rstr \<Rightarrow> u8 list option) \<Rightarrow> (u8 list \<Rightarrow> 'g Manifest option) \<Rightarrow> rstr \<Rightarrow> bundle_error + 'g Bundle" where
  "Bundle_open fs from_slice root =
     try_bind (ok_or (fs (path_join root (lit ''manifest.json''))) BuIo) (\<lambda>raw.
     try_bind (ok_or (from_slice raw) BuBadManifest) (\<lambda>manifest.
     guard_err (mf_schema manifest \<noteq> lit ''qwen35-golden-v1'') (BuSchema (mf_schema manifest)) (
     guard_err (mf_byte_order manifest \<noteq> lit ''little'') (BuByteOrder (mf_byte_order manifest)) (
     guard_err (mf_dtype manifest \<noteq> lit ''f32'') (BuDtype (mf_dtype manifest)) (
     try_bind (index_tensors (mf_tensors manifest) []) (\<lambda>index.
     Inr \<lparr>bu_root = root, bu_manifest = manifest, bu_index = index\<rparr>))))))"

definition bundle_entry :: "'g Bundle \<Rightarrow> rstr \<Rightarrow> TensorEntry option" where
  "bundle_entry b name = map_of (bu_index b) name"

definition bundle_names :: "'g Bundle \<Rightarrow> rstr list" where
  "bundle_names b = sort (map fst (bu_index b))"

text \<open>The element count of the manifest is only asserted in debug builds; the vector has as many
  elements as the bytes hold.\<close>

definition read_entry :: "(rstr \<Rightarrow> u8 list option) \<Rightarrow> 'g Bundle \<Rightarrow> TensorEntry \<Rightarrow> bundle_error + u32 list" where
  "read_entry fs b e =
     try_bind (ok_or (fs (path_join (bu_root b) (te_file e))) BuIo) (\<lambda>raw.
     guard_err (length raw \<noteq> te_nbytes e) (BuSize (length raw) (te_nbytes e))
       (Inr (map (\<lambda>c. word_of_nat (le_nat c)) (elements 4 raw))))"

definition bundle_read :: "(rstr \<Rightarrow> u8 list option) \<Rightarrow> 'g Bundle \<Rightarrow> rstr \<Rightarrow> bundle_error + u32 list" where
  "bundle_read fs b name = try_bind (ok_or (map_of (bu_index b) name) (BuNoTensor name)) (read_entry fs b)"

definition f32_to_le_bytes :: "u32 \<Rightarrow> u8 list" where
  "f32_to_le_bytes v = nat_le 4 (unat v)"

text \<open>\<open>write\<close> returns the file system with the new file; the shape is not used.\<close>

definition bundle_write ::
  "(rstr \<Rightarrow> u8 list option) \<Rightarrow> 'g Bundle \<Rightarrow> rstr \<Rightarrow> rstr \<Rightarrow> nat list \<Rightarrow> u32 list \<Rightarrow> rstr \<Rightarrow> u8 list option" where
  "bundle_write fs b grp name shape data =
     (let bytes = concat (map f32_to_le_bytes data);
          rel = grp @ lit ''/'' @ name @ lit ''.f32''
      in fs(path_join (bu_root b) rel \<mapsto> bytes))"

section \<open>Comparing one tensor\<close>

record TensorDiff =
  td_name :: rstr
  td_shape :: "nat list"
  td_max_abs :: u32
  td_max_abs_index :: nat
  td_golden_at_max :: u32
  td_candidate_at_max :: u32
  td_golden_scale :: u32
  td_max_rel :: u32

definition f32_NAN :: u32 where "f32_NAN = 0x7FC00000"

text \<open>The loop over the pairs: \<open>Inl\<close> is the early return at a value that is not finite.\<close>

primrec diff_loop ::
  "u32 fops \<Rightarrow> (u32 \<times> u32) list \<Rightarrow> nat \<Rightarrow> u32 \<Rightarrow> nat \<Rightarrow> u32 \<Rightarrow> (nat \<times> u32 \<times> u32) + (u32 \<times> nat \<times> u32)" where
  "diff_loop F [] i worst worst_i scale = Inr (worst, worst_i, scale)"
| "diff_loop F (gc # ps) i worst worst_i scale =
     (if \<not> f_finite F (fst gc) \<or> \<not> f_finite F (snd gc) then Inl (i, fst gc, snd gc)
      else
        let d = f_abs F (f_sub F (fst gc) (snd gc));
            scale = f_max F scale (f_abs F (fst gc))
        in if f_lt F worst d then diff_loop F ps (i + 1) d i scale
           else diff_loop F ps (i + 1) worst worst_i scale)"

definition diff :: "u32 fops \<Rightarrow> rstr \<Rightarrow> nat list \<Rightarrow> u32 list \<Rightarrow> u32 list \<Rightarrow> TensorDiff option" where
  "diff F name shape golden cand =
     (if length golden \<noteq> length cand then
        Some \<lparr>td_name = name, td_shape = shape, td_max_abs = f_inf F, td_max_abs_index = 0, td_golden_at_max = f32_NAN,
              td_candidate_at_max = f32_NAN, td_golden_scale = f_zero F, td_max_rel = f_inf F\<rparr>
      else
        case diff_loop F (zip golden cand) 0 (f_zero F) 0 (f_zero F) of
          Inl (i, g, c) \<Rightarrow>
            Some \<lparr>td_name = name, td_shape = shape, td_max_abs = f_inf F, td_max_abs_index = i, td_golden_at_max = g,
                  td_candidate_at_max = c, td_golden_scale = f_zero F, td_max_rel = f_inf F\<rparr>
        | Inr (worst, worst_i, scale) \<Rightarrow>
            if f_eq F worst (f_zero F) then None
            else Some \<lparr>td_name = name, td_shape = shape, td_max_abs = worst, td_max_abs_index = worst_i,
                       td_golden_at_max = golden ! worst_i, td_candidate_at_max = cand ! worst_i, td_golden_scale = scale,
                       td_max_rel = (if f_lt F (f_zero F) scale then f_div F worst scale else f_inf F)\<rparr>)"

section \<open>Comparing tokens\<close>

definition scan_argmax :: "u32 fops \<Rightarrow> u32 list \<Rightarrow> nat" where
  "scan_argmax F logits = foldl (\<lambda>best j. if f_lt F (logits ! best) (logits ! j) then j else best) 0 [0..<length logits]"

definition step_name :: "nat \<Rightarrow> rstr" where
  "step_name n = lit ''greedy_step'' @ (if n < 10 then lit ''0'' else []) @ show_nat n @ lit ''__logits''"

definition check_step ::
  "u32 fops \<Rightarrow> (rstr \<Rightarrow> u8 list option) \<Rightarrow> 'g Bundle \<Rightarrow> nat \<times> GreedyStep \<Rightarrow> (nat \<times> nat \<times> nat) list" where
  "check_step F fs b = (\<lambda>(i, s).
     case bundle_read fs b (step_name (gs_step s)) of
       Inl _ \<Rightarrow> []
     | Inr logits \<Rightarrow>
         if logits = [] then []
         else let best = scan_argmax F logits mod 2 ^ 32
              in if best \<noteq> gs_argmax_token s then [(i, gs_argmax_token s, best)] else [])"

definition check_token_selfconsistency ::
  "u32 fops \<Rightarrow> (rstr \<Rightarrow> u8 list option) \<Rightarrow> 'g Bundle \<Rightarrow> (nat \<times> nat \<times> nat) list" where
  "check_token_selfconsistency F fs b =
     concat (map (check_step F fs b) (List.enumerate 0 (gr_steps (mf_greedy (bu_manifest b)))))"

record TokenDiff =
  tk_first_divergence :: "nat option"
  tk_golden_ids :: "nat list"
  tk_candidate_ids :: "nat list"
  tk_max_logit_delta :: u32

definition first_divergence :: "nat list \<Rightarrow> nat list \<Rightarrow> nat option" where
  "first_divergence g c =
     (case find (\<lambda>i. g ! i \<noteq> c ! i) [0..<min (length g) (length c)] of
        Some i \<Rightarrow> Some i
      | None \<Rightarrow> if length g \<noteq> length c then Some (min (length g) (length c)) else None)"

definition diff_tokens :: "u32 fops \<Rightarrow> 'g Manifest \<Rightarrow> 'g Manifest \<Rightarrow> TokenDiff" where
  "diff_tokens F golden cand =
     (let g = gr_final_ids (mf_greedy golden);
          c = gr_final_ids (mf_greedy cand);
          deltas = concat (map (\<lambda>(gs, cs). map (\<lambda>(a, b). f_abs F (f_sub F a b)) (zip (gs_topk_logits gs) (gs_topk_logits cs)))
                     (zip (gr_steps (mf_greedy golden)) (gr_steps (mf_greedy cand))))
      in \<lparr>tk_first_divergence = first_divergence g c, tk_golden_ids = g, tk_candidate_ids = c,
          tk_max_logit_delta = foldl (f_max F) (f_zero F) deltas\<rparr>)"

section \<open>Comparing bundles\<close>

record compare_state =
  cs_diffs :: "TensorDiff list"
  cs_compared :: nat
  cs_identical :: nat
  cs_missing :: "rstr list"

definition compare_entry ::
  "u32 fops \<Rightarrow> (rstr \<Rightarrow> u8 list option) \<Rightarrow> 'g Bundle \<Rightarrow> 'g Bundle \<Rightarrow> rstr option \<Rightarrow> compare_state \<Rightarrow> TensorEntry \<Rightarrow> compare_state" where
  "compare_entry F fs g c grp st entry =
     (if (case grp of Some gr \<Rightarrow> te_group entry \<noteq> gr | None \<Rightarrow> False) then st
      else case bundle_entry c (te_name entry) of
        None \<Rightarrow> st\<lparr>cs_missing := cs_missing st @ [te_name entry]\<rparr>
      | Some centry \<Rightarrow>
          (case read_entry fs g entry of
             Inl _ \<Rightarrow> st
           | Inr gv \<Rightarrow>
               (case read_entry fs c centry of
                  Inl _ \<Rightarrow> st
                | Inr cv \<Rightarrow>
                    let st = st\<lparr>cs_compared := cs_compared st + 1\<rparr> in
                    (case diff F (te_name entry) (te_shape entry) gv cv of
                       None \<Rightarrow> st\<lparr>cs_identical := cs_identical st + 1\<rparr>
                     | Some d \<Rightarrow> st\<lparr>cs_diffs := cs_diffs st @ [d]\<rparr>))))"

definition compare_bundles ::
  "u32 fops \<Rightarrow> (rstr \<Rightarrow> u8 list option) \<Rightarrow> 'g Bundle \<Rightarrow> 'g Bundle \<Rightarrow> rstr option \<Rightarrow> compare_state" where
  "compare_bundles F fs g c grp =
     (let st = foldl (compare_entry F fs g c grp)
                 \<lparr>cs_diffs = [], cs_compared = 0, cs_identical = 0, cs_missing = []\<rparr> (mf_tensors (bu_manifest g))
      in st\<lparr>cs_diffs := sort_by (\<lambda>a b. f_lt F (td_max_rel b) (td_max_rel a)) (cs_diffs st)\<rparr>)"

text \<open>The exit status of \<open>compare\<close> (success is \<open>True\<close>).\<close>

definition compare_ok ::
  "u32 fops \<Rightarrow> (rstr \<Rightarrow> u8 list option) \<Rightarrow> 'g Bundle \<Rightarrow> 'g Bundle \<Rightarrow> rstr option \<Rightarrow> u32 \<Rightarrow> bool" where
  "compare_ok F fs g c grp max_rel =
     (let st = compare_bundles F fs g c grp;
          td = diff_tokens F (bu_manifest g) (bu_manifest c);
          worst_rel = (case cs_diffs st of [] \<Rightarrow> f_zero F | d # _ \<Rightarrow> td_max_rel d)
      in f_le F worst_rel max_rel \<and> tk_first_divergence td = None \<and> cs_missing st = [] \<and>
         check_token_selfconsistency F fs g = [] \<and> check_token_selfconsistency F fs c = [])"

text \<open>The exit status of \<open>selftest\<close>: a read error ends it at once.\<close>

primrec selftest_loop ::
  "u32 fops \<Rightarrow> (rstr \<Rightarrow> u8 list option) \<Rightarrow> 'g Bundle \<Rightarrow> TensorEntry list \<Rightarrow> nat \<Rightarrow> nat \<Rightarrow> (nat \<times> nat) option" where
  "selftest_loop F fs g [] checked nonzero = Some (checked, nonzero)"
| "selftest_loop F fs g (e # es) checked nonzero =
     (case read_entry fs g e of
        Inl _ \<Rightarrow> None
      | Inr v \<Rightarrow>
          selftest_loop F fs g es (checked + 1) (case diff F (te_name e) (te_shape e) v v of Some d \<Rightarrow> nonzero + 1 | None \<Rightarrow> nonzero))"

definition selftest_ok :: "u32 fops \<Rightarrow> (rstr \<Rightarrow> u8 list option) \<Rightarrow> 'g Bundle \<Rightarrow> bool" where
  "selftest_ok F fs g =
     (case selftest_loop F fs g (mf_tensors (bu_manifest g)) 0 0 of
        None \<Rightarrow> False
      | Some (checked, nonzero) \<Rightarrow> nonzero = 0 \<and> tk_first_divergence (diff_tokens F (bu_manifest g) (bu_manifest g)) = None)"

section \<open>Writing and reading back\<close>

lemma f32_le_bytes: "length (f32_to_le_bytes v) = 4" "word_of_nat (le_nat (f32_to_le_bytes v)) = v"
proof -
  have "unat v < 2 ^ LENGTH(32)" by (rule unsigned_less)
  then have "unat v mod 256 ^ 4 = unat v" by simp
  then show "word_of_nat (le_nat (f32_to_le_bytes v)) = v"
    by (simp only: f32_to_le_bytes_def le_nat_nat_le) simp
qed (simp only: f32_to_le_bytes_def length_nat_le)

text \<open>A tensor written into a bundle is read back as it was, to the last bit, by any manifest entry that
  names its file and its size, and no other file changes.\<close>

lemma bundle_write_read:
  assumes "te_file e = grp @ lit ''/'' @ name @ lit ''.f32''" and "te_nbytes e = 4 * length data"
  shows "read_entry (bundle_write fs b grp name shape data) b e = Inr data \<and>
    (\<forall>p. p \<noteq> path_join (bu_root b) (te_file e) \<longrightarrow> bundle_write fs b grp name shape data p = fs p)"
proof -
  have "length (concat (map f32_to_le_bytes data)) = 4 * length data"
    by (induction data) (simp_all add: f32_le_bytes(1))
  moreover have "elements 4 (concat (map f32_to_le_bytes data)) = map f32_to_le_bytes data"
    by (rule elements_concat) (auto simp: f32_le_bytes(1))
  ultimately show ?thesis
    using assms by (simp add: read_entry_def bundle_write_def Let_def o_def f32_le_bytes(2) del: lit_simps)
qed

section \<open>The report on one tensor\<close>

definition dist :: "u32 fops \<Rightarrow> u32 \<Rightarrow> u32 \<Rightarrow> u32" where
  "dist F g c = f_abs F (f_sub F g c)"

lemma diff_loop_Inl:
  "diff_loop F ps i w wi sc = Inl (j, g, c) \<Longrightarrow>
   i \<le> j \<and> j < i + length ps \<and> ps ! (j - i) = (g, c) \<and> \<not> (f_finite F g \<and> f_finite F c)"
proof (induction ps arbitrary: i w wi sc)
  case (Cons p ps)
  show ?case
  proof (cases "f_finite F (fst p) \<and> f_finite F (snd p)")
    case True
    with Cons.prems obtain w' wi' sc' where "diff_loop F ps (i + 1) w' wi' sc' = Inl (j, g, c)"
      by (auto simp: Let_def split: if_splits)
    from Cons.IH [OF this] show ?thesis by (auto simp: nth_Cons')
  next
    case False
    with Cons.prems have "(j, g, c) = (i, fst p, snd p)" by auto
    then show ?thesis using False by auto
  qed
qed simp

lemma diff_loop_Inr:
  assumes "ordered_floats F"
  shows "diff_loop F ps i w wi sc = Inr (w', wi', sc') \<Longrightarrow>
    (\<forall>p \<in> set ps. f_finite F (fst p) \<and> f_finite F (snd p) \<and> \<not> f_lt F w' (dist F (fst p) (snd p))) \<and>
    (w' = w \<and> wi' = wi \<or>
     f_lt F w w' \<and> i \<le> wi' \<and> wi' < i + length ps \<and> w' = dist F (fst (ps ! (wi' - i))) (snd (ps ! (wi' - i))))"
proof (induction ps arbitrary: i w wi sc)
  case (Cons p ps)
  note tr = ordered_floatsD(1) [OF assms] and irr = ordered_floatsD(2) [OF assms]
  let ?d = "dist F (fst p) (snd p)"
  from Cons.prems have fin: "f_finite F (fst p)" "f_finite F (snd p)" by (auto split: if_splits)
  show ?case
  proof (cases "f_lt F w ?d")
    case True
    with Cons.prems fin have "diff_loop F ps (i + 1) ?d i (f_max F sc (f_abs F (fst p))) = Inr (w', wi', sc')"
      by (simp add: Let_def dist_def)
    note IH = Cons.IH [OF this]
    then have "f_lt F w w'" and "\<not> f_lt F w' ?d" using True tr irr by metis+
    then show ?thesis using IH fin by (auto simp: nth_Cons')
  next
    case False
    with Cons.prems fin have "diff_loop F ps (i + 1) w wi (f_max F sc (f_abs F (fst p))) = Inr (w', wi', sc')"
      by (simp add: Let_def dist_def)
    note IH = Cons.IH [OF this]
    then have "\<not> f_lt F w' ?d" using False tr by metis
    then show ?thesis using IH fin by (auto simp: nth_Cons')
  qed
qed simp

text \<open>The pairs the loop cannot compare.\<close>

definition incomparable :: "u32 fops \<Rightarrow> u32 list \<Rightarrow> u32 list \<Rightarrow> bool" where
  "incomparable F golden cand \<longleftrightarrow>
     length golden \<noteq> length cand \<or> (\<exists>i < length golden. \<not> f_finite F (golden ! i) \<or> \<not> f_finite F (cand ! i))"

text \<open>\<open>diff\<close> reports nothing exactly when the tensors have the same length, only finite values and nowhere a
  positive distance; otherwise it reports an infinite error when they cannot be compared, and else the
  index of a largest distance, with the two values there.\<close>

lemma diff_reports_worst:
  assumes "ordered_floats F" and "\<not> f_nan F (f_zero F)"
  shows "case diff F name shape golden cand of
      None \<Rightarrow> \<not> incomparable F golden cand \<and> (\<forall>i < length golden. \<not> f_lt F (f_zero F) (dist F (golden ! i) (cand ! i)))
    | Some d \<Rightarrow>
        if incomparable F golden cand then td_max_abs d = f_inf F \<and> td_max_rel d = f_inf F
        else td_max_abs_index d < length golden \<and> f_lt F (f_zero F) (td_max_abs d) \<and>
          td_golden_at_max d = golden ! td_max_abs_index d \<and> td_candidate_at_max d = cand ! td_max_abs_index d \<and>
          td_max_abs d = dist F (td_golden_at_max d) (td_candidate_at_max d) \<and>
          (\<forall>i < length golden. \<not> f_lt F (td_max_abs d) (dist F (golden ! i) (cand ! i)))"
proof (cases "length golden = length cand")
  case True
  show ?thesis
  proof (cases "diff_loop F (zip golden cand) 0 (f_zero F) 0 (f_zero F)")
    case (Inl r)
    then obtain j g c where r: "diff_loop F (zip golden cand) 0 (f_zero F) 0 (f_zero F) = Inl (j, g, c)" by (cases r) simp
    from diff_loop_Inl [OF r] have "incomparable F golden cand" using True by (auto simp: incomparable_def)
    then show ?thesis using True r by (simp add: diff_def)
  next
    case (Inr r)
    then obtain w wi sc where r: "diff_loop F (zip golden cand) 0 (f_zero F) 0 (f_zero F) = Inr (w, wi, sc)" by (cases r) simp
    note loop = diff_loop_Inr [OF assms(1) r]
    have small: "f_finite F (golden ! i)" "f_finite F (cand ! i)" "\<not> f_lt F w (dist F (golden ! i) (cand ! i))"
      if "i < length golden" for i
      using conjunct1 [OF loop] that True by (auto simp: set_zip)
    then have comp: "\<not> incomparable F golden cand" using True by (auto simp: incomparable_def)
    have zero: "f_eq F w (f_zero F) \<longleftrightarrow> \<not> f_lt F (f_zero F) w"
      using conjunct2 [OF loop] assms(2) ordered_floatsD(2,6) [OF assms(1)] unfolding f_nan_def by metis
    show ?thesis
    proof (cases "f_eq F w (f_zero F)")
      case eq: True
      then have "w = f_zero F" using zero conjunct2 [OF loop] by blast
      then show ?thesis using True r eq small comp by (simp add: diff_def)
    next
      case False
      then have "f_lt F (f_zero F) w" using zero by blast
      then have "wi < length golden" "w = dist F (golden ! wi) (cand ! wi)"
        using conjunct2 [OF loop] True ordered_floatsD(2) [OF assms(1), of "f_zero F"] by auto
      then show ?thesis using True r False small comp \<open>f_lt F (f_zero F) w\<close> by (simp add: diff_def)
    qed
  qed
qed (simp add: diff_def incomparable_def)

section \<open>The verdict on two bundles\<close>

lemma first_divergence_None: "first_divergence g c = None \<longleftrightarrow> g = c"
proof (cases "length g = length c")
  case True
  then have "g = c \<longleftrightarrow> (\<forall>i < length c. g ! i = c ! i)" by (simp add: list_eq_iff_nth_eq)
  also have "\<dots> \<longleftrightarrow> find (\<lambda>i. g ! i \<noteq> c ! i) [0..<length c] = None" by (auto simp: find_None_iff)
  finally show ?thesis using True by (simp add: first_divergence_def split: option.split)
qed (auto simp: first_divergence_def split: option.split)

definition in_group :: "rstr option \<Rightarrow> TensorEntry \<Rightarrow> bool" where
  "in_group grp e \<longleftrightarrow> (case grp of Some gr \<Rightarrow> te_group e = gr | None \<Rightarrow> True)"

text \<open>What one entry contributes: the report of its comparison, if both files can be read.\<close>

definition entry_diff ::
  "u32 fops \<Rightarrow> (rstr \<Rightarrow> u8 list option) \<Rightarrow> 'g Bundle \<Rightarrow> 'g Bundle \<Rightarrow> TensorEntry \<Rightarrow> TensorDiff option" where
  "entry_diff F fs g c e =
     (case (bundle_entry c (te_name e), read_entry fs g e) of
        (Some ce, Inr gv) \<Rightarrow>
          (case read_entry fs c ce of Inr cv \<Rightarrow> diff F (te_name e) (te_shape e) gv cv | Inl _ \<Rightarrow> None)
      | _ \<Rightarrow> None)"

lemma compare_entry_fields:
  "cs_diffs (compare_entry F fs g c grp st e) =
     cs_diffs st @ (if in_group grp e then (case entry_diff F fs g c e of Some d \<Rightarrow> [d] | None \<Rightarrow> []) else [])"
  "cs_missing (compare_entry F fs g c grp st e) =
     cs_missing st @ (if in_group grp e \<and> bundle_entry c (te_name e) = None then [te_name e] else [])"
  by (auto simp: compare_entry_def in_group_def entry_diff_def Let_def split: option.splits sum.splits)

lemma compare_fold_diffs:
  "set (cs_diffs (foldl (compare_entry F fs g c grp) st es)) =
     set (cs_diffs st) \<union> {d. \<exists>e \<in> set es. in_group grp e \<and> entry_diff F fs g c e = Some d}"
proof (induction es arbitrary: st)
  case (Cons e es)
  show ?case
    by (cases "entry_diff F fs g c e"; cases "in_group grp e") (auto simp: Cons compare_entry_fields)
qed simp

lemma compare_fold_missing:
  "set (cs_missing (foldl (compare_entry F fs g c grp) st es)) =
     set (cs_missing st) \<union> {n. \<exists>e \<in> set es. in_group grp e \<and> bundle_entry c (te_name e) = None \<and> n = te_name e}"
  by (induction es arbitrary: st) (auto simp: compare_entry_fields split: if_splits)

lemma compare_bundles_sets:
  "set (cs_diffs (compare_bundles F fs g c grp)) =
     {d. \<exists>e \<in> set (mf_tensors (bu_manifest g)). in_group grp e \<and> entry_diff F fs g c e = Some d}"
  "set (cs_missing (compare_bundles F fs g c grp)) =
     {n. \<exists>e \<in> set (mf_tensors (bu_manifest g)). in_group grp e \<and> bundle_entry c (te_name e) = None \<and> n = te_name e}"
  by (simp_all add: compare_bundles_def Let_def compare_fold_diffs compare_fold_missing)

text \<open>The first report is the worst one, and bounds the others.\<close>

lemma worst_rel_bounds:
  assumes F: "ordered_floats F" and nan: "\<forall>d \<in> set (cs_diffs (compare_bundles F fs g c grp)). \<not> f_nan F (td_max_rel d)"
    and d: "d \<in> set (cs_diffs (compare_bundles F fs g c grp))"
    and le: "f_le F (case cs_diffs (compare_bundles F fs g c grp) of [] \<Rightarrow> f_zero F | d # _ \<Rightarrow> td_max_rel d) tol"
  shows "f_le F (td_max_rel d) tol"
proof -
  let ?lt = "\<lambda>a b. f_lt F (td_max_rel b) (td_max_rel a)" and ?ds = "cs_diffs (compare_bundles F fs g c grp)"
  have "\<exists>ds. ?ds = sort_by ?lt ds" unfolding compare_bundles_def Let_def by (rule exI) simp
  then obtain ds where ds: "?ds = sort_by ?lt ds" by blast
  have "weak_order_on (set ds) ?lt"
    using nan not_lt_trans [OF F] ordered_floatsD(1,2) [OF F] unfolding ds weak_order_on_def set_sort_by by blast
  then have sorted: "sorted_wrt (\<lambda>a b. \<not> ?lt b a) ?ds" unfolding ds by (rule sorted_sort_by)
  from d obtain d0 ds' where Cons: "?ds = d0 # ds'" by (cases ?ds) auto
  have "d = d0 \<or> \<not> f_lt F (td_max_rel d0) (td_max_rel d)" using sorted d unfolding Cons by auto
  moreover have "\<not> f_nan F (td_max_rel d)" "\<not> f_nan F (td_max_rel d0)" using nan d Cons by auto
  moreover have "f_le F (td_max_rel d0) tol" using le Cons by simp
  moreover have "\<not> f_nan F tol"
    using \<open>f_le F (td_max_rel d0) tol\<close> F unfolding f_le_def ordered_floats_def by blast
  ultimately show ?thesis
    using ordered_floatsD [OF F] unfolding f_le_def by metis
qed

text \<open>C25. When \<open>compare\<close> passes, the candidate has the golden token ids, lists every golden tensor of the group,
  and every tensor that could be read on both sides is within the tolerance.\<close>

theorem compare_sound:
  assumes "compare_ok F fs g c grp tol" and "ordered_floats F"
    and "\<forall>d \<in> set (cs_diffs (compare_bundles F fs g c grp)). \<not> f_nan F (td_max_rel d)"
  shows "gr_final_ids (mf_greedy (bu_manifest c)) = gr_final_ids (mf_greedy (bu_manifest g)) \<and>
    (\<forall>e \<in> set (mf_tensors (bu_manifest g)). in_group grp e \<longrightarrow>
       (\<exists>ce. bundle_entry c (te_name e) = Some ce \<and>
          (\<forall>gv cv. read_entry fs g e = Inr gv \<longrightarrow> read_entry fs c ce = Inr cv \<longrightarrow>
             (case diff F (te_name e) (te_shape e) gv cv of None \<Rightarrow> True | Some d \<Rightarrow> f_le F (td_max_rel d) tol))))"
proof (intro conjI ballI impI)
  show "gr_final_ids (mf_greedy (bu_manifest c)) = gr_final_ids (mf_greedy (bu_manifest g))"
    using assms(1) by (auto simp: compare_ok_def diff_tokens_def Let_def first_divergence_None)
  fix e assume e: "e \<in> set (mf_tensors (bu_manifest g))" "in_group grp e"
  have "cs_missing (compare_bundles F fs g c grp) = []" using assms(1) by (simp add: compare_ok_def Let_def)
  with e obtain ce where ce: "bundle_entry c (te_name e) = Some ce"
    using compare_bundles_sets(2) [of F fs g c grp] by fastforce
  have "f_le F (td_max_rel d) tol"
    if "read_entry fs g e = Inr gv" "read_entry fs c ce = Inr cv" "diff F (te_name e) (te_shape e) gv cv = Some d" for gv cv d
  proof (rule worst_rel_bounds [OF assms(2,3)])
    have "entry_diff F fs g c e = Some d" using ce that by (simp add: entry_diff_def)
    then show "d \<in> set (cs_diffs (compare_bundles F fs g c grp))" using e by (auto simp: compare_bundles_sets(1))
    show "f_le F (case cs_diffs (compare_bundles F fs g c grp) of [] \<Rightarrow> f_zero F | d # _ \<Rightarrow> td_max_rel d) tol"
      using assms(1) by (simp add: compare_ok_def Let_def)
  qed
  with ce show "\<exists>ce. bundle_entry c (te_name e) = Some ce \<and>
      (\<forall>gv cv. read_entry fs g e = Inr gv \<longrightarrow> read_entry fs c ce = Inr cv \<longrightarrow>
         (case diff F (te_name e) (te_shape e) gv cv of None \<Rightarrow> True | Some d \<Rightarrow> f_le F (td_max_rel d) tol))"
    by (auto split: option.split)
qed

text \<open>A tensor that cannot be read is passed over: a candidate whose manifest repeats the golden one passes with
  none of its tensor files in place.\<close>

lemma compare_passes_without_files:
  assumes "\<forall>e \<in> set (mf_tensors (bu_manifest g)). bundle_entry c (te_name e) \<noteq> None"
    and "\<forall>(n, e) \<in> set (bu_index c). fs (path_join (bu_root c) (te_file e)) = None"
    and "gr_final_ids (mf_greedy (bu_manifest c)) = gr_final_ids (mf_greedy (bu_manifest g))"
    and "check_token_selfconsistency F fs g = []" and "f_le F (f_zero F) tol"
  shows "compare_ok F fs g c grp tol"
proof -
  have none: "read_entry fs c ce = Inl BuIo" if "map_of (bu_index c) n = Some ce" for n ce
    using assms(2) map_of_SomeD [OF that] by (auto simp: read_entry_def)
  then have "set (cs_diffs (compare_bundles F fs g c grp)) = {}" "set (cs_missing (compare_bundles F fs g c grp)) = {}"
    using assms(1) by (auto simp: compare_bundles_sets entry_diff_def bundle_entry_def split: option.splits sum.splits)
  moreover have "check_token_selfconsistency F fs c = []"
    using none by (auto simp: check_token_selfconsistency_def check_step_def bundle_read_def ok_or_def split: option.splits)
  ultimately show ?thesis
    using assms(3-5) by (simp add: compare_ok_def Let_def diff_tokens_def first_divergence_None)
qed

section \<open>Witnesses\<close>

definition bu_ex_F :: "u32 fops" where
  "bu_ex_F = \<lparr>f_zero = 0, f_one = 1, f_neg_inf = 0, f_inf = 0xFF, f_sum_start = 0, f_add = (+), f_sub = (-), f_mul = (*),
     f_div = (div), f_neg = uminus, f_abs = id, f_exp = id, f_ln = id, f_sqrt = id, f_of_nat = word_of_nat, f_lt = (<),
     f_eq = (=), f_finite = (\<lambda>_. True)\<rparr>"

lemma bu_ex_ordered: "ordered_floats bu_ex_F" "\<not> f_nan bu_ex_F x"
  by (auto simp: ordered_floats_def bu_ex_F_def f_nan_def)

definition bu_ex_entry :: TensorEntry where
  "bu_ex_entry = \<lparr>te_group = lit ''units'', te_name = lit ''w'', te_file = lit ''units/w.f32'', te_shape = [2],
     te_dtype = lit ''f32'', te_numel = 2, te_nbytes = 8\<rparr>"

definition bu_ex :: "rstr \<Rightarrow> nat Bundle" where
  "bu_ex root = \<lparr>bu_root = root,
     bu_manifest = \<lparr>mf_schema = lit ''qwen35-golden-v1'', mf_byte_order = lit ''little'', mf_dtype = lit ''f32'',
       mf_source = \<lparr>so_model = [], so_transformers = None, so_torch = None, so_seed = 0, so_params = 0, so_ssm_gain = 1\<rparr>,
       mf_config = JNull, mf_prompt_ids = [1], mf_tensors = [bu_ex_entry],
       mf_greedy = \<lparr>gr_steps = [], gr_final_ids = [1, 2]\<rparr>\<rparr>,
     bu_index = [(lit ''w'', bu_ex_entry)]\<rparr>"

definition bu_ex_fs :: "rstr \<Rightarrow> u8 list option" where
  "bu_ex_fs p = (if p = lit ''g/units/w.f32'' then Some [5, 0, 0, 0, 7, 0, 0, 0] else None)"

theorem bundle_write_read_witness:
  "read_entry (bundle_write bu_ex_fs (bu_ex (lit ''c'')) (lit ''units'') (lit ''w'') [2] [5, 7]) (bu_ex (lit ''c'')) bu_ex_entry = Inr [5, 7]"
  using bundle_write_read [of bu_ex_entry "lit ''units''" "lit ''w''" "[5, 7]" bu_ex_fs "bu_ex (lit ''c'')" "[2]"]
  by (simp add: bu_ex_entry_def)

theorem diff_reports_worst_witness:
  "\<exists>d. diff bu_ex_F (lit ''w'') [2] [5, 7] [5, 2] = Some d \<and> td_max_abs d = dist bu_ex_F 7 2 \<and>
     \<not> f_lt bu_ex_F (td_max_abs d) (dist bu_ex_F 5 5)"
proof -
  have "diff_loop bu_ex_F (zip [5, 7] [5, 2]) 0 (f_zero bu_ex_F) 0 (f_zero bu_ex_F) = Inr (5, 1, 7)"
    by (simp add: bu_ex_F_def Let_def f_max_def f_nan_def)
  then obtain d where d: "diff bu_ex_F (lit ''w'') [2] [5, 7] [5, 2] = Some d" "td_max_abs_index d = 1"
    by (auto simp: diff_def bu_ex_F_def)
  have "\<not> incomparable bu_ex_F [5, 7] [5, 2]" by (simp add: incomparable_def bu_ex_F_def)
  with diff_reports_worst [OF bu_ex_ordered, where name = "lit ''w''" and shape = "[2]" and golden = "[5, 7]" and cand = "[5, 2]"] d show ?thesis
    by (auto simp: less_Suc_eq)
qed

lemma bu_ex_consistent: "check_token_selfconsistency bu_ex_F fs (bu_ex root) = []"
  by (simp add: check_token_selfconsistency_def bu_ex_def)

theorem compare_passes_without_files_witness:
  "compare_ok bu_ex_F bu_ex_fs (bu_ex (lit ''g'')) (bu_ex (lit ''c'')) None 0 \<and>
   (\<forall>e. read_entry bu_ex_fs (bu_ex (lit ''c'')) bu_ex_entry \<noteq> Inr e)"
proof
  show "compare_ok bu_ex_F bu_ex_fs (bu_ex (lit ''g'')) (bu_ex (lit ''c'')) None 0"
    by (rule compare_passes_without_files [OF _ _ _ bu_ex_consistent])
      (simp_all add: bu_ex_def bu_ex_entry_def bundle_entry_def bu_ex_fs_def path_join_def starts_with_def ends_with_def bu_ex_F_def f_le_def)
qed (simp add: read_entry_def bu_ex_def bu_ex_entry_def bu_ex_fs_def path_join_def starts_with_def ends_with_def)

lemma bu_ex_read: "read_entry bu_ex_fs (bu_ex (lit ''g'')) bu_ex_entry = Inr [5, 7]"
proof -
  have "elements 4 [5, 0, 0, 0, 7, 0, 0, 0] = [[5, 0, 0, 0], [7, 0, 0, 0 :: u8]]"
  proof -
    have "elements 4 (concat [[5, 0, 0, 0], [7, 0, 0, 0 :: u8]]) = [[5, 0, 0, 0], [7, 0, 0, 0]]"
      by (rule elements_concat) auto
    then show ?thesis by simp
  qed
  then show ?thesis
    by (simp add: read_entry_def bu_ex_def bu_ex_entry_def bu_ex_fs_def path_join_def starts_with_def ends_with_def)
qed

theorem compare_sound_witness:
  "\<exists>ce. bundle_entry (bu_ex (lit ''g'')) (lit ''w'') = Some ce \<and>
     (case diff bu_ex_F (lit ''w'') [2] [5, 7] [5, 7] of None \<Rightarrow> True | Some d \<Rightarrow> f_le bu_ex_F (td_max_rel d) 0)"
proof -
  let ?g = "bu_ex (lit ''g'')"
  have ts: "mf_tensors (bu_manifest ?g) = [bu_ex_entry]" "bundle_entry ?g (te_name bu_ex_entry) = Some bu_ex_entry"
    by (simp_all add: bu_ex_def bundle_entry_def bu_ex_entry_def)
  have "diff bu_ex_F (te_name bu_ex_entry) (te_shape bu_ex_entry) [5, 7] [5, 7] = None"
    by (simp add: diff_def bu_ex_F_def Let_def)
  then have none: "entry_diff bu_ex_F bu_ex_fs ?g ?g bu_ex_entry = None"
    by (simp add: entry_diff_def ts bu_ex_read del: lit_simps)
  have diffs: "cs_diffs (compare_bundles bu_ex_F bu_ex_fs ?g ?g None) = []" "cs_missing (compare_bundles bu_ex_F bu_ex_fs ?g ?g None) = []"
    using compare_bundles_sets [of bu_ex_F bu_ex_fs ?g ?g None] none ts by auto
  then have ok: "compare_ok bu_ex_F bu_ex_fs ?g ?g None 0"
    by (simp add: compare_ok_def Let_def diff_tokens_def first_divergence_None bu_ex_consistent del: lit_simps)
      (simp add: bu_ex_F_def f_le_def)
  have "in_group None bu_ex_entry" by (simp add: in_group_def)
  with compare_sound [OF ok bu_ex_ordered(1)] diffs ts bu_ex_read show ?thesis
    by (auto simp: bu_ex_entry_def)
qed

end
