(* ===== verification/Loader.thy ===== *)
theory Loader
  imports Bundle Weight_Source
begin

text \<open>
  Loading a golden bundle into the forward pass (\<open>gdn/src/loader.rs\<close>): the sizes of the model derived
  from the bundle, the tensor names of a layer, and the weights. Sizes are \<open>usize\<close>; where a product
  may exceed 64 bits its wrap-around is written out. JSON numbers and conversions between floats and
  integers are the parameter \<open>C\<close>.
\<close>

section \<open>Model-level sizes\<close>

record 'g ModelInfo =
  mi_b :: nat
  mi_t :: nat
  mi_hidden :: nat
  mi_intermediate :: nat
  mi_num_layers :: nat
  mi_layer_types :: "rstr list"
  mi_eps :: u32
  mi_ssm_gain :: 'g
  mi_vocab :: nat
  mi_gdn :: "u32 GdnConfig"
  mi_attn :: "u32 AttnConfig"

definition layer_type :: "'g ModelInfo \<Rightarrow> nat \<Rightarrow> rstr" where
  "layer_type m layer = (if layer < length (mi_layer_types m) then mi_layer_types m ! layer else lit ''unknown'')"

definition is_linear :: "'g ModelInfo \<Rightarrow> nat \<Rightarrow> bool" where
  "is_linear m layer \<longleftrightarrow> layer_type m layer = lit ''linear_attention''"

definition ssm_ordinal :: "'g ModelInfo \<Rightarrow> nat \<Rightarrow> nat option" where
  "ssm_ordinal m layer = (if \<not> is_linear m layer then None else Some (length (filter (is_linear m) [0..<layer])))"

definition input_name :: "'g ModelInfo \<Rightarrow> nat \<Rightarrow> rstr" where
  "input_name m layer = (if layer = 0 then lit ''model__embed_tokens'' else lit ''model__layers__'' @ show_nat (layer - 1))"

definition chain_layers :: "'g ModelInfo \<Rightarrow> nat list" where
  "chain_layers m = [0..<mi_num_layers m]"

definition info_config :: "'g ModelInfo \<Rightarrow> u32 ModelConfig" where
  "info_config m = \<lparr>mc_vocab = mi_vocab m, mc_hidden = mi_hidden m, mc_eps = mi_eps m, mc_gdn = mi_gdn m, mc_attn = mi_attn m\<rparr>"

definition counts :: "'g ModelInfo \<Rightarrow> nat \<times> nat" where
  "counts m = (let lin = length (filter (is_linear m) [0..<mi_num_layers m]) in (lin, mi_num_layers m - lin))"

datatype load_error =
    LoNoEmbed
  | LoEmbedAxes "nat list"
  | LoNoHidden
  | LoNoIntermediate
  | LoNoLayers
  | LoNoLinear
  | LoMissing rstr
  | LoNoDelta
  | LoInconsistent
  | LoNoVocab
  | LoNoKey rstr
  | LoRotary nat nat
  | LoHeads nat nat
  | LoRead rstr bundle_error
  | LoCount rstr nat nat
  | LoNoGdn nat
  | LoPanic

text \<open>\<open>str::parse::<usize>\<close>: an optional plus sign, then digits.\<close>

definition parse_usize :: "rstr \<Rightarrow> nat option" where
  "parse_usize s =
     (let ds = (case s of c # cs \<Rightarrow> if c = 43 then cs else s | [] \<Rightarrow> s)
      in if ds \<noteq> [] \<and> list_all is_digit ds \<and> digits_nat ds < 2 ^ 64 then Some (digits_nat ds) else None)"

definition count_layer :: "nat \<Rightarrow> rstr \<Rightarrow> nat" where
  "count_layer num_layers name =
     (case strip_prefix name (lit ''model__layers__'') of
        None \<Rightarrow> num_layers
      | Some rest \<Rightarrow>
          if contains_sub rest (lit ''__'') then num_layers
          else case parse_usize rest of Some n \<Rightarrow> max num_layers (wrap64 (n + 1)) | None \<Rightarrow> num_layers)"

definition first_dim :: "TensorEntry \<Rightarrow> nat" where
  "first_dim e = (case te_shape e of d # _ \<Rightarrow> d | [] \<Rightarrow> 0)"

definition last_dim :: "TensorEntry \<Rightarrow> nat option" where
  "last_dim e = (if te_shape e = [] then None else Some (last (te_shape e)))"

definition positive_dim :: "'g Bundle \<Rightarrow> rstr \<Rightarrow> nat option" where
  "positive_dim b name = Option.bind (map_option first_dim (bundle_entry b name)) (\<lambda>h. if 0 < h then Some h else None)"

definition layer_kinds :: "'g Bundle \<Rightarrow> nat \<Rightarrow> rstr list" where
  "layer_kinds b num_layers =
     (let from_config = (case Option.bind (jget (mf_config (bu_manifest b)) (lit ''layer_types'')) as_array of
            Some a \<Rightarrow> List.map_filter as_str a
          | None \<Rightarrow> [])
      in if num_layers \<le> length from_config then take num_layers from_config
         else map (\<lambda>l. if bundle_entry b (lit ''model__layers__'' @ show_nat l @ lit ''__linear_attn'') \<noteq> None
                       then lit ''linear_attention'' else lit ''full_attention'') [0..<num_layers])"

definition gdn_dims :: "nat \<Rightarrow> u32 \<Rightarrow> nat \<Rightarrow> nat \<Rightarrow> nat \<Rightarrow> nat \<Rightarrow> nat \<Rightarrow> nat \<Rightarrow> load_error + u32 GdnConfig" where
  "gdn_dims hidden eps conv_dim_n value_dim_n num_v_heads_n head_v_dim_n conv_kernel_n head_k_dim_n =
     (let key_dim_n = (conv_dim_n - value_dim_n) div 2;
          num_k_heads_n = (if head_k_dim_n = 0 then 0 else key_dim_n div head_k_dim_n) in
      guard_err (head_k_dim_n = 0 \<or> num_k_heads_n = 0 \<or> key_dim_n \<noteq> num_k_heads_n * head_k_dim_n \<or>
          conv_dim_n \<noteq> wrap64 (2 * key_dim_n + value_dim_n) \<or> value_dim_n \<noteq> wrap64 (num_v_heads_n * head_v_dim_n) \<or>
          num_v_heads_n mod num_k_heads_n \<noteq> 0) LoInconsistent
        (Inr \<lparr>gc_hidden = hidden, num_k_heads = num_k_heads_n, num_v_heads = num_v_heads_n, head_k_dim = head_k_dim_n,
              head_v_dim = head_v_dim_n, conv_kernel = conv_kernel_n, gc_eps = eps\<rparr>))"

definition load_gdn_config ::
  "'g Bundle \<Rightarrow> nat \<Rightarrow> rstr list \<Rightarrow> nat \<Rightarrow> u32 \<Rightarrow> load_error + u32 GdnConfig" where
  "load_gdn_config b num_layers layer_types hidden eps =
     try_bind (ok_or (find (\<lambda>l. l < length layer_types \<and> layer_types ! l = lit ''linear_attention'') [0..<num_layers]) LoNoLinear) (\<lambda>fst_lin.
     let p = lit ''model__layers__'' @ show_nat fst_lin @ lit ''__linear_attn__'';
         dim = (\<lambda>s. ok_or (map_option first_dim (bundle_entry b (p @ s))) (LoMissing s)) in
     try_bind (dim (lit ''in_proj_qkv__weight'')) (\<lambda>conv_dim.
     try_bind (dim (lit ''in_proj_z__weight'')) (\<lambda>value_dim.
     try_bind (dim (lit ''in_proj_b__weight'')) (\<lambda>num_v_heads.
     try_bind (dim (lit ''norm__weight'')) (\<lambda>head_v_dim.
     try_bind (ok_or (Option.bind (bundle_entry b (p @ lit ''conv1d__weight'')) last_dim) (LoMissing (lit ''conv1d__weight''))) (\<lambda>conv_kernel.
     try_bind (ok_or (Option.bind (bundle_entry b (lit ''delta_torch_chunk_gated_delta_rule_0__q'')) last_dim) LoNoDelta) (\<lambda>head_k_dim.
     gdn_dims hidden eps conv_dim value_dim num_v_heads head_v_dim conv_kernel head_k_dim)))))))"

definition config_usize :: "'g json \<Rightarrow> rstr \<Rightarrow> nat option" where
  "config_usize cfg key = map_option unat (Option.bind (jget cfg key) as_u64)"

definition attn_dims :: "nat \<Rightarrow> u32 \<Rightarrow> nat \<Rightarrow> nat \<Rightarrow> nat \<Rightarrow> nat \<Rightarrow> u32 \<Rightarrow> load_error + u32 AttnConfig" where
  "attn_dims hidden eps num_attention_heads num_key_value_heads head_dim_n rotary_dim_n rope_theta_n =
     guard_err (rotary_dim_n = 0 \<or> head_dim_n < rotary_dim_n \<or> rotary_dim_n mod 2 \<noteq> 0) (LoRotary rotary_dim_n head_dim_n) (
     guard_err (num_key_value_heads = 0) LoPanic (
     guard_err (num_attention_heads mod num_key_value_heads \<noteq> 0) (LoHeads num_attention_heads num_key_value_heads)
       (Inr \<lparr>ac_hidden = hidden, num_heads = num_attention_heads, num_kv_heads = num_key_value_heads,
             head_dim = head_dim_n, rotary_dim = rotary_dim_n, rope_theta = rope_theta_n, ac_eps = eps\<rparr>)))"

definition load_attn_config :: "'g casts \<Rightarrow> 'g Bundle \<Rightarrow> nat \<Rightarrow> u32 \<Rightarrow> load_error + u32 AttnConfig" where
  "load_attn_config C b hidden eps =
     (let cfg = mf_config (bu_manifest b); key = (\<lambda>k. ok_or (config_usize cfg k) (LoNoKey k)) in
      try_bind (key (lit ''num_attention_heads'')) (\<lambda>num_attention_heads.
      try_bind (key (lit ''num_key_value_heads'')) (\<lambda>num_key_value_heads.
      try_bind (key (lit ''head_dim'')) (\<lambda>head_dim.
      let rope_theta = rope_number C cfg (lit ''rope_theta'') (ca_1e4 C);
          partial = rope_number C cfg (lit ''partial_rotary_factor'') (ca_1 C);
          rotary_dim = (case Option.bind (bundle_entry b (lit ''model__rotary_emb__out0'')) last_dim of
              Some d \<Rightarrow> d
            | None \<Rightarrow> ca_to_usize C (ca_mul C (ca_of_usize C head_dim) partial)) in
      attn_dims hidden eps num_attention_heads num_key_value_heads head_dim rotary_dim rope_theta))))"

definition bundle_load_model :: "'g casts \<Rightarrow> 'g Bundle \<Rightarrow> load_error + 'g ModelInfo" where
  "bundle_load_model C b =
     (let cfg = mf_config (bu_manifest b) in
      try_bind (ok_or (bundle_entry b (lit ''model__embed_tokens'')) LoNoEmbed) (\<lambda>emb.
      guard_err (length (te_shape emb) \<noteq> 3) (LoEmbedAxes (te_shape emb)) (
      try_bind (ok_or (positive_dim b (lit ''model__layers__0__input_layernorm__weight'')) LoNoHidden) (\<lambda>hidden.
      try_bind (ok_or (positive_dim b (lit ''model__layers__0__mlp__gate_proj__weight'')) LoNoIntermediate) (\<lambda>intermediate.
      let num_layers = foldl count_layer 0 (bundle_names b) in
      guard_err (num_layers = 0) LoNoLayers (
      let layer_types = layer_kinds b num_layers;
          eps = (case Option.bind (jget cfg (lit ''rms_norm_eps'')) (as_f64 C) of Some v \<Rightarrow> ca_f32 C v | None \<Rightarrow> ca_1e_6 C) in
      try_bind (load_gdn_config b num_layers layer_types hidden eps) (\<lambda>gdn.
      try_bind (ok_or (case config_usize cfg (lit ''vocab_size'') of
            Some v \<Rightarrow> Some v
          | None \<Rightarrow> Option.bind (bundle_entry b (lit ''model__embed_tokens__weight''))
              (\<lambda>e. case te_shape e of d # _ \<Rightarrow> Some d | [] \<Rightarrow> None)) LoNoVocab) (\<lambda>vocab.
      try_bind (load_attn_config C b hidden eps) (\<lambda>attn.
      Inr \<lparr>mi_b = te_shape emb ! 0, mi_t = te_shape emb ! 1, mi_hidden = hidden, mi_intermediate = intermediate,
           mi_num_layers = num_layers, mi_layer_types = layer_types, mi_eps = eps,
           mi_ssm_gain = so_ssm_gain (mf_source (bu_manifest b)), mi_vocab = vocab, mi_gdn = gdn, mi_attn = attn\<rparr>)))))))))"

section \<open>Tensor names of a layer\<close>

record LayerCapture =
  lc_layer :: nat
  lc_ssm :: "nat option"
  lc_prefix :: rstr
  lc_attn :: rstr

definition LayerCapture_new :: "nat \<Rightarrow> nat option \<Rightarrow> LayerCapture" where
  "LayerCapture_new layer ssm =
     (let pre = lit ''model__layers__'' @ show_nat layer @ lit ''__''
      in \<lparr>lc_layer = layer, lc_ssm = ssm, lc_prefix = pre, lc_attn = pre @ lit ''linear_attn__''\<rparr>)"

definition cap_conv :: "LayerCapture \<Rightarrow> rstr \<Rightarrow> rstr option" where
  "cap_conv c part = map_option (\<lambda>k. lit ''causal_conv1d_fn_call'' @ show_nat k @ lit ''_'' @ part) (lc_ssm c)"

definition cap_delta :: "LayerCapture \<Rightarrow> rstr \<Rightarrow> rstr option" where
  "cap_delta c part = map_option (\<lambda>k. lit ''delta_torch_chunk_gated_delta_rule_'' @ show_nat k @ lit ''__'' @ part) (lc_ssm c)"

definition cap_layer_out :: "LayerCapture \<Rightarrow> rstr" where
  "cap_layer_out c = lit ''model__layers__'' @ show_nat (lc_layer c)"

definition cap_input_layernorm :: "LayerCapture \<Rightarrow> rstr" where
  "cap_input_layernorm c = lc_prefix c @ lit ''input_layernorm''"

definition cap_in_proj_qkv :: "LayerCapture \<Rightarrow> rstr" where
  "cap_in_proj_qkv c = lc_attn c @ lit ''in_proj_qkv''"

definition cap_in_proj_z :: "LayerCapture \<Rightarrow> rstr" where
  "cap_in_proj_z c = lc_attn c @ lit ''in_proj_z''"

definition cap_in_proj_b :: "LayerCapture \<Rightarrow> rstr" where
  "cap_in_proj_b c = lc_attn c @ lit ''in_proj_b''"

definition cap_in_proj_a :: "LayerCapture \<Rightarrow> rstr" where
  "cap_in_proj_a c = lc_attn c @ lit ''in_proj_a''"

definition cap_conv_in :: "LayerCapture \<Rightarrow> rstr option" where
  "cap_conv_in c = cap_conv c (lit ''in'')"

definition cap_conv_out :: "LayerCapture \<Rightarrow> rstr option" where
  "cap_conv_out c = cap_conv c (lit ''out'')"

definition cap_delta_operand :: "LayerCapture \<Rightarrow> rstr \<Rightarrow> rstr option" where
  "cap_delta_operand c operand = cap_delta c operand"

definition cap_delta_out :: "LayerCapture \<Rightarrow> rstr option" where
  "cap_delta_out c = cap_delta c (lit ''out'')"

definition cap_delta_state :: "LayerCapture \<Rightarrow> rstr option" where
  "cap_delta_state c = cap_delta c (lit ''state'')"

definition cap_mixer_norm :: "LayerCapture \<Rightarrow> rstr" where
  "cap_mixer_norm c = lc_attn c @ lit ''norm''"

definition cap_out_proj :: "LayerCapture \<Rightarrow> rstr" where
  "cap_out_proj c = lc_attn c @ lit ''out_proj''"

definition cap_linear_attn :: "LayerCapture \<Rightarrow> rstr" where
  "cap_linear_attn c = lc_prefix c @ lit ''linear_attn''"

definition cap_post_attention_layernorm :: "LayerCapture \<Rightarrow> rstr" where
  "cap_post_attention_layernorm c = lc_prefix c @ lit ''post_attention_layernorm''"

definition cap_mlp_gate_proj :: "LayerCapture \<Rightarrow> rstr" where
  "cap_mlp_gate_proj c = lc_prefix c @ lit ''mlp__gate_proj''"

definition cap_mlp_up_proj :: "LayerCapture \<Rightarrow> rstr" where
  "cap_mlp_up_proj c = lc_prefix c @ lit ''mlp__up_proj''"

definition cap_mlp_swiglu :: "LayerCapture \<Rightarrow> rstr" where
  "cap_mlp_swiglu c = lc_prefix c @ lit ''mlp__swiglu_product''"

definition cap_mlp_down_proj :: "LayerCapture \<Rightarrow> rstr" where
  "cap_mlp_down_proj c = lc_prefix c @ lit ''mlp__down_proj''"

definition cap_mlp :: "LayerCapture \<Rightarrow> rstr" where
  "cap_mlp c = lc_prefix c @ lit ''mlp''"

definition cap_w_input_layernorm :: "LayerCapture \<Rightarrow> rstr" where
  "cap_w_input_layernorm c = lc_prefix c @ lit ''input_layernorm__weight''"

definition cap_w_post_attention_layernorm :: "LayerCapture \<Rightarrow> rstr" where
  "cap_w_post_attention_layernorm c = lc_prefix c @ lit ''post_attention_layernorm__weight''"

definition cap_w_in_proj_qkv :: "LayerCapture \<Rightarrow> rstr" where
  "cap_w_in_proj_qkv c = lc_attn c @ lit ''in_proj_qkv__weight''"

definition cap_w_in_proj_z :: "LayerCapture \<Rightarrow> rstr" where
  "cap_w_in_proj_z c = lc_attn c @ lit ''in_proj_z__weight''"

definition cap_w_in_proj_b :: "LayerCapture \<Rightarrow> rstr" where
  "cap_w_in_proj_b c = lc_attn c @ lit ''in_proj_b__weight''"

definition cap_w_in_proj_a :: "LayerCapture \<Rightarrow> rstr" where
  "cap_w_in_proj_a c = lc_attn c @ lit ''in_proj_a__weight''"

definition cap_w_conv1d :: "LayerCapture \<Rightarrow> rstr" where
  "cap_w_conv1d c = lc_attn c @ lit ''conv1d__weight''"

definition cap_w_a_log :: "LayerCapture \<Rightarrow> rstr" where
  "cap_w_a_log c = lc_attn c @ lit ''A_log''"

definition cap_w_dt_bias :: "LayerCapture \<Rightarrow> rstr" where
  "cap_w_dt_bias c = lc_attn c @ lit ''dt_bias''"

definition cap_w_norm :: "LayerCapture \<Rightarrow> rstr" where
  "cap_w_norm c = lc_attn c @ lit ''norm__weight''"

definition cap_w_out_proj :: "LayerCapture \<Rightarrow> rstr" where
  "cap_w_out_proj c = lc_attn c @ lit ''out_proj__weight''"

definition cap_w_gate_proj :: "LayerCapture \<Rightarrow> rstr" where
  "cap_w_gate_proj c = lc_prefix c @ lit ''mlp__gate_proj__weight''"

definition cap_w_up_proj :: "LayerCapture \<Rightarrow> rstr" where
  "cap_w_up_proj c = lc_prefix c @ lit ''mlp__up_proj__weight''"

definition cap_w_down_proj :: "LayerCapture \<Rightarrow> rstr" where
  "cap_w_down_proj c = lc_prefix c @ lit ''mlp__down_proj__weight''"

definition cap_sa :: "LayerCapture \<Rightarrow> rstr \<Rightarrow> rstr" where
  "cap_sa c part = lc_prefix c @ lit ''self_attn__'' @ part"

definition cap_w_q_proj :: "LayerCapture \<Rightarrow> rstr" where
  "cap_w_q_proj c = cap_sa c (lit ''q_proj__weight'')"

definition cap_w_k_proj :: "LayerCapture \<Rightarrow> rstr" where
  "cap_w_k_proj c = cap_sa c (lit ''k_proj__weight'')"

definition cap_w_v_proj :: "LayerCapture \<Rightarrow> rstr" where
  "cap_w_v_proj c = cap_sa c (lit ''v_proj__weight'')"

definition cap_w_o_proj :: "LayerCapture \<Rightarrow> rstr" where
  "cap_w_o_proj c = cap_sa c (lit ''o_proj__weight'')"

definition cap_w_q_norm :: "LayerCapture \<Rightarrow> rstr" where
  "cap_w_q_norm c = cap_sa c (lit ''q_norm__weight'')"

definition cap_w_k_norm :: "LayerCapture \<Rightarrow> rstr" where
  "cap_w_k_norm c = cap_sa c (lit ''k_norm__weight'')"

definition cap_self_attn_out0 :: "LayerCapture \<Rightarrow> rstr" where
  "cap_self_attn_out0 c = cap_sa c (lit ''out0'')"

definition cap_o_proj_in :: "LayerCapture \<Rightarrow> rstr" where
  "cap_o_proj_in c = cap_sa c (lit ''o_proj__in'')"

definition cap_q_proj :: "LayerCapture \<Rightarrow> rstr" where
  "cap_q_proj c = cap_sa c (lit ''q_proj'')"

definition cap_q_norm :: "LayerCapture \<Rightarrow> rstr" where
  "cap_q_norm c = cap_sa c (lit ''q_norm'')"

definition cap_k_proj :: "LayerCapture \<Rightarrow> rstr" where
  "cap_k_proj c = cap_sa c (lit ''k_proj'')"

definition cap_k_norm :: "LayerCapture \<Rightarrow> rstr" where
  "cap_k_norm c = cap_sa c (lit ''k_norm'')"

definition cap_v_proj :: "LayerCapture \<Rightarrow> rstr" where
  "cap_v_proj c = cap_sa c (lit ''v_proj'')"

definition cap_o_proj :: "LayerCapture \<Rightarrow> rstr" where
  "cap_o_proj c = cap_sa c (lit ''o_proj'')"

definition cap_self_attn :: "LayerCapture \<Rightarrow> rstr" where
  "cap_self_attn c = lc_prefix c @ lit ''self_attn''"

section \<open>Weights\<close>

definition read_exact :: "(rstr \<Rightarrow> u8 list option) \<Rightarrow> 'g Bundle \<Rightarrow> rstr \<Rightarrow> nat \<Rightarrow> load_error + u32 list" where
  "read_exact fs b name expect =
     (case bundle_read fs b name of
        Inl e \<Rightarrow> Inl (LoRead name e)
      | Inr v \<Rightarrow> guard_err (length v \<noteq> expect) (LoCount name (length v) expect) (Inr v))"

definition load_gdn_weights ::
  "(rstr \<Rightarrow> u8 list option) \<Rightarrow> 'g Bundle \<Rightarrow> 'g ModelInfo \<Rightarrow> nat \<Rightarrow> load_error + u32 GdnWeights" where
  "load_gdn_weights fs b m layer =
     (let c = LayerCapture_new layer (ssm_ordinal m layer) in
      guard_err (lc_ssm c = None) (LoNoGdn layer) (
      let g = mi_gdn m; h = gc_hidden g; vd = value_dim g; nh = num_v_heads g in
      try_bind (read_exact fs b (cap_w_in_proj_qkv c) (wrap64 (conv_dim g * h))) (\<lambda>in_proj_qkv.
      try_bind (read_exact fs b (cap_w_in_proj_z c) (wrap64 (vd * h))) (\<lambda>in_proj_z.
      try_bind (read_exact fs b (cap_w_in_proj_b c) (wrap64 (nh * h))) (\<lambda>in_proj_b.
      try_bind (read_exact fs b (cap_w_in_proj_a c) (wrap64 (nh * h))) (\<lambda>in_proj_a.
      try_bind (read_exact fs b (cap_w_conv1d c) (wrap64 (conv_dim g * conv_kernel g))) (\<lambda>conv1d.
      try_bind (read_exact fs b (cap_w_a_log c) nh) (\<lambda>a_log.
      try_bind (read_exact fs b (cap_w_dt_bias c) nh) (\<lambda>dt_bias.
      try_bind (read_exact fs b (cap_w_norm c) (head_v_dim g)) (\<lambda>norm.
      try_bind (read_exact fs b (cap_w_out_proj c) (wrap64 (h * vd))) (\<lambda>out_proj.
      Inr \<lparr>gw_in_proj_qkv = in_proj_qkv, gw_in_proj_z = in_proj_z, gw_in_proj_b = in_proj_b, gw_in_proj_a = in_proj_a,
           gw_conv1d = conv1d, gw_a_log = a_log, gw_dt_bias = dt_bias, gw_norm = norm, gw_out_proj = out_proj\<rparr>)))))))))))"

definition load_layer_weights ::
  "(rstr \<Rightarrow> u8 list option) \<Rightarrow> 'g Bundle \<Rightarrow> 'g ModelInfo \<Rightarrow> nat \<Rightarrow> load_error + u32 LayerWeights" where
  "load_layer_weights fs b m layer =
     (let c = LayerCapture_new layer (ssm_ordinal m layer); h = mi_hidden m; i = mi_intermediate m in
      try_bind (read_exact fs b (cap_w_input_layernorm c) h) (\<lambda>input_layernorm.
      try_bind (read_exact fs b (cap_w_post_attention_layernorm c) h) (\<lambda>post_attention_layernorm.
      try_bind (read_exact fs b (cap_w_gate_proj c) (wrap64 (i * h))) (\<lambda>gate.
      try_bind (read_exact fs b (cap_w_up_proj c) (wrap64 (i * h))) (\<lambda>up.
      try_bind (read_exact fs b (cap_w_down_proj c) (wrap64 (h * i))) (\<lambda>down.
      Inr \<lparr>lw_input_layernorm = input_layernorm, lw_post_attention_layernorm = post_attention_layernorm,
           lw_mlp = \<lparr>gate_proj = gate, up_proj = up, down_proj = down\<rparr>\<rparr>))))))"

definition layer_kind :: "'g ModelInfo \<Rightarrow> nat \<Rightarrow> LayerKind" where
  "layer_kind m layer = (if is_linear m layer then LinearAttention else FullAttention)"

definition load_attn_weights ::
  "(rstr \<Rightarrow> u8 list option) \<Rightarrow> 'g Bundle \<Rightarrow> 'g ModelInfo \<Rightarrow> nat \<Rightarrow> load_error + u32 AttnWeights" where
  "load_attn_weights fs b m layer =
     (let c = LayerCapture_new layer (ssm_ordinal m layer); a = mi_attn m in
      try_bind (read_exact fs b (cap_w_q_proj c) (wrap64 (q_out_dim a * ac_hidden a))) (\<lambda>q_proj.
      try_bind (read_exact fs b (cap_w_k_proj c) (wrap64 (kv_out_dim a * ac_hidden a))) (\<lambda>k_proj.
      try_bind (read_exact fs b (cap_w_v_proj c) (wrap64 (kv_out_dim a * ac_hidden a))) (\<lambda>v_proj.
      try_bind (read_exact fs b (cap_w_o_proj c) (wrap64 (ac_hidden a * num_heads a * head_dim a))) (\<lambda>o_proj.
      try_bind (read_exact fs b (cap_w_q_norm c) (head_dim a)) (\<lambda>q_norm.
      try_bind (read_exact fs b (cap_w_k_norm c) (head_dim a)) (\<lambda>k_norm.
      Inr \<lparr>aw_q_proj = q_proj, aw_k_proj = k_proj, aw_v_proj = v_proj, aw_o_proj = o_proj, aw_q_norm = q_norm,
           aw_k_norm = k_norm\<rparr>)))))))"

definition load_layer ::
  "(rstr \<Rightarrow> u8 list option) \<Rightarrow> 'g Bundle \<Rightarrow> 'g ModelInfo \<Rightarrow> nat \<Rightarrow> load_error + u32 LayerWeightsAll" where
  "load_layer fs b m layer =
     (let kind = layer_kind m layer in
      try_bind (load_layer_weights fs b m layer) (\<lambda>lw.
      case kind of
        LinearAttention \<Rightarrow> try_bind (load_gdn_weights fs b m layer) (\<lambda>g.
          Inr \<lparr>la_kind = kind, la_layer = lw, la_gdn = Some g, la_attn = None\<rparr>)
      | FullAttention \<Rightarrow> try_bind (load_attn_weights fs b m layer) (\<lambda>a.
          Inr \<lparr>la_kind = kind, la_layer = lw, la_gdn = None, la_attn = Some a\<rparr>)))"

definition load_all_layers ::
  "(rstr \<Rightarrow> u8 list option) \<Rightarrow> 'g Bundle \<Rightarrow> 'g ModelInfo \<Rightarrow> load_error + u32 LayerWeightsAll list" where
  "load_all_layers fs b m = collect_result (load_layer fs b m) [0..<mi_num_layers m]"

definition load_model_weights ::
  "(rstr \<Rightarrow> u8 list option) \<Rightarrow> 'g Bundle \<Rightarrow> 'g ModelInfo \<Rightarrow> load_error + u32 ModelWeights" where
  "load_model_weights fs b m =
     try_bind (read_exact fs b (lit ''model__embed_tokens__weight'') (wrap64 (mi_vocab m * mi_hidden m))) (\<lambda>embed_tokens.
     try_bind (read_exact fs b (lit ''model__norm__weight'') (mi_hidden m)) (\<lambda>final_norm.
     try_bind (read_exact fs b (lit ''lm_head__weight'') (wrap64 (mi_vocab m * mi_hidden m))) (\<lambda>lm_head.
     Inr \<lparr>mw_embed_tokens = embed_tokens, mw_final_norm = final_norm, mw_lm_head = lm_head, mw_layers = []\<rparr>)))"

definition load_rope ::
  "(rstr \<Rightarrow> u8 list option) \<Rightarrow> 'g Bundle \<Rightarrow> 'g ModelInfo \<Rightarrow> load_error + u32 list \<times> u32 list" where
  "load_rope fs b m =
     (let want = wrap64 (mi_b m * mi_t m * rotary_dim (mi_attn m)) in
      try_bind (read_exact fs b (lit ''model__rotary_emb__out0'') want) (\<lambda>cos.
      try_bind (read_exact fs b (lit ''model__rotary_emb__out1'') want) (\<lambda>sin.
      Inr (cos, sin))))"

section \<open>What a loaded bundle satisfies\<close>

interpretation golden: tensor_source "read_exact fs b" for fs b
  by unfold_locales (auto simp: read_exact_def split: sum.splits)

lemma gdn_dims_ok:
  assumes "gdn_dims hidden eps cd vd nv hv ck hk = Inr g"
  shows "gc_hidden g = hidden" and "num_k_heads g \<noteq> 0" and "num_k_heads g dvd num_v_heads g"
  using assms by (auto simp: gdn_dims_def Let_def mod_eq_0_iff_dvd)

lemma load_gdn_config_dims:
  "load_gdn_config b num_layers types hidden eps = Inr g \<Longrightarrow> \<exists>cd vd nv hv ck hk. gdn_dims hidden eps cd vd nv hv ck hk = Inr g"
  unfolding load_gdn_config_def Let_def try_bind_Inr by blast

lemma attn_dims_ok:
  assumes "attn_dims hidden eps nh nkv dm rd th = Inr a"
  shows "ac_hidden a = hidden" and "num_kv_heads a \<noteq> 0" and "num_kv_heads a dvd num_heads a" and "rotary_dim a \<le> head_dim a"
  using assms by (auto simp: attn_dims_def mod_eq_0_iff_dvd)

lemma load_attn_config_dims:
  "load_attn_config C b hidden eps = Inr a \<Longrightarrow> \<exists>nh nkv dm rd th. attn_dims hidden eps nh nkv dm rd th = Inr a"
  unfolding load_attn_config_def Let_def try_bind_Inr by blast

lemma load_model_config_ok:
  assumes "bundle_load_model C b = Inr m"
  shows "config_ok (info_config m)"
proof -
  from assms obtain types eps where hidden: "positive_dim b (lit ''model__layers__0__input_layernorm__weight'') = Some (mi_hidden m)"
    and g: "load_gdn_config b (mi_num_layers m) types (mi_hidden m) eps = Inr (mi_gdn m)"
    and a: "load_attn_config C b (mi_hidden m) eps = Inr (mi_attn m)"
    by (auto simp: bundle_load_model_def Let_def simp del: lit_simps)
  from hidden have "mi_hidden m \<noteq> 0" by (auto simp: positive_dim_def bind_eq_Some_conv split: if_splits)
  moreover obtain cd vd nv hv ck hk where "gdn_dims (mi_hidden m) eps cd vd nv hv ck hk = Inr (mi_gdn m)"
    using load_gdn_config_dims [OF g] by blast
  moreover obtain nh nkv dm rd th where "attn_dims (mi_hidden m) eps nh nkv dm rd th = Inr (mi_attn m)"
    using load_attn_config_dims [OF a] by blast
  ultimately show ?thesis using gdn_dims_ok attn_dims_ok by (simp add: config_ok_def info_config_def)
qed

lemma load_gdn_weights_ok:
  assumes fit: "sizes_fit (info_config m) (mi_intermediate m)" and ok: "config_ok (info_config m)"
    and "load_gdn_weights fs b m layer = Inr w"
  shows "mixer_ok (mi_hidden m) (LinearMixer (mi_gdn m) w)"
proof -
  have "mixer_ok (mc_hidden (info_config m)) (LinearMixer (mi_gdn m) w)"
    by (rule golden.fetched_gdn_ok [OF fit ok])
      (use assms(3) in \<open>auto simp: load_gdn_weights_def Let_def info_config_def simp del: lit_simps\<close>)
  then show ?thesis by (simp add: info_config_def)
qed

lemma load_attn_weights_ok:
  assumes fit: "sizes_fit (info_config m) (mi_intermediate m)" and ok: "config_ok (info_config m)"
    and "load_attn_weights fs b m layer = Inr w"
  shows "mixer_ok (mi_hidden m) (FullMixer (mi_attn m) w)"
proof -
  have "mixer_ok (mc_hidden (info_config m)) (FullMixer (mi_attn m) w)"
    by (rule golden.fetched_attn_ok [OF fit ok])
      (use assms(3) in \<open>auto simp: load_attn_weights_def Let_def info_config_def simp del: lit_simps\<close>)
  then show ?thesis by (simp add: info_config_def)
qed

lemma load_layer_weights_ok:
  assumes fit: "sizes_fit (info_config m) (mi_intermediate m)" and ok: "config_ok (info_config m)"
    and "load_layer_weights fs b m layer = Inr lw"
  shows "layer_ok (mi_hidden m) lw"
proof -
  have "layer_ok (mc_hidden (info_config m)) lw"
    by (rule golden.fetched_layer_ok [OF fit ok])
      (use assms(3) in \<open>auto simp: load_layer_weights_def Let_def info_config_def simp del: lit_simps\<close>)
  then show ?thesis by (simp add: info_config_def)
qed

lemma load_layer_ok:
  assumes fit: "sizes_fit (info_config m) (mi_intermediate m)" and ok: "config_ok (info_config m)"
    and "load_layer fs b m layer = Inr lw"
  shows "lift_ok (mi_hidden m) (mixer lw (info_config m)) \<and> layer_ok (mi_hidden m) (la_layer lw) \<and> la_kind lw = layer_kind m layer"
proof (cases "layer_kind m layer")
  case LinearAttention
  with assms(3) obtain w where "load_layer_weights fs b m layer = Inr (la_layer lw)" "load_gdn_weights fs b m layer = Inr w"
    "la_kind lw = LinearAttention" "la_gdn lw = Some w" by (auto simp: load_layer_def)
  then show ?thesis
    using load_layer_weights_ok [OF fit ok] load_gdn_weights_ok [OF fit ok] LinearAttention
    by (simp add: mixer_def) (simp add: info_config_def)
next
  case FullAttention
  with assms(3) obtain w where "load_layer_weights fs b m layer = Inr (la_layer lw)" "load_attn_weights fs b m layer = Inr w"
    "la_kind lw = FullAttention" "la_attn lw = Some w" by (auto simp: load_layer_def)
  then show ?thesis
    using load_layer_weights_ok [OF fit ok] load_attn_weights_ok [OF fit ok] FullAttention
    by (simp add: mixer_def) (simp add: info_config_def)
qed

text \<open>A golden bundle that loads gives a model the forward pass can run on: one layer of its kind per layer of the
  bundle, and every tensor of the size of the configuration, provided no size exceeds 64 bits.\<close>

lemma loaded_bundle_model_ok:
  assumes m: "bundle_load_model C b = Inr m" and ls: "load_all_layers fs b m = Inr ls" and w: "load_model_weights fs b m = Inr w"
    and fit: "sizes_fit (info_config m) (mi_intermediate m)"
  shows "model_ok (info_config m) (w\<lparr>mw_layers := ls\<rparr>) \<and> length ls = mi_num_layers m \<and>
    (\<forall>l < mi_num_layers m. la_kind (ls ! l) = layer_kind m l)"
proof -
  note ok = load_model_config_ok [OF m]
  from ls have all2: "list_all2 (\<lambda>l lw. load_layer fs b m l = Inr lw) [0..<mi_num_layers m] ls"
    by (simp add: load_all_layers_def collect_result_Inr)
  then have len: "length ls = mi_num_layers m" by (simp add: list_all2_conv_all_nth)
  have each: "lift_ok (mi_hidden m) (mixer (ls ! l) (info_config m)) \<and> layer_ok (mi_hidden m) (la_layer (ls ! l)) \<and>
      la_kind (ls ! l) = layer_kind m l" if "l < mi_num_layers m" for l
    by (rule load_layer_ok [OF fit ok]) (use all2 that in \<open>auto simp: list_all2_conv_all_nth\<close>)
  have "layers_ok (info_config m) ls"
    unfolding layers_ok_def list_all_length using each len by (simp add: info_config_def)
  then have "model_ok (info_config m) (w\<lparr>mw_layers := ls\<rparr>)"
    by (intro golden.fetched_model_ok [OF fit ok])
      (use w in \<open>auto simp: load_model_weights_def info_config_def simp del: lit_simps\<close>)
  then show ?thesis using len each by blast
qed

section \<open>Capture names\<close>

lemma filter_upt_less: "P l \<Longrightarrow> l < n \<Longrightarrow> length (filter P [0..<l]) < length (filter P [0..<n])"
proof (induction n)
  case (Suc n)
  then show ?case by (cases "l = n") auto
qed simp

text \<open>The capture index counts the linear layers without a gap: \<open>ssm_ordinal\<close> maps them one to one onto the
  numbers below their count, and so two layers never share the name of a captured tensor.\<close>

lemma ssm_ordinal_enumerates:
  "bij_betw (\<lambda>l. the (ssm_ordinal m l)) {l. l < mi_num_layers m \<and> is_linear m l} {..<fst (counts m)} \<and>
   (\<forall>l l' part. cap_conv (LayerCapture_new l (ssm_ordinal m l)) part = cap_conv (LayerCapture_new l' (ssm_ordinal m l')) part \<and>
      is_linear m l \<longrightarrow> l = l')"
proof -
  let ?A = "{l. l < mi_num_layers m \<and> is_linear m l}" and ?n = "fst (counts m)"
  define f where "f l = length (filter (is_linear m) [0..<l])" for l
  have f: "f l < f n" if "is_linear m l" "l < n" for l n using filter_upt_less [of "is_linear m" l n] that by (simp add: f_def)
  then have inj: "l = l'" if "f l = f l'" "is_linear m l" "is_linear m l'" for l l'
    using that by (metis nat_neq_iff)
  have ord: "ssm_ordinal m l = Some (f l)" if "is_linear m l" for l using that by (simp add: ssm_ordinal_def f_def)
  have n: "?n = f (mi_num_layers m)" by (simp add: counts_def f_def Let_def)
  have "inj_on f ?A" using inj by (auto intro: inj_onI)
  moreover have "f ` ?A \<subseteq> {..<?n}" using f n by auto
  moreover have "card ?A = ?n"
  proof -
    have "?A = set (filter (is_linear m) [0..<mi_num_layers m])" by auto
    then show ?thesis by (simp only: n f_def distinct_card distinct_filter distinct_upt)
  qed
  ultimately have "bij_betw f ?A {..<?n}"
    by (metis (no_types, lifting) bij_betw_imageI card_image card_lessThan card_subset_eq finite_lessThan)
  then have "bij_betw (\<lambda>l. the (ssm_ordinal m l)) ?A {..<?n}" by (rule bij_betw_cong [THEN iffD1, rotated]) (simp add: ord)
  moreover have "l = l'" if eq: "cap_conv (LayerCapture_new l (ssm_ordinal m l)) part = cap_conv (LayerCapture_new l' (ssm_ordinal m l')) part"
    and l: "is_linear m l" for l l' part
  proof -
    have l': "is_linear m l'" using eq l ord [of l]
      by (cases "is_linear m l'") (auto simp: cap_conv_def LayerCapture_new_def Let_def ssm_ordinal_def simp del: lit_simps)
    with eq l have "show_nat (f l) = show_nat (f l')"
      by (simp add: cap_conv_def LayerCapture_new_def Let_def ord del: lit_simps)
    then have "f l = f l'" by (metis digits_nat_show_nat)
    then show ?thesis using inj l l' by blast
  qed
  ultimately show ?thesis by blast
qed

section \<open>Witnesses\<close>

text \<open>A bundle with one linear layer and every size one, with everything that is captured of it.\<close>

definition ld_ex_table :: "(rstr \<times> nat list \<times> nat) list" where
  "ld_ex_table =
   [(lit ''model__embed_tokens'', [1, 1, 1], 1),
    (lit ''model__layers__0'', [1, 1, 1], 1),
    (lit ''model__layers__0__linear_attn'', [1], 1),
    (lit ''model__layers__0__input_layernorm__weight'', [1], 1),
    (lit ''model__layers__0__post_attention_layernorm__weight'', [1], 1),
    (lit ''model__layers__0__mlp__gate_proj__weight'', [1, 1], 1),
    (lit ''model__layers__0__mlp__up_proj__weight'', [1, 1], 1),
    (lit ''model__layers__0__mlp__down_proj__weight'', [1, 1], 1),
    (lit ''model__layers__0__linear_attn__in_proj_qkv__weight'', [3, 1], 3),
    (lit ''model__layers__0__linear_attn__in_proj_z__weight'', [1, 1], 1),
    (lit ''model__layers__0__linear_attn__in_proj_b__weight'', [1, 1], 1),
    (lit ''model__layers__0__linear_attn__in_proj_a__weight'', [1, 1], 1),
    (lit ''model__layers__0__linear_attn__conv1d__weight'', [3, 1, 1], 3),
    (lit ''model__layers__0__linear_attn__A_log'', [1], 1),
    (lit ''model__layers__0__linear_attn__dt_bias'', [1], 1),
    (lit ''model__layers__0__linear_attn__norm__weight'', [1], 1),
    (lit ''model__layers__0__linear_attn__out_proj__weight'', [1, 1], 1),
    (lit ''delta_torch_chunk_gated_delta_rule_0__q'', [1, 1, 1, 1], 1),
    (lit ''model__rotary_emb__out0'', [1, 1, 2], 2),
    (lit ''model__rotary_emb__out1'', [1, 1, 2], 2),
    (lit ''model__embed_tokens__weight'', [1, 1], 1),
    (lit ''model__norm__weight'', [1], 1),
    (lit ''lm_head__weight'', [1, 1], 1),
    (lit ''model__layers__0__input_layernorm'', [1], 1),
    (lit ''model__layers__0__linear_attn__in_proj_qkv'', [3], 3),
    (lit ''causal_conv1d_fn_call0_in'', [3], 3),
    (lit ''causal_conv1d_fn_call0_out'', [3], 3),
    (lit ''model__layers__0__linear_attn__in_proj_z'', [1], 1),
    (lit ''model__layers__0__linear_attn__in_proj_b'', [1], 1),
    (lit ''model__layers__0__linear_attn__in_proj_a'', [1], 1),
    (lit ''delta_torch_chunk_gated_delta_rule_0__k'', [1], 1),
    (lit ''delta_torch_chunk_gated_delta_rule_0__v'', [1], 1),
    (lit ''delta_torch_chunk_gated_delta_rule_0__g'', [1], 1),
    (lit ''delta_torch_chunk_gated_delta_rule_0__beta'', [1], 1),
    (lit ''delta_torch_chunk_gated_delta_rule_0__out'', [1], 1),
    (lit ''delta_torch_chunk_gated_delta_rule_0__state'', [1], 1),
    (lit ''model__layers__0__linear_attn__norm'', [1], 1),
    (lit ''model__layers__0__linear_attn__out_proj'', [1], 1),
    (lit ''model__layers__0__post_attention_layernorm'', [1], 1),
    (lit ''model__layers__0__mlp__gate_proj'', [1], 1),
    (lit ''model__layers__0__mlp__up_proj'', [1], 1),
    (lit ''model__layers__0__mlp__swiglu_product'', [1], 1),
    (lit ''model__layers__0__mlp__down_proj'', [1], 1),
    (lit ''model__layers__0__mlp'', [1], 1),
    (lit ''model__norm'', [1], 1),
    (lit ''lm_head'', [1], 1)]"

definition ld_ex_entry :: "rstr \<times> nat list \<times> nat \<Rightarrow> rstr \<times> TensorEntry" where
  "ld_ex_entry = (\<lambda>(n, shape, k). (n, \<lparr>te_group = lit ''weights'', te_name = n, te_file = show_nat k, te_shape = shape,
     te_dtype = lit ''f32'', te_numel = k, te_nbytes = 4 * k\<rparr>))"

definition ld_ex_num :: "u64 \<Rightarrow> nat json" where "ld_ex_num n = JNum (PosInt n)"

definition ld_ex :: "nat Bundle" where
  "ld_ex = \<lparr>bu_root = lit ''g'',
     bu_manifest = (bu_manifest (bu_ex (lit ''g'')))\<lparr>mf_tensors := map (snd \<circ> ld_ex_entry) ld_ex_table, mf_prompt_ids := [0],
       mf_greedy := \<lparr>gr_steps = [\<lparr>gs_step = 0, gs_input_len = 1, gs_argmax_token = 0, gs_topk_tokens = [], gs_topk_logits = [],
         gs_logit_sum = 0, gs_logit_max = 0\<rparr>], gr_final_ids = [0, 0]\<rparr>, mf_config := JObj [(lit ''num_attention_heads'', ld_ex_num 1),
       (lit ''num_key_value_heads'', ld_ex_num 1), (lit ''head_dim'', ld_ex_num 2)]\<rparr>,
     bu_index = map ld_ex_entry ld_ex_table\<rparr>"

definition ld_ex_fs :: "rstr \<Rightarrow> u8 list option" where
  "ld_ex_fs p =
     (if p = lit ''g/manifest.json'' then Some []
      else if p = lit ''g/1'' then Some (replicate 4 0)
      else if p = lit ''g/2'' then Some (replicate 8 0)
      else if p = lit ''g/3'' then Some (replicate 12 0) else None)"

definition ld_ex_C :: "nat casts" where
  "ld_ex_C = \<lparr>ca_as_f64 = (\<lambda>_. 0), ca_f32 = (\<lambda>_. 0), ca_of_usize = (\<lambda>_. 0), ca_mul = (\<lambda>_ _. 0), ca_to_usize = (\<lambda>_. 0),
     ca_1e4 = 0, ca_1 = 0, ca_1e_6 = 0\<rparr>"

definition ld_ex_gdn :: "u32 GdnConfig" where
  "ld_ex_gdn = \<lparr>gc_hidden = 1, num_k_heads = 1, num_v_heads = 1, head_k_dim = 1, head_v_dim = 1, conv_kernel = 1, gc_eps = 0\<rparr>"

definition ld_ex_attn :: "u32 AttnConfig" where
  "ld_ex_attn = \<lparr>ac_hidden = 1, num_heads = 1, num_kv_heads = 1, head_dim = 2, rotary_dim = 2, rope_theta = 0, ac_eps = 0\<rparr>"

definition ld_ex_info :: "nat ModelInfo" where
  "ld_ex_info = \<lparr>mi_b = 1, mi_t = 1, mi_hidden = 1, mi_intermediate = 1, mi_num_layers = 1,
     mi_layer_types = [lit ''linear_attention''], mi_eps = 0, mi_ssm_gain = 1, mi_vocab = 1, mi_gdn = ld_ex_gdn, mi_attn = ld_ex_attn\<rparr>"

lemma ld_ex_lookup: "bundle_entry ld_ex n = map_option (\<lambda>(shape, k). snd (ld_ex_entry (n, shape, k))) (map_of ld_ex_table n)"
proof -
  have "map_of (map ld_ex_entry t) n = map_option (\<lambda>(shape, k). snd (ld_ex_entry (n, shape, k))) (map_of t n)" for t
    by (induction t) (auto simp: ld_ex_entry_def)
  then show ?thesis by (simp add: bundle_entry_def ld_ex_def)
qed

lemma ld_ex_read:
  assumes "map_of ld_ex_table n = Some (shape, k)" and "k = 1 \<or> k = 2 \<or> k = 3"
  shows "bundle_read ld_ex_fs ld_ex n = Inr (replicate k 0)"
proof -
  note elements_zeros [of k]
  moreover have "map_of (bu_index ld_ex) n = Some (snd (ld_ex_entry (n, shape, k)))"
    using ld_ex_lookup [of n] assms(1) by (simp add: bundle_entry_def)
  moreover have "bu_root ld_ex = lit ''g''" by (simp add: ld_ex_def)
  ultimately show ?thesis
    using assms(2)
    by (auto simp: bundle_read_def read_entry_def ld_ex_entry_def ld_ex_fs_def path_join_def starts_with_def ends_with_def show_nat_digit)
qed

lemma foldl_max:
  assumes "\<And>c x. x \<in> set xs \<Longrightarrow> h c x = max c (v x)"
  shows "foldl h c xs = Max (insert c (v ` set xs))"
  using assms
proof (induction xs arbitrary: c)
  case (Cons x xs)
  then have "foldl h (max c (v x)) xs = Max (insert (max c (v x)) (v ` set xs))" by simp
  then show ?case using Cons.prems by (cases "xs = []") (simp_all add: max.assoc)
qed simp

lemma ld_ex_names:
  "list_all (\<lambda>x. x = lit ''model__layers__0'' \<or> (case strip_prefix x (lit ''model__layers__'') of None \<Rightarrow> True
     | Some rest \<Rightarrow> contains_sub rest (lit ''__''))) (map fst ld_ex_table)"
  by code_simp

lemma ld_ex_layers: "foldl count_layer 0 (bundle_names ld_ex) = 1"
proof -
  have "strip_prefix (lit ''model__layers__0'') (lit ''model__layers__'') = Some [48]" "\<not> contains_sub [48] (lit ''__'')"
    by code_simp+
  then have "count_layer c (lit ''model__layers__0'') = max c 1" for c
    by (simp add: count_layer_def parse_usize_def is_digit_def digits_nat_def del: lit_simps)
  then have v: "count_layer c x = max c (if x = lit ''model__layers__0'' then 1 else 0)" if "x \<in> set (map fst ld_ex_table)" for c x
    using ld_ex_names that by (auto simp: list_all_iff count_layer_def simp del: lit_simps split: option.splits)
  have names: "set (bundle_names ld_ex) = set (map fst ld_ex_table)"
    by (simp add: bundle_names_def ld_ex_def ld_ex_entry_def case_prod_unfold image_image)
  have "foldl count_layer 0 (bundle_names ld_ex) =
      Max (insert 0 ((\<lambda>x. if x = lit ''model__layers__0'' then 1 else 0) ` set (bundle_names ld_ex)))"
    by (rule foldl_max, rule v) (simp only: names)
  also have "(\<lambda>x. if x = lit ''model__layers__0'' then 1 else 0) ` set (bundle_names ld_ex) = {0, 1 :: nat}"
    unfolding names by (simp add: ld_ex_table_def)
  finally show ?thesis by simp
qed

lemma ld_ex_config: "mf_config (bu_manifest ld_ex) = JObj [(lit ''num_attention_heads'', ld_ex_num 1),
    (lit ''num_key_value_heads'', ld_ex_num 1), (lit ''head_dim'', ld_ex_num 2)]"
  by (simp add: ld_ex_def)

lemma ld_ex_distinct: "distinct (map fst ld_ex_table)"
  by (simp add: ld_ex_table_def)

lemma ld_ex_rows:
  "map_of ld_ex_table (lit ''model__embed_tokens'') = Some ([1, 1, 1], 1)"
  "map_of ld_ex_table (lit ''model__layers__0'') = Some ([1, 1, 1], 1)"
  "map_of ld_ex_table (lit ''model__layers__0__linear_attn'') = Some ([1], 1)"
  "map_of ld_ex_table (lit ''model__layers__0__input_layernorm__weight'') = Some ([1], 1)"
  "map_of ld_ex_table (lit ''model__layers__0__post_attention_layernorm__weight'') = Some ([1], 1)"
  "map_of ld_ex_table (lit ''model__layers__0__mlp__gate_proj__weight'') = Some ([1, 1], 1)"
  "map_of ld_ex_table (lit ''model__layers__0__mlp__up_proj__weight'') = Some ([1, 1], 1)"
  "map_of ld_ex_table (lit ''model__layers__0__mlp__down_proj__weight'') = Some ([1, 1], 1)"
  "map_of ld_ex_table (lit ''model__layers__0__linear_attn__in_proj_qkv__weight'') = Some ([3, 1], 3)"
  "map_of ld_ex_table (lit ''model__layers__0__linear_attn__in_proj_z__weight'') = Some ([1, 1], 1)"
  "map_of ld_ex_table (lit ''model__layers__0__linear_attn__in_proj_b__weight'') = Some ([1, 1], 1)"
  "map_of ld_ex_table (lit ''model__layers__0__linear_attn__in_proj_a__weight'') = Some ([1, 1], 1)"
  "map_of ld_ex_table (lit ''model__layers__0__linear_attn__conv1d__weight'') = Some ([3, 1, 1], 3)"
  "map_of ld_ex_table (lit ''model__layers__0__linear_attn__A_log'') = Some ([1], 1)"
  "map_of ld_ex_table (lit ''model__layers__0__linear_attn__dt_bias'') = Some ([1], 1)"
  "map_of ld_ex_table (lit ''model__layers__0__linear_attn__norm__weight'') = Some ([1], 1)"
  "map_of ld_ex_table (lit ''model__layers__0__linear_attn__out_proj__weight'') = Some ([1, 1], 1)"
  "map_of ld_ex_table (lit ''delta_torch_chunk_gated_delta_rule_0__q'') = Some ([1, 1, 1, 1], 1)"
  "map_of ld_ex_table (lit ''model__rotary_emb__out0'') = Some ([1, 1, 2], 2)"
  "map_of ld_ex_table (lit ''model__rotary_emb__out1'') = Some ([1, 1, 2], 2)"
  "map_of ld_ex_table (lit ''model__embed_tokens__weight'') = Some ([1, 1], 1)"
  "map_of ld_ex_table (lit ''model__norm__weight'') = Some ([1], 1)"
  "map_of ld_ex_table (lit ''lm_head__weight'') = Some ([1, 1], 1)"
  by (rule map_of_is_SomeI [OF ld_ex_distinct], simp add: ld_ex_table_def del: lit_simps)+

lemma ld_ex_prefix:
  "lit ''model__layers__'' @ show_nat 0 @ lit ''__linear_attn__'' @ lit s = lit (''model__layers__0__linear_attn__'' @ s)"
  "lit ''model__layers__'' @ show_nat 0 @ lit ''__'' @ lit s = lit (''model__layers__0__'' @ s)"
  "lit ''model__layers__'' @ show_nat 0 @ lit ''__linear_attn'' = lit ''model__layers__0__linear_attn''"
  "lit ''model__layers__0__linear_attn__'' @ lit s = lit (''model__layers__0__linear_attn__'' @ s)"
  by (simp_all add: show_nat_digit)

lemmas ld_ex_simps = ld_ex_config ld_ex_lookup ld_ex_rows ld_ex_prefix ld_ex_entry_def

lemma ld_ex_loads: "bundle_load_model ld_ex_C ld_ex = Inr ld_ex_info"
proof -
  have kinds: "layer_kinds ld_ex 1 = [lit ''linear_attention'']"
    by (simp add: layer_kinds_def ld_ex_simps jget_def del: lit_simps) simp
  have keys: "config_usize (mf_config (bu_manifest ld_ex)) (lit ''num_attention_heads'') = Some 1"
    "config_usize (mf_config (bu_manifest ld_ex)) (lit ''num_key_value_heads'') = Some 1"
    "config_usize (mf_config (bu_manifest ld_ex)) (lit ''head_dim'') = Some 2"
    by (simp_all add: config_usize_def ld_ex_config ld_ex_num_def)
  have theta: "rope_number ld_ex_C c k d = 0" for c k d by (simp add: rope_number_def ld_ex_C_def)
  have g: "load_gdn_config ld_ex 1 [lit ''linear_attention''] 1 0 = Inr ld_ex_gdn"
  proof -
    have find: "find (\<lambda>l. l < length [lit ''linear_attention''] \<and> [lit ''linear_attention''] ! l = lit ''linear_attention'') [0..<1] = Some 0"
      by simp
    have "gdn_dims 1 0 3 1 1 1 1 1 = Inr ld_ex_gdn" by (simp add: gdn_dims_def ld_ex_gdn_def)
    then show ?thesis
      unfolding load_gdn_config_def find
      by (simp only: Let_def ok_or_simps try_bind_simps append_assoc ld_ex_prefix append.simps ld_ex_lookup ld_ex_rows option.map prod.case)
        (simp add: ld_ex_entry_def first_dim_def last_dim_def del: lit_simps)
  qed
  have a: "load_attn_config ld_ex_C ld_ex 1 0 = Inr ld_ex_attn"
    by (simp add: load_attn_config_def ld_ex_rows ld_ex_lookup ld_ex_entry_def last_dim_def attn_dims_def ld_ex_attn_def
        keys theta del: lit_simps)
  have dims: "positive_dim ld_ex (lit ''model__layers__0__input_layernorm__weight'') = Some 1"
    "positive_dim ld_ex (lit ''model__layers__0__mlp__gate_proj__weight'') = Some 1"
    by (simp_all add: positive_dim_def first_dim_def ld_ex_simps del: lit_simps)
  have emb: "\<exists>e. bundle_entry ld_ex (lit ''model__embed_tokens'') = Some e \<and> te_shape e = [1, 1, 1]"
    "\<exists>e. bundle_entry ld_ex (lit ''model__embed_tokens__weight'') = Some e \<and> te_shape e = [1, 1]"
    by (simp_all add: ld_ex_simps del: lit_simps)
  have cfg: "jget (mf_config (bu_manifest ld_ex)) (lit ''rms_norm_eps'') = None" "config_usize (mf_config (bu_manifest ld_ex)) (lit ''vocab_size'') = None"
    by (simp_all add: config_usize_def ld_ex_config)
  have C: "ca_1e_6 ld_ex_C = 0" "so_ssm_gain (mf_source (bu_manifest ld_ex)) = 1"
    by (simp_all add: ld_ex_C_def ld_ex_def bu_ex_def)
  show ?thesis
    using emb by (clarsimp simp: bundle_load_model_def Let_def ld_ex_layers kinds g a dims cfg C ld_ex_info_def simp del: lit_simps One_nat_def)
qed

lemma ld_ex_exact:
  "map_of ld_ex_table n = Some (shape, k) \<Longrightarrow> k = 1 \<or> k = 2 \<or> k = 3 \<Longrightarrow> k' = k \<Longrightarrow> read_exact ld_ex_fs ld_ex n k' = Inr (replicate k 0)"
  by (simp add: read_exact_def ld_ex_read)

lemma ld_ex_weights:
  "load_gdn_weights ld_ex_fs ld_ex ld_ex_info 0 = Inr \<lparr>gw_in_proj_qkv = [0, 0, 0], gw_in_proj_z = [0], gw_in_proj_b = [0], gw_in_proj_a = [0],
     gw_conv1d = [0, 0, 0], gw_a_log = [0], gw_dt_bias = [0], gw_norm = [0], gw_out_proj = [0]\<rparr>"
  "load_layer_weights ld_ex_fs ld_ex ld_ex_info 0 = Inr \<lparr>lw_input_layernorm = [0], lw_post_attention_layernorm = [0],
     lw_mlp = \<lparr>gate_proj = [0], up_proj = [0], down_proj = [0]\<rparr>\<rparr>"
  "load_model_weights ld_ex_fs ld_ex ld_ex_info = Inr \<lparr>mw_embed_tokens = [0], mw_final_norm = [0], mw_lm_head = [0], mw_layers = []\<rparr>"
proof -
  note row = ld_ex_rows [THEN ld_ex_exact]
  have dims: "mi_hidden ld_ex_info = 1" "mi_intermediate ld_ex_info = 1" "mi_vocab ld_ex_info = 1" "mi_gdn ld_ex_info = ld_ex_gdn"
    "conv_dim ld_ex_gdn = 3" "value_dim ld_ex_gdn = 1" "num_v_heads ld_ex_gdn = 1" "gc_hidden ld_ex_gdn = 1" "head_v_dim ld_ex_gdn = 1"
    "conv_kernel ld_ex_gdn = 1" "ssm_ordinal ld_ex_info 0 = Some 0"
    by (simp_all add: ld_ex_info_def ld_ex_gdn_def conv_dim_def key_dim_def value_dim_def ssm_ordinal_def is_linear_def layer_type_def)
  show "load_gdn_weights ld_ex_fs ld_ex ld_ex_info 0 = Inr \<lparr>gw_in_proj_qkv = [0, 0, 0], gw_in_proj_z = [0], gw_in_proj_b = [0], gw_in_proj_a = [0],
     gw_conv1d = [0, 0, 0], gw_a_log = [0], gw_dt_bias = [0], gw_norm = [0], gw_out_proj = [0]\<rparr>"
    by (simp add: load_gdn_weights_def Let_def LayerCapture_new_def dims cap_w_in_proj_qkv_def cap_w_in_proj_z_def cap_w_in_proj_b_def
        cap_w_in_proj_a_def cap_w_conv1d_def cap_w_a_log_def cap_w_dt_bias_def cap_w_norm_def cap_w_out_proj_def ld_ex_prefix row
        numeral_3_eq_3 del: lit_simps)
  show "load_layer_weights ld_ex_fs ld_ex ld_ex_info 0 = Inr \<lparr>lw_input_layernorm = [0], lw_post_attention_layernorm = [0],
     lw_mlp = \<lparr>gate_proj = [0], up_proj = [0], down_proj = [0]\<rparr>\<rparr>"
    by (simp add: load_layer_weights_def Let_def LayerCapture_new_def dims cap_w_input_layernorm_def cap_w_post_attention_layernorm_def
        cap_w_gate_proj_def cap_w_up_proj_def cap_w_down_proj_def ld_ex_prefix row del: lit_simps)
  show "load_model_weights ld_ex_fs ld_ex ld_ex_info = Inr \<lparr>mw_embed_tokens = [0], mw_final_norm = [0], mw_lm_head = [0], mw_layers = []\<rparr>"
    by (simp add: load_model_weights_def dims row del: lit_simps)
qed

theorem loaded_bundle_model_ok_witness:
  "\<exists>ls w. load_all_layers ld_ex_fs ld_ex ld_ex_info = Inr ls \<and> load_model_weights ld_ex_fs ld_ex ld_ex_info = Inr w \<and>
     model_ok (info_config ld_ex_info) (w\<lparr>mw_layers := ls\<rparr>)"
proof -
  have "layer_kind ld_ex_info 0 = LinearAttention"
    by (simp add: layer_kind_def is_linear_def layer_type_def ld_ex_info_def)
  moreover have "mi_num_layers ld_ex_info = 1" by (simp add: ld_ex_info_def)
  ultimately obtain ls where ls: "load_all_layers ld_ex_fs ld_ex ld_ex_info = Inr ls"
    by (simp add: load_all_layers_def load_layer_def ld_ex_weights)
  have fit: "sizes_fit (info_config ld_ex_info) (mi_intermediate ld_ex_info)"
    by (simp add: sizes_fit_def info_config_def ld_ex_info_def ld_ex_gdn_def ld_ex_attn_def conv_dim_def key_dim_def value_dim_def
        q_out_dim_def kv_out_dim_def)
  show ?thesis using loaded_bundle_model_ok [OF ld_ex_loads ls ld_ex_weights(3) fit] ls ld_ex_weights(3) by blast
qed

theorem ssm_ordinal_enumerates_witness:
  "bij_betw (\<lambda>l. the (ssm_ordinal (ld_ex_info\<lparr>mi_num_layers := 3, mi_layer_types := [lit ''linear_attention'', lit ''full_attention'', lit ''linear_attention'']\<rparr>) l))
     {0, 2} {..<2}"
proof -
  let ?m = "ld_ex_info\<lparr>mi_num_layers := 3, mi_layer_types := [lit ''linear_attention'', lit ''full_attention'', lit ''linear_attention'']\<rparr>"
  have lin: "is_linear ?m l \<longleftrightarrow> l = 0 \<or> l = 2" if "l < 3" for l
    using that by (auto simp: is_linear_def layer_type_def numeral_3_eq_3 less_Suc_eq numeral_2_eq_2)
  have "{l. l < mi_num_layers ?m \<and> is_linear ?m l} = {0, 2}" using lin by auto
  moreover have "fst (counts ?m) = 2"
    using lin by (simp add: counts_def Let_def numeral_3_eq_3 numeral_2_eq_2)
  ultimately show ?thesis using conjunct1 [OF ssm_ordinal_enumerates [of ?m]] by simp
qed

end
