(* ===== verification/Qwen_Run.thy ===== *)
theory Qwen_Run
  imports Qwen_Chat Loader
begin

text \<open>
  The program \<open>qwenrun\<close> (\<open>gdn/src/bin/qwenrun.rs\<close>): its options, the prompt, loading, the chat mode, the
  forward pass with its comparisons against reference files, and greedy or sampled decoding. \<open>Env\<close> holds
  what is outside the program: the files (a map, updated by \<open>--dump-logits\<close>), standard input, the JSON
  and float parsers, the Unicode tables. What is only printed (timings, top-k listings, probabilities) is
  left out; what decides the exit code, and the tokens produced, is kept.
\<close>

section \<open>Options\<close>

text \<open>\<open>val\<close>: the argument after the first occurrence of the flag.\<close>

definition arg_val :: "rstr list \<Rightarrow> rstr \<Rightarrow> rstr option" where
  "arg_val args name = (case dropWhile (\<lambda>a. a \<noteq> name) args of _ # v # _ \<Rightarrow> Some v | _ \<Rightarrow> None)"

definition has_flag :: "rstr list \<Rightarrow> rstr \<Rightarrow> bool" where
  "has_flag args name \<longleftrightarrow> name \<in> set args"

text \<open>\<open>str::split\<close> on one character.\<close>

fun split_char :: "rchar \<Rightarrow> rstr \<Rightarrow> rstr list" where
  "split_char c [] = [[]]"
| "split_char c (x # s) =
     (if x = c then [] # split_char c s
      else case split_char c s of p # ps \<Rightarrow> (x # p) # ps | [] \<Rightarrow> [[x]])"

definition parse_list :: "rstr \<Rightarrow> rstr + nat list" where
  "parse_list s =
     collect_result (\<lambda>p. ok_or (parse_u32 (trim_matches is_whitespace p)) p)
       (filter (\<lambda>p. trim_matches is_whitespace p \<noteq> []) (split_char 44 s))"

definition read_f32_blob :: "u8 list \<Rightarrow> u32 list" where
  "read_f32_blob bytes = map (\<lambda>c. word_of_nat (le_nat c)) (elements 4 bytes)"

record 'g Env =
  ev_fs :: "rstr \<Rightarrow> u8 list option"
  ev_exists :: "rstr \<Rightarrow> bool"
  ev_writable :: "rstr \<Rightarrow> bool"
  ev_entries :: "rstr \<Rightarrow> rstr list"
  ev_stdin :: "rstr list"
  ev_from_slice :: "u8 list \<Rightarrow> 'g json option"
  ev_shapes :: "u8 list \<Rightarrow> nat list list option"
  ev_show_json :: "'g json \<Rightarrow> rstr"
  ev_order :: "(rstr \<times> nat) list \<Rightarrow> (rstr \<times> nat) list"
  ev_casts :: "'g casts"
  ev_parse_f32 :: "rstr \<Rightarrow> u32 option"
  ev_parse_f64 :: "rstr \<Rightarrow> 'g option"
  ev_3em5 :: u32
  ev_N :: "(u32, 'g) nops"
  ev_scale53 :: "nat \<Rightarrow> 'g"
  ev_J :: "'g jfloat"
  ev_db :: unicode_tables

definition float_arg :: "'g Env \<Rightarrow> rstr list \<Rightarrow> rstr \<Rightarrow> 'g \<Rightarrow> ExitCode + 'g" where
  "float_arg E args name d = (case arg_val args name of None \<Rightarrow> Inr d | Some v \<Rightarrow> ok_or (ev_parse_f64 E v) USAGE)"

definition usize_arg :: "rstr list \<Rightarrow> rstr \<Rightarrow> nat \<Rightarrow> ExitCode + nat" where
  "usize_arg args name d = (case arg_val args name of None \<Rightarrow> Inr d | Some v \<Rightarrow> ok_or (parse_usize v) USAGE)"

definition check_sampler :: "'g fops \<Rightarrow> 'g SamplerConfig \<Rightarrow> ExitCode + 'g SamplerConfig" where
  "check_sampler G cfg = (case validate G cfg of Inl _ \<Rightarrow> Inl USAGE | Inr _ \<Rightarrow> Inr cfg)"

definition sampler_from_args :: "'g Env \<Rightarrow> rstr list \<Rightarrow> ExitCode + 'g SamplerConfig" where
  "sampler_from_args E args =
     (let G = f64 (ev_N E) in
      try_bind (float_arg E args (lit ''--temperature'') (f_zero G)) (\<lambda>temp.
      try_bind (usize_arg args (lit ''--top-k'') 0) (\<lambda>top_k.
      try_bind (float_arg E args (lit ''--top-p'') (f_one G)) (\<lambda>top_p.
      try_bind (float_arg E args (lit ''--min-p'') (f_zero G)) (\<lambda>min_p.
      try_bind (float_arg E args (lit ''--typical-p'') (f_one G)) (\<lambda>typical_p.
      try_bind (float_arg E args (lit ''--repetition-penalty'') (f_one G)) (\<lambda>rep.
      try_bind (float_arg E args (lit ''--presence-penalty'') (f_zero G)) (\<lambda>pres.
      try_bind (float_arg E args (lit ''--frequency-penalty'') (f_zero G)) (\<lambda>freq.
      try_bind (usize_arg args (lit ''--no-repeat-ngram-size'') 0) (\<lambda>ngram.
      try_bind (usize_arg args (lit ''--seed'') 0) (\<lambda>seed.
      let cfg = \<lparr>c_temperature = temp, c_top_k = top_k, c_top_p = top_p, c_min_p = min_p, c_typical_p = typical_p,
                 c_repetition_penalty = rep, c_presence_penalty = pres, c_frequency_penalty = freq,
                 c_no_repeat_ngram_size = ngram, c_seed = word_of_nat seed\<rparr>
      in check_sampler G cfg)))))))))))"

text \<open>An option that is ignored when it does not parse.\<close>

definition parsed_or :: "(rstr \<Rightarrow> 'a option) \<Rightarrow> rstr list \<Rightarrow> rstr \<Rightarrow> 'a \<Rightarrow> 'a" where
  "parsed_or parse args name d = (case Option.bind (arg_val args name) parse of Some v \<Rightarrow> v | None \<Rightarrow> d)"

definition load_tokenizer :: "'g Env \<Rightarrow> rstr \<Rightarrow> ExitCode + Tokenizer" where
  "load_tokenizer E dir =
     (case from_model_dir (ev_exists E) (\<lambda>p. map_option (map unat) (ev_fs E p)) (\<lambda>bs. ev_from_slice E (map word_of_nat bs))
             (ev_order E) (ev_show_json E) path_join dir of
        Inl _ \<Rightarrow> Inl FAILURE
      | Inr (tk, _) \<Rightarrow> Inr tk)"

definition prompt_of :: "'g Env \<Rightarrow> rstr list \<Rightarrow> rstr \<Rightarrow> ExitCode + nat list" where
  "prompt_of E args dir =
     try_bind
       (case (arg_val args (lit ''--text''), arg_val args (lit ''--prompt'')) of
          (Some t, _) \<Rightarrow> try_bind (load_tokenizer E dir) (\<lambda>tk. ok_or (encode (ev_db E) tk t) ABORT)
        | (None, Some s) \<Rightarrow> (case parse_list s of Inl _ \<Rightarrow> Inl USAGE | Inr v \<Rightarrow> Inr v)
        | (None, None) \<Rightarrow> Inr [9419])
       (\<lambda>prompt. guard_err (prompt = []) USAGE (Inr prompt))"

section \<open>The chat mode\<close>

fun tools_value :: "json_error + 'g Value \<Rightarrow> ExitCode + 'g Value list" where
  "tools_value (Inr (VArray a)) = Inr a"
| "tools_value (Inr (VObject kvs)) = Inr [VObject kvs]"
| "tools_value _ = Inl FAILURE"

definition tools_of :: "'g Env \<Rightarrow> rstr list \<Rightarrow> ExitCode + 'g Value list" where
  "tools_of E args =
     (case arg_val args (lit ''--tools-file'') of
        Some path \<Rightarrow>
          try_bind (ok_or (ev_fs E path) FAILURE) (\<lambda>b. tools_value (json_parse (ev_J E) (from_utf8_lossy (map unat b))))
      | None \<Rightarrow>
          (case arg_val args (lit ''--tools'') of
             Some inline \<Rightarrow> tools_value (json_parse (ev_J E) inline)
           | None \<Rightarrow> Inr []))"

definition chat_main ::
  "'g Env \<Rightarrow> rstr list \<Rightarrow> rstr \<Rightarrow> Turn list \<Rightarrow> RealModel \<Rightarrow> ExitCode + ExitCode \<times> TurnLog list" where
  "chat_main E args dir turns rm =
     try_bind (load_tokenizer E dir) (\<lambda>tk.
     try_bind (tools_of E args) (\<lambda>tools.
     try_bind (sampler_from_args E args) (\<lambda>cfg.
     let steps = parsed_or parse_usize args (lit ''--tokens'') 0;
         S = \<lparr>se_N = ev_N E, se_scale53 = ev_scale53 E, se_J = ev_J E, se_db = ev_db E, se_config = rm_config rm,
              se_weights = rm_weights rm, se_tk = tk, se_tools = tools,
              se_opts = \<lparr>add_generation_prompt = True, enable_thinking = has_flag args (lit ''--thinking''),
                         add_vision_id = has_flag args (lit ''--vision-id'')\<rparr>,
              se_steps = (if steps = 0 then 64 else steps), se_sampler = cfg\<rparr>;
         (code, logs, _) = run_chat S (turns_to_messages turns) (has_flag args (lit ''--repl'')) (ev_stdin E)
     in Inr (code, logs))))"

section \<open>Comparing with a reference\<close>

definition worst_diff :: "u32 fops \<Rightarrow> u32 list \<Rightarrow> u32 list \<Rightarrow> u32 \<times> nat" where
  "worst_diff F mine refv =
     foldl (\<lambda>(worst, pos) k. let d = f_abs F (f_sub F (mine ! k) (refv ! k)) in if f_lt F worst d then (d, k) else (worst, pos))
       (f_zero F, 0) [0..<length refv]"

text \<open>The layers, each against its slice of the reference; the loop ends when the model has no more layers.\<close>

fun layer_checks :: "u32 fops \<Rightarrow> u32 \<Rightarrow> nat list list \<Rightarrow> u32 list \<Rightarrow> u32 list list \<Rightarrow> bool \<Rightarrow> ExitCode + bool" where
  "layer_checks F tol [] refv outs failed = Inr failed"
| "layer_checks F tol (sh # shapes) refv outs failed =
     (let n = wrap64 (prod_list sh) in
      guard_err (length refv < n) ABORT (
      case outs of
        [] \<Rightarrow> Inr failed
      | mine # outs \<Rightarrow>
          layer_checks F tol shapes (drop n refv) outs
            (if length mine \<noteq> n then True else failed \<or> f_lt F tol (fst (worst_diff F mine (take n refv))))))"

definition compare_layers :: "'g Env \<Rightarrow> u32 \<Rightarrow> rstr \<Rightarrow> u32 ModelTrace \<Rightarrow> ExitCode + bool" where
  "compare_layers E tol dir tr =
     try_bind (ok_or (Option.bind (ev_fs E (path_join dir (lit ''layer_shapes.json''))) (ev_shapes E)) FAILURE) (\<lambda>shapes.
     try_bind (ok_or (ev_fs E (path_join dir (lit ''layers.f32''))) FAILURE) (\<lambda>blob.
     let refv = read_f32_blob blob in
     guard_err (length refv \<noteq> wrap64 (sum_list (map (\<lambda>s. wrap64 (prod_list s)) shapes))) FAILURE
       (layer_checks (f32 (ev_N E)) tol shapes refv (map lt_out (mtr_layers tr)) False)))"

text \<open>The indices by decreasing value; comparing a NaN panics.\<close>

definition ranking :: "u32 fops \<Rightarrow> u32 list \<Rightarrow> ExitCode + nat list" where
  "ranking F l =
     guard_err (2 \<le> length l \<and> list_ex (f_nan F) l) ABORT
       (Inr (sort_by (\<lambda>a b. f_lt F (l ! b) (l ! a)) [0..<length l]))"

definition compare_logits :: "u32 fops \<Rightarrow> u32 \<Rightarrow> nat \<Rightarrow> u32 list \<Rightarrow> u8 list \<Rightarrow> ExitCode + bool" where
  "compare_logits F tol topk logits bytes =
     guard_err (length bytes mod 4 \<noteq> 0) FAILURE (
     let refv = read_f32_blob bytes in
     guard_err (length refv \<noteq> length logits) FAILURE (
     try_bind (ranking F logits) (\<lambda>idx.
     try_bind (ranking F refv) (\<lambda>ridx.
     guard_err (ridx = []) ABORT (
     let ok = (idx ! 0 = ridx ! 0 \<and> take topk idx = take topk ridx)
     in Inr (ok \<and> \<not> f_lt F tol (fst (worst_diff F logits refv))))))))"

definition dump_logits :: "u32 list \<Rightarrow> u8 list" where
  "dump_logits logits = concat (map f32_to_le_bytes logits)"

section \<open>Decoding\<close>

primrec cached_steps ::
  "('f, 'g) nops \<Rightarrow> 'f ModelConfig \<Rightarrow> 'f ModelWeights \<Rightarrow> nat \<Rightarrow> 'f Cache \<Rightarrow> 'f ModelTrace \<Rightarrow> nat list \<Rightarrow> ExitCode + nat list" where
  "cached_steps N c w 0 cache tr produced = Inr produced"
| "cached_steps N c w (Suc n) cache tr produced =
     (case argmax_last N tr of
        Inl _ \<Rightarrow> Inl ABORT
      | Inr best \<Rightarrow>
          let nxt = as_u32 best in
          (case forward_cached N c w cache [nxt] of
             Inl e \<Rightarrow> Inl (net_exit e)
           | Inr (tr, cache) \<Rightarrow> cached_steps N c w n cache tr (produced @ [nxt])))"

primrec uncached_steps ::
  "('f, 'g) nops \<Rightarrow> 'f ModelConfig \<Rightarrow> 'f ModelWeights \<Rightarrow> nat \<Rightarrow> nat list \<Rightarrow> nat list \<Rightarrow> ExitCode + nat list" where
  "uncached_steps N c w 0 ids produced = Inr produced"
| "uncached_steps N c w (Suc n) ids produced =
     (case forward N c w ids of
        Inl e \<Rightarrow> Inl (net_exit e)
      | Inr tr \<Rightarrow>
          (case argmax_last N tr of
             Inl _ \<Rightarrow> Inl ABORT
           | Inr best \<Rightarrow> let nxt = as_u32 best in uncached_steps N c w n (ids @ [nxt]) (produced @ [nxt])))"

definition produce ::
  "('f, 'g) nops \<Rightarrow> (nat \<Rightarrow> 'g) \<Rightarrow> 'f ModelConfig \<Rightarrow> 'f ModelWeights \<Rightarrow> 'g SamplerConfig \<Rightarrow> 'g Sampler \<Rightarrow> bool \<Rightarrow> nat list \<Rightarrow> nat \<Rightarrow>
   ExitCode + nat list" where
  "produce N scale53 c w cfg sampler use_cache prompt steps =
     (if \<not> is_greedy (f64 N) cfg \<and> use_cache then
        (case fst (sample_stopping N scale53 c w prompt steps sampler []) of
           Inr (ids, _, _) \<Rightarrow> Inr ids
         | Inl e \<Rightarrow> Inl (net_exit e))
      else if use_cache then
        (case forward_cached N c w (Cache_new N c w 1) prompt of
           Inl e \<Rightarrow> Inl (net_exit e)
         | Inr (tr, cache) \<Rightarrow> cached_steps N c w steps cache tr [])
      else uncached_steps N c w steps prompt [])"

text \<open>How the ids are printed: \<open>join(",")\<close>.\<close>

fun join_ids :: "nat list \<Rightarrow> rstr" where
  "join_ids [] = []"
| "join_ids [i] = show_nat i"
| "join_ids (i # j # is) = show_nat i @ [44] @ join_ids (j # is)"

definition expect_tokens :: "rstr list \<Rightarrow> nat list \<Rightarrow> ExitCode + bool" where
  "expect_tokens args produced =
     (case arg_val args (lit ''--expect-tokens'') of
        None \<Rightarrow> Inr True
      | Some ids \<Rightarrow> (case parse_list ids of Inl _ \<Rightarrow> Inl USAGE | Inr wanted \<Rightarrow> Inr (wanted = produced)))"

definition generate :: "'g Env \<Rightarrow> rstr list \<Rightarrow> RealModel \<Rightarrow> nat list \<Rightarrow> ExitCode + bool \<times> nat list" where
  "generate E args rm prompt =
     try_bind (sampler_from_args E args) (\<lambda>cfg.
     case Sampler_new (f64 (ev_N E)) cfg of
       Inl _ \<Rightarrow> Inl USAGE
     | Inr sampler \<Rightarrow>
         let steps = parsed_or parse_usize args (lit ''--tokens'') 0 in
         if 0 < steps then
           try_bind (produce (ev_N E) (ev_scale53 E) (rm_config rm) (rm_weights rm) cfg sampler
               (has_flag args (lit ''--cached'')) prompt steps) (\<lambda>produced.
           try_bind (expect_tokens args produced) (\<lambda>ok. Inr (ok, produced)))
         else Inr (True, []))"

section \<open>The program\<close>

record Report =
  rp_logs :: "TurnLog list"
  rp_produced :: "nat list"
  rp_files :: "rstr \<Rightarrow> u8 list option"

definition checks :: "'g Env \<Rightarrow> rstr list \<Rightarrow> u32 ModelTrace \<Rightarrow> u32 list \<Rightarrow> ExitCode + bool \<times> (rstr \<Rightarrow> u8 list option)" where
  "checks E args tr logits =
     (let F = f32 (ev_N E);
          tol = parsed_or (ev_parse_f32 E) args (lit ''--tol'') (ev_3em5 E);
          topk = parsed_or parse_usize args (lit ''--topk'') 10 in
      try_bind (case arg_val args (lit ''--compare-layers'') of
          Some dir \<Rightarrow> compare_layers E tol dir tr
        | None \<Rightarrow> Inr False) (\<lambda>failed.
      try_bind (case arg_val args (lit ''--dump-logits'') of
          Some path \<Rightarrow> guard_err (\<not> ev_writable E path) FAILURE (Inr ((ev_fs E)(path \<mapsto> dump_logits logits)))
        | None \<Rightarrow> Inr (ev_fs E)) (\<lambda>fs.
      try_bind (case arg_val args (lit ''--compare'') of
          Some path \<Rightarrow> try_bind (ok_or (fs path) FAILURE) (compare_logits F tol topk logits)
        | None \<Rightarrow> Inr True) (\<lambda>ok.
      Inr (failed \<or> \<not> ok, fs)))))"

definition completion :: "'g Env \<Rightarrow> rstr list \<Rightarrow> RealModel \<Rightarrow> nat list \<Rightarrow> ExitCode + ExitCode \<times> Report" where
  "completion E args rm prompt =
     (case forward (ev_N E) (rm_config rm) (rm_weights rm) prompt of
        Inl e \<Rightarrow> Inl (net_exit e)
      | Inr tr \<Rightarrow>
          (case last_logits tr of
             Inl _ \<Rightarrow> Inl ABORT
           | Inr logits \<Rightarrow>
               guard_err (\<not> list_all (f_finite (f32 (ev_N E))) logits) FAILURE (
               guard_err (logits = []) ABORT (
               try_bind (checks E args tr logits) (\<lambda>(failed, fs).
               try_bind (generate E args rm prompt) (\<lambda>(ok, produced).
               Inr (if failed \<or> \<not> ok then FAILURE else SUCCESS,
                    \<lparr>rp_logs = [], rp_produced = produced, rp_files = fs\<rparr>)))))))"

fun real_exit :: "real_error \<Rightarrow> ExitCode" where
  "real_exit RePanic = ABORT"
| "real_exit (ReCheckpoint CkPanic) = ABORT"
| "real_exit _ = FAILURE"

definition qwenrun :: "'g Env \<Rightarrow> rstr list \<Rightarrow> ExitCode + ExitCode \<times> Report" where
  "qwenrun E args =
     (case List.find (\<lambda>a. \<not> starts_with a (lit ''--'')) (drop 1 args) of
        None \<Rightarrow> Inl USAGE
      | Some dir \<Rightarrow>
          (case parse_turns args of
             Inl _ \<Rightarrow> Inl USAGE
           | Inr turns \<Rightarrow>
               try_bind (prompt_of E args dir) (\<lambda>prompt.
               case real_load (ev_casts E) (ev_fs E) (ev_entries E dir) (ev_from_slice E) dir of
                 Inl e \<Rightarrow> Inl (real_exit e)
               | Inr rm \<Rightarrow>
                   if has_flag args (lit ''--repl'') \<or> turns \<noteq> [] then
                     try_bind (chat_main E args dir turns rm) (\<lambda>(code, logs).
                     Inr (code, \<lparr>rp_logs = logs, rp_produced = [], rp_files = ev_fs E\<rparr>))
                   else completion E args rm prompt)))"

section \<open>Token lists\<close>

lemma split_char_single: "c \<notin> set s \<Longrightarrow> split_char c s = [s]"
  by (induction s) auto

lemma split_char_append: "c \<notin> set s \<Longrightarrow> split_char c (s @ c # r) = s # split_char c r"
  by (induction s) auto

lemma dropWhile_none: "\<forall>x \<in> set s. \<not> P x \<Longrightarrow> dropWhile P s = s"
  by (cases s) auto

lemma show_nat_clean:
  "44 \<notin> set (show_nat n)" "trim_matches is_whitespace (show_nat n) = show_nat n" "show_nat n \<noteq> []"
  "n < 2 ^ 32 \<Longrightarrow> parse_u32 (show_nat n) = Some n"
proof -
  have d: "\<forall>c \<in> set (show_nat n). is_digit c" and ne: "show_nat n \<noteq> []" using show_nat_digits by blast+
  show "44 \<notin> set (show_nat n)" using d by (auto simp: is_digit_def)
  show "show_nat n \<noteq> []" by (rule ne)
  have w: "\<forall>c \<in> set (show_nat n). \<not> is_whitespace c" using d by (auto simp: is_digit_def is_whitespace_def)
  then have "dropWhile is_whitespace (show_nat n) = show_nat n" "dropWhile is_whitespace (rev (show_nat n)) = rev (show_nat n)"
    using dropWhile_none by (metis, metis set_rev)
  then show "trim_matches is_whitespace (show_nat n) = show_nat n"
    by (simp add: trim_matches_def trim_start_matches_def trim_end_matches_def)
  obtain c cs where s: "show_nat n = c # cs" using ne by (cases "show_nat n") auto
  then have "c \<noteq> 43" "list_all is_digit (c # cs)" "digits_nat (c # cs) = n"
    using d digits_nat_show_nat [of n] by (auto simp: is_digit_def list_all_iff)
  then show "parse_u32 (show_nat n) = Some n" if "n < 2 ^ 32" using that by (simp add: parse_u32_def s)
qed

lemma split_join_ids: "ids \<noteq> [] \<Longrightarrow> split_char 44 (join_ids ids) = map show_nat ids"
  by (induction ids rule: join_ids.induct) (simp_all add: split_char_single split_char_append show_nat_clean)

lemma parse_join_ids: "list_all (\<lambda>i. i < 2 ^ 32) ids \<Longrightarrow> parse_list (join_ids ids) = Inr ids"
proof (cases "ids = []")
  case False
  assume "list_all (\<lambda>i. i < 2 ^ 32) ids"
  then have "collect_result (\<lambda>p. ok_or (parse_u32 (trim_matches is_whitespace p)) p) (map show_nat ids) = Inr ids"
    by (induction ids) (simp_all add: show_nat_clean)
  then show ?thesis using False by (simp add: parse_list_def split_join_ids show_nat_clean filter_map o_def)
qed (simp add: parse_list_def trim_matches_def trim_start_matches_def trim_end_matches_def)

section \<open>Decoding with and without the cache\<close>

lemma uncached_steps_run:
  assumes "model_ok c w" and "vocab_ok c"
  shows "tokens_ok c ids \<Longrightarrow> uncached_steps N c w n ids p = Inr (p @ map fst (greedy_spec N c w n ids))"
proof (induction n arbitrary: ids p)
  case (Suc n)
  let ?nxt = "first_max N (last_row N c w ids)"
  obtain tr where tr: "forward N c w ids = Inr tr" "last_logits tr = Inr (last_row N c w ids)"
    using last_logits_forward [OF assms(1) Suc.prems, of N] by blast
  have "ids \<noteq> []" using Suc.prems by (simp add: tokens_ok_def)
  note nxt = next_token [OF assms(2) length_last_row [OF this, where N = N and mcfg = c and w = w], of N]
  show ?case
    using Suc.IH [OF tokens_ok_snoc [OF Suc.prems nxt(2)], of "p @ [?nxt]"] tr nxt(1) by (simp add: Let_def argmax_last_def)
qed simp

lemma cached_steps_run:
  assumes "model_ok c w" and "vocab_ok c"
  shows "decoded N c w ids cache tr \<Longrightarrow> cached_steps N c w n cache tr p = Inr (p @ map fst (greedy_spec N c w n ids))"
proof (induction n arbitrary: ids cache tr p)
  case (Suc n)
  note best = argmax_decoded [OF assms(2) Suc.prems]
  obtain tr' cache' where step: "forward_cached N c w cache [first_max N (last_row N c w ids)] = Inr (tr', cache')"
    "decoded N c w (ids @ [first_max N (last_row N c w ids)]) cache' tr'"
    using decoded_step [OF assms(1) Suc.prems best(3)] by blast
  show ?case using Suc.IH [OF step(2)] best(1,2) step(1) by (simp add: Let_def)
qed simp

lemma produce_run:
  assumes "model_ok c w" and "vocab_ok c" and "tokens_ok c prompt" and "is_greedy (f64 N) cfg \<or> \<not> use_cache"
  shows "produce N scale53 c w cfg sa use_cache prompt steps = Inr (map fst (greedy_spec N c w steps prompt))"
proof (cases use_cache)
  case True
  obtain tr cache where "forward_cached N c w (Cache_new N c w 1) prompt = Inr (tr, cache)" "decoded N c w prompt cache tr"
    using decoded_prefill [OF assms(1,3), of N] by blast
  then show ?thesis using True assms(4) cached_steps_run [OF assms(1,2), where p = "[]"]
    by (simp add: produce_def del: One_nat_def)
next
  case False
  then show ?thesis using uncached_steps_run [OF assms(1,2,3), where p = "[]"] by (simp add: produce_def)
qed

section \<open>Dumped logits\<close>

lemma read_dump: "read_f32_blob (dump_logits l) = l" "length (dump_logits l) mod 4 = 0"
proof -
  have "elements 4 (dump_logits l) = map f32_to_le_bytes l"
    unfolding dump_logits_def by (rule elements_concat) (auto simp: f32_le_bytes(1))
  then show "read_f32_blob (dump_logits l) = l" by (simp add: read_f32_blob_def o_def f32_le_bytes(2))
  have "length (dump_logits l) = 4 * length l" unfolding dump_logits_def by (induction l) (simp_all add: f32_le_bytes(1))
  then show "length (dump_logits l) mod 4 = 0" by simp
qed

lemma worst_diff_self:
  assumes "\<forall>x \<in> set l. \<not> f_lt F (f_zero F) (f_abs F (f_sub F x x))"
  shows "worst_diff F l l = (f_zero F, 0)"
proof -
  have "foldl (\<lambda>(worst, pos) k. let d = f_abs F (f_sub F (l ! k) (l ! k)) in if f_lt F worst d then (d, k) else (worst, pos))
      (f_zero F, 0) [0..<n] = (f_zero F, 0)" if "n \<le> length l" for n
    using that assms by (induction n) (auto simp: Let_def)
  then show ?thesis by (simp add: worst_diff_def)
qed

lemma compare_dump:
  assumes "l \<noteq> []" and "list_all (\<lambda>x. \<not> f_nan F x \<and> \<not> f_lt F (f_zero F) (f_abs F (f_sub F x x))) l" and "\<not> f_lt F tol (f_zero F)"
  shows "compare_logits F tol topk l (dump_logits l) = Inr True"
proof -
  have "\<not> list_ex (f_nan F) l" using assms(2) by (auto simp: list_all_iff list_ex_iff)
  then have "ranking F l = Inr (sort_by (\<lambda>a b. f_lt F (l ! b) (l ! a)) [0..<length l])" by (simp add: ranking_def)
  moreover have "worst_diff F l l = (f_zero F, 0)" using assms(2) by (intro worst_diff_self) (simp add: list_all_iff)
  ultimately show ?thesis using assms(1,3) by (simp add: compare_logits_def read_dump)
qed

section \<open>The whole run\<close>

lemma check_sampler_valid: "check_sampler G cfg0 = Inr cfg \<Longrightarrow> \<exists>sa. Sampler_new G cfg = Inr sa"
  by (auto simp: check_sampler_def Sampler_new_def split: sum.splits)

lemma sampler_from_args_valid: "sampler_from_args E args = Inr cfg \<Longrightarrow> \<exists>sa. Sampler_new (f64 (ev_N E)) cfg = Inr sa"
  unfolding sampler_from_args_def Let_def try_bind_Inr using check_sampler_valid by blast

lemma completion_run:
  assumes "model_ok (rm_config rm) (rm_weights rm)" and "vocab_ok (rm_config rm)" and "tokens_ok (rm_config rm) prompt"
    and "list_all (f_finite (f32 (ev_N E))) (last_row (ev_N E) (rm_config rm) (rm_weights rm) prompt)"
    and "\<And>tr. checks E args tr (last_row (ev_N E) (rm_config rm) (rm_weights rm) prompt) = Inr (False, fs)"
    and "generate E args rm prompt = Inr (ok, ids)"
  shows "completion E args rm prompt =
    Inr (if ok then SUCCESS else FAILURE, \<lparr>rp_logs = [], rp_produced = ids, rp_files = fs\<rparr>)"
proof -
  obtain tr where tr: "forward (ev_N E) (rm_config rm) (rm_weights rm) prompt = Inr tr"
    "last_logits tr = Inr (last_row (ev_N E) (rm_config rm) (rm_weights rm) prompt)"
    using last_logits_forward [OF assms(1,3), of "ev_N E"] by blast
  have "prompt \<noteq> []" using assms(3) by (simp add: tokens_ok_def)
  then have "0 < length (last_row (ev_N E) (rm_config rm) (rm_weights rm) prompt)"
    unfolding length_last_row [OF \<open>prompt \<noteq> []\<close>] using assms(2) by (simp add: vocab_ok_def)
  then show ?thesis using tr assms(4-6) by (simp add: completion_def)
qed

lemma generate_run:
  assumes "model_ok (rm_config rm) (rm_weights rm)" and "vocab_ok (rm_config rm)" and "tokens_ok (rm_config rm) prompt"
    and "sampler_from_args E args = Inr cfg" and "is_greedy (f64 (ev_N E)) cfg \<or> \<not> has_flag args (lit ''--cached'')"
    and "arg_val args (lit ''--expect-tokens'') = None" and "steps = parsed_or parse_usize args (lit ''--tokens'') 0"
  shows "generate E args rm prompt = Inr (True, map fst (greedy_spec (ev_N E) (rm_config rm) (rm_weights rm) steps prompt))"
proof -
  obtain sa where "Sampler_new (f64 (ev_N E)) cfg = Inr sa" using sampler_from_args_valid [OF assms(4)] by blast
  then show ?thesis
    using assms(4,6,7) produce_run [OF assms(1,2,3,5), of "ev_scale53 E" sa steps]
    by (cases "steps = 0") (auto simp: generate_def expect_tokens_def Let_def simp del: lit_simps)
qed

text \<open>C6. \<open>--cached\<close> changes the time, not the tokens: for weights of the right sizes and a prompt over the vocabulary,
  greedy decoding with the cache and decoding without it both succeed with the same \<open>steps\<close> tokens, those of the library's
  \<open>greedy\<close>. Without \<open>--cached\<close> this holds for every sampler configuration: the sampling options are ignored, and the
  tokens are the greedy ones also when a positive temperature was asked for.\<close>

theorem produce_modes_agree:
  assumes "model_ok c w" and "vocab_ok c" and "tokens_ok c prompt"
  shows "\<exists>ids trs. greedy N c w prompt steps = Inr (ids, trs) \<and> length ids = steps \<and>
    produce N scale53 c w cfg sa False prompt steps = Inr ids \<and>
    (is_greedy (f64 N) cfg \<longrightarrow> produce N scale53 c w cfg sa True prompt steps = Inr ids)"
  using greedy_uncached_run [OF assms, of N steps "[]" "[]"] produce_run [OF assms, of N cfg]
  by (auto simp: greedy_def)

text \<open>The ids the program prints are ids it reads: a list of token ids joined by commas is parsed back to the same list,
  so \<open>--expect-tokens\<close> with the printed ids of a run holds exactly when the run produces those ids again.\<close>

lemma expect_tokens_printed:
  assumes "list_all (\<lambda>i. i < 2 ^ 32) ids" and "arg_val args (lit ''--expect-tokens'') = Some (join_ids ids)"
  shows "parse_list (join_ids ids) = Inr ids \<and> expect_tokens args produced = Inr (ids = produced)"
  using parse_join_ids [OF assms(1)] assms(2) by (simp add: expect_tokens_def del: lit_simps)

text \<open>C26. Dumped logits compare equal to themselves: with \<open>--dump-logits\<close> and \<open>--compare\<close> on one path the file written
  is the file read, it decodes to the logits bit for bit, and the comparison passes under every tolerance that is not
  negative. (No logit is a NaN, and subtracting a logit from itself does not give a positive number.)\<close>

theorem dump_then_compare:
  assumes "arg_val args (lit ''--dump-logits'') = Some path" and "arg_val args (lit ''--compare'') = Some path"
    and "arg_val args (lit ''--compare-layers'') = None" and "ev_writable E path" and "logits \<noteq> []"
    and "list_all (\<lambda>x. \<not> f_nan (f32 (ev_N E)) x \<and>
      \<not> f_lt (f32 (ev_N E)) (f_zero (f32 (ev_N E))) (f_abs (f32 (ev_N E)) (f_sub (f32 (ev_N E)) x x))) logits"
    and "\<not> f_lt (f32 (ev_N E)) (parsed_or (ev_parse_f32 E) args (lit ''--tol'') (ev_3em5 E)) (f_zero (f32 (ev_N E)))"
  shows "checks E args tr logits = Inr (False, (ev_fs E)(path \<mapsto> dump_logits logits)) \<and>
    read_f32_blob (dump_logits logits) = logits"
  using assms(1-4) compare_dump [OF assms(5-7)] read_dump(1) [of logits] by (simp add: checks_def Let_def del: lit_simps)


section \<open>Witnesses\<close>

definition qr_F :: "u32 fops" where
  "qr_F = \<lparr>f_zero = 0, f_one = 1, f_neg_inf = 0, f_inf = 0, f_sum_start = 0, f_add = (+), f_sub = (-), f_mul = (*),
     f_div = (\<lambda>a b. a), f_neg = uminus, f_abs = id, f_exp = id, f_ln = id, f_sqrt = id, f_of_nat = word_of_nat,
     f_lt = (<), f_eq = (=), f_finite = (\<lambda>_. True)\<rparr>"

definition qr_G :: "nat fops" where
  "qr_G = \<lparr>f_zero = 0, f_one = 1, f_neg_inf = 0, f_inf = 0, f_sum_start = 0, f_add = (+), f_sub = (-), f_mul = (*),
     f_div = (\<lambda>a b. a), f_neg = id, f_abs = id, f_exp = id, f_ln = id, f_sqrt = id, f_of_nat = id,
     f_lt = (<), f_eq = (=), f_finite = (\<lambda>_. True)\<rparr>"

definition qr_N :: "(u32, nat) nops" where
  "qr_N = \<lparr>n_ops = \<lparr>s32 = qr_F, s64 = qr_G, widen = unat, narrow = word_of_nat\<rparr>, n_powf = (\<lambda>a b. 1), n_cos = (\<lambda>x. 1),
     n_sin = (\<lambda>x. 0), n_20 = 20, n_1e6 = 0, n_neg_half = 0, n_threads = 2\<rparr>"

definition qr_E :: "nat Env" where
  "qr_E = \<lparr>ev_fs = rc_fs, ev_exists = (\<lambda>_. False), ev_writable = (\<lambda>_. True),
     ev_entries = (\<lambda>_. [lit ''d/m.safetensors'', lit ''d/config.json'']), ev_stdin = [], ev_from_slice = rc_from_slice,
     ev_shapes = (\<lambda>_. None), ev_show_json = (\<lambda>_. []), ev_order = id, ev_casts = rc_C, ev_parse_f32 = (\<lambda>_. None),
     ev_parse_f64 = (\<lambda>_. None), ev_3em5 = 0, ev_N = qr_N, ev_scale53 = id,
     ev_J = \<lparr>jf_nan = (\<lambda>_. False), jf_infinite = (\<lambda>_. False), jf_positive = (\<lambda>x. 0 < x), lower_exp = (\<lambda>_. (lit ''0'', 0)),
       parse_f64 = (\<lambda>_. None), jf_of_int = nat\<rparr>, ev_db = ex_db\<rparr>"

definition qr_args :: "rstr list" where
  "qr_args = map lit [''qwenrun'', ''d'', ''--prompt'', ''0,0'', ''--tokens'', ''3'', ''--cached'']"

lemma qr_vals:
  "arg_val qr_args (lit ''--text'') = None" "arg_val qr_args (lit ''--prompt'') = Some (lit ''0,0'')"
  "arg_val qr_args (lit ''--tokens'') = Some (lit ''3'')"
  "list_all (\<lambda>f. arg_val qr_args f = None) (map lit [''--compare-layers'', ''--dump-logits'', ''--compare'', ''--expect-tokens''])"
  "list_all (\<lambda>f. arg_val qr_args f = None) (map lit [''--temperature'', ''--top-k'', ''--top-p'', ''--min-p'', ''--typical-p'',
     ''--repetition-penalty'', ''--presence-penalty'', ''--frequency-penalty'', ''--no-repeat-ngram-size'', ''--seed''])"
  by code_simp+

lemma qr_sampler: "sampler_from_args qr_E qr_args = Inr (SamplerConfig_default qr_G)"
  using qr_vals(5)
  by (simp add: sampler_from_args_def float_arg_def usize_arg_def check_sampler_def validate_def SamplerConfig_default_def qr_E_def qr_N_def
      qr_G_def f_le_def Let_def del: lit_simps)

lemma qr_prompt: "prompt_of qr_E qr_args (lit ''d'') = Inr [0, 0]" "parsed_or parse_usize qr_args (lit ''--tokens'') 0 = 3"
proof -
  have "join_ids [0, 0] = lit ''0,0''" by (simp add: show_nat_digit)
  then have "parse_list (lit ''0,0'') = Inr [0, 0]" using parse_join_ids [of "[0, 0]"] by simp
  then show "prompt_of qr_E qr_args (lit ''d'') = Inr [0, 0]" by (simp add: prompt_of_def qr_vals del: lit_simps)
  show "parsed_or parse_usize qr_args (lit ''--tokens'') 0 = 3" unfolding parsed_or_def qr_vals
    by (simp add: parse_usize_def is_digit_def digits_nat_def)
qed

theorem produce_modes_agree_witness:
  "\<exists>ids. produce ex_N int ex_mcfg ex_w (SamplerConfig_default ex_F) ex_sampler True [0, 2] 4 = Inr ids \<and>
     produce ex_N int ex_mcfg ex_w ((SamplerConfig_default ex_F)\<lparr>c_temperature := 2\<rparr>) ex_sampler False [0, 2] 4 = Inr ids \<and> length ids = 4"
proof -
  have "is_greedy (f64 ex_N) (SamplerConfig_default ex_F)"
    by (simp add: is_greedy_def f_le_def ex_N_def ex_S_def ex_F_def SamplerConfig_default_def)
  with produce_modes_agree [OF ex_model(1-3), where N = ex_N and steps = 4 and ?scale53.0 = int and sa = ex_sampler and cfg = "SamplerConfig_default ex_F"]
    produce_modes_agree [OF ex_model(1-3), where N = ex_N and steps = 4 and ?scale53.0 = int and sa = ex_sampler
      and cfg = "(SamplerConfig_default ex_F)\<lparr>c_temperature := 2\<rparr>"]
  show ?thesis by auto
qed

lemma expect_tokens_printed_witness:
  "expect_tokens [lit ''--expect-tokens'', lit ''12,248046''] [12, 248046] = Inr True"
proof -
  have "join_ids [12, 248046] = lit ''12,248046''" by (simp add: show_nat.simps)
  then show ?thesis
    using expect_tokens_printed [of "[12, 248046]" "[lit ''--expect-tokens'', lit ''12,248046'']" "[12, 248046]"]
    by (simp add: arg_val_def del: lit_simps)
qed

theorem dump_then_compare_witness:
  "\<forall>tr. \<exists>fs. checks qr_E [lit ''--dump-logits'', lit ''f'', lit ''--compare'', lit ''f''] tr [1, 2] = Inr (False, fs) \<and>
     fs (lit ''f'') = Some (dump_logits [1, 2])"
proof -
  let ?args = "[lit ''--dump-logits'', lit ''f'', lit ''--compare'', lit ''f'']"
  have "arg_val ?args (lit ''--dump-logits'') = Some (lit ''f'')" "arg_val ?args (lit ''--compare'') = Some (lit ''f'')"
    "arg_val ?args (lit ''--compare-layers'') = None" "arg_val ?args (lit ''--tol'') = None"
    by code_simp+
  then show ?thesis
    using dump_then_compare [of ?args "lit ''f''" qr_E "[1, 2]"]
    by (simp add: qr_E_def qr_N_def qr_F_def f_nan_def parsed_or_def del: lit_simps)
qed


end
