(* ===== verification/Gdn_Check.thy ===== *)
theory Gdn_Check
  imports Qwen_Run
begin

text \<open>
  The program \<open>gdncheck\<close> (\<open>gdn/src/main.rs\<close>), which runs the stack against a golden bundle: every layer on
  the input recorded for it, the layers chained, and the whole model with its greedy trace. \<open>GEnv\<close> holds
  what is outside the program. Tables and other text that is only printed is left out; everything that
  decides the exit code is kept, the calls that can panic included (\<open>ABORT\<close>).
\<close>

section \<open>Checks\<close>

record 'g GEnv =
  ge_fs :: "rstr \<Rightarrow> u8 list option"
  ge_manifest :: "u8 list \<Rightarrow> 'g Manifest option"
  ge_casts :: "'g casts"
  ge_N :: "(u32, 'g) nops"
  ge_TOL :: u32

abbreviation ge_F :: "'g GEnv \<Rightarrow> u32 fops" where "ge_F E \<equiv> f32 (ge_N E)"

definition tolerance_for :: "'g GEnv \<Rightarrow> 'g \<Rightarrow> u32" where
  "tolerance_for E ssm_gain = f_mul (ge_F E) (ge_TOL E) (to32 (ge_N E) (f_max (f64 (ge_N E)) ssm_gain (f_one (f64 (ge_N E)))))"

record Check =
  ck_label :: rstr
  ck_abs :: u32
  ck_rel :: u32
  ck_ok :: bool
  ck_missing :: bool

record 'g Checker =
  cr_b :: "'g Bundle"
  cr_checks :: "Check list"
  cr_n :: nat
  cr_tol :: u32

definition Checker_new :: "'g Bundle \<Rightarrow> u32 \<Rightarrow> 'g Checker" where
  "Checker_new b tol = \<lparr>cr_b = b, cr_checks = [], cr_n = 0, cr_tol = tol\<rparr>"

definition max_abs_diff :: "u32 fops \<Rightarrow> u32 list \<Rightarrow> u32 list \<Rightarrow> u32 \<times> nat" where
  "max_abs_diff F a b =
     foldl (\<lambda>(worst, pos) i. let d = f_abs F (f_sub F (a ! i) (b ! i)) in if f_lt F worst d then (d, i) else (worst, pos))
       (f_zero F, 0) [0..<min (length a) (length b)]"

definition push_check :: "'g Checker \<Rightarrow> Check \<Rightarrow> 'g Checker" where
  "push_check ck c = ck\<lparr>cr_checks := cr_checks ck @ [c]\<rparr>"

definition ck_compare :: "u32 fops \<Rightarrow> 'g Checker \<Rightarrow> rstr \<Rightarrow> u32 list \<Rightarrow> u32 list \<Rightarrow> 'g Checker" where
  "ck_compare F ck label mine golden =
     (if length mine \<noteq> length golden then
        push_check ck \<lparr>ck_label = label, ck_abs = f_inf F, ck_rel = f_inf F, ck_ok = False, ck_missing = False\<rparr>
      else
        let worst_abs = fst (max_abs_diff F mine golden);
            scale = foldl (\<lambda>m x. f_max F m (f_abs F x)) (f_zero F) golden;
            rel = (if f_lt F (f_zero F) scale then f_div F worst_abs scale else worst_abs)
        in push_check ck \<lparr>ck_label = label, ck_abs = worst_abs, ck_rel = rel, ck_ok = f_le F worst_abs (cr_tol ck), ck_missing = False\<rparr>)"

text \<open>A label is numbered in a field of two characters; the reason that is appended to it on a failure is left out.\<close>

definition numbered :: "nat \<Rightarrow> rstr \<Rightarrow> rstr" where
  "numbered n label = (if n < 10 then lit '' '' else []) @ show_nat n @ lit ''. '' @ label"

definition step_opt :: "u32 fops \<Rightarrow> (rstr \<Rightarrow> u8 list option) \<Rightarrow> 'g Checker \<Rightarrow> rstr \<Rightarrow> u32 list \<Rightarrow> rstr option \<Rightarrow> 'g Checker" where
  "step_opt F fs ck0 label0 mine name =
     (let ck = ck0\<lparr>cr_n := cr_n ck0 + 1\<rparr>; label = numbered (cr_n ck) label0 in
      case name of
        None \<Rightarrow> push_check ck \<lparr>ck_label = label, ck_abs = f32_NAN, ck_rel = f32_NAN, ck_ok = True, ck_missing = True\<rparr>
      | Some name \<Rightarrow>
          (case bundle_read fs (cr_b ck) name of
             Inr golden \<Rightarrow> ck_compare F ck label mine golden
           | Inl _ \<Rightarrow> push_check ck \<lparr>ck_label = label, ck_abs = f_inf F, ck_rel = f_inf F, ck_ok = False, ck_missing = False\<rparr>))"

type_synonym check_step = "rstr \<times> u32 list \<times> rstr option"

definition run_steps :: "u32 fops \<Rightarrow> (rstr \<Rightarrow> u8 list option) \<Rightarrow> 'g Checker \<Rightarrow> check_step list \<Rightarrow> 'g Checker" where
  "run_steps F fs ck steps = foldl (\<lambda>ck (label, mine, name). step_opt F fs ck label mine name) ck steps"

definition is_failure :: "Check \<Rightarrow> bool" where
  "is_failure c \<longleftrightarrow> \<not> ck_ok c \<and> \<not> ck_missing c"

definition ck_failed :: "'g Checker \<Rightarrow> nat" where
  "ck_failed ck = length (filter is_failure (cr_checks ck))"

definition first_failure :: "'g Checker \<Rightarrow> Check option" where
  "first_failure ck = List.find is_failure (cr_checks ck)"

text \<open>\<open>max_by\<close> keeps the later of two equal elements; \<open>partial_cmp\<close> of a NaN is unwrapped.\<close>

primrec max_check :: "u32 fops \<Rightarrow> Check \<Rightarrow> Check list \<Rightarrow> ExitCode + Check" where
  "max_check F best [] = Inr best"
| "max_check F best (c # cs) =
     guard_err (f_nan F (ck_abs best) \<or> f_nan F (ck_abs c)) ABORT
       (max_check F (if f_lt F (ck_abs c) (ck_abs best) then best else c) cs)"

definition worst_check :: "u32 fops \<Rightarrow> 'g Checker \<Rightarrow> ExitCode + Check option" where
  "worst_check F ck =
     (case filter (\<lambda>c. \<not> ck_missing c) (cr_checks ck) of
        [] \<Rightarrow> Inr None
      | c # cs \<Rightarrow> try_bind (max_check F c cs) (\<lambda>w. Inr (Some w)))"

definition describe :: "u32 fops \<Rightarrow> 'g Checker \<Rightarrow> ExitCode + rstr \<times> u32" where
  "describe F ck =
     (case first_failure ck of
        Some f \<Rightarrow> Inr (lit ''FAIL '' @ ck_label f, ck_abs f)
      | None \<Rightarrow>
          try_bind (worst_check F ck) (\<lambda>w.
          Inr (case w of
                 Some w \<Rightarrow> (lit ''worst: '' @ ck_label w, ck_abs w)
               | None \<Rightarrow> (lit ''(nothing compared)'', f32_NAN))))"

section \<open>One layer\<close>

definition mixer_steps :: "LayerCapture \<Rightarrow> u32 MixerTrace \<Rightarrow> check_step list" where
  "mixer_steps c mt =
     (case mt of
        LinearTrace g \<Rightarrow>
          [(lit ''in_proj_qkv'', gt_in_proj_qkv g, Some (cap_in_proj_qkv c)),
           (lit ''conv input (channels-first)'', gt_conv_in g, cap_conv_in c),
           (lit ''conv + silu'', gt_conv_out g, cap_conv_out c),
           (lit ''in_proj_z'', gt_in_proj_z g, Some (cap_in_proj_z c)),
           (lit ''in_proj_b'', gt_in_proj_b g, Some (cap_in_proj_b c)),
           (lit ''in_proj_a'', gt_in_proj_a g, Some (cap_in_proj_a c)),
           (lit ''q (post-GQA)'', gt_q g, cap_delta_operand c (lit ''q'')),
           (lit ''k (post-GQA)'', gt_k g, cap_delta_operand c (lit ''k'')),
           (lit ''v'', gt_v g, cap_delta_operand c (lit ''v'')),
           (lit ''g (decay)'', gt_g g, cap_delta_operand c (lit ''g'')),
           (lit ''beta (gate)'', gt_beta g, cap_delta_operand c (lit ''beta'')),
           (lit ''delta rule out'', gt_delta_out g, cap_delta_out c),
           (lit ''delta rule state'', gt_delta_state g, cap_delta_state c),
           (lit ''gated norm'', gt_norm g, Some (cap_mixer_norm c)),
           (lit ''out_proj'', gt_out_proj g, Some (cap_out_proj c)),
           (lit ''linear_attn output'', gt_out_proj g, Some (cap_linear_attn c))]
      | FullTrace a \<Rightarrow>
          [(lit ''q_proj'', at_q_proj a, Some (cap_q_proj c)),
           (lit ''q_norm (pre-rope)'', at_q_norm a, Some (cap_q_norm c)),
           (lit ''k_proj'', at_k_proj a, Some (cap_k_proj c)),
           (lit ''k_norm (pre-rope)'', at_k_norm a, Some (cap_k_norm c)),
           (lit ''v_proj'', at_v_proj a, Some (cap_v_proj c)),
           (lit ''attn out (post-gate, pre-o_proj)'', at_gated a, Some (cap_o_proj_in c)),
           (lit ''o_proj'', at_o_proj a, Some (cap_o_proj c)),
           (lit ''self_attn output'', at_o_proj a, Some (cap_self_attn_out0 c))])"

definition layer_steps :: "LayerCapture \<Rightarrow> u32 LayerTrace \<Rightarrow> check_step list" where
  "layer_steps c tr =
     (lit ''input_layernorm'', lt_input_layernorm tr, Some (cap_input_layernorm c)) #
     mixer_steps c (lt_mixer tr) @
     [(lit ''post_attention_layernorm'', lt_post_attention_layernorm tr, Some (cap_post_attention_layernorm c)),
      (lit ''mlp gate_proj'', mt_gate_proj (lt_mlp tr), Some (cap_mlp_gate_proj c)),
      (lit ''mlp up_proj'', mt_up_proj (lt_mlp tr), Some (cap_mlp_up_proj c)),
      (lit ''mlp swiglu product'', mt_swiglu_product (lt_mlp tr), Some (cap_mlp_swiglu c)),
      (lit ''mlp down_proj'', mt_down_proj (lt_mlp tr), Some (cap_mlp_down_proj c)),
      (lit ''mlp output'', mt_down_proj (lt_mlp tr), Some (cap_mlp c)),
      (lit ''layer output (both residuals)'', lt_out tr, Some (cap_layer_out c))]"

datatype verify_error = VfLoad load_error | VfNet net_error

definition map_err :: "('e \<Rightarrow> 'e2) \<Rightarrow> 'e + 'a \<Rightarrow> 'e2 + 'a" where
  "map_err h r = (case r of Inl e \<Rightarrow> Inl (h e) | Inr a \<Rightarrow> Inr a)"

definition verify_layer ::
  "'g GEnv \<Rightarrow> 'g Bundle \<Rightarrow> 'g ModelInfo \<Rightarrow> nat \<Rightarrow> u32 list \<Rightarrow> (u32 list \<times> u32 list) option \<Rightarrow> u32 \<Rightarrow>
   verify_error + 'g Checker \<times> u32 LayerTrace" where
  "verify_layer E b m layer input rope tol =
     (let c = LayerCapture_new layer (ssm_ordinal m layer) in
      try_bind (map_err VfLoad (load_layer_weights (ge_fs E) b m layer)) (\<lambda>lw.
      try_bind (case layer_kind m layer of
          LinearAttention \<Rightarrow>
            try_bind (map_err VfLoad (load_gdn_weights (ge_fs E) b m layer)) (\<lambda>w.
            map_err VfNet (layer_forward (ge_N E) (LinearMixer (mi_gdn m) w) lw input (mi_b m) (mi_t m) (mi_eps m) rope))
        | FullAttention \<Rightarrow>
            try_bind (map_err VfLoad (load_attn_weights (ge_fs E) b m layer)) (\<lambda>w.
            map_err VfNet (layer_forward (ge_N E) (FullMixer (mi_attn m) w) lw input (mi_b m) (mi_t m) (mi_eps m) rope))) (\<lambda>tr.
      Inr (run_steps (ge_F E) (ge_fs E) (Checker_new b tol) (layer_steps c tr), tr))))"

section \<open>The modes\<close>

text \<open>The built rotary tables against the recorded ones; a bundle without them is only reported.\<close>

definition rope_failed :: "'g GEnv \<Rightarrow> 'g Bundle \<Rightarrow> 'g ModelInfo \<Rightarrow> u32 \<Rightarrow> bool" where
  "rope_failed E b m tol =
     (case load_rope (ge_fs E) b m of
        Inr (cos_ref, sin_ref) \<Rightarrow>
          let (cos, sin) = build_rope (ge_N E) (mi_attn m) (mi_t m) 0;
              dc = fst (max_abs_diff (ge_F E) cos cos_ref);
              ds = fst (max_abs_diff (ge_F E) sin sin_ref)
          in \<not> (f_le (ge_F E) dc tol \<and> f_le (ge_F E) ds tol)
      | Inl _ \<Rightarrow> False)"

fun verify_exit :: "verify_error \<Rightarrow> ExitCode" where
  "verify_exit (VfNet e) = net_exit e"
| "verify_exit (VfLoad e) = FAILURE"

definition single_layer :: "'g GEnv \<Rightarrow> 'g Bundle \<Rightarrow> 'g ModelInfo \<Rightarrow> u32 \<Rightarrow> nat \<Rightarrow> ExitCode + unit" where
  "single_layer E b m tol layer =
     guard_err (mi_num_layers m \<le> layer) USAGE (
     try_bind (map_err (\<lambda>_. FAILURE) (bundle_read (ge_fs E) b (input_name m layer))) (\<lambda>input.
     try_bind (map_err (\<lambda>_. FAILURE) (load_rope (ge_fs E) b m)) (\<lambda>rope.
     try_bind (map_err verify_exit (verify_layer E b m layer input (Some rope) tol)) (\<lambda>(ck, _).
     guard_err (ck_failed ck \<noteq> 0) FAILURE (Inr ())))))"

text \<open>A layer that fails to run marks the run as failed; only a panic ends it.\<close>

definition isolated_layer ::
  "'g GEnv \<Rightarrow> 'g Bundle \<Rightarrow> 'g ModelInfo \<Rightarrow> u32 list \<times> u32 list \<Rightarrow> u32 \<Rightarrow> nat \<Rightarrow> ExitCode + bool" where
  "isolated_layer E b m rope tol layer =
     (case bundle_read (ge_fs E) b (input_name m layer) of
        Inl _ \<Rightarrow> Inr True
      | Inr input \<Rightarrow>
          (case verify_layer E b m layer input (Some rope) tol of
             Inr (ck, _) \<Rightarrow> try_bind (describe (ge_F E) ck) (\<lambda>_. Inr (0 < ck_failed ck))
           | Inl e \<Rightarrow> if verify_exit e = ABORT then Inl ABORT else Inr True))"

primrec isolated ::
  "'g GEnv \<Rightarrow> 'g Bundle \<Rightarrow> 'g ModelInfo \<Rightarrow> u32 list \<times> u32 list \<Rightarrow> u32 \<Rightarrow> nat list \<Rightarrow> bool \<Rightarrow> ExitCode + bool" where
  "isolated E b m rope tol [] any_failed = Inr any_failed"
| "isolated E b m rope tol (layer # layers) any_failed =
     try_bind (isolated_layer E b m rope tol layer) (\<lambda>f. isolated E b m rope tol layers (any_failed \<or> f))"

primrec chain_loop ::
  "'g GEnv \<Rightarrow> 'g Bundle \<Rightarrow> 'g ModelInfo \<Rightarrow> u32 list \<times> u32 list \<Rightarrow> u32 \<Rightarrow> nat list \<Rightarrow> u32 list \<Rightarrow> bool \<Rightarrow> ExitCode + bool" where
  "chain_loop E b m rope tol [] input any_failed = Inr any_failed"
| "chain_loop E b m rope tol (layer # run) input any_failed =
     (case verify_layer E b m layer input (Some rope) tol of
        Inr (ck, tr) \<Rightarrow>
          try_bind (describe (ge_F E) ck) (\<lambda>_.
          chain_loop E b m rope tol run (lt_out tr) (any_failed \<or> 0 < ck_failed ck))
      | Inl e \<Rightarrow> if verify_exit e = ABORT then Inl ABORT else Inr True)"

definition chained ::
  "'g GEnv \<Rightarrow> 'g Bundle \<Rightarrow> 'g ModelInfo \<Rightarrow> u32 list \<times> u32 list \<Rightarrow> u32 \<Rightarrow> bool \<Rightarrow> ExitCode + bool" where
  "chained E b m rope tol any_failed =
     (let run = chain_layers m in
      guard_err (run = []) ABORT (
      case bundle_read (ge_fs E) b (input_name m (run ! 0)) of
        Inr input \<Rightarrow> chain_loop E b m rope tol run input any_failed
      | Inl _ \<Rightarrow> Inr True))"

definition model_steps :: "u32 ModelTrace \<Rightarrow> check_step list" where
  "model_steps tr =
     (lit ''embedding'', mtr_embedding tr, Some (lit ''model__embed_tokens'')) #
     map (\<lambda>(i, lt). (lit ''layer '' @ show_nat i @ lit '' output'', lt_out lt, Some (lit ''model__layers__'' @ show_nat i)))
       (List.enumerate 0 (mtr_layers tr)) @
     [(lit ''final norm'', mtr_final_norm tr, Some (lit ''model__norm'')),
      (lit ''logits (all positions)'', mtr_logits tr, Some (lit ''lm_head''))]"

text \<open>The distance of the logits of one step, when they are recorded; sorting them for the comparison of
  the top tokens, which is only printed, panics on a NaN.\<close>

definition step_logits :: "'g GEnv \<Rightarrow> 'g Bundle \<Rightarrow> (nat \<Rightarrow> u32 ModelTrace option) \<Rightarrow> nat \<Rightarrow> u32 \<Rightarrow> ExitCode + u32" where
  "step_logits E b traces k worst_logit =
     (case bundle_read (ge_fs E) b (step_name k) of
        Inr golden \<Rightarrow>
          (case traces k of
             None \<Rightarrow> Inl ABORT
           | Some tr \<Rightarrow>
               try_bind (map_err net_exit (last_logits tr)) (\<lambda>mine.
               try_bind (ranking (ge_F E) mine) (\<lambda>_.
               Inr (f_max (ge_F E) worst_logit (fst (max_abs_diff (ge_F E) mine golden))))))
      | Inl _ \<Rightarrow> Inr worst_logit)"

primrec greedy_check ::
  "'g GEnv \<Rightarrow> 'g Bundle \<Rightarrow> nat list \<Rightarrow> u32 ModelTrace list \<Rightarrow> (nat \<times> GreedyStep) list \<Rightarrow> nat \<Rightarrow> u32 \<Rightarrow> ExitCode + nat \<times> u32" where
  "greedy_check E b gen traces [] token_ok worst_logit = Inr (token_ok, worst_logit)"
| "greedy_check E b gen traces (ks # steps) token_ok worst_logit =
     (let k = fst ks; st = snd ks in
      try_bind (step_logits E b (\<lambda>k. if k < length traces then Some (traces ! k) else None) k worst_logit) (\<lambda>worst_logit.
      guard_err (length gen \<le> k) ABORT (
      guard_err (length traces \<le> k) ABORT (
      greedy_check E b gen traces steps (if gen ! k = gs_argmax_token st then token_ok + 1 else token_ok) worst_logit))))"

definition model_mode :: "'g GEnv \<Rightarrow> 'g Bundle \<Rightarrow> 'g ModelInfo \<Rightarrow> u32 \<Rightarrow> bool \<Rightarrow> bool \<Rightarrow> ExitCode + bool" where
  "model_mode E b m tol use_cache any_failed =
     try_bind (map_err (\<lambda>_. FAILURE) (load_model_weights (ge_fs E) b m)) (\<lambda>mw0.
     try_bind (map_err (\<lambda>_. FAILURE) (load_all_layers (ge_fs E) b m)) (\<lambda>ls.
     let mw = mw0\<lparr>mw_layers := ls\<rparr>;
         prompt = mf_prompt_ids (bu_manifest b);
         mcfg = info_config m in
     try_bind (map_err net_exit (forward (ge_N E) mcfg mw prompt)) (\<lambda>tr.
     let ck = run_steps (ge_F E) (ge_fs E) (Checker_new b tol) (model_steps tr);
         gsteps = gr_steps (mf_greedy (bu_manifest b));
         steps = length gsteps in
     try_bind (map_err net_exit
         (if use_cache then greedy_cached (ge_N E) mcfg mw prompt steps else greedy (ge_N E) mcfg mw prompt steps)) (\<lambda>(gen, traces).
     try_bind (greedy_check E b gen traces (List.enumerate 0 gsteps) 0 (f_zero (ge_F E))) (\<lambda>(token_ok, worst_logit).
     let want_ids = gr_final_ids (mf_greedy (bu_manifest b));
         ids_ok = (prompt @ gen = want_ids)
     in Inr (any_failed \<or> 0 < ck_failed ck \<or> token_ok \<noteq> steps \<or> f_lt (ge_F E) tol worst_logit \<or> \<not> ids_ok))))))"

section \<open>The program\<close>

fun load_exit :: "load_error \<Rightarrow> ExitCode" where
  "load_exit LoPanic = ABORT"
| "load_exit _ = FAILURE"

text \<open>The layer modes: \<open>--layer\<close> alone ends with success, whatever the rotary tables gave.\<close>

definition layer_modes :: "'g GEnv \<Rightarrow> rstr list \<Rightarrow> 'g Bundle \<Rightarrow> 'g ModelInfo \<Rightarrow> u32 \<Rightarrow> ExitCode + bool" where
  "layer_modes E args b m tol =
     (let only = Option.bind (arg_val args (lit ''--layer'')) parse_usize;
          do_model = (has_flag args (lit ''--model'') \<or> has_flag args (lit ''--greedy''));
          any_failed = rope_failed E b m tol in
      try_bind (case only of
          Some layer \<Rightarrow> try_bind (single_layer E b m tol layer) (\<lambda>_. guard_err (\<not> do_model) SUCCESS (Inr ()))
        | None \<Rightarrow> Inr ()) (\<lambda>_.
      try_bind (map_err (\<lambda>_. FAILURE) (load_rope (ge_fs E) b m)) (\<lambda>rope.
      if only = None then
        try_bind (isolated E b m rope tol [0..<mi_num_layers m] any_failed) (\<lambda>any_failed.
        if has_flag args (lit ''--chain'') then chained E b m rope tol any_failed else Inr any_failed)
      else Inr any_failed)))"

definition gdncheck_verdict :: "'g GEnv \<Rightarrow> rstr list \<Rightarrow> ExitCode + bool" where
  "gdncheck_verdict E args =
     (case List.find (\<lambda>a. \<not> starts_with a (lit ''--'')) (drop 1 args) of
        None \<Rightarrow> Inl USAGE
      | Some dir \<Rightarrow>
          try_bind (map_err (\<lambda>_. FAILURE) (Bundle_open (ge_fs E) (ge_manifest E) dir)) (\<lambda>b.
          try_bind (map_err load_exit (bundle_load_model (ge_casts E) b)) (\<lambda>m.
          let tol = tolerance_for E (mi_ssm_gain m) in
          try_bind (layer_modes E args b m tol) (\<lambda>any_failed.
          if has_flag args (lit ''--model'') \<or> has_flag args (lit ''--greedy'')
          then model_mode E b m tol (has_flag args (lit ''--cached'')) any_failed
          else Inr any_failed))))"

definition gdncheck :: "'g GEnv \<Rightarrow> rstr list \<Rightarrow> ExitCode" where
  "gdncheck E args =
     (case gdncheck_verdict E args of
        Inl code \<Rightarrow> code
      | Inr any_failed \<Rightarrow> if any_failed then FAILURE else SUCCESS)"

section \<open>What a passed check says\<close>

text \<open>Two tensors of one length whose elements are nowhere further apart than the tolerance, which is not negative. A
  distance that is a NaN is not further apart.\<close>

definition agrees :: "u32 fops \<Rightarrow> u32 \<Rightarrow> u32 list \<Rightarrow> u32 list \<Rightarrow> bool" where
  "agrees F tol mine golden \<longleftrightarrow>
     length mine = length golden \<and> f_le F (f_zero F) tol \<and> (\<forall>i < length golden. \<not> f_lt F tol (dist F (mine ! i) (golden ! i)))"

lemma max_abs_diff_worst:
  assumes "ordered_floats F" and "\<not> f_nan F (f_zero F)"
    and w_def: "w = fst (max_abs_diff F a b)"
  shows "\<forall>i < min (length a) (length b). \<not> f_lt F w (dist F (a ! i) (b ! i))"
    and "w = f_zero F \<or> f_lt F (f_zero F) w \<and> (\<exists>i < min (length a) (length b). w = dist F (a ! i) (b ! i))"
proof -
  note tr = ordered_floatsD(1) [OF assms(1)] and irr = ordered_floatsD(2) [OF assms(1)]
  define step where "step = (\<lambda>(worst, pos :: nat) i. let d = f_abs F (f_sub F (a ! i) (b ! i)) in if f_lt F worst d then (d, i) else (worst, pos))"
  have "(\<forall>i < n. \<not> f_lt F (fst (foldl step (f_zero F, 0) [0..<n])) (dist F (a ! i) (b ! i))) \<and>
      (fst (foldl step (f_zero F, 0) [0..<n]) = f_zero F \<or>
       f_lt F (f_zero F) (fst (foldl step (f_zero F, 0) [0..<n])) \<and>
         (\<exists>i < n. fst (foldl step (f_zero F, 0) [0..<n]) = dist F (a ! i) (b ! i)))" (is "?P n") for n
  proof (induction n)
    case (Suc n)
    obtain x pos where x: "foldl step (f_zero F, 0) [0..<n] = (x, pos)" by fastforce
    let ?d = "dist F (a ! n) (b ! n)"
    have y: "fst (foldl step (f_zero F, 0) [0..<Suc n]) = (if f_lt F x ?d then ?d else x)"
      using x by (simp add: step_def Let_def dist_def)
    have "\<forall>i < n. \<not> f_lt F x (dist F (a ! i) (b ! i))" and z: "x = f_zero F \<or> f_lt F (f_zero F) x \<and> (\<exists>i < n. x = dist F (a ! i) (b ! i))"
      using Suc x by simp_all
    then have "\<not> f_lt F (if f_lt F x ?d then ?d else x) (dist F (a ! i) (b ! i))" if "i < Suc n" for i
      using tr [of x ?d] irr that by (cases "i = n") (auto simp: less_Suc_eq)
    moreover have "f_lt F x ?d \<Longrightarrow> f_lt F (f_zero F) ?d" using z tr by metis
    moreover have "\<exists>i < Suc n. v = dist F (a ! i) (b ! i)" if "\<exists>i < n. v = dist F (a ! i) (b ! i)" for v
      using that less_SucI by blast
    ultimately show ?case unfolding y using z by (cases "f_lt F x ?d") auto
  qed simp
  from this [of "min (length a) (length b)"]
  show "\<forall>i < min (length a) (length b). \<not> f_lt F w (dist F (a ! i) (b ! i))"
    and "w = f_zero F \<or> f_lt F (f_zero F) w \<and> (\<exists>i < min (length a) (length b). w = dist F (a ! i) (b ! i))"
    by (simp_all add: w_def max_abs_diff_def step_def)
qed

lemma max_abs_diff_le:
  assumes "ordered_floats F" and "\<not> f_nan F (f_zero F)"
  shows "f_le F (fst (max_abs_diff F a b)) tol \<longleftrightarrow>
    f_le F (f_zero F) tol \<and> (\<forall>i < min (length a) (length b). \<not> f_lt F tol (dist F (a ! i) (b ! i)))"
proof -
  let ?w = "fst (max_abs_diff F a b)"
  note ord = ordered_floatsD [OF assms(1)] and worst = max_abs_diff_worst [OF assms refl, of a b]
  have nan: "\<not> f_nan F x" "\<not> f_nan F y" if "f_le F x y" for x y
    using assms(1) that unfolding ordered_floats_def f_le_def by blast+
  show ?thesis
  proof (cases "?w = f_zero F")
    case True
    have "\<not> f_lt F tol (dist F (a ! i) (b ! i))" if "f_le F (f_zero F) tol" "i < min (length a) (length b)" for i
      using worst(1) that True ord(1,5) unfolding f_le_def by metis
    then show ?thesis using True by auto
  next
    case False
    then have pos: "f_lt F (f_zero F) ?w" and "\<exists>i < min (length a) (length b). ?w = dist F (a ! i) (b ! i)" using worst(2) by blast+
    then obtain j where j: "j < min (length a) (length b)" "?w = dist F (a ! j) (b ! j)" by blast
    have "\<not> f_nan F ?w" using nan(2) pos f_le_def by metis
    then have up: "f_le F ?w tol" if "f_le F (f_zero F) tol" "\<not> f_lt F tol ?w" using ord(3) nan(2) that unfolding f_le_def by blast
    have "f_le F (f_zero F) tol" if "f_le F ?w tol" using pos that ord(1,6) unfolding f_le_def by blast
    moreover have "\<not> f_lt F tol (dist F (a ! i) (b ! i))" if "f_le F ?w tol" "i < min (length a) (length b)" for i
      using worst(1) that ord(1,5) unfolding f_le_def by blast
    ultimately show ?thesis using up j by metis
  qed
qed

definition passes :: "u32 fops \<Rightarrow> (rstr \<Rightarrow> u8 list option) \<Rightarrow> 'g Bundle \<Rightarrow> u32 \<Rightarrow> check_step \<Rightarrow> bool" where
  "passes F fs b tol s \<longleftrightarrow>
     (case snd (snd s) of
        None \<Rightarrow> True
      | Some name \<Rightarrow> \<exists>golden. bundle_read fs b name = Inr golden \<and> agrees F tol (fst (snd s)) golden)"

lemma step_opt_frame: "cr_b (step_opt F fs ck l mine name) = cr_b ck" "cr_tol (step_opt F fs ck l mine name) = cr_tol ck"
  by (simp_all add: step_opt_def ck_compare_def push_check_def Let_def split: option.split sum.split)

lemma step_opt_failed:
  assumes "ordered_floats F" and "\<not> f_nan F (f_zero F)"
  shows "ck_failed (step_opt F fs ck l mine name) =
    ck_failed ck + (if passes F fs (cr_b ck) (cr_tol ck) (l, mine, name) then 0 else 1)"
  using max_abs_diff_le [OF assms, of mine _ "cr_tol ck"]
  by (auto simp: step_opt_def ck_compare_def push_check_def Let_def ck_failed_def is_failure_def passes_def agrees_def
      split: option.split sum.split)

lemma run_steps_failed:
  assumes "ordered_floats F" and "\<not> f_nan F (f_zero F)"
  shows "ck_failed (run_steps F fs ck steps) = ck_failed ck + length (filter (\<lambda>s. \<not> passes F fs (cr_b ck) (cr_tol ck) s) steps)"
  unfolding run_steps_def
proof (induction steps arbitrary: ck)
  case (Cons s steps)
  obtain l mine name where s: "s = (l, mine, name)" by (cases s)
  show ?case
    using Cons.IH [of "step_opt F fs ck l mine name"] step_opt_failed [OF assms, of fs ck l mine name] s
    by (simp add: step_opt_frame)
qed simp

lemma run_steps_pass:
  assumes "ordered_floats F" and "\<not> f_nan F (f_zero F)"
  shows "ck_failed (run_steps F fs (Checker_new b tol) steps) = 0 \<longleftrightarrow> (\<forall>s \<in> set steps. passes F fs b tol s)"
  using run_steps_failed [OF assms, of fs "Checker_new b tol" steps]
  by (auto simp: Checker_new_def ck_failed_def filter_empty_conv)

text \<open>The table never panics: what a checker holds can be compared.\<close>

definition comparable :: "u32 fops \<Rightarrow> Check \<Rightarrow> bool" where
  "comparable F c \<longleftrightarrow> ck_missing c \<or> \<not> f_nan F (ck_abs c)"

lemma step_opt_comparable:
  assumes "ordered_floats F" and "\<not> f_nan F (f_zero F)" and "\<not> f_nan F (f_inf F)"
    and "list_all (comparable F) (cr_checks ck)"
  shows "list_all (comparable F) (cr_checks (step_opt F fs ck l mine name))"
proof -
  have "\<not> f_nan F (fst (max_abs_diff F mine golden))" for golden
    using max_abs_diff_worst(2) [OF assms(1,2) refl, of mine golden] assms(1,2) unfolding ordered_floats_def by metis
  then show ?thesis using assms(3,4)
    by (simp add: step_opt_def ck_compare_def push_check_def Let_def comparable_def split: option.split sum.split)
qed

lemma run_steps_comparable:
  assumes "ordered_floats F" and "\<not> f_nan F (f_zero F)" and "\<not> f_nan F (f_inf F)"
  shows "list_all (comparable F) (cr_checks ck) \<Longrightarrow> list_all (comparable F) (cr_checks (run_steps F fs ck steps))"
  unfolding run_steps_def
  by (induction steps arbitrary: ck) (simp_all add: step_opt_comparable [OF assms] case_prod_unfold)

lemma max_check_total: "\<not> f_nan F (ck_abs c) \<Longrightarrow> list_all (\<lambda>c. \<not> f_nan F (ck_abs c)) cs \<Longrightarrow> \<exists>w. max_check F c cs = Inr w"
  by (induction cs arbitrary: c) auto

lemma describe_total:
  assumes "ordered_floats F" and "\<not> f_nan F (f_zero F)" and "\<not> f_nan F (f_inf F)"
  shows "\<exists>r. describe F (run_steps F fs (Checker_new b tol) steps) = Inr r"
proof -
  let ?ck = "run_steps F fs (Checker_new b tol) steps"
  have "list_all (comparable F) (cr_checks ?ck)" by (rule run_steps_comparable [OF assms]) (simp add: Checker_new_def)
  then have "list_all (\<lambda>c. \<not> f_nan F (ck_abs c)) (filter (\<lambda>c. \<not> ck_missing c) (cr_checks ?ck))"
    by (auto simp: list_all_iff comparable_def)
  then have "\<exists>w. worst_check F ?ck = Inr w"
    using max_check_total [of F] by (cases "filter (\<lambda>c. \<not> ck_missing c) (cr_checks ?ck)") (fastforce simp: worst_check_def)+
  then show ?thesis by (cases "first_failure ?ck") (auto simp: describe_def)
qed

section \<open>What a passed run says\<close>

lemma map_err_Inr [simp]: "map_err h r = Inr a \<longleftrightarrow> r = Inr a"
  by (cases r) (simp_all add: map_err_def)

text \<open>A layer passes when it runs on the recorded input and every captured tensor agrees.\<close>

definition layer_passes :: "'g GEnv \<Rightarrow> 'g Bundle \<Rightarrow> 'g ModelInfo \<Rightarrow> u32 list \<times> u32 list \<Rightarrow> u32 \<Rightarrow> nat \<Rightarrow> bool" where
  "layer_passes E b m rope tol layer \<longleftrightarrow>
     (\<exists>input ck tr. bundle_read (ge_fs E) b (input_name m layer) = Inr input \<and>
        verify_layer E b m layer input (Some rope) tol = Inr (ck, tr) \<and>
        (\<forall>s \<in> set (layer_steps (LayerCapture_new layer (ssm_ordinal m layer)) tr). passes (ge_F E) (ge_fs E) b tol s))"

lemma verify_layer_checker:
  "verify_layer E b m layer input rope tol = Inr (ck, tr) \<Longrightarrow>
   ck = run_steps (ge_F E) (ge_fs E) (Checker_new b tol) (layer_steps (LayerCapture_new layer (ssm_ordinal m layer)) tr)"
  by (auto simp: verify_layer_def Let_def)

lemma isolated_layer_passes:
  assumes "ordered_floats (ge_F E)" and "\<not> f_nan (ge_F E) (f_zero (ge_F E))"
    and "isolated_layer E b m rope tol layer = Inr False"
  shows "layer_passes E b m rope tol layer"
proof -
  from assms(3) obtain input ck tr where v: "bundle_read (ge_fs E) b (input_name m layer) = Inr input"
      "verify_layer E b m layer input (Some rope) tol = Inr (ck, tr)" "ck_failed ck = 0"
    by (auto simp: isolated_layer_def split: sum.splits if_splits)
  with run_steps_pass [OF assms(1,2)] verify_layer_checker [OF v(2)] show ?thesis unfolding layer_passes_def by metis
qed

lemma isolated_False:
  "isolated E b m rope tol layers any_failed = Inr False \<Longrightarrow>
   \<not> any_failed \<and> (\<forall>layer \<in> set layers. isolated_layer E b m rope tol layer = Inr False)"
  by (induction layers arbitrary: any_failed) fastforce+

text \<open>A chain passes when every layer does on the output of the one before.\<close>

primrec chain_passes :: "'g GEnv \<Rightarrow> 'g Bundle \<Rightarrow> 'g ModelInfo \<Rightarrow> u32 list \<times> u32 list \<Rightarrow> u32 \<Rightarrow> nat list \<Rightarrow> u32 list \<Rightarrow> bool" where
  "chain_passes E b m rope tol [] input \<longleftrightarrow> True"
| "chain_passes E b m rope tol (layer # run) input \<longleftrightarrow>
     (\<exists>ck tr. verify_layer E b m layer input (Some rope) tol = Inr (ck, tr) \<and>
        (\<forall>s \<in> set (layer_steps (LayerCapture_new layer (ssm_ordinal m layer)) tr). passes (ge_F E) (ge_fs E) b tol s) \<and>
        chain_passes E b m rope tol run (lt_out tr))"

lemma chain_loop_passes:
  assumes "ordered_floats (ge_F E)" and "\<not> f_nan (ge_F E) (f_zero (ge_F E))"
  shows "chain_loop E b m rope tol run input any_failed = Inr False \<Longrightarrow> \<not> any_failed \<and> chain_passes E b m rope tol run input"
proof (induction run arbitrary: input any_failed)
  case (Cons layer run)
  then obtain ck tr where v: "verify_layer E b m layer input (Some rope) tol = Inr (ck, tr)"
      "chain_loop E b m rope tol run (lt_out tr) (any_failed \<or> 0 < ck_failed ck) = Inr False"
    by (auto split: sum.splits if_splits)
  from Cons.IH [OF v(2)] have "\<not> any_failed" "ck_failed ck = 0" "chain_passes E b m rope tol run (lt_out tr)" by simp_all
  with run_steps_pass [OF assms] verify_layer_checker [OF v(1)] v(1) show ?case unfolding chain_passes.simps by metis
qed simp

lemma chained_passes:
  assumes "ordered_floats (ge_F E)" and "\<not> f_nan (ge_F E) (f_zero (ge_F E))" and "chained E b m rope tol any_failed = Inr False"
  shows "\<not> any_failed \<and> (\<exists>input. bundle_read (ge_fs E) b (input_name m 0) = Inr input \<and>
    chain_passes E b m rope tol [0..<mi_num_layers m] input)"
proof -
  from assms(3) obtain input where "bundle_read (ge_fs E) b (input_name m (chain_layers m ! 0)) = Inr input"
      "chain_loop E b m rope tol (chain_layers m) input any_failed = Inr False" "chain_layers m \<noteq> []"
    by (auto simp: chained_def Let_def split: sum.splits)
  with chain_loop_passes [OF assms(1,2)] show ?thesis by (fastforce simp: chain_layers_def)
qed

text \<open>The greedy trace: every token is the recorded one, and the logits it was read from agree with the recorded
  ones where both have a value, for the steps whose logits are recorded.\<close>

definition logits_near :: "u32 fops \<Rightarrow> u32 \<Rightarrow> u32 ModelTrace \<Rightarrow> u32 list \<Rightarrow> bool" where
  "logits_near F tol tr golden \<longleftrightarrow>
     (\<exists>mine. last_logits tr = Inr mine \<and> (\<forall>i < min (length mine) (length golden). \<not> f_lt F tol (dist F (mine ! i) (golden ! i))))"

lemma f_max_bound:
  assumes "ordered_floats F" and "\<not> f_nan F a" and "\<not> f_nan F b"
  shows "\<not> f_nan F (f_max F a b)" and "\<not> f_lt F (f_max F a b) a" and "\<not> f_lt F (f_max F a b) b"
proof -
  have "f_lt F a b \<Longrightarrow> \<not> f_lt F b a" using ordered_floatsD(1,2) [OF assms(1)] by metis
  then show "\<not> f_nan F (f_max F a b)" and "\<not> f_lt F (f_max F a b) a" and "\<not> f_lt F (f_max F a b) b"
    using assms(2,3) ordered_floatsD(2) [OF assms(1)] by (simp_all add: f_max_def)
qed

lemma logits_near_mono:
  assumes "ordered_floats F" and "\<not> f_nan F w" and "logits_near F w tr golden" and "\<not> f_lt F tol w"
  shows "logits_near F tol tr golden"
proof -
  have "\<not> f_lt F tol d" if "\<not> f_lt F w d" for d
    using not_lt_trans [OF assms(1), of d w tol] that assms(1,2,4) unfolding ordered_floats_def by metis
  then show ?thesis using assms(3) unfolding logits_near_def by meson
qed

lemma step_logits_bound:
  assumes "ordered_floats (ge_F E)" and "\<not> f_nan (ge_F E) (f_zero (ge_F E))" and "\<not> f_nan (ge_F E) w"
    and "step_logits E b (\<lambda>k. if k < length traces then Some (traces ! k) else None) k w = Inr w'"
  shows "\<not> f_nan (ge_F E) w' \<and> \<not> f_lt (ge_F E) w' w \<and>
    (\<forall>golden. bundle_read (ge_fs E) b (step_name k) = Inr golden \<longrightarrow> logits_near (ge_F E) w' (traces ! k) golden)"
proof (cases "bundle_read (ge_fs E) b (step_name k)")
  case (Inl e)
  then show ?thesis using assms(3,4) ordered_floatsD(2) [OF assms(1)] by (auto simp: step_logits_def)
next
  case (Inr golden)
  let ?F = "ge_F E"
  from assms(4) Inr obtain mine where mine: "last_logits (traces ! k) = Inr mine"
      "w' = f_max ?F w (fst (max_abs_diff ?F mine golden))" by (auto simp: step_logits_def split: if_splits option.splits)
  let ?d = "fst (max_abs_diff ?F mine golden)"
  note worst = max_abs_diff_worst [OF assms(1,2) refl, of mine golden]
  have d: "\<not> f_nan ?F ?d" using worst(2) assms(1,2) unfolding ordered_floats_def by metis
  have "logits_near ?F ?d (traces ! k) golden" using worst(1) mine(1) by (simp add: logits_near_def)
  then have "logits_near ?F w' (traces ! k) golden"
    using logits_near_mono [OF assms(1) d] f_max_bound [OF assms(1,3) d] mine(2) by simp
  then show ?thesis using f_max_bound [OF assms(1,3) d] mine(2) Inr by simp
qed

lemma greedy_check_passes:
  assumes "ordered_floats (ge_F E)" and "\<not> f_nan (ge_F E) (f_zero (ge_F E))"
  shows "greedy_check E b gen traces steps n w = Inr (n', w') \<Longrightarrow> \<not> f_nan (ge_F E) w \<Longrightarrow>
    n' \<le> n + length steps \<and> \<not> f_nan (ge_F E) w' \<and> \<not> f_lt (ge_F E) w' w \<and>
    (\<forall>s \<in> set steps. fst s < length gen \<and> (n' = n + length steps \<longrightarrow> gen ! fst s = gs_argmax_token (snd s)) \<and>
      (\<forall>golden. bundle_read (ge_fs E) b (step_name (fst s)) = Inr golden \<longrightarrow> logits_near (ge_F E) w' (traces ! fst s) golden))"
proof (induction steps arbitrary: n w)
  case Nil
  then show ?case using ordered_floatsD(2) [OF assms(1)] by simp
next
  case (Cons s steps)
  let ?F = "ge_F E" and ?n = "if gen ! fst s = gs_argmax_token (snd s) then n + 1 else n"
  from Cons.prems(1) obtain w1 where w1: "step_logits E b (\<lambda>k. if k < length traces then Some (traces ! k) else None) (fst s) w = Inr w1"
    and k: "fst s < length gen" and rest: "greedy_check E b gen traces steps ?n w1 = Inr (n', w')"
    by (auto simp: Let_def not_le)
  note st = step_logits_bound [OF assms Cons.prems(2) w1]
  note IH = Cons.IH [OF rest conjunct1 [OF st]]
  have "\<not> f_lt ?F w' w" using not_lt_trans [OF assms(1), of w w1 w'] st IH Cons.prems(2) by blast
  moreover have "logits_near ?F w' (traces ! fst s) golden" if "bundle_read (ge_fs E) b (step_name (fst s)) = Inr golden" for golden
    using logits_near_mono [OF assms(1), of w1 "traces ! fst s" golden w'] st IH that by blast
  ultimately show ?case using IH k by (auto split: if_splits)
qed

text \<open>What the whole model is checked for.\<close>

definition model_passes :: "'g GEnv \<Rightarrow> 'g Bundle \<Rightarrow> 'g ModelInfo \<Rightarrow> u32 \<Rightarrow> bool \<Rightarrow> bool" where
  "model_passes E b m tol use_cache \<longleftrightarrow>
     (\<exists>mw0 ls tr gen traces. load_model_weights (ge_fs E) b m = Inr mw0 \<and> load_all_layers (ge_fs E) b m = Inr ls \<and>
        (let mw = mw0\<lparr>mw_layers := ls\<rparr>; prompt = mf_prompt_ids (bu_manifest b);
             gsteps = gr_steps (mf_greedy (bu_manifest b)) in
         forward (ge_N E) (info_config m) mw prompt = Inr tr \<and>
         (\<forall>s \<in> set (model_steps tr). passes (ge_F E) (ge_fs E) b tol s) \<and>
         (if use_cache then greedy_cached else greedy) (ge_N E) (info_config m) mw prompt (length gsteps) = Inr (gen, traces) \<and>
         prompt @ gen = gr_final_ids (mf_greedy (bu_manifest b)) \<and>
         (\<forall>k < length gsteps. k < length gen \<and> gen ! k = gs_argmax_token (gsteps ! k) \<and>
            (\<forall>golden. bundle_read (ge_fs E) b (step_name k) = Inr golden \<longrightarrow> logits_near (ge_F E) tol (traces ! k) golden))))"

lemma model_mode_passes:
  assumes "ordered_floats (ge_F E)" and "\<not> f_nan (ge_F E) (f_zero (ge_F E))"
    and "model_mode E b m tol use_cache any_failed = Inr False"
  shows "\<not> any_failed \<and> model_passes E b m tol use_cache"
proof -
  let ?F = "ge_F E" and ?p = "mf_prompt_ids (bu_manifest b)" and ?gs = "gr_steps (mf_greedy (bu_manifest b))"
  from assms(3) obtain mw0 ls tr gen traces token_ok worst where l: "load_model_weights (ge_fs E) b m = Inr mw0"
      "load_all_layers (ge_fs E) b m = Inr ls" "forward (ge_N E) (info_config m) (mw0\<lparr>mw_layers := ls\<rparr>) ?p = Inr tr"
    and g: "(if use_cache then greedy_cached else greedy) (ge_N E) (info_config m) (mw0\<lparr>mw_layers := ls\<rparr>) ?p (length ?gs) = Inr (gen, traces)"
    and c: "greedy_check E b gen traces (List.enumerate 0 ?gs) 0 (f_zero ?F) = Inr (token_ok, worst)"
    and v: "\<not> any_failed" "ck_failed (run_steps ?F (ge_fs E) (Checker_new b tol) (model_steps tr)) = 0"
      "token_ok = length ?gs" "\<not> f_lt ?F tol worst" "?p @ gen = gr_final_ids (mf_greedy (bu_manifest b))"
    unfolding model_mode_def Let_def try_bind_Inr map_err_Inr
    by (cases use_cache) (auto simp: try_bind_Inr)
  note gc = greedy_check_passes [OF assms(1,2) c assms(2)]
  have "k < length gen \<and> gen ! k = gs_argmax_token (?gs ! k) \<and>
      (\<forall>golden. bundle_read (ge_fs E) b (step_name k) = Inr golden \<longrightarrow> logits_near ?F tol (traces ! k) golden)" if "k < length ?gs" for k
  proof -
    have "(k, ?gs ! k) \<in> set (List.enumerate 0 ?gs)" using that by (simp add: in_set_enumerate_eq)
    with gc v(3) have "k < length gen" "gen ! k = gs_argmax_token (?gs ! k)"
      "\<forall>golden. bundle_read (ge_fs E) b (step_name k) = Inr golden \<longrightarrow> logits_near ?F worst (traces ! k) golden" by force+
    moreover have "\<not> f_nan ?F worst" using gc by blast
    ultimately show ?thesis using logits_near_mono [OF assms(1) _ _ v(4)] by blast
  qed
  moreover have "\<forall>s \<in> set (model_steps tr). passes ?F (ge_fs E) b tol s"
    using run_steps_pass [OF assms(1,2), THEN iffD1, OF v(2)] .
  ultimately show ?thesis using l g v(1,5) unfolding model_passes_def Let_def by blast
qed

lemma layer_modes_pass:
  assumes "ordered_floats (ge_F E)" and "\<not> f_nan (ge_F E) (f_zero (ge_F E))"
    and "Option.bind (arg_val args (lit ''--layer'')) parse_usize = None" and "layer_modes E args b m tol = Inr False"
  shows "\<not> rope_failed E b m tol \<and> (\<exists>rope. load_rope (ge_fs E) b m = Inr rope \<and>
    (\<forall>layer < mi_num_layers m. layer_passes E b m rope tol layer) \<and>
    (has_flag args (lit ''--chain'') \<longrightarrow> (\<exists>input. bundle_read (ge_fs E) b (input_name m 0) = Inr input \<and>
       chain_passes E b m rope tol [0..<mi_num_layers m] input)))"
proof -
  from assms(3,4) obtain rope any_failed where r: "load_rope (ge_fs E) b m = Inr rope"
      "isolated E b m rope tol [0..<mi_num_layers m] (rope_failed E b m tol) = Inr any_failed"
    and c: "if has_flag args (lit ''--chain'') then chained E b m rope tol any_failed = Inr False else \<not> any_failed"
    by (auto simp: layer_modes_def Let_def simp del: lit_simps split: if_splits)
  from c chained_passes [OF assms(1,2), of b m rope tol any_failed] have "\<not> any_failed" by (auto simp del: lit_simps split: if_splits)
  with isolated_False [of E b m rope tol "[0..<mi_num_layers m]"] r(2) have "\<not> rope_failed E b m tol"
    "\<forall>layer \<in> set [0..<mi_num_layers m]. isolated_layer E b m rope tol layer = Inr False" by auto
  moreover have "\<exists>input. bundle_read (ge_fs E) b (input_name m 0) = Inr input \<and> chain_passes E b m rope tol [0..<mi_num_layers m] input"
    if "has_flag args (lit ''--chain'')"
    using c chained_passes [OF assms(1,2), of b m rope tol any_failed] that by (auto simp del: lit_simps)
  ultimately show ?thesis using r(1) isolated_layer_passes [OF assms(1,2)] by auto
qed

text \<open>Success is never an early return of the modes, \<open>--layer\<close> apart.\<close>

lemma guard_err_Inl: "guard_err c e k = Inl e' \<longleftrightarrow> (if c then e = e' else k = Inl e')"
  by simp

lemma map_err_Inl: "map_err h r = Inl e \<longleftrightarrow> (\<exists>e'. r = Inl e' \<and> e = h e')"
  by (cases r) (auto simp: map_err_def)

lemma exit_codes: "net_exit e \<noteq> SUCCESS" "load_exit le \<noteq> SUCCESS" "verify_exit ve \<noteq> SUCCESS"
proof -
  show net: "net_exit e \<noteq> SUCCESS" for e by (cases e) simp_all
  show "load_exit le \<noteq> SUCCESS" by (cases le) simp_all
  show "verify_exit ve \<noteq> SUCCESS" using net by (cases ve) simp_all
qed

lemmas exit_simps = try_bind_Inl guard_err_Inl map_err_Inl exit_codes exit_codes [symmetric]

lemma describe_exit: "describe F ck \<noteq> Inl SUCCESS"
proof -
  have "max_check F c cs \<noteq> Inl SUCCESS" for c cs by (induction cs arbitrary: c) (simp_all add: exit_simps)
  then show ?thesis by (auto simp: describe_def worst_check_def exit_simps split: option.splits list.splits)
qed

lemma modes_exit:
  "isolated E b m rope tol layers a \<noteq> Inl SUCCESS" "chained E b m rope tol a \<noteq> Inl SUCCESS" "model_mode E b m tol use_cache a \<noteq> Inl SUCCESS"
proof -
  have "isolated_layer E b m rope tol layer \<noteq> Inl SUCCESS" for layer
    by (auto simp: isolated_layer_def exit_simps describe_exit split: sum.splits if_splits)
  then show "isolated E b m rope tol layers a \<noteq> Inl SUCCESS" by (induction layers arbitrary: a) (auto simp: exit_simps)
  have "chain_loop E b m rope tol run input a \<noteq> Inl SUCCESS" for run input
    by (induction run arbitrary: input a) (auto simp: exit_simps describe_exit split: sum.splits if_splits)
  then show "chained E b m rope tol a \<noteq> Inl SUCCESS" by (auto simp: chained_def Let_def exit_simps split: sum.splits)
  have "step_logits E b traces k w \<noteq> Inl SUCCESS" for traces k w
    by (auto simp: step_logits_def ranking_def exit_simps split: sum.splits option.splits)
  then have "greedy_check E b gen traces steps n w \<noteq> Inl SUCCESS" for gen traces steps n w
    by (induction steps arbitrary: n w) (auto simp: Let_def exit_simps)
  then show "model_mode E b m tol use_cache a \<noteq> Inl SUCCESS" by (auto simp: model_mode_def Let_def exit_simps)
qed

text \<open>C22. A run of \<open>gdncheck\<close> that ends with success, without \<open>--layer\<close>, has found what it promises: the bundle opens
  and loads, the rotary tables are within the tolerance, every layer run on its recorded input reproduces every tensor
  captured for it, with \<open>--chain\<close> so does the stack fed with its own outputs, and with \<open>--model\<close> the whole model
  reproduces embedding, layer outputs, norm and logits, and decodes exactly the recorded tokens. (A distance that
  is a NaN counts as within the tolerance.)\<close>

theorem gdncheck_pass_sound:
  assumes "ordered_floats (ge_F E)" and "\<not> f_nan (ge_F E) (f_zero (ge_F E))"
    and "Option.bind (arg_val args (lit ''--layer'')) parse_usize = None" and "gdncheck E args = SUCCESS"
  shows "\<exists>dir b m rope tol. List.find (\<lambda>a. \<not> starts_with a (lit ''--'')) (drop 1 args) = Some dir \<and>
    Bundle_open (ge_fs E) (ge_manifest E) dir = Inr b \<and> bundle_load_model (ge_casts E) b = Inr m \<and>
    tol = tolerance_for E (mi_ssm_gain m) \<and> load_rope (ge_fs E) b m = Inr rope \<and> \<not> rope_failed E b m tol \<and>
    (\<forall>layer < mi_num_layers m. layer_passes E b m rope tol layer) \<and>
    (has_flag args (lit ''--chain'') \<longrightarrow> (\<exists>input. bundle_read (ge_fs E) b (input_name m 0) = Inr input \<and>
       chain_passes E b m rope tol [0..<mi_num_layers m] input)) \<and>
    (has_flag args (lit ''--model'') \<longrightarrow> model_passes E b m tol (has_flag args (lit ''--cached'')))"
proof -
  have v: "gdncheck_verdict E args = Inr False \<or> gdncheck_verdict E args = Inl SUCCESS"
    using assms(4) by (auto simp: gdncheck_def split: sum.splits if_splits)
  have lm: "layer_modes E args b m tol \<noteq> Inl SUCCESS" for b m tol
    using assms(3) modes_exit(1,2) [of E b m _ tol] by (auto simp: layer_modes_def Let_def exit_simps simp del: lit_simps)
  have "gdncheck_verdict E args \<noteq> Inl SUCCESS"
    using lm by (auto simp: gdncheck_verdict_def Let_def exit_simps modes_exit simp del: lit_simps split: option.splits)
  with v obtain dir b m any_failed where o: "List.find (\<lambda>a. \<not> starts_with a (lit ''--'')) (drop 1 args) = Some dir"
      "Bundle_open (ge_fs E) (ge_manifest E) dir = Inr b" "bundle_load_model (ge_casts E) b = Inr m"
    and l: "layer_modes E args b m (tolerance_for E (mi_ssm_gain m)) = Inr any_failed"
    and r: "if has_flag args (lit ''--model'') \<or> has_flag args (lit ''--greedy'')
       then model_mode E b m (tolerance_for E (mi_ssm_gain m)) (has_flag args (lit ''--cached'')) any_failed = Inr False else \<not> any_failed"
    by (auto simp: gdncheck_verdict_def Let_def simp del: lit_simps split: option.splits if_splits)
  let ?tol = "tolerance_for E (mi_ssm_gain m)"
  have mm: "\<not> any_failed \<and> (has_flag args (lit ''--model'') \<longrightarrow> model_passes E b m ?tol (has_flag args (lit ''--cached'')))"
    using r model_mode_passes [OF assms(1,2), of b m ?tol "has_flag args (lit ''--cached'')" any_failed]
    by (cases "has_flag args (lit ''--model'') \<or> has_flag args (lit ''--greedy'')") (auto simp del: lit_simps)
  with l have "layer_modes E args b m ?tol = Inr False" by simp
  from layer_modes_pass [OF assms(1-3) this] mm o show ?thesis by blast
qed

section \<open>The cached run\<close>

lemma forward_tokens_ok: "forward N mcfg w ids = Inr tr \<Longrightarrow> tokens_ok mcfg ids"
proof -
  assume "forward N mcfg w ids = Inr tr"
  then obtain e where "ids \<noteq> []" "embed (mw_embed_tokens w) ids (mc_vocab mcfg) (mc_hidden mcfg) = Inr e"
    by (auto simp: forward_def Let_def)
  moreover have "embed t ids v h = Inr e \<Longrightarrow> list_all (\<lambda>tok. tok < v) ids" for t v h e
    by (induction ids arbitrary: e) (auto simp: assert_that_def)
  ultimately show ?thesis by (simp add: tokens_ok_def)
qed

lemma greedy_check_cong:
  assumes "map last_logits trs = map last_logits trs'"
  shows "greedy_check E b gen trs steps n w = greedy_check E b gen trs' steps n w"
proof -
  have len: "length trs = length trs'" using assms by (metis length_map)
  have nth: "last_logits (trs ! k) = last_logits (trs' ! k)" if "k < length trs'" for k
    using assms that len by (metis nth_map)
  have "step_logits E b (\<lambda>k. if k < length trs then Some (trs ! k) else None) k w =
      step_logits E b (\<lambda>k. if k < length trs' then Some (trs' ! k) else None) k w" for k w
    using len nth [of k] by (auto simp: step_logits_def split: sum.split)
  then show ?thesis using len by (induction steps arbitrary: n w) simp_all
qed

lemma model_mode_cached:
  assumes "bundle_load_model C b = Inr m" and "sizes_fit (info_config m) (mi_intermediate m)" and "mi_vocab m \<le> 2 ^ 32"
  shows "model_mode E b m tol True a = model_mode E b m tol False a"
proof -
  let ?p = "mf_prompt_ids (bu_manifest b)" and ?n = "length (gr_steps (mf_greedy (bu_manifest b)))"
  {
    fix mw0 ls tr
    assume l: "load_model_weights (ge_fs E) b m = Inr mw0" "load_all_layers (ge_fs E) b m = Inr ls"
      and f: "forward (ge_N E) (info_config m) (mw0\<lparr>mw_layers := ls\<rparr>) ?p = Inr tr"
    note tok = forward_tokens_ok [OF f]
    then have "vocab_ok (info_config m)" using assms(3) by (cases ?p) (auto simp: tokens_ok_def vocab_ok_def info_config_def)
    moreover have "model_ok (info_config m) (mw0\<lparr>mw_layers := ls\<rparr>)" using loaded_bundle_model_ok [OF assms(1) l(2,1) assms(2)] by blast
    ultimately obtain ids trs trs' where
      "greedy_cached (ge_N E) (info_config m) (mw0\<lparr>mw_layers := ls\<rparr>) ?p ?n = Inr (ids, trs)"
      "greedy (ge_N E) (info_config m) (mw0\<lparr>mw_layers := ls\<rparr>) ?p ?n = Inr (ids, trs')" "map last_logits trs = map last_logits trs'"
      using greedy_cached_is_greedy [OF _ _ tok] by blast
    with l f have ?thesis by (simp add: model_mode_def Let_def map_err_def greedy_check_cong [of trs trs'])
  }
  moreover have ?thesis if "\<nexists>mw0 ls tr. load_model_weights (ge_fs E) b m = Inr mw0 \<and> load_all_layers (ge_fs E) b m = Inr ls \<and>
      forward (ge_N E) (info_config m) (mw0\<lparr>mw_layers := ls\<rparr>) ?p = Inr tr"
    using that by (auto simp: model_mode_def Let_def map_err_def try_bind_def split: sum.splits)
  ultimately show ?thesis by blast
qed

lemma arg_val_snoc:
  "arg_val (args @ [x]) name = arg_val args name \<or> arg_val args name = None \<and> arg_val (args @ [x]) name = Some x"
proof (induction args)
  case (Cons a args)
  have "arg_val (a # as) name = (if a = name then (case as of [] \<Rightarrow> None | v # _ \<Rightarrow> Some v) else arg_val as name)" for as
    by (simp add: arg_val_def split: list.split)
  then show ?case using Cons by (auto split: list.splits)
qed (simp add: arg_val_def)

lemma find_append_Some: "List.find P xs = Some d \<Longrightarrow> List.find P (xs @ ys) = Some d"
  by (induction xs) (auto split: if_splits)

lemma layer_option_cached:
  "Option.bind (arg_val (args @ [lit ''--cached'']) (lit ''--layer'')) parse_usize = Option.bind (arg_val args (lit ''--layer'')) parse_usize"
proof -
  have "parse_usize (lit ''--cached'') = None" by (simp add: parse_usize_def is_digit_def)
  then show ?thesis using arg_val_snoc [of args "lit ''--cached''" "lit ''--layer''"] by (auto simp del: lit_simps)
qed

text \<open>C23. The verdict does not depend on the cache: \<open>--cached\<close> changes neither the exit code of \<open>gdncheck\<close> nor, with it,
  whether any tensor, logit or token is found wrong, for every bundle whose sizes fit and whose vocabulary fits
  the token type.\<close>

theorem gdncheck_cached_same:
  assumes "List.find (\<lambda>a. \<not> starts_with a (lit ''--'')) (drop 1 args) = Some dir"
    and "Bundle_open (ge_fs E) (ge_manifest E) dir = Inr b" and "bundle_load_model (ge_casts E) b = Inr m"
    and "sizes_fit (info_config m) (mi_intermediate m)" and "mi_vocab m \<le> 2 ^ 32"
  shows "gdncheck E (args @ [lit ''--cached'']) = gdncheck E args"
proof -
  let ?c = "lit ''--cached''"
  have "args \<noteq> []" using assms(1) by auto
  then have dir: "List.find (\<lambda>a. \<not> starts_with a (lit ''--'')) (drop 1 (args @ [?c])) = Some dir"
    using find_append_Some [OF assms(1)] by (cases args) (simp_all del: lit_simps)
  have flags: "has_flag (args @ [?c]) f = has_flag args f" if "f \<noteq> ?c" for f using that by (simp add: has_flag_def del: lit_simps)
  have "lit ''--model'' \<noteq> ?c" "lit ''--greedy'' \<noteq> ?c" "lit ''--chain'' \<noteq> ?c" by simp_all
  note flags = flags [OF this(1)] flags [OF this(2)] flags [OF this(3)]
  have layers: "layer_modes E (args @ [?c]) b m tol = layer_modes E args b m tol" for tol
    unfolding layer_modes_def flags layer_option_cached ..
  have mm: "model_mode E b m tol c1 a = model_mode E b m tol c2 a" for tol c1 c2 a
    using model_mode_cached [OF assms(3-5), of E tol a] by (cases c1; cases c2) simp_all
  have "gdncheck_verdict E (args @ [?c]) = gdncheck_verdict E args"
    unfolding gdncheck_verdict_def dir assms(1) flags using assms(2,3) layers
      mm [where ?c1.0 = "has_flag (args @ [?c]) ?c" and ?c2.0 = "has_flag args ?c"]
    by (simp add: map_err_def Let_def del: lit_simps cong: if_cong)
  then show ?thesis by (simp add: gdncheck_def)
qed

section \<open>Values that are no numbers\<close>

text \<open>A tensor of NaNs passes every comparison: the largest distance starts at zero and a NaN never exceeds it, so
  a layer whose whole output is NaN is reported with an error of zero and counts as reproduced.\<close>

lemma nan_output_passes:
  assumes "ordered_floats F" and "f_le F (f_zero F) (cr_tol ck)" and "bundle_read fs (cr_b ck) name = Inr golden"
    and "length mine = length golden" and "\<forall>x \<in> set mine. \<forall>y. f_nan F (f_abs F (f_sub F x y))"
  shows "\<exists>c. cr_checks (step_opt F fs ck label mine (Some name)) = cr_checks ck @ [c] \<and> ck_ok c \<and> ck_abs c = f_zero F"
proof -
  have "\<not> f_lt F (f_zero F) (f_abs F (f_sub F (mine ! i) y))" if "i < length mine" for i y
    using assms(1,5) that unfolding ordered_floats_def by (meson nth_mem)
  then have "fst (foldl (\<lambda>(worst, pos) i. let d = f_abs F (f_sub F (mine ! i) (golden ! i)) in if f_lt F worst d then (d, i) else (worst, pos))
      (f_zero F, 0) [0..<n]) = f_zero F" if "n \<le> length mine" for n
    using that by (induction n) (auto simp: Let_def case_prod_unfold)
  then have "fst (max_abs_diff F mine golden) = f_zero F" by (simp add: max_abs_diff_def)
  then show ?thesis using assms(2-4) by (simp add: step_opt_def ck_compare_def push_check_def Let_def)
qed

section \<open>Witnesses\<close>

text \<open>The bundle of one layer, with an arithmetic in which every result is zero.\<close>

definition gc_F :: "'a::zero fops" where
  "gc_F = \<lparr>f_zero = 0, f_one = 0, f_neg_inf = 0, f_inf = 0, f_sum_start = 0, f_add = (\<lambda>_ _. 0), f_sub = (\<lambda>_ _. 0), f_mul = (\<lambda>_ _. 0),
     f_div = (\<lambda>_ _. 0), f_neg = (\<lambda>_. 0), f_abs = (\<lambda>_. 0), f_exp = (\<lambda>_. 0), f_ln = (\<lambda>_. 0), f_sqrt = (\<lambda>_. 0), f_of_nat = (\<lambda>_. 0),
     f_lt = (\<lambda>_ _. False), f_eq = (\<lambda>_ _. True), f_finite = (\<lambda>_. True)\<rparr>"

definition gc_N :: "(u32, nat) nops" where
  "gc_N = \<lparr>n_ops = \<lparr>s32 = gc_F, s64 = gc_F, widen = (\<lambda>_. 0), narrow = (\<lambda>_. 0)\<rparr>, n_powf = (\<lambda>_ _. 0), n_cos = (\<lambda>_. 0),
     n_sin = (\<lambda>_. 0), n_20 = 0, n_1e6 = 0, n_neg_half = 0, n_threads = 1\<rparr>"

definition gc_E :: "nat GEnv" where
  "gc_E = \<lparr>ge_fs = ld_ex_fs, ge_manifest = (\<lambda>_. Some (bu_manifest ld_ex)), ge_casts = ld_ex_C, ge_N = gc_N, ge_TOL = 0\<rparr>"

definition gc_args :: "rstr list" where
  "gc_args = map lit [''gdncheck'', ''g'', ''--chain'', ''--model'']"

lemma gc_ops:
  "f32 gc_N = gc_F" "f64 gc_N = gc_F" "to32 gc_N x = 0" "to64 gc_N y = 0" "n_threads gc_N = 1" "n_cos gc_N y = 0" "n_sin gc_N y = 0"
  "f_zero gc_F = 0" "f_add gc_F a b = 0" "f_sub gc_F a b = 0" "f_mul gc_F a b = 0" "f_div gc_F a b = 0" "f_neg gc_F a = 0" "f_abs gc_F a = 0"
  "f_exp gc_F a = 0" "f_ln gc_F a = 0" "f_lt gc_F a b \<longleftrightarrow> False" "f_eq gc_F a b \<longleftrightarrow> True" "f_le gc_F a b \<longleftrightarrow> True" "f_nan gc_F a \<longleftrightarrow> False"
  by (simp_all add: gc_N_def gc_F_def f_le_def f_nan_def)

lemma gc_ordered: "ordered_floats gc_F"
  by (simp add: ordered_floats_def gc_ops)

lemma gc_env: "ge_fs gc_E = ld_ex_fs" "ge_casts gc_E = ld_ex_C" "ge_N gc_E = gc_N"
  by (simp_all add: gc_E_def)

lemma gc_opens: "Bundle_open ld_ex_fs (ge_manifest gc_E) (lit ''g'') = Inr ld_ex"
proof -
  have index: "distinct (map fst t) \<Longrightarrow> fst ` set t \<inter> fst ` set idx = {} \<Longrightarrow>
      index_tensors (map (snd \<circ> ld_ex_entry) t) idx = Inr (idx @ map ld_ex_entry t)" for t idx
  proof (induction t arbitrary: idx)
    case (Cons x t)
    have e: "te_name (snd (ld_ex_entry x)) = fst x" "ld_ex_entry x = (fst x, snd (ld_ex_entry x))"
      by (simp_all add: ld_ex_entry_def case_prod_unfold)
    have "map_of idx (fst x) = None" using Cons.prems(2) by (auto simp: map_of_eq_None_iff)
    moreover have "k \<notin> fst ` set al \<Longrightarrow> AList.update k v al = al @ [(k, v)]" for k v and al :: "(rstr \<times> TensorEntry) list"
      by (induction al) auto
    then have "AList.update (fst x) (snd (ld_ex_entry x)) idx = idx @ [ld_ex_entry x]" using Cons.prems(2) e(2) by auto
    moreover have "fst (ld_ex_entry x) = fst x" using e(2) by (metis fst_conv)
    ultimately show ?case using Cons.IH [of "idx @ [ld_ex_entry x]"] Cons.prems e(1) by auto
  qed simp
  have "index_tensors (mf_tensors (bu_manifest ld_ex)) [] = Inr (map ld_ex_entry ld_ex_table)"
    using index [OF ld_ex_distinct, of "[]"] by (simp add: ld_ex_def)
  moreover have "path_join (lit ''g'') (lit ''manifest.json'') = lit ''g/manifest.json''"
    by (simp add: path_join_def starts_with_def ends_with_def)
  ultimately show ?thesis
    by (simp add: Bundle_open_def gc_E_def ld_ex_fs_def ld_ex_def bu_ex_def del: lit_simps)
qed

lemma gc_fits: "sizes_fit (info_config ld_ex_info) (mi_intermediate ld_ex_info)" "mi_vocab ld_ex_info \<le> 2 ^ 32"
  by (simp_all add: sizes_fit_def info_config_def ld_ex_info_def ld_ex_gdn_def ld_ex_attn_def conv_dim_def key_dim_def value_dim_def
      q_out_dim_def kv_out_dim_def)

lemma gc_dir: "List.find (\<lambda>a. \<not> starts_with a (lit ''--'')) (drop 1 gc_args) = Some (lit ''g'')"
  by code_simp

theorem gdncheck_cached_same_witness: "gdncheck gc_E (gc_args @ [lit ''--cached'']) = gdncheck gc_E gc_args"
  by (rule gdncheck_cached_same [OF gc_dir gc_opens [folded gc_env] ld_ex_loads [folded gc_env] gc_fits])

definition nan_F :: "u32 fops" where
  "nan_F = gc_F\<lparr>f_sub := (\<lambda>a b. if a = f32_NAN \<or> b = f32_NAN then f32_NAN else a - b), f_abs := id,
     f_lt := (\<lambda>a b. a \<noteq> f32_NAN \<and> b \<noteq> f32_NAN \<and> a < b), f_eq := (\<lambda>a b. a \<noteq> f32_NAN \<and> a = b)\<rparr>"

theorem nan_output_passes_witness:
  "\<exists>c. cr_checks (step_opt nan_F ld_ex_fs (Checker_new ld_ex 0) (lit ''out'') [f32_NAN] (Some (lit ''model__layers__0''))) = [c] \<and> ck_ok c"
proof -
  have "ordered_floats nan_F" "f_le nan_F (f_zero nan_F) 0"
    by (auto simp: ordered_floats_def nan_F_def f_nan_def f_le_def gc_F_def f32_NAN_def)
  moreover have "bundle_read ld_ex_fs ld_ex (lit ''model__layers__0'') = Inr [0]" using ld_ex_read [OF ld_ex_rows(2)] by simp
  ultimately show ?thesis
    using nan_output_passes [of nan_F "Checker_new ld_ex 0" ld_ex_fs "lit ''model__layers__0''" "[0]" "[f32_NAN]" "lit ''out''"]
    by (auto simp: Checker_new_def nan_F_def f_nan_def simp del: lit_simps)
qed

definition gc_gdn :: "u32 GdnWeights" where
  "gc_gdn = \<lparr>gw_in_proj_qkv = [0, 0, 0], gw_in_proj_z = [0], gw_in_proj_b = [0], gw_in_proj_a = [0],
     gw_conv1d = [0, 0, 0], gw_a_log = [0], gw_dt_bias = [0], gw_norm = [0], gw_out_proj = [0]\<rparr>"

definition gc_lw :: "u32 LayerWeights" where
  "gc_lw = \<lparr>lw_input_layernorm = [0], lw_post_attention_layernorm = [0], lw_mlp = \<lparr>gate_proj = [0], up_proj = [0], down_proj = [0]\<rparr>\<rparr>"

definition gc_tr :: "u32 LayerTrace" where
  "gc_tr = \<lparr>lt_input_layernorm = [0],
     lt_mixer = LinearTrace \<lparr>gt_in_proj_qkv = [0, 0, 0], gt_conv_in = [0, 0, 0], gt_conv_out = [0, 0, 0], gt_in_proj_z = [0],
       gt_in_proj_b = [0], gt_in_proj_a = [0], gt_q = [0], gt_k = [0], gt_v = [0], gt_g = [0], gt_beta = [0],
       gt_delta_out = [0], gt_delta_state = [0], gt_norm = [0], gt_out_proj = [0]\<rparr>,
     lt_after_first_residual = [0], lt_post_attention_layernorm = [0],
     lt_mlp = \<lparr>mt_gate_proj = [0], mt_up_proj = [0], mt_swiglu_product = [0], mt_down_proj = [0]\<rparr>, lt_out = [0]\<rparr>"

lemmas gc_linear = linear_def linear_serial_def row_map_def saturating_mul_def WORK_PER_THREAD_def MAX_THREADS_def linear_elem_def
  rows_def slice_def upt_conv_Cons gc_ops

lemma gc_gdn_forward: "gdn_forward gc_N ld_ex_gdn gc_gdn [0] 1 1 = Inr (case lt_mixer gc_tr of LinearTrace g \<Rightarrow> g)"
  by (simp add: gdn_forward_def gdn_forward_impl_def Let_def ld_ex_gdn_def conv_dim_def key_dim_def value_dim_def kv_ratio_def
      gc_linear btc_to_bct_def bct_to_btc_def conv_forward_def conv_elem_def conv_full_def repeat_interleave_heads_def
      gdn_beta_def gdn_g_def sigmoid_def softplus_def silu_def gdn_rule_def forward_prepared_def forward_prepared_into_def
      validate_operands_def prepare_qk_def l2norm_last_dim_def l2norm_row_def delta_forward_def recurrence_def batch_step_def
      time_step_def head_step_def head_update_def idx4_def idx_state_def rmsnorm_gated_def row_map2_def gated_row_def rms_inv_def
      numeral_3_eq_3 numeral_2_eq_2 gc_gdn_def gc_tr_def)

lemma gc_norm: "length x = 1 \<Longrightarrow> rmsnorm_1plus gc_N [0] x 1 1 eps = Inr [0]"
  by (cases x) (simp_all add: rmsnorm_1plus_def norm_1plus_row_def Let_def gc_linear)

lemma gc_layer_forward: "layer_forward gc_N (LinearMixer ld_ex_gdn gc_gdn) gc_lw [0] 1 1 0 rope = Inr gc_tr"
  using gc_gdn_forward
  by (simp add: layer_forward_def layer_forward_inner_def Let_def gc_lw_def gc_norm [simplified] run_mixer_def gc_tr_def
      layer_forward_from_mixer_def mlp_forward_def gc_linear silu_def)

lemma gc_rows:
  "map_of ld_ex_table (lit ''model__layers__0__input_layernorm'') = Some ([1], 1)"
  "map_of ld_ex_table (lit ''model__layers__0__linear_attn__in_proj_qkv'') = Some ([3], 3)"
  "map_of ld_ex_table (lit ''causal_conv1d_fn_call0_in'') = Some ([3], 3)"
  "map_of ld_ex_table (lit ''causal_conv1d_fn_call0_out'') = Some ([3], 3)"
  "map_of ld_ex_table (lit ''model__layers__0__linear_attn__in_proj_z'') = Some ([1], 1)"
  "map_of ld_ex_table (lit ''model__layers__0__linear_attn__in_proj_b'') = Some ([1], 1)"
  "map_of ld_ex_table (lit ''model__layers__0__linear_attn__in_proj_a'') = Some ([1], 1)"
  "map_of ld_ex_table (lit ''delta_torch_chunk_gated_delta_rule_0__k'') = Some ([1], 1)"
  "map_of ld_ex_table (lit ''delta_torch_chunk_gated_delta_rule_0__v'') = Some ([1], 1)"
  "map_of ld_ex_table (lit ''delta_torch_chunk_gated_delta_rule_0__g'') = Some ([1], 1)"
  "map_of ld_ex_table (lit ''delta_torch_chunk_gated_delta_rule_0__beta'') = Some ([1], 1)"
  "map_of ld_ex_table (lit ''delta_torch_chunk_gated_delta_rule_0__out'') = Some ([1], 1)"
  "map_of ld_ex_table (lit ''delta_torch_chunk_gated_delta_rule_0__state'') = Some ([1], 1)"
  "map_of ld_ex_table (lit ''model__layers__0__linear_attn__norm'') = Some ([1], 1)"
  "map_of ld_ex_table (lit ''model__layers__0__linear_attn__out_proj'') = Some ([1], 1)"
  "map_of ld_ex_table (lit ''model__layers__0__post_attention_layernorm'') = Some ([1], 1)"
  "map_of ld_ex_table (lit ''model__layers__0__mlp__gate_proj'') = Some ([1], 1)"
  "map_of ld_ex_table (lit ''model__layers__0__mlp__up_proj'') = Some ([1], 1)"
  "map_of ld_ex_table (lit ''model__layers__0__mlp__swiglu_product'') = Some ([1], 1)"
  "map_of ld_ex_table (lit ''model__layers__0__mlp__down_proj'') = Some ([1], 1)"
  "map_of ld_ex_table (lit ''model__layers__0__mlp'') = Some ([1], 1)"
  "map_of ld_ex_table (lit ''model__norm'') = Some ([1], 1)"
  "map_of ld_ex_table (lit ''lm_head'') = Some ([1], 1)"
  by (rule map_of_is_SomeI [OF ld_ex_distinct], simp add: ld_ex_table_def del: lit_simps)+

definition captured :: "check_step \<Rightarrow> bool" where
  "captured s \<longleftrightarrow> (\<exists>n shape k. snd (snd s) = Some n \<and> map_of ld_ex_table n = Some (shape, k) \<and> (k = 1 \<or> k = 3) \<and> length (fst (snd s)) = k)"

lemma captured_passes: "captured s \<Longrightarrow> passes gc_F ld_ex_fs ld_ex tol s"
  using ld_ex_read by (fastforce simp: captured_def passes_def agrees_def gc_ops)

lemma lit_join: "lit a @ lit b = lit (a @ b)" "lit a @ lit b @ c = lit (a @ b) @ c" "show_nat 0 = lit ''0''"
  by (simp_all add: lit_def show_nat_digit)

lemma gc_captured: "list_all captured (layer_steps (LayerCapture_new 0 (Some 0)) gc_tr)"
  by (simp add: layer_steps_def mixer_steps_def gc_tr_def captured_def LayerCapture_new_def Let_def cap_input_layernorm_def cap_in_proj_qkv_def
      cap_conv_in_def cap_conv_out_def cap_conv_def cap_in_proj_z_def cap_in_proj_b_def cap_in_proj_a_def cap_delta_operand_def cap_delta_def
      cap_delta_out_def cap_delta_state_def cap_mixer_norm_def cap_out_proj_def cap_linear_attn_def cap_post_attention_layernorm_def
      cap_mlp_gate_proj_def cap_mlp_up_proj_def cap_mlp_swiglu_def cap_mlp_down_proj_def cap_mlp_def cap_layer_out_def
      lit_join gc_rows ld_ex_rows del: lit_simps)

lemma gc_total: "ck_failed (run_steps gc_F ld_ex_fs (Checker_new ld_ex tol) steps) = 0 \<and>
    (\<exists>r. describe gc_F (run_steps gc_F ld_ex_fs (Checker_new ld_ex tol) steps) = Inr r)" if "list_all captured steps"
  using that run_steps_pass [OF gc_ordered, of ld_ex_fs ld_ex tol steps] captured_passes describe_total [OF gc_ordered, of ld_ex_fs ld_ex tol steps]
  by (auto simp: list_all_iff gc_ops)

lemma gc_info: "mi_num_layers ld_ex_info = 1" "mi_b ld_ex_info = 1" "mi_t ld_ex_info = 1" "mi_eps ld_ex_info = 0" "mi_gdn ld_ex_info = ld_ex_gdn"
    "ssm_ordinal ld_ex_info 0 = Some 0" "layer_kind ld_ex_info 0 = LinearAttention" "input_name ld_ex_info 0 = lit ''model__embed_tokens''"
  by (simp_all add: ld_ex_info_def ssm_ordinal_def is_linear_def layer_type_def layer_kind_def input_name_def)

lemma gc_verify: "verify_layer gc_E ld_ex ld_ex_info 0 [0] rope tol =
    Inr (run_steps gc_F ld_ex_fs (Checker_new ld_ex tol) (layer_steps (LayerCapture_new 0 (Some 0)) gc_tr), gc_tr)"
  using ld_ex_weights(1,2) gc_layer_forward
  by (simp add: verify_layer_def gc_env gc_info gc_ops map_err_def Let_def flip: gc_gdn_def gc_lw_def)

lemma gc_layers: "\<exists>rope. load_rope ld_ex_fs ld_ex ld_ex_info = Inr rope \<and>
    isolated gc_E ld_ex ld_ex_info rope tol [0] False = Inr False \<and> chained gc_E ld_ex ld_ex_info rope tol False = Inr False"
proof -
  have "replicate 2 (0 :: u32) = [0, 0]" by (simp add: numeral_2_eq_2)
  then have "load_rope ld_ex_fs ld_ex ld_ex_info = Inr ([0, 0], [0, 0])"
    using ld_ex_exact [OF ld_ex_rows(19)] ld_ex_exact [OF ld_ex_rows(20)]
    by (simp add: load_rope_def gc_info ld_ex_info_def ld_ex_attn_def Let_def wrap64_def del: lit_simps)
  moreover have "bundle_read ld_ex_fs ld_ex (lit ''model__embed_tokens'') = Inr [0]" using ld_ex_read [OF ld_ex_rows(1)] by simp
  moreover note gc_total [OF gc_captured, of tol]
  ultimately show ?thesis
    by (auto simp: isolated_layer_def chained_def chain_layers_def gc_info gc_env gc_ops gc_verify simp del: lit_simps)
qed

lemma gc_forward: "\<exists>tr. forward gc_N (info_config ld_ex_info)
    \<lparr>mw_embed_tokens = [0], mw_final_norm = [0], mw_lm_head = [0],
      mw_layers = [\<lparr>la_kind = LinearAttention, la_layer = gc_lw, la_gdn = Some gc_gdn, la_attn = None\<rparr>]\<rparr> [0] = Inr tr \<and>
    list_all captured (model_steps tr) \<and> argmax_last gc_N tr = Inr 0"
proof -
  have i: "mc_vocab (info_config ld_ex_info) = 1" "mc_hidden (info_config ld_ex_info) = 1" "mc_eps (info_config ld_ex_info) = 0"
    "mc_gdn (info_config ld_ex_info) = ld_ex_gdn" by (simp_all add: info_config_def ld_ex_info_def)
  show ?thesis using gc_layer_forward
    by (simp add: forward_def i mixer_def Let_def model_head_def gc_norm [simplified] gc_linear model_steps_def argmax_last_def
      last_logits_def first_max_def captured_def gc_tr_def lit_join gc_rows ld_ex_rows del: lit_simps)
qed

lemma gc_model: "model_mode gc_E ld_ex ld_ex_info tol False False = Inr False"
proof -
  let ?ls = "[\<lparr>la_kind = LinearAttention, la_layer = gc_lw, la_gdn = Some gc_gdn, la_attn = None\<rparr>]"
  have "load_all_layers ld_ex_fs ld_ex ld_ex_info = Inr ?ls"
    using ld_ex_weights(1,2) by (simp add: load_all_layers_def load_layer_def gc_info flip: gc_gdn_def gc_lw_def)
  moreover obtain tr where tr: "forward gc_N (info_config ld_ex_info)
      \<lparr>mw_embed_tokens = [0], mw_final_norm = [0], mw_lm_head = [0], mw_layers = ?ls\<rparr> [0] = Inr tr"
    "list_all captured (model_steps tr)" "argmax_last gc_N tr = Inr 0" using gc_forward by blast
  moreover have "greedy gc_N (info_config ld_ex_info) \<lparr>mw_embed_tokens = [0], mw_final_norm = [0], mw_lm_head = [0], mw_layers = ?ls\<rparr> [0] 1 = Inr ([0], [tr])"
    using tr by (simp add: greedy_def as_u32_def)
  moreover have "bundle_read ld_ex_fs ld_ex (step_name 0) = Inl (BuNoTensor (step_name 0))"
  proof -
    have "step_name 0 = lit ''greedy_step00__logits''" by (simp add: step_name_def lit_join del: lit_simps)
    moreover have "map_of ld_ex_table (lit ''greedy_step00__logits'') = None" by (simp add: ld_ex_table_def)
    ultimately show ?thesis using ld_ex_lookup [of "step_name 0"] by (simp add: bundle_read_def bundle_entry_def del: lit_simps)
  qed
  ultimately show ?thesis
    using ld_ex_weights(3) gc_total [OF tr(2), of tol]
    by (simp add: model_mode_def gc_env gc_ops map_err_def step_logits_def ld_ex_def)
qed

lemma gc_run: "gdncheck gc_E gc_args = SUCCESS"
proof -
  have a: "arg_val gc_args (lit ''--layer'') = None" "has_flag gc_args (lit ''--chain'')" "has_flag gc_args (lit ''--model'')"
    "\<not> has_flag gc_args (lit ''--cached'')" by code_simp+
  have "\<not> rope_failed gc_E ld_ex ld_ex_info tol" for tol
    by (simp add: rope_failed_def gc_env gc_ops split: sum.split)
  then have "layer_modes gc_E gc_args ld_ex ld_ex_info tol = Inr False" for tol
    using gc_layers [of tol] a by (auto simp: layer_modes_def gc_env gc_info map_err_def simp del: lit_simps)
  then show ?thesis
    using gc_opens ld_ex_loads gc_dir a gc_model
    by (simp add: gdncheck_def gdncheck_verdict_def gc_env map_err_def Let_def del: lit_simps)
qed

theorem gdncheck_pass_sound_witness:
  "gdncheck gc_E gc_args = SUCCESS \<and> (\<exists>tol. model_passes gc_E ld_ex ld_ex_info tol False)"
proof -
  have a: "Option.bind (arg_val gc_args (lit ''--layer'')) parse_usize = None" "has_flag gc_args (lit ''--model'')"
    "\<not> has_flag gc_args (lit ''--cached'')" by code_simp+
  have F: "ordered_floats (ge_F gc_E)" "\<not> f_nan (ge_F gc_E) (f_zero (ge_F gc_E))"
    using gc_ordered by (simp_all add: gc_env gc_ops)
  from gdncheck_pass_sound [OF F a(1) gc_run] show ?thesis
    using a(2,3) gc_run gc_opens ld_ex_loads gc_dir by (auto simp: gc_env simp del: lit_simps)
qed

end
