(* ===== verification/St_Plan.thy ===== *)
theory St_Plan
  imports St_Header
begin

text \<open>
  Read planning of the streaming loader (\<open>stloader/src/plan.rs\<close>): tensor byte ranges are
  rounded outward to the block size and merged while the gap to the previous range is small.
  All arithmetic is on 64-bit words, with the saturation the source writes out. The theory
  refines the planner to a merge of natural-number intervals and proves coverage, alignment,
  separation and exactness there; the locale \<open>shard_planner\<close> is what the reader needs of a
  planner, interpreted on both planners of the source.
\<close>

section \<open>The planner\<close>

record Range =
  r_offset :: u64
  r_len :: u64

definition Range_end :: "Range \<Rightarrow> u64" where
  "Range_end r = saturating_add (r_offset r) (r_len r)"

definition floor_to :: "u64 \<Rightarrow> u64 \<Rightarrow> u64" where
  "floor_to x b = (let b = max b 1 in x div b * b)"

definition ceil_to :: "u64 \<Rightarrow> u64 \<Rightarrow> u64" where
  "ceil_to x b = (let b = max b 1 in saturating_mul (div_ceil x b) b)"

definition plan_step :: "u64 \<Rightarrow> u64 \<Rightarrow> u64 \<Rightarrow> u64 \<Rightarrow> Range list \<Rightarrow> TensorInfo \<Rightarrow> Range list" where
  "plan_step data_start block file_ceil max_gap out t =
     (if nbytes t = 0 then out
      else
        let (abs_s, abs_e) = abs_range t data_start;
            a0 = min (floor_to abs_s block) file_ceil;
            a1 = min (ceil_to abs_e block) file_ceil
        in if a1 \<le> a0 then out
           else if out \<noteq> [] \<and> a0 \<le> saturating_add (Range_end (last out)) max_gap then
             let new_end = max (Range_end (last out)) a1
             in butlast out @ [(last out)\<lparr>r_len := new_end - r_offset (last out)\<rparr>]
           else out @ [\<lparr>r_offset = a0, r_len = a1 - a0\<rparr>])"

definition plan_shard :: "'f ShardHeader \<Rightarrow> u64 \<Rightarrow> u64 \<Rightarrow> Range list" where
  "plan_shard h block max_gap =
     (let block = max block 1;
          file_ceil = ceil_to (sh_file_size h) block
      in foldl (plan_step (sh_data_start h) block file_ceil max_gap) [] (sh_tensors h))"

definition plan_one :: "u64 \<Rightarrow> u64 \<Rightarrow> u64 \<Rightarrow> TensorInfo \<Rightarrow> Range option" where
  "plan_one data_start block file_ceil t =
     (if nbytes t = 0 then None
      else
        let (abs_s, abs_e) = abs_range t data_start;
            a0 = min (floor_to abs_s block) file_ceil;
            a1 = min (ceil_to abs_e block) file_ceil
        in if a1 \<le> a0 then None else Some \<lparr>r_offset = a0, r_len = a1 - a0\<rparr>)"

definition plan_shard_unmerged :: "'f ShardHeader \<Rightarrow> u64 \<Rightarrow> Range list" where
  "plan_shard_unmerged h block =
     (let block = max block 1;
          file_ceil = ceil_to (sh_file_size h) block
      in List.map_filter (plan_one (sh_data_start h) block file_ceil) (sh_tensors h))"

text \<open>The loop both model-wide planners share: shard index paired with each range.\<close>

definition plan_each :: "('h \<Rightarrow> Range list) \<Rightarrow> 'h list \<Rightarrow> (nat \<times> Range) list" where
  "plan_each plan headers =
     concat (map (\<lambda>(i, h). map (\<lambda>r. (i, r)) (plan h)) (enumerate 0 headers))"

definition plan_model :: "'f ShardHeader list \<Rightarrow> u64 \<Rightarrow> u64 \<Rightarrow> (nat \<times> Range) list" where
  "plan_model headers block max_gap = plan_each (\<lambda>h. plan_shard h block max_gap) headers"

definition plan_model_unmerged :: "'f ShardHeader list \<Rightarrow> u64 \<Rightarrow> (nat \<times> Range) list" where
  "plan_model_unmerged headers block = plan_each (\<lambda>h. plan_shard_unmerged h block) headers"

section \<open>Rounding\<close>

definition blk :: "u64 \<Rightarrow> nat" where
  "blk b = max (unat b) 1"

lemma blk_pos [simp]: "0 < blk b" "blk b \<noteq> 0" "Suc 0 \<le> blk b"
  by (auto simp: blk_def)

lemma unat_max_one: "unat (max b 1 :: u64) = blk b"
  by (simp add: blk_def u64_nat)

lemma blk_max_one [simp]: "blk (max b 1) = blk b"
  by (simp add: blk_def u64_nat)

lemma unat_floor_to [u64_nat]: "unat (floor_to x b) = floor_mult (unat x) (blk b)"
proof -
  have "unat x div blk b * blk b \<le> unat x" by simp
  then have "unat (x div max b 1) * unat (max b 1 :: u64) < 2 ^ 64"
    using unat_lt_u64 [of x] unfolding unat_div unat_max_one by linarith
  then show ?thesis
    by (simp add: floor_to_def floor_mult_def Let_def unat_mul_u64 unat_div unat_max_one)
qed

lemma unat_ceil_to [u64_nat]: "unat (ceil_to x b) = min (2 ^ 64 - 1) (ceil_mult (unat x) (blk b))"
proof -
  have "unat (div_ceil x (max b 1)) = (unat x + blk b - 1) div blk b"
    by (subst unat_div_ceil) (simp_all add: unat_max_one)
  then show ?thesis
    by (simp add: ceil_to_def ceil_mult_def Let_def u64_nat(4) unat_saturating_mul unat_max_one)
qed

section \<open>Merging natural-number intervals\<close>

text \<open>The specification the planner is refined to: half-open intervals, in order of their
  lower bound; an interval that starts at most \<open>g\<close> after the last one is merged into it.\<close>

type_synonym ivl = "nat \<times> nat"

definition ivl_of :: "Range \<Rightarrow> ivl" where
  "ivl_of r = (unat (r_offset r), unat (r_offset r) + unat (r_len r))"

definition merge1 :: "nat \<Rightarrow> ivl list \<Rightarrow> ivl \<Rightarrow> ivl list" where
  "merge1 g out x =
     (if out \<noteq> [] \<and> fst x \<le> snd (last out) + g
      then butlast out @ [(fst (last out), max (snd (last out)) (snd x))]
      else out @ [x])"

definition merge_ivls :: "nat \<Rightarrow> ivl list \<Rightarrow> ivl list" where
  "merge_ivls g xs = foldl (merge1 g) [] xs"

definition ivl_bytes :: "ivl list \<Rightarrow> nat set" where
  "ivl_bytes xs = (\<Union>(a, b) \<in> set xs. {a..<b})"

fun separated :: "nat \<Rightarrow> ivl list \<Rightarrow> bool" where
  "separated g [] = True"
| "separated g [x] = True"
| "separated g (x # y # ys) \<longleftrightarrow> snd x + g < fst y \<and> separated g (y # ys)"

definition good_ivls :: "ivl list \<Rightarrow> bool" where
  "good_ivls xs \<longleftrightarrow> sorted (map fst xs) \<and> (\<forall>x \<in> set xs. fst x < snd x)"

lemma merge_ivls_snoc: "merge_ivls g (xs @ [x]) = merge1 g (merge_ivls g xs) x"
  by (simp add: merge_ivls_def)

lemma merge_ivls_Nil [simp]: "merge_ivls g [] = []"
  by (simp add: merge_ivls_def)

lemma good_ivls_snoc:
  "good_ivls (xs @ [x]) \<longleftrightarrow> good_ivls xs \<and> fst x < snd x \<and> (\<forall>y \<in> set xs. fst y \<le> fst x)"
  by (auto simp: good_ivls_def sorted_append)

lemma separated_snoc:
  "separated g (xs @ [x]) \<longleftrightarrow> separated g xs \<and> (xs \<noteq> [] \<longrightarrow> snd (last xs) + g < fst x)"
  by (induction g xs rule: separated.induct) auto

lemma merge1_cases:
  obtains (Merge) out' la lb where "out = out' @ [(la, lb)]" "xa \<le> lb + g"
      "merge1 g out (xa, xb) = out' @ [(la, max lb xb)]"
    | (Push) "out \<noteq> [] \<longrightarrow> snd (last out) + g < xa" "merge1 g out (xa, xb) = out @ [(xa, xb)]"
proof (cases "out \<noteq> [] \<and> xa \<le> snd (last out) + g")
  case True
  then have "out = butlast out @ [(fst (last out), snd (last out))]" by simp
  with True show ?thesis
    using Merge [of "butlast out" "fst (last out)" "snd (last out)"] by (simp add: merge1_def)
next
  case False
  then have "out \<noteq> [] \<longrightarrow> snd (last out) + g < xa" by auto
  moreover have "merge1 g out (xa, xb) = out @ [(xa, xb)]"
    using False by (simp only: merge1_def if_False fst_conv snd_conv)
  ultimately show ?thesis by (rule Push)
qed

lemma merge_ivls_endpoints:
  "(a, b) \<in> set (merge_ivls g xs) \<Longrightarrow> a \<in> fst ` set xs \<and> b \<in> snd ` set xs"
proof (induction xs arbitrary: a b rule: rev_induct)
  case (snoc x xs)
  obtain xa xb where x: "x = (xa, xb)" by (cases x)
  show ?case
  proof (cases rule: merge1_cases [of "merge_ivls g xs" xa g xb])
    case (Merge out' la lb)
    then have l: "la \<in> fst ` set xs \<and> lb \<in> snd ` set xs" by (intro snoc.IH) simp
    have "(a, b) \<in> set out' \<or> (a, b) = (la, max lb xb)"
      using snoc.prems Merge(3) x by (auto simp: merge_ivls_snoc)
    then show ?thesis
    proof
      assume "(a, b) \<in> set out'"
      then have "a \<in> fst ` set xs \<and> b \<in> snd ` set xs" using Merge(1) by (intro snoc.IH) simp
      then show ?thesis by auto
    next
      assume "(a, b) = (la, max lb xb)"
      with l x show ?thesis by (auto simp: max_def)
    qed
  next
    case Push
    then have "(a, b) \<in> set (merge_ivls g xs) \<or> (a, b) = x"
      using snoc.prems x by (auto simp: merge_ivls_snoc)
    then show ?thesis using snoc.IH by force
  qed
qed simp

lemma merge_ivls_nonempty:
  "good_ivls xs \<Longrightarrow> (a, b) \<in> set (merge_ivls g xs) \<Longrightarrow> a < b"
proof (induction xs arbitrary: a b rule: rev_induct)
  case (snoc x xs)
  obtain xa xb where x: "x = (xa, xb)" by (cases x)
  show ?case
  proof (cases rule: merge1_cases [of "merge_ivls g xs" xa g xb])
    case (Merge out' la lb)
    then have "la < lb" using snoc by (auto simp: good_ivls_snoc)
    moreover have "(a, b) \<in> set (merge_ivls g xs) \<or> (a, b) = (la, max lb xb)"
      using snoc.prems Merge x by (auto simp: merge_ivls_snoc)
    ultimately show ?thesis using snoc by (auto simp: good_ivls_snoc)
  next
    case Push
    with snoc x show ?thesis by (auto simp: merge_ivls_snoc good_ivls_snoc)
  qed
qed simp

lemma merge_ivls_separated: "good_ivls xs \<Longrightarrow> separated g (merge_ivls g xs)"
proof (induction xs rule: rev_induct)
  case (snoc x xs)
  obtain xa xb where x: "x = (xa, xb)" by (cases x)
  from snoc have IH: "separated g (merge_ivls g xs)" by (simp add: good_ivls_snoc)
  show ?case
    by (cases rule: merge1_cases [of "merge_ivls g xs" xa g xb])
      (use IH x in \<open>simp_all add: merge_ivls_snoc separated_snoc\<close>)
qed simp

lemma merge_ivls_last_le:
  assumes "merge_ivls g xs = out' @ [(la, lb)]" and "\<forall>y \<in> set xs. fst y \<le> xa"
  shows "la \<le> xa"
proof -
  have "la \<in> fst ` set xs" using merge_ivls_endpoints [of la lb g xs] assms(1) by simp
  with assms(2) show ?thesis by auto
qed

lemma merge_ivls_covers:
  "(a, b) \<in> set xs \<Longrightarrow> good_ivls xs \<Longrightarrow> \<exists>ra rb. (ra, rb) \<in> set (merge_ivls g xs) \<and> ra \<le> a \<and> b \<le> rb"
proof (induction xs rule: rev_induct)
  case (snoc x xs)
  obtain xa xb where x: "x = (xa, xb)" by (cases x)
  show ?case
  proof (cases rule: merge1_cases [of "merge_ivls g xs" xa g xb])
    case (Merge out' la lb)
    have la: "la \<le> xa"
      by (rule merge_ivls_last_le [OF Merge(1)]) (use snoc.prems x in \<open>simp add: good_ivls_snoc\<close>)
    show ?thesis
    proof (cases "(a, b) = x")
      case True
      with la Merge x have "(la, max lb xb) \<in> set (merge_ivls g (xs @ [x]))" "la \<le> a" "b \<le> max lb xb"
        by (simp_all add: merge_ivls_snoc)
      then show ?thesis by blast
    next
      case False
      then obtain ra rb where r: "(ra, rb) \<in> set (out' @ [(la, lb)])" "ra \<le> a" "b \<le> rb"
        using snoc Merge(1) by (auto simp: good_ivls_snoc)
      then have "(ra, rb) \<in> set out' \<or> (ra = la \<and> b \<le> max lb xb)" by auto
      with r(2,3) Merge(3) x show ?thesis by (auto simp: merge_ivls_snoc)
    qed
  next
    case Push
    with snoc x show ?thesis by (auto simp: merge_ivls_snoc good_ivls_snoc)
  qed
qed simp

lemma ivl_bytes_simps [simp]:
  "ivl_bytes [] = {}" "ivl_bytes (x # xs) = {fst x..<snd x} \<union> ivl_bytes xs"
  "ivl_bytes (xs @ ys) = ivl_bytes xs \<union> ivl_bytes ys"
  by (auto simp: ivl_bytes_def split_beta)

lemma merge_ivls_exact: "good_ivls xs \<Longrightarrow> ivl_bytes (merge_ivls 0 xs) = ivl_bytes xs"
proof (induction xs rule: rev_induct)
  case (snoc x xs)
  obtain xa xb where x: "x = (xa, xb)" by (cases x)
  from snoc have IH: "ivl_bytes (merge_ivls 0 xs) = ivl_bytes xs" by (simp add: good_ivls_snoc)
  show ?case
  proof (cases rule: merge1_cases [of "merge_ivls 0 xs" xa 0 xb])
    case (Merge out' la lb)
    have la: "la \<le> xa"
      by (rule merge_ivls_last_le [OF Merge(1)]) (use snoc.prems x in \<open>simp add: good_ivls_snoc\<close>)
    have "xa < xb" using snoc.prems x by (simp add: good_ivls_snoc)
    with la Merge(2) have "{la..<max lb xb} = {la..<lb} \<union> {xa..<xb}" by auto
    with IH Merge(1,3) x show ?thesis by (auto simp: merge_ivls_snoc)
  next
    case Push
    with IH x show ?thesis by (simp add: merge_ivls_snoc)
  qed
qed simp

definition ivl_total :: "ivl list \<Rightarrow> nat" where
  "ivl_total xs = sum_list (map (\<lambda>x. snd x - fst x) xs)"

lemma ivl_total_simps [simp]:
  "ivl_total [] = 0" "ivl_total (x # xs) = (snd x - fst x) + ivl_total xs"
  "ivl_total (xs @ ys) = ivl_total xs + ivl_total ys"
  by (simp_all add: ivl_total_def)

lemma merge_ivls_total: "good_ivls xs \<Longrightarrow> ivl_total (merge_ivls 0 xs) \<le> ivl_total xs"
proof (induction xs rule: rev_induct)
  case (snoc x xs)
  obtain xa xb where x: "x = (xa, xb)" by (cases x)
  from snoc have IH: "ivl_total (merge_ivls 0 xs) \<le> ivl_total xs" and "xa < xb"
    by (simp_all add: good_ivls_snoc x)
  show ?case
  proof (cases rule: merge1_cases [of "merge_ivls 0 xs" xa 0 xb])
    case (Merge out' la lb)
    have "la < lb"
      using Merge(1) snoc.prems merge_ivls_nonempty [of xs la lb 0] by (auto simp: good_ivls_snoc)
    with IH Merge x \<open>xa < xb\<close> show ?thesis by (simp add: merge_ivls_snoc max_def split: if_splits)
  next
    case Push
    with IH x show ?thesis by (simp add: merge_ivls_snoc)
  qed
qed simp

section \<open>The planner refines the interval merge\<close>

definition cand :: "'f ShardHeader \<Rightarrow> u64 \<Rightarrow> TensorInfo \<Rightarrow> ivl" where
  "cand h b t =
     (floor_mult (unat (sh_data_start h) + unat (ti_start t)) (blk b),
      min (2 ^ 64 - 1) (ceil_mult (unat (sh_data_start h) + unat (ti_end t)) (blk b)))"

definition cands :: "'f ShardHeader \<Rightarrow> u64 \<Rightarrow> ivl list" where
  "cands h b = map (cand h b) (filter (\<lambda>t. nbytes t \<noteq> 0) (sh_tensors h))"

lemma nbytes_nonzero:
  assumes "wf_shard h" and "t \<in> set (sh_tensors h)"
  shows "nbytes t \<noteq> 0 \<longleftrightarrow> unat (ti_start t) < unat (ti_end t)"
  using wf_shard_nbytes [OF assms] wf_shard_tensor_bounds(3) [OF assms]
  by (metis diff_is_0_eq le_antisym linorder_not_le order_less_imp_le unat_eq_zero unsigned_0)

lemma cand_word:
  fixes b :: u64
  assumes "wf_shard h" and "t \<in> set (sh_tensors h)"
  defines "fc \<equiv> ceil_to (sh_file_size h) (max b 1)"
  shows "unat (min (floor_to (sh_data_start h + ti_start t) (max b 1)) fc) = fst (cand h b t)"
    and "unat (min (ceil_to (sh_data_start h + ti_end t) (max b 1)) fc) = snd (cand h b t)"
proof -
  note bd = wf_shard_tensor_bounds [OF assms(1,2)]
  let ?f = "unat (sh_file_size h)" and ?s = "unat (sh_data_start h) + unat (ti_start t)"
    and ?e = "unat (sh_data_start h) + unat (ti_end t)"
  have fc: "unat fc = min (2 ^ 64 - 1) (ceil_mult ?f (blk b))"
    by (simp add: fc_def unat_ceil_to)
  have "floor_mult ?s (blk b) \<le> ?f" using floor_mult_le [of ?s "blk b"] bd(3,4) by linarith
  moreover have "?f \<le> ceil_mult ?f (blk b)" by (rule ceil_mult_ge) simp
  moreover have "?f \<le> 2 ^ 64 - 1" by simp
  ultimately have "floor_mult ?s (blk b) \<le> unat fc" unfolding fc by linarith
  then show "unat (min (floor_to (sh_data_start h + ti_start t) (max b 1)) fc) = fst (cand h b t)"
    by (simp add: unat_min_word unat_floor_to bd(1) cand_def)
  have "ceil_mult ?e (blk b) \<le> ceil_mult ?f (blk b)" by (rule ceil_mult_mono) (rule bd(4))
  then show "unat (min (ceil_to (sh_data_start h + ti_end t) (max b 1)) fc) = snd (cand h b t)"
    by (simp add: unat_min_word unat_ceil_to bd(2) cand_def fc)
qed

lemma cand_nonempty:
  assumes "wf_shard h" and "t \<in> set (sh_tensors h)" and "nbytes t \<noteq> 0"
  shows "fst (cand h b t) < snd (cand h b t)"
proof -
  note bd = wf_shard_tensor_bounds [OF assms(1,2)]
  let ?s = "unat (sh_data_start h) + unat (ti_start t)"
    and ?e = "unat (sh_data_start h) + unat (ti_end t)"
  have "?s < ?e" using nbytes_nonzero [OF assms(1,2)] assms(3) by simp
  moreover have "floor_mult ?s (blk b) \<le> ?s" by (rule floor_mult_le)
  moreover have "?e \<le> ceil_mult ?e (blk b)" by (rule ceil_mult_ge) simp
  moreover have "?e \<le> 2 ^ 64 - 1"
    using order_trans [OF bd(4) unat_le_u64_num] by simp
  ultimately show ?thesis by (simp add: cand_def)
qed

lemma good_cands:
  assumes "wf_shard h" shows "good_ivls (cands h b)"
proof -
  let ?ts = "filter (\<lambda>t. nbytes t \<noteq> 0) (sh_tensors h)"
  have "sorted (map (\<lambda>t. (ti_start t, ti_end t)) (sh_tensors h))"
    using assms by (simp add: wf_shard_def)
  then have "sorted_wrt (\<lambda>t u. ti_start t \<le> ti_start u) (sh_tensors h)"
    unfolding sorted_map by (rule sorted_wrt_mono_rel [rotated]) (auto simp: less_eq_prod_def)
  then have "sorted_wrt (\<lambda>t u. ti_start t \<le> ti_start u) ?ts" by (rule sorted_wrt_filter)
  then have "sorted_wrt (\<lambda>t u. fst (cand h b t) \<le> fst (cand h b u)) ?ts"
    by (rule sorted_wrt_mono_rel [rotated])
      (auto simp: cand_def word_le_nat_alt intro: floor_mult_mono)
  then have "sorted (map fst (cands h b))" by (simp add: cands_def sorted_map)
  moreover have "\<forall>x \<in> set (cands h b). fst x < snd x"
    using assms by (auto simp: cands_def intro: cand_nonempty)
  ultimately show ?thesis by (simp add: good_ivls_def)
qed

lemma cands_bound: "x \<in> set (cands h b) \<Longrightarrow> snd x < 2 ^ 64"
  by (auto simp: cands_def cand_def)

definition fits :: "Range list \<Rightarrow> bool" where
  "fits out \<longleftrightarrow> (\<forall>r \<in> set out. unat (r_offset r) + unat (r_len r) < 2 ^ 64)"

lemma ivl_of_mk: "a \<le> b \<Longrightarrow> ivl_of \<lparr>r_offset = a, r_len = b - a\<rparr> = (unat a, unat b)"
  by (simp add: ivl_of_def unat_sub_u64 word_le_nat_alt)

text \<open>The two words \<open>plan_step\<close> works on, the step itself, and the range it extends.\<close>

definition cand_lo :: "'f ShardHeader \<Rightarrow> u64 \<Rightarrow> TensorInfo \<Rightarrow> u64" where
  "cand_lo h b t = min (floor_to (sh_data_start h + ti_start t) (max b 1)) (ceil_to (sh_file_size h) (max b 1))"

definition cand_hi :: "'f ShardHeader \<Rightarrow> u64 \<Rightarrow> TensorInfo \<Rightarrow> u64" where
  "cand_hi h b t = min (ceil_to (sh_data_start h + ti_end t) (max b 1)) (ceil_to (sh_file_size h) (max b 1))"

lemma cand_words:
  assumes "wf_shard h" "t \<in> set (sh_tensors h)"
  shows "unat (cand_lo h b t) = fst (cand h b t)" and "unat (cand_hi h b t) = snd (cand h b t)"
  using cand_word [OF assms, of b] by (simp_all only: cand_lo_def cand_hi_def)

lemma plan_step_eq:
  assumes "wf_shard h" "t \<in> set (sh_tensors h)" and nz: "nbytes t \<noteq> 0"
  shows "plan_step (sh_data_start h) (max b 1) (ceil_to (sh_file_size h) (max b 1)) g out t =
     (if out \<noteq> [] \<and> cand_lo h b t \<le> saturating_add (Range_end (last out)) g
      then butlast out @ [(last out)\<lparr>r_len := max (Range_end (last out)) (cand_hi h b t) - r_offset (last out)\<rparr>]
      else out @ [\<lparr>r_offset = cand_lo h b t, r_len = cand_hi h b t - cand_lo h b t\<rparr>])"
proof -
  have lt: "\<not> cand_hi h b t \<le> cand_lo h b t"
    using cand_nonempty [OF assms, of b] cand_words [OF assms(1,2), of b] by (simp add: word_le_nat_alt)
  then show ?thesis
    unfolding plan_step_def abs_range_def Let_def prod.case cand_lo_def [symmetric] cand_hi_def [symmetric]
    by (simp only: nz if_False)
qed

lemma Range_extend:
  fixes l :: Range and a1 :: u64
  assumes "unat (r_offset l) + unat (r_len l) < 2 ^ 64"
  defines "r \<equiv> l\<lparr>r_len := max (Range_end l) a1 - r_offset l\<rparr>"
  shows "ivl_of r = (unat (r_offset l), max (snd (ivl_of l)) (unat a1))" and "fits [r]"
proof -
  have lend: "unat (Range_end l) = unat (r_offset l) + unat (r_len l)"
    using assms(1) by (simp add: Range_end_def unat_saturating_add)
  then have "r_offset l \<le> Range_end l" by (simp add: word_le_nat_alt)
  then have "r_offset l \<le> max (Range_end l) a1" by (simp add: le_max_iff_disj)
  then have r: "ivl_of r = (unat (r_offset l), max (unat (Range_end l)) (unat a1))"
    by (simp add: r_def ivl_of_def unat_sub_u64 word_le_nat_alt unat_max_word)
  then show "ivl_of r = (unat (r_offset l), max (snd (ivl_of l)) (unat a1))"
    by (simp add: lend ivl_of_def)
  have "unat (r_offset r) + unat (r_len r) = max (unat (Range_end l)) (unat a1)"
    using r by (simp add: ivl_of_def)
  moreover have "max (unat (Range_end l)) (unat a1) < 2 ^ 64" by simp
  ultimately show "fits [r]" by (simp add: fits_def)
qed

lemma plan_step_merge1:
  fixes b g :: u64
  assumes wf: "wf_shard h" "t \<in> set (sh_tensors h)" and nz: "nbytes t \<noteq> 0" and fits: "fits out"
  defines "step \<equiv> plan_step (sh_data_start h) (max b 1) (ceil_to (sh_file_size h) (max b 1)) g out t"
  shows "map ivl_of step = merge1 (unat g) (map ivl_of out) (cand h b t) \<and> fits step"
proof -
  define a0 a1 l where "a0 = cand_lo h b t" and "a1 = cand_hi h b t" and "l = last out"
  note a = cand_words [OF wf, of b, folded a0_def a1_def]
  note step = plan_step_eq [OF wf nz, of b g out, folded step_def a0_def a1_def l_def]
  have lfit: "unat (r_offset l) + unat (r_len l) < 2 ^ 64" if "out \<noteq> []"
    using fits last_in_set [OF that] unfolding fits_def l_def by blast
  have cond: "out \<noteq> [] \<and> a0 \<le> saturating_add (Range_end l) g \<longleftrightarrow>
      map ivl_of out \<noteq> [] \<and> fst (cand h b t) \<le> snd (last (map ivl_of out)) + unat g"
    using lfit unat_le_u64_num [of a0]
    by (auto simp: word_le_nat_alt unat_saturating_add Range_end_def ivl_of_def last_map a(1) [symmetric] l_def)
  show ?thesis
  proof (cases "out \<noteq> [] \<and> a0 \<le> saturating_add (Range_end l) g")
    case True
    note r = Range_extend [of l a1, OF lfit]
    have "fits (butlast out)" using fits by (auto simp: fits_def dest: in_set_butlastD)
    with True cond step r a(2) show ?thesis
      by (simp add: merge1_def fits_def map_butlast last_map ivl_of_def l_def)
  next
    case False
    then have step: "step = out @ [\<lparr>r_offset = a0, r_len = a1 - a0\<rparr>]"
      using step by (simp only: if_False)
    have "a0 \<le> a1" using cand_nonempty [OF wf nz, of b] a by (simp add: word_le_nat_alt)
    then have new: "ivl_of \<lparr>r_offset = a0, r_len = a1 - a0\<rparr> = cand h b t"
      using ivl_of_mk [of a0 a1] a by simp
    then have "fits [\<lparr>r_offset = a0, r_len = a1 - a0\<rparr>]"
      using unat_lt_u64_num [of a1] a(2) by (simp add: fits_def ivl_of_def prod_eq_iff)
    moreover have "merge1 (unat g) (map ivl_of out) (cand h b t) = map ivl_of out @ [cand h b t]"
      using False cond by (simp only: merge1_def if_False)
    ultimately show ?thesis
      using step new fits by (auto simp: fits_def)
  qed
qed

lemma plan_fold_merge:
  fixes b g :: u64
  assumes wf: "wf_shard h" and sub: "set ts \<subseteq> set (sh_tensors h)"
  defines "step \<equiv> plan_step (sh_data_start h) (max b 1) (ceil_to (sh_file_size h) (max b 1)) g"
  shows "map ivl_of (foldl step [] ts) =
           merge_ivls (unat g) (map (cand h b) (filter (\<lambda>t. nbytes t \<noteq> 0) ts)) \<and>
         fits (foldl step [] ts)"
  using sub
proof (induction ts rule: rev_induct)
  case (snoc t ts)
  show ?case
  proof (cases "nbytes t = 0")
    case True
    with snoc show ?thesis by (simp add: step_def plan_step_def)
  next
    case False
    have "fits (foldl step [] ts)" and "t \<in> set (sh_tensors h)" using snoc by auto
    then show ?thesis
      using plan_step_merge1 [OF wf _ False, of "foldl step [] ts" b g] snoc False
      by (simp add: step_def merge_ivls_snoc)
  qed
qed (simp add: fits_def)

lemma plan_shard_merge:
  assumes "wf_shard h"
  shows "map ivl_of (plan_shard h b g) = merge_ivls (unat g) (cands h b)"
    and "fits (plan_shard h b g)"
  using plan_fold_merge [OF assms order_refl, of b g]
  by (simp_all add: plan_shard_def Let_def cands_def)

lemma plan_one_cand:
  assumes "wf_shard h" and "t \<in> set (sh_tensors h)"
  shows "map_option ivl_of (plan_one (sh_data_start h) (max b 1) (ceil_to (sh_file_size h) (max b 1)) t)
    = (if nbytes t = 0 then None else Some (cand h b t))"
proof (cases "nbytes t = 0")
  case False
  define fc where "fc = ceil_to (sh_file_size h) (max b 1)"
  define a0 where "a0 = min (floor_to (sh_data_start h + ti_start t) (max b 1)) fc"
  define a1 where "a1 = min (ceil_to (sh_data_start h + ti_end t) (max b 1)) fc"
  have a: "unat a0 = fst (cand h b t)" "unat a1 = snd (cand h b t)"
    using cand_word [OF assms, of b] by (simp_all only: a0_def a1_def fc_def)
  have lt: "\<not> a1 \<le> a0" using cand_nonempty [OF assms False, of b] a by (simp add: word_le_nat_alt)
  have "plan_one (sh_data_start h) (max b 1) fc t = Some \<lparr>r_offset = a0, r_len = a1 - a0\<rparr>"
    using lt unfolding plan_one_def abs_range_def Let_def prod.case
      a0_def [symmetric] a1_def [symmetric]
    by (simp only: False if_False)
  then show ?thesis
    using False a lt ivl_of_mk [of a0 a1] by (simp add: fc_def [symmetric])
qed (simp add: plan_one_def)

lemma map_filter_ivls:
  assumes "\<And>t. t \<in> set ts \<Longrightarrow> map_option f (p t) = (if q t then Some (c t) else None)"
  shows "map f (List.map_filter p ts) = map c (filter q ts)"
  using assms
proof (induction ts)
  case (Cons t ts)
  then have "map f (List.map_filter p ts) = map c (filter q ts)" by simp
  moreover have "map_option f (p t) = (if q t then Some (c t) else None)" using Cons by simp
  ultimately show ?case by (cases "p t") (auto simp: List.map_filter_simps split: if_splits)
qed (simp add: List.map_filter_simps)

lemma plan_shard_unmerged_cands:
  assumes "wf_shard h"
  shows "map ivl_of (plan_shard_unmerged h b) = cands h b"
  unfolding plan_shard_unmerged_def Let_def cands_def
  by (rule map_filter_ivls) (simp add: plan_one_cand [OF assms])

section \<open>What the reader needs of a planner\<close>

lemma plan_each_mem:
  "(i, r) \<in> set (plan_each plan hs) \<longleftrightarrow> i < length hs \<and> r \<in> set (plan (hs ! i))"
proof
  assume "i < length hs \<and> r \<in> set (plan (hs ! i))"
  then have "(i, hs ! i) \<in> set (enumerate 0 hs)" "r \<in> set (plan (hs ! i))"
    by (simp_all add: in_set_enumerate_eq)
  then show "(i, r) \<in> set (plan_each plan hs)" by (force simp: plan_each_def)
qed (auto simp: plan_each_def in_set_enumerate_eq)

locale shard_planner =
  fixes plan :: "'f ShardHeader \<Rightarrow> Range list"
  assumes plan_fits: "wf_shard h \<Longrightarrow> fits (plan h)"
    and plan_nonempty: "wf_shard h \<Longrightarrow> r \<in> set (plan h) \<Longrightarrow> r_len r \<noteq> 0"
    and plan_covers: "wf_shard h \<Longrightarrow> t \<in> set (sh_tensors h) \<Longrightarrow> nbytes t \<noteq> 0 \<Longrightarrow>
      \<exists>r \<in> set (plan h).
        unat (r_offset r) \<le> unat (sh_data_start h) + unat (ti_start t) \<and>
        unat (sh_data_start h) + unat (ti_end t) \<le> unat (r_offset r) + unat (r_len r)"
begin

lemma model_plan_valid:
  assumes "\<forall>h \<in> set hs. wf_shard h" and "(i, r) \<in> set (plan_each plan hs)"
  shows "i < length hs \<and> r_len r \<noteq> 0 \<and> unat (r_offset r) + unat (r_len r) < 2 ^ 64"
proof -
  have i: "i < length hs" and r: "r \<in> set (plan (hs ! i))"
    using assms(2) by (simp_all add: plan_each_mem)
  have "wf_shard (hs ! i)" using assms(1) i by simp
  with r have "r_len r \<noteq> 0" and "fits (plan (hs ! i))"
    by (simp_all add: plan_nonempty plan_fits)
  with i r show ?thesis unfolding fits_def by blast
qed

lemma model_plan_covers:
  assumes "\<forall>h \<in> set hs. wf_shard h" and "i < length hs" and "t \<in> set (sh_tensors (hs ! i))"
    and "nbytes t \<noteq> 0"
  shows "\<exists>r. (i, r) \<in> set (plan_each plan hs) \<and>
    unat (r_offset r) \<le> unat (sh_data_start (hs ! i)) + unat (ti_start t) \<and>
    unat (sh_data_start (hs ! i)) + unat (ti_end t) \<le> unat (r_offset r) + unat (r_len r)"
  using plan_covers [of "hs ! i" t] assms by (auto simp: plan_each_mem)

end

lemma cand_contains:
  assumes "wf_shard h" and "t \<in> set (sh_tensors h)"
  shows "fst (cand h b t) \<le> unat (sh_data_start h) + unat (ti_start t)"
    and "unat (sh_data_start h) + unat (ti_end t) \<le> snd (cand h b t)"
proof -
  let ?e = "unat (sh_data_start h) + unat (ti_end t)"
  show "fst (cand h b t) \<le> unat (sh_data_start h) + unat (ti_start t)"
    by (simp add: cand_def floor_mult_le)
  have "?e \<le> 2 ^ 64 - 1"
    using order_trans [OF wf_shard_tensor_bounds(4) [OF assms] unat_le_u64_num] by simp
  moreover have "?e \<le> ceil_mult ?e (blk b)" by (rule ceil_mult_ge) simp
  ultimately show "?e \<le> snd (cand h b t)" by (simp add: cand_def)
qed

lemma ivl_of_mem:
  "(a, b) \<in> set (map ivl_of out) \<longleftrightarrow>
     (\<exists>r \<in> set out. a = unat (r_offset r) \<and> b = unat (r_offset r) + unat (r_len r))"
  by (auto simp: ivl_of_def)

lemma ivls_cover_tensor:
  assumes "wf_shard h" "t \<in> set (sh_tensors h)" "nbytes t \<noteq> 0"
    and "\<And>a b'. (a, b') \<in> set (cands h b) \<Longrightarrow>
           \<exists>ra rb. (ra, rb) \<in> set (map ivl_of out) \<and> ra \<le> a \<and> b' \<le> rb"
  shows "\<exists>r \<in> set out. unat (r_offset r) \<le> unat (sh_data_start h) + unat (ti_start t) \<and>
     unat (sh_data_start h) + unat (ti_end t) \<le> unat (r_offset r) + unat (r_len r)"
proof -
  have "(fst (cand h b t), snd (cand h b t)) \<in> set (cands h b)"
    using assms(2,3) by (auto simp: cands_def)
  from assms(4) [OF this] obtain r where "r \<in> set out"
    "unat (r_offset r) \<le> fst (cand h b t)" "snd (cand h b t) \<le> unat (r_offset r) + unat (r_len r)"
    unfolding ivl_of_mem by blast
  with cand_contains [OF assms(1,2), of b] show ?thesis by (meson order_trans)
qed

lemma ivls_nonempty:
  assumes "\<And>a b. (a, b) \<in> set (map ivl_of out) \<Longrightarrow> a < b" and "r \<in> set out"
  shows "r_len r \<noteq> 0"
proof -
  have "unat (r_offset r) < unat (r_offset r) + unat (r_len r)"
    using assms(2) by (intro assms(1)) (auto simp: ivl_of_def)
  then show ?thesis by auto
qed

interpretation merged: shard_planner "\<lambda>h. plan_shard h block max_gap" for block max_gap
proof
  fix h :: "'a ShardHeader" assume wf: "wf_shard h"
  show "fits (plan_shard h block max_gap)" by (rule plan_shard_merge(2) [OF wf])
  show "r_len r \<noteq> 0" if "r \<in> set (plan_shard h block max_gap)" for r
    by (rule ivls_nonempty [OF _ that])
      (unfold plan_shard_merge(1) [OF wf], rule merge_ivls_nonempty [OF good_cands [OF wf]])
  show "\<exists>r \<in> set (plan_shard h block max_gap).
        unat (r_offset r) \<le> unat (sh_data_start h) + unat (ti_start t) \<and>
        unat (sh_data_start h) + unat (ti_end t) \<le> unat (r_offset r) + unat (r_len r)"
    if "t \<in> set (sh_tensors h)" "nbytes t \<noteq> 0" for t
    by (rule ivls_cover_tensor [OF wf that, of block])
      (unfold plan_shard_merge(1) [OF wf], rule merge_ivls_covers [OF _ good_cands [OF wf]])
qed

interpretation unmerged: shard_planner "\<lambda>h. plan_shard_unmerged h block" for block
proof
  fix h :: "'a ShardHeader" assume wf: "wf_shard h"
  note eq = plan_shard_unmerged_cands [OF wf]
  show "fits (plan_shard_unmerged h block)"
    unfolding fits_def
  proof
    fix r assume "r \<in> set (plan_shard_unmerged h block)"
    then have "ivl_of r \<in> set (cands h block)" by (metis eq image_eqI image_set)
    then show "unat (r_offset r) + unat (r_len r) < 2 ^ 64"
      using cands_bound [of "ivl_of r" h block] by (simp add: ivl_of_def)
  qed
  show "r_len r \<noteq> 0" if "r \<in> set (plan_shard_unmerged h block)" for r
    by (rule ivls_nonempty [OF _ that])
      (use good_cands [OF wf, of block] in \<open>fastforce simp: eq good_ivls_def\<close>)
  show "\<exists>r \<in> set (plan_shard_unmerged h block).
        unat (r_offset r) \<le> unat (sh_data_start h) + unat (ti_start t) \<and>
        unat (sh_data_start h) + unat (ti_end t) \<le> unat (r_offset r) + unat (r_len r)"
    if "t \<in> set (sh_tensors h)" "nbytes t \<noteq> 0" for t
    by (rule ivls_cover_tensor [OF wf that, of block]) (unfold eq, blast)
qed

section \<open>Properties of the plan\<close>

text \<open>C1. Nothing is missed: for every tensor with at least one byte, some planned request of its
  shard contains the tensor's whole absolute byte range, whatever the block size and gap.\<close>

theorem plan_shard_covers:
  assumes "wf_shard h" and "t \<in> set (sh_tensors h)" and "nbytes t \<noteq> 0"
  shows "\<exists>r \<in> set (plan_shard h block max_gap).
     unat (r_offset r) \<le> unat (sh_data_start h) + unat (ti_start t) \<and>
     unat (sh_data_start h) + unat (ti_end t) \<le> unat (r_offset r) + unat (r_len r)"
  by (rule merged.plan_covers [OF assms])

lemma cand_aligned:
  assumes "wf_shard h" and "t \<in> set (sh_tensors h)" and "0 < block"
    and "unat (sh_file_size h) + unat block \<le> 2 ^ 64"
  shows "cand h block t =
      (floor_mult (unat (sh_data_start h) + unat (ti_start t)) (unat block),
       ceil_mult (unat (sh_data_start h) + unat (ti_end t)) (unat block))"
    and "snd (cand h block t) \<le> ceil_mult (unat (sh_file_size h)) (unat block)"
proof -
  have pos: "0 < unat block" using assms(3) by (simp add: word_less_nat_alt)
  then have b: "blk block = unat block" by (simp add: blk_def)
  let ?e = "unat (sh_data_start h) + unat (ti_end t)"
  have "ceil_mult ?e (unat block) < 2 ^ 64"
    using ceil_mult_less [OF pos, of ?e] wf_shard_tensor_bounds(4) [OF assms(1,2)] assms(4)
    by linarith
  then show 1: "cand h block t =
      (floor_mult (unat (sh_data_start h) + unat (ti_start t)) (unat block),
       ceil_mult (unat (sh_data_start h) + unat (ti_end t)) (unat block))"
    by (simp add: cand_def b)
  show "snd (cand h block t) \<le> ceil_mult (unat (sh_file_size h)) (unat block)"
    unfolding 1 snd_conv by (rule ceil_mult_mono) (rule wf_shard_tensor_bounds(4) [OF assms(1,2)])
qed

lemma plan_range_aligned:
  assumes "wf_shard h" and "0 < block" and "unat (sh_file_size h) + unat block \<le> 2 ^ 64"
    and "r \<in> set (plan_shard h block max_gap)"
  shows "unat block dvd unat (r_offset r) \<and> unat block dvd unat (r_len r) \<and> r_len r \<noteq> 0 \<and>
    unat (r_offset r) + unat (r_len r) \<le> ceil_mult (unat (sh_file_size h)) (unat block)"
proof -
  have "ivl_of r \<in> set (merge_ivls (unat max_gap) (cands h block))"
    using assms(4) by (metis plan_shard_merge(1) [OF assms(1)] image_eqI image_set)
  then obtain t u where t: "t \<in> set (sh_tensors h)" "unat (r_offset r) = fst (cand h block t)"
    and u: "u \<in> set (sh_tensors h)" "unat (r_offset r) + unat (r_len r) = snd (cand h block u)"
    using merge_ivls_endpoints [of "fst (ivl_of r)" "snd (ivl_of r)" "unat max_gap" "cands h block"]
    by (auto simp: ivl_of_def cands_def)
  note ct = cand_aligned [OF assms(1) t(1) assms(2,3)] and cu = cand_aligned [OF assms(1) u(1) assms(2,3)]
  have off: "unat block dvd unat (r_offset r)" using t(2) ct(1) by (simp add: floor_mult_dvd)
  have "unat block dvd unat (r_offset r) + unat (r_len r)" using u(2) cu(1) by (simp add: ceil_mult_dvd)
  with off have "unat block dvd unat (r_len r)" by (simp add: dvd_add_right_iff)
  with off u(2) cu(2) merged.plan_nonempty [OF assms(1,4)] show ?thesis by simp
qed

text \<open>C7. Every planned request is legal for direct I/O: offset and length are multiples of the
  block size, the length is not zero, and the request ends no later than the file size rounded up
  to a block. (The file must end at least one block before the largest 64-bit number.)\<close>

theorem plan_shard_aligned:
  assumes "wf_shard h" and "0 < block" and "unat (sh_file_size h) + unat block \<le> 2 ^ 64"
    and "r \<in> set (plan_shard h block max_gap)"
  shows "unat block dvd unat (r_offset r) \<and> unat block dvd unat (r_len r) \<and> r_len r \<noteq> 0 \<and>
    unat (r_offset r) + unat (r_len r) \<le> ceil_mult (unat (sh_file_size h)) (unat block)"
  by (rule plan_range_aligned [OF assms])

text \<open>Requests come in file order and never touch: each one starts more than \<open>max_gap\<close> bytes
  after the end of the one before it, so no byte is requested twice.\<close>

lemma plan_shard_separated:
  assumes "wf_shard h"
  shows "separated (unat max_gap) (map ivl_of (plan_shard h block max_gap))"
  unfolding plan_shard_merge(1) [OF assms] by (rule merge_ivls_separated [OF good_cands [OF assms]])

lemma floor_mult_le_iff: "0 < b \<Longrightarrow> floor_mult s b \<le> x \<longleftrightarrow> s div b \<le> x div b"
  by (simp add: floor_mult_def less_eq_div_iff_mult_less_eq)

lemma less_ceil_mult_iff:
  assumes "0 < b" and "0 < e"
  shows "x < ceil_mult e b \<longleftrightarrow> x div b \<le> (e - 1) div b"
proof -
  have eb: "e + b - 1 = (e - 1) + b" using assms(2) by simp
  have "b \<noteq> 0" using assms(1) by simp
  then have "(e - 1 + b) div b = (e - 1) div b + 1" by (rule div_add_self2)
  then have "ceil_mult e b = ((e - 1) div b + 1) * b" by (simp only: ceil_mult_def eb)
  then have "x < ceil_mult e b \<longleftrightarrow> x div b < (e - 1) div b + 1"
    using div_less_iff_less_mult [OF assms(1), of x "(e - 1) div b + 1"] by simp
  then show ?thesis by linarith
qed

lemma block_touch:
  assumes "0 < b" and "s < e"
  shows "floor_mult s b \<le> x \<and> x < ceil_mult e b \<longleftrightarrow> (\<exists>y. s \<le> y \<and> y < e \<and> y div b = x div b)"
proof -
  have "s div b \<le> x div b \<and> x div b \<le> (e - 1) div b \<longleftrightarrow> (\<exists>y. s \<le> y \<and> y < e \<and> y div b = x div b)"
    (is "?l \<longleftrightarrow> ?r")
  proof
    assume l: ?l
    consider "x < s" | "s \<le> x" "x < e" | "e \<le> x" by linarith
    then show ?r
    proof cases
      case 1
      then have "x div b \<le> s div b" by (intro div_le_mono) simp
      with l assms(2) show ?thesis by (intro exI [of _ s]) simp
    next
      case 3
      then have "(e - 1) div b \<le> x div b" by (intro div_le_mono) simp
      with l assms(2) show ?thesis by (intro exI [of _ "e - 1"]) simp
    qed blast
  next
    assume ?r
    then obtain y where y: "s \<le> y" "y \<le> e - 1" "y div b = x div b" by fastforce
    with div_le_mono [OF y(1), of b] div_le_mono [OF y(2), of b] show ?l by simp
  qed
  with floor_mult_le_iff [OF assms(1), of s x] less_ceil_mult_iff [OF assms(1), of e x] assms(2)
  show ?thesis by simp
qed

text \<open>C8. With a zero gap merging wastes nothing: the plan requests exactly the blocks that hold
  at least one tensor byte, the same bytes as the one-request-per-tensor control plan, and never
  more bytes in total than the control plan.\<close>

theorem plan_shard_exact:
  assumes "wf_shard h" and "0 < block" and "unat (sh_file_size h) + unat block \<le> 2 ^ 64"
  shows "(x \<in> ivl_bytes (map ivl_of (plan_shard h block 0)) \<longleftrightarrow>
      (\<exists>t \<in> set (sh_tensors h). \<exists>y. unat (sh_data_start h) + unat (ti_start t) \<le> y \<and>
         y < unat (sh_data_start h) + unat (ti_end t) \<and> y div unat block = x div unat block)) \<and>
    ivl_bytes (map ivl_of (plan_shard h block 0)) = ivl_bytes (map ivl_of (plan_shard_unmerged h block)) \<and>
    ivl_total (map ivl_of (plan_shard h block 0)) \<le> ivl_total (map ivl_of (plan_shard_unmerged h block))"
proof -
  note good = good_cands [OF assms(1), of block]
  have merged: "map ivl_of (plan_shard h block 0) = merge_ivls 0 (cands h block)"
    by (simp add: plan_shard_merge(1) [OF assms(1)])
  have pos: "0 < unat block" using assms(2) by (simp add: word_less_nat_alt)
  have "x \<in> ivl_bytes (cands h block) \<longleftrightarrow>
      (\<exists>t \<in> set (sh_tensors h). nbytes t \<noteq> 0 \<and> fst (cand h block t) \<le> x \<and> x < snd (cand h block t))"
    by (auto simp: ivl_bytes_def cands_def split_beta)
  also have "\<dots> \<longleftrightarrow> (\<exists>t \<in> set (sh_tensors h).
      \<exists>y. unat (sh_data_start h) + unat (ti_start t) \<le> y \<and>
         y < unat (sh_data_start h) + unat (ti_end t) \<and> y div unat block = x div unat block)"
  proof (rule bex_cong [OF refl])
    fix t assume t: "t \<in> set (sh_tensors h)"
    show "(nbytes t \<noteq> 0 \<and> fst (cand h block t) \<le> x \<and> x < snd (cand h block t)) =
      (\<exists>y. unat (sh_data_start h) + unat (ti_start t) \<le> y \<and>
         y < unat (sh_data_start h) + unat (ti_end t) \<and> y div unat block = x div unat block)"
    proof (cases "nbytes t \<noteq> 0")
      case True
      then have "unat (sh_data_start h) + unat (ti_start t) < unat (sh_data_start h) + unat (ti_end t)"
        using nbytes_nonzero [OF assms(1) t] by simp
      from block_touch [OF pos this, of x] True show ?thesis
        by (simp add: cand_aligned(1) [OF assms(1) t assms(2,3)])
    next
      case False
      then have "\<not> unat (ti_start t) < unat (ti_end t)" using nbytes_nonzero [OF assms(1) t] by simp
      with False show ?thesis by auto
    qed
  qed
  finally show ?thesis
    unfolding merged plan_shard_unmerged_cands [OF assms(1)]
    using merge_ivls_exact [OF good] merge_ivls_total [OF good] by simp
qed

section \<open>Witnesses\<close>

definition ex_plan_shard :: "nat ShardHeader" where
  "ex_plan_shard = \<lparr>sh_path = lit ''m'', sh_file_size = 40, sh_header_len = 2, sh_data_start = 10,
     sh_metadata = None, sh_tensors =
       [\<lparr>ti_name = lit ''a'', ti_dtype = U8, ti_shape = [3], ti_start = 0, ti_end = 3\<rparr>,
        \<lparr>ti_name = lit ''e'', ti_dtype = U8, ti_shape = [0], ti_start = 3, ti_end = 3\<rparr>,
        \<lparr>ti_name = lit ''b'', ti_dtype = F16, ti_shape = [2, 2], ti_start = 20, ti_end = 28\<rparr>]\<rparr>"

definition ex_b :: TensorInfo where
  "ex_b = \<lparr>ti_name = lit ''b'', ti_dtype = F16, ti_shape = [2, 2], ti_start = 20, ti_end = 28\<rparr>"

lemma ex_plan_wf: "wf_shard ex_plan_shard"
  by (simp add: wf_shard_def ex_plan_shard_def wf_tensor_def)

lemma ex_plan: "plan_shard ex_plan_shard 8 0 =
    [\<lparr>r_offset = 8, r_len = 8\<rparr>, \<lparr>r_offset = 24, r_len = 16\<rparr>]"
  by (simp add: plan_shard_def ex_plan_shard_def plan_step_def nbytes_def abs_range_def floor_to_def
      ceil_to_def div_ceil_def saturating_mul_def saturating_add_def Range_end_def max_def min_def
      Let_def word_le_nat_alt word_less_nat_alt)

lemma ex_b_mem: "ex_b \<in> set (sh_tensors ex_plan_shard)" "nbytes ex_b \<noteq> 0"
  by (simp_all add: ex_b_def ex_plan_shard_def nbytes_def)

theorem plan_shard_covers_witness:
  "wf_shard ex_plan_shard \<and> (\<exists>r \<in> set (plan_shard ex_plan_shard 8 0).
     unat (r_offset r) \<le> 30 \<and> 38 \<le> unat (r_offset r) + unat (r_len r))"
  using ex_plan_wf plan_shard_covers [OF ex_plan_wf ex_b_mem, of 8 0]
  by (simp add: ex_b_def ex_plan_shard_def)

lemma ex_plan_hyps: "0 < (8 :: u64)" "unat (sh_file_size ex_plan_shard) + unat (8 :: u64) \<le> 2 ^ 64"
  by (simp_all add: ex_plan_shard_def)

lemma ex_plan_size: "unat (sh_file_size ex_plan_shard) = 40"
  by (simp add: ex_plan_shard_def)

theorem plan_shard_aligned_witness:
  "\<lparr>r_offset = 24, r_len = 16\<rparr> \<in> set (plan_shard ex_plan_shard 8 0) \<and>
   (8::nat) dvd 24 \<and> (8::nat) dvd 16 \<and> 24 + 16 \<le> ceil_mult 40 8"
proof -
  have mem: "\<lparr>r_offset = 24, r_len = 16\<rparr> \<in> set (plan_shard ex_plan_shard 8 0)"
    by (simp add: ex_plan)
  from plan_shard_aligned [OF ex_plan_wf ex_plan_hyps mem] mem show ?thesis
    by (simp add: ex_plan_size)
qed

theorem plan_shard_separated_witness:
  "wf_shard ex_plan_shard \<and> separated 0 (map ivl_of (plan_shard ex_plan_shard 8 0))"
  using ex_plan_wf plan_shard_separated [OF ex_plan_wf, of 0 8] by simp

theorem plan_shard_exact_witness:
  "wf_shard ex_plan_shard \<and>
   ivl_bytes (map ivl_of (plan_shard ex_plan_shard 8 0)) =
     ivl_bytes (map ivl_of (plan_shard_unmerged ex_plan_shard 8)) \<and>
   ivl_total (map ivl_of (plan_shard ex_plan_shard 8 0)) \<le>
     ivl_total (map ivl_of (plan_shard_unmerged ex_plan_shard 8))"
  using plan_shard_exact [OF ex_plan_wf ex_plan_hyps, of 31] ex_plan_wf by blast

end
