(* ===== verification/St_Reader.thy ===== *)
theory St_Reader
  imports St_Plan "HOL-Library.Multiset"
begin

text \<open>
  The read engine of the streaming loader (\<open>stloader/src/reader.rs\<close>) with its aligned buffers
  (\<open>aligned.rs\<close>): plan validation, the expansion of ranges into block-aligned chunk requests,
  the io_uring loop (fill the submission queue from the free buffer pool, wait, reap the
  completions) as a step relation, and the verification reader \<open>read_small_range\<close>. The kernel is
  the environment of the step relation: it takes queued entries in order and completes entries it
  owns in any order with any result. Elapsed time is not modelled.
\<close>

section \<open>Configuration, statistics and errors\<close>

record ReadConfig =
  depth :: nat
  chunk_bytes :: u64
  direct :: bool
  cfg_block :: u64

definition ReadConfig_default :: ReadConfig where
  "ReadConfig_default = \<lparr>depth = 32, chunk_bytes = 0x100000, direct = True, cfg_block = 4096\<rparr>"

record ReadStats =
  st_bytes :: u64
  st_requests :: u64
  st_short_reads :: u64

definition ReadStats_default :: ReadStats where
  "ReadStats_default = \<lparr>st_bytes = 0, st_requests = 0, st_short_reads = 0\<rparr>"

datatype io_error =
    PlanReferencesShard nat nat
  | ZeroLengthRange u64
  | OsError int
  | ReadPastEof nat

section \<open>Aligned buffers\<close>

function next_power_of_two_from :: "nat \<Rightarrow> nat \<Rightarrow> nat" where
  "next_power_of_two_from n p =
     (if n \<le> Suc p then Suc p else next_power_of_two_from n (Suc (2 * p)))"
  by auto
termination by (relation "measure (\<lambda>(n, p). n - p)") auto

declare next_power_of_two_from.simps [simp del]

text \<open>\<open>usize::next_power_of_two\<close>; the accumulator is the power minus one.\<close>

definition next_power_of_two :: "nat \<Rightarrow> nat" where
  "next_power_of_two n = next_power_of_two_from n 0"

record AlignedBuf =
  ab_ptr :: nat
  ab_size :: nat
  ab_align :: nat

text \<open>\<open>Layout::from_size_align\<close> fails when the size rounded up to the alignment exceeds
  \<open>isize::MAX\<close>; that and a null pointer are the panics of \<open>AlignedBuf::new\<close>.\<close>

definition AlignedBuf_new :: "(nat \<Rightarrow> nat \<Rightarrow> nat option) \<Rightarrow> nat \<Rightarrow> nat \<Rightarrow> AlignedBuf option" where
  "AlignedBuf_new alloc len align =
     (let align = next_power_of_two (max align 64);
          size = max len 1
      in if ceil_mult size align < 2 ^ 63
         then map_option (\<lambda>p. \<lparr>ab_ptr = p, ab_size = size, ab_align = align\<rparr>) (alloc size align)
         else None)"

definition is_aligned :: "AlignedBuf \<Rightarrow> nat \<Rightarrow> bool" where
  "is_aligned b align \<longleftrightarrow> ab_ptr b mod align = 0"

definition AlignedBuf_len :: "AlignedBuf \<Rightarrow> nat" where
  "AlignedBuf_len b = ab_size b"

definition AlignedBuf_is_empty :: "AlignedBuf \<Rightarrow> bool" where
  "AlignedBuf_is_empty b \<longleftrightarrow> AlignedBuf_len b = 0"

section \<open>From ranges to chunk requests\<close>

type_synonym job = "nat \<times> u64 \<times> u64"

fun check_plan_entries :: "nat \<Rightarrow> (nat \<times> Range) list \<Rightarrow> io_error + unit" where
  "check_plan_entries n [] = Inr ()"
| "check_plan_entries n ((fi, r) # rest) =
     (if n \<le> fi then Inl (PlanReferencesShard fi n)
      else if r_len r = 0 then Inl (ZeroLengthRange (r_offset r))
      else check_plan_entries n rest)"

definition job_block :: "ReadConfig \<Rightarrow> u64" where
  "job_block cfg = max (cfg_block cfg) 1"

definition job_chunk :: "ReadConfig \<Rightarrow> u64" where
  "job_chunk cfg = ceil_to (max (max (chunk_bytes cfg) (cfg_block cfg)) 1) (job_block cfg)"

lemma unat_job_chunk: "unat (job_chunk cfg) =
    min (2 ^ 64 - 1) (ceil_mult (max (max (unat (chunk_bytes cfg)) (unat (cfg_block cfg))) 1)
      (blk (cfg_block cfg)))"
  by (simp add: job_chunk_def job_block_def u64_nat)

lemma job_chunk_pos: "0 < unat (job_chunk cfg)"
  using ceil_mult_ge [of "blk (cfg_block cfg)" "max (max (unat (chunk_bytes cfg)) (unat (cfg_block cfg))) 1"]
  by (simp add: unat_job_chunk)

function chunk_jobs :: "ReadConfig \<Rightarrow> nat \<Rightarrow> u64 \<Rightarrow> u64 \<Rightarrow> job list" where
  "chunk_jobs cfg fi off end =
     (if off < end then
        let want = min (job_chunk cfg) (end - off);
            len = ceil_to want (job_block cfg)
        in (fi, off, len) # chunk_jobs cfg fi (off + want) end
      else [])"
  by auto
termination
proof (relation "measure (\<lambda>(cfg, fi, off, end). unat end - unat off)", goal_cases)
  case (2 cfg fi off "end" want len)
  have d: "unat (end - off) = unat end - unat off" and lt: "unat off < unat end"
    using 2(1) by (simp_all add: unat_sub_u64 word_less_nat_alt word_le_nat_alt)
  have w: "unat want = min (unat (job_chunk cfg)) (unat end - unat off)"
    using 2(2) d by (simp add: unat_min_word)
  have "unat (off + want) = unat off + unat want"
    using w lt unat_lt_u64 [of "end"] by (intro unat_add_u64) linarith
  then show ?case using w lt job_chunk_pos [of cfg] by simp
qed simp

declare chunk_jobs.simps [simp del]

definition plan_jobs :: "ReadConfig \<Rightarrow> (nat \<times> Range) list \<Rightarrow> job list" where
  "plan_jobs cfg plan =
     concat (map (\<lambda>(fi, r). chunk_jobs cfg fi (r_offset r) (r_offset r + r_len r)) plan)"

section \<open>The submission loop\<close>

record sqe =
  sq_fd :: nat
  sq_slot :: nat
  sq_len :: u32
  sq_off :: u64

text \<open>The program's variables and the ring: \<open>sq\<close> holds the entries pushed and not yet taken by
  the kernel, \<open>kern\<close> those the kernel owns. \<open>reaped\<close> records the completions the loop has
  consumed, in order.\<close>

record engine =
  en_next :: nat
  en_free :: "nat list"
  en_expect :: "u64 list"
  en_inflight :: nat
  en_stats :: ReadStats
  en_sq :: "sqe list"
  en_kern :: "sqe multiset"
  en_reaped :: "(sqe \<times> int) list"

definition engine_init :: "nat \<Rightarrow> engine" where
  "engine_init d = \<lparr>en_next = 0, en_free = rev [0..<d], en_expect = replicate d 0,
     en_inflight = 0, en_stats = ReadStats_default, en_sq = [], en_kern = {#}, en_reaped = []\<rparr>"

text \<open>\<open>SubmissionQueue::push\<close> fails when the queue is full.\<close>

definition sq_push :: "nat \<Rightarrow> sqe list \<Rightarrow> sqe \<Rightarrow> sqe list option" where
  "sq_push cap q e = (if length q < cap then Some (q @ [e]) else None)"

definition job_entry :: "nat list \<Rightarrow> nat \<Rightarrow> job \<Rightarrow> sqe" where
  "job_entry fds slot j =
     (case j of (fi, off, len) \<Rightarrow>
       \<lparr>sq_fd = fds ! fi, sq_slot = slot, sq_len = ucast len, sq_off = off\<rparr>)"

function fill :: "nat \<Rightarrow> nat list \<Rightarrow> job list \<Rightarrow> engine \<Rightarrow> engine" where
  "fill cap fds jobs s =
     (if en_next s < length jobs \<and> en_free s \<noteq> [] \<and> length (en_sq s) < cap then
        let slot = last (en_free s);
            (fi, off, len) = jobs ! en_next s
        in (case sq_push cap (en_sq s) (job_entry fds slot (fi, off, len)) of
              Some q \<Rightarrow>
                fill cap fds jobs
                  (s\<lparr>en_sq := q, en_free := butlast (en_free s),
                     en_expect := (en_expect s)[slot := len],
                     en_next := en_next s + 1, en_inflight := en_inflight s + 1\<rparr>)
            | None \<Rightarrow> s)
      else s)"
  by auto
termination by (relation "measure (\<lambda>(cap, fds, jobs, s). length jobs - en_next s)") auto

declare fill.simps [simp del]

fun reap :: "engine \<Rightarrow> (sqe \<times> int) list \<Rightarrow> io_error + engine" where
  "reap s [] = Inr s"
| "reap s ((e, res) # cs) =
     (let slot = sq_slot e in
      if res < 0 then Inl (OsError (- res))
      else
        let n = nat res; st = en_stats s;
            short = (if n < unat (en_expect s ! slot) then 1 else 0)
        in reap (s\<lparr>en_stats := \<lparr>st_bytes = st_bytes st + word_of_nat n,
                               st_requests = st_requests st + 1,
                               st_short_reads = st_short_reads st + short\<rparr>,
                   en_free := en_free s @ [slot], en_inflight := en_inflight s - 1,
                   en_reaped := en_reaped s @ [(e, res)]\<rparr>) cs)"

text \<open>The kernel behind \<open>submit_and_wait(1)\<close>: it takes some of the queued entries, in order, and
  at least one entry it owns has completed when the call returns.\<close>

definition submit_and_wait :: "engine \<Rightarrow> (sqe \<times> int) list \<Rightarrow> engine \<Rightarrow> bool" where
  "submit_and_wait s cs s' \<longleftrightarrow>
     cs \<noteq> [] \<and>
     (\<exists>k \<le> length (en_sq s).
        mset (map fst cs) \<subseteq># en_kern s + mset (take k (en_sq s)) \<and>
        s' = s\<lparr>en_sq := drop k (en_sq s),
               en_kern := en_kern s + mset (take k (en_sq s)) - mset (map fst cs)\<rparr>)"

datatype outcome = Run engine | Finished ReadStats | Failed io_error

inductive ring_step :: "nat \<Rightarrow> nat list \<Rightarrow> job list \<Rightarrow> outcome \<Rightarrow> outcome \<Rightarrow> bool"
  for cap fds jobs where
  finish: "en_inflight (fill cap fds jobs s) = 0 \<Longrightarrow>
     ring_step cap fds jobs (Run s) (Finished (en_stats (fill cap fds jobs s)))"
| submit_error: "en_inflight (fill cap fds jobs s) \<noteq> 0 \<Longrightarrow>
     ring_step cap fds jobs (Run s) (Failed (OsError errno))"
| complete: "en_inflight (fill cap fds jobs s) \<noteq> 0 \<Longrightarrow>
     submit_and_wait (fill cap fds jobs s) cs t \<Longrightarrow> reap t cs = Inr u \<Longrightarrow>
     ring_step cap fds jobs (Run s) (Run u)"
| complete_error: "en_inflight (fill cap fds jobs s) \<noteq> 0 \<Longrightarrow>
     submit_and_wait (fill cap fds jobs s) cs t \<Longrightarrow> reap t cs = Inl e \<Longrightarrow>
     ring_step cap fds jobs (Run s) (Failed e)"

inductive_cases ring_step_RunE: "ring_step cap fds jobs (Run s) c"
inductive_cases ring_step_ToRunE: "ring_step cap fds jobs c (Run s)"
inductive_cases ring_step_ToFinishedE: "ring_step cap fds jobs c (Finished st)"
inductive_simps ring_step_Finished [simp]: "ring_step cap fds jobs (Finished st) c"
inductive_simps ring_step_Failed [simp]: "ring_step cap fds jobs (Failed e) c"

definition ring_entries :: "nat \<Rightarrow> nat" where
  "ring_entries d = max (next_power_of_two d) 2"

definition pool_depth :: "ReadConfig \<Rightarrow> nat" where
  "pool_depth cfg = max (depth cfg) 1"

text \<open>\<open>read_files\<close> as a relation between its arguments and its result; \<open>open_file\<close> and
  \<open>ring_new\<close> are the calls into the operating system.\<close>

inductive read_files ::
  "(rstr \<Rightarrow> bool \<Rightarrow> io_error + nat) \<Rightarrow> (nat \<Rightarrow> io_error + unit) \<Rightarrow> rstr list \<Rightarrow>
   (nat \<times> Range) list \<Rightarrow> ReadConfig \<Rightarrow> io_error + ReadStats \<Rightarrow> bool"
  for open_file ring_new files plan cfg where
  bad_plan: "check_plan_entries (length files) plan = Inl e \<Longrightarrow>
     read_files open_file ring_new files plan cfg (Inl e)"
| empty_plan: "plan = [] \<Longrightarrow> read_files open_file ring_new files plan cfg (Inr ReadStats_default)"
| open_failed: "check_plan_entries (length files) plan = Inr () \<Longrightarrow> plan \<noteq> [] \<Longrightarrow>
     collect_result (\<lambda>p. open_file p (direct cfg)) files = Inl e \<Longrightarrow>
     read_files open_file ring_new files plan cfg (Inl e)"
| ring_failed: "check_plan_entries (length files) plan = Inr () \<Longrightarrow> plan \<noteq> [] \<Longrightarrow>
     collect_result (\<lambda>p. open_file p (direct cfg)) files = Inr fds \<Longrightarrow>
     ring_new (ring_entries (pool_depth cfg)) = Inl e \<Longrightarrow>
     read_files open_file ring_new files plan cfg (Inl e)"
| run_failed: "check_plan_entries (length files) plan = Inr () \<Longrightarrow> plan \<noteq> [] \<Longrightarrow>
     collect_result (\<lambda>p. open_file p (direct cfg)) files = Inr fds \<Longrightarrow>
     ring_new (ring_entries (pool_depth cfg)) = Inr () \<Longrightarrow>
     (ring_step (ring_entries (pool_depth cfg)) fds (plan_jobs cfg plan))\<^sup>*\<^sup>*
       (Run (engine_init (pool_depth cfg))) (Failed e) \<Longrightarrow>
     read_files open_file ring_new files plan cfg (Inl e)"
| run_finished: "check_plan_entries (length files) plan = Inr () \<Longrightarrow> plan \<noteq> [] \<Longrightarrow>
     collect_result (\<lambda>p. open_file p (direct cfg)) files = Inr fds \<Longrightarrow>
     ring_new (ring_entries (pool_depth cfg)) = Inr () \<Longrightarrow>
     (ring_step (ring_entries (pool_depth cfg)) fds (plan_jobs cfg plan))\<^sup>*\<^sup>*
       (Run (engine_init (pool_depth cfg))) (Finished st) \<Longrightarrow>
     read_files open_file ring_new files plan cfg (Inr st)"

section \<open>Reading a small range\<close>

text \<open>\<open>opened\<close> is the outcome of opening the file, and \<open>pread off n\<close> the system call on the open descriptor: an error number or the bytes
  copied, none at end of file. The bytes read so far are the initialised prefix of the buffer.\<close>

function pread_loop ::
  "(nat \<Rightarrow> nat \<Rightarrow> int + u8 list) \<Rightarrow> nat \<Rightarrow> nat \<Rightarrow> u8 list \<Rightarrow> io_error + u8 list" where
  "pread_loop pread a0 tot acc =
     (if length acc < tot then
        (case pread (a0 + length acc) (tot - length acc) of
           Inl errno \<Rightarrow> Inl (OsError errno)
         | Inr [] \<Rightarrow> Inr acc
         | Inr (b # bs) \<Rightarrow> pread_loop pread a0 tot (acc @ b # bs))
      else Inr acc)"
  by pat_completeness auto
termination by (relation "measure (\<lambda>(pread, a0, tot, acc). tot - length acc)") auto

declare pread_loop.simps [simp del]

definition read_small_range ::
  "io_error + (nat \<Rightarrow> nat \<Rightarrow> int + u8 list) \<Rightarrow> u64 \<Rightarrow> u64 \<Rightarrow> u64 \<Rightarrow> io_error + u8 list" where
  "read_small_range opened offset len block =
     try_bind opened (\<lambda>pread.
      let block = max block 1;
          a0 = floor_to offset block;
          pad = offset - a0;
          tot = ceil_to (pad + len) block
      in try_bind (pread_loop pread (unat a0) (unat tot) []) (\<lambda>buf.
           if length buf < unat pad + unat len then Inl (ReadPastEof (length buf - unat pad))
           else Inr (take (unat len) (drop (unat pad) buf))))"

section \<open>Chunk requests\<close>

lemma chunk_step:
  fixes off "end" :: u64 and cfg :: ReadConfig
  assumes "off < end"
  defines "want \<equiv> min (job_chunk cfg) (end - off)"
  shows "unat want = min (unat (job_chunk cfg)) (unat end - unat off)"
    and "unat (off + want) = unat off + unat want"
    and "unat off + unat want \<le> unat end"
    and "0 < unat want"
    and "unat (ceil_to want (job_block cfg)) = min (2 ^ 64 - 1) (ceil_mult (unat want) (blk (cfg_block cfg)))"
proof -
  have lt: "unat off < unat end" using assms(1) by (simp add: word_less_nat_alt)
  have "unat (end - off) = unat end - unat off"
    using assms(1) by (simp add: unat_sub_u64)
  then show w: "unat want = min (unat (job_chunk cfg)) (unat end - unat off)"
    by (simp add: want_def unat_min_word)
  then show le: "unat off + unat want \<le> unat end" using lt by linarith
  show "unat (off + want) = unat off + unat want"
    using le unat_lt_u64 [of "end"] by (intro unat_add_u64) linarith
  show "0 < unat want" using w lt job_chunk_pos [of cfg] by simp
  show "unat (ceil_to want (job_block cfg)) = min (2 ^ 64 - 1) (ceil_mult (unat want) (blk (cfg_block cfg)))"
    by (simp add: unat_ceil_to job_block_def)
qed

lemma chunk_jobs_mem:
  "(f, o', l) \<in> set (chunk_jobs cfg fi off end) \<Longrightarrow>
   f = fi \<and> unat off \<le> unat o' \<and> unat o' < unat end \<and> l \<noteq> 0 \<and>
   unat (job_chunk cfg) dvd unat o' - unat off \<and>
   unat l = min (2 ^ 64 - 1) (ceil_mult (min (unat (job_chunk cfg)) (unat end - unat o')) (blk (cfg_block cfg)))"
proof (induction cfg fi off "end" rule: chunk_jobs.induct)
  case (1 cfg fi off "end")
  show ?case
  proof (cases "off < end")
    case True
    define want where "want = min (job_chunk cfg) (end - off)"
    note st = chunk_step [OF True, of cfg, folded want_def]
    have lt: "unat off < unat end" using True by (simp add: word_less_nat_alt)
    have mem: "(f, o', l) = (fi, off, ceil_to want (job_block cfg)) \<or>
        (f, o', l) \<in> set (chunk_jobs cfg fi (off + want) end)"
      using "1.prems" True by (subst (asm) chunk_jobs.simps) (simp add: want_def Let_def)
    then show ?thesis
    proof
      assume h: "(f, o', l) = (fi, off, ceil_to want (job_block cfg))"
      have "0 < unat l" using h st(4,5) ceil_mult_ge [of "blk (cfg_block cfg)" "unat want"] by simp
      then have "l \<noteq> 0" by auto
      with h st(1,5) lt show ?thesis by simp
    next
      assume t: "(f, o', l) \<in> set (chunk_jobs cfg fi (off + want) end)"
      note ih = "1.IH" [OF True want_def refl t]
      have "unat (job_chunk cfg) dvd unat o' - unat off"
      proof (cases "unat want = unat (job_chunk cfg)")
        case True
        then have eq: "unat o' - unat off = unat o' - (unat off + unat want) + unat (job_chunk cfg)"
          using ih st(2) by linarith
        have "unat (job_chunk cfg) dvd unat o' - (unat off + unat want)" using ih st(2) by simp
        then show ?thesis unfolding eq by (rule dvd_add) simp
      next
        case False
        then have "unat off + unat want = unat end" using st(1) lt by (simp add: min_def split: if_splits)
        then show ?thesis using ih st(2) by simp
      qed
      with ih st(2) show ?thesis by simp
    qed
  next
    case False
    then show ?thesis using "1.prems" by (simp add: chunk_jobs.simps [of cfg fi off "end"])
  qed
qed

lemma chunk_jobs_cover:
  "unat off \<le> x \<Longrightarrow> x < unat end \<Longrightarrow>
   \<exists>o' l. (fi, o', l) \<in> set (chunk_jobs cfg fi off end) \<and> unat o' \<le> x \<and> x < unat o' + unat l"
proof (induction cfg fi off "end" rule: chunk_jobs.induct)
  case (1 cfg fi off "end")
  then have True: "off < end" by (simp add: word_less_nat_alt)
  define want where "want = min (job_chunk cfg) (end - off)"
  note st = chunk_step [OF True, of cfg, folded want_def]
  have unf: "chunk_jobs cfg fi off end =
      (fi, off, ceil_to want (job_block cfg)) # chunk_jobs cfg fi (off + want) end"
    using True by (subst chunk_jobs.simps) (simp add: want_def Let_def)
  show ?case
  proof (cases "x < unat off + unat want")
    case True
    have "unat want \<le> unat (ceil_to want (job_block cfg))"
      using st(5) ceil_mult_ge [of "blk (cfg_block cfg)" "unat want"] by simp
    with True "1.prems" show ?thesis unfolding unf by (intro exI conjI) (rule list.set_intros(1), simp_all)
  next
    case False
    then have "unat (off + want) \<le> x" using st(2) by simp
    from "1.IH" [OF True want_def refl this "1.prems"(2)] show ?thesis unfolding unf by auto
  qed
qed

lemma ceil_mult_min_chunk:
  assumes "0 < b" and "b dvd c" shows "ceil_mult (min c x) b \<le> c"
  using ceil_mult_mono [of "min c x" c b] ceil_mult_dvd_id [OF assms(2)] by simp

lemma job_len_le_chunk:
  assumes "unat l = min (2 ^ 64 - 1) (ceil_mult (min (unat (job_chunk cfg)) y) (blk (cfg_block cfg)))"
  shows "unat l \<le> unat (job_chunk cfg)"
proof (cases "unat (job_chunk cfg) = 2 ^ 64 - 1")
  case True
  then show ?thesis using assms by simp
next
  case False
  then have "blk (cfg_block cfg) dvd unat (job_chunk cfg)"
    by (simp add: unat_job_chunk ceil_mult_dvd min_def split: if_splits)
  from ceil_mult_min_chunk [OF _ this, of y] assms show ?thesis by simp
qed

lemma plan_jobs_memE:
  assumes "(fi, o', l) \<in> set (plan_jobs cfg plan)"
    and "\<forall>(fi, r) \<in> set plan. unat (r_offset r) + unat (r_len r) < 2 ^ 64"
  obtains r where "(fi, r) \<in> set plan" and "unat (r_offset r) \<le> unat o'"
    and "unat o' < unat (r_offset r) + unat (r_len r)" and "l \<noteq> 0"
    and "unat (job_chunk cfg) dvd unat o' - unat (r_offset r)"
    and "unat l = min (2 ^ 64 - 1) (ceil_mult (min (unat (job_chunk cfg))
       (unat (r_offset r) + unat (r_len r) - unat o')) (blk (cfg_block cfg)))"
proof -
  from assms(1) obtain fj r where r: "(fj, r) \<in> set plan"
    "(fi, o', l) \<in> set (chunk_jobs cfg fj (r_offset r) (r_offset r + r_len r))"
    by (auto simp: plan_jobs_def)
  have "unat (r_offset r + r_len r) = unat (r_offset r) + unat (r_len r)"
    using assms(2) r(1) by (intro unat_add_u64) auto
  with chunk_jobs_mem [OF r(2)] r(1) show thesis by (intro that [of r]) simp_all
qed

context shard_planner
begin

lemma model_jobs_cover_tensor:
  assumes wf: "\<forall>h \<in> set hs. wf_shard h" and i: "i < length hs" and t: "t \<in> set (sh_tensors (hs ! i))"
    and x: "unat (sh_data_start (hs ! i)) + unat (ti_start t) \<le> x"
           "x < unat (sh_data_start (hs ! i)) + unat (ti_end t)"
  shows "\<exists>o' l. (i, o', l) \<in> set (plan_jobs cfg (plan_each plan hs)) \<and> unat o' \<le> x \<and> x < unat o' + unat l"
proof -
  have "wf_shard (hs ! i)" using wf i by simp
  then have nb: "nbytes t \<noteq> 0" using nbytes_nonzero [of "hs ! i" t] t x by simp
  from model_plan_covers [OF wf i t nb] obtain r where r: "(i, r) \<in> set (plan_each plan hs)"
    and c: "unat (r_offset r) \<le> x" "x < unat (r_offset r) + unat (r_len r)"
    using x by (meson le_trans less_le_trans)
  have "unat (r_offset r + r_len r) = unat (r_offset r) + unat (r_len r)"
    using model_plan_valid [OF wf r] by (intro unat_add_u64) simp
  with chunk_jobs_cover [of "r_offset r" x "r_offset r + r_len r" i cfg] c r show ?thesis
    unfolding plan_jobs_def by fastforce
qed

lemma model_plan_accepted:
  assumes wf: "\<forall>h \<in> set hs. wf_shard h"
  shows "check_plan_entries (length hs) (plan_each plan hs) = Inr ()"
proof -
  have "check_plan_entries n p = Inr ()" if "\<forall>(i, r) \<in> set p. i < n \<and> r_len r \<noteq> 0" for n p
    using that by (induction n p rule: check_plan_entries.induct) auto
  moreover have "\<forall>(i, r) \<in> set (plan_each plan hs). i < length hs \<and> r_len r \<noteq> 0"
    using model_plan_valid [OF wf] by blast
  ultimately show ?thesis by blast
qed

end

text \<open>C15. From headers to requests nothing is lost: for every byte of every tensor of every shard of a
  model, the requests the reader expands the model's plan into contain one for that shard that
  spans the byte, and the reader's own plan check accepts the plan.\<close>

theorem plan_model_requests_cover:
  assumes "\<forall>h \<in> set hs. wf_shard h" and "i < length hs" and "t \<in> set (sh_tensors (hs ! i))"
    and "unat (sh_data_start (hs ! i)) + unat (ti_start t) \<le> x"
    and "x < unat (sh_data_start (hs ! i)) + unat (ti_end t)"
  shows "(\<exists>o' l. (i, o', l) \<in> set (plan_jobs cfg (plan_model hs block max_gap)) \<and>
      unat o' \<le> x \<and> x < unat o' + unat l) \<and>
    check_plan_entries (length hs) (plan_model hs block max_gap) = Inr ()"
  unfolding plan_model_def
  using merged.model_jobs_cover_tensor [OF assms] merged.model_plan_accepted [OF assms(1)] by blast

text \<open>Every request is legal: it reads at least one byte, starts inside a planned range of its
  shard, is no longer than the buffer it lands in, and for block-aligned ranges (with the chunk
  size below the 64-bit limit) its offset and length are multiples of the block.\<close>

lemma plan_jobs_legal:
  assumes "\<forall>(fi, r) \<in> set plan. unat (r_offset r) + unat (r_len r) < 2 ^ 64"
    and "(fi, o', l) \<in> set (plan_jobs cfg plan)"
  shows "l \<noteq> 0 \<and> unat l \<le> unat (job_chunk cfg) \<and>
    (\<exists>r. (fi, r) \<in> set plan \<and> unat (r_offset r) \<le> unat o' \<and>
       unat o' < unat (r_offset r) + unat (r_len r) \<and>
       (unat (job_block cfg) dvd unat (r_offset r) \<and> job_chunk cfg \<noteq> u64_MAX \<longrightarrow>
          unat (job_block cfg) dvd unat o' \<and> unat (job_block cfg) dvd unat l))"
proof -
  from plan_jobs_memE [OF assms(2,1)] obtain r where r: "(fi, r) \<in> set plan"
    "unat (r_offset r) \<le> unat o'" "unat o' < unat (r_offset r) + unat (r_len r)" "l \<noteq> 0"
    and dv: "unat (job_chunk cfg) dvd unat o' - unat (r_offset r)"
    and l: "unat l = min (2 ^ 64 - 1) (ceil_mult (min (unat (job_chunk cfg))
       (unat (r_offset r) + unat (r_len r) - unat o')) (blk (cfg_block cfg)))"
    by metis
  have lc: "unat l \<le> unat (job_chunk cfg)" by (rule job_len_le_chunk [OF l])
  have bb: "unat (job_block cfg) = blk (cfg_block cfg)"
    unfolding job_block_def by (rule unat_max_one)
  have "unat (job_block cfg) dvd unat o' \<and> unat (job_block cfg) dvd unat l"
    if a: "unat (job_block cfg) dvd unat (r_offset r)" and m: "job_chunk cfg \<noteq> u64_MAX"
  proof -
    have "unat (job_chunk cfg) \<noteq> unat u64_MAX" using m unsigned_word_eqI by blast
    then have lt: "unat (job_chunk cfg) < 2 ^ 64 - 1"
      using unat_le_u64_num [of "job_chunk cfg"] by (simp del: unat_le_u64_num)
    then have bc: "blk (cfg_block cfg) dvd unat (job_chunk cfg)"
      by (simp add: unat_job_chunk ceil_mult_dvd min_def split: if_splits)
    have "blk (cfg_block cfg) dvd unat o' - unat (r_offset r) + unat (r_offset r)"
      using bc dv a bb by (metis dvd_add dvd_trans)
    moreover have "blk (cfg_block cfg) dvd unat l"
    proof -
      have "unat l < 2 ^ 64 - 1" using lc lt by simp
      then show ?thesis using l by (simp add: ceil_mult_dvd min_def split: if_splits)
    qed
    ultimately show ?thesis using r(2) bb by simp
  qed
  with r lc show ?thesis by blast
qed

section \<open>The ring invariant\<close>

definition request_of :: "sqe \<Rightarrow> nat \<times> u64 \<times> u32" where
  "request_of e = (sq_fd e, sq_off e, sq_len e)"

definition request_for :: "nat list \<Rightarrow> job \<Rightarrow> nat \<times> u64 \<times> u32" where
  "request_for fds j = (case j of (fi, off, len) \<Rightarrow> (fds ! fi, off, ucast len))"

definition outstanding :: "engine \<Rightarrow> sqe multiset" where
  "outstanding s = mset (en_sq s) + en_kern s"

definition short_read :: "sqe \<times> int \<Rightarrow> bool" where
  "short_read c \<longleftrightarrow> nat (snd c) < unat (sq_len (fst c))"

definition narrow_jobs :: "job list \<Rightarrow> bool" where
  "narrow_jobs jobs \<longleftrightarrow> (\<forall>(fi, off, len) \<in> set jobs. unat len < 2 ^ 32)"

text \<open>The buffer pool: every slot is either free or belongs to exactly one request that is queued,
  owned by the kernel, or completed and waiting in \<open>cs\<close> to be reaped.\<close>

definition pool_inv :: "nat \<Rightarrow> engine \<Rightarrow> (sqe \<times> int) list \<Rightarrow> bool" where
  "pool_inv d s cs \<longleftrightarrow>
     mset (en_free s) + image_mset sq_slot (outstanding s + mset (map fst cs)) = mset [0..<d] \<and>
     en_inflight s = size (outstanding s) + length cs \<and> length (en_expect s) = d"

definition work_inv :: "nat list \<Rightarrow> job list \<Rightarrow> engine \<Rightarrow> (sqe \<times> int) list \<Rightarrow> bool" where
  "work_inv fds jobs s cs \<longleftrightarrow>
     en_next s \<le> length jobs \<and>
     image_mset request_of (outstanding s + mset (map fst cs) + mset (map fst (en_reaped s))) =
       mset (map (request_for fds) (take (en_next s) jobs))"

definition stats_inv :: "engine \<Rightarrow> (sqe \<times> int) list \<Rightarrow> bool" where
  "stats_inv s cs \<longleftrightarrow>
     (\<forall>e \<in># outstanding s + mset (map fst cs). unat (en_expect s ! sq_slot e) = unat (sq_len e)) \<and>
     (\<forall>c \<in> set (en_reaped s). 0 \<le> snd c) \<and>
     en_stats s = \<lparr>st_bytes = word_of_nat (\<Sum>c \<leftarrow> en_reaped s. nat (snd c)),
       st_requests = word_of_nat (length (en_reaped s)),
       st_short_reads = word_of_nat (length (filter short_read (en_reaped s)))\<rparr>"

definition ring_inv :: "nat \<Rightarrow> nat list \<Rightarrow> job list \<Rightarrow> engine \<Rightarrow> (sqe \<times> int) list \<Rightarrow> bool" where
  "ring_inv d fds jobs s cs \<longleftrightarrow>
     pool_inv d s cs \<and> work_inv fds jobs s cs \<and> (narrow_jobs jobs \<longrightarrow> stats_inv s cs)"

lemma ring_inv_init: "ring_inv d fds jobs (engine_init d) []"
  by (simp add: ring_inv_def pool_inv_def work_inv_def stats_inv_def engine_init_def outstanding_def
      ReadStats_default_def)

lemma pool_slot_lt:
  assumes "pool_inv d s cs" and "slot \<in> set (en_free s)" shows "slot < d"
proof -
  have "slot \<in># mset [0..<d]" using assms unfolding pool_inv_def by (metis set_mset_mset union_iff)
  then show ?thesis by simp
qed

lemma pool_slot_free:
  assumes "pool_inv d s cs" and "slot \<in> set (en_free s)" and "e \<in># outstanding s + mset (map fst cs)"
  shows "sq_slot e \<noteq> slot"
proof
  assume "sq_slot e = slot"
  with assms(2,3) have "2 \<le> count (mset (en_free s) + image_mset sq_slot (outstanding s + mset (map fst cs))) slot"
    by (metis count_union count_greater_eq_one_iff add_mono image_eqI set_image_mset set_mset_mset one_add_one)
  then have "2 \<le> count (mset [0..<d]) slot" using assms(1) unfolding pool_inv_def by metis
  then show False by (metis distinct_count_atmost_1 distinct_upt nle_le numeral_le_one_iff order_trans semiring_norm(69) zero_le)
qed

text \<open>One turn of the fill loop.\<close>

definition push_job :: "nat list \<Rightarrow> job list \<Rightarrow> engine \<Rightarrow> engine" where
  "push_job fds jobs s =
     s\<lparr>en_sq := en_sq s @ [job_entry fds (last (en_free s)) (jobs ! en_next s)],
       en_free := butlast (en_free s),
       en_expect := (en_expect s)[last (en_free s) := snd (snd (jobs ! en_next s))],
       en_next := en_next s + 1, en_inflight := en_inflight s + 1\<rparr>"

lemma en_next_push_job [simp]: "en_next (push_job fds jobs s) = Suc (en_next s)"
  by (simp add: push_job_def)

lemma ring_inv_push:
  assumes inv: "ring_inv d fds jobs s []" and nx: "en_next s < length jobs" and fr: "en_free s \<noteq> []"
  shows "ring_inv d fds jobs (push_job fds jobs s) []"
proof -
  define slot where "slot = last (en_free s)"
  define j where "j = jobs ! en_next s"
  define s' where "s' = s\<lparr>en_sq := en_sq s @ [job_entry fds slot j], en_free := butlast (en_free s),
     en_expect := (en_expect s)[slot := snd (snd j)], en_next := en_next s + 1,
     en_inflight := en_inflight s + 1\<rparr>"
  let ?e = "job_entry fds slot j"
  have pool: "pool_inv d s []" and work: "work_inv fds jobs s []" using inv by (simp_all add: ring_inv_def)
  have out: "outstanding s' = add_mset ?e (outstanding s)" by (simp add: s'_def outstanding_def)
  have se: "sq_slot ?e = slot" and re: "request_of ?e = request_for fds j"
    by (simp_all add: job_entry_def request_of_def request_for_def split: prod.splits)
  have mem: "slot \<in> set (en_free s)" using fr by (simp add: slot_def)
  have free: "mset (en_free s) = add_mset slot (mset (butlast (en_free s)))"
    by (metis append_butlast_last_id fr mset.simps slot_def union_code union_commute union_mset_add_mset_left add_mset_add_single)
  have 1: "pool_inv d s' []"
    using pool free se unfolding pool_inv_def out by (simp add: s'_def)
  have 2: "work_inv fds jobs s' []"
    using work nx re unfolding work_inv_def out
    by (simp add: s'_def j_def take_Suc_conv_app_nth)
  have 3: "stats_inv s' []" if nj: "narrow_jobs jobs" and st: "stats_inv s []"
  proof -
    obtain fi off len where jeq: "j = (fi, off, len)" by (cases j)
    have "unat len < 2 ^ 32" using nj nx jeq unfolding narrow_jobs_def j_def by (metis (no_types, lifting) case_prodD nth_mem)
    then have len: "unat (sq_len ?e) = unat len" by (simp add: job_entry_def jeq unsigned_ucast_eq take_bit_nat_eq_self)
    have sl: "slot < length (en_expect s)" using pool pool_slot_lt [OF pool mem] by (simp add: pool_inv_def)
    have "unat (en_expect s' ! sq_slot e) = unat (sq_len e)" if "e \<in># outstanding s'" for e
    proof (cases "e = ?e")
      case True
      then show ?thesis using len sl se by (simp add: s'_def jeq)
    next
      case False
      then have eo: "e \<in># outstanding s" using that out by simp
      then have "sq_slot e \<noteq> slot" using pool_slot_free [OF pool mem] by simp
      then show ?thesis using st eo by (simp add: s'_def stats_inv_def)
    qed
    with st show ?thesis unfolding stats_inv_def by (simp add: s'_def)
  qed
  have "push_job fds jobs s = s'" by (simp add: push_job_def s'_def slot_def j_def)
  with 1 2 3 inv show ?thesis by (simp add: ring_inv_def)
qed

lemma fill_unfold:
  "fill cap fds jobs s =
     (if en_next s < length jobs \<and> en_free s \<noteq> [] \<and> length (en_sq s) < cap
      then fill cap fds jobs (push_job fds jobs s) else s)"
  by (subst fill.simps) (simp add: sq_push_def push_job_def Let_def split: prod.splits)

lemma fill_induct [case_names turn]:
  assumes "\<And>s. (en_next s < length jobs \<and> en_free s \<noteq> [] \<and> length (en_sq s) < cap \<Longrightarrow>
      P (push_job fds jobs s)) \<Longrightarrow> P s"
  shows "P s"
proof (induction "length jobs - en_next s" arbitrary: s rule: less_induct)
  case less
  show ?case
    by (rule assms, rule less) auto
qed

lemma fill_inv: "ring_inv d fds jobs s [] \<Longrightarrow> ring_inv d fds jobs (fill cap fds jobs s) []"
proof (induction s rule: fill_induct [where jobs = jobs and fds = fds and cap = cap])
  case (turn s)
  then show ?case using ring_inv_push by (auto simp: fill_unfold [of cap fds jobs s])
qed

lemma fill_reaped: "en_reaped (fill cap fds jobs s) = en_reaped s"
proof (induction s rule: fill_induct [where jobs = jobs and fds = fds and cap = cap])
  case (turn s)
  moreover have "en_reaped (push_job fds jobs s) = en_reaped s" by (simp add: push_job_def)
  ultimately show ?case by (simp add: fill_unfold [of cap fds jobs s])
qed

lemma free_slot_room:
  assumes "ring_inv d fds jobs s []" and "d \<le> cap" and "en_free s \<noteq> []"
  shows "length (en_sq s) < cap"
proof -
  have "size (mset (en_free s) + image_mset sq_slot (outstanding s)) = size (mset [0..<d])"
    using assms(1) by (simp add: ring_inv_def pool_inv_def)
  then have "length (en_free s) + length (en_sq s) + size (en_kern s) = d"
    by (simp add: outstanding_def)
  moreover have "0 < length (en_free s)" using assms(3) by simp
  ultimately show ?thesis using assms(2) by linarith
qed

lemma fill_exhausts:
  "ring_inv d fds jobs s [] \<Longrightarrow> d \<le> cap \<Longrightarrow>
   en_next (fill cap fds jobs s) = length jobs \<or> en_free (fill cap fds jobs s) = []"
proof (induction s rule: fill_induct [where jobs = jobs and fds = fds and cap = cap])
  case (turn s)
  have "en_next s \<le> length jobs" using turn.prems by (simp add: ring_inv_def work_inv_def)
  moreover note free_slot_room [OF turn.prems]
  ultimately show ?case
    using turn ring_inv_push [OF turn.prems(1)] by (auto simp: fill_unfold [of cap fds jobs s])
qed

lemma submit_inv:
  assumes "ring_inv d fds jobs s []" and "submit_and_wait s cs t"
  shows "ring_inv d fds jobs t cs \<and> en_reaped t = en_reaped s \<and> cs \<noteq> []"
proof -
  from assms(2) obtain k where k: "k \<le> length (en_sq s)"
    and sub: "mset (map fst cs) \<subseteq># en_kern s + mset (take k (en_sq s))"
    and t: "t = s\<lparr>en_sq := drop k (en_sq s),
               en_kern := en_kern s + mset (take k (en_sq s)) - mset (map fst cs)\<rparr>" and ne: "cs \<noteq> []"
    unfolding submit_and_wait_def by blast
  have "mset (en_sq s) = mset (drop k (en_sq s)) + mset (take k (en_sq s))"
    by (metis append_take_drop_id mset_append union_commute)
  moreover have "en_kern s + mset (take k (en_sq s)) - mset (map fst cs) + mset (map fst cs) =
      en_kern s + mset (take k (en_sq s))"
    using sub by (rule subset_mset.diff_add)
  ultimately have out: "outstanding t + mset (map fst cs) = outstanding s"
    unfolding outstanding_def t by (simp add: union_ac)
  then have sz: "size (outstanding t) + length cs = size (outstanding s)"
    by (metis size_union size_mset length_map)
  show ?thesis
    using assms(1) ne out sz
    unfolding ring_inv_def pool_inv_def work_inv_def stats_inv_def by (simp add: t)
qed

lemma reap_inv:
  "ring_inv d fds jobs s cs \<Longrightarrow> reap s cs = Inr u \<Longrightarrow>
   ring_inv d fds jobs u [] \<and> en_reaped u = en_reaped s @ cs"
proof (induction s cs rule: reap.induct)
  case (2 s e res cs)
  define t where "t = s\<lparr>en_stats := \<lparr>st_bytes = st_bytes (en_stats s) + word_of_nat (nat res),
       st_requests = st_requests (en_stats s) + 1,
       st_short_reads = st_short_reads (en_stats s) +
         (if nat res < unat (en_expect s ! sq_slot e) then 1 else 0)\<rparr>,
     en_free := en_free s @ [sq_slot e], en_inflight := en_inflight s - 1,
     en_reaped := en_reaped s @ [(e, res)]\<rparr>"
  have res: "\<not> res < 0" using "2.prems"(2) by (auto simp: Let_def split: if_splits)
  have out: "outstanding t = outstanding s" by (simp add: outstanding_def t_def)
  have 1: "pool_inv d t cs"
    using "2.prems"(1) unfolding ring_inv_def pool_inv_def out by (simp add: t_def)
  have 2: "work_inv fds jobs t cs"
    using "2.prems"(1) unfolding ring_inv_def work_inv_def out by (simp add: t_def)
  have 3: "stats_inv t cs" if "stats_inv s ((e, res) # cs)"
    using that res unfolding stats_inv_def out by (auto simp: t_def short_read_def)
  from 1 2 3 "2.prems"(1) have "ring_inv d fds jobs t cs" by (simp add: ring_inv_def)
  moreover have "reap t cs = Inr u"
    using "2.prems"(2) res by (simp add: t_def Let_def)
  ultimately show ?case
    using "2.IH" [OF refl res refl refl refl] unfolding t_def by simp
qed simp

lemma ring_step_inv:
  assumes "ring_step cap fds jobs (Run s) (Run u)" and "ring_inv d fds jobs s []"
  shows "ring_inv d fds jobs u [] \<and> length (en_reaped s) < length (en_reaped u)"
proof -
  from assms(1) obtain cs t where sub: "submit_and_wait (fill cap fds jobs s) cs t" "reap t cs = Inr u"
    by (rule ring_step_RunE) auto
  from submit_inv [OF fill_inv [OF assms(2)] sub(1)] have
    t: "ring_inv d fds jobs t cs" "en_reaped t = en_reaped (fill cap fds jobs s)" "cs \<noteq> []" by auto
  with reap_inv [OF t(1) sub(2)] show ?thesis by (simp add: fill_reaped)
qed

lemma ring_reach_inv:
  "(ring_step cap fds jobs)\<^sup>*\<^sup>* (Run (engine_init d)) c \<Longrightarrow> c = Run s \<Longrightarrow> ring_inv d fds jobs s []"
proof (induction arbitrary: s rule: rtranclp_induct)
  case base
  then show ?case using ring_inv_init by blast
next
  case (step y z)
  then obtain r where "y = Run r" by (metis ring_step_Failed ring_step_Finished outcome.exhaust)
  with step show ?case using ring_step_inv by blast
qed

lemma next_power_of_two_from_ge: "n \<le> next_power_of_two_from n p"
proof (induction n p rule: next_power_of_two_from.induct)
  case (1 n p)
  then show ?case by (simp add: next_power_of_two_from.simps [of n p])
qed

lemma ring_entries_ge: "d \<le> ring_entries d"
  using next_power_of_two_from_ge [of d 0] by (simp add: ring_entries_def next_power_of_two_def)

lemma reaped_le:
  assumes "ring_inv d fds jobs s []" shows "length (en_reaped s) \<le> length jobs"
proof -
  from assms have "size (image_mset request_of (outstanding s + mset (map fst (en_reaped s)))) =
      size (mset (map (request_for fds) (take (en_next s) jobs)))"
    by (simp add: ring_inv_def work_inv_def)
  then show ?thesis by simp
qed

lemma ring_finished:
  assumes "ring_inv d fds jobs s []" and "0 < d" and "d \<le> cap" and "en_inflight (fill cap fds jobs s) = 0"
    and nj: "narrow_jobs jobs"
  obtains rs where "mset (map (request_of \<circ> fst) rs) = mset (map (request_for fds) jobs)"
    and "\<forall>c \<in> set rs. 0 \<le> snd c"
    and "en_stats (fill cap fds jobs s) = \<lparr>st_bytes = word_of_nat (\<Sum>c \<leftarrow> rs. nat (snd c)),
       st_requests = word_of_nat (length jobs), st_short_reads = word_of_nat (length (filter short_read rs))\<rparr>"
proof -
  let ?t = "fill cap fds jobs s"
  note inv = fill_inv [OF assms(1), of cap]
  have out: "outstanding ?t = {#}" and free: "mset (en_free ?t) = mset [0..<d]"
    using inv assms(4) by (auto simp: ring_inv_def pool_inv_def)
  have "en_free ?t \<noteq> []" using free assms(2) by (metis length_upt list.size(3) minus_nat.diff_0 not_less_zero size_mset)
  then have nx: "en_next ?t = length jobs" using fill_exhausts [OF assms(1,3)] by blast
  have work: "mset (map (request_of \<circ> fst) (en_reaped ?t)) = mset (map (request_for fds) jobs)"
    using inv out nx by (simp add: ring_inv_def work_inv_def multiset.map_comp)
  then have "length (en_reaped ?t) = length jobs" by (metis size_mset length_map)
  moreover have "stats_inv ?t []" using inv nj by (simp add: ring_inv_def)
  ultimately show thesis using work by (intro that [of "en_reaped ?t"]) (simp_all add: stats_inv_def)
qed

lemma narrow_plan_jobs:
  assumes "unat (job_chunk cfg) < 2 ^ 32" shows "narrow_jobs (plan_jobs cfg plan)"
proof -
  have "unat l < 2 ^ 32" if "(fi, o', l) \<in> set (plan_jobs cfg plan)" for fi o' l
    using that assms job_len_le_chunk chunk_jobs_mem by (fastforce simp: plan_jobs_def)
  then show ?thesis by (auto simp: narrow_jobs_def)
qed

section \<open>Properties of the read engine\<close>

text \<open>C16. No buffer is shared: in every state the loop reaches, each of the \<open>d\<close> buffer slots is
  either in the free list, once, or named by exactly one request that is queued or owned by the
  kernel, and \<open>inflight\<close> counts those requests.\<close>

theorem ring_slots_exclusive:
  assumes "(ring_step cap fds jobs)\<^sup>*\<^sup>* (Run (engine_init d)) (Run s)"
  shows "mset (en_free s) + image_mset sq_slot (mset (en_sq s) + en_kern s) = mset [0..<d] \<and>
    en_inflight s = length (en_sq s) + size (en_kern s)"
  using ring_reach_inv [OF assms refl] by (simp add: ring_inv_def pool_inv_def outstanding_def)

text \<open>C17. A successful \<open>read_files\<close> on a non-empty plan has issued every request of the plan exactly
  once and accounted for every completion: the completed requests are the plan's requests as
  multisets, \<open>requests\<close> is their number, \<open>bytes\<close> the sum of the byte counts and
  \<open>short_reads\<close> the number of completions shorter than asked (chunks below 4 GiB).\<close>

theorem read_files_complete:
  assumes "read_files open_file ring_new files plan cfg (Inr st)" and "plan \<noteq> []"
    and "unat (job_chunk cfg) < 2 ^ 32"
  shows "\<exists>fds rs. collect_result (\<lambda>p. open_file p (direct cfg)) files = Inr fds \<and>
    mset (map (request_of \<circ> fst) rs) = mset (map (request_for fds) (plan_jobs cfg plan)) \<and>
    (\<forall>c \<in> set rs. 0 \<le> snd c) \<and>
    st = \<lparr>st_bytes = word_of_nat (\<Sum>c \<leftarrow> rs. nat (snd c)),
      st_requests = word_of_nat (length (plan_jobs cfg plan)),
      st_short_reads = word_of_nat (length (filter short_read rs))\<rparr>"
  using assms(1)
proof cases
  case (run_finished fds)
  let ?d = "pool_depth cfg" and ?jobs = "plan_jobs cfg plan"
  from run_finished(5) obtain s where s: "(ring_step (ring_entries ?d) fds ?jobs)\<^sup>*\<^sup>* (Run (engine_init ?d)) (Run s)"
    and fin: "en_inflight (fill (ring_entries ?d) fds ?jobs s) = 0"
    and st: "st = en_stats (fill (ring_entries ?d) fds ?jobs s)"
    by (cases rule: rtranclp.cases) (auto elim: ring_step_ToFinishedE)
  have "0 < ?d" by (simp add: pool_depth_def)
  from ring_finished [OF ring_reach_inv [OF s refl] this ring_entries_ge fin narrow_plan_jobs [OF assms(3)]]
  show ?thesis using run_finished(3) st by metis
qed (use assms(2) in simp)

text \<open>C18. The loop ends and never waits for nothing: any run takes at most one step more than there
  are requests, and whenever it does not finish, some request is queued or with the kernel, so
  \<open>submit_and_wait(1)\<close> has a completion to wait for.\<close>

theorem ring_terminates:
  assumes "(ring_step cap fds jobs ^^ n) (Run (engine_init d)) c"
  shows "n \<le> length jobs + 1 \<and>
    (\<forall>s. c = Run s \<and> en_inflight (fill cap fds jobs s) \<noteq> 0 \<longrightarrow>
       (\<exists>cs t. submit_and_wait (fill cap fds jobs s) cs t))"
proof -
  have steps: "m \<le> length (en_reaped s) \<and> ring_inv d fds jobs s []"
    if "(ring_step cap fds jobs ^^ m) (Run (engine_init d)) (Run s)" for m s
    using that
  proof (induction m arbitrary: s)
    case 0
    then show ?case using ring_inv_init by auto
  next
    case (Suc m)
    then obtain y where y: "(ring_step cap fds jobs ^^ m) (Run (engine_init d)) y"
      "ring_step cap fds jobs y (Run s)" by auto
    then obtain r where "y = Run r" by (cases y) auto
    with y Suc.IH have "m \<le> length (en_reaped r)" "ring_inv d fds jobs r []" by blast+
    with y(2) \<open>y = Run r\<close> show ?case using ring_step_inv [of cap fds jobs r s d] by auto
  qed
  have "n \<le> length jobs + 1"
  proof (cases n)
    case (Suc m)
    with assms obtain y where y: "(ring_step cap fds jobs ^^ m) (Run (engine_init d)) y"
      "ring_step cap fds jobs y c" by auto
    then obtain r where "y = Run r" by (cases y) auto
    with y(1) have "m \<le> length (en_reaped r)" "ring_inv d fds jobs r []" using steps by blast+
    with reaped_le Suc show ?thesis by fastforce
  qed simp
  moreover have "\<exists>cs t. submit_and_wait (fill cap fds jobs s) cs t"
    if c: "c = Run s" and infl: "en_inflight (fill cap fds jobs s) \<noteq> 0" for s
  proof -
    let ?t = "fill cap fds jobs s"
    have "ring_inv d fds jobs ?t []" using fill_inv steps assms c by blast
    then have "outstanding ?t \<noteq> {#}" using infl by (auto simp: ring_inv_def pool_inv_def)
    then obtain e where "e \<in># outstanding ?t" by (rule multiset_nonemptyE)
    then have "mset (map fst [(e, 0 :: int)]) \<subseteq># en_kern ?t + mset (take (length (en_sq ?t)) (en_sq ?t))"
      by (simp add: outstanding_def union_commute)
    then have "\<exists>t. submit_and_wait ?t [(e, 0)] t" unfolding submit_and_wait_def by blast
    then show ?thesis by blast
  qed
  ultimately show ?thesis by blast
qed

section \<open>The verification reader\<close>

text \<open>What the code relies on of \<open>pread\<close> on a file with the given content: the bytes it returns
  are those at the offset, no more than asked for, and none only at the end of the file.\<close>

definition pread_reads :: "u8 list \<Rightarrow> (nat \<Rightarrow> nat \<Rightarrow> int + u8 list) \<Rightarrow> bool" where
  "pread_reads content pread \<longleftrightarrow>
     (\<forall>off n. n \<noteq> 0 \<longrightarrow> (\<exists>bs. pread off n = Inr bs \<and> length bs \<le> n \<and>
        bs = take (length bs) (drop off content) \<and> (bs = [] \<longrightarrow> length content \<le> off)))"

lemma pread_loop_reads:
  assumes "pread_reads content pread"
  shows "acc = take (length acc) (drop a0 content) \<Longrightarrow> length acc \<le> tot \<Longrightarrow>
    pread_loop pread a0 tot acc = Inr (take tot (drop a0 content))"
proof (induction "tot - length acc" arbitrary: acc rule: less_induct)
  case less
  show ?case
  proof (cases "length acc < tot")
    case True
    then obtain bs where bs: "pread (a0 + length acc) (tot - length acc) = Inr bs"
      "length bs \<le> tot - length acc" "bs = take (length bs) (drop (a0 + length acc) content)"
      "bs = [] \<longrightarrow> length content \<le> a0 + length acc"
      using assms unfolding pread_reads_def by (metis zero_less_diff less_not_refl)
    show ?thesis
    proof (cases bs)
      case Nil
      then have "take tot (drop a0 content) = acc" using bs(4) less.prems by auto
      then show ?thesis using Nil bs(1) True by (simp add: pread_loop.simps [of pread a0 tot acc])
    next
      case (Cons b bs')
      have "acc @ bs = take (length (acc @ bs)) (drop a0 content)"
        by (subst less.prems(1), subst bs(3)) (simp add: take_add add.commute)
      moreover have "length (acc @ bs) \<le> tot" using bs(2) True by simp
      moreover have "tot - length (acc @ bs) < tot - length acc" using Cons True by simp
      ultimately have "pread_loop pread a0 tot (acc @ bs) = Inr (take tot (drop a0 content))"
        by (intro less.hyps)
      then show ?thesis using Cons bs(1) True by (simp add: pread_loop.simps [of pread a0 tot acc])
    qed
  next
    case False
    then have "acc = take tot (drop a0 content)" using less.prems by simp
    then show ?thesis using False by (subst pread_loop.simps) simp
  qed
qed

lemma read_small_range_bytes:
  assumes "pread_reads content pread" and "unat offset + unat len + unat block < 2 ^ 64"
    and "len \<noteq> 0"
  shows "read_small_range (Inr pread) offset len block =
    (if unat offset + unat len \<le> length content
     then Inr (take (unat len) (drop (unat offset) content))
     else Inl (ReadPastEof (length content - unat offset)))"
proof -
  define a0 pad tot where "a0 = unat (floor_to offset (max block 1))"
    and "pad = unat (offset - floor_to offset (max block 1))"
    and "tot = unat (ceil_to (offset - floor_to offset (max block 1) + len) (max block 1))"
  have a0: "a0 \<le> unat offset" by (simp add: a0_def unat_floor_to floor_mult_le)
  then have pad: "pad = unat offset - a0"
    by (simp add: pad_def a0_def unat_sub_u64 word_le_nat_alt)
  have lt: "pad + unat len + blk block \<le> 2 ^ 64" using assms(2) pad by (simp add: blk_def)
  then have "unat (offset - floor_to offset (max block 1) + len) = pad + unat len"
    unfolding pad_def using blk_pos(1) [of block] by (intro unat_add_u64) (metis add_less_cancel_left le_less_trans less_add_same_cancel1 less_le_trans)
  then have "tot = min (2 ^ 64 - 1) (ceil_mult (pad + unat len) (blk block))"
    by (simp add: tot_def unat_ceil_to)
  then have tot: "pad + unat len \<le> tot"
    using ceil_mult_ge [of "blk block" "pad + unat len"] lt blk_pos(1) [of block] by linarith
  have loop: "pread_loop pread a0 tot [] = Inr (take tot (drop a0 content))"
    using pread_loop_reads [OF assms(1), of "[]"] by simp
  have red: "read_small_range (Inr pread) offset len block =
      (if length (take tot (drop a0 content)) < pad + unat len
       then Inl (ReadPastEof (length (take tot (drop a0 content)) - pad))
       else Inr (take (unat len) (drop pad (take tot (drop a0 content)))))"
    by (simp add: read_small_range_def Let_def loop flip: a0_def pad_def tot_def)
  show ?thesis
  proof (cases "unat offset + unat len \<le> length content")
    case True
    have "take (unat len) (drop pad (take tot (drop a0 content))) = take (unat len) (drop (unat offset) content)"
      using tot pad a0 by (simp add: drop_take min_def add.commute)
    with True show ?thesis unfolding red using tot pad a0 by simp
  next
    case False
    moreover have "0 < unat len" using assms(3) by (simp add: unat_gt_0)
    ultimately show ?thesis using tot pad a0 unfolding red by (auto simp: min_def)
  qed
qed


section \<open>Alignment of the buffers\<close>

lemma next_power_of_two_from_power:
  "p = 2 ^ k - 1 \<Longrightarrow> \<exists>m \<ge> k. next_power_of_two_from n p = 2 ^ m"
proof (induction n p arbitrary: k rule: next_power_of_two_from.induct)
  case (1 n p)
  have two: "Suc (2 * p) = 2 ^ Suc k - 1"
    using "1.prems" one_le_power [of "2 :: nat" k] unfolding power_Suc by linarith
  show ?case
  proof (cases "n \<le> Suc p")
    case True
    then have "next_power_of_two_from n p = 2 ^ k"
      using "1.prems" by (subst next_power_of_two_from.simps) simp
    then show ?thesis by blast
  next
    case False
    from "1.IH" [OF this two] obtain m where "Suc k \<le> m" "next_power_of_two_from n (Suc (2 * p)) = 2 ^ m"
      by blast
    with False show ?thesis
      by (intro exI [of _ m]) (simp add: next_power_of_two_from.simps [of n p])
  qed
qed

text \<open>The buffers are fit for direct I/O: when the block size is a power of two and the allocator
  honours the alignment it is asked for, a new buffer starts at a multiple of the block size and
  holds at least the requested bytes.\<close>

lemma AlignedBuf_new_aligned:
  assumes "AlignedBuf_new alloc len (2 ^ k) = Some b"
    and "\<And>size align p. alloc size align = Some p \<Longrightarrow> align dvd p"
  shows "is_aligned b (2 ^ k) \<and> len \<le> ab_size b \<and> 0 < ab_size b"
proof -
  let ?a = "next_power_of_two (max (2 ^ k) 64)"
  from next_power_of_two_from_power [of 0 0 "max (2 ^ k) 64"] obtain m where m: "?a = 2 ^ m"
    by (auto simp: next_power_of_two_def)
  have "(2 :: nat) ^ k \<le> ?a"
    using next_power_of_two_from_ge [of "max (2 ^ k) 64" 0] by (simp add: next_power_of_two_def)
  then have "k \<le> m" unfolding m by simp
  then have dv: "2 ^ k dvd ?a" unfolding m by (rule le_imp_power_dvd)
  from assms(1) obtain p where p: "alloc (max len 1) ?a = Some p"
    and b: "b = \<lparr>ab_ptr = p, ab_size = max len 1, ab_align = ?a\<rparr>"
    by (auto simp: AlignedBuf_new_def Let_def split: if_splits)
  have "2 ^ k dvd p" using dv assms(2) [OF p] by (rule dvd_trans)
  then show ?thesis using b by (simp add: is_aligned_def)
qed

text \<open>Even a request for no bytes gives a buffer that is not empty, of one byte.\<close>

lemma AlignedBuf_new_len:
  "AlignedBuf_new alloc len align = Some b \<Longrightarrow> AlignedBuf_len b = max len 1 \<and> \<not> AlignedBuf_is_empty b"
  by (auto simp: AlignedBuf_new_def AlignedBuf_is_empty_def AlignedBuf_len_def Let_def split: if_splits)

text \<open>The request length is narrowed to 32 bits: a chunk of 4 GiB becomes a request for nothing.\<close>

lemma job_entry_truncates: "sq_len (job_entry fds slot (fi, off, 0x100000000)) = 0"
  by (simp add: job_entry_def)

section \<open>Witnesses\<close>

definition ex_cfg :: ReadConfig where
  "ex_cfg = \<lparr>depth = 1, chunk_bytes = 8, direct = True, cfg_block = 8\<rparr>"

definition ex_rplan :: "(nat \<times> Range) list" where
  "ex_rplan = [(0, \<lparr>r_offset = 16, r_len = 8\<rparr>)]"

definition ex_sqe :: sqe where
  "ex_sqe = \<lparr>sq_fd = 3, sq_slot = 0, sq_len = 8, sq_off = 16\<rparr>"

definition ex_end :: engine where
  "ex_end = \<lparr>en_next = 1, en_free = [0], en_expect = [8], en_inflight = 0,
     en_stats = \<lparr>st_bytes = 6, st_requests = 1, st_short_reads = 1\<rparr>,
     en_sq = [], en_kern = {#}, en_reaped = [(ex_sqe, 6)]\<rparr>"

lemma ex_chunk: "job_chunk ex_cfg = 8" "job_block ex_cfg = 8"
  by (simp_all add: job_chunk_def job_block_def ex_cfg_def ceil_to_def div_ceil_def saturating_mul_def
      max_def word_le_nat_alt word_less_nat_alt Let_def)

lemma ex_jobs: "plan_jobs ex_cfg ex_rplan = [(0, 16, 8)]"
proof -
  have "chunk_jobs ex_cfg 0 16 24 = [(0, 16, 8)]"
    by (subst chunk_jobs.simps, subst chunk_jobs.simps)
      (simp add: ex_chunk ceil_to_def div_ceil_def saturating_mul_def min_def max_def
        word_le_nat_alt word_less_nat_alt Let_def)
  then show ?thesis by (simp add: plan_jobs_def ex_rplan_def)
qed

lemma ex_entries: "ring_entries (pool_depth ex_cfg) = 2" "ring_entries 1 = 2" "pool_depth ex_cfg = 1"
  by (simp_all add: ring_entries_def pool_depth_def ex_cfg_def next_power_of_two_def
      next_power_of_two_from.simps)

lemma ex_step1: "ring_step 2 [3] [(0, 16, 8)] (Run (engine_init 1)) (Run ex_end)"
proof -
  have fill1: "fill 2 [3] [(0, 16, 8)] (engine_init 1) =
      (engine_init 1)\<lparr>en_sq := [ex_sqe], en_free := [], en_expect := [8], en_next := 1, en_inflight := 1\<rparr>"
    by (simp add: fill_unfold engine_init_def push_job_def job_entry_def ex_sqe_def)
  have sub: "submit_and_wait (fill 2 [3] [(0, 16, 8)] (engine_init 1)) [(ex_sqe, 6)]
     ((engine_init 1)\<lparr>en_sq := [], en_free := [], en_expect := [8], en_next := 1, en_inflight := 1\<rparr>)"
    unfolding fill1 submit_and_wait_def
    by (intro conjI exI [of _ 1]) (simp_all add: engine_init_def)
  have "en_inflight (fill 2 [3] [(0, 16, 8)] (engine_init 1)) \<noteq> 0" unfolding fill1 by simp
  then show ?thesis
    by (rule complete [OF _ sub])
      (simp add: ex_end_def engine_init_def ReadStats_default_def ex_sqe_def)
qed

lemma ex_step2: "ring_step 2 [3] [(0, 16, 8)] (Run ex_end) (Finished (en_stats ex_end))"
proof -
  have "fill 2 [3] [(0, 16, 8)] ex_end = ex_end" by (subst fill_unfold) (simp add: ex_end_def)
  then show ?thesis using finish [of 2 "[3]" "[(0, 16, 8)]" ex_end] by (simp add: ex_end_def)
qed

lemma ex_run: "(ring_step 2 [3] [(0, 16, 8)])\<^sup>*\<^sup>* (Run (engine_init 1)) (Finished (en_stats ex_end))"
  using ex_step1 ex_step2
  by (rule converse_rtranclp_into_rtranclp [where r = "ring_step 2 [3] [(0, 16, 8)]", OF _ r_into_rtranclp])

lemma ex_read_files:
  "read_files (\<lambda>p d. Inr 3) (\<lambda>n. Inr ()) [lit ''m''] ex_rplan ex_cfg (Inr (en_stats ex_end))"
proof (rule run_finished [where fds = "[3]"])
  show "(ring_step (ring_entries (pool_depth ex_cfg)) [3] (plan_jobs ex_cfg ex_rplan))\<^sup>*\<^sup>*
     (Run (engine_init (pool_depth ex_cfg))) (Finished (en_stats ex_end))"
    by (simp only: ex_entries ex_jobs ex_run)
qed (simp_all add: ex_rplan_def)

theorem ring_slots_exclusive_witness:
  "(ring_step 2 [3] [(0, 16, 8)])\<^sup>*\<^sup>* (Run (engine_init 1)) (Run ex_end) \<and> mset (en_free ex_end) = mset [0..<1]"
proof -
  have r: "(ring_step 2 [3] [(0, 16, 8)])\<^sup>*\<^sup>* (Run (engine_init 1)) (Run ex_end)" using ex_step1 by blast
  from ring_slots_exclusive [OF r] r show ?thesis by (simp add: ex_end_def)
qed

theorem read_files_complete_witness:
  "read_files (\<lambda>p d. Inr 3) (\<lambda>n. Inr ()) [lit ''m''] ex_rplan ex_cfg (Inr (en_stats ex_end)) \<and>
   (\<exists>fds. \<exists>rs :: (sqe \<times> int) list.
      mset (map (request_of \<circ> fst) rs) = mset (map (request_for fds) (plan_jobs ex_cfg ex_rplan)))"
proof -
  have "ex_rplan \<noteq> []" "unat (job_chunk ex_cfg) < 2 ^ 32" by (simp_all add: ex_rplan_def ex_chunk)
  from read_files_complete [OF ex_read_files this] ex_read_files show ?thesis by blast
qed

lemma relpowp_two: "P x y \<Longrightarrow> P y z \<Longrightarrow> (P ^^ 2) x z"
  by (auto simp: numeral_2_eq_2)

theorem ring_terminates_witness:
  "(ring_step 2 [3] [(0, 16, 8)] ^^ 2) (Run (engine_init 1)) (Finished (en_stats ex_end)) \<and> 2 \<le> length [(0, 16, 8)] + 1"
proof -
  have r: "(ring_step 2 [3] [(0, 16, 8)] ^^ 2) (Run (engine_init 1)) (Finished (en_stats ex_end))"
    using ex_step1 ex_step2 by (rule relpowp_two [where P = "ring_step 2 [3] [(0, 16, 8)]"])
  from ring_terminates [OF r] r show ?thesis by simp
qed

theorem plan_jobs_legal_witness:
  "(0, 16, 8) \<in> set (plan_jobs ex_cfg ex_rplan) \<and> unat (8 :: u64) \<le> unat (job_chunk ex_cfg)"
proof -
  have "\<forall>(fi, r) \<in> set ex_rplan. unat (r_offset r) + unat (r_len r) < 2 ^ 64" by (simp add: ex_rplan_def)
  from plan_jobs_legal [OF this, of 0 16 8 ex_cfg] show ?thesis by (simp add: ex_jobs)
qed

theorem plan_model_requests_cover_witness:
  "\<exists>o' l. (0, o', l) \<in> set (plan_jobs ex_cfg (plan_model [ex_plan_shard] 8 0)) \<and>
      unat o' \<le> 31 \<and> 31 < unat o' + unat l"
  using plan_model_requests_cover [of "[ex_plan_shard]" 0 ex_b 31 ex_cfg 8 0] ex_plan_wf ex_b_mem
  by (simp add: ex_plan_shard_def ex_b_def)

definition ex_pread :: "nat \<Rightarrow> nat \<Rightarrow> int + u8 list" where
  "ex_pread off n = Inr (take (min n 2) (drop off [1, 2, 3, 4, 5]))"


theorem AlignedBuf_new_aligned_witness:
  "\<exists>b. AlignedBuf_new (\<lambda>size align. Some (align * 3)) 100 (2 ^ 12) = Some b \<and> is_aligned b (2 ^ 12)"
proof -
  have "next_power_of_two (max (2 ^ 12) 64) = 4096"
    by (simp add: next_power_of_two_def next_power_of_two_from.simps)
  then have ok: "AlignedBuf_new (\<lambda>size align. Some (align * 3)) 100 (2 ^ 12) =
      Some \<lparr>ab_ptr = 4096 * 3, ab_size = 100, ab_align = 4096\<rparr>"
    by (simp add: AlignedBuf_new_def ceil_mult_def Let_def)
  from AlignedBuf_new_aligned [OF ok] ok show ?thesis by simp
qed

end
