(* ===== verification/St_Fuzz.thy ===== *)
theory St_Fuzz
  imports St_Reader
begin

text \<open>
  The fuzzer's safety oracle and byte-level generators (\<open>stloader/src/fuzz.rs\<close>). The oracle
  \<open>check_plan\<close> is what the fuzzer asserts of every header that parses; here it is proved to
  hold for all of them, which turns the statement the fuzzer samples into a theorem. The random
  generator is the source's xorshift on 64-bit words.
\<close>

section \<open>The generator\<close>

type_synonym Rng = u64

definition Rng_new :: "u64 \<Rightarrow> Rng" where
  "Rng_new seed = or seed 1"

definition next_u64 :: "Rng \<Rightarrow> u64 \<times> Rng" where
  "next_u64 s =
     (let x = xor s (push_bit 13 s);
          x = xor x (drop_bit 7 x);
          x = xor x (push_bit 17 x)
      in (x, x))"

definition below :: "Rng \<Rightarrow> u64 \<Rightarrow> u64 \<times> Rng" where
  "below s n = (if n \<le> 1 then (0, s) else let (x, s') = next_u64 s in (x mod n, s'))"

text \<open>\<open>xs[self.below(xs.len())]\<close>; an empty slice panics.\<close>

definition pick :: "Rng \<Rightarrow> 'a list \<Rightarrow> ('a \<times> Rng) option" where
  "pick s xs =
     (let (i, s') = below s (word_of_nat (length xs))
      in if unat i < length xs then Some (xs ! unat i, s') else None)"

definition assemble :: "rstr \<Rightarrow> u8 list \<Rightarrow> u64 option \<Rightarrow> u8 list" where
  "assemble json payload forced_len =
     (let declared = (case forced_len of Some n \<Rightarrow> n | None \<Rightarrow> word_of_nat (length (utf8 json)))
      in u64_to_le_bytes declared @ map word_of_nat (utf8 json) @ payload)"

section \<open>The safety oracle\<close>

datatype violation =
    ZeroLength u64
  | OffsetNotAligned u64
  | LenNotAligned u64
  | ExtendsPast u64 u64
  | RangesOverlap u64 u64
  | TensorPastFile rstr
  | NoCoveringRange rstr
  | NotContained rstr
  | CoversNothing u64

definition or_else :: "'a option \<Rightarrow> 'a option \<Rightarrow> 'a option" where
  "or_else a b = (case a of Some x \<Rightarrow> Some x | None \<Rightarrow> b)"

definition check_range :: "u64 \<Rightarrow> u64 \<Rightarrow> Range \<Rightarrow> violation option" where
  "check_range block file_ceil r =
     (if r_len r = 0 then Some (ZeroLength (r_offset r))
      else if r_offset r mod block \<noteq> 0 then Some (OffsetNotAligned (r_offset r))
      else if r_len r mod block \<noteq> 0 then Some (LenNotAligned (r_len r))
      else if Range_end r > file_ceil then Some (ExtendsPast (r_offset r) (Range_end r))
      else None)"

fun check_ranges :: "u64 \<Rightarrow> u64 \<Rightarrow> Range list \<Rightarrow> violation option" where
  "check_ranges block file_ceil [] = None"
| "check_ranges block file_ceil (r # rs) =
     or_else (check_range block file_ceil r) (check_ranges block file_ceil rs)"

fun check_overlap :: "Range list \<Rightarrow> violation option" where
  "check_overlap (r # r' # rs) =
     (if Range_end r > r_offset r' then Some (RangesOverlap (r_offset r) (r_offset r'))
      else check_overlap (r' # rs))"
| "check_overlap rs = None"

text \<open>The cursor \<open>ri\<close> into the plan is the list of ranges from it on.\<close>

fun check_tensors :: "'f ShardHeader \<Rightarrow> Range list \<Rightarrow> TensorInfo list \<Rightarrow> violation option" where
  "check_tensors h rs [] = None"
| "check_tensors h rs (t # ts) =
     (if nbytes t = 0 then check_tensors h rs ts
      else
        let (s, e) = abs_range t (sh_data_start h) in
        if e > sh_file_size h then Some (TensorPastFile (ti_name t))
        else
          let rs' = dropWhile (\<lambda>r. Range_end r \<le> s) rs in
          case rs' of
            [] \<Rightarrow> Some (NoCoveringRange (ti_name t))
          | r # _ \<Rightarrow>
              if r_offset r > s \<or> Range_end r < e then Some (NotContained (ti_name t))
              else check_tensors h rs' ts)"

text \<open>The inner loop of the converse check; the cursor \<open>ti\<close> is the list of tensors from it on.\<close>

fun seek_tensor :: "u64 \<Rightarrow> u64 \<Rightarrow> Range \<Rightarrow> TensorInfo list \<Rightarrow> bool \<times> TensorInfo list" where
  "seek_tensor data_start block r [] = (False, [])"
| "seek_tensor data_start block r (t # ts) =
     (if nbytes t = 0 then seek_tensor data_start block r ts
      else
        let (s, e) = abs_range t data_start;
            lo = floor_to s block;
            hi = ceil_to e block
        in if hi \<le> r_offset r then seek_tensor data_start block r ts
           else (lo < Range_end r, t # ts))"

fun check_useful :: "u64 \<Rightarrow> u64 \<Rightarrow> TensorInfo list \<Rightarrow> Range list \<Rightarrow> violation option" where
  "check_useful data_start block ts [] = None"
| "check_useful data_start block ts (r # rs) =
     (let (covers, ts') = seek_tensor data_start block r ts in
      if covers then check_useful data_start block ts' rs
      else Some (CoversNothing (r_offset r)))"

definition check_plan :: "'f ShardHeader \<Rightarrow> u64 \<Rightarrow> violation option" where
  "check_plan h block =
     (let file_ceil = ceil_to (sh_file_size h) block;
          plan = plan_shard h block 0
      in or_else (check_ranges block file_ceil plan)
           (or_else (check_overlap plan)
             (or_else (check_tensors h plan (sh_tensors h))
               (check_useful (sh_data_start h) block (sh_tensors h) plan))))"

section \<open>The oracle never fires\<close>

lemma Range_end_fits: "unat (r_offset r) + unat (r_len r) < 2 ^ 64 \<Longrightarrow>
    unat (Range_end r) = unat (r_offset r) + unat (r_len r)"
  by (simp add: Range_end_def unat_saturating_add)

lemma or_else_None [simp]: "or_else a b = None \<longleftrightarrow> a = None \<and> b = None"
  by (simp add: or_else_def split: option.splits)

lemma check_ranges_None:
  "check_ranges block fc rs = None \<longleftrightarrow> (\<forall>r \<in> set rs. check_range block fc r = None)"
  by (induction rs) auto

lemma unat_dvd_mod: "unat b dvd unat a \<Longrightarrow> (a :: u64) mod b = 0"
  by (metis unat_mod dvd_imp_mod_0 unat_eq_zero)

lemma check_ranges_plan:
  assumes "wf_shard h" and "0 < block" and "unat (sh_file_size h) + unat block \<le> 2 ^ 64"
  shows "check_ranges block (ceil_to (sh_file_size h) block) (plan_shard h block 0) = None"
  unfolding check_ranges_None
proof
  fix r assume r: "r \<in> set (plan_shard h block 0)"
  note al = plan_range_aligned [OF assms r]
  have "fits (plan_shard h block 0)" by (rule plan_shard_merge(2) [OF assms(1)])
  then have e: "unat (Range_end r) = unat (r_offset r) + unat (r_len r)"
    using r by (simp add: fits_def Range_end_fits)
  have "blk block = unat block" using assms(2) by (simp add: blk_def word_less_nat_alt)
  moreover have "ceil_mult (unat (sh_file_size h)) (unat block) < unat (sh_file_size h) + unat block"
    using assms(2) by (intro ceil_mult_less) (simp add: word_less_nat_alt)
  ultimately have "unat (ceil_to (sh_file_size h) block) = ceil_mult (unat (sh_file_size h)) (unat block)"
    using assms(3) by (simp add: unat_ceil_to)
  with al e have "\<not> Range_end r > ceil_to (sh_file_size h) block" by (simp add: word_less_nat_alt)
  with al show "check_range block (ceil_to (sh_file_size h) block) r = None"
    by (simp add: check_range_def unat_dvd_mod)
qed

lemma check_overlap_separated:
  "separated 0 (map ivl_of rs) \<Longrightarrow> fits rs \<Longrightarrow> check_overlap rs = None"
proof (induction rs rule: check_overlap.induct)
  case (1 r r' rs)
  then have "unat (Range_end r) = unat (r_offset r) + unat (r_len r)" by (simp add: fits_def Range_end_fits)
  with 1 show ?case by (simp add: ivl_of_def word_less_nat_alt fits_def)
qed simp_all

definition apart :: "Range list \<Rightarrow> bool" where
  "apart rs \<longleftrightarrow> fits rs \<and> sorted_wrt (\<lambda>r r'. Range_end r < r_offset r') rs"

lemma separated_sorted_wrt:
  "separated g xs \<Longrightarrow> \<forall>x \<in> set xs. fst x \<le> snd x \<Longrightarrow> sorted_wrt (\<lambda>x y. snd x + g < fst y) xs"
proof (induction g xs rule: separated.induct)
  case (3 g x y ys)
  then have s: "sorted_wrt (\<lambda>x y. snd x + g < fst y) (y # ys)" by simp
  have "snd x + g < fst z" if "z \<in> set ys" for z
    using s that "3.prems" by force
  with s "3.prems" show ?case by auto
qed simp_all

lemma plan_apart:
  assumes "wf_shard h" shows "apart (plan_shard h block 0)"
proof -
  let ?p = "plan_shard h block 0"
  have f: "fits ?p" by (rule plan_shard_merge(2) [OF assms])
  have "separated 0 (map ivl_of ?p)"
    unfolding plan_shard_merge(1) [OF assms] by (simp add: merge_ivls_separated [OF good_cands [OF assms]])
  then have "sorted_wrt (\<lambda>r r'. snd (ivl_of r) < fst (ivl_of r')) ?p"
    using separated_sorted_wrt [of 0 "map ivl_of ?p"] by (simp add: ivl_of_def sorted_wrt_map)
  then have "sorted_wrt (\<lambda>r r'. Range_end r < r_offset r') ?p"
    by (rule sorted_wrt_mono_rel [rotated])
      (use f in \<open>simp add: fits_def Range_end_fits ivl_of_def word_less_nat_alt\<close>)
  with f show ?thesis by (simp add: apart_def)
qed

lemma apart_suffix: "apart (xs @ ys) \<Longrightarrow> apart ys"
  by (simp add: apart_def fits_def sorted_wrt_append)

lemma apart_dropWhile: "apart rs \<Longrightarrow> apart (dropWhile P rs)"
  by (metis apart_suffix takeWhile_dropWhile_id)

lemma in_dropWhile: "x \<in> set xs \<Longrightarrow> \<not> P x \<Longrightarrow> x \<in> set (dropWhile P xs)"
  by (induction xs) auto

definition covered :: "'f ShardHeader \<Rightarrow> Range list \<Rightarrow> TensorInfo \<Rightarrow> bool" where
  "covered h rs t \<longleftrightarrow> (\<exists>r \<in> set rs. r_offset r \<le> sh_data_start h + ti_start t \<and>
     sh_data_start h + ti_end t \<le> Range_end r)"

lemma covered_dropWhile:
  assumes "covered h rs t" and "wf_shard h" and "t \<in> set (sh_tensors h)" and "nbytes t \<noteq> 0"
    and "s \<le> sh_data_start h + ti_start t"
  shows "covered h (dropWhile (\<lambda>r. Range_end r \<le> s) rs) t"
proof -
  from assms(1) obtain r where r: "r \<in> set rs" "r_offset r \<le> sh_data_start h + ti_start t"
    "sh_data_start h + ti_end t \<le> Range_end r" by (auto simp: covered_def)
  have "unat (ti_start t) < unat (ti_end t)" using assms(4) nbytes_nonzero [OF assms(2,3)] by simp
  then have "sh_data_start h + ti_start t < sh_data_start h + ti_end t"
    using wf_shard_tensor_bounds [OF assms(2,3)] by (simp add: word_less_nat_alt)
  then have "\<not> Range_end r \<le> s" using r(3) assms(5) by (meson leD less_le_trans order_trans)
  with r show ?thesis unfolding covered_def by (blast intro: in_dropWhile)
qed

lemma check_tensors_covered:
  assumes "wf_shard h"
  shows "set ts \<subseteq> set (sh_tensors h) \<Longrightarrow> sorted_wrt (\<lambda>t u. ti_start t \<le> ti_start u) ts \<Longrightarrow> apart rs \<Longrightarrow>
    \<forall>t \<in> set ts. nbytes t \<noteq> 0 \<longrightarrow> covered h rs t \<Longrightarrow> check_tensors h rs ts = None"
proof (induction ts arbitrary: rs)
  case (Cons t ts)
  show ?case
  proof (cases "nbytes t = 0")
    case False
    let ?s = "sh_data_start h + ti_start t" and ?e = "sh_data_start h + ti_end t"
    define rs' where "rs' = dropWhile (\<lambda>r. Range_end r \<le> ?s) rs"
    have th: "t \<in> set (sh_tensors h)" using Cons.prems(1) by simp
    note bd = wf_shard_tensor_bounds [OF assms th]
    have e: "\<not> ?e > sh_file_size h" using bd by (simp add: word_less_nat_alt)
    have "covered h rs' t"
      using covered_dropWhile [OF _ assms th False order_refl] Cons.prems(4) False by (simp add: rs'_def)
    then obtain r where r: "r \<in> set rs'" "r_offset r \<le> ?s" "?e \<le> Range_end r" by (auto simp: covered_def)
    then obtain r1 rs1 where rs1: "rs' = r1 # rs1" by (cases rs') auto
    have "apart rs'" using Cons.prems(3) by (simp add: rs'_def apart_dropWhile)
    moreover have "\<not> Range_end r1 \<le> ?s" using rs1 dropWhile_eq_Cons_conv unfolding rs'_def by metis
    ultimately have "r = r1"
      using r rs1 by (auto simp: apart_def not_le dest: less_trans)
    moreover have "check_tensors h rs' ts = None"
    proof (rule Cons.IH)
      show "\<forall>u \<in> set ts. nbytes u \<noteq> 0 \<longrightarrow> covered h rs' u"
      proof (intro ballI impI)
        fix u assume u: "u \<in> set ts" and nu: "nbytes u \<noteq> 0"
        have uh: "u \<in> set (sh_tensors h)" using Cons.prems(1) u by auto
        have "?s \<le> sh_data_start h + ti_start u"
          using Cons.prems(2) u wf_shard_tensor_bounds(1) [OF assms uh] bd(1) by (simp add: word_le_nat_alt)
        then show "covered h rs' u"
          using covered_dropWhile [OF _ assms uh nu] Cons.prems(4) u nu by (simp add: rs'_def)
      qed
    qed (use Cons.prems \<open>apart rs'\<close> in auto)
    ultimately show ?thesis
      using False r e rs1 by (simp add: abs_range_def not_less flip: rs'_def)
  qed (use Cons in simp)
qed simp

definition block_lo :: "u64 \<Rightarrow> u64 \<Rightarrow> TensorInfo \<Rightarrow> u64" where
  "block_lo ds block t = floor_to (ds + ti_start t) block"

definition block_hi :: "u64 \<Rightarrow> u64 \<Rightarrow> TensorInfo \<Rightarrow> u64" where
  "block_hi ds block t = ceil_to (ds + ti_end t) block"

lemma seek_tensor_finds:
  assumes "sorted_wrt (\<lambda>t u. block_lo ds block t \<le> block_lo ds block u) ts"
    and "t \<in> set ts" and "nbytes t \<noteq> 0" and "block_lo ds block t = r_offset r"
    and "block_lo ds block t < block_hi ds block t" and "r_offset r < Range_end r"
  shows "\<exists>pre ts'. ts = pre @ ts' \<and> seek_tensor ds block r ts = (True, ts') \<and>
    (\<forall>u \<in> set pre. nbytes u = 0 \<or> block_hi ds block u \<le> r_offset r)"
  using assms
proof (induction ts)
  case (Cons u us)
  show ?case
  proof (cases "nbytes u = 0 \<or> block_hi ds block u \<le> r_offset r")
    case True
    then have "t \<in> set us" using Cons.prems by auto
    with Cons obtain pre ts' where "us = pre @ ts'" "seek_tensor ds block r us = (True, ts')"
      "\<forall>u \<in> set pre. nbytes u = 0 \<or> block_hi ds block u \<le> r_offset r" by auto
    with True show ?thesis
      by (intro exI [of _ "u # pre"] exI [of _ ts']) (auto simp: abs_range_def block_hi_def)
  next
    case False
    have "block_lo ds block u \<le> r_offset r" using Cons.prems by auto
    then have "block_lo ds block u < Range_end r" using Cons.prems(6) by (rule le_less_trans)
    with False show ?thesis
      by (intro exI [of _ "[]"] exI [of _ "u # us"]) (auto simp: abs_range_def block_hi_def block_lo_def)
  qed
qed simp

lemma check_useful_None:
  "sorted_wrt (\<lambda>t u. block_lo ds block t \<le> block_lo ds block u) ts \<Longrightarrow>
   sorted_wrt (\<lambda>r r'. r_offset r < r_offset r') rs \<Longrightarrow>
   \<forall>r \<in> set rs. r_offset r < Range_end r \<and> (\<exists>t \<in> set ts. nbytes t \<noteq> 0 \<and>
      block_lo ds block t = r_offset r \<and> block_lo ds block t < block_hi ds block t) \<Longrightarrow>
   check_useful ds block ts rs = None"
proof (induction rs arbitrary: ts)
  case (Cons r rs)
  then obtain t where "t \<in> set ts" "nbytes t \<noteq> 0" "block_lo ds block t = r_offset r"
    "block_lo ds block t < block_hi ds block t" "r_offset r < Range_end r" by auto
  from seek_tensor_finds [OF Cons.prems(1) this] obtain pre ts' where ts: "ts = pre @ ts'"
    and seek: "seek_tensor ds block r ts = (True, ts')"
    and pre: "\<forall>u \<in> set pre. nbytes u = 0 \<or> block_hi ds block u \<le> r_offset r" by blast
  have "check_useful ds block ts' rs = None"
  proof (rule Cons.IH)
    show "sorted_wrt (\<lambda>t u. block_lo ds block t \<le> block_lo ds block u) ts'"
      using Cons.prems(1) ts by (simp add: sorted_wrt_append)
    show "sorted_wrt (\<lambda>r r'. r_offset r < r_offset r') rs" using Cons.prems(2) by simp
    show "\<forall>r \<in> set rs. r_offset r < Range_end r \<and> (\<exists>t \<in> set ts'. nbytes t \<noteq> 0 \<and>
      block_lo ds block t = r_offset r \<and> block_lo ds block t < block_hi ds block t)"
    proof
      fix q assume q: "q \<in> set rs"
      then obtain u where u: "u \<in> set ts" "nbytes u \<noteq> 0" "block_lo ds block u = r_offset q"
        "block_lo ds block u < block_hi ds block u" and qe: "r_offset q < Range_end q"
        using Cons.prems(3) by auto
      have "r_offset r < block_hi ds block u" using Cons.prems(2) q u(3,4) by (auto intro: less_trans)
      then have "u \<in> set ts'" using pre u(1,2) ts by (auto simp: not_le [symmetric])
      with u qe show "r_offset q < Range_end q \<and> (\<exists>t \<in> set ts'. nbytes t \<noteq> 0 \<and>
          block_lo ds block t = r_offset q \<and> block_lo ds block t < block_hi ds block t)" by blast
    qed
  qed
  with seek show ?case by simp
qed simp

lemma block_cand:
  assumes "wf_shard h" and "t \<in> set (sh_tensors h)"
  shows "unat (block_lo (sh_data_start h) block t) = fst (cand h block t)"
    and "unat (block_hi (sh_data_start h) block t) = snd (cand h block t)"
  using wf_shard_tensor_bounds [OF assms]
  by (simp_all add: block_lo_def block_hi_def cand_def unat_floor_to unat_ceil_to)

lemma sorted_tensors:
  assumes "wf_shard h"
  shows "sorted_wrt (\<lambda>t u. ti_start t \<le> ti_start u) (sh_tensors h)"
proof -
  have "sorted (map (\<lambda>t. (ti_start t, ti_end t)) (sh_tensors h))" using assms by (simp add: wf_shard_def)
  then show ?thesis
    unfolding sorted_map by (rule sorted_wrt_mono_rel [rotated]) (auto simp: less_eq_prod_def)
qed

lemma check_useful_plan:
  assumes "wf_shard h"
  shows "check_useful (sh_data_start h) block (sh_tensors h) (plan_shard h block 0) = None"
proof (rule check_useful_None)
  let ?ds = "sh_data_start h" and ?p = "plan_shard h block 0"
  show "sorted_wrt (\<lambda>t u. block_lo ?ds block t \<le> block_lo ?ds block u) (sh_tensors h)"
    by (rule sorted_wrt_mono_rel [OF _ sorted_tensors [OF assms]])
      (simp add: word_le_nat_alt block_cand(1) [OF assms], simp add: cand_def floor_mult_mono)
  have ap: "apart ?p" by (rule plan_apart [OF assms])
  have nonempty: "r_offset r < Range_end r" if "r \<in> set ?p" for r
  proof -
    have "unat (r_len r) \<noteq> 0" using merged.plan_nonempty [OF assms that] by (simp add: unat_eq_zero)
    moreover have "unat (Range_end r) = unat (r_offset r) + unat (r_len r)"
      using ap that by (simp add: apart_def fits_def Range_end_fits)
    ultimately show ?thesis by (simp add: word_less_nat_alt)
  qed
  show "sorted_wrt (\<lambda>r r'. r_offset r < r_offset r') ?p"
    using ap nonempty unfolding apart_def
    by (auto intro: sorted_wrt_mono_rel [of _ "\<lambda>r r'. Range_end r < r_offset r'"] less_trans)
  show "\<forall>r \<in> set ?p. r_offset r < Range_end r \<and> (\<exists>t \<in> set (sh_tensors h). nbytes t \<noteq> 0 \<and>
      block_lo ?ds block t = r_offset r \<and> block_lo ?ds block t < block_hi ?ds block t)"
  proof
    fix r assume r: "r \<in> set ?p"
    then have "ivl_of r \<in> set (merge_ivls 0 (cands h block))"
      by (metis plan_shard_merge(1) [OF assms] image_eqI image_set unsigned_0)
    then obtain t where t: "t \<in> set (sh_tensors h)" "nbytes t \<noteq> 0" "unat (r_offset r) = fst (cand h block t)"
      using merge_ivls_endpoints [of "fst (ivl_of r)" "snd (ivl_of r)" 0 "cands h block"]
      by (auto simp: ivl_of_def cands_def)
    then have "block_lo ?ds block t = r_offset r"
      using block_cand(1) [OF assms t(1)] by (simp add: word_eq_iff_unsigned [where ?'a = nat])
    moreover have "block_lo ?ds block t < block_hi ?ds block t"
      using cand_nonempty [OF assms t(1,2), of block] by (simp add: word_less_nat_alt block_cand [OF assms t(1)])
    ultimately show "r_offset r < Range_end r \<and> (\<exists>t \<in> set (sh_tensors h). nbytes t \<noteq> 0 \<and>
      block_lo ?ds block t = r_offset r \<and> block_lo ?ds block t < block_hi ?ds block t)"
      using t nonempty [OF r] by blast
  qed
qed

lemma check_plan_none:
  assumes "read_header fs from_slice path = Inr h" and "0 < block"
    and "unat (sh_file_size h) + unat block \<le> 2 ^ 64"
  shows "check_plan h block = None"
proof -
  have wf: "wf_shard h"
    using assms(1) by (auto simp: read_header_def split: option.splits intro: read_header_bytes_wf)
  have ap: "apart (plan_shard h block 0)" by (rule plan_apart [OF wf])
  have fits: "fits (plan_shard h block 0)" using ap by (simp add: apart_def)
  have "covered h (plan_shard h block 0) t" if "t \<in> set (sh_tensors h)" "nbytes t \<noteq> 0" for t
    using merged.plan_covers [OF wf that, of block 0] wf_shard_tensor_bounds [OF wf that(1)] fits
    by (auto simp: covered_def word_le_nat_alt fits_def Range_end_fits)
  then have "check_tensors h (plan_shard h block 0) (sh_tensors h) = None"
    by (intro check_tensors_covered [OF wf _ sorted_tensors [OF wf] ap]) auto
  moreover have "check_overlap (plan_shard h block 0) = None"
    using check_overlap_separated [OF _ fits] plan_shard_merge(1) [OF wf, of block 0]
      merge_ivls_separated [OF good_cands [OF wf], of 0 block] by simp
  ultimately show ?thesis
    using check_ranges_plan [OF wf assms(2,3)] check_useful_plan [OF wf]
    by (simp add: check_plan_def Let_def)
qed

text \<open>The fuzzer's oracle never fires: for every header \<open>read_header\<close> accepts, \<open>check_plan\<close>
  reports no violation, so what the fuzzer tests on random files holds of all files (that end at
  least one block before the largest 64-bit number).\<close>

lemma check_plan_never_fires:
  assumes "read_header fs from_slice path = Inr h" and "0 < block"
    and "unat (sh_file_size h) + unat block \<le> 2 ^ 64"
  shows "check_plan h block = None"
  by (rule check_plan_none [OF assms])

lemma below_less: "0 < n \<Longrightarrow> fst (below s n) < n"
  by (auto simp: below_def next_u64_def Let_def word_less_nat_alt unat_mod)

text \<open>\<open>pick\<close> never indexes out of bounds on a non-empty slice.\<close>

lemma pick_total:
  assumes "xs \<noteq> []" and "length xs < 2 ^ 64"
  shows "\<exists>x \<in> set xs. \<exists>s'. pick s xs = Some (x, s')"
proof -
  let ?n = "word_of_nat (length xs) :: u64"
  have n: "unat ?n = length xs" using assms(2) by (simp add: unat_of_nat)
  then have "0 < ?n" using assms(1) by (simp add: word_less_nat_alt)
  from below_less [OF this, of s] n have "unat (fst (below s ?n)) < length xs"
    by (simp add: word_less_nat_alt)
  then show ?thesis by (auto simp: pick_def split: prod.splits)
qed

theorem check_plan_never_fires_witness:
  "read_header ex_fs ex_from_slice (lit ''m'') = Inr ex_header \<and> check_plan ex_header 4096 = None"
proof -
  have "0 < (4096 :: u64)" "unat (sh_file_size ex_header) + unat (4096 :: u64) \<le> 2 ^ 64"
    by (simp_all add: ex_header_def)
  from check_plan_never_fires [OF ex_read_header this] ex_read_header show ?thesis by simp
qed

end
