(* ===== verification/St_Fuzz_Run.thy ===== *)
theory St_Fuzz_Run
  imports St_Fuzz
begin

text \<open>
  The case generator, the byte mutator and the loop of the fuzzer (\<open>stloader/src/fuzz.rs\<close>). A generator
  threads the random state and may panic (\<open>None\<close>); \<open>yields\<close> is the logic in which it is shown that none
  does, and how large what it produces can get. The reader is called through \<open>rf\<close>, the outcome of one
  execution of \<open>read_files\<close>; only whether it succeeded is counted.
\<close>

section \<open>Generators\<close>

type_synonym 'a gen = "Rng \<Rightarrow> ('a \<times> Rng) option"

definition gret :: "'a \<Rightarrow> 'a gen" where
  "gret x = (\<lambda>s. Some (x, s))"

definition gbind :: "'a gen \<Rightarrow> ('a \<Rightarrow> 'b gen) \<Rightarrow> 'b gen" where
  "gbind g f = (\<lambda>s. case g s of None \<Rightarrow> None | Some (x, s') \<Rightarrow> f x s')"

definition gbelow :: "u64 \<Rightarrow> u64 gen" where
  "gbelow n = (\<lambda>s. Some (below s n))"

definition gpick :: "'a list \<Rightarrow> 'a gen" where
  "gpick xs = (\<lambda>s. pick s xs)"

text \<open>An index that is checked at run time.\<close>

definition gcheck :: "bool \<Rightarrow> 'a gen \<Rightarrow> 'a gen" where
  "gcheck c g = (\<lambda>s. if c then g s else None)"

primrec gmap :: "('a \<Rightarrow> 'b gen) \<Rightarrow> 'a list \<Rightarrow> 'b list gen" where
  "gmap f [] = gret []"
| "gmap f (x # xs) = gbind (f x) (\<lambda>y. gbind (gmap f xs) (\<lambda>ys. gret (y # ys)))"

section \<open>Random headers\<close>

definition DTYPES :: "rstr list" where
  "DTYPES = map lit [''F64'', ''F32'', ''F16'', ''BF16'', ''I64'', ''I32'', ''I16'', ''I8'', ''U8'', ''BOOL'',
     ''F8_E4M3'', ''F8_E5M2'', ''F7'', '''', ''f32'', ''F32 '', ''FLOAT32'', ''U16'', ''I4'']"

definition WEIRD_NUMBERS :: "u64 list" where
  "WEIRD_NUMBERS = [0, 1, 2, 7, 8, 15, 16, 4095, 4096, 4097, 8192, 65535, 65536,
     0xFFFFFFFF, 0x100000000, 2 ^ 40, 2 ^ 48, u64_MAX - 1, u64_MAX]"

definition show_u64 :: "u64 \<Rightarrow> rstr" where
  "show_u64 x = show_nat (unat x)"

fun join :: "rchar \<Rightarrow> rstr list \<Rightarrow> rstr" where
  "join c [] = []"
| "join c [x] = x"
| "join c (x # y # ys) = x @ [c] @ join c (y # ys)"

definition rand_dim :: "rstr gen" where
  "rand_dim = gbind (gbelow 8) (\<lambda>k.
     if k = 0 then gbind (gpick WEIRD_NUMBERS) (\<lambda>x. gret (show_u64 x))
     else if k = 1 then gret (lit ''-1'')
     else if k = 2 then gret (lit ''1.5'')
     else if k = 3 then gret (lit ''null'')
     else if k = 4 then gret ([34] @ lit ''3'' @ [34])
     else if k = 5 then gret (lit ''18446744073709551615'')
     else if k = 6 then gbind (gbelow (2 ^ 20)) (\<lambda>x. gret (show_u64 x))
     else gbind (gbelow 64) (\<lambda>x. gret (show_u64 x)))"

definition rand_shape :: "rstr gen" where
  "rand_shape = gbind (gbelow 4) (\<lambda>n.
     gbind (gmap (\<lambda>_. rand_dim) [0..<unat n]) (\<lambda>dims. gret ([91] @ join 44 dims @ [93])))"

definition rand_name :: "nat \<Rightarrow> rstr gen" where
  "rand_name i = gbind (gbelow 6) (\<lambda>k.
     gret (if k = 0 then lit ''t'' @ show_nat i
       else if k = 1 then lit ''__metadata__''
       else if k = 2 then []
       else if k = 3 then lit ''layer.'' @ show_nat i @ lit ''.weight''
       else if k = 4 then [0x1F600]
       else lit ''dup''))"

definition rand_offsets :: "u64 \<Rightarrow> (u64 \<times> u64) gen" where
  "rand_offsets cursor = gbind (gbelow 10) (\<lambda>k.
     if k = 0 then gbind (gpick WEIRD_NUMBERS) (\<lambda>a. gbind (gpick WEIRD_NUMBERS) (\<lambda>b. gret (a, b)))
     else if k = 1 then gbind (gbelow 4096) (\<lambda>a. gret (a, saturating_sub a 1))
     else if k = 2 then gbind (gbelow 4096) (\<lambda>n. gret (cursor, cursor + n))
     else if k = 3 then gret (0, u64_MAX)
     else gbind (gbelow 1024) (\<lambda>n. gret (cursor, cursor + n)))"

text \<open>The members of an entry, with the quotes and braces of the raw format strings.\<close>

definition quoted :: "rstr \<Rightarrow> rstr" where
  "quoted s = [34] @ s @ [34]"

definition member :: "rstr \<Rightarrow> rstr \<Rightarrow> rstr" where
  "member k v = quoted k @ [58] @ v"

definition braces :: "rstr list \<Rightarrow> rstr" where
  "braces ms = [123] @ join 44 ms @ [125]"

definition brackets :: "rstr list \<Rightarrow> rstr" where
  "brackets ms = [91] @ join 44 ms @ [93]"

definition entry_text :: "u64 \<Rightarrow> rstr \<Rightarrow> rstr \<Rightarrow> rstr \<Rightarrow> rstr \<Rightarrow> rstr \<Rightarrow> rstr" where
  "entry_text k name dtype shape start end =
     (let d = member (lit ''dtype'') (quoted dtype);
          sh = member (lit ''shape'') shape;
          off = (\<lambda>xs. member (lit ''data_offsets'') (brackets xs))
      in member name
           (if k = 0 then lit ''42''
            else if k = 1 then braces [d, sh]
            else if k = 2 then braces [d, off [start, end]]
            else if k = 3 then braces [sh, off [start, end]]
            else if k = 4 then braces [d, sh, off [start]]
            else if k = 5 then braces [d, sh, off [start, end, lit ''3'']]
            else braces [d, sh, off [start, end]]))"

primrec gen_entries :: "nat list \<Rightarrow> u64 \<Rightarrow> rstr list gen" where
  "gen_entries [] cursor = gret []"
| "gen_entries (i # is) cursor =
     gbind (rand_name i) (\<lambda>name.
     gbind (gpick DTYPES) (\<lambda>dtype.
     gbind rand_shape (\<lambda>shape.
     gbind (rand_offsets cursor) (\<lambda>(start, end).
     gbind (gbelow 12) (\<lambda>k.
     gbind (gen_entries is (min (max cursor end) (2 ^ 22))) (\<lambda>es.
     gret (entry_text k name dtype shape (show_u64 start) (show_u64 end) # es)))))))"

definition gen_json :: "rstr list \<Rightarrow> rstr gen" where
  "gen_json entries = gbind (gbelow 16) (\<lambda>c.
     if c = 0 then
       gbind (gbelow 4) (\<lambda>k.
       gret (if k = 0 then [123]
         else if k = 1 then braces entries
         else if k = 2 then brackets entries
         else [123] @ lit ''not json at all''))
     else gret (braces entries))"

definition gen_payload :: "u8 list gen" where
  "gen_payload = gbind (gbelow (2 ^ 16)) (\<lambda>n.
     gmap (\<lambda>i. gbind (gbelow 256) (\<lambda>x. gret (word_of_nat i * 31 + ucast x))) [0..<unat n])"

definition gen_case :: "(rstr \<times> u8 list \<times> u64 option) gen" where
  "gen_case =
     gbind (gbelow 5) (\<lambda>n.
     gbind (gen_entries [0..<unat n] 0) (\<lambda>entries.
     gbind (gen_json entries) (\<lambda>json.
     gbind gen_payload (\<lambda>payload.
     gbind (gbelow 8) (\<lambda>c.
     gbind (if c = 0 then gbind (gpick WEIRD_NUMBERS) (\<lambda>x. gret (Some x)) else gret None) (\<lambda>forced.
     gret (json, payload, forced)))))))"

section \<open>Mutation\<close>

definition mutate_op :: "u8 list \<Rightarrow> u8 list gen" where
  "mutate_op v =
     (let index = gbelow (word_of_nat (length v)) in
      gbind (gbelow 6) (\<lambda>k.
      if k = 0 then
        gbind index (\<lambda>i. gbind (gbelow 8) (\<lambda>b.
        gcheck (unat i < length v) (gret (v[unat i := xor (v ! unat i) (push_bit (unat b) 1)]))))
      else if k = 1 then
        gbind index (\<lambda>i. gbind (gbelow 256) (\<lambda>x.
        gcheck (unat i < length v) (gret (v[unat i := ucast x]))))
      else if k = 2 then
        (if 8 \<le> length v then gbind (gpick WEIRD_NUMBERS) (\<lambda>x. gret (u64_to_le_bytes x @ drop 8 v)) else gret v)
      else if k = 3 then
        (if 1 < length v then gbind index (\<lambda>n. gret (take (unat n) v)) else gret v)
      else if k = 4 then
        gbind index (\<lambda>i. gbind (gbelow 256) (\<lambda>x.
        gcheck (unat i \<le> length v) (gret (take (unat i) v @ [ucast x] @ drop (unat i) v))))
      else
        (if 1 < length v then
           gbind index (\<lambda>i. gcheck (unat i < length v) (gret (take (unat i) v @ drop (unat i + 1) v)))
         else gret v)))"

primrec mutate_loop :: "nat \<Rightarrow> u8 list \<Rightarrow> u8 list gen" where
  "mutate_loop 0 v = gret v"
| "mutate_loop (Suc n) v = (if v = [] then gret v else gbind (mutate_op v) (mutate_loop n))"

definition mutate :: "u8 list \<Rightarrow> u8 list gen" where
  "mutate base = (if base = [] then gret base else gbind (gbelow 4) (\<lambda>ops. mutate_loop (1 + unat ops) base))"

section \<open>The run\<close>

definition seed_entry :: "rstr \<Rightarrow> rstr \<Rightarrow> rstr \<Rightarrow> rstr \<Rightarrow> rstr" where
  "seed_entry name dtype shape offsets =
     member name (braces [member (lit ''dtype'') (quoted dtype), member (lit ''shape'') shape, member (lit ''data_offsets'') offsets])"

definition seed_corpus :: "u8 list list" where
  "seed_corpus = map (\<lambda>(json, payload). assemble json (replicate payload 0x5A) None)
     [(braces [seed_entry (lit ''a'') (lit ''F32'') (lit ''[4]'') (lit ''[0,16]'')], 16),
      (braces [seed_entry (lit ''a'') (lit ''F32'') (lit ''[1024]'') (lit ''[0,4096]''),
               seed_entry (lit ''b'') (lit ''F16'') (lit ''[8]'') (lit ''[4096,4112]'')], 4112),
      (braces [member (lit ''__metadata__'') (braces [member (lit ''format'') (quoted (lit ''pt''))]),
               seed_entry (lit ''w'') (lit ''BF16'') (lit ''[2,2]'') (lit ''[0,8]'')], 8),
      (braces [seed_entry (lit ''z'') (lit ''U8'') (lit ''[0]'') (lit ''[0,0]'')], 0),
      (braces [seed_entry (lit ''s'') (lit ''F64'') (lit ''[]'') (lit ''[0,8]'')], 8)]"

definition gen_bytes :: "u8 list list \<Rightarrow> u8 list gen" where
  "gen_bytes seeds = gbind (gbelow 10) (\<lambda>k.
     if k \<le> 4 then gbind gen_case (\<lambda>(json, payload, forced). gret (assemble json payload forced))
     else if k \<le> 6 then gbind (gpick seeds) mutate
     else if k \<le> 8 then gpick seeds
     else gbind (gbelow 2) (\<lambda>c.
       if c = 0 then gbind (gbelow 4096) (\<lambda>n. gmap (\<lambda>_. gbind (gbelow 256) (\<lambda>x. gret (ucast x))) [0..<unat n])
       else gbind (gbelow 256) (\<lambda>n.
         gbind (gmap (\<lambda>_. gbind (gbelow 95) (\<lambda>x. gret (32 + unat x))) [0..<unat n]) (\<lambda>s.
         gret (assemble s (replicate 32 0) None)))))"

definition plan_as_pairs :: "Range list \<Rightarrow> (nat \<times> Range) list" where
  "plan_as_pairs plan = map (\<lambda>r. (0, r)) plan"

text \<open>What a run depends on outside the program: the file system, the JSON parser, and the outcome the kernel gives each
  read, a function that picks one of the results the relation \<open>read_files\<close> allows.\<close>

record 'f fuzz_env =
  fe_fs :: "rstr \<Rightarrow> u8 list option"
  fe_create_dir :: "io_error + unit"
  fe_writable :: bool
  fe_from_slice :: "u8 list \<Rightarrow> 'f json option"
  fe_read_files :: "rstr list \<Rightarrow> (nat \<times> Range) list \<Rightarrow> ReadConfig \<Rightarrow> io_error + ReadStats"

text \<open>\<open>None\<close> is a panic.\<close>

definition run_case :: "'f fuzz_env \<Rightarrow> rstr \<Rightarrow> u8 list \<Rightarrow> u64 \<Rightarrow> bool \<Rightarrow> (bool \<times> bool) option" where
  "run_case E path bytes block do_read =
     (if \<not> fe_writable E then None
      else
        case read_header ((fe_fs E)(path \<mapsto> bytes)) (fe_from_slice E) path of
          Inl _ \<Rightarrow> Some (False, False)
        | Inr h \<Rightarrow>
            if check_plan h block \<noteq> None then None
            else if do_read \<and> 0 < sh_file_size h \<and> sh_file_size h \<le> 2 ^ 20 then
              (case fe_read_files E [path] (plan_as_pairs (plan_shard h block 0))
                      \<lparr>depth = 4, chunk_bytes = 4096, direct = True, cfg_block = block\<rparr> of
                 Inr _ \<Rightarrow> Some (True, True)
               | Inl _ \<Rightarrow> Some (True, False))
            else Some (True, False))"

record FuzzReport =
  fr_iterations :: nat
  fr_parsed_ok :: nat
  fr_rejected :: nat
  fr_reads_executed :: nat
  fr_panics :: "(nat \<times> nat) list"
  fr_invariant_failures :: "rstr list"

definition FuzzReport_ok :: "FuzzReport \<Rightarrow> bool" where
  "FuzzReport_ok r \<longleftrightarrow> fr_panics r = [] \<and> fr_invariant_failures r = []"

definition FuzzReport_default :: FuzzReport where
  "FuzzReport_default = \<lparr>fr_iterations = 0, fr_parsed_ok = 0, fr_rejected = 0, fr_reads_executed = 0, fr_panics = [],
     fr_invariant_failures = []\<rparr>"

text \<open>A recorded panic is its iteration and the length of the case.\<close>

definition record_case :: "nat \<Rightarrow> u8 list \<Rightarrow> (bool \<times> bool) option \<Rightarrow> FuzzReport \<Rightarrow> FuzzReport" where
  "record_case i bytes result r =
     (case result of
        None \<Rightarrow> r\<lparr>fr_panics := fr_panics r @ [(i, length bytes)], fr_iterations := fr_iterations r + 1\<rparr>
      | Some (parsed, read_ok) \<Rightarrow>
          r\<lparr>fr_parsed_ok := fr_parsed_ok r + (if parsed then 1 else 0),
            fr_rejected := fr_rejected r + (if parsed then 0 else 1),
            fr_reads_executed := fr_reads_executed r + (if read_ok then 1 else 0),
            fr_iterations := fr_iterations r + 1\<rparr>)"

primrec fuzz_loop :: "'f fuzz_env \<Rightarrow> rstr \<Rightarrow> bool \<Rightarrow> nat list \<Rightarrow> FuzzReport \<Rightarrow> FuzzReport gen" where
  "fuzz_loop E path do_reads [] r = gret r"
| "fuzz_loop E path do_reads (i # is) r =
     gbind (gen_bytes seed_corpus) (\<lambda>bytes.
     fuzz_loop E path do_reads is (record_case i bytes (run_case E path bytes 4096 do_reads) r))"

text \<open>\<open>path\<close> is the case file in the scratch directory; a panic outside a case ends the run (\<open>None\<close>).\<close>

definition fuzz_run :: "'f fuzz_env \<Rightarrow> nat \<Rightarrow> u64 \<Rightarrow> rstr \<Rightarrow> bool \<Rightarrow> io_error + FuzzReport option" where
  "fuzz_run E iterations seed path do_reads =
     try_bind (fe_create_dir E) (\<lambda>_.
     Inr (map_option fst (fuzz_loop E path do_reads [0..<iterations] FuzzReport_default (Rng_new seed))))"

definition dtype_token_count :: nat where
  "dtype_token_count = length DTYPES"

definition dtype_table_is_consistent :: bool where
  "dtype_table_is_consistent \<longleftrightarrow>
     list_all (\<lambda>d. Dtype_parse (Dtype_as_str d) = Some d) (List.map_filter Dtype_parse DTYPES)"

section \<open>The logic of generators\<close>

text \<open>\<open>yields P g\<close>: from every random state the generator returns, with a value that satisfies \<open>P\<close>.\<close>

definition yields :: "('a \<Rightarrow> bool) \<Rightarrow> 'a gen \<Rightarrow> bool" where
  "yields P g \<longleftrightarrow> (\<forall>s. \<exists>x s'. g s = Some (x, s') \<and> P x)"

lemma yields_ret: "P x \<Longrightarrow> yields P (gret x)"
  by (simp add: yields_def gret_def)

lemma yields_bind: "yields Q g \<Longrightarrow> (\<And>x. Q x \<Longrightarrow> yields P (f x)) \<Longrightarrow> yields P (gbind g f)"
  unfolding yields_def gbind_def by (metis (no_types, lifting) option.simps(5) prod.case)

lemma yields_below: "0 < n \<Longrightarrow> yields (\<lambda>x. x < n) (gbelow n)"
  using below_less [of n] by (auto simp: yields_def gbelow_def) (metis prod.collapse)

lemma yields_pick: "xs \<noteq> [] \<Longrightarrow> length xs < 2 ^ 64 \<Longrightarrow> yields (\<lambda>x. x \<in> set xs) (gpick xs)"
  using pick_total [of xs] by (fastforce simp: yields_def gpick_def)

lemma yields_check: "c \<Longrightarrow> yields P g \<Longrightarrow> yields P (gcheck c g)"
  by (simp add: yields_def gcheck_def)

lemma yields_if: "(c \<Longrightarrow> yields P g) \<Longrightarrow> (\<not> c \<Longrightarrow> yields P h) \<Longrightarrow> yields P (if c then g else h)"
  by simp

lemma yields_mono: "yields Q g \<Longrightarrow> (\<And>x. Q x \<Longrightarrow> P x) \<Longrightarrow> yields P g"
  by (auto simp: yields_def) blast

lemma yields_map: "(\<And>x. x \<in> set xs \<Longrightarrow> yields P (f x)) \<Longrightarrow> yields (\<lambda>ys. length ys = length xs \<and> list_all P ys) (gmap f xs)"
proof (induction xs)
  case (Cons x xs)
  then show ?case
    by (auto intro!: yields_bind [of P "f x"] yields_bind [of "\<lambda>ys. length ys = length xs \<and> list_all P ys" "gmap f xs"] yields_ret)
qed (simp add: yields_ret)

section \<open>The sizes of what is generated\<close>

lemma length_show_nat: "n < 10 ^ Suc k \<Longrightarrow> length (show_nat n) \<le> Suc k"
proof (induction k arbitrary: n)
  case (Suc k)
  then have "n div 10 < 10 ^ Suc k" by (simp add: div_less_iff_less_mult mult.commute)
  then have "length (show_nat (n div 10)) \<le> Suc k" by (rule Suc.IH)
  then show ?case by (subst show_nat.simps) simp
qed (simp add: show_nat.simps)

lemma length_show_u64: "length (show_u64 x) \<le> 20"
proof -
  have "unat x < 10 ^ Suc 19" by (rule less_trans [OF unat_lt_u64]) simp
  then show ?thesis unfolding show_u64_def by (rule order.trans [OF length_show_nat]) simp
qed

lemma length_join: "list_all (\<lambda>x. length x \<le> b) xs \<Longrightarrow> length (join c xs) \<le> length xs * (b + 1)"
  by (induction c xs rule: join.induct) simp_all

lemma yields_below_any: "yields (\<lambda>_. True) (gbelow n)"
  by (simp add: yields_def gbelow_def)

lemma weird_ok: "WEIRD_NUMBERS \<noteq> []" "length WEIRD_NUMBERS < 2 ^ 64"
  by (simp_all add: WEIRD_NUMBERS_def)

lemma yields_weird: "(\<And>x. yields P (f x)) \<Longrightarrow> yields P (gbind (gpick WEIRD_NUMBERS) f)"
  by (rule yields_bind [OF yields_pick [OF weird_ok]])

lemma yields_any: "(\<And>x. yields P (f x)) \<Longrightarrow> yields P (gbind (gbelow n) f)"
  by (rule yields_bind [OF yields_below_any])

lemma rand_dim_length: "yields (\<lambda>x. length x \<le> 20) rand_dim"
  unfolding rand_dim_def by (intro yields_any yields_if yields_weird yields_ret length_show_u64) simp_all

lemma rand_shape_length: "yields (\<lambda>x. length x \<le> 65) rand_shape"
proof -
  have "yields (\<lambda>x. length x \<le> 65) (gbind (gmap (\<lambda>_. rand_dim) [0..<unat n]) (\<lambda>dims. gret ([91] @ join 44 dims @ [93])))"
    if "n < 4" for n :: u64
  proof (rule yields_bind [OF yields_map [OF rand_dim_length]])
    fix dims :: "rstr list"
    assume "length dims = length [0..<unat n] \<and> list_all (\<lambda>x. length x \<le> 20) dims"
    moreover from this length_join [of 20 dims 44] have "length (join 44 dims) \<le> unat n * 21" by simp
    moreover have "unat n < 4" using that by (simp add: word_less_nat_alt)
    ultimately show "yields (\<lambda>x. length x \<le> 65) (gret ([91] @ join 44 dims @ [93]))" by (intro yields_ret) simp
  qed
  then show ?thesis unfolding rand_shape_def by (intro yields_bind [OF yields_below]) simp_all
qed

lemma rand_name_length: "i < 10 \<Longrightarrow> yields (\<lambda>x. length x \<le> 14) (rand_name i)"
  unfolding rand_name_def by (intro yields_any yields_ret) (simp add: show_nat.simps)

lemma dtypes_ok: "DTYPES \<noteq> []" "length DTYPES < 2 ^ 64" "d \<in> set DTYPES \<Longrightarrow> length d \<le> 7"
  by (auto simp: DTYPES_def)

lemma entry_text_length:
  assumes "length name \<le> 14" and "length dtype \<le> 7" and "length shape \<le> 65" and "length start \<le> 20" and "length end \<le> 20"
  shows "length (entry_text k name dtype shape start end) \<le> 200"
  using assms by (simp add: entry_text_def Let_def member_def quoted_def braces_def brackets_def)

lemma rand_offsets_total: "yields (\<lambda>_. True) (rand_offsets cursor)"
  unfolding rand_offsets_def by (intro yields_any yields_if yields_weird yields_ret) simp_all

lemma gen_entries_length:
  "\<forall>i \<in> set is. i < 10 \<Longrightarrow> yields (\<lambda>es. length es = length is \<and> list_all (\<lambda>e. length e \<le> 200) es) (gen_entries is cursor)"
proof (induction "is" arbitrary: cursor)
  case (Cons i "is")
  have e: "length (entry_text k name dtype shape (show_u64 a) (show_u64 b)) \<le> 200"
    if "length name \<le> 14" "dtype \<in> set DTYPES" "length shape \<le> 65" for k name dtype shape a b
    using entry_text_length that dtypes_ok(3) length_show_u64 by blast
  show ?case
    unfolding gen_entries.simps
    by (rule yields_bind [OF rand_name_length], use Cons.prems in simp,
        rule yields_bind [OF yields_pick [OF dtypes_ok(1,2)]],
        rule yields_bind [OF rand_shape_length],
        rule yields_bind [OF rand_offsets_total], clarify,
        rule yields_any,
        rule yields_bind [OF Cons.IH], use Cons.prems in simp,
        rule yields_ret, use e in simp)
qed (simp add: yields_ret)

lemma gen_json_length:
  assumes "length es \<le> 4" and "list_all (\<lambda>e. length e \<le> 200) es"
  shows "yields (\<lambda>x. length x \<le> 1000) (gen_json es)"
proof -
  have "length (join 44 es) \<le> length es * 201" using length_join [OF assms(2), of 44] by simp
  then have "length (join 44 es) \<le> 804" using assms(1) by linarith
  then show ?thesis unfolding gen_json_def by (intro yields_any yields_if yields_ret) (simp_all add: braces_def brackets_def)
qed

lemma gen_payload_length: "yields (\<lambda>x. length x \<le> 65536) gen_payload"
proof -
  have byte: "yields (\<lambda>_. True) (gbind (gbelow 256) (\<lambda>x. gret (f x)))" for f :: "u64 \<Rightarrow> u8" by (intro yields_any yields_ret) simp
  show ?thesis
    unfolding gen_payload_def
    by (rule yields_bind [OF yields_below], simp, rule yields_mono [OF yields_map [OF byte]]) (simp add: word_less_nat_alt)
qed

lemma gen_case_length: "yields (\<lambda>(json, payload, forced). length json \<le> 1000 \<and> length payload \<le> 65536) gen_case"
  unfolding gen_case_def
proof (rule yields_bind [OF yields_below])
  fix n :: u64
  assume "n < 5"
  then have n: "unat n < 5" by (simp add: word_less_nat_alt)
  show "yields (\<lambda>(json, payload, forced). length json \<le> 1000 \<and> length payload \<le> 65536)
     (gbind (gen_entries [0..<unat n] 0) (\<lambda>entries. gbind (gen_json entries) (\<lambda>json. gbind gen_payload (\<lambda>payload.
      gbind (gbelow 8) (\<lambda>c. gbind (if c = 0 then gbind (gpick WEIRD_NUMBERS) (\<lambda>x. gret (Some x)) else gret None) (\<lambda>forced.
      gret (json, payload, forced)))))))"
    by (rule yields_bind [OF gen_entries_length], use n in simp,
        rule yields_bind [OF gen_json_length], use n in simp, simp,
        rule yields_bind [OF gen_payload_length],
        rule yields_any, rule yields_bind [of "\<lambda>_. True"], intro yields_if yields_weird yields_ret TrueI,
        rule yields_ret, simp)
qed simp

lemma length_utf8_le: "length (utf8 s) \<le> 4 * length s"
  by (induction s) (simp_all add: utf8_def utf8_char_def)

lemma length_assemble: "length (assemble json payload forced) \<le> 8 + 4 * length json + length payload"
proof -
  have "length (u64_to_le_bytes x) = 8" for x by (simp add: u64_to_le_bytes_def)
  then show ?thesis using length_utf8_le [of json] by (simp add: assemble_def Let_def)
qed

lemma seed_corpus_ok: "seed_corpus \<noteq> []" "length seed_corpus < 2 ^ 64" "v \<in> set seed_corpus \<Longrightarrow> length v \<le> 10000"
proof -
  show "seed_corpus \<noteq> []" "length seed_corpus < 2 ^ 64" by (simp_all add: seed_corpus_def)
  assume "v \<in> set seed_corpus"
  then obtain json p f where v: "v = assemble json p f" "length json \<le> 200" "length p \<le> 4112"
    by (auto simp: seed_corpus_def seed_entry_def member_def quoted_def braces_def)
  then show "length v \<le> 10000" using length_assemble [of json p f] by simp
qed

section \<open>Mutation never panics\<close>

lemma mutate_op_length:
  assumes "v \<noteq> []" and "length v \<le> 2 ^ 20"
  shows "yields (\<lambda>w. length w \<le> length v + 1) (mutate_op v)"
proof -
  have n: "unat (word_of_nat (length v) :: u64) = length v"
    using assms(2) by (simp add: unat_of_nat take_bit_nat_eq_self)
  have index: "yields P (gbind (gbelow (word_of_nat (length v))) f)" if "\<And>i. unat i < length v \<Longrightarrow> yields P (f i)" for P f
    using assms(1) n that by (intro yields_bind [OF yields_below]) (simp_all add: word_less_nat_alt)
  have "length (u64_to_le_bytes x) = 8" for x by (simp add: u64_to_le_bytes_def)
  then show ?thesis
    unfolding mutate_op_def Let_def
    by (intro yields_any yields_if index yields_weird yields_check yields_ret) simp_all
qed

lemma mutate_loop_length: "length v + n \<le> 2 ^ 20 \<Longrightarrow> yields (\<lambda>w. length w \<le> length v + n) (mutate_loop n v)"
proof (induction n arbitrary: v)
  case (Suc n)
  show ?case
  proof (cases "v = []")
    case False
    then show ?thesis
      using Suc.prems by (auto intro!: yields_bind [OF mutate_op_length] yields_mono [OF Suc.IH])
  qed (simp add: yields_ret)
qed (simp add: yields_ret)

lemma mutate_length: "length v \<le> 10000 \<Longrightarrow> yields (\<lambda>w. length w \<le> 20000) (mutate v)"
  unfolding mutate_def
proof (intro yields_if yields_ret yields_bind [OF yields_below])
  fix ops :: u64
  assume "length v \<le> 10000" and "ops < 4"
  then show "yields (\<lambda>w. length w \<le> 20000) (mutate_loop (1 + unat ops) v)"
    by (intro yields_mono [OF mutate_loop_length]) (simp_all add: word_less_nat_alt)
qed simp_all

lemma gen_bytes_length: "yields (\<lambda>v. length v \<le> 100000) (gen_bytes seed_corpus)"
proof -
  have byte: "yields (\<lambda>_. True) (gbind (gbelow m) (\<lambda>x. gret (f x)))" for m and f :: "u64 \<Rightarrow> 'a" by (intro yields_any yields_ret) simp
  note pick_seed = yields_pick [OF seed_corpus_ok(1,2)]
  have "yields (\<lambda>v. length v \<le> 100000) (gbind gen_case (\<lambda>(json, payload, forced). gret (assemble json payload forced)))"
    by (rule yields_bind [OF gen_case_length], clarify, rule yields_ret, rule order.trans [OF length_assemble]) simp
  moreover have "yields (\<lambda>v. length v \<le> 100000) (gbind (gpick seed_corpus) mutate)"
    by (rule yields_bind [OF pick_seed], rule yields_mono [OF mutate_length]) (simp_all add: seed_corpus_ok(3))
  moreover have "yields (\<lambda>v. length v \<le> 100000) (gpick seed_corpus)"
    by (rule yields_mono [OF pick_seed]) (use seed_corpus_ok(3) in fastforce)
  moreover have "yields (\<lambda>v. length v \<le> 100000) (gbind (gbelow 4096) (\<lambda>n. gmap (\<lambda>_. gbind (gbelow 256) (\<lambda>x. gret (ucast x))) [0..<unat n]))"
    by (rule yields_bind [OF yields_below], simp, rule yields_mono [OF yields_map [OF byte]]) (simp add: word_less_nat_alt)
  moreover have "yields (\<lambda>v. length v \<le> 100000) (gbind (gbelow 256) (\<lambda>n.
         gbind (gmap (\<lambda>_. gbind (gbelow 95) (\<lambda>x. gret (32 + unat x))) [0..<unat n]) (\<lambda>s. gret (assemble s (replicate 32 0) None))))"
    by (rule yields_bind [OF yields_below], simp, rule yields_bind [OF yields_map [OF byte]], rule yields_ret,
        rule order.trans [OF length_assemble]) (simp add: word_less_nat_alt)
  ultimately show ?thesis unfolding gen_bytes_def by - (assumption | rule yields_if yields_any)+
qed

section \<open>The fuzzer finds nothing\<close>

lemma read_header_file_size:
  "read_header (fs(path \<mapsto> bytes)) from_slice path = Inr h \<Longrightarrow> sh_file_size h = word_of_nat (length bytes)"
  by (auto simp: read_header_def read_header_bytes_def Let_def try_bind_Inr)

lemma run_case_ok:
  assumes "fe_writable E" and "length bytes \<le> 100000"
  shows "\<exists>parsed read_ok. run_case E path bytes 4096 do_read = Some (parsed, read_ok) \<and> (read_ok \<longrightarrow> parsed)"
proof (cases "read_header ((fe_fs E)(path \<mapsto> bytes)) (fe_from_slice E) path")
  case (Inr h)
  have "unat (sh_file_size h) = length bytes"
    using read_header_file_size [OF Inr] assms(2) by (simp add: unat_of_nat take_bit_nat_eq_self)
  then have "check_plan h 4096 = None" using assms(2) by (intro check_plan_none [OF Inr]) simp_all
  then show ?thesis using Inr assms(1) by (auto simp: run_case_def split: sum.splits)
qed (use assms(1) in \<open>auto simp: run_case_def\<close>)

definition report_ok :: "nat \<Rightarrow> FuzzReport \<Rightarrow> bool" where
  "report_ok n r \<longleftrightarrow> FuzzReport_ok r \<and> fr_iterations r = n \<and> fr_parsed_ok r + fr_rejected r = n \<and>
     fr_reads_executed r \<le> fr_parsed_ok r"

lemma fuzz_loop_ok:
  assumes "fe_writable E"
  shows "report_ok n r \<Longrightarrow> yields (report_ok (n + length is)) (fuzz_loop E path do_reads is r)"
proof (induction "is" arbitrary: n r)
  case (Cons i "is")
  show ?case unfolding fuzz_loop.simps
  proof (rule yields_bind [OF gen_bytes_length])
    fix bytes :: "u8 list"
    assume "length bytes \<le> 100000"
    from run_case_ok [OF assms this, of path do_reads]
    obtain parsed read_ok where "run_case E path bytes 4096 do_reads = Some (parsed, read_ok)" "read_ok \<longrightarrow> parsed" by blast
    then have "report_ok (n + 1) (record_case i bytes (run_case E path bytes 4096 do_reads) r)"
      using Cons.prems by (auto simp: report_ok_def record_case_def FuzzReport_ok_def)
    from Cons.IH [OF this]
    show "yields (report_ok (n + length (i # is))) (fuzz_loop E path do_reads is (record_case i bytes (run_case E path bytes 4096 do_reads) r))"
      by simp
  qed
qed (simp add: yields_ret)

lemma fuzz_run_report:
  assumes "fe_create_dir E = Inr ()" and "fe_writable E"
  shows "\<exists>r. fuzz_run E iterations seed path do_reads = Inr (Some r) \<and> report_ok iterations r"
proof -
  have "report_ok 0 FuzzReport_default" by (simp add: report_ok_def FuzzReport_ok_def FuzzReport_default_def)
  from fuzz_loop_ok [OF assms(2) this, of "[0..<iterations]" path do_reads, unfolded yields_def, THEN spec, of "Rng_new seed"]
  obtain r s where "fuzz_loop E path do_reads [0..<iterations] FuzzReport_default (Rng_new seed) = Some (r, s)" "report_ok iterations r"
    by auto
  then show ?thesis using assms(1) by (auto simp: fuzz_run_def)
qed

text \<open>C9. The fuzzer finds nothing, whatever the seed: once its directory exists and its file can be written, a run of
  any length completes, its own generator and mutator never index out of range, no case panics and no invariant
  fails. Every case is counted once, as parsed or as rejected, and only parsed ones are read.\<close>

theorem fuzz_run_clean:
  assumes "fe_create_dir E = Inr ()" and "fe_writable E"
  shows "\<exists>r. fuzz_run E iterations seed path do_reads = Inr (Some r) \<and> FuzzReport_ok r \<and> fr_iterations r = iterations \<and>
    fr_parsed_ok r + fr_rejected r = iterations \<and> fr_reads_executed r \<le> fr_parsed_ok r"
  using fuzz_run_report [OF assms] by (auto simp: report_ok_def)

lemma dtype_table_ok: "dtype_table_is_consistent" "dtype_token_count = 19"
  by (simp_all add: dtype_table_is_consistent_def dtype_token_count_def DTYPES_def map_filter_simps Dtype_parse_def)

theorem fuzz_run_clean_witness:
  "\<exists>r. fuzz_run \<lparr>fe_fs = (\<lambda>_. None), fe_create_dir = Inr (), fe_writable = True, fe_from_slice = ex_from_slice,
      fe_read_files = (\<lambda>_ _ _. Inr ReadStats_default)\<rparr> 1000 42 (lit ''c'') True = Inr (Some r) \<and>
    FuzzReport_ok r \<and> fr_parsed_ok r + fr_rejected r = 1000"
  using fuzz_run_clean [where E = "\<lparr>fe_fs = (\<lambda>_. None), fe_create_dir = Inr (), fe_writable = True, fe_from_slice = ex_from_slice,
      fe_read_files = (\<lambda>_ _ _. Inr ReadStats_default)\<rparr>" and iterations = 1000 and seed = 42 and path = "lit ''c''" and do_reads = True]
  by auto

end
