(* ===== verification/St_Cache.thy ===== *)
theory St_Cache
  imports St_Plan
begin

text \<open>
  Page-cache inspection and model totals of the streaming loader (\<open>stloader/src/cache.rs\<close> and
  \<open>stloader/src/lib.rs\<close>). \<open>resident_ratio\<close> probes windows of a file with \<open>mmap\<close> and
  \<open>mincore\<close>, which are parameters; the ratio is kept as the pair of its numerator and
  denominator, and the \<open>-1.0\<close> of the source is \<open>None\<close>. \<open>drop_page_cache\<close> records the calls it
  makes, \<open>min_resident_ratio\<close> compares the fractions.
\<close>

section \<open>Page-cache probe\<close>

definition page_size :: "int \<Rightarrow> nat" where
  "page_size v = (if v \<le> 0 then 4096 else nat v)"

definition PROBE_WINDOW_BYTES :: nat where
  "PROBE_WINDOW_BYTES = 1048576"

definition MAX_PROBE_PAGES :: nat where
  "MAX_PROBE_PAGES = 16384"

definition MAX_PROBE_WINDOWS :: nat where
  "MAX_PROBE_WINDOWS = 64"

definition probe_window :: "nat \<Rightarrow> nat \<Rightarrow> nat" where
  "probe_window page fsize = max (min PROBE_WINDOW_BYTES fsize) page"

definition probe_step :: "nat \<Rightarrow> nat \<Rightarrow> nat" where
  "probe_step page fsize =
     (let window = probe_window page fsize;
          nwin = min (max ((fsize + window - 1) div window) 1) MAX_PROBE_WINDOWS
      in max window (fsize div nwin))"

lemma probe_step_pos: "0 < fsize \<Longrightarrow> 0 < probe_step page fsize"
  by (simp add: probe_step_def Let_def less_max_iff_disj probe_window_def PROBE_WINDOW_BYTES_def)

text \<open>The length of the window at an offset, cut to whole pages, and the page counts after it.\<close>

definition probe_len :: "nat \<Rightarrow> nat \<Rightarrow> nat \<Rightarrow> nat" where
  "probe_len page fsize off =
     (let len = min (probe_window page fsize) (fsize - off) in len - len mod page)"

definition probe_count :: "nat \<Rightarrow> u8 list option \<Rightarrow> nat \<times> nat \<Rightarrow> nat \<times> nat" where
  "probe_count npages vec acc =
     (case vec of
        Some v \<Rightarrow> (fst acc + length (filter (\<lambda>b. and b 1 = 1) v), snd acc + npages)
      | None \<Rightarrow> acc)"

function probe_loop ::
  "(nat \<Rightarrow> nat \<Rightarrow> bool) \<Rightarrow> (nat \<Rightarrow> nat \<Rightarrow> u8 list option) \<Rightarrow> nat \<Rightarrow> nat \<Rightarrow> nat \<Rightarrow> nat \<times> nat \<Rightarrow> nat \<times> nat" where
  "probe_loop mmap mincore page fsize off acc =
     (if off < fsize \<and> snd acc < MAX_PROBE_PAGES then
        let len = probe_len page fsize off in
        if len = 0 then acc
        else if \<not> mmap off len then acc
        else probe_loop mmap mincore page fsize (off + probe_step page fsize)
               (probe_count (len div page) (mincore off len) acc)
      else acc)"
  by pat_completeness auto
termination
proof (relation "measure (\<lambda>(mmap, mincore, page, fsize, off, acc). fsize - off)", goal_cases)
  case (2 mmap mincore page fsize off acc)
  then have "off < fsize" by simp
  with probe_step_pos [of fsize page] show ?case by simp
qed simp

declare probe_loop.simps [simp del]

text \<open>\<open>opened\<close> is the outcome of opening the file after its size is known.\<close>

definition resident_ratio ::
  "(nat \<Rightarrow> nat \<Rightarrow> bool) \<Rightarrow> (nat \<Rightarrow> nat \<Rightarrow> u8 list option) \<Rightarrow> nat \<Rightarrow> nat option \<Rightarrow> bool
    \<Rightarrow> (nat \<times> nat) option option" where
  "resident_ratio mmap mincore page metadata opened =
     (case metadata of
        None \<Rightarrow> None
      | Some fsize \<Rightarrow>
          if fsize = 0 then Some None
          else if \<not> opened then None
          else
            let (resident, tot) = probe_loop mmap mincore page fsize 0 (0, 0)
            in if tot = 0 then Some None else Some (Some (resident, tot)))"

text \<open>What the probe relies on of \<open>mincore\<close>: one byte per page of the window.\<close>

definition mincore_ok :: "nat \<Rightarrow> (nat \<Rightarrow> nat \<Rightarrow> u8 list option) \<Rightarrow> bool" where
  "mincore_ok page mincore \<longleftrightarrow> (\<forall>off len vec. mincore off len = Some vec \<longrightarrow> length vec = len div page)"

lemma probe_len_le: "probe_len page fsize off div page \<le> probe_window page fsize div page"
  by (intro div_le_mono) (simp add: probe_len_def Let_def)

lemma probe_loop_bounds:
  "mincore_ok page mincore \<Longrightarrow> fst acc \<le> snd acc \<Longrightarrow>
   snd acc < MAX_PROBE_PAGES + probe_window page fsize div page \<or> snd acc = 0 \<Longrightarrow>
   fst (probe_loop mmap mincore page fsize off acc) \<le> snd (probe_loop mmap mincore page fsize off acc) \<and>
   (snd (probe_loop mmap mincore page fsize off acc) < MAX_PROBE_PAGES + probe_window page fsize div page \<or>
    snd (probe_loop mmap mincore page fsize off acc) = 0)"
proof (induction mmap mincore page fsize off acc rule: probe_loop.induct)
  case (1 mmap mincore page fsize off acc)
  define len where "len = probe_len page fsize off"
  define acc' where "acc' = probe_count (len div page) (mincore off len) acc"
  show ?case
  proof (cases "off < fsize \<and> snd acc < MAX_PROBE_PAGES \<and> len \<noteq> 0 \<and> mmap off len")
    case True
    have filt: "length (filter P vec) \<le> len div page" if "mincore off len = Some vec" for P vec
      using that "1.prems"(1) length_filter_le [of P vec] by (auto simp: mincore_ok_def)
    have b: "fst acc' \<le> snd acc'" "snd acc' < MAX_PROBE_PAGES + probe_window page fsize div page"
      using True "1.prems"(2,3) probe_len_le [of page fsize off] filt
      by (auto simp: acc'_def probe_count_def len_def split: option.splits intro: add_mono)
    have "probe_loop mmap mincore page fsize off acc =
        probe_loop mmap mincore page fsize (off + probe_step page fsize) acc'"
      using True by (subst probe_loop.simps) (simp add: Let_def acc'_def len_def)
    with "1.IH" [OF _ len_def] True b "1.prems"(1) show ?thesis by (simp add: acc'_def)
  next
    case False
    then have "probe_loop mmap mincore page fsize off acc = acc"
      by (subst probe_loop.simps) (auto simp: Let_def len_def)
    with "1.prems" show ?thesis by simp
  qed
qed

text \<open>The residency probe stays within its budget and reports a proper fraction: the resident
  pages are among the probed ones, at least one page was probed, and at most the page budget plus
  one window of pages is.\<close>

lemma resident_ratio_bounds:
  assumes "resident_ratio mmap mincore page metadata opened = Some (Some (r, t))"
    and "mincore_ok page mincore"
  shows "r \<le> t \<and> 0 < t \<and> t < MAX_PROBE_PAGES + probe_window page (the metadata) div page"
proof -
  from assms(1) obtain fsize where m: "metadata = Some fsize"
    and p: "probe_loop mmap mincore page fsize 0 (0, 0) = (r, t)" and t: "t \<noteq> 0"
    by (auto simp: resident_ratio_def split: option.splits if_splits prod.splits)
  from probe_loop_bounds [OF assms(2), of "(0, 0)" fsize mmap 0] p t m show ?thesis by simp
qed

text \<open>The probe of a large file can degenerate: \<open>mmap\<close> refuses offsets that are not a multiple of the page size. The stride between windows is
  not rounded to one, so for a file over 64 MiB whose 64th part is not a whole number of pages
  the probe ends after the first window.\<close>

lemma probe_first_window_only:
  assumes "\<And>off len. mmap off len \<Longrightarrow> page dvd off" and "0 < page" and "page dvd PROBE_WINDOW_BYTES"
    and "64 * PROBE_WINDOW_BYTES \<le> fsize" and "\<not> page dvd fsize div 64"
  shows "snd (probe_loop mmap mincore page fsize 0 (0, 0)) \<le> PROBE_WINDOW_BYTES div page"
proof -
  have pw: "page \<le> PROBE_WINDOW_BYTES"
    using assms(3) by (rule dvd_imp_le) (simp add: PROBE_WINDOW_BYTES_def)
  then have w: "probe_window page fsize = PROBE_WINDOW_BYTES"
    using assms(4) by (simp add: probe_window_def)
  have "64 \<le> (fsize + PROBE_WINDOW_BYTES - 1) div PROBE_WINDOW_BYTES"
    using assms(4) by (simp add: less_eq_div_iff_mult_less_eq PROBE_WINDOW_BYTES_def)
  then have "min (max ((fsize + PROBE_WINDOW_BYTES - 1) div PROBE_WINDOW_BYTES) 1) MAX_PROBE_WINDOWS = 64"
    by (simp add: MAX_PROBE_WINDOWS_def)
  moreover have "PROBE_WINDOW_BYTES \<le> fsize div 64"
    using assms(4) by (simp add: less_eq_div_iff_mult_less_eq mult.commute)
  ultimately have st: "probe_step page fsize = fsize div 64"
    unfolding probe_step_def w Let_def by (simp only: max_absorb2)
  have stop: "probe_loop mmap mincore page fsize (fsize div 64) acc = acc" for acc
    using assms(1,5) by (subst probe_loop.simps) (auto simp: Let_def)
  have "probe_len page fsize 0 \<le> PROBE_WINDOW_BYTES" by (simp add: probe_len_def w Let_def)
  then have "probe_len page fsize 0 div page \<le> PROBE_WINDOW_BYTES div page" by (rule div_le_mono)
  then show ?thesis
    by (subst probe_loop.simps) (auto simp: Let_def st stop probe_count_def split: option.splits)
qed

section \<open>Dropping the cache and the minimum over the shards\<close>

text \<open>\<open>drop_page_cache\<close> with the system calls it makes recorded in order: opening a path and
  \<open>posix_fadvise\<close> are parameters. The first failure returns before the final \<open>sync\<close>.\<close>

datatype 'p cache_call = Fadvise 'p | Sync

datatype 'e cache_error = Open_failed 'e | Os_error int

fun drop_loop :: "('p \<Rightarrow> 'e + 'fd) \<Rightarrow> ('fd \<Rightarrow> int) \<Rightarrow> 'p list \<Rightarrow> ('e cache_error + unit) \<times> 'fd cache_call list" where
  "drop_loop open_file fadvise [] = (Inr (), [])"
| "drop_loop open_file fadvise (p # paths) =
     (case open_file p of
        Inl e \<Rightarrow> (Inl (Open_failed e), [])
      | Inr fd \<Rightarrow>
          if fadvise fd \<noteq> 0 then (Inl (Os_error (fadvise fd)), [Fadvise fd])
          else let (r, calls) = drop_loop open_file fadvise paths in (r, Fadvise fd # calls))"

definition drop_page_cache ::
  "('p \<Rightarrow> 'e + 'fd) \<Rightarrow> ('fd \<Rightarrow> int) \<Rightarrow> 'p list \<Rightarrow> ('e cache_error + unit) \<times> 'fd cache_call list" where
  "drop_page_cache open_file fadvise paths =
     (case drop_loop open_file fadvise paths of
        (Inl e, calls) \<Rightarrow> (Inl e, calls)
      | (Inr _, calls) \<Rightarrow> (Inr (), calls @ [Sync]))"

text \<open>The minimum of the ratios. \<open>r / t\<close> with both below \<open>2 ^ 53\<close> is rounded monotonically, so the
  smaller fraction has the smaller float. The accumulator \<open>None\<close> is the initial infinity, the
  result \<open>None\<close> is \<open>-1.0\<close>; a path whose probe fails or is itself \<open>-1.0\<close> ends the loop.\<close>

type_synonym frac = "nat \<times> nat"

definition frac_le :: "frac \<Rightarrow> frac \<Rightarrow> bool" where
  "frac_le a b \<longleftrightarrow> fst a * snd b \<le> fst b * snd a"

definition frac_min :: "frac option \<Rightarrow> frac \<Rightarrow> frac" where
  "frac_min m r = (case m of None \<Rightarrow> r | Some a \<Rightarrow> if frac_le a r then a else r)"

fun min_ratio_loop :: "('p \<Rightarrow> frac option option) \<Rightarrow> 'p list \<Rightarrow> frac option \<Rightarrow> frac option" where
  "min_ratio_loop ratio [] m = m"
| "min_ratio_loop ratio (p # paths) m =
     (case ratio p of
        Some (Some r) \<Rightarrow> min_ratio_loop ratio paths (Some (frac_min m r))
      | _ \<Rightarrow> None)"

definition min_resident_ratio :: "('p \<Rightarrow> frac option option) \<Rightarrow> 'p list \<Rightarrow> frac option" where
  "min_resident_ratio ratio paths = min_ratio_loop ratio paths None"

text \<open>\<open>getrusage\<close> is its return code and the \<open>ru_maxrss\<close> field; the cast to \<open>u64\<close> and the product
  wrap.\<close>

definition peak_rss_bytes :: "int \<Rightarrow> int \<Rightarrow> u64" where
  "peak_rss_bytes rc maxrss = (if rc \<noteq> 0 then 0 else word_of_int maxrss * 1024)"

text \<open>Success means that every path was opened and advised, in order, before the one \<open>sync\<close>.\<close>

lemma drop_loop_ok:
  "drop_loop open_file fadvise paths = (Inr (), calls) \<longleftrightarrow>
   (\<forall>p \<in> set paths. \<exists>fd. open_file p = Inr fd \<and> fadvise fd = 0) \<and>
   calls = map (\<lambda>p. Fadvise (projr (open_file p))) paths"
  by (induction paths arbitrary: calls) (auto split: sum.split prod.split, blast+)

lemma drop_loop_no_sync: "Sync \<notin> set (snd (drop_loop open_file fadvise paths))"
  by (induction paths) (auto split: sum.split prod.split)

lemma drop_page_cache_ok:
  "fst (drop_page_cache open_file fadvise paths) = Inr () \<longleftrightarrow>
   (\<forall>p \<in> set paths. \<exists>fd. open_file p = Inr fd \<and> fadvise fd = 0) \<and>
   snd (drop_page_cache open_file fadvise paths) = map (\<lambda>p. Fadvise (projr (open_file p))) paths @ [Sync]"
proof (cases "drop_loop open_file fadvise paths")
  case (Pair r calls)
  have "Sync \<notin> set calls" using drop_loop_no_sync [of open_file fadvise paths] Pair by simp
  with Pair drop_loop_ok [of open_file fadvise paths calls] show ?thesis
    by (cases r) (auto simp: drop_page_cache_def)
qed

text \<open>The cache is flushed exactly when every path was advised.\<close>

lemma drop_page_cache_sync:
  "Sync \<in> set (snd (drop_page_cache open_file fadvise paths)) \<longleftrightarrow>
   fst (drop_page_cache open_file fadvise paths) = Inr ()"
  using drop_loop_no_sync [of open_file fadvise paths]
  by (auto simp: drop_page_cache_def split: prod.split sum.split)

lemma frac_le_total: "frac_le a b \<or> frac_le b a"
  by (auto simp: frac_le_def)

lemma frac_le_trans:
  assumes "frac_le a b" and "frac_le b c" and "0 < snd b"
  shows "frac_le a c"
proof -
  have "fst a * snd b * snd c \<le> fst b * snd a * snd c"
    using assms(1) by (simp add: frac_le_def)
  also have "\<dots> \<le> fst c * snd b * snd a"
    using mult_le_mono2 [OF assms(2) [unfolded frac_le_def], of "snd a"] by (simp add: ac_simps)
  finally have "snd b * (fst a * snd c) \<le> snd b * (fst c * snd a)" by (simp add: ac_simps)
  with assms(3) show ?thesis by (simp add: frac_le_def)
qed

lemma min_ratio_loop_le:
  assumes "min_ratio_loop ratio paths m = Some q"
    and "\<And>p r. ratio p = Some (Some r) \<Longrightarrow> 0 < snd r" and "\<And>a. m = Some a \<Longrightarrow> 0 < snd a"
  shows "(\<forall>a. m = Some a \<longrightarrow> frac_le q a) \<and> (\<forall>p \<in> set paths. \<exists>r. ratio p = Some (Some r) \<and> frac_le q r) \<and>
    (m = Some q \<or> (\<exists>p \<in> set paths. ratio p = Some (Some q)))"
  using assms(1,3)
proof (induction paths arbitrary: m)
  case Nil
  then show ?case by (simp add: frac_le_def)
next
  case (Cons p paths)
  from Cons.prems(1) obtain r where r: "ratio p = Some (Some r)"
    and q: "min_ratio_loop ratio paths (Some (frac_min m r)) = Some q"
    by (auto split: option.splits)
  have pos: "0 < snd (frac_min m r)"
    using assms(2) [OF r] Cons.prems(2) by (auto simp: frac_min_def split: option.split)
  have min: "frac_le (frac_min m r) r" "\<And>a. m = Some a \<Longrightarrow> frac_le (frac_min m r) a"
    using frac_le_total by (auto simp: frac_min_def frac_le_def split: option.split)
  have "frac_min m r = r \<or> m = Some (frac_min m r)" by (auto simp: frac_min_def split: option.split)
  moreover have trans: "frac_le q a" if "frac_le q (frac_min m r)" "frac_le (frac_min m r) a" for a
    using that pos by (rule frac_le_trans)
  moreover have ih: "frac_le q (frac_min m r)"
    "\<forall>p \<in> set paths. \<exists>r. ratio p = Some (Some r) \<and> frac_le q r"
    "Some (frac_min m r) = Some q \<or> (\<exists>p \<in> set paths. ratio p = Some (Some q))"
    using Cons.IH [OF q] pos by blast+
  ultimately show ?case using min r by (metis list.set_intros option.inject set_ConsD)
qed

text \<open>A known minimum is the ratio of one of the files and at most that of every other; it is
  unknown when there is no file or some probe could not run.\<close>

lemma min_resident_ratio_least:
  assumes "min_resident_ratio ratio paths = Some q"
    and "\<And>p r. ratio p = Some (Some r) \<Longrightarrow> 0 < snd r"
  shows "(\<exists>p \<in> set paths. ratio p = Some (Some q)) \<and>
    (\<forall>p \<in> set paths. \<exists>r. ratio p = Some (Some r) \<and> frac_le q r)"
  using min_ratio_loop_le [OF assms(1) [unfolded min_resident_ratio_def] assms(2)] by auto

lemma min_ratio_loop_None:
  "min_ratio_loop ratio paths m = None \<longleftrightarrow>
   (m = None \<and> paths = []) \<or> (\<exists>p \<in> set paths. \<forall>r. ratio p \<noteq> Some (Some r))"
  by (induction paths arbitrary: m) (auto split: option.split)

lemma min_resident_ratio_unknown:
  "min_resident_ratio ratio paths = None \<longleftrightarrow>
   paths = [] \<or> (\<exists>p \<in> set paths. \<forall>r. ratio p \<noteq> Some (Some r))"
  by (simp add: min_resident_ratio_def min_ratio_loop_None)

text \<open>The reader's probe gives positive denominators, so the minimum over real probes is least.\<close>

lemma min_resident_ratio_probes:
  assumes "min_resident_ratio (\<lambda>p. resident_ratio (mmap p) (mincore p) page (metadata p) (opened p)) paths = Some (r, t)"
    and "\<And>p. mincore_ok page (mincore p)"
  shows "r \<le> t \<and> 0 < t \<and>
    (\<forall>p \<in> set paths. \<exists>q. resident_ratio (mmap p) (mincore p) page (metadata p) (opened p) = Some (Some q) \<and> frac_le (r, t) q)"
proof -
  have pos: "0 < snd q" if "resident_ratio (mmap p) (mincore p) page (metadata p) (opened p) = Some (Some q)" for p q
    using resident_ratio_bounds [of "mmap p" "mincore p" page "metadata p" "opened p" "fst q" "snd q"] that assms(2) by simp
  have least: "(\<exists>p \<in> set paths. resident_ratio (mmap p) (mincore p) page (metadata p) (opened p) = Some (Some (r, t))) \<and>
    (\<forall>p \<in> set paths. \<exists>q. resident_ratio (mmap p) (mincore p) page (metadata p) (opened p) = Some (Some q) \<and> frac_le (r, t) q)"
    by (rule min_resident_ratio_least [OF assms(1)]) (erule pos)
  then obtain p where p: "resident_ratio (mmap p) (mincore p) page (metadata p) (opened p) = Some (Some (r, t))"
    by auto
  from resident_ratio_bounds [OF p assms(2)] least show ?thesis by auto
qed

lemma peak_rss_bytes_exact:
  "0 \<le> kib \<Longrightarrow> kib < 2 ^ 54 \<Longrightarrow> uint (peak_rss_bytes 0 kib) = kib * 1024"
  by (simp add: peak_rss_bytes_def uint_word_ariths take_bit_eq_mod uint_word_of_int)

section \<open>Model totals\<close>

record ModelSummary =
  ms_shards :: nat
  ms_tensors :: nat
  ms_file_bytes :: u64
  ms_header_bytes :: u64
  ms_tensor_bytes :: u64
  ms_planned_bytes :: u64
  ms_planned_requests :: nat
  ms_unaligned_offsets :: nat
  ms_unaligned_sizes :: nat

definition count_tensor :: "u64 \<Rightarrow> u64 \<Rightarrow> TensorInfo \<Rightarrow> ModelSummary \<Rightarrow> ModelSummary" where
  "count_tensor block data_start t s =
     (let (abs_s, abs_e) = abs_range t data_start;
          s = (if abs_s mod block \<noteq> 0
               then s\<lparr>ms_unaligned_offsets := ms_unaligned_offsets s + 1\<rparr> else s)
      in if (abs_e - abs_s) mod block \<noteq> 0
         then s\<lparr>ms_unaligned_sizes := ms_unaligned_sizes s + 1\<rparr> else s)"

definition count_shard :: "u64 \<Rightarrow> 'f ShardHeader \<Rightarrow> ModelSummary \<Rightarrow> ModelSummary" where
  "count_shard block h s =
     fold (count_tensor block (sh_data_start h)) (sh_tensors h)
       (s\<lparr>ms_tensors := ms_tensors s + length (sh_tensors h),
          ms_file_bytes := ms_file_bytes s + sh_file_size h,
          ms_header_bytes := ms_header_bytes s + sh_header_len h,
          ms_tensor_bytes := ms_tensor_bytes s + tensor_bytes h\<rparr>)"

text \<open>A zero block size makes the remainder panic as soon as there is a tensor.\<close>

definition summarize_plan :: "'f ShardHeader list \<Rightarrow> u64 \<Rightarrow> (nat \<times> Range) list \<Rightarrow> ModelSummary option" where
  "summarize_plan headers block plan =
     (if block = 0 \<and> (\<exists>h \<in> set headers. sh_tensors h \<noteq> []) then None
      else
      let s0 = \<lparr>ms_shards = length headers, ms_tensors = 0, ms_file_bytes = 0, ms_header_bytes = 0,
                ms_tensor_bytes = 0, ms_planned_bytes = 0, ms_planned_requests = length plan,
                ms_unaligned_offsets = 0, ms_unaligned_sizes = 0\<rparr>;
          s = fold (count_shard block) headers s0
      in Some (s\<lparr>ms_planned_bytes := sum_list (map (\<lambda>(_, r). r_len r) plan)\<rparr>))"

definition summarize :: "'f ShardHeader list \<Rightarrow> u64 \<Rightarrow> u64 \<Rightarrow> ModelSummary option" where
  "summarize headers block max_gap = summarize_plan headers block (plan_model headers block max_gap)"

lemma count_tensor_fields:
  "ms_shards (count_tensor b d t s) = ms_shards s"
  "ms_tensors (count_tensor b d t s) = ms_tensors s"
  "ms_file_bytes (count_tensor b d t s) = ms_file_bytes s"
  "ms_header_bytes (count_tensor b d t s) = ms_header_bytes s"
  "ms_tensor_bytes (count_tensor b d t s) = ms_tensor_bytes s"
  "ms_planned_requests (count_tensor b d t s) = ms_planned_requests s"
  "ms_unaligned_offsets (count_tensor b d t s) =
     ms_unaligned_offsets s + (if (d + ti_start t) mod b \<noteq> 0 then 1 else 0)"
  "ms_unaligned_sizes (count_tensor b d t s) =
     ms_unaligned_sizes s + (if (d + ti_end t - (d + ti_start t)) mod b \<noteq> 0 then 1 else 0)"
  by (simp_all add: count_tensor_def abs_range_def Let_def)

lemma fold_count_tensor:
  "ms_shards (fold (count_tensor b d) ts s) = ms_shards s \<and>
   ms_tensors (fold (count_tensor b d) ts s) = ms_tensors s \<and>
   ms_file_bytes (fold (count_tensor b d) ts s) = ms_file_bytes s \<and>
   ms_header_bytes (fold (count_tensor b d) ts s) = ms_header_bytes s \<and>
   ms_tensor_bytes (fold (count_tensor b d) ts s) = ms_tensor_bytes s \<and>
   ms_planned_requests (fold (count_tensor b d) ts s) = ms_planned_requests s \<and>
   ms_unaligned_offsets (fold (count_tensor b d) ts s) =
     ms_unaligned_offsets s + length (filter (\<lambda>t. (d + ti_start t) mod b \<noteq> 0) ts) \<and>
   ms_unaligned_sizes (fold (count_tensor b d) ts s) =
     ms_unaligned_sizes s + length (filter (\<lambda>t. nbytes t mod b \<noteq> 0) ts)"
  by (induction ts arbitrary: s) (simp_all add: count_tensor_fields nbytes_def)

lemma fold_count_shard:
  "ms_shards (fold (count_shard b) hs s) = ms_shards s \<and>
   ms_planned_requests (fold (count_shard b) hs s) = ms_planned_requests s \<and>
   ms_tensors (fold (count_shard b) hs s) = ms_tensors s + length (concat (map sh_tensors hs)) \<and>
   ms_file_bytes (fold (count_shard b) hs s) = ms_file_bytes s + sum_list (map sh_file_size hs) \<and>
   ms_header_bytes (fold (count_shard b) hs s) = ms_header_bytes s + sum_list (map sh_header_len hs) \<and>
   ms_tensor_bytes (fold (count_shard b) hs s) = ms_tensor_bytes s + sum_list (map tensor_bytes hs) \<and>
   ms_unaligned_sizes (fold (count_shard b) hs s) =
     ms_unaligned_sizes s + length (filter (\<lambda>t. nbytes t mod b \<noteq> 0) (concat (map sh_tensors hs)))"
  by (induction hs arbitrary: s) (simp_all add: count_shard_def fold_count_tensor add.assoc)

text \<open>The totals are what their names say.\<close>

lemma summarize_totals:
  assumes "summarize hs b g = Some s"
  shows "ms_shards s = length hs"
    and "ms_planned_requests s = length (plan_model hs b g)"
    and "ms_tensors s = length (concat (map sh_tensors hs))"
    and "ms_tensor_bytes s = sum_list (map nbytes (concat (map sh_tensors hs)))"
    and "ms_unaligned_sizes s = length (filter (\<lambda>t. nbytes t mod b \<noteq> 0) (concat (map sh_tensors hs)))"
proof -
  have "sum_list (map tensor_bytes hs) = sum_list (map nbytes (concat (map sh_tensors hs)))"
    by (induction hs) (simp_all add: tensor_bytes_def)
  with assms show "ms_tensor_bytes s = sum_list (map nbytes (concat (map sh_tensors hs)))"
    by (auto simp: summarize_def summarize_plan_def fold_count_shard Let_def split: if_splits)
qed (use assms in \<open>auto simp: summarize_def summarize_plan_def fold_count_shard Let_def split: if_splits\<close>)

section \<open>Witnesses\<close>

theorem resident_ratio_bounds_witness:
  "resident_ratio (\<lambda>off len. True) (\<lambda>off len. Some (replicate (len div 4096) 1)) 4096 (Some 8192) True
     = Some (Some (2, 2)) \<and> (2::nat) \<le> 2"
proof -
  have ok: "mincore_ok 4096 (\<lambda>off len. Some (replicate (len div 4096) (1::u8)))"
    by (simp add: mincore_ok_def)
  have st: "probe_step 4096 8192 = 8192"
    by (simp add: probe_step_def probe_window_def PROBE_WINDOW_BYTES_def MAX_PROBE_WINDOWS_def Let_def)
  have len: "probe_len 4096 8192 0 = 8192"
    by (simp add: probe_len_def probe_window_def PROBE_WINDOW_BYTES_def Let_def)
  have "probe_loop (\<lambda>off len. True) (\<lambda>off len. Some (replicate (len div 4096) 1)) 4096 8192 0 (0, 0) = (2, 2)"
    by (subst probe_loop.simps, subst probe_loop.simps)
      (simp add: st len probe_count_def MAX_PROBE_PAGES_def Let_def)
  then have r: "resident_ratio (\<lambda>off len. True) (\<lambda>off len. Some (replicate (len div 4096) 1)) 4096 (Some 8192) True
     = Some (Some (2, 2))" by (simp add: resident_ratio_def)
  from resident_ratio_bounds [OF r ok] r show ?thesis by simp
qed

theorem probe_first_window_only_witness:
  "\<not> (4096::nat) dvd 67108928 div 64 \<and>
   snd (probe_loop (\<lambda>off len. 4096 dvd off) (\<lambda>off len. Some (replicate (len div 4096) 1)) 4096 67108928 0 (0, 0))
     \<le> 256"
proof -
  have "\<not> (4096::nat) dvd 67108928 div 64" by simp
  with probe_first_window_only [of "\<lambda>off len. 4096 dvd off" 4096 67108928
    "\<lambda>off len. Some (replicate (len div 4096) 1)"]
  show ?thesis by (simp add: PROBE_WINDOW_BYTES_def)
qed

end
