(* ===== verification/St_Selftest.thy ===== *)
theory St_Selftest
  imports St_Reader
begin

text \<open>
  The synthetic self test of the streaming loader (\<open>stloader/src/selftest.rs\<close>): small files, malformed ones and
  adversarial ones, written to a scratch directory and read back, and what the planner and the reader make of them. A
  check is its name and whether it passed; the details, which are only printed, are left out.
\<close>

section \<open>Files\<close>

record StCheck =
  ch_name :: rstr
  ch_pass :: bool

record 'f self_env =
  se_fs :: "rstr \<Rightarrow> u8 list option"
  se_create_dir :: bool
  se_writable :: "rstr \<Rightarrow> bool"
  se_from_slice :: "u8 list \<Rightarrow> 'f json option"
  se_read_files :: "rstr list \<Rightarrow> (nat \<times> Range) list \<Rightarrow> ReadConfig \<Rightarrow> io_error + ReadStats"

definition check_assert :: "string \<Rightarrow> bool \<Rightarrow> StCheck" where
  "check_assert name cond = \<lparr>ch_name = lit name, ch_pass = cond\<rparr>"

definition text_bytes :: "rstr \<Rightarrow> u8 list" where
  "text_bytes s = map word_of_nat (utf8 s)"

definition build :: "rstr \<Rightarrow> u8 list \<Rightarrow> u8 list" where
  "build header_json payload =
     u64_to_le_bytes (word_of_nat (length (text_bytes header_json))) @ text_bytes header_json @ payload"

definition in_quotes :: "rstr \<Rightarrow> rstr" where
  "in_quotes s = [34] @ s @ [34]"

record SynT =
  t_name :: rstr
  t_dtype :: rstr
  t_shape :: rstr
  t_start :: nat
  t_end :: nat

definition syn_text :: "SynT \<Rightarrow> rstr" where
  "syn_text t =
     in_quotes (t_name t) @ lit '':{'' @ in_quotes (lit ''dtype'') @ lit '':'' @ in_quotes (t_dtype t) @ lit '','' @
     in_quotes (lit ''shape'') @ lit '':'' @ t_shape t @ lit '','' @ in_quotes (lit ''data_offsets'') @ lit '':['' @
     show_nat (t_start t) @ lit '','' @ show_nat (t_end t) @ lit '']}''"

fun join_with :: "rstr \<Rightarrow> rstr list \<Rightarrow> rstr" where
  "join_with sep [] = []"
| "join_with sep [x] = x"
| "join_with sep (x # y # xs) = x @ sep @ join_with sep (y # xs)"

definition json_of :: "SynT list \<Rightarrow> rstr" where
  "json_of ts = lit ''{'' @ join_with (lit '','') (map syn_text ts) @ lit ''}''"

text \<open>A file read back right after it was written.\<close>

definition read_back :: "'f self_env \<Rightarrow> rstr \<Rightarrow> u8 list \<Rightarrow> header_error + 'f ShardHeader" where
  "read_back E path bytes = read_header ((se_fs E)(path \<mapsto> bytes)) (se_from_slice E) path"

fun invalid_data :: "header_error \<Rightarrow> bool" where
  "invalid_data CannotOpen = False"
| "invalid_data UnexpectedEof = False"
| "invalid_data NoSafetensorsFiles = False"
| "invalid_data _ = True"

definition expect_reject :: "'f self_env \<Rightarrow> string \<Rightarrow> u8 list \<Rightarrow> StCheck" where
  "expect_reject E name bytes =
     (if \<not> se_writable E (lit name) then \<lparr>ch_name = lit name, ch_pass = False\<rparr>
      else
        case read_back E (lit name) bytes of
          Inr _ \<Rightarrow> \<lparr>ch_name = lit name, ch_pass = False\<rparr>
        | Inl e \<Rightarrow> \<lparr>ch_name = lit name, ch_pass = invalid_data e\<rparr>)"

section \<open>The cases\<close>

definition tensor_f32 :: "string \<Rightarrow> string \<Rightarrow> nat \<Rightarrow> nat \<Rightarrow> SynT" where
  "tensor_f32 name shape st en = \<lparr>t_name = lit name, t_dtype = lit ''F32'', t_shape = lit shape, t_start = st, t_end = en\<rparr>"

definition entry_object :: "rstr list \<Rightarrow> rstr" where
  "entry_object entries = lit ''{'' @ in_quotes (lit ''a'') @ lit '':{'' @ join_with (lit '','') entries @ lit ''}}''"

definition field_text :: "string \<Rightarrow> rstr \<Rightarrow> rstr" where
  "field_text name v = in_quotes (lit name) @ lit '':'' @ v"

definition reject_cases :: "(string \<times> u8 list) list" where
  "reject_cases =
     [(''hdr_zero.safetensors'', u64_to_le_bytes 0 @ replicate 16 0),
      (''hdr_overrun.safetensors'', u64_to_le_bytes 4096 @ text_bytes (lit ''{}'')),
      (''hdr_absurd.safetensors'', u64_to_le_bytes (push_bit 40 1) @ text_bytes (lit ''{}'')),
      (''hdr_short.safetensors'', text_bytes (lit ''GG'')),
      (''json_bad.safetensors'', build (lit ''{not json'') []),
      (''json_array.safetensors'', build (lit ''[1,2,3]'') []),
      (''entry_not_obj.safetensors'', build (lit ''{'' @ field_text ''a'' (lit ''42'') @ lit ''}'') []),
      (''meta_not_obj.safetensors'', build (lit ''{'' @ field_text ''__metadata__'' (lit ''7'') @ lit ''}'') []),
      (''dtype_unknown.safetensors'', build (json_of [(tensor_f32 ''a'' ''[4]'' 0 16)\<lparr>t_dtype := lit ''F7''\<rparr>]) (replicate 16 0)),
      (''missing_shape.safetensors'',
        build (entry_object [field_text ''dtype'' (in_quotes (lit ''F32'')), field_text ''data_offsets'' (lit ''[0,16]'')]) (replicate 16 0)),
      (''offsets_not_pair.safetensors'',
        build (entry_object [field_text ''dtype'' (in_quotes (lit ''F32'')), field_text ''shape'' (lit ''[4]''), field_text ''data_offsets'' (lit ''[0]'')])
          (replicate 16 0)),
      (''end_before_start.safetensors'', build (json_of [tensor_f32 ''a'' ''[4]'' 100 10]) (replicate 256 0)),
      (''end_beyond_buffer.safetensors'', build (json_of [tensor_f32 ''a'' ''[256]'' 0 1024]) (replicate 8 0)),
      (''shape_dtype_mismatch.safetensors'', build (json_of [tensor_f32 ''a'' ''[10]'' 0 20]) (replicate 20 0)),
      (''shape_noninteger.safetensors'',
        build (entry_object [field_text ''dtype'' (in_quotes (lit ''F32'')), field_text ''shape'' (lit ''['' @ in_quotes (lit ''x'') @ lit '']''),
          field_text ''data_offsets'' (lit ''[0,0]'')]) []),
      (''offset_u64max.safetensors'', build (json_of [tensor_f32 ''a'' ''[4]'' 0 18446744073709551615]) (replicate 16 0)),
      (''shape_overflow.safetensors'', build (json_of [tensor_f32 ''a'' ''[18446744073709551615,2]'' 0 0]) []),
      (''off_by_one.safetensors'', build (json_of [tensor_f32 ''a'' ''[4]'' 0 17]) (replicate 16 0))]"

definition accepted :: "header_error + 'f ShardHeader \<Rightarrow> ('f ShardHeader \<Rightarrow> bool) \<Rightarrow> bool" where
  "accepted r p = (case r of Inl _ \<Rightarrow> False | Inr h \<Rightarrow> p h)"

definition total_len :: "Range list \<Rightarrow> u64" where
  "total_len plan = sum_list (map r_len plan)"

definition good_file :: "u8 list" where
  "good_file = build (json_of [tensor_f32 ''a'' ''[1024]'' 0 4096, tensor_f32 ''b'' ''[1024]'' 4096 8192]) (replicate 8192 0xAB)"

definition gap :: nat where
  "gap = 2 ^ 20"

definition gapped_file :: "u8 list" where
  "gapped_file =
     build (json_of [tensor_f32 ''a'' ''[1024]'' 0 4096, tensor_f32 ''b'' ''[1024]'' (4096 + gap) (8192 + gap)]) (replicate (8192 + gap) 0)"

definition check_valid_two :: "header_error + 'f ShardHeader \<Rightarrow> StCheck" where
  "check_valid_two r = check_assert ''valid: two contiguous tensors'' (accepted r (\<lambda>h.
     let plan = plan_shard h 4096 0 in
     length (sh_tensors h) = 2 \<and> tensor_bytes h = 8192 \<and> buffer_bytes h = 8192 \<and> length plan = 1 \<and> 8192 \<le> total_len plan))"

definition check_empty_tensor :: "header_error + 'f ShardHeader \<Rightarrow> StCheck" where
  "check_empty_tensor r = check_assert ''valid: zero-element tensor'' (accepted r (\<lambda>h.
     length (sh_tensors h) = 1 \<and> tensor_bytes h = 0 \<and> plan_shard h 4096 0 = []))"

definition check_scalar :: "header_error + 'f ShardHeader \<Rightarrow> StCheck" where
  "check_scalar r = check_assert ''valid: scalar tensor shape []'' (accepted r (\<lambda>h.
     length (sh_tensors h) = 1 \<and> tensor_bytes h = 4))"

definition check_gapped :: "header_error + 'f ShardHeader \<Rightarrow> StCheck" where
  "check_gapped r = check_assert ''gap: merge respects max_gap'' (accepted r (\<lambda>h.
     length (plan_shard h 4096 0) = 2 \<and> length (plan_shard h 4096 (word_of_nat (gap * 2))) = 1))"

definition check_rounding :: StCheck where
  "check_rounding = check_assert ''arithmetic: ceil_to saturates, floor_to safe, no panic''
     (floor_to u64_MAX 4096 \<le> ceil_to u64_MAX 4096 \<and> ceil_to 0 4096 = 0 \<and> ceil_to 1 0 = 1)"

definition check_numel :: StCheck where
  "check_numel = check_assert ''arithmetic: shape_numel overflow -> None''
     (shape_numel [u64_MAX, 2] = None \<and> shape_numel [2, 3, 4] = Some 24 \<and> shape_numel [] = Some 1)"

fun invalid_input :: "io_error + ReadStats \<Rightarrow> bool" where
  "invalid_input (Inl (PlanReferencesShard _ _)) = True"
| "invalid_input (Inl (ZeroLengthRange _)) = True"
| "invalid_input _ = False"

definition check_api :: "'f self_env \<Rightarrow> rstr \<Rightarrow> StCheck list" where
  "check_api E gp =
     [check_assert ''api: out-of-range shard index rejected''
        (invalid_input (se_read_files E [gp] [(7, \<lparr>r_offset = 0, r_len = 4096\<rparr>)] ReadConfig_default)),
      check_assert ''api: zero-length range rejected''
        (invalid_input (se_read_files E [gp] [(0, \<lparr>r_offset = 0, r_len = 0\<rparr>)] ReadConfig_default)),
      check_assert ''api: empty plan is a no-op''
        (case se_read_files E [gp] [] ReadConfig_default of Inl _ \<Rightarrow> False | Inr s \<Rightarrow> st_bytes s = 0 \<and> st_requests s = 0)]"

definition check_plan_shape :: "'f ShardHeader \<Rightarrow> StCheck" where
  "check_plan_shape h = check_assert ''plan: no zero-length, in-range, non-overlapping''
     (let plan = plan_model [h] 4096 0 in
      list_all (\<lambda>(_, r). 0 < r_len r) plan \<and> list_all (\<lambda>(i, _). i < 1) plan \<and>
      list_all (\<lambda>((_, r), (_, r')). Range_end r \<le> r_offset r') (zip plan (tl plan)))"

text \<open>\<open>None\<close> is an I/O error that ends the run: the directory or a valid file cannot be written, or the first file cannot be
  read back at the end.\<close>

definition selftest_run :: "'f self_env \<Rightarrow> StCheck list option" where
  "selftest_run E =
     (let gp = lit ''valid_two.safetensors''; good = read_back E gp good_file in
      if \<not> (se_create_dir E \<and> se_writable E gp \<and> se_writable E (lit ''empty_tensor.safetensors'') \<and>
            se_writable E (lit ''scalar.safetensors'') \<and> se_writable E (lit ''gapped.safetensors''))
      then None
      else
        case good of
          Inl _ \<Rightarrow> None
        | Inr h \<Rightarrow> Some (
            [check_valid_two good] @ map (\<lambda>(name, bytes). expect_reject E name bytes) reject_cases @
            [check_empty_tensor (read_back E (lit ''empty_tensor.safetensors'') (build (json_of [tensor_f32 ''z'' ''[0]'' 0 0]) [])),
             check_scalar (read_back E (lit ''scalar.safetensors'') (build (json_of [tensor_f32 ''s'' ''[]'' 0 4]) (replicate 4 0))),
             check_gapped (read_back E (lit ''gapped.safetensors'') gapped_file), check_rounding, check_numel] @
            check_api E gp @ [check_plan_shape h]))"

section \<open>What serde\_json reads\<close>

definition json_nat :: "nat \<Rightarrow> 'f json" where
  "json_nat n = JNum (PosInt (word_of_nat n))"

text \<open>The parsed documents of the test, an object sorted by its keys as in serde\_json's map.\<close>

definition doc_entry :: "string \<Rightarrow> string \<Rightarrow> 'f json list \<Rightarrow> nat list \<Rightarrow> rstr \<times> 'f json" where
  "doc_entry name dtype shape offsets =
     (lit name, JObj [(lit ''data_offsets'', JArr (map json_nat offsets)), (lit ''dtype'', JStr (lit dtype)), (lit ''shape'', JArr shape)])"

definition documents :: "(rstr \<times> 'f json option) list" where
  "documents =
     [(lit ''{not json'', None),
      (lit ''[1,2,3]'', Some (JArr (map json_nat [1, 2, 3]))),
      (lit ''{'' @ field_text ''a'' (lit ''42'') @ lit ''}'', Some (JObj [(lit ''a'', json_nat 42)])),
      (lit ''{'' @ field_text ''__metadata__'' (lit ''7'') @ lit ''}'', Some (JObj [(lit ''__metadata__'', json_nat 7)])),
      (json_of [(tensor_f32 ''a'' ''[4]'' 0 16)\<lparr>t_dtype := lit ''F7''\<rparr>], Some (JObj [doc_entry ''a'' ''F7'' [json_nat 4] [0, 16]])),
      (entry_object [field_text ''dtype'' (in_quotes (lit ''F32'')), field_text ''data_offsets'' (lit ''[0,16]'')],
        Some (JObj [(lit ''a'', JObj [(lit ''data_offsets'', JArr (map json_nat [0, 16])), (lit ''dtype'', JStr (lit ''F32''))])])),
      (entry_object [field_text ''dtype'' (in_quotes (lit ''F32'')), field_text ''shape'' (lit ''[4]''), field_text ''data_offsets'' (lit ''[0]'')],
        Some (JObj [doc_entry ''a'' ''F32'' [json_nat 4] [0]])),
      (json_of [tensor_f32 ''a'' ''[4]'' 100 10], Some (JObj [doc_entry ''a'' ''F32'' [json_nat 4] [100, 10]])),
      (json_of [tensor_f32 ''a'' ''[256]'' 0 1024], Some (JObj [doc_entry ''a'' ''F32'' [json_nat 256] [0, 1024]])),
      (json_of [tensor_f32 ''a'' ''[10]'' 0 20], Some (JObj [doc_entry ''a'' ''F32'' [json_nat 10] [0, 20]])),
      (entry_object [field_text ''dtype'' (in_quotes (lit ''F32'')), field_text ''shape'' (lit ''['' @ in_quotes (lit ''x'') @ lit '']''),
         field_text ''data_offsets'' (lit ''[0,0]'')], Some (JObj [doc_entry ''a'' ''F32'' [JStr (lit ''x'')] [0, 0]])),
      (json_of [tensor_f32 ''a'' ''[4]'' 0 18446744073709551615], Some (JObj [doc_entry ''a'' ''F32'' [json_nat 4] [0, 18446744073709551615]])),
      (json_of [tensor_f32 ''a'' ''[18446744073709551615,2]'' 0 0],
        Some (JObj [doc_entry ''a'' ''F32'' [json_nat 18446744073709551615, json_nat 2] [0, 0]])),
      (json_of [tensor_f32 ''a'' ''[4]'' 0 17], Some (JObj [doc_entry ''a'' ''F32'' [json_nat 4] [0, 17]])),
      (json_of [tensor_f32 ''a'' ''[1024]'' 0 4096, tensor_f32 ''b'' ''[1024]'' 4096 8192],
        Some (JObj [doc_entry ''a'' ''F32'' [json_nat 1024] [0, 4096], doc_entry ''b'' ''F32'' [json_nat 1024] [4096, 8192]])),
      (json_of [tensor_f32 ''z'' ''[0]'' 0 0], Some (JObj [doc_entry ''z'' ''F32'' [json_nat 0] [0, 0]])),
      (json_of [tensor_f32 ''s'' ''[]'' 0 4], Some (JObj [doc_entry ''s'' ''F32'' [] [0, 4]])),
      (json_of [tensor_f32 ''a'' ''[1024]'' 0 4096, tensor_f32 ''b'' ''[1024]'' (4096 + gap) (8192 + gap)],
        Some (JObj [doc_entry ''a'' ''F32'' [json_nat 1024] [0, 4096], doc_entry ''b'' ''F32'' [json_nat 1024] [4096 + gap, 8192 + gap]]))]"

definition reads_documents :: "(u8 list \<Rightarrow> 'f json option) \<Rightarrow> bool" where
  "reads_documents from_slice \<longleftrightarrow> list_all (\<lambda>(text, v). from_slice (text_bytes text) = v) documents"

lemmas document_text_defs = json_of_def syn_text_def in_quotes_def tensor_f32_def entry_object_def field_text_def gap_def

lemma text_bytes_length: "length (text_bytes s) = str_len s"
  by (induction s) (simp_all add: text_bytes_def utf8_def utf8_char_def char_len_utf8_def)

lemma document_sizes: "list_all (\<lambda>(text, _). 0 < length (text_bytes text) \<and> length (text_bytes text) \<le> 200) documents"
  by (simp add: documents_def document_text_defs text_bytes_length show_nat.simps)
    (simp add: char_len_utf8_def)

section \<open>Reading a framed document\<close>

definition framed :: "'f self_env \<Rightarrow> rstr \<Rightarrow> nat \<Rightarrow> nat \<Rightarrow> 'f json option \<Rightarrow> header_error + 'f ShardHeader" where
  "framed E path n m v =
     try_bind (ok_or v BadJsonHeader) (\<lambda>parsed.
     try_bind (ok_or (as_object parsed) HeaderNotObject) (\<lambda>obj.
     try_bind (entry_loop (word_of_nat m) None [] obj) (\<lambda>(metadata, tensors).
     Inr \<lparr>sh_path = path, sh_file_size = word_of_nat (8 + n + m), sh_header_len = word_of_nat n,
          sh_data_start = word_of_nat (8 + n), sh_metadata = metadata, sh_tensors = sort_tensors tensors\<rparr>)))"

lemma read_back_document:
  assumes "reads_documents (se_from_slice E)" and "(text, v) \<in> set documents" and "length payload \<le> 2 ^ 30"
  shows "read_back E path (build text payload) = framed E path (length (text_bytes text)) (length payload) v"
proof -
  have "se_from_slice E (text_bytes text) = v" using assms(1,2) by (auto simp: reads_documents_def list_all_iff)
  moreover have "0 < length (text_bytes text) \<and> length (text_bytes text) \<le> 200"
    using document_sizes assms(2) unfolding list_all_iff by fast
  ultimately show ?thesis
    using assms(3) read_header_framed [of "text_bytes text" payload "se_from_slice E" path]
    by (simp add: read_back_def read_header_def build_def framed_def)
qed

lemmas entry_defs = framed_def parse_entry_def doc_entry_def json_nat_def Dtype_parse_def shape_numel_def guard_err_def checked_mul_def

lemma rejected_documents:
  "list_all (\<lambda>(k, m). case framed E path n m (snd (documents ! k)) of Inl e \<Rightarrow> invalid_data e | Inr _ \<Rightarrow> False)
     [(0, 0), (1, 0), (2, 0), (3, 0), (4, 16), (5, 16), (6, 16), (7, 256), (8, 8), (9, 20), (10, 0), (11, 16), (12, 0), (13, 16)]"
  by (simp add: documents_def entry_defs)

definition reject_documents :: "(string \<times> nat \<times> nat) list" where
  "reject_documents =
     [(''json_bad.safetensors'', 0, 0), (''json_array.safetensors'', 1, 0), (''entry_not_obj.safetensors'', 2, 0),
      (''meta_not_obj.safetensors'', 3, 0), (''dtype_unknown.safetensors'', 4, 16), (''missing_shape.safetensors'', 5, 16),
      (''offsets_not_pair.safetensors'', 6, 16), (''end_before_start.safetensors'', 7, 256), (''end_beyond_buffer.safetensors'', 8, 8),
      (''shape_dtype_mismatch.safetensors'', 9, 20), (''shape_noninteger.safetensors'', 10, 0), (''offset_u64max.safetensors'', 11, 16),
      (''shape_overflow.safetensors'', 12, 0), (''off_by_one.safetensors'', 13, 16)]"

lemma reject_cases_split:
  "reject_cases = take 4 reject_cases @
     map (\<lambda>(name, k, m). (name, build (fst (documents ! k :: rstr \<times> 'f json option)) (replicate m 0))) reject_documents"
  by (simp add: reject_cases_def documents_def reject_documents_def)

lemma read_u64_le_prefix: "read_u64_le (u64_to_le_bytes w @ rest) = Some w"
  by (simp add: read_u64_le_def read_exact_at_def u64_le_roundtrip)

lemma rejected_frames:
  "list_all (\<lambda>(name, bytes). case read_header_bytes from_slice path bytes of Inl e \<Rightarrow> invalid_data e | Inr _ \<Rightarrow> False) (take 4 reject_cases)"
  by (simp add: reject_cases_def read_header_bytes_def read_u64_le_prefix guard_err_def MAX_HEADER_BYTES_def checked_add_def
      text_bytes_length char_len_utf8_def)

lemma expect_reject_iff:
  "se_writable E (lit name) \<Longrightarrow>
     ch_pass (expect_reject E name bytes) \<longleftrightarrow> (case read_back E (lit name) bytes of Inl e \<Rightarrow> invalid_data e | Inr _ \<Rightarrow> False)"
  by (simp add: expect_reject_def split: sum.split)

lemma rejects_pass:
  assumes "reads_documents (se_from_slice E)" and "\<And>p. se_writable E p"
  shows "list_all (\<lambda>(name, bytes). ch_pass (expect_reject E name bytes)) reject_cases"
proof -
  have "ch_pass (expect_reject E name bytes)" if "(name, bytes) \<in> set (take 4 reject_cases)" for name bytes
  proof -
    have "case read_header_bytes (se_from_slice E) (lit name) bytes of Inl e \<Rightarrow> invalid_data e | Inr _ \<Rightarrow> False"
      using rejected_frames [of "se_from_slice E" "lit name"] that unfolding list_all_iff by fast
    then show ?thesis using assms(2) by (simp add: expect_reject_iff read_back_def read_header_def)
  qed
  moreover have "ch_pass (expect_reject E name (build (fst (documents ! k :: rstr \<times> 'a json option)) (replicate m 0)))"
    if "(name, k, m) \<in> set reject_documents" for name k m
  proof -
    have "(k, m) \<in> set [(0, 0), (1, 0), (2, 0), (3, 0), (4, 16), (5, 16), (6, 16), (7, 256), (8, 8), (9, 20), (10, 0), (11, 16), (12, 0), (13, 16)]"
      using that by (auto simp: reject_documents_def)
    then have "case framed E path n m (snd (documents ! k)) of Inl e \<Rightarrow> invalid_data e | Inr _ \<Rightarrow> False" for path n
      using rejected_documents [of E path n] unfolding list_all_iff by fast
    moreover have "k < length (documents :: (rstr \<times> 'a json option) list)" "m \<le> 2 ^ 30"
      using that by (auto simp: reject_documents_def documents_def)
    then have "read_back E path (build (fst (documents ! k :: rstr \<times> 'a json option)) (replicate m 0)) =
        framed E path (length (text_bytes (fst (documents ! k :: rstr \<times> 'a json option)))) m (snd (documents ! k))" for path
      using read_back_document [OF assms(1), of "fst (documents ! k :: rstr \<times> 'a json option)" "snd (documents ! k)" "replicate m 0"]
      by (metis length_replicate nth_mem prod.collapse)
    ultimately show ?thesis using assms(2) by (simp add: expect_reject_iff)
  qed
  ultimately show ?thesis
    by (subst reject_cases_split [where ?'f = 'a]) (auto simp: list_all_iff)
qed

section \<open>The valid files\<close>

definition plain_tensor :: "string \<Rightarrow> u64 list \<Rightarrow> nat \<Rightarrow> nat \<Rightarrow> TensorInfo" where
  "plain_tensor name shape st en =
     \<lparr>ti_name = lit name, ti_dtype = F32, ti_shape = shape, ti_start = word_of_nat st, ti_end = word_of_nat en\<rparr>"

definition good_header :: "rstr \<Rightarrow> nat \<Rightarrow> nat \<Rightarrow> TensorInfo list \<Rightarrow> 'f ShardHeader" where
  "good_header path n m ts =
     \<lparr>sh_path = path, sh_file_size = word_of_nat (8 + n + m), sh_header_len = word_of_nat n,
      sh_data_start = word_of_nat (8 + n), sh_metadata = None, sh_tensors = ts\<rparr>"

lemma accepted_documents:
  "framed E path n 8192 (snd (documents ! 14)) =
     Inr (good_header path n 8192 [plain_tensor ''a'' [1024] 0 4096, plain_tensor ''b'' [1024] 4096 8192])"
  "framed E path n 0 (snd (documents ! 15)) = Inr (good_header path n 0 [plain_tensor ''z'' [0] 0 0])"
  "framed E path n 4 (snd (documents ! 16)) = Inr (good_header path n 4 [plain_tensor ''s'' [] 0 4])"
  "framed E path n (8192 + gap) (snd (documents ! 17)) =
     Inr (good_header path n (8192 + gap) [plain_tensor ''a'' [1024] 0 4096, plain_tensor ''b'' [1024] (4096 + gap) (8192 + gap)])"
  by (simp_all add: documents_def entry_defs good_header_def plain_tensor_def sort_tensors_def gap_def)

lemma accepted_sizes:
  "length (text_bytes (fst (documents ! 14 :: rstr \<times> 'f json option))) = 122"
  "length (text_bytes (fst (documents ! 17 :: rstr \<times> 'f json option))) = 128"
  by (simp add: documents_def document_text_defs text_bytes_length show_nat.simps, simp add: char_len_utf8_def)+

lemmas plan_eval = plan_shard_def plan_step_def abs_range_def nbytes_def floor_to_def ceil_to_def Range_end_def Let_def
  good_header_def plain_tensor_def tensor_bytes_def buffer_bytes_def total_len_def gap_def
  saturating_mul_def saturating_add_def saturating_sub_def div_ceil_def

lemma valid_two_plan:
  "plan_shard (good_header path 122 8192 [plain_tensor ''a'' [1024] 0 4096, plain_tensor ''b'' [1024] 4096 8192] :: 'f ShardHeader) 4096 0 =
     [\<lparr>r_offset = 0, r_len = 12288\<rparr>]"
  by (simp add: plan_eval)

lemma valid_two_passes:
  "ch_pass (check_valid_two (Inr (good_header path 122 8192 [plain_tensor ''a'' [1024] 0 4096, plain_tensor ''b'' [1024] 4096 8192] :: 'f ShardHeader)))"
  "ch_pass (check_plan_shape (good_header path 122 8192 [plain_tensor ''a'' [1024] 0 4096, plain_tensor ''b'' [1024] 4096 8192] :: 'f ShardHeader))"
  by (simp_all add: check_valid_two_def check_plan_shape_def check_assert_def accepted_def valid_two_plan Let_def plan_model_def plan_each_def)
    (simp_all add: plan_eval)

lemma corner_checks_pass:
  "ch_pass (check_empty_tensor (Inr (good_header path n 0 [plain_tensor ''z'' [0] 0 0])))"
  "ch_pass (check_scalar (Inr (good_header path n 4 [plain_tensor ''s'' [] 0 4])))"
  by (simp_all add: check_empty_tensor_def check_scalar_def check_assert_def accepted_def plan_eval)

lemma gapped_passes:
  "ch_pass (check_gapped (Inr (good_header path 128 (8192 + gap)
     [plain_tensor ''a'' [1024] 0 4096, plain_tensor ''b'' [1024] (4096 + gap) (8192 + gap)])))"
  by (simp add: check_gapped_def check_assert_def accepted_def plan_eval)

lemma arithmetic_passes: "ch_pass check_rounding" "ch_pass check_numel"
proof -
  have "floor_to u64_MAX 4096 \<le> ceil_to u64_MAX 4096"
    by (simp add: word_le_nat_alt unat_floor_to unat_ceil_to blk_def floor_mult_def ceil_mult_def)
  then show "ch_pass check_rounding" by (simp add: check_rounding_def check_assert_def plan_eval)
  show "ch_pass check_numel" by (simp add: check_numel_def check_assert_def shape_numel_def checked_mul_def)
qed

definition honest_reader :: "'f self_env \<Rightarrow> bool" where
  "honest_reader E \<longleftrightarrow>
     (\<exists>open_file ring_new. \<forall>files plan cfg. read_files open_file ring_new files plan cfg (se_read_files E files plan cfg))"

lemma read_files_bad: "read_files op rn files plan cfg r \<Longrightarrow> check_plan_entries (length files) plan = Inl e \<Longrightarrow> r = Inl e"
  by (erule read_files.cases) auto

lemma read_files_empty: "read_files op rn files [] cfg r \<Longrightarrow> r = Inr ReadStats_default"
  by (erule read_files.cases) auto

lemma api_passes:
  assumes "honest_reader E"
  shows "list_all ch_pass (check_api E gp)"
proof -
  obtain op rn where rf: "read_files op rn files plan cfg (se_read_files E files plan cfg)" for files plan cfg
    using assms unfolding honest_reader_def by blast
  have "se_read_files E [gp] [(7, \<lparr>r_offset = 0, r_len = 4096\<rparr>)] ReadConfig_default = Inl (PlanReferencesShard 7 1)"
    by (rule read_files_bad [OF rf]) simp
  moreover have "se_read_files E [gp] [(0, \<lparr>r_offset = 0, r_len = 0\<rparr>)] ReadConfig_default = Inl (ZeroLengthRange 0)"
    by (rule read_files_bad [OF rf]) simp
  moreover have "se_read_files E [gp] [] ReadConfig_default = Inr ReadStats_default"
    by (rule read_files_empty [OF rf])
  ultimately show ?thesis by (simp add: check_api_def check_assert_def ReadStats_default_def)
qed

text \<open>C11. The self test of the loader passes: when the scratch files can be written and serde\_json reads the documents of the
  test as JSON prescribes, the run completes and every one of its twenty-eight checks passes, the eighteen malformed files
  being rejected with an error of the right kind.\<close>

theorem selftest_passes:
  assumes "se_create_dir E" and "\<And>p. se_writable E p" and "reads_documents (se_from_slice E)" and "honest_reader E"
  shows "\<exists>checks. selftest_run E = Some checks \<and> list_all ch_pass checks \<and> length checks = 28"
proof -
  have docs: "read_back E path (build (fst (documents ! k :: rstr \<times> 'a json option)) (replicate m c)) =
      framed E path (length (text_bytes (fst (documents ! k :: rstr \<times> 'a json option)))) m (snd (documents ! k))"
    if "k < 18" "m \<le> 2 ^ 30" for k m c path
  proof -
    have "k < length (documents :: (rstr \<times> 'a json option) list)" using that(1) by (simp add: documents_def)
    then have "(fst (documents ! k :: rstr \<times> 'a json option), snd (documents ! k :: rstr \<times> 'a json option)) \<in> set documents"
      by (metis nth_mem prod.collapse)
    from read_back_document [OF assms(3) this, of "replicate m c"] that(2) show ?thesis by (simp only: length_replicate)
  qed
  have texts: "good_file = build (fst (documents ! 14 :: rstr \<times> 'a json option)) (replicate 8192 0xAB)"
    "build (json_of [tensor_f32 ''z'' ''[0]'' 0 0]) [] = build (fst (documents ! 15 :: rstr \<times> 'a json option)) (replicate 0 0)"
    "build (json_of [tensor_f32 ''s'' ''[]'' 0 4]) (replicate 4 0) = build (fst (documents ! 16 :: rstr \<times> 'a json option)) (replicate 4 0)"
    "gapped_file = build (fst (documents ! 17 :: rstr \<times> 'a json option)) (replicate (8192 + gap) 0)"
    by (simp_all add: documents_def good_file_def gapped_file_def)
  have bound: "8192 + gap \<le> 2 ^ 30" by (simp add: gap_def)
  define h :: "'a ShardHeader" where "h = good_header (lit ''valid_two.safetensors'') 122 8192
      [plain_tensor ''a'' [1024] 0 4096, plain_tensor ''b'' [1024] 4096 8192]"
  have good: "read_back E (lit ''valid_two.safetensors'') good_file = Inr h"
    unfolding texts(1) h_def by (subst docs) (simp_all add: accepted_sizes accepted_documents del: lit_simps)
  have empty: "ch_pass (check_empty_tensor (read_back E p (build (json_of [tensor_f32 ''z'' ''[0]'' 0 0]) [])))" for p
    unfolding texts(2) by (subst docs) (simp_all add: accepted_documents corner_checks_pass)
  have scalar: "ch_pass (check_scalar (read_back E p (build (json_of [tensor_f32 ''s'' ''[]'' 0 4]) (replicate 4 0))))" for p
    unfolding texts(3) by (subst docs) (simp_all add: accepted_documents corner_checks_pass)
  have gapped: "ch_pass (check_gapped (read_back E p gapped_file))" for p
    unfolding texts(4) by (subst docs [OF _ bound]) (simp, simp only: accepted_sizes accepted_documents gapped_passes)
  show ?thesis
    using assms(1,2) rejects_pass [OF assms(3,2)] api_passes [OF assms(4), of "lit ''valid_two.safetensors''"] arithmetic_passes
      valid_two_passes [where path = "lit ''valid_two.safetensors''" and ?'f = 'a, folded h_def]
    by (simp add: selftest_run_def Let_def good empty scalar gapped list_all_iff check_api_def reject_cases_def case_prod_unfold del: lit_simps)
qed

section \<open>Witness\<close>

definition ex_reader :: "rstr list \<Rightarrow> (nat \<times> Range) list \<Rightarrow> ReadConfig \<Rightarrow> io_error + ReadStats" where
  "ex_reader files plan cfg =
     (case check_plan_entries (length files) plan of
        Inl e \<Rightarrow> Inl e
      | Inr _ \<Rightarrow> if plan = [] then Inr ReadStats_default else Inl (OsError 38))"

definition ex_parser :: "u8 list \<Rightarrow> nat json option" where
  "ex_parser bs = (case map_of (map (\<lambda>(text, v). (text_bytes text, v)) documents) bs of Some v \<Rightarrow> v | None \<Rightarrow> None)"

definition ex_self :: "nat self_env" where
  "ex_self = \<lparr>se_fs = (\<lambda>_. None), se_create_dir = True, se_writable = (\<lambda>_. True), se_from_slice = ex_parser, se_read_files = ex_reader\<rparr>"

lemma ex_reader_runs: "read_files (\<lambda>_ _. Inr 0) (\<lambda>_. Inl (OsError 38)) files plan cfg (ex_reader files plan cfg)"
proof (cases "check_plan_entries (length files) plan")
  case (Inr u)
  have "collect_result (\<lambda>p. Inr 0) files = Inr (replicate (length files) 0)" by (induction files) simp_all
  then show ?thesis using Inr by (auto simp: ex_reader_def intro: read_files.empty_plan read_files.ring_failed)
qed (simp add: ex_reader_def read_files.bad_plan)

lemma text_bytes_ascii: "\<forall>c \<in> set s. c < 128 \<Longrightarrow> map unat (text_bytes s) = s"
  by (induction s) (simp_all add: text_bytes_def utf8_def utf8_char_def unat_of_nat take_bit_nat_eq_self)

lemma documents_ascii: "list_all (\<lambda>(text, _). list_all (\<lambda>c. c < 128) text) documents"
  by (simp add: documents_def document_text_defs show_nat.simps)

lemma documents_distinct: "distinct (map fst (documents :: (rstr \<times> nat json option) list))"
proof -
  have "distinct (map sum_list (map fst (documents :: (rstr \<times> nat json option) list)))"
    by (simp add: documents_def document_text_defs show_nat.simps)
  then show ?thesis by (simp only: distinct_map)
qed

lemma ex_parser_reads: "reads_documents ex_parser"
proof -
  let ?docs = "documents :: (rstr \<times> nat json option) list"
  have ascii: "map unat (text_bytes t) = t" if "t \<in> fst ` set ?docs" for t
    using that documents_ascii [where ?'a = nat] by (intro text_bytes_ascii) (fastforce simp: list_all_iff)
  then have "inj_on text_bytes (fst ` set ?docs)" by (rule inj_on_inverseI)
  then have "distinct (map text_bytes (map fst ?docs))" using documents_distinct by (simp add: distinct_map comp_inj_on)
  then have "map_of (map (\<lambda>(text, v). (text_bytes text, v)) ?docs) (text_bytes t) = Some v" if "(t, v) \<in> set ?docs" for t v
    using that by (intro map_of_is_SomeI) (force simp: comp_def case_prod_unfold)+
  then show ?thesis by (auto simp: reads_documents_def list_all_iff ex_parser_def)
qed

theorem selftest_passes_witness: "\<exists>checks. selftest_run ex_self = Some checks \<and> list_all ch_pass checks"
proof -
  have "honest_reader ex_self" unfolding honest_reader_def using ex_reader_runs by (auto simp: ex_self_def)
  then show ?thesis using selftest_passes [of ex_self] ex_parser_reads by (auto simp: ex_self_def)
qed

end
