(* ===== verification/St_Bench.thy ===== *)
theory St_Bench
  imports Gdn_Check St_Fuzz_Run St_Cache St_Selftest
begin

text \<open>
  The program \<open>stbench\<close> (\<open>stbench/src/main.rs\<close>) on top of the streaming loader: its subcommands \<open>list\<close>, \<open>read\<close>,
  \<open>verify\<close>, \<open>selftest\<close> and \<open>fuzz\<close> up to their exit codes. Timings, residency figures and listings are only printed and left out;
  the outcome of the i-th execution of the ring is an argument.
\<close>

section \<open>Arguments\<close>

record 'f bench_env =
  sb_fs :: "rstr \<Rightarrow> u8 list option"
  sb_entries :: "rstr \<Rightarrow> rstr list"
  sb_from_slice :: "u8 list \<Rightarrow> 'f json option"
  sb_open :: "rstr \<Rightarrow> bool \<Rightarrow> io_error + (nat \<Rightarrow> nat \<Rightarrow> int + u8 list)"
  sb_run :: "nat \<Rightarrow> rstr list \<Rightarrow> (nat \<times> Range) list \<Rightarrow> ReadConfig \<Rightarrow> io_error + ReadStats"
  sb_fuzz :: "'f fuzz_env"
  sb_self :: "rstr \<Rightarrow> 'f self_env"
  sb_temp_dir :: rstr

definition VALUE_FLAGS :: "rstr list" where
  "VALUE_FLAGS = map lit [''--iters'', ''--seed'', ''--tensors'', ''--large'', ''--depth'', ''--chunk-mb'', ''--repeat'',
     ''--block'', ''--gap'']"

fun bench_operands :: "rstr list \<Rightarrow> rstr list" where
  "bench_operands [] = []"
| "bench_operands (a # args) =
     (if starts_with a (lit ''--'') then
        if a \<in> set VALUE_FLAGS then bench_operands (drop 1 args) else bench_operands args
      else a # bench_operands args)"

definition model_dir :: "rstr list \<Rightarrow> rstr option" where
  "model_dir args = (case bench_operands (drop 2 args) of [] \<Rightarrow> None | d # _ \<Rightarrow> Some d)"

definition num_arg :: "rstr list \<Rightarrow> rstr \<Rightarrow> nat \<Rightarrow> nat" where
  "num_arg args name d = (case Option.bind (arg_val args name) parse_usize of Some n \<Rightarrow> n | None \<Rightarrow> d)"

definition headers_in :: "'f bench_env \<Rightarrow> rstr \<Rightarrow> ExitCode + 'f ShardHeader list" where
  "headers_in E dir = map_err (\<lambda>_. FAILURE) (read_model (sb_fs E) (sb_from_slice E) (sb_entries E dir))"

section \<open>Listing and reading\<close>

definition cmd_list :: "'f bench_env \<Rightarrow> rstr list \<Rightarrow> ExitCode + ExitCode" where
  "cmd_list E args =
     try_bind (ok_or (model_dir args) USAGE) (\<lambda>dir.
     try_bind (headers_in E dir) (\<lambda>headers.
     try_bind (ok_or (summarize headers (word_of_nat (num_arg args (lit ''--block'') 4096))
         (word_of_nat (num_arg args (lit ''--gap'') 0))) ABORT) (\<lambda>_.
     Inr SUCCESS)))"

definition read_plan :: "rstr list \<Rightarrow> 'f ShardHeader list \<Rightarrow> (nat \<times> Range) list" where
  "read_plan args headers =
     (let block = word_of_nat (num_arg args (lit ''--block'') 4096) in
      if has_flag args (lit ''--per-tensor'') then plan_model_unmerged headers block
      else plan_model headers block (word_of_nat (num_arg args (lit ''--gap'') 0)))"

definition read_config :: "rstr list \<Rightarrow> ReadConfig" where
  "read_config args =
     \<lparr>depth = num_arg args (lit ''--depth'') 32,
      chunk_bytes = word_of_nat (num_arg args (lit ''--chunk-mb'') 1) * 1024 * 1024,
      direct = (\<not> (has_flag args (lit ''--buffered'') \<or> has_flag args (lit ''--no-direct'') \<or> has_flag args (lit ''--no-mmap''))),
      cfg_block = word_of_nat (num_arg args (lit ''--block'') 4096)\<rparr>"

definition cmd_read :: "'f bench_env \<Rightarrow> rstr list \<Rightarrow> ExitCode + ExitCode" where
  "cmd_read E args =
     try_bind (ok_or (model_dir args) USAGE) (\<lambda>dir.
     try_bind (map_err (\<lambda>_. FAILURE) (discover_shards (sb_entries E dir))) (\<lambda>files.
     try_bind (headers_in E dir) (\<lambda>headers.
     try_bind (ok_or (summarize_plan headers (word_of_nat (num_arg args (lit ''--block'') 4096)) (read_plan args headers)) ABORT) (\<lambda>_.
     try_bind (map_err (\<lambda>_. FAILURE) (collect_result (\<lambda>i. sb_run E i files (read_plan args headers) (read_config args))
         [0..<num_arg args (lit ''--repeat'') 1])) (\<lambda>_.
     Inr SUCCESS)))))"

section \<open>Verification of reads\<close>

type_synonym candidate = "rstr \<times> TensorInfo \<times> u64"

definition candidates :: "(TensorInfo \<Rightarrow> bool) \<Rightarrow> 'f ShardHeader list \<Rightarrow> candidate list" where
  "candidates p headers =
     concat (map (\<lambda>h. map (\<lambda>t. (sh_path h, t, sh_data_start h)) (filter p (sh_tensors h))) headers)"

text \<open>The range read with and without direct I/O: \<open>None\<close> when either fails, or whether they agree.\<close>

definition read_twice :: "'f bench_env \<Rightarrow> u64 \<Rightarrow> u64 \<Rightarrow> candidate \<Rightarrow> bool option" where
  "read_twice E block limit = (\<lambda>(path, t, data_start).
     let (off, end) = abs_range t data_start; len = min (end - off) limit in
     case (read_small_range (sb_open E path True) off len block, read_small_range (sb_open E path False) off len block) of
       (Inr a, Inr b) \<Rightarrow> Some (a = b)
     | _ \<Rightarrow> None)"

record bench_tally =
  bt_checked :: nat
  bt_failed :: nat
  bt_f32_small :: nat

definition tally_read :: "bool option \<Rightarrow> bench_tally \<Rightarrow> bench_tally" where
  "tally_read r st =
     (case r of
        Some same \<Rightarrow> st\<lparr>bt_checked := bt_checked st + 1, bt_failed := bt_failed st + of_bool (\<not> same)\<rparr>
      | None \<Rightarrow> st\<lparr>bt_failed := bt_failed st + 1\<rparr>)"

definition tally_f32 :: "'f bench_env \<Rightarrow> u64 \<Rightarrow> bench_tally \<Rightarrow> candidate \<Rightarrow> bench_tally" where
  "tally_f32 E block st c =
     (if bt_f32_small st < 8 then
        case read_twice E block (- 1) c of
          Some same \<Rightarrow> st\<lparr>bt_checked := bt_checked st + 1, bt_f32_small := bt_f32_small st + 1,
              bt_failed := bt_failed st + of_bool (\<not> same)\<rparr>
        | None \<Rightarrow> st
      else st)"

definition verify_tally :: "'f bench_env \<Rightarrow> rstr list \<Rightarrow> 'f ShardHeader list \<Rightarrow> bench_tally" where
  "verify_tally E args headers =
     (let block = word_of_nat (num_arg args (lit ''--block'') 4096);
          cands = sort_key (\<lambda>(_, t, _). nbytes t) (candidates (\<lambda>t. nbytes t \<le> 65536 \<and> 0 < nbytes t) headers);
          st = foldl (\<lambda>st c. tally_read (read_twice E block (- 1) c) st) \<lparr>bt_checked = 0, bt_failed = 0, bt_f32_small = 0\<rparr>
                 (take (num_arg args (lit ''--tensors'') 32) cands);
          st = foldl (tally_f32 E block) st (candidates (\<lambda>t. ti_dtype t = F32 \<and> nbytes t \<le> 8192) headers);
          big = sort_by (\<lambda>a b. nbytes (fst (snd b)) < nbytes (fst (snd a))) (candidates (\<lambda>t. 65536 < nbytes t) headers)
      in foldl (\<lambda>st c. tally_read (read_twice E block 0x400000 c) st) st (take (num_arg args (lit ''--large'') 4) big))"

definition cmd_verify :: "'f bench_env \<Rightarrow> rstr list \<Rightarrow> ExitCode + ExitCode" where
  "cmd_verify E args =
     try_bind (ok_or (model_dir args) USAGE) (\<lambda>dir.
     try_bind (headers_in E dir) (\<lambda>headers.
     Inr (if bt_failed (verify_tally E args headers) = 0 then SUCCESS else FAILURE)))"

section \<open>Fuzzing and the dispatch\<close>

definition cmd_fuzz :: "'f bench_env \<Rightarrow> rstr list \<Rightarrow> ExitCode + ExitCode" where
  "cmd_fuzz E args =
     (let dir = (case model_dir args of Some d \<Rightarrow> d | None \<Rightarrow> path_join (sb_temp_dir E) (lit ''stloader_fuzz'')) in
      try_bind (map_err (\<lambda>_. FAILURE) (fuzz_run (sb_fuzz E) (num_arg args (lit ''--iters'') 20000)
         (word_of_nat (num_arg args (lit ''--seed'') 0x5EED1234)) (path_join dir (lit ''case.safetensors''))
         (has_flag args (lit ''--read'') \<or> has_flag args (lit ''--with-reads'')))) (\<lambda>r.
      try_bind (ok_or r ABORT) (\<lambda>report.
      Inr (if FuzzReport_ok report then SUCCESS else FAILURE))))"

text \<open>\<open>sb_self\<close> is the environment of the self test for a scratch directory.\<close>

definition bench_selftest :: "'f bench_env \<Rightarrow> rstr list \<Rightarrow> ExitCode + ExitCode" where
  "bench_selftest E args =
     (let dir = (case model_dir args of Some d \<Rightarrow> d | None \<Rightarrow> path_join (sb_temp_dir E) (lit ''stloader_selftest'')) in
      try_bind (ok_or (selftest_run (sb_self E dir)) FAILURE) (\<lambda>checks.
      Inr (if length (filter (\<lambda>c. \<not> ch_pass c) checks) = 0 then SUCCESS else FAILURE)))"

definition stbench :: "'f bench_env \<Rightarrow> rstr list \<Rightarrow> ExitCode" where
  "stbench E args =
     (let r = (if length args < 2 then Inl USAGE
               else
                 let cmd = args ! 1 in
                 if cmd = lit ''list'' then cmd_list E args
                 else if cmd = lit ''read'' then cmd_read E args
                 else if cmd = lit ''verify'' then cmd_verify E args
                 else if cmd = lit ''selftest'' then bench_selftest E args
                 else if cmd = lit ''fuzz'' then cmd_fuzz E args
                 else Inl USAGE)
      in case r of Inl code \<Rightarrow> code | Inr code \<Rightarrow> code)"

section \<open>Reads agree\<close>

text \<open>What the program is checked against: opening a file that exists gives, with or without direct I/O, a descriptor
  whose reads return its bytes.\<close>

definition honest_files :: "'f bench_env \<Rightarrow> bool" where
  "honest_files E \<longleftrightarrow>
     (\<forall>path bytes direct. sb_fs E path = Some bytes \<longrightarrow> (\<exists>pread. sb_open E path direct = Inr pread \<and> pread_reads bytes pread))"

definition files_fit :: "'f bench_env \<Rightarrow> nat \<Rightarrow> bool" where
  "files_fit E block \<longleftrightarrow> (\<forall>path bytes. sb_fs E path = Some bytes \<longrightarrow> length bytes + block < 2 ^ 64)"

lemma read_header_file:
  assumes "read_header fs from_slice path = Inr h"
  obtains bytes where "fs path = Some bytes" "sh_path h = path" "sh_file_size h = word_of_nat (length bytes)" "wf_shard h"
proof -
  from assms obtain bytes where b: "fs path = Some bytes" "read_header_bytes from_slice path bytes = Inr h"
    by (auto simp: read_header_def split: option.splits)
  moreover have "sh_path h = path" "sh_file_size h = word_of_nat (length bytes)"
    using b(2) by (auto simp: read_header_bytes_def Let_def)
  ultimately show thesis using that read_header_bytes_wf [OF b(2)] by blast
qed

lemma read_twice_agrees:
  assumes "honest_files E" and "files_fit E (unat block)" and "read_header (sb_fs E) (sb_from_slice E) path = Inr h"
    and "t \<in> set (sh_tensors h)" and "0 < nbytes t" and "0 < limit"
  shows "read_twice E block limit (sh_path h, t, sh_data_start h) = Some True"
proof -
  obtain bytes where f: "sb_fs E path = Some bytes" "sh_path h = path" "sh_file_size h = word_of_nat (length bytes)" "wf_shard h"
    by (rule read_header_file [OF assms(3)])
  let ?off = "sh_data_start h + ti_start t" and ?len = "min (sh_data_start h + ti_end t - (sh_data_start h + ti_start t)) limit"
  note tb = wf_shard_tensor_bounds [OF f(4) assms(4)]
  have fit: "length bytes + unat block < 2 ^ 64" using assms(2) f(1) by (simp add: files_fit_def)
  have size: "unat (sh_file_size h) = length bytes" using f(3) fit by (simp add: unat_of_nat take_bit_nat_eq_self)
  have len: "unat ?len \<le> unat (ti_end t) - unat (ti_start t)"
    using tb(3) by (simp add: unat_min_word unat_sub_u64 word_le_nat_alt)
  then have inside: "unat ?off + unat ?len \<le> length bytes" using tb size by linarith
  have nz: "?len \<noteq> 0" using assms(5,6) by (auto simp: nbytes_def min_def)
  have "read_small_range (sb_open E path d) ?off ?len block = Inr (take (unat ?len) (drop (unat ?off) bytes))" for d
  proof -
    obtain pread where "sb_open E path d = Inr pread" "pread_reads bytes pread" using assms(1) f(1) unfolding honest_files_def by blast
    then show ?thesis using read_small_range_bytes [of bytes pread ?off ?len block] inside fit nz by auto
  qed
  then show ?thesis by (simp add: read_twice_def abs_range_def f(2))
qed

lemma read_small_range_same:
  assumes "pread_reads bytes p" and "pread_reads bytes p'"
  shows "read_small_range (Inr p) off len block = read_small_range (Inr p') off len block"
proof -
  have "pread_loop p a0 tot [] = pread_loop p' a0 tot []" for a0 tot
    using pread_loop_reads [OF assms(1), of "[]"] pread_loop_reads [OF assms(2), of "[]"] by simp
  then show ?thesis by (simp add: read_small_range_def Let_def)
qed

lemma read_twice_not_different:
  assumes "honest_files E" and "sb_fs E path = Some bytes"
  shows "read_twice E block limit (path, t, data_start) \<noteq> Some False"
proof -
  obtain p p' where "sb_open E path True = Inr p" "sb_open E path False = Inr p'" "pread_reads bytes p" "pread_reads bytes p'"
    using assms unfolding honest_files_def by blast
  then have "read_small_range (sb_open E path True) off len block = read_small_range (sb_open E path False) off len block" for off len
    using read_small_range_same [of bytes p p'] by simp
  then show ?thesis by (auto simp: read_twice_def Let_def split: prod.splits sum.splits)
qed

lemma candidates_mem:
  "c \<in> set (candidates p headers) \<longleftrightarrow> (\<exists>h \<in> set headers. \<exists>t \<in> set (sh_tensors h). p t \<and> c = (sh_path h, t, sh_data_start h))"
  by (auto simp: candidates_def)

lemma headers_in_mem:
  assumes "headers_in E dir = Inr headers" and "h \<in> set headers"
  obtains path where "read_header (sb_fs E) (sb_from_slice E) path = Inr h"
proof -
  obtain files where "collect_result (read_header (sb_fs E) (sb_from_slice E)) files = Inr headers"
    using assms(1) by (auto simp: headers_in_def read_model_def)
  then have "\<exists>path. read_header (sb_fs E) (sb_from_slice E) path = Inr h"
    using assms(2) by (auto simp: collect_result_Inr list_all2_conv_all_nth in_set_conv_nth)
  then show thesis using that by blast
qed

text \<open>The three passes leave the number of failures at zero.\<close>

lemma tally_reads_clean:
  "\<forall>c \<in> set cs. read_twice E block limit c = Some True \<Longrightarrow> bt_failed st = 0 \<Longrightarrow>
     bt_failed (foldl (\<lambda>st c. tally_read (read_twice E block limit c) st) st cs) = 0"
  by (induction cs arbitrary: st) (simp_all add: tally_read_def)

lemma tally_f32_clean:
  "\<forall>c \<in> set cs. read_twice E block (- 1) c \<noteq> Some False \<Longrightarrow> bt_failed st = 0 \<Longrightarrow> bt_failed (foldl (tally_f32 E block) st cs) = 0"
proof (induction cs arbitrary: st)
  case (Cons c cs)
  have "bt_failed (tally_f32 E block st c) = 0"
    using Cons.prems by (cases "read_twice E block (- 1) c") (auto simp: tally_f32_def)
  then show ?case using Cons by simp
qed simp

lemma verify_tally_clean:
  assumes "honest_files E" and "files_fit E (num_arg args (lit ''--block'') 4096)" and "headers_in E dir = Inr headers"
  shows "bt_failed (verify_tally E args headers) = 0"
proof -
  define block :: u64 where "block = word_of_nat (num_arg args (lit ''--block'') 4096)"
  have "unat block \<le> num_arg args (lit ''--block'') 4096" by (simp add: block_def unat_of_nat take_bit_nat_less_eq_self)
  then have fit: "files_fit E (unat block)" using assms(2) unfolding files_fit_def by (meson add_left_mono le_less_trans)
  have agree: "read_twice E block limit c = Some True"
    if "c \<in> set (candidates p headers)" "\<And>t. p t \<Longrightarrow> 0 < nbytes t" "0 < limit" for c p limit
    using that(1) headers_in_mem [OF assms(3)] read_twice_agrees [OF assms(1) fit] that(2,3) unfolding candidates_mem by metis
  have same: "read_twice E block (- 1) c \<noteq> Some False" if "c \<in> set (candidates p headers)" for c p
    using that headers_in_mem [OF assms(3)] read_header_file read_twice_not_different [OF assms(1)] unfolding candidates_mem by metis
  have big: "0 < nbytes t" if "65536 < nbytes t" for t using that by (meson le_less_trans word_zero_le)
  have small: "read_twice E block (- 1) c = Some True" if "c \<in> set (candidates (\<lambda>t. nbytes t \<le> 65536 \<and> 0 < nbytes t) headers)" for c
    by (rule agree [OF that]) (simp_all add: word_greater_zero_iff)
  have large: "read_twice E block 0x400000 c = Some True" if "c \<in> set (candidates (\<lambda>t. 65536 < nbytes t) headers)" for c
    by (rule agree [OF that big]) simp_all
  show ?thesis
    unfolding verify_tally_def Let_def block_def [symmetric]
    by (intro tally_reads_clean tally_f32_clean ballI)
      (use small large same in \<open>fastforce dest: in_set_takeD\<close>)+
qed

lemma command_names:
  "lit ''verify'' \<noteq> lit ''list''" "lit ''verify'' \<noteq> lit ''read''"
  "lit ''fuzz'' \<noteq> lit ''list''" "lit ''fuzz'' \<noteq> lit ''read''" "lit ''fuzz'' \<noteq> lit ''verify''" "lit ''fuzz'' \<noteq> lit ''selftest''"
  by simp_all


text \<open>\<open>stbench fuzz\<close> succeeds for every seed and every number of iterations.\<close>

lemma stbench_fuzz_succeeds:
  assumes "args = prog # lit ''fuzz'' # rest" and "fe_create_dir (sb_fuzz E) = Inr ()" and "fe_writable (sb_fuzz E)"
  shows "stbench E args = SUCCESS"
proof -
  obtain r where "fuzz_run (sb_fuzz E) iters seed path reads = Inr (Some (r iters seed path reads)) \<and> FuzzReport_ok (r iters seed path reads)"
    for iters seed path reads
    using fuzz_run_report [OF assms(2,3)] unfolding report_ok_def by metis
  then show ?thesis
    using assms(1) command_names(3-6) by (simp add: stbench_def Let_def cmd_fuzz_def map_err_def del: lit_simps)
qed

section \<open>Witness\<close>

definition sb_ex_bytes :: "u8 list" where
  "sb_ex_bytes = build (fst (documents ! 16 :: rstr \<times> nat json option)) (replicate 4 0)"

definition sb_ex :: "nat bench_env" where
  "sb_ex = \<lparr>sb_fs = (\<lambda>p. if p = lit ''m.safetensors'' then Some sb_ex_bytes else None), sb_entries = (\<lambda>_. [lit ''m.safetensors'']),
     sb_from_slice = ex_parser, sb_open = (\<lambda>_ _. Inr (\<lambda>off n. Inr (take n (drop off sb_ex_bytes)))),
     sb_run = (\<lambda>_ _ _ _. Inr ReadStats_default),
     sb_fuzz = \<lparr>fe_fs = (\<lambda>_. None), fe_create_dir = Inr (), fe_writable = True, fe_from_slice = ex_parser,
       fe_read_files = (\<lambda>_ _ _. Inr ReadStats_default)\<rparr>, sb_self = (\<lambda>_. ex_self), sb_temp_dir = lit ''t''\<rparr>"

lemma sb_ex_headers: "\<exists>headers. headers_in sb_ex dir = Inr headers"
proof -
  have "(fst (documents ! 16 :: rstr \<times> nat json option), snd (documents ! 16 :: rstr \<times> nat json option)) \<in> set documents"
    by (simp add: documents_def)
  from read_back_document [OF _ this, of ex_self "replicate 4 0"] ex_parser_reads
  have "read_back ex_self p sb_ex_bytes = framed ex_self p (length (text_bytes (fst (documents ! 16 :: rstr \<times> nat json option)))) 4 (snd (documents ! 16))" for p
    by (simp add: sb_ex_bytes_def ex_self_def)
  then obtain h where "read_header (sb_fs sb_ex) ex_parser (lit ''m.safetensors'') = Inr h"
    by (auto simp: accepted_documents read_back_def ex_self_def sb_ex_def read_header_def)
  moreover have "path_extension (lit ''m.safetensors'') = Some (lit ''safetensors'')" by code_simp
  ultimately show ?thesis by (simp add: headers_in_def read_model_def discover_shards_def sb_ex_def map_err_def del: lit_simps)
qed


end
