(* ===== verification/Bundle_Cmp.thy ===== *)
theory Bundle_Cmp
  imports Gdn_Check
begin

text \<open>
  The program \<open>bundlecmp\<close> (\<open>bundle/src/main.rs\<close>): its subcommands up to their exit codes, on top of the
  comparison of \<open>Bundle\<close>. Listings that are only printed are left out.
\<close>

section \<open>Arguments\<close>

record 'g BEnv =
  be_fs :: "rstr \<Rightarrow> u8 list option"
  be_manifest :: "u8 list \<Rightarrow> 'g Manifest option"
  be_F :: "u32 fops"
  be_parse_f32 :: "rstr \<Rightarrow> u32 option"
  be_1em5 :: u32

definition value_flags :: "rstr list" where
  "value_flags = map lit [''--group'', ''--max-rel'', ''--top'']"

fun positionals :: "rstr list \<Rightarrow> rstr list" where
  "positionals [] = []"
| "positionals (a # args) =
     (if starts_with a (lit ''--'') then
        if a \<in> set value_flags then positionals (drop 1 args) else positionals args
      else a # positionals args)"

definition positional :: "rstr list \<Rightarrow> nat \<Rightarrow> rstr option" where
  "positional args n = (let out = positionals (drop 2 args) in if n < length out then Some (out ! n) else None)"

section \<open>Subcommands\<close>

definition bundle_at :: "'g BEnv \<Rightarrow> rstr \<Rightarrow> ExitCode + 'g Bundle" where
  "bundle_at E dir = map_err (\<lambda>_. FAILURE) (Bundle_open (be_fs E) (be_manifest E) dir)"

definition cmd_summary :: "'g BEnv \<Rightarrow> rstr list \<Rightarrow> ExitCode + ExitCode" where
  "cmd_summary E args =
     try_bind (ok_or (positional args 0) USAGE) (\<lambda>dir.
     try_bind (bundle_at E dir) (\<lambda>_.
     Inr SUCCESS))"

definition cmd_show :: "'g BEnv \<Rightarrow> rstr list \<Rightarrow> ExitCode + ExitCode" where
  "cmd_show E args =
     try_bind (ok_or (positional args 0) USAGE) (\<lambda>dir.
     try_bind (ok_or (positional args 1) USAGE) (\<lambda>name.
     try_bind (bundle_at E dir) (\<lambda>b.
     try_bind (ok_or (bundle_entry b name) FAILURE) (\<lambda>entry.
     try_bind (map_err (\<lambda>_. FAILURE) (read_entry (be_fs E) b entry)) (\<lambda>_.
     Inr SUCCESS)))))"

definition cmd_compare :: "'g BEnv \<Rightarrow> rstr list \<Rightarrow> ExitCode + ExitCode" where
  "cmd_compare E args =
     try_bind (ok_or (positional args 0) USAGE) (\<lambda>gdir.
     try_bind (ok_or (positional args 1) USAGE) (\<lambda>cdir.
     let grp = arg_val args (lit ''--group'');
         max_rel = (case Option.bind (arg_val args (lit ''--max-rel'')) (be_parse_f32 E) of Some v \<Rightarrow> v | None \<Rightarrow> be_1em5 E) in
     try_bind (bundle_at E gdir) (\<lambda>g.
     try_bind (bundle_at E cdir) (\<lambda>c.
     Inr (if compare_ok (be_F E) (be_fs E) g c grp max_rel then SUCCESS else FAILURE)))))"

definition cmd_selftest :: "'g BEnv \<Rightarrow> rstr list \<Rightarrow> ExitCode + ExitCode" where
  "cmd_selftest E args =
     try_bind (ok_or (positional args 0) USAGE) (\<lambda>dir.
     try_bind (bundle_at E dir) (\<lambda>g.
     Inr (if selftest_ok (be_F E) (be_fs E) g then SUCCESS else FAILURE)))"

definition bundlecmp :: "'g BEnv \<Rightarrow> rstr list \<Rightarrow> ExitCode" where
  "bundlecmp E args =
     (let r = (if length args < 2 then Inl USAGE
               else
                 let cmd = args ! 1 in
                 if cmd = lit ''summary'' then cmd_summary E args
                 else if cmd = lit ''show'' then cmd_show E args
                 else if cmd = lit ''compare'' then cmd_compare E args
                 else if cmd = lit ''selftest'' then cmd_selftest E args
                 else Inl USAGE)
      in case r of Inl code \<Rightarrow> code | Inr code \<Rightarrow> code)"

section \<open>A bundle against itself\<close>

text \<open>What the arithmetic must satisfy: a finite value has no positive distance to itself.\<close>

definition reflexive_floats :: "u32 fops \<Rightarrow> bool" where
  "reflexive_floats F \<longleftrightarrow> ordered_floats F \<and> \<not> f_nan F (f_zero F) \<and> (\<forall>x. f_finite F x \<longrightarrow> \<not> f_lt F (f_zero F) (dist F x x))"

definition readable :: "(rstr \<Rightarrow> u8 list option) \<Rightarrow> u32 fops \<Rightarrow> 'g Bundle \<Rightarrow> TensorEntry \<Rightarrow> bool" where
  "readable fs F b e \<longleftrightarrow> (\<exists>v. read_entry fs b e = Inr v \<and> (\<forall>x \<in> set v. f_finite F x))"

lemma diff_self:
  assumes "reflexive_floats F"
  shows "diff F name shape v v = None \<longleftrightarrow> (\<forall>x \<in> set v. f_finite F x)"
proof
  assume "diff F name shape v v = None"
  with diff_reports_worst [of F, where name = name and shape = shape and golden = v and cand = v] assms have "\<not> incomparable F v v" by (simp add: reflexive_floats_def)
  then show "\<forall>x \<in> set v. f_finite F x" by (auto simp: incomparable_def in_set_conv_nth)
next
  assume fin: "\<forall>x \<in> set v. f_finite F x"
  have F: "ordered_floats F" "\<not> f_nan F (f_zero F)" using assms by (simp_all add: reflexive_floats_def)
  have d: "\<not> f_lt F (f_zero F) (dist F (v ! i) (v ! i))" if "i < length v" for i
    using assms fin that by (simp add: reflexive_floats_def)
  have "\<not> incomparable F v v" using fin by (auto simp: incomparable_def)
  then show "diff F name shape v v = None"
    using diff_reports_worst [OF F, where name = name and shape = shape and golden = v and cand = v] d ordered_floatsD(2) [OF F(1)]
    by (cases "diff F name shape v v") auto
qed

lemma selftest_loop_self:
  assumes "reflexive_floats F"
  shows "(\<exists>n. selftest_loop F fs g es c k = Some (n, k)) \<longleftrightarrow> (\<forall>e \<in> set es. readable fs F g e)"
    and "selftest_loop F fs g es c k = Some (n, k') \<Longrightarrow> k \<le> k'"
proof -
  show mono: "k \<le> k'" if "selftest_loop F fs g es c k = Some (n, k')" for es c k n k'
    using that by (induction es arbitrary: c k) (fastforce split: sum.splits option.splits)+
  show "(\<exists>n. selftest_loop F fs g es c k = Some (n, k)) \<longleftrightarrow> (\<forall>e \<in> set es. readable fs F g e)"
  proof (induction es arbitrary: c)
    case (Cons e es)
    show ?case
    proof (cases "read_entry fs g e")
      case (Inr v)
      then have "readable fs F g e \<longleftrightarrow> diff F (te_name e) (te_shape e) v v = None"
        using diff_self [OF assms] by (simp add: readable_def)
      then show ?thesis using Inr Cons.IH [of "c + 1"] mono [of es "c + 1" "k + 1" _ k] by (auto split: option.splits)
    qed (simp add: readable_def)
  qed simp
qed


section \<open>Witnesses\<close>

definition bc_E :: "nat BEnv" where
  "bc_E = \<lparr>be_fs = ld_ex_fs, be_manifest = (\<lambda>_. Some (bu_manifest ld_ex)), be_F = bu_ex_F, be_parse_f32 = (\<lambda>_. None), be_1em5 = 0\<rparr>"

lemma bc_reflexive: "reflexive_floats bu_ex_F"
  using bu_ex_ordered by (simp add: reflexive_floats_def dist_def) (simp add: bu_ex_F_def)

lemma bc_readable: "e \<in> set (mf_tensors (bu_manifest ld_ex)) \<Longrightarrow> readable ld_ex_fs bu_ex_F ld_ex e"
proof -
  assume "e \<in> set (mf_tensors (bu_manifest ld_ex))"
  then obtain n shape k where e: "(n, shape, k) \<in> set ld_ex_table" "e = snd (ld_ex_entry (n, shape, k))" by (auto simp: ld_ex_def)
  then have row: "map_of ld_ex_table n = Some (shape, k)" by (simp add: map_of_is_SomeI [OF ld_ex_distinct])
  have "list_all (\<lambda>(n, shape, k). k = 1 \<or> k = 2 \<or> k = 3) ld_ex_table" by (simp add: ld_ex_table_def)
  with e(1) have "k = 1 \<or> k = 2 \<or> k = 3" by (auto simp: list_all_iff)
  with ld_ex_read [OF row] have "bundle_read ld_ex_fs ld_ex n = Inr (replicate k 0)" by blast
  moreover have "bundle_entry ld_ex n = Some e" using ld_ex_lookup row e(2) by simp
  ultimately have "read_entry ld_ex_fs ld_ex e = Inr (replicate k 0)" by (simp add: bundle_read_def bundle_entry_def)
  then show ?thesis by (simp add: readable_def bu_ex_F_def)
qed


end
