(* ===== verification/Corpus_Check.thy ===== *)
theory Corpus_Check
  imports Gdn_Check
begin

text \<open>
  The programs that run a recorded corpus against this implementation: \<open>tokcheck\<close> (\<open>gdn/src/bin/tokcheck.rs\<close>)
  for the tokenizer and \<open>chatcheck\<close> (\<open>gdn/src/bin/chatcheck.rs\<close>) for the chat template and the reply parser. What
  they share, a verdict over the cases that depends on each case alone, is the locale \<open>corpus_run\<close>. A call of the
  tokenizer that panics or does not return ends the program (\<open>ABORT\<close>); printed listings are left out.
\<close>

section \<open>Verdicts over a corpus\<close>

definition first_cases :: "nat option \<Rightarrow> 'c list \<Rightarrow> 'c list" where
  "first_cases m cases = (case m of Some n \<Rightarrow> take n cases | None \<Rightarrow> cases)"

definition corpus_verdict :: "('c \<Rightarrow> ExitCode + 'v) \<Rightarrow> ('v \<Rightarrow> bool) \<Rightarrow> 'c list \<Rightarrow> ExitCode" where
  "corpus_verdict check good cases =
     (case collect_result check cases of
        Inl code \<Rightarrow> code
      | Inr vs \<Rightarrow> if list_all good vs then SUCCESS else FAILURE)"

locale corpus_run =
  fixes agrees :: "'c \<Rightarrow> bool"
    and verdict :: "'c list \<Rightarrow> ExitCode"
  assumes verdict_SUCCESS: "verdict cases = SUCCESS \<longleftrightarrow> list_all agrees cases"
begin

lemma verdict_append: "verdict (cs @ ds) = SUCCESS \<longleftrightarrow> verdict cs = SUCCESS \<and> verdict ds = SUCCESS"
  by (simp add: verdict_SUCCESS)

lemma verdict_order: "mset cs = mset ds \<Longrightarrow> verdict cs = SUCCESS \<longleftrightarrow> verdict ds = SUCCESS"
  by (auto simp: verdict_SUCCESS list_all_iff dest: mset_eq_setD)

lemma verdict_first: "verdict cs = SUCCESS \<Longrightarrow> verdict (first_cases m cs) = SUCCESS"
  by (auto simp: verdict_SUCCESS list_all_iff first_cases_def dest: in_set_takeD split: option.split)

lemma verdict_empty: "verdict [] = SUCCESS"
  by (simp add: verdict_SUCCESS)

end

lemma corpus_verdict_SUCCESS:
  assumes "\<And>c. check c \<noteq> Inl SUCCESS"
  shows "corpus_verdict check good cases = SUCCESS \<longleftrightarrow> list_all (\<lambda>c. \<exists>v. check c = Inr v \<and> good v) cases"
proof (cases "collect_result check cases")
  case (Inl code)
  then obtain c where "c \<in> set cases" "check c = Inl code"
    by (induction cases) (auto split: sum.splits simp: try_bind_Inl)
  then show ?thesis using Inl assms by (auto simp: corpus_verdict_def list_all_iff)
next
  case (Inr vs)
  then have "list_all2 (\<lambda>c v. check c = Inr v) cases vs" by (simp add: collect_result_Inr)
  then have "list_all good vs \<longleftrightarrow> list_all (\<lambda>c. \<exists>v. check c = Inr v \<and> good v) cases"
    by (induction rule: list_all2_induct) auto
  then show ?thesis using Inr by (simp add: corpus_verdict_def)
qed

definition operands :: "rstr list \<Rightarrow> rstr list" where
  "operands args = filter (\<lambda>a. \<not> starts_with a (lit ''--'')) (drop 1 args)"

definition max_cases :: "rstr list \<Rightarrow> nat option" where
  "max_cases args = Option.bind (arg_val args (lit ''--max'')) parse_usize"

section \<open>The tokenizer\<close>

datatype tok_fail = IdFail | DecodeFail | StableFail

definition str_field :: "'g json \<Rightarrow> rstr \<Rightarrow> rstr" where
  "str_field c key = (case Option.bind (jget c key) as_str of Some s \<Rightarrow> s | None \<Rightarrow> [])"

definition case_ids :: "'g json \<Rightarrow> nat list" where
  "case_ids c =
     (case Option.bind (jget c (lit ''ids'')) as_array of
        Some a \<Rightarrow> map (\<lambda>n. as_u32 (unat n)) (List.map_filter as_u64 a)
      | None \<Rightarrow> [])"

definition tok_case :: "unicode_tables \<Rightarrow> Tokenizer \<Rightarrow> 'g json \<Rightarrow> ExitCode + tok_fail option" where
  "tok_case db tk c =
     (let text = str_field c (lit ''text''); want = case_ids c; want_decoded = str_field c (lit ''decoded'') in
      try_bind (ok_or (encode db tk text) ABORT) (\<lambda>got.
      if got \<noteq> want then Inr (Some IdFail)
      else
        let back = decode tk got in
        if back \<noteq> want_decoded then Inr (Some DecodeFail)
        else
          try_bind (ok_or (encode db tk back) ABORT) (\<lambda>again.
          Inr (if again \<noteq> got then Some StableFail else None))))"

fun corpus_cases :: "'g json \<Rightarrow> (rstr \<times> 'g json list) option" where
  "corpus_cases (JArr a) = Some (lit ''(unlabelled)'', a)"
| "corpus_cases (JObj kv) =
     Some (case Option.bind (map_of kv (lit ''mode'')) as_str of Some s \<Rightarrow> s | None \<Rightarrow> lit ''?'',
           case Option.bind (map_of kv (lit ''cases'')) as_array of Some a \<Rightarrow> a | None \<Rightarrow> [])"
| "corpus_cases _ = None"

definition tokenizer_at :: "'g Env \<Rightarrow> (rstr \<Rightarrow> bool) \<Rightarrow> rstr \<Rightarrow> ExitCode + Tokenizer" where
  "tokenizer_at E is_dir path =
     (if is_dir path then load_tokenizer E path
      else
        map_err (\<lambda>_. FAILURE)
          (try_bind (from_file (\<lambda>p. map_option (map unat) (ev_fs E p)) (\<lambda>bs. ev_from_slice E (map word_of_nat bs))
             (ev_order E) (ev_show_json E) path) (\<lambda>(tk, _). Inr tk)))"

definition tok_corpus :: "'g Env \<Rightarrow> (rstr \<Rightarrow> bool) \<Rightarrow> rstr list \<Rightarrow> ExitCode + Tokenizer \<times> 'g json list" where
  "tok_corpus E is_dir args =
     guard_err (length (operands args) < 2) USAGE (
     try_bind (tokenizer_at E is_dir (operands args ! 0)) (\<lambda>tk.
     try_bind (ok_or (ev_fs E (operands args ! 1)) FAILURE) (\<lambda>raw.
     try_bind (ok_or (ev_from_slice E raw) FAILURE) (\<lambda>doc.
     try_bind (ok_or (corpus_cases doc) FAILURE) (\<lambda>(mode, cases).
     let want_marks = (\<not> contains_sub mode (lit ''no-marks''))
     in Inr (set_marks_join_letters tk want_marks, first_cases (max_cases args) cases))))))"

definition tok_verdict :: "unicode_tables \<Rightarrow> Tokenizer \<Rightarrow> 'g json list \<Rightarrow> ExitCode" where
  "tok_verdict db tk = corpus_verdict (tok_case db tk) (\<lambda>f. f = None)"

definition tokcheck :: "'g Env \<Rightarrow> (rstr \<Rightarrow> bool) \<Rightarrow> rstr list \<Rightarrow> ExitCode" where
  "tokcheck E is_dir args =
     (case tok_corpus E is_dir args of
        Inl code \<Rightarrow> code
      | Inr (tk, cases) \<Rightarrow> tok_verdict (ev_db E) tk cases)"

text \<open>What a case asks for: the ids, the text they decode to, and that encoding this text gives the ids again.\<close>

definition tok_agrees :: "unicode_tables \<Rightarrow> Tokenizer \<Rightarrow> 'g json \<Rightarrow> bool" where
  "tok_agrees db tk c \<longleftrightarrow>
     encode db tk (str_field c (lit ''text'')) = Some (case_ids c) \<and>
     decode tk (case_ids c) = str_field c (lit ''decoded'') \<and>
     encode db tk (str_field c (lit ''decoded'')) = Some (case_ids c)"

interpretation tok: corpus_run "tok_agrees db tk" "tok_verdict db tk" for db tk
proof
  fix cases :: "'a json list"
  have "tok_case db tk c \<noteq> Inl SUCCESS" for c :: "'a json"
    by (auto simp: tok_case_def Let_def try_bind_Inl ok_or_Inl)
  moreover have "tok_case db tk c = Inr None \<longleftrightarrow> tok_agrees db tk c" for c :: "'a json"
    by (auto simp: tok_case_def Let_def tok_agrees_def ok_or_Inr split: if_splits)
  ultimately show "tok_verdict db tk cases = SUCCESS \<longleftrightarrow> list_all (tok_agrees db tk) cases"
    by (simp add: tok_verdict_def corpus_verdict_SUCCESS)
qed

lemma tok_corpus_exit: "tok_corpus E is_dir args \<noteq> Inl SUCCESS"
  by (auto simp: tok_corpus_def tokenizer_at_def load_tokenizer_def Let_def exit_simps ok_or_Inl split: sum.splits if_splits)

text \<open>\<open>tokcheck\<close> succeeds exactly when the tokenizer and the corpus load and every case that is run agrees in all
  three ways: the ids of its text, the text these ids decode to, and the ids of that text. The verdict says
  nothing more: a corpus without cases, such as an object that lacks the field \<open>cases\<close>, passes.\<close>

theorem tokcheck_success_iff:
  "tokcheck E is_dir args = SUCCESS \<longleftrightarrow>
     (\<exists>tk cases. tok_corpus E is_dir args = Inr (tk, cases) \<and> list_all (tok_agrees (ev_db E) tk) cases)"
  using tok_corpus_exit [of E is_dir args] by (auto simp: tokcheck_def tok.verdict_SUCCESS split: sum.splits)

section \<open>The chat template\<close>

fun error_text :: "chat_error \<Rightarrow> rstr" where
  "error_text NoMessages = lit ''No messages provided.''"
| "error_text SystemNotFirst = lit ''System message must be at the beginning.''"
| "error_text NoUserQuery = lit ''No user query found in messages.''"
| "error_text UnexpectedRole = lit ''Unexpected message role.''"
| "error_text SystemImage = lit ''System message cannot contain images.''"
| "error_text SystemVideo = lit ''System message cannot contain videos.''"
| "error_text ItemType = lit ''Unexpected item type in content.''"
| "error_text ContentType = lit ''Unexpected content type.''"
| "error_text MessagesNotArray = lit ''`messages` is not an array''"
| "error_text NoStringRole = lit ''message has no string `role`''"
| "error_text NoStringName = lit ''a tool call has no string `name`''"

definition ASSISTANT_OPEN :: rstr where "ASSISTANT_OPEN = IM_START @ lit ''assistant'' @ [10]"

text \<open>\<open>rfind\<close> and the slice after the match.\<close>

definition after_last :: "rstr \<Rightarrow> rstr \<Rightarrow> rstr option" where
  "after_last s p = map_option (\<lambda>i. drop (length s - i) s) (find_sub (rev s) (rev p))"

definition truncate_ok :: "rstr \<Rightarrow> bool" where
  "truncate_ok s \<longleftrightarrow> str_len s \<le> 200 \<or> 200 \<in> set (char_boundaries s)"

record chat_outcome =
  co_text_bad :: bool
  co_err_bad :: bool
  co_ids_bad :: bool
  co_parse_bad :: bool

text \<open>Render, parse, render again, for a conversation that ends on an assistant turn.\<close>

definition reply_as_message :: "Reply \<Rightarrow> 'g Message" where
  "reply_as_message reply =
     \<lparr>role = Assistant, content = CText (rp_content reply), reasoning = rp_reasoning reply, tool_calls = as_chat_calls reply\<rparr>"

definition continuation :: "rstr \<Rightarrow> rstr option" where
  "continuation text = Option.bind (after_last text ASSISTANT_OPEN) (\<lambda>tail. strip_suffix tail (IM_END @ [10]))"

definition round_tripped :: "'g jfloat \<Rightarrow> 'g Request \<Rightarrow> Reply \<Rightarrow> rstr \<Rightarrow> bool" where
  "round_tripped J req reply cont =
     (case render J (req\<lparr>messages := butlast (messages req) @ [reply_as_message reply]\<rparr>) of
        Inl _ \<Rightarrow> False
      | Inr r \<Rightarrow>
          (case after_last (r_text r) ASSISTANT_OPEN of
             None \<Rightarrow> False
           | Some tail \<Rightarrow> (case strip_suffix tail (IM_END @ [10]) of Some t \<Rightarrow> t | None \<Rightarrow> []) = cont))"

definition reparse_bad :: "'g jfloat \<Rightarrow> 'g Request \<Rightarrow> rstr \<Rightarrow> ExitCode + bool" where
  "reparse_bad J req text =
     (if messages req = [] \<or> role (last (messages req)) \<noteq> Assistant then Inr False
      else
        case continuation text of
          None \<Rightarrow> Inr False
        | Some cont \<Rightarrow>
            try_bind (map_err (\<lambda>_. ABORT) (parse_assistant cont)) (\<lambda>reply.
            Inr (\<not> round_tripped J req reply cont)))"

definition expected_ids :: "'g Value \<Rightarrow> nat list option" where
  "expected_ids c = map_option (\<lambda>a. map as_u32 (List.map_filter v_as_usize a)) (Option.bind (v_get c (lit ''expect_ids'')) v_as_array)"

definition expected_error :: "'g Value \<Rightarrow> rstr" where
  "expected_error c = (case Option.bind (v_get c (lit ''expect_error'')) v_as_str of Some t \<Rightarrow> t | None \<Rightarrow> [])"

definition chat_case ::
  "'g jfloat \<Rightarrow> unicode_tables \<Rightarrow> Tokenizer \<Rightarrow> bool \<Rightarrow> 'g Value \<Rightarrow> ExitCode + chat_outcome" where
  "chat_case J db tk verbose c =
     (case Request_from_json J c of
        Inl _ \<Rightarrow> Inr \<lparr>co_text_bad = True, co_err_bad = False, co_ids_bad = False, co_parse_bad = False\<rparr>
      | Inr req \<Rightarrow>
          let expect = Option.bind (v_get c (lit ''expect_text'')) v_as_str in
          (case render J req of
             Inl e \<Rightarrow>
               Inr \<lparr>co_text_bad = (expect \<noteq> None), co_err_bad = (expect = None \<and> error_text e \<noteq> expected_error c),
                    co_ids_bad = False, co_parse_bad = False\<rparr>
           | Inr r \<Rightarrow>
               let text_bad = (case expect of Some wanted \<Rightarrow> r_text r \<noteq> wanted | None \<Rightarrow> False) in
               guard_err (text_bad \<and> verbose \<and> \<not> (truncate_ok (the expect) \<and> truncate_ok (r_text r))) ABORT (
               try_bind (case expected_ids c of
                   Some wanted \<Rightarrow> try_bind (ok_or (encode db tk (r_text r)) ABORT) (\<lambda>mine. Inr (mine \<noteq> wanted))
                 | None \<Rightarrow> Inr False) (\<lambda>ids_bad.
               try_bind (reparse_bad J req (r_text r)) (\<lambda>parse_bad.
               Inr \<lparr>co_text_bad = text_bad, co_err_bad = (expect = None), co_ids_bad = ids_bad, co_parse_bad = parse_bad\<rparr>)))))"

definition outcome_ok :: "chat_outcome \<Rightarrow> bool" where
  "outcome_ok v \<longleftrightarrow> \<not> co_text_bad v \<and> \<not> co_ids_bad v \<and> \<not> co_err_bad v \<and> \<not> co_parse_bad v"

definition markers :: "(rstr \<times> nat) list" where
  "markers = [(IM_START, 248045), (IM_END, 248046), (THINK_OPEN, 248068), (THINK_CLOSE, 248069)]"

definition marker_ok :: "unicode_tables \<Rightarrow> Tokenizer \<Rightarrow> rstr \<times> nat \<Rightarrow> ExitCode + bool" where
  "marker_ok db tk = (\<lambda>(marker, wanted). try_bind (ok_or (encode db tk marker) ABORT) (\<lambda>got. Inr (got = [wanted])))"

definition chat_corpus :: "'g Env \<Rightarrow> rstr list \<Rightarrow> ExitCode + Tokenizer \<times> 'g Value list" where
  "chat_corpus E args =
     guard_err (length (operands args) < 2) USAGE (
     try_bind (load_tokenizer E (operands args ! 0)) (\<lambda>tk.
     try_bind (ok_or (ev_fs E (operands args ! 1)) FAILURE) (\<lambda>raw.
     try_bind (map_err (\<lambda>_. FAILURE) (json_parse (ev_J E) (from_utf8_lossy (map unat raw)))) (\<lambda>doc.
     try_bind (ok_or (Option.bind (v_get doc (lit ''cases'')) v_as_array) FAILURE) (\<lambda>cases.
     try_bind (collect_result (marker_ok (ev_db E) tk) markers) (\<lambda>oks.
     guard_err (\<not> list_all id oks) FAILURE (
     Inr (tk, first_cases (max_cases args) cases))))))))"

definition chat_verdict :: "'g jfloat \<Rightarrow> unicode_tables \<Rightarrow> Tokenizer \<Rightarrow> bool \<Rightarrow> 'g Value list \<Rightarrow> ExitCode" where
  "chat_verdict J db tk verbose = corpus_verdict (chat_case J db tk verbose) outcome_ok"

definition chatcheck :: "'g Env \<Rightarrow> rstr list \<Rightarrow> ExitCode" where
  "chatcheck E args =
     (case chat_corpus E args of
        Inl code \<Rightarrow> code
      | Inr (tk, cases) \<Rightarrow> chat_verdict (ev_J E) (ev_db E) tk (has_flag args (lit ''--verbose'')) cases)"

text \<open>What a case asks for: the recorded text or, without one, the recorded error; the recorded ids of the text; and the
  reply at its end surviving a parse.\<close>

definition chat_agrees :: "'g jfloat \<Rightarrow> unicode_tables \<Rightarrow> Tokenizer \<Rightarrow> 'g Value \<Rightarrow> bool" where
  "chat_agrees J db tk c \<longleftrightarrow>
     (\<exists>req. Request_from_json J c = Inr req \<and>
        (case Option.bind (v_get c (lit ''expect_text'')) v_as_str of
           Some wanted \<Rightarrow>
             (\<exists>r. render J req = Inr r \<and> r_text r = wanted \<and>
                (case expected_ids c of Some ids \<Rightarrow> encode db tk wanted = Some ids | None \<Rightarrow> True) \<and>
                reparse_bad J req wanted = Inr False)
         | None \<Rightarrow> (\<exists>e. render J req = Inl e \<and> error_text e = expected_error c)))"

lemma reparse_exit: "reparse_bad J req text \<noteq> Inl SUCCESS"
  by (auto simp: reparse_bad_def exit_simps split: option.splits)

lemma outcome_ok_iff:
  "outcome_ok v \<longleftrightarrow> v = \<lparr>co_text_bad = False, co_err_bad = False, co_ids_bad = False, co_parse_bad = False\<rparr>"
  by (cases v) (auto simp: outcome_ok_def)

lemma chat_case_agrees:
  "(\<exists>v. chat_case J db tk verbose c = Inr v \<and> outcome_ok v) \<longleftrightarrow> chat_agrees J db tk c"
proof -
  have *: "(\<exists>v. r = Inr v \<and> outcome_ok v) \<longleftrightarrow>
      r = Inr \<lparr>co_text_bad = False, co_err_bad = False, co_ids_bad = False, co_parse_bad = False\<rparr>" for r :: "ExitCode + chat_outcome"
    by (auto simp: outcome_ok_iff)
  show ?thesis
    unfolding *
    by (cases "Request_from_json J c"; cases "Option.bind (v_get c (lit ''expect_text'')) v_as_str"; cases "expected_ids c")
      (auto simp: chat_case_def Let_def chat_agrees_def ok_or_Inr simp del: lit_simps split: sum.splits)
qed

interpretation chat: corpus_run "chat_agrees J db tk" "chat_verdict J db tk verbose" for J db tk verbose
proof
  fix cases :: "'a Value list"
  have "chat_case J db tk verbose c \<noteq> Inl SUCCESS" for c
    by (auto simp: chat_case_def Let_def exit_simps ok_or_Inl reparse_exit split: sum.splits option.splits)
  then show "chat_verdict J db tk verbose cases = SUCCESS \<longleftrightarrow> list_all (chat_agrees J db tk) cases"
    by (simp add: chat_verdict_def corpus_verdict_SUCCESS chat_case_agrees)
qed

lemma collect_marker_exit: "collect_result (marker_ok db tk) ms \<noteq> Inl SUCCESS"
  by (induction ms) (auto simp: marker_ok_def exit_simps ok_or_Inl split: sum.splits)

lemma chat_corpus_exit: "chat_corpus E args \<noteq> Inl SUCCESS"
  by (auto simp: chat_corpus_def load_tokenizer_def exit_simps ok_or_Inl collect_marker_exit split: sum.splits if_splits)

text \<open>\<open>chatcheck\<close> succeeds exactly when the tokenizer and the corpus load, the four markers are single tokens, and
  every case that is run is met: the template gives the recorded text, the tokenizer gives it the recorded ids, and
  the reply at its end is rendered again byte for byte after a parse; or, for a case without a text, the template
  raises the recorded error.\<close>

theorem chatcheck_success_iff:
  "chatcheck E args = SUCCESS \<longleftrightarrow>
     (\<exists>tk cases. chat_corpus E args = Inr (tk, cases) \<and> list_all (chat_agrees (ev_J E) (ev_db E) tk) cases)"
  using chat_corpus_exit [of E args] by (auto simp: chatcheck_def chat.verdict_SUCCESS split: sum.splits)

end
