(* ===== verification/Sample_Check.thy ===== *)
theory Sample_Check
  imports Corpus_Check
begin

text \<open>
  \<open>samplecheck\<close> (\<open>gdn/src/bin/samplecheck.rs\<close>): the filters of the sampler against a recorded corpus. The
  comparison of two vectors, with its two passes and the tolerance for divisions by a temperature, the excuse for
  a \<open>top_p\<close> boundary, the counters of the run and the frequency check of the draw. Single precision numbers are
  their bit patterns; the names of the failing stages and the printed text are left out.
\<close>

section \<open>The comparison of filtered logits\<close>

text \<open>What the program uses of the two precisions beyond the sampler: \<open>i as f32\<close>, the constants, the bit
  patterns of doubles, and \<open>li_32 m e\<close> for the literal \<open>m\<close> times \<open>10\<close> to the power \<open>-e\<close>.\<close>

record 'g lits =
  li_of_int :: "int \<Rightarrow> u32"
  li_nan :: u32
  li_epsilon :: u32
  li_to_bits :: "'g \<Rightarrow> u64"
  li_from_bits :: "u64 \<Rightarrow> 'g"
  li_32 :: "int \<Rightarrow> nat \<Rightarrow> u32"
  li_64 :: "int \<Rightarrow> nat \<Rightarrow> 'g"

fun decode_lit :: "(u32, 'g) sops \<Rightarrow> 'g lits \<Rightarrow> 'g Value \<Rightarrow> u32 option" where
  "decode_lit S L VNull = Some (FILTERED S)"
| "decode_lit S L (VFloat f) = Some (narrow S f)"
| "decode_lit S L (VInt n) = Some (li_of_int L n)"
| "decode_lit S L (VStr s) = (if s = lit ''nan'' then Some (li_nan L) else None)"
| "decode_lit S L _ = None"

fun decode_lits :: "(u32, 'g) sops \<Rightarrow> 'g lits \<Rightarrow> nat \<Rightarrow> 'g Value list \<Rightarrow> nat + u32 list" where
  "decode_lits S L k [] = Inr []"
| "decode_lits S L k (v # vs) =
     (case decode_lit S L v of
        None \<Rightarrow> Inl k
      | Some f \<Rightarrow> try_bind (decode_lits S L (k + 1) vs) (\<lambda>fs. Inr (f # fs)))"

definition has_duplicate_values :: "u32 list \<Rightarrow> bool" where
  "has_duplicate_values v = (let b = sort v in list_ex (\<lambda>(x, y). x = y) (zip b (tl b)))"

text \<open>The key of \<open>f32::total_cmp\<close>: the magnitude bits of a negative number are flipped.\<close>

definition total_key :: "u32 \<Rightarrow> int" where
  "total_key b = sint (if bit b 31 then xor b 0x7FFFFFFF else b)"

definition total_sort :: "u32 list \<Rightarrow> u32 list" where
  "total_sort = sort_by (\<lambda>a b. total_key a < total_key b)"

datatype Verdict = Exact | WithinUlp | Differ nat

definition within_ulp :: "(u32, 'g) sops \<Rightarrow> 'g lits \<Rightarrow> u32 \<Rightarrow> u32 \<Rightarrow> bool" where
  "within_ulp S L x y \<longleftrightarrow>
     (let F = s32 S in
      f_finite F x \<and> f_finite F y \<and>
      f_le F (f_abs F (f_sub F x y)) (f_mul F (f_mul F (f_abs F y) (li_epsilon L)) (f_of_nat F 2)))"

fun compare_pass :: "(u32, 'g) sops \<Rightarrow> 'g lits \<Rightarrow> bool \<Rightarrow> nat \<Rightarrow> bool \<Rightarrow> (u32 \<times> u32) list \<Rightarrow> nat + bool" where
  "compare_pass S L allow_ulp k all_equal [] = Inr all_equal"
| "compare_pass S L allow_ulp k all_equal ((x, y) # ps) =
     (if f_eq (s32 S) x y then compare_pass S L allow_ulp (k + 1) all_equal ps
      else if allow_ulp \<and> within_ulp S L x y then compare_pass S L allow_ulp (k + 1) False ps
      else Inl k)"

definition compare :: "(u32, 'g) sops \<Rightarrow> 'g lits \<Rightarrow> u32 list \<Rightarrow> 'g Value list \<Rightarrow> u32 list \<Rightarrow> bool \<Rightarrow> Verdict" where
  "compare S L got expect input allow_ulp =
     (if length got \<noteq> length expect then Differ (min (length got) (length expect))
      else
        case try_bind (decode_lits S L 0 expect) (\<lambda>want.
             try_bind (compare_pass S L allow_ulp 0 True (zip (total_sort got) (total_sort want))) (\<lambda>all_equal.
             if \<not> has_duplicate_values input then compare_pass S L allow_ulp 0 all_equal (zip got want)
             else Inr all_equal)) of
          Inl k \<Rightarrow> Differ k
        | Inr all_equal \<Rightarrow> if all_equal then Exact else WithinUlp)"

definition verdict_of :: "(u32, 'g) sops \<Rightarrow> 'g lits \<Rightarrow> u32 list \<Rightarrow> 'g Value list \<Rightarrow> bool" where
  "verdict_of S L got expect =
     list_ex (\<lambda>(k, w).
       case decode_lit S L w of
         Some x \<Rightarrow>
           if k < length got then
             let g = got ! k in
             if masked S x \<or> masked S g then \<not> f_eq (s32 S) g x
             else if f_nan (s32 S) x then \<not> f_nan (s32 S) g
             else \<not> f_eq (s32 S) g x
           else True
       | None \<Rightarrow> True) (enumerate 0 expect)"

text \<open>Whether \<open>boundary_case\<close> gives a reason: the mass of the tokens the reference masked is within two ulp of
  the threshold.\<close>

definition boundary_case :: "(u32, 'g) sops \<Rightarrow> 'g lits \<Rightarrow> 'g jfloat \<Rightarrow> 'g Value \<Rightarrow> u32 list \<Rightarrow> 'g Value list \<Rightarrow> bool" where
  "boundary_case S L J settings logits expect =
     (case Option.bind (v_get settings (lit ''top_p'')) (v_as_f64 J) of
        None \<Rightarrow> False
      | Some p \<Rightarrow>
          let G = s64 S; kept = length (filter (\<lambda>v. v \<noteq> VNull) expect); n = length logits in
          if n < kept \<or> n - kept = 0 \<or> n \<le> n - kept then False
          else
            let threshold = widen S (top_p_threshold S p);
                probs = softmax S logits;
                total = f_sum G (map (widen S) probs)
            in if f_le G total (f_zero G) \<or> f_nan G total then False
               else
                 let idx = sort_by (\<lambda>a b. f_lt (s32 S) (logits ! a) (logits ! b)) [0..<n];
                     mass = f_sum G (map (\<lambda>i. f_div G (widen S (probs ! i)) total) (take (n - kept) idx));
                     tb = li_to_bits L threshold;
                     ulp = f_sub G (li_from_bits L (if tb = - 1 then tb else tb + 1)) threshold
                 in f_le G (f_abs G (f_sub G mass threshold)) (f_mul G (f_of_nat G 2) ulp))"

section \<open>The run over the corpus\<close>

definition OUR_ORDER :: "rstr list" where
  "OUR_ORDER = map lit [''repetition_penalty'', ''presence_penalty'', ''frequency_penalty'', ''no_repeat_ngram'',
     ''temperature'', ''top_k'', ''top_p'', ''min_p'', ''typical_p'']"

definition config_from :: "(u32, 'g) sops \<Rightarrow> 'g jfloat \<Rightarrow> 'g Value \<Rightarrow> 'g SamplerConfig" where
  "config_from S J settings =
     (let G = s64 S;
          num = (\<lambda>k d. case Option.bind (v_get settings (lit k)) (v_as_f64 J) of Some x \<Rightarrow> x | None \<Rightarrow> d);
          count = (\<lambda>k. case Option.bind (v_get settings (lit k)) v_as_usize of Some n \<Rightarrow> n | None \<Rightarrow> 0)
      in \<lparr>c_temperature = num ''temperature'' (f_one G), c_top_k = count ''top_k'', c_top_p = num ''top_p'' (f_one G),
          c_min_p = num ''min_p'' (f_zero G), c_typical_p = num ''typical_p'' (f_one G),
          c_repetition_penalty = num ''repetition_penalty'' (f_one G),
          c_presence_penalty = num ''presence_penalty'' (f_zero G),
          c_frequency_penalty = num ''frequency_penalty'' (f_zero G),
          c_no_repeat_ngram_size = count ''no_repeat_ngram_size'', c_seed = 1\<rparr>)"

record Tally =
  ok :: nat
  bad :: nat
  n_exact :: nat
  n_ulp :: nat
  n_ties :: nat
  n_tie_index_mismatch :: nat
  n_boundary :: nat
  failed :: bool

definition array_field :: "'g Value \<Rightarrow> rstr \<Rightarrow> 'g Value list option" where
  "array_field c key = Option.bind (v_get c key) v_as_array"

definition case_settings :: "'g Value \<Rightarrow> 'g Value" where
  "case_settings c = (case v_get c (lit ''settings'') of Some s \<Rightarrow> s | None \<Rightarrow> VNull)"

definition case_history :: "'g Value \<Rightarrow> nat list" where
  "case_history c =
     (case array_field c (lit ''history'') of Some a \<Rightarrow> map as_u32 (List.map_filter v_as_usize a) | None \<Rightarrow> [])"

definition has_temperature :: "(u32, 'g) sops \<Rightarrow> 'g jfloat \<Rightarrow> 'g Value \<Rightarrow> bool" where
  "has_temperature S J settings =
     (case Option.bind (v_get settings (lit ''temperature'')) (v_as_f64 J) of
        Some t \<Rightarrow> \<not> f_eq (s64 S) t (f_one (s64 S)) | None \<Rightarrow> False)"

definition count_ties :: "bool \<Rightarrow> bool \<Rightarrow> Tally \<Rightarrow> Tally" where
  "count_ties ties mismatch st =
     st\<lparr>n_ties := n_ties st + of_bool ties, n_tie_index_mismatch := n_tie_index_mismatch st + of_bool (ties \<and> mismatch)\<rparr>"

definition tally_verdict :: "Verdict \<Rightarrow> bool \<Rightarrow> Tally \<Rightarrow> Tally" where
  "tally_verdict v excused st =
     (case v of
        Exact \<Rightarrow> st\<lparr>n_exact := n_exact st + 1, ok := ok st + 1\<rparr>
      | WithinUlp \<Rightarrow> st\<lparr>n_ulp := n_ulp st + 1, ok := ok st + 1\<rparr>
      | Differ _ \<Rightarrow>
          if excused then st\<lparr>n_boundary := n_boundary st + 1\<rparr>
          else st\<lparr>bad := bad st + 1, failed := True\<rparr>)"

definition sample_case ::
  "(u32, 'g) sops \<Rightarrow> 'g lits \<Rightarrow> 'g jfloat \<Rightarrow> 'g Value \<Rightarrow> Tally \<Rightarrow> ExitCode + Tally" where
  "sample_case S L J c st =
     (case (array_field c (lit ''expect''), array_field c (lit ''logits'')) of
        (Some expect, Some logits_json) \<Rightarrow>
          try_bind (collect_result (\<lambda>v. ok_or (decode_lit S L v) FAILURE) logits_json) (\<lambda>logits.
          case Sampler_new (s64 S) (config_from S J (case_settings c)) of
            Inl _ \<Rightarrow> Inr (st\<lparr>bad := bad st + 1, failed := True\<rparr>)
          | Inr sampler \<Rightarrow>
              let got = apply_filters S (sa_cfg sampler) logits (case_history c);
                  st = count_ties (has_duplicate_values logits) (verdict_of S L got expect) st
              in Inr (tally_verdict (compare S L got expect logits (has_temperature S J (case_settings c)))
                   (boundary_case S L J (case_settings c) logits expect) st))
      | _ \<Rightarrow> Inr (st\<lparr>bad := bad st + 1\<rparr>))"

fun sample_cases ::
  "(u32, 'g) sops \<Rightarrow> 'g lits \<Rightarrow> 'g jfloat \<Rightarrow> 'g Value list \<Rightarrow> Tally \<Rightarrow> ExitCode + Tally" where
  "sample_cases S L J [] st = Inr st"
| "sample_cases S L J (c # cs) st = try_bind (sample_case S L J c st) (sample_cases S L J cs)"

section \<open>The frequency check\<close>

definition sampling :: "(u32, 'g) sops \<Rightarrow> 'g SamplerConfig" where
  "sampling S = (SamplerConfig_default (s64 S))\<lparr>c_temperature := f_one (s64 S)\<rparr>"

definition freq_cases :: "(u32, 'g) sops \<Rightarrow> 'g lits \<Rightarrow> (u32 list \<times> 'g SamplerConfig) list" where
  "freq_cases S L =
     (let F = s32 S; d = li_32 L in
      [([d 30 1, d 10 1, d 5 1, d 1 1, d (- 10) 1, d (- 50) 1], sampling S),
       (map (\<lambda>i. f_mul F (f_neg F (f_of_nat F i)) (d 9 2)) [0..<64], sampling S),
       ((replicate 32 (f_zero F))[3 := FILTERED S, 17 := FILTERED S], sampling S),
       (replicate 4 (f_one F), (sampling S)\<lparr>c_top_k := 2\<rparr>),
       ([d 20 1, d 15 1, d 10 1, d 5 1, d 0 1, d (- 5) 1, d (- 10) 1], (sampling S)\<lparr>c_temperature := li_64 L 5 1\<rparr>)])"

text \<open>\<open>None\<close> is the error of a draw; an index out of range would end the program.\<close>

fun draw_many ::
  "(u32, 'g) sops \<Rightarrow> (nat \<Rightarrow> 'g) \<Rightarrow> u32 list \<Rightarrow> u32 list \<Rightarrow> nat \<Rightarrow> 'g Sampler \<Rightarrow> nat list \<Rightarrow> nat \<Rightarrow>
   ExitCode + (nat list \<times> nat) option" where
  "draw_many S scale53 logits target 0 s seen impossible = Inr (Some (seen, impossible))"
| "draw_many S scale53 logits target (Suc draws) s seen impossible =
     (case sampler_next S scale53 s logits [] of
        (Inl _, _) \<Rightarrow> Inr None
      | (Inr t, s') \<Rightarrow>
          guard_err (length seen \<le> t \<or> length target \<le> t) ABORT (
          draw_many S scale53 logits target draws s' (seen[t := seen ! t + 1])
            (impossible + of_bool (f_eq (s32 S) (target ! t) (f_zero (s32 S))))))"

record 'g deviation =
  worst_z :: 'g
  worst_dev :: 'g
  zero_mass_drawn :: nat

definition deviation_step :: "(u32, 'g) sops \<Rightarrow> nat \<Rightarrow> 'g \<Rightarrow> 'g deviation \<Rightarrow> u32 \<times> nat \<Rightarrow> 'g deviation" where
  "deviation_step S draws mass w = (\<lambda>(p, n).
     let G = s64 S; t = f_div G (widen S p) mass in
     if f_eq G t (f_zero G) then (if 0 < n then w\<lparr>zero_mass_drawn := zero_mass_drawn w + 1\<rparr> else w)
     else
       let got = f_div G (f_of_nat G n) (f_of_nat G draws);
           sigma = f_sqrt G (f_div G (f_mul G t (f_sub G (f_one G) t)) (f_of_nat G draws));
           dev = f_abs G (f_sub G got t);
           z = (if f_lt G (f_zero G) sigma then f_div G dev sigma else f_zero G)
       in if f_lt G (worst_z w) z then w\<lparr>worst_z := z, worst_dev := dev\<rparr> else w)"

definition freq_case ::
  "(u32, 'g) sops \<Rightarrow> 'g lits \<Rightarrow> (nat \<Rightarrow> 'g) \<Rightarrow> nat \<Rightarrow> nat \<times> u32 list \<times> 'g SamplerConfig \<Rightarrow> ExitCode + bool" where
  "freq_case S L scale53 draws = (\<lambda>(ci, logits, cfg).
     case Sampler_new (s64 S) (cfg\<lparr>c_seed := 0xC0FFEE + word_of_nat ci\<rparr>) of
       Inl _ \<Rightarrow> Inr False
     | Inr s \<Rightarrow>
         let G = s64 S;
             target = softmax S (apply_filters S (sa_cfg s) logits []);
             total = f_sum G (map (widen S) target)
         in try_bind (draw_many S scale53 logits target draws s (replicate (length logits) 0) 0) (\<lambda>r.
            case r of
              None \<Rightarrow> Inr False
            | Some (seen, impossible) \<Rightarrow>
                let w = foldl (deviation_step S draws total)
                      \<lparr>worst_z = f_zero G, worst_dev = f_zero G, zero_mass_drawn = 0\<rparr> (zip target seen)
                in Inr (zero_mass_drawn w = 0 \<and> impossible = 0 \<and>
                     (f_lt G (worst_z w) (f_of_nat G 5) \<or> f_lt G (worst_dev w) (li_64 L 1 4)))))"

definition frequency_check :: "(u32, 'g) sops \<Rightarrow> 'g lits \<Rightarrow> (nat \<Rightarrow> 'g) \<Rightarrow> nat \<Rightarrow> ExitCode + bool" where
  "frequency_check S L scale53 draws =
     try_bind (collect_result (freq_case S L scale53 draws) (enumerate 0 (freq_cases S L))) (\<lambda>oks. Inr (list_all id oks))"

section \<open>The program\<close>

definition sample_corpus :: "'g Env \<Rightarrow> rstr list \<Rightarrow> ExitCode + bool \<times> 'g Value list" where
  "sample_corpus E args =
     guard_err (operands args = []) USAGE (
     try_bind (ok_or (ev_fs E (operands args ! 0)) FAILURE) (\<lambda>raw.
     try_bind (map_err (\<lambda>_. FAILURE) (json_parse (ev_J E) (from_utf8_lossy (map unat raw)))) (\<lambda>doc.
     try_bind (ok_or (array_field doc (lit ''cases'')) FAILURE) (\<lambda>cases.
     let order = (case array_field doc (lit ''stage_order'') of Some a \<Rightarrow> List.map_filter v_as_str a | None \<Rightarrow> [])
     in Inr (order \<noteq> OUR_ORDER, first_cases (max_cases args) cases)))))"

definition frequency_draws :: "rstr list \<Rightarrow> nat" where
  "frequency_draws args = (case Option.bind (arg_val args (lit ''--frequency'')) parse_usize of Some n \<Rightarrow> n | None \<Rightarrow> 0)"

definition no_tally :: "bool \<Rightarrow> Tally" where
  "no_tally disordered =
     \<lparr>ok = 0, bad = 0, n_exact = 0, n_ulp = 0, n_ties = 0, n_tie_index_mismatch = 0, n_boundary = 0, failed = disordered\<rparr>"

definition samplecheck :: "'g Env \<Rightarrow> 'g lits \<Rightarrow> rstr list \<Rightarrow> ExitCode" where
  "samplecheck E L args =
     (let S = n_ops (ev_N E); freq = frequency_draws args in
      case try_bind (sample_corpus E args) (\<lambda>(disordered, cases).
           try_bind (sample_cases S L (ev_J E) cases (no_tally disordered)) (\<lambda>st.
           if 0 < freq then try_bind (frequency_check S L (ev_scale53 E) freq) (\<lambda>all_ok. Inr (failed st \<or> \<not> all_ok))
           else Inr (failed st))) of
        Inl code \<Rightarrow> code
      | Inr fail \<Rightarrow> if fail then FAILURE else SUCCESS)"

section \<open>What a passing case has shown\<close>

lemma adjacent_duplicates:
  fixes b :: "'a :: linorder list"
  assumes "sorted b"
  shows "list_ex (\<lambda>(x, y). x = y) (zip b (tl b)) \<longleftrightarrow> \<not> distinct b"
  using assms
proof (induction b rule: induct_list012)
  case (3 x y zs)
  then show ?case by (auto simp: list_ex_iff)
qed auto

lemma has_duplicates: "has_duplicate_values v \<longleftrightarrow> \<not> distinct v"
  by (simp add: has_duplicate_values_def Let_def adjacent_duplicates)

text \<open>Two numbers count as the same when they are equal or, after a division by a temperature, close.\<close>

definition near :: "(u32, 'g) sops \<Rightarrow> 'g lits \<Rightarrow> bool \<Rightarrow> u32 \<Rightarrow> u32 \<Rightarrow> bool" where
  "near S L allow_ulp x y \<longleftrightarrow> f_eq (s32 S) x y \<or> allow_ulp \<and> within_ulp S L x y"

definition same_values :: "(u32, 'g) sops \<Rightarrow> 'g lits \<Rightarrow> bool \<Rightarrow> u32 list \<Rightarrow> u32 list \<Rightarrow> bool" where
  "same_values S L allow_ulp xs ys \<longleftrightarrow> list_all2 (near S L allow_ulp) xs ys"

lemma compare_pass_ok:
  "(\<exists>r. compare_pass S L allow_ulp k e ps = Inr r) \<longleftrightarrow> list_all (\<lambda>(x, y). near S L allow_ulp x y) ps"
  by (induction S L allow_ulp k e ps rule: compare_pass.induct) (auto simp: near_def)

lemma compare_pass_exact:
  "compare_pass S L allow_ulp k e ps = Inr True \<longleftrightarrow> e \<and> list_all (\<lambda>(x, y). f_eq (s32 S) x y) ps"
  by (induction S L allow_ulp k e ps rule: compare_pass.induct) auto

lemma decode_lits_Inr: "decode_lits S L k vs = Inr fs \<longleftrightarrow> list_all2 (\<lambda>v f. decode_lit S L v = Some f) vs fs"
  by (induction S L k vs arbitrary: fs rule: decode_lits.induct) (auto simp: list_all2_Cons1 split: option.splits)

lemma length_total_sort [simp]: "length (total_sort xs) = length xs"
  by (simp add: total_sort_def)

lemma list_all_zip: "length xs = length ys \<Longrightarrow> list_all (\<lambda>(x, y). P x y) (zip xs ys) \<longleftrightarrow> list_all2 P xs ys"
  by (simp add: list_all2_iff list_all_iff)

text \<open>Both passes over vectors of one length: as multisets, and position by position when the input has no
  duplicates.\<close>

definition matches :: "(u32, 'g) sops \<Rightarrow> 'g lits \<Rightarrow> bool \<Rightarrow> u32 list \<Rightarrow> u32 list \<Rightarrow> u32 list \<Rightarrow> bool" where
  "matches S L allow_ulp input got expected \<longleftrightarrow>
     same_values S L allow_ulp (total_sort got) (total_sort expected) \<and>
     (if distinct input then same_values S L allow_ulp got expected else True)"

lemma compare_pass_isl: "isl (compare_pass S L allow_ulp k e ps) \<longleftrightarrow> \<not> list_all (\<lambda>(x, y). near S L allow_ulp x y) ps"
  using compare_pass_ok [of S L allow_ulp k e ps] by (cases "compare_pass S L allow_ulp k e ps") auto

definition differs :: "Verdict \<Rightarrow> bool" where
  "differs v \<longleftrightarrow> (case v of Differ _ \<Rightarrow> True | _ \<Rightarrow> False)"

lemma isl_try_bind: "isl (try_bind m f) \<longleftrightarrow> isl m \<or> isl (f (projr m))"
  by (cases m) auto

lemma differs_verdict: "differs (case r of Inl k \<Rightarrow> Differ k | Inr e \<Rightarrow> if e then Exact else WithinUlp) \<longleftrightarrow> isl r"
  by (cases r) (simp_all add: differs_def)

lemma compare_decoded:
  assumes "length got = length expect" and "decode_lits S L 0 expect = Inr expected"
  shows "differs (compare S L got expect input allow_ulp) \<longleftrightarrow> \<not> matches S L allow_ulp input got expected"
proof -
  have l: "length got = length expected" using assms by (metis decode_lits_Inr list_all2_lengthD)
  have "differs (compare S L got expect input allow_ulp) \<longleftrightarrow>
      isl (compare_pass S L allow_ulp 0 True (zip (total_sort got) (total_sort expected))) \<or>
      distinct input \<and> isl (compare_pass S L allow_ulp 0
        (projr (compare_pass S L allow_ulp 0 True (zip (total_sort got) (total_sort expected)))) (zip got expected))"
    using assms by (simp add: compare_def differs_verdict isl_try_bind has_duplicates)
  then show ?thesis by (auto simp: compare_pass_isl matches_def same_values_def list_all_zip l)
qed

lemma compare_accepts:
  "\<not> differs (compare S L got expect input allow_ulp) \<longleftrightarrow>
     (\<exists>expected. list_all2 (\<lambda>v f. decode_lit S L v = Some f) expect expected \<and> matches S L allow_ulp input got expected)"
proof (cases "length got = length expect \<and> \<not> isl (decode_lits S L 0 expect)")
  case False
  have "length got = length expect \<and> \<not> isl (decode_lits S L 0 expect)"
    if "list_all2 (\<lambda>v f. decode_lit S L v = Some f) expect expected" "matches S L allow_ulp input got expected" for expected
    using that decode_lits_Inr [of S L 0 expect expected] list_all2_lengthD [OF that(1)]
    by (auto simp: matches_def same_values_def dest: list_all2_lengthD)
  moreover have "differs (compare S L got expect input allow_ulp)"
    using False by (cases "length got = length expect") (simp_all add: compare_def differs_verdict isl_try_bind, simp add: differs_def)
  ultimately show ?thesis using False by blast
next
  case True
  then obtain expected where d: "decode_lits S L 0 expect = Inr expected" by (metis sum.collapse(2))
  then have "list_all2 (\<lambda>v f. decode_lit S L v = Some f) expect fs \<longleftrightarrow> fs = expected" for fs
    using decode_lits_Inr [of S L 0 expect fs] by auto
  then show ?thesis using compare_decoded [OF _ d] True by auto
qed

text \<open>What is asked of a case: nothing when it lacks one of its arrays; otherwise its logits and settings are
  readable and the filters give the recorded vector, unless the \<open>top_p\<close> boundary excuses it.\<close>

definition sample_agrees :: "(u32, 'g) sops \<Rightarrow> 'g lits \<Rightarrow> 'g jfloat \<Rightarrow> 'g Value \<Rightarrow> bool" where
  "sample_agrees S L J c \<longleftrightarrow>
     (case (array_field c (lit ''expect''), array_field c (lit ''logits'')) of
        (Some expect, Some logits_json) \<Rightarrow>
          (\<exists>logits sampler.
             list_all2 (\<lambda>v f. decode_lit S L v = Some f) logits_json logits \<and>
             Sampler_new (s64 S) (config_from S J (case_settings c)) = Inr sampler \<and>
             (boundary_case S L J (case_settings c) logits expect \<or>
              (\<exists>expected. list_all2 (\<lambda>v f. decode_lit S L v = Some f) expect expected \<and>
                 matches S L (has_temperature S J (case_settings c)) logits
                   (apply_filters S (sa_cfg sampler) logits (case_history c)) expected)))
      | _ \<Rightarrow> True)"

lemma collect_lits: "collect_result (\<lambda>v. ok_or (decode_lit S L v) e) vs = Inr fs \<longleftrightarrow> list_all2 (\<lambda>v f. decode_lit S L v = Some f) vs fs"
  by (simp add: collect_result_Inr)

lemma collect_lits_Inl: "collect_result (\<lambda>v. ok_or (decode_lit S L v) e) vs = Inl e' \<Longrightarrow> e' = e"
  by (induction vs) (auto simp: try_bind_Inl)

text \<open>A case the program can read, by its verdict.\<close>

lemma sample_case_read:
  assumes "array_field c (lit ''expect'') = Some expect" and "array_field c (lit ''logits'') = Some logits_json"
    and "collect_result (\<lambda>v. ok_or (decode_lit S L v) FAILURE) logits_json = Inr logits"
    and "Sampler_new (s64 S) (config_from S J (case_settings c)) = Inr sampler"
  defines "v \<equiv> compare S L (apply_filters S (sa_cfg sampler) logits (case_history c)) expect logits (has_temperature S J (case_settings c))"
  shows "\<exists>st'. sample_case S L J c st = Inr st' \<and>
    (failed st' \<longleftrightarrow> failed st \<or> differs v \<and> \<not> boundary_case S L J (case_settings c) logits expect)"
    and "sample_agrees S L J c \<longleftrightarrow> boundary_case S L J (case_settings c) logits expect \<or> \<not> differs v"
proof -
  show "\<exists>st'. sample_case S L J c st = Inr st' \<and>
    (failed st' \<longleftrightarrow> failed st \<or> differs v \<and> \<not> boundary_case S L J (case_settings c) logits expect)"
    using assms(1-4) by (cases v) (simp_all add: sample_case_def tally_verdict_def Let_def count_ties_def differs_def flip: v_def)
  have "list_all2 (\<lambda>v f. decode_lit S L v = Some f) logits_json fs \<longleftrightarrow> fs = logits" for fs
    unfolding collect_lits [of S L FAILURE, symmetric] assms(3) by auto
  then show "sample_agrees S L J c \<longleftrightarrow> boundary_case S L J (case_settings c) logits expect \<or> \<not> differs v"
    using assms(1,2,4) unfolding v_def compare_accepts sample_agrees_def by simp
qed

lemma sample_case_outcome:
  "case sample_case S L J c st of
     Inl code \<Rightarrow> code = FAILURE \<and> \<not> sample_agrees S L J c
   | Inr st' \<Rightarrow> failed st' \<longleftrightarrow> failed st \<or> \<not> sample_agrees S L J c"
proof (cases "array_field c (lit ''expect'')"; cases "array_field c (lit ''logits'')")
  fix expect logits_json
  assume a: "array_field c (lit ''expect'') = Some expect" "array_field c (lit ''logits'') = Some logits_json"
  show ?thesis
  proof (cases "collect_result (\<lambda>v. ok_or (decode_lit S L v) FAILURE) logits_json")
    case (Inl code)
    moreover have "\<not> list_all2 (\<lambda>v f. decode_lit S L v = Some f) logits_json fs" for fs
      unfolding collect_lits [of S L FAILURE, symmetric] Inl by simp
    ultimately show ?thesis using a collect_lits_Inl [OF Inl] by (simp add: sample_case_def sample_agrees_def)
  next
    case (Inr logits)
    show ?thesis
    proof (cases "Sampler_new (s64 S) (config_from S J (case_settings c))")
      case Inl
      then show ?thesis using a Inr by (simp add: sample_case_def sample_agrees_def)
    next
      case (Inr sampler)
      note read = sample_case_read [OF a \<open>collect_result _ _ = _\<close> Inr]
      show ?thesis using read(1) [of st] read(2) by auto
    qed
  qed
qed (simp_all add: sample_case_def sample_agrees_def)

lemma sample_cases_outcome:
  "case sample_cases S L J cs st of
     Inl code \<Rightarrow> code = FAILURE \<and> \<not> list_all (sample_agrees S L J) cs
   | Inr st' \<Rightarrow> failed st' \<longleftrightarrow> failed st \<or> \<not> list_all (sample_agrees S L J) cs"
proof (induction cs arbitrary: st)
  case (Cons c cs)
  show ?case
  proof (cases "sample_case S L J c st")
    case (Inr st')
    then show ?thesis using Cons.IH [of st'] sample_case_outcome [of S L J c st] by (auto split: sum.splits)
  qed (use sample_case_outcome [of S L J c st] in simp)
qed simp

definition sample_verdict :: "(u32, 'g) sops \<Rightarrow> 'g lits \<Rightarrow> 'g jfloat \<Rightarrow> 'g Value list \<Rightarrow> ExitCode" where
  "sample_verdict S L J cases =
     (case sample_cases S L J cases (no_tally False) of Inl code \<Rightarrow> code | Inr st \<Rightarrow> if failed st then FAILURE else SUCCESS)"

interpretation samples: corpus_run "sample_agrees S L J" "sample_verdict S L J" for S L J
proof
  show "sample_verdict S L J cases = SUCCESS \<longleftrightarrow> list_all (sample_agrees S L J) cases" for cases
    using sample_cases_outcome [of S L J cases "no_tally False"]
    by (auto simp: sample_verdict_def no_tally_def split: sum.splits if_splits)
qed

text \<open>Every case that is run is counted once.\<close>

lemma sample_case_forms:
  assumes "sample_case S L J c st = Inr st'"
  shows "st' = st\<lparr>bad := bad st + 1\<rparr> \<or> st' = st\<lparr>bad := bad st + 1, failed := True\<rparr> \<or>
    (\<exists>v excused ties mismatch. st' = tally_verdict v excused (count_ties ties mismatch st))"
  using assms
  by (cases "Sampler_new (s64 S) (config_from S J (case_settings c))")
    (auto simp: sample_case_def Let_def split: option.splits)

lemma tally_verdict_counts:
  "ok (tally_verdict v x st) + bad (tally_verdict v x st) + n_boundary (tally_verdict v x st) = Suc (ok st + bad st + n_boundary st)"
  "n_exact (tally_verdict v x st) + n_ulp (tally_verdict v x st) + ok st = n_exact st + n_ulp st + ok (tally_verdict v x st)"
  "n_ties (tally_verdict v x st) = n_ties st"
  "n_tie_index_mismatch (tally_verdict v x st) = n_tie_index_mismatch st"
  by (cases v; simp add: tally_verdict_def)+

lemma sample_case_counted:
  assumes "sample_case S L J c st = Inr st'"
  shows "ok st' + bad st' + n_boundary st' = Suc (ok st + bad st + n_boundary st) \<and>
    n_exact st' + n_ulp st' + ok st = n_exact st + n_ulp st + ok st' \<and>
    n_tie_index_mismatch st' + n_ties st \<le> n_ties st' + n_tie_index_mismatch st"
  using sample_case_forms [OF assms]
proof (elim disjE exE)
  fix v excused ties mismatch
  assume "st' = tally_verdict v excused (count_ties ties mismatch st)"
  then show ?thesis
    using tally_verdict_counts [of v excused "count_ties ties mismatch st"] by (simp add: count_ties_def)
qed simp_all

lemma sample_cases_counted:
  "sample_cases S L J cs st = Inr st' \<Longrightarrow>
     ok st' + bad st' + n_boundary st' = length cs + (ok st + bad st + n_boundary st) \<and>
     n_exact st' + n_ulp st' + ok st = n_exact st + n_ulp st + ok st' \<and>
     n_tie_index_mismatch st' + n_ties st \<le> n_ties st' + n_tie_index_mismatch st"
proof (induction cs arbitrary: st)
  case (Cons c cs)
  then obtain st1 where "sample_case S L J c st = Inr st1" "sample_cases S L J cs st1 = Inr st'" by auto
  then show ?case using Cons.IH [of st1] sample_case_counted [of S L J c st st1] by force
qed simp

lemma sample_corpus_exit: "sample_corpus E args \<noteq> Inl SUCCESS"
  by (auto simp: sample_corpus_def Let_def exit_simps ok_or_Inl)

section \<open>The draws of the frequency check\<close>

lemma sampler_next_draw:
  assumes "sampler_next S scale53 s logits h = (Inr t, s')"
  shows "t < length logits" and "is_positive S (softmax S (apply_filters S (sa_cfg s) logits h) ! t)" and "sa_cfg s' = sa_cfg s"
proof -
  let ?p = "softmax S (apply_filters S (sa_cfg s) logits h)"
  obtain u where "select S ?p u = Some t" "sa_cfg s' = sa_cfg s"
    using assms by (auto simp: sampler_next_def Let_def split: prod.splits if_splits option.splits)
  moreover from this(1) have "t < length ?p \<and> is_positive S (?p ! t)"
    using select_from_spec [of S u 0 "f_zero (s64 S)" None ?p t] by (auto simp: select_def drawn_def)
  ultimately show "t < length logits" "is_positive S (?p ! t)" "sa_cfg s' = sa_cfg s" by simp_all
qed

text \<open>A run of draws never indexes out of range; it ends with an error of the sampler, or every draw is counted, no
  draw is impossible and only tokens with a positive probability are counted.\<close>

definition fair_draws :: "(u32, 'g) sops \<Rightarrow> u32 list \<Rightarrow> nat \<Rightarrow> nat list \<Rightarrow> nat \<Rightarrow> (nat list \<times> nat) option \<Rightarrow> bool" where
  "fair_draws S target draws seen impossible r \<longleftrightarrow>
     (case r of
        None \<Rightarrow> True
      | Some (seen', impossible') \<Rightarrow>
          impossible' = impossible \<and> length seen' = length seen \<and> sum_list seen' = sum_list seen + draws \<and>
          (\<forall>i < length seen. seen ! i < seen' ! i \<longrightarrow> is_positive S (target ! i)))"

lemma fair_draws_step:
  assumes "fair_draws S target draws (seen[t := seen ! t + 1]) impossible r" and "t < length seen" and "is_positive S (target ! t)"
  shows "fair_draws S target (Suc draws) seen impossible r"
proof (cases r)
  case (Some p)
  obtain seen' k where p: "p = (seen', k)" by (cases p)
  have "sum_list (seen[t := seen ! t + 1]) = sum_list seen + 1" using assms(2) by (simp add: sum_list_update)
  moreover have "is_positive S (target ! i)" if "i < length seen" "seen ! i < seen' ! i" for i
    using that assms by (cases "i = t") (auto simp: Some p fair_draws_def)
  ultimately show ?thesis using assms(1) by (simp add: fair_draws_def Some p)
qed (simp add: fair_draws_def)

lemma draw_many_possible:
  assumes "ordered_floats (s32 S)" and "target = softmax S (apply_filters S (sa_cfg s) logits [])" and "length seen = length logits"
  shows "\<exists>r. draw_many S scale53 logits target draws s seen impossible = Inr r \<and> fair_draws S target draws seen impossible r"
  using assms(2,3)
proof (induction draws arbitrary: s seen impossible)
  case (Suc draws)
  obtain r s' where n: "sampler_next S scale53 s logits [] = (r, s')" by (cases "sampler_next S scale53 s logits []")
  show ?case
  proof (cases r)
    case (Inr t)
    note dr = sampler_next_draw [OF n [unfolded Inr]]
    have pos: "is_positive S (target ! t)" using dr(2) Suc.prems(1) by simp
    then have "\<not> f_eq (s32 S) (target ! t) (f_zero (s32 S))"
      using ordered_floatsD(2,6) [OF assms(1)] unfolding is_positive_def by metis
    moreover have t: "t < length seen" "t < length target" using dr(1) Suc.prems by simp_all
    ultimately have "draw_many S scale53 logits target (Suc draws) s seen impossible =
        draw_many S scale53 logits target draws s' (seen[t := seen ! t + 1]) impossible"
      using n Inr by simp
    then show ?thesis
      using Suc.IH [of s' "seen[t := seen ! t + 1]" impossible] Suc.prems dr(3) fair_draws_step [OF _ t(1) pos] by force
  qed (simp add: n fair_draws_def)
qed (simp add: fair_draws_def)

lemma freq_case_exit: "freq_case S L scale53 draws c \<noteq> Inl SUCCESS"
proof -
  have "draw_many S scale53 logits target n s seen k \<noteq> Inl SUCCESS" for logits target n s seen k
    by (induction n arbitrary: s seen k) (auto simp: exit_simps split: prod.splits sum.splits)
  then show ?thesis by (auto simp: freq_case_def Let_def exit_simps split: prod.splits sum.splits option.splits)
qed

lemma frequency_check_exit: "frequency_check S L scale53 draws \<noteq> Inl SUCCESS"
proof -
  have "collect_result (freq_case S L scale53 draws) cs \<noteq> Inl SUCCESS" for cs
    by (induction cs) (auto simp: exit_simps freq_case_exit)
  then show ?thesis by (auto simp: frequency_check_def exit_simps)
qed

text \<open>An expected NaN is never matched, although the corpus format spells it: no number equals it.\<close>

lemma nan_never_matches:
  assumes "f_nan (s32 S) (li_nan L)" and "ordered_floats (s32 S)" and "\<not> f_finite (s32 S) (li_nan L)"
    and "VStr (lit ''nan'') \<in> set expect"
  shows "differs (compare S L got expect input allow_ulp)"
proof (rule ccontr)
  assume "\<not> differs (compare S L got expect input allow_ulp)"
  then obtain expected where e: "list_all2 (\<lambda>v f. decode_lit S L v = Some f) expect expected"
    and m: "list_all2 (near S L allow_ulp) (total_sort got) (total_sort expected)"
    unfolding compare_accepts matches_def same_values_def by auto
  obtain i where "i < length expect" "expect ! i = VStr (lit ''nan'')" using assms(4) by (auto simp: in_set_conv_nth)
  then have "i < length expected" "expected ! i = li_nan L"
    using list_all2_lengthD [OF e] list_all2_nthD [OF e, of i] by simp_all
  then have "li_nan L \<in> set expected" by (metis nth_mem)
  then have "li_nan L \<in> set (total_sort expected)" by (simp add: total_sort_def)
  then obtain x where "near S L allow_ulp x (li_nan L)"
    using m by (auto simp: list_all2_conv_all_nth in_set_conv_nth)
  moreover have "\<not> f_eq (s32 S) x (li_nan L)" using assms(1,2) unfolding ordered_floats_def by meson
  ultimately show False using assms(3) by (simp add: near_def within_ulp_def Let_def)
qed


end
