(* ===== verification/Delta_Check.thy ===== *)
theory Delta_Check
  imports Corpus_Check
begin

text \<open>
  \<open>deltacheck\<close> (\<open>delta/src/main.rs\<close>): the delta rule against the unit cases of a golden bundle. Cases are found by the
  names of their tensors, run, and compared with two recorded results. The program is modelled up to its exit code;
  the relative errors, which are only printed, are left out. The elements of a shape are taken to be fewer than
  \<open>2^64\<close> when the state is allocated.
\<close>

section \<open>Finding the cases\<close>

definition tag_keys :: rstr where
  "tag_keys = lit ''BHTKV''"

text \<open>\<open>split_at(1)\<close> panics inside a character of more than one byte.\<close>

fun parse_parts :: "rstr list \<Rightarrow> (rchar \<rightharpoonup> nat) \<Rightarrow> ExitCode + (rchar \<rightharpoonup> nat) option" where
  "parse_parts [] dims = Inr (Some dims)"
| "parse_parts (part # parts) dims =
     (if str_len part < 2 then parse_parts parts dims
      else
        let key = hd part in
        guard_err (1 < char_len_utf8 key) ABORT (
        case parse_usize (tl part) of
          None \<Rightarrow> Inr None
        | Some n \<Rightarrow> parse_parts parts (if key \<in> set tag_keys then dims(key \<mapsto> n) else dims)))"

definition dims_shape :: "(rchar \<rightharpoonup> nat) \<Rightarrow> Shape option" where
  "dims_shape dims =
     (case map dims (lit ''BTHKV'') of
        [Some b, Some t, Some h, Some k, Some v] \<Rightarrow> Some \<lparr>sh_b = b, sh_t = t, sh_h = h, sh_k = k, sh_v = v\<rparr>
      | _ \<Rightarrow> None)"

definition parse_tag :: "rstr \<Rightarrow> ExitCode + Shape option" where
  "parse_tag tag =
     try_bind (parse_parts (split_char 95 tag) Map.empty) (\<lambda>dims. Inr (Option.bind dims dims_shape))"

definition tag_of_name :: "rstr \<Rightarrow> rstr option" where
  "tag_of_name name =
     Option.bind (strip_prefix name (lit ''delta_'')) (\<lambda>rest. map_option fst (split_once rest (lit ''__'')))"

definition discover :: "'g Bundle \<Rightarrow> ExitCode + (rstr \<times> Shape) list" where
  "discover b =
     (let tags = sort (remdups (List.map_filter tag_of_name (bundle_names b))) in
      try_bind (collect_result (\<lambda>tag. try_bind (parse_tag tag) (\<lambda>s. Inr (map_option (Pair tag) s))) tags) (\<lambda>cs.
      Inr (List.map_filter id cs)))"

section \<open>Running them\<close>

definition operand :: "'g GEnv \<Rightarrow> 'g Bundle \<Rightarrow> rstr \<Rightarrow> rstr \<Rightarrow> bundle_error + u32 list" where
  "operand E b tag nm = bundle_read (ge_fs E) b (lit ''delta_'' @ tag @ lit ''__'' @ nm)"

definition form_ok :: "'g GEnv \<Rightarrow> u32 list \<Rightarrow> bundle_error + u32 list \<Rightarrow> bool" where
  "form_ok E mine recorded =
     (case recorded of Inl _ \<Rightarrow> False | Inr expect \<Rightarrow> f_le (ge_F E) (fst (max_abs_diff (ge_F E) mine expect)) (ge_TOL E))"

definition delta_case :: "'g GEnv \<Rightarrow> 'g Bundle \<Rightarrow> rstr \<times> Shape \<Rightarrow> ExitCode + bool" where
  "delta_case E b = (\<lambda>(tag, s).
     case (operand E b tag (lit ''q''), operand E b tag (lit ''k''), operand E b tag (lit ''v''),
           operand E b tag (lit ''g''), operand E b tag (lit ''beta'')) of
       (Inr q, Inr k, Inr v, Inr gg, Inr beta) \<Rightarrow>
         let want_q = wrap64 (sh_b s * sh_t s * sh_h s * sh_k s);
             want_v = wrap64 (sh_b s * sh_t s * sh_h s * sh_v s);
             want_g = wrap64 (sh_b s * sh_t s * sh_h s)
         in if length q \<noteq> want_q \<or> length k \<noteq> want_q \<or> length v \<noteq> want_v \<or> length gg \<noteq> want_g \<or> length beta \<noteq> want_g
            then Inr False
            else
              try_bind (map_err (\<lambda>_. ABORT) (forward_prepared (ge_N E) s q k v gg beta)) (\<lambda>(state, out).
              Inr (list_all (\<lambda>form.
                  form_ok E out (operand E b tag (form @ lit ''_out'')) \<and>
                  form_ok E state (operand E b tag (form @ lit ''_state''))) [lit ''recurrent'', lit ''chunked'']))
     | _ \<Rightarrow> Inr False)"

definition delta_verdict :: "'g GEnv \<Rightarrow> 'g Bundle \<Rightarrow> (rstr \<times> Shape) list \<Rightarrow> ExitCode" where
  "delta_verdict E b = corpus_verdict (delta_case E b) id"

definition delta_cases :: "'g GEnv \<Rightarrow> rstr list \<Rightarrow> ExitCode + 'g Bundle \<times> (rstr \<times> Shape) list" where
  "delta_cases E args =
     try_bind (ok_or (List.find (\<lambda>a. \<not> starts_with a (lit ''--'')) (drop 1 args)) USAGE) (\<lambda>dir.
     try_bind (map_err (\<lambda>_. FAILURE) (Bundle_open (ge_fs E) (ge_manifest E) dir)) (\<lambda>b.
     try_bind (discover b) (\<lambda>cases.
     guard_err (cases = []) FAILURE (Inr (b, cases)))))"

definition deltacheck :: "'g GEnv \<Rightarrow> rstr list \<Rightarrow> ExitCode" where
  "deltacheck E args =
     (case delta_cases E args of
        Inl code \<Rightarrow> code
      | Inr (b, cases) \<Rightarrow> if has_flag args (lit ''--list'') then SUCCESS else delta_verdict E b cases)"

section \<open>Tags\<close>

lemma split_char_app: "sep \<notin> set p \<Longrightarrow> split_char sep (p @ sep # s) = p # split_char sep s"
  by (induction p) simp_all

lemma split_char_last: "sep \<notin> set p \<Longrightarrow> split_char sep p = [p]"
  by (induction p) simp_all

lemma parse_usize_show:
  assumes "n < 2 ^ 64"
  shows "parse_usize (show_nat n) = Some n"
proof (cases "show_nat n")
  case Nil
  then show ?thesis using show_nat_digits [of n] by simp
next
  case (Cons c cs)
  have "digits_nat (c # cs) = n" using digits_nat_show_nat [of n] unfolding Cons .
  moreover have "list_all is_digit (c # cs)" using show_nat_digits [of n] unfolding Cons list_all_iff by blast
  moreover from this have "c \<noteq> 43" by (auto simp: is_digit_def)
  ultimately show ?thesis using assms by (simp add: parse_usize_def Cons)
qed

lemma str_len_digits: "\<forall>c \<in> set s. is_digit c \<Longrightarrow> str_len s = length s"
  by (induction s) (simp_all add: char_len_utf8_def is_digit_def)

lemma parse_parts_dim:
  assumes "key \<in> set tag_keys" and "n < 2 ^ 64"
  shows "parse_parts ((key # show_nat n) # parts) dims = parse_parts parts (dims(key \<mapsto> n))"
proof -
  have "key < 128" using assms(1) by (auto simp: tag_keys_def)
  moreover have "0 < length (show_nat n)" using show_nat_digits [of n] by simp
  ultimately show ?thesis
    using assms show_nat_digits [of n] by (simp add: char_len_utf8_def str_len_digits parse_usize_show)
qed

definition shape_tag :: "Shape \<Rightarrow> rstr" where
  "shape_tag s =
     lit ''B'' @ show_nat (sh_b s) @ lit ''_H'' @ show_nat (sh_h s) @ lit ''_T'' @ show_nat (sh_t s) @
     lit ''_K'' @ show_nat (sh_k s) @ lit ''_V'' @ show_nat (sh_v s)"

text \<open>The tag of a shape is read back as this shape.\<close>

lemma parse_shape_tag:
  assumes "list_all (\<lambda>n. n < 2 ^ 64) [sh_b s, sh_h s, sh_t s, sh_k s, sh_v s]"
  shows "parse_tag (shape_tag s) = Inr (Some s)"
proof -
  have digits: "95 \<notin> set (show_nat n)" for n using show_nat_digits [of n] by (auto simp: is_digit_def)
  have "shape_tag s = (66 # show_nat (sh_b s)) @ 95 # (72 # show_nat (sh_h s)) @ 95 # (84 # show_nat (sh_t s)) @
      95 # (75 # show_nat (sh_k s)) @ 95 # (86 # show_nat (sh_v s))"
    by (simp add: shape_tag_def)
  then have "split_char 95 (shape_tag s) = [66 # show_nat (sh_b s), 72 # show_nat (sh_h s), 84 # show_nat (sh_t s),
      75 # show_nat (sh_k s), 86 # show_nat (sh_v s)]"
    using digits by (simp only:) (subst split_char_app | subst split_char_last | simp)+
  moreover have "set tag_keys = {66, 72, 84, 75, 86}" by (simp add: tag_keys_def)
  ultimately show ?thesis using assms by (simp add: parse_tag_def parse_parts_dim dims_shape_def del: parse_parts.simps(2))
qed

section \<open>What success says\<close>

text \<open>Within the tolerance wherever both vectors have an element.\<close>

definition within_tol :: "'g GEnv \<Rightarrow> u32 list \<Rightarrow> u32 list \<Rightarrow> bool" where
  "within_tol E mine expect \<longleftrightarrow>
     (\<forall>i < min (length mine) (length expect). \<not> f_lt (ge_F E) (ge_TOL E) (dist (ge_F E) (mine ! i) (expect ! i)))"

definition reproduces :: "'g GEnv \<Rightarrow> u32 list \<Rightarrow> bundle_error + u32 list \<Rightarrow> bool" where
  "reproduces E mine recorded \<longleftrightarrow> (\<exists>expect. recorded = Inr expect \<and> within_tol E mine expect)"

definition delta_agrees :: "'g GEnv \<Rightarrow> 'g Bundle \<Rightarrow> rstr \<times> Shape \<Rightarrow> bool" where
  "delta_agrees E b = (\<lambda>(tag, s).
     \<exists>q k v gg beta state out.
       operand E b tag (lit ''q'') = Inr q \<and> operand E b tag (lit ''k'') = Inr k \<and> operand E b tag (lit ''v'') = Inr v \<and>
       operand E b tag (lit ''g'') = Inr gg \<and> operand E b tag (lit ''beta'') = Inr beta \<and>
       length q < 2 ^ 64 \<and> length v < 2 ^ 64 \<and> length gg < 2 ^ 64 \<and>
       forward_prepared (ge_N E) s q k v gg beta = Inr (state, out) \<and>
       reproduces E out (operand E b tag (lit ''recurrent_out'')) \<and>
       reproduces E state (operand E b tag (lit ''recurrent_state'')) \<and>
       reproduces E out (operand E b tag (lit ''chunked_out'')) \<and>
       reproduces E state (operand E b tag (lit ''chunked_state'')))"

definition usable_floats :: "'g GEnv \<Rightarrow> bool" where
  "usable_floats E \<longleftrightarrow> ordered_floats (ge_F E) \<and> \<not> f_nan (ge_F E) (f_zero (ge_F E)) \<and> f_le (ge_F E) (f_zero (ge_F E)) (ge_TOL E)"

lemma form_ok_iff: "usable_floats E \<Longrightarrow> form_ok E mine recorded \<longleftrightarrow> reproduces E mine recorded"
  by (auto simp: usable_floats_def form_ok_def reproduces_def within_tol_def max_abs_diff_le split: sum.splits)

lemma forward_prepared_sizes:
  "forward_prepared N s q k v g beta = Inr r \<Longrightarrow> validate_operands s q k v g beta"
  by (auto simp: forward_prepared_def forward_prepared_into_def assert_that_def split: if_splits)

lemma delta_case_agrees:
  assumes "usable_floats E"
  shows "delta_case E b c = Inr True \<longleftrightarrow> delta_agrees E b c"
proof (cases c)
  case (Pair tag s)
  have forms: "lit ''recurrent'' @ lit ''_out'' = lit ''recurrent_out''" "lit ''recurrent'' @ lit ''_state'' = lit ''recurrent_state''"
    "lit ''chunked'' @ lit ''_out'' = lit ''chunked_out''" "lit ''chunked'' @ lit ''_state'' = lit ''chunked_state''"
    by (simp_all flip: lit_append del: lit_simps)
  show ?thesis
    by (cases "operand E b tag (lit ''q'')"; cases "operand E b tag (lit ''k'')"; cases "operand E b tag (lit ''v'')";
        cases "operand E b tag (lit ''g'')"; cases "operand E b tag (lit ''beta'')")
      (auto simp: delta_case_def delta_agrees_def Pair forms form_ok_iff [OF assms] wrap64_def Let_def validate_operands_def
        simp del: lit_simps dest: forward_prepared_sizes)
qed

lemma delta_case_exit: "delta_case E b c \<noteq> Inl SUCCESS"
  by (auto simp: delta_case_def Let_def exit_simps split: prod.splits sum.splits)

interpretation delta: corpus_run "\<lambda>c. delta_case E b c = Inr True" "delta_verdict E b" for E b
proof
  have "(\<exists>v. r = Inr v \<and> id v) \<longleftrightarrow> r = Inr True" for r :: "ExitCode + bool" by auto
  then show "delta_verdict E b cases = SUCCESS \<longleftrightarrow> list_all (\<lambda>c. delta_case E b c = Inr True) cases" for cases
    using corpus_verdict_SUCCESS [of "delta_case E b" id cases, OF delta_case_exit] by (simp only: delta_verdict_def)
qed

lemma parse_parts_exit: "parse_parts parts dims \<noteq> Inl SUCCESS"
  by (induction parts dims rule: parse_parts.induct) (auto simp: Let_def exit_simps split: option.splits)

lemma delta_cases_exit: "delta_cases E args \<noteq> Inl SUCCESS"
proof -
  have "collect_result (\<lambda>tag. try_bind (parse_tag tag) (\<lambda>s. Inr (map_option (Pair tag) s))) tags \<noteq> Inl SUCCESS" for tags
    by (induction tags) (auto simp: parse_tag_def exit_simps parse_parts_exit)
  then show ?thesis by (auto simp: delta_cases_def discover_def Let_def exit_simps)
qed


section \<open>Witness\<close>

text \<open>One case of one element each, every tensor in one file of four bytes.\<close>

definition dc_entry :: "string \<Rightarrow> TensorEntry" where
  "dc_entry nm = \<lparr>te_group = lit ''units'', te_name = lit ''delta_B1_H1_T1_K1_V1__'' @ lit nm, te_file = lit ''one'', te_shape = [1],
     te_dtype = lit ''f32'', te_numel = 1, te_nbytes = 4\<rparr>"

definition dc_tensors :: "TensorEntry list" where
  "dc_tensors = map dc_entry [''q'', ''k'', ''v'', ''g'', ''beta'', ''recurrent_out'', ''recurrent_state'', ''chunked_out'', ''chunked_state'']"

definition dc_E :: "nat GEnv" where
  "dc_E = gc_E\<lparr>ge_fs := (\<lambda>p. if p = lit ''d/manifest.json'' then Some [] else if p = lit ''d/one'' then Some [0, 0, 0, 0] else None),
     ge_manifest := (\<lambda>_. Some ((bu_manifest ld_ex)\<lparr>mf_tensors := dc_tensors\<rparr>))\<rparr>"

definition dc_args :: "rstr list" where
  "dc_args = map lit [''deltacheck'', ''d'']"

definition dc_b :: "nat Bundle" where
  "dc_b = \<lparr>bu_root = lit ''d'', bu_manifest = (bu_manifest ld_ex)\<lparr>mf_tensors := dc_tensors\<rparr>,
     bu_index = map (\<lambda>e. (te_name e, e)) dc_tensors\<rparr>"

definition dc_shape :: Shape where
  "dc_shape = \<lparr>sh_b = 1, sh_t = 1, sh_h = 1, sh_k = 1, sh_v = 1\<rparr>"

lemma dc_tag: "shape_tag dc_shape = lit ''B1_H1_T1_K1_V1''"
  by (simp add: shape_tag_def dc_shape_def show_nat.simps)

lemma dc_paths: "path_join (lit ''d'') (lit ''manifest.json'') = lit ''d/manifest.json''" "path_join (lit ''d'') (lit ''one'') = lit ''d/one''"
  by (simp_all add: path_join_def starts_with_def ends_with_def)

lemma dc_names: "distinct (map te_name dc_tensors)"
  by (simp add: dc_tensors_def dc_entry_def)

lemma index_distinct:
  "distinct (map te_name ts) \<Longrightarrow> te_name ` set ts \<inter> fst ` set idx = {} \<Longrightarrow>
     index_tensors ts idx = Inr (idx @ map (\<lambda>e. (te_name e, e)) ts)"
proof (induction ts arbitrary: idx)
  case (Cons t ts)
  have "map_of idx (te_name t) = None" using Cons.prems(2) by (auto simp: map_of_eq_None_iff)
  moreover have "AList.update (te_name t) t idx = idx @ [(te_name t, t)]" using Cons.prems(2) update_fresh [of "te_name t" idx t] by auto
  ultimately show ?case using Cons.IH [of "idx @ [(te_name t, t)]"] Cons.prems by auto
qed simp

lemma dc_opens: "Bundle_open (ge_fs dc_E) (ge_manifest dc_E) (lit ''d'') = Inr dc_b"
  using index_distinct [OF dc_names, of "[]"]
  by (simp add: Bundle_open_def dc_E_def dc_paths dc_b_def ld_ex_def bu_ex_def del: lit_simps)

lemma dc_read:
  assumes "e \<in> set dc_tensors"
  shows "bundle_read (ge_fs dc_E) dc_b (te_name e) = Inr [0]"
proof -
  have "map_of (bu_index dc_b) (te_name e) = Some e"
    using assms dc_names by (auto simp: dc_b_def comp_def intro!: map_of_is_SomeI)
  moreover have "te_file e = lit ''one''" "te_nbytes e = 4" using assms by (auto simp: dc_tensors_def dc_entry_def)
  moreover have "lit ''d/one'' \<noteq> lit ''d/manifest.json''" by simp
  ultimately show ?thesis
    by (simp add: bundle_read_def read_entry_def dc_E_def dc_paths dc_b_def elements_def del: lit_simps)
qed

lemma dc_operand: "nm \<in> set [''q'', ''k'', ''v'', ''g'', ''beta'', ''recurrent_out'', ''recurrent_state'', ''chunked_out'', ''chunked_state''] \<Longrightarrow>
    operand dc_E dc_b (lit ''B1_H1_T1_K1_V1'') (lit nm) = Inr [0]"
proof -
  assume "nm \<in> set [''q'', ''k'', ''v'', ''g'', ''beta'', ''recurrent_out'', ''recurrent_state'', ''chunked_out'', ''chunked_state'']"
  then have "dc_entry nm \<in> set dc_tensors" unfolding dc_tensors_def by (simp only: set_map imageI)
  moreover have "te_name (dc_entry nm) = lit ''delta_'' @ lit ''B1_H1_T1_K1_V1'' @ lit ''__'' @ lit nm" by (simp add: dc_entry_def)
  ultimately show ?thesis using dc_read by (metis operand_def)
qed

lemma dc_discover: "discover dc_b = Inr [(lit ''B1_H1_T1_K1_V1'', dc_shape)]"
proof -
  have "list_all (\<lambda>e. tag_of_name (te_name e) = Some (lit ''B1_H1_T1_K1_V1'')) dc_tensors"
    unfolding dc_tensors_def dc_entry_def by code_simp
  then have tags: "\<forall>n \<in> set (bundle_names dc_b). tag_of_name n = Some (lit ''B1_H1_T1_K1_V1'')"
    by (auto simp: bundle_names_def dc_b_def list_all_iff)
  moreover have "bundle_names dc_b \<noteq> []" by (simp add: bundle_names_def dc_b_def dc_tensors_def flip: length_0_conv)
  moreover have "sort (remdups (List.map_filter f ns)) = [t]" if "\<forall>n \<in> set ns. f n = Some t" "ns \<noteq> []"
    for f :: "rstr \<Rightarrow> rstr option" and ns t
  proof -
    have "set (List.map_filter f ns) = {t}" using that by (auto simp: List.map_filter_def image_iff neq_Nil_conv)
    then show ?thesis by (simp flip: sorted_list_of_set_sort_remdups)
  qed
  ultimately have "sort (remdups (List.map_filter tag_of_name (bundle_names dc_b))) = [lit ''B1_H1_T1_K1_V1'']" by blast
  moreover have "parse_tag (lit ''B1_H1_T1_K1_V1'') = Inr (Some dc_shape)"
    using parse_shape_tag [of dc_shape] unfolding dc_tag by (simp add: dc_shape_def del: lit_simps)
  ultimately show ?thesis by (simp add: discover_def List.map_filter_simps del: lit_simps)
qed

lemma dc_case: "delta_agrees dc_E dc_b (lit ''B1_H1_T1_K1_V1'', dc_shape)"
proof -
  have "validate_operands dc_shape [0] [0] [0] [0] [0 :: u32]" by (simp add: validate_operands_def dc_shape_def)
  then obtain state out where "forward_prepared (ge_N dc_E) dc_shape [0] [0] [0] [0] [0] = Inr (state, out)"
    using forward_prepared_into_run [of dc_shape "[0]" "[0]" "[0]" "[0]" "[0]" "replicate 1 (f_zero (f32 (ge_N dc_E)))" "ge_N dc_E"]
    by (cases "prepared_run (ge_N dc_E) dc_shape [0] [0] [0] [0] [0] (replicate 1 (f_zero (f32 (ge_N dc_E))))")
      (simp add: forward_prepared_def dc_shape_def)
  moreover have "within_tol dc_E mine [0]" for mine by (simp add: within_tol_def dc_E_def gc_E_def gc_ops)
  ultimately show ?thesis
    by (simp add: delta_agrees_def dc_operand reproduces_def del: lit_simps)
qed


end
