(* ===== verification/Spec2Isabelle.thy ===== *)
theory Spec2Isabelle
  imports St_Bench Bundle_Cmp Sample_Check Delta_Check
begin

text \<open>
  A verification library for the Rust crates of this repository: a streaming loader for safetensors
  files (\<open>rust-qwen-engine/crates/stloader\<close>), the text layer that matches Python's JSON and Unicode
  behaviour (\<open>shell/crates/shell-text\<close>), and a forward pass for Qwen3.5 checkpoints with its tokenizer,
  chat template, sampler, loaders and command line program (\<open>qwen35-forward\<close>). The theories below follow
  the source files; a definition has the name of the Rust item it translates, with a prefix where two
  files use one name.

  \<^bold>\<open>How the parts work together.\<close> \<open>stloader\<close> reads and checks the header of every shard, plans block-aligned
  requests that cover the tensors, and executes them through a ring of buffers; its fuzzer checks header
  parser and planner against a safety oracle. \<open>qwenrun\<close> reads its arguments, loads a checkpoint directory
  (\<open>real.rs\<close> on top of \<open>safetensors.rs\<close>) and a tokenizer, and then either answers a conversation, by
  rendering the history, encoding, decoding with or without sampling, and parsing the reply back into the
  history, or continues a prompt and compares the result with reference files. Golden bundles (\<open>bundle\<close>,
  \<open>loader.rs\<close>) feed the same forward pass from recorded runs and compare runs with each other.

  \<^bold>\<open>The language.\<close> \<open>Rust_Prelude\<close>: machine integers as words with checked, saturating and wrapping
  operations, \<open>Result\<close> as a sum with \<open>try_bind\<close> for the question mark, little-endian bytes, rounding to
  blocks. \<open>Rust_Str\<close>: a \<open>char\<close> is its scalar value, a \<open>str\<close> the list of its characters, with UTF-8, searching,
  trimming, decimal numbers and byte offsets. \<open>Rust_Float\<close> and \<open>Tensor\<close>: floating point as a record of
  operations, so that what is proved holds for any rounding; \<open>ordered_floats\<close> names what a theorem needs of
  the comparisons. \<open>Serde_Json\<close>: the values of serde\_json; its parser is a parameter.

  \<^bold>\<open>The streaming loader.\<close> \<open>St_Header\<close> (\<open>header.rs\<close>): every accepted header satisfies the shard invariant, and
  well-formed files are accepted with exactly their tensors. \<open>St_Plan\<close> (\<open>plan.rs\<close>): the plan covers every
  tensor, is aligned, and with no gap allowed requests exactly the blocks that hold tensor bytes. \<open>St_Reader\<close>
  (\<open>reader.rs\<close>, \<open>aligned.rs\<close>): the ring loop as an inductive step relation against a kernel that completes
  requests in any order, with slot exclusivity, completeness and a bound on the number of steps. \<open>St_Fuzz\<close>
  and \<open>St_Fuzz_Run\<close> (\<open>fuzz.rs\<close>): the oracle never fires, and the fuzzer, with its case generator and mutator as
  functions of the random state, finds nothing from any seed. \<open>St_Cache\<close> (\<open>cache.rs\<close>, the summaries of \<open>lib.rs\<close>): what the residency
  probe inspects, that the minimum over the shards is one of their ratios and least, and that dropping the cache
  flushes exactly when every file was advised. \<open>St_Selftest\<close> (\<open>selftest.rs\<close>): the synthetic files of the self test, and that all of its checks pass.
  \<open>St_Bench\<close> (\<open>stbench/src/main.rs\<close>): the program over all of this; its \<open>verify\<close> finds no mismatch, its \<open>fuzz\<close> succeeds.

  \<^bold>\<open>Text.\<close> \<open>Py_Json\<close> (\<open>pyjson.rs\<close>): reading what was written gives the value back. \<open>Unicode_GC\<close>
  (\<open>unicode_gc.rs\<close>): category search and normalisation. \<open>Tokenizer\<close> and \<open>Tokenizer_Load\<close> (\<open>tokenizer.rs\<close>): the
  pre-tokenizer tiles the text, merging ends in a normal form, and a loaded tokenizer decodes what it encodes.
  \<open>Chat\<close> (\<open>chat.rs\<close>) and \<open>Chatparse\<close> (\<open>chatparse.rs\<close>): when a conversation renders, and that a rendered turn is
  parsed back. \<open>Chat_Valid\<close>: text stays valid text through all of these.

  \<^bold>\<open>The network.\<close> \<open>Delta_Rule\<close> (\<open>delta/src/lib.rs\<close>), \<open>Gdn_Ops\<close> and \<open>Gdn\<close> (\<open>gdn/src/lib.rs\<close>), \<open>Attention\<close>
  (\<open>attention.rs\<close>), \<open>Layer\<close> (\<open>layer.rs\<close>) and \<open>Model\<close> (\<open>model.rs\<close>): each block with its carried state implements a
  run over a sequence that can be cut anywhere. This contract is a locale, interpreted for every block in
  turn and finally for the network, which gives the transparency of the cache: cached passes over any chunks
  compute the logits of one uncached pass, bit for bit. The threaded linear map equals the serial one.
  \<open>Sample\<close> (\<open>sample.rs\<close>): generator, filters and draw.

  \<^bold>\<open>Loading and running.\<close> \<open>Safetensors\<close> (\<open>safetensors.rs\<close>), \<open>Bundle\<close> (\<open>bundle/src\<close>), \<open>Weight_Source\<close> with the
  locale \<open>tensor_source\<close> of a reader that returns what was asked for or fails, interpreted by \<open>Loader\<close>
  (\<open>loader.rs\<close>) and by \<open>Real_Checkpoint\<close> (\<open>real.rs\<close>): whatever loads satisfies the invariant \<open>model_ok\<close> of the
  forward pass. \<open>Qwen_Chat\<close> and \<open>Qwen_Run\<close> (\<open>bin/qwenrun.rs\<close>) compose everything: the conversation loop, the
  equality of decoding with and without the cache, the dump and its comparison, and the way from the
  arguments to the exit code. \<open>Gdn_Check\<close> (\<open>gdn/src/main.rs\<close>) does the same for the program that runs the stack against
  a golden bundle: what its success says, that the cache does not change it, and that values which are no numbers
  go unnoticed. \<open>Bundle_Cmp\<close> (\<open>bundle/src/main.rs\<close>): the comparator as a program, and which bundles it accepts against
  themselves. \<open>Corpus_Check\<close> (\<open>bin/tokcheck.rs\<close>, \<open>bin/chatcheck.rs\<close>) and \<open>Sample_Check\<close> (\<open>bin/samplecheck.rs\<close>): the programs
  that run a recorded corpus, and \<open>Delta_Check\<close> (\<open>delta/src/main.rs\<close>) that runs the unit cases of a bundle: interpretations of the locale \<open>corpus_run\<close> of a verdict that depends on each
  case alone, with what each of them asks of a case.

  \<^bold>\<open>Errors, loops and bounds.\<close> Every early return is a constructor of an error type; a panic (an index out of
  range, a slice inside a character, a division by zero) is one of them. Loops are recursive functions with
  termination proofs, or \<open>partial_function\<close> into \<open>option\<close>, where \<open>None\<close> is a call that does not return; that
  calls return is then proved as such. The JSON parser recurses with fuel twice the length of the text plus
  two; \<open>json_parse_no_fuel_error\<close> shows that it never runs out. Sizes computed in \<open>usize\<close> wrap (\<open>wrap64\<close>), and
  \<open>sizes_fit\<close> says when none of a model does.

  \<^bold>\<open>Parameters.\<close> The file system is a map from paths to bytes, standard input a list of lines; the JSON parser of
  serde\_json, float parsing and formatting, the Unicode tables (generated, 4961 lines), the allocator, the kernel
  behind \<open>io_uring\<close>, \<open>pread\<close>, \<open>mmap\<close> and \<open>mincore\<close> are arguments of the definitions that use them.

  \<^bold>\<open>Not modelled.\<close> Text that is only printed, error message texts, elapsed times; raw pointers and the unsafe
  blocks behind them; the generated Unicode tables, which are a parameter with the laws that are relied on; the
  Python, C and CUDA parts of the repository.
\<close>

end
